(* ===== verification/Prelude.thy ===== *)
theory Prelude
  imports Main "HOL-Library.Word" "HOL-Library.Product_Lexorder" "HOL-Library.List_Lexorder"
    "HOL-Library.Char_ord" "HOL-Library.Signed_Division"
begin

text \<open>
  Shared vocabulary of the development: the machine types, the result type of a fallible
  computation and the state-passing form of a fallible computation over a mutable state, checked
  and saturating machine arithmetic, and the generic lemmas on lists that the components share.

  A Rust \<open>Result\<close> is a sum, \<open>Inl\<close> the error and \<open>Inr\<close> the value; the question-mark operator is
  \<open>attempt\<close>.  A method on \<open>&mut self\<close> that can fail is a function from the state to the result
  paired with the state it leaves behind, because the code keeps the mutations made before the
  error; its question-mark operator is \<open>attempt_st\<close>.

  A Rust string is the list of its UTF-8 bytes, a \<open>char list\<close>.  A \<open>usize\<close> is a \<open>nat\<close>, with the
  bound \<open>2 ^ 64\<close> written out where the code checks for overflow.
\<close>

type_synonym u8 = "8 word"
type_synonym u16 = "16 word"
type_synonym u32 = "32 word"
type_synonym u64 = "64 word"

text \<open>Sums of cursors and numerals stay numerals.\<close>

declare add_2_eq_Suc [simp del] add_2_eq_Suc' [simp del]

named_theorems result_simps \<open>equations that run a fallible computation\<close>
named_theorems reader_simps \<open>reads of a byte sequence at a known cursor\<close>

section \<open>Fallible computations\<close>

definition attempt :: "'e + 'a \<Rightarrow> ('a \<Rightarrow> 'e + 'b) \<Rightarrow> 'e + 'b" where
  "attempt r f = (case r of Inl e \<Rightarrow> Inl e | Inr a \<Rightarrow> f a)"

lemma attempt_Inl [simp, result_simps]: "attempt (Inl e) f = Inl e"
  by (simp add: attempt_def)

lemma attempt_Inr [simp, result_simps]: "attempt (Inr a) f = f a"
  by (simp add: attempt_def)

lemma attempt_eq_Inr: "attempt r f = Inr b \<longleftrightarrow> (\<exists>a. r = Inr a \<and> f a = Inr b)"
  by (cases r) auto

lemma attempt_eq_Inl: "attempt r f = Inl e \<longleftrightarrow> r = Inl e \<or> (\<exists>a. r = Inr a \<and> f a = Inl e)"
  by (cases r) auto

lemma attempt_cong [fundef_cong]:
  "r = r' \<Longrightarrow> (\<And>a. r' = Inr a \<Longrightarrow> f a = g a) \<Longrightarrow> attempt r f = attempt r' g"
  by (cases r') auto

lemma attempt_if: "attempt (if c then r else s) f = (if c then attempt r f else attempt s f)"
  by simp

text \<open>\<open>Option::ok_or\<close> and \<open>Option::ok_or_else\<close>.\<close>

definition ok_or :: "'e \<Rightarrow> 'a option \<Rightarrow> 'e + 'a" where
  "ok_or e x = (case x of None \<Rightarrow> Inl e | Some a \<Rightarrow> Inr a)"

lemma ok_or_simps [simp, result_simps]: "ok_or e None = Inl e" "ok_or e (Some a) = Inr a"
  by (simp_all add: ok_or_def)

lemma ok_or_eq_Inr [simp]: "ok_or e x = Inr a \<longleftrightarrow> x = Some a"
  by (cases x) auto

text \<open>A guard that returns an error from the function.\<close>

definition guard :: "bool \<Rightarrow> 'e \<Rightarrow> 'e + unit" where
  "guard ok e = (if ok then Inr () else Inl e)"

lemma guard_simps [simp, result_simps]: "guard True e = Inr ()" "guard False e = Inl e"
  by (simp_all add: guard_def)

lemma guard_eq_Inr [simp]: "guard ok e = Inr u \<longleftrightarrow> ok"
  by (simp add: guard_def)

text \<open>Collecting an iterator of results stops at the first error.\<close>

fun try_map :: "('a \<Rightarrow> 'e + 'b) \<Rightarrow> 'a list \<Rightarrow> 'e + 'b list" where
  "try_map f [] = Inr []"
| "try_map f (x # xs) = attempt (f x) (\<lambda>y. attempt (try_map f xs) (\<lambda>ys. Inr (y # ys)))"

lemma try_map_Inr: "(\<And>x. x \<in> set xs \<Longrightarrow> f x = Inr (g x)) \<Longrightarrow> try_map f xs = Inr (map g xs)"
  by (induction xs) auto

lemma try_map_length: "try_map f xs = Inr ys \<Longrightarrow> length ys = length xs"
  by (induction xs arbitrary: ys) (auto simp: attempt_eq_Inr)

lemma try_map_set: "try_map f xs = Inr ys \<Longrightarrow> x \<in> set xs \<Longrightarrow> \<exists>y \<in> set ys. f x = Inr y"
  by (induction xs arbitrary: ys) (auto simp: attempt_eq_Inr)

text \<open>A loop over a list whose body can fail.\<close>

fun try_fold :: "('a \<Rightarrow> 's \<Rightarrow> 'e + 's) \<Rightarrow> 'a list \<Rightarrow> 's \<Rightarrow> 'e + 's" where
  "try_fold f [] s = Inr s"
| "try_fold f (x # xs) s = attempt (f x s) (try_fold f xs)"

lemma try_fold_append: "try_fold f (xs @ ys) s = attempt (try_fold f xs s) (try_fold f ys)"
proof (induction xs arbitrary: s)
  case (Cons x xs)
  then show ?case by (cases "f x s") simp_all
qed simp

lemma try_fold_invariant:
  assumes "\<And>x s t. x \<in> set xs \<Longrightarrow> P s \<Longrightarrow> f x s = Inr t \<Longrightarrow> P t"
    and "P s" and "try_fold f xs s = Inr t"
  shows "P t"
  using assms by (induction xs arbitrary: s) (auto simp: attempt_eq_Inr)

section \<open>Fallible computations over a state\<close>

definition attempt_st ::
    "('e + 'a) \<times> 's \<Rightarrow> ('a \<Rightarrow> 's \<Rightarrow> ('e + 'b) \<times> 's) \<Rightarrow> ('e + 'b) \<times> 's" where
  "attempt_st r f = (case r of (Inl e, s) \<Rightarrow> (Inl e, s) | (Inr a, s) \<Rightarrow> f a s)"

lemma attempt_st_simps [simp, result_simps]:
  "attempt_st (Inl e, s) f = (Inl e, s)"
  "attempt_st (Inr a, s) f = f a s"
  by (simp_all add: attempt_st_def)

lemma attempt_st_eq_Inr:
  "attempt_st r f = (Inr b, t) \<longleftrightarrow> (\<exists>a s. r = (Inr a, s) \<and> f a s = (Inr b, t))"
  by (cases r; cases "fst r") auto

lemma attempt_st_eq_Inl:
  "attempt_st r f = (Inl e, t) \<longleftrightarrow>
     r = (Inl e, t) \<or> (\<exists>a s. r = (Inr a, s) \<and> f a s = (Inl e, t))"
  by (cases r; cases "fst r") auto

lemma attempt_st_cong [fundef_cong]:
  "r = r' \<Longrightarrow> (\<And>a s. r' = (Inr a, s) \<Longrightarrow> f a s = g a s) \<Longrightarrow> attempt_st r f = attempt_st r' g"
  by (cases r'; cases "fst r'") auto

section \<open>Machine arithmetic\<close>

definition usize_max :: nat where
  "usize_max = 2 ^ 64 - 1"

definition checked_add_usize :: "nat \<Rightarrow> nat \<Rightarrow> nat option" where
  "checked_add_usize a b = (if a + b < 2 ^ 64 then Some (a + b) else None)"

definition checked_add_u64 :: "u64 \<Rightarrow> u64 \<Rightarrow> u64 option" where
  "checked_add_u64 a b = (if unat a + unat b < 2 ^ 64 then Some (a + b) else None)"

lemma checked_add_usize_simps [simp]:
  "a + b < 2 ^ 64 \<Longrightarrow> checked_add_usize a b = Some (a + b)"
  by (simp add: checked_add_usize_def)

lemma checked_add_usize_eq_Some:
  "checked_add_usize a b = Some c \<longleftrightarrow> c = a + b \<and> a + b < 2 ^ 64"
  by (auto simp: checked_add_usize_def)

lemma checked_add_u64_eq_Some:
  "checked_add_u64 a b = Some c \<longleftrightarrow> c = a + b \<and> unat a + unat b < 2 ^ 64"
  by (auto simp: checked_add_u64_def)

lemma unat_checked_add_u64:
  "checked_add_u64 a b = Some c \<Longrightarrow> unat c = unat a + unat b"
  by (auto simp: checked_add_u64_eq_Some unat_word_ariths)

lemma unat_of_nat_u64 [simp]: "n < 2 ^ 64 \<Longrightarrow> unat (of_nat n :: u64) = n"
  by (simp add: unat_of_nat)

lemma unat_u64_less: "unat (x :: u64) < 2 ^ 64"
  using unsigned_less [of x] by simp

lemma unat_u8_less: "unat (x :: u8) < 256"
  using unsigned_less [of x] by simp

section \<open>Lists\<close>

text \<open>\<open>slice.windows(2).any(p)\<close>.\<close>

fun any_adjacent :: "('a \<Rightarrow> 'a \<Rightarrow> bool) \<Rightarrow> 'a list \<Rightarrow> bool" where
  "any_adjacent p (x # y # zs) \<longleftrightarrow> p x y \<or> any_adjacent p (y # zs)"
| "any_adjacent p _ \<longleftrightarrow> False"

lemma any_adjacent_eq_sorted:
  fixes f :: "'a \<Rightarrow> 'b :: linorder"
  assumes "sorted (map f xs)"
  shows "any_adjacent (\<lambda>x y. f x = f y) xs \<longleftrightarrow> \<not> distinct (map f xs)"
  using assms
proof (induction "\<lambda>x y. f x = f y" xs rule: any_adjacent.induct)
  case (1 x y zs)
  have "f x \<noteq> f y \<Longrightarrow> f x \<notin> f ` set zs"
    using 1(2) by (auto dest: antisym)
  then show ?case using 1 by auto
qed auto

lemma any_adjacent_strict:
  fixes f :: "'a \<Rightarrow> 'b :: linorder"
  shows "\<not> any_adjacent (\<lambda>x y. f x \<ge> f y) xs \<longleftrightarrow> sorted_wrt (<) (map f xs)"
proof (induction "\<lambda>x y. f x \<ge> f y" xs rule: any_adjacent.induct)
  case (1 x y zs)
  then show ?case by (auto dest: less_trans simp: not_le)
qed auto

text \<open>\<open>Iterator::position\<close>.\<close>

fun position :: "('a \<Rightarrow> bool) \<Rightarrow> 'a list \<Rightarrow> nat option" where
  "position p [] = None"
| "position p (x # xs) = (if p x then Some 0 else map_option Suc (position p xs))"

lemma position_Some:
  "position p xs = Some i \<Longrightarrow> i < length xs \<and> p (xs ! i) \<and> (\<forall>j < i. \<not> p (xs ! j))"
proof (induction xs arbitrary: i)
  case (Cons x xs)
  show ?case
  proof (cases "p x")
    case False
    with Cons.prems obtain k where "position p xs = Some k" "i = Suc k" by auto
    with Cons.IH False show ?thesis by (auto simp: less_Suc_eq_0_disj)
  qed (use Cons in auto)
qed simp

lemma position_None: "position p xs = None \<longleftrightarrow> (\<forall>x \<in> set xs. \<not> p x)"
  by (induction xs) auto

end
