(* ===== verification/Errors.thy ===== *)
theory Errors
  imports Prelude
begin

text \<open>
  The error type of \<open>src/error.rs\<close>.  Each constructor carries what the source's variant carries.
  A message is the fixed text of the source's format string; the values a message interpolates are
  not modelled, as no code reads a message back.
\<close>

datatype database_error =
    Config string
  | Persistence string
  | DataCorruption string
  | Parse string "nat option" "nat option"
  | Execution string
  | Cancelled
  | Timeout
  | ResourceLimit string u64
  | UnknownRole string
  | InvalidAppearanceSet string
  | UnknownVariable string
  | VariableDomain string string string
  | InvalidRecall string
  | Comparison string
  | Parameter string
  | Invariant string
  | Lock string

type_synonym 'a result = "database_error + 'a"

end
