(* ===== verification/Text.thy ===== *)
theory Text
  imports Prelude
begin

text \<open>
  What the source uses of the standard library's text: bytes of a string and UTF-8 validation,
  decimal integers read and written, prefix, suffix and splitting operations.
\<close>

section \<open>Strings and bytes\<close>

definition byte_of_char :: "char \<Rightarrow> u8" where
  "byte_of_char c = word_of_nat (of_char c)"

definition char_of_byte :: "u8 \<Rightarrow> char" where
  "char_of_byte b = char_of (unat b)"

lemma char_of_byte_of_char [simp]: "char_of_byte (byte_of_char c) = c"
  by (simp add: char_of_byte_def byte_of_char_def unat_of_nat)

lemma byte_of_char_of_byte [simp]: "byte_of_char (char_of_byte b) = b"
  using unat_u8_less [of b] by (simp add: char_of_byte_def byte_of_char_def)

definition as_bytes :: "string \<Rightarrow> u8 list" where
  "as_bytes s = map byte_of_char s"

definition of_bytes :: "u8 list \<Rightarrow> string" where
  "of_bytes bs = map char_of_byte bs"

lemma of_bytes_as_bytes [simp]: "of_bytes (as_bytes s) = s"
  by (simp add: of_bytes_def as_bytes_def comp_def)

lemma as_bytes_of_bytes [simp]: "as_bytes (of_bytes bs) = bs"
  by (simp add: of_bytes_def as_bytes_def comp_def)

lemma length_as_bytes [simp]: "length (as_bytes s) = length s"
  by (simp add: as_bytes_def)

lemma as_bytes_inject [simp]: "as_bytes s = as_bytes t \<longleftrightarrow> s = t"
  by (metis of_bytes_as_bytes)

text \<open>\<open>std::str::from_utf8\<close>: the well-formed byte sequences of the Unicode standard.\<close>

definition in_range :: "nat \<Rightarrow> nat \<Rightarrow> u8 \<Rightarrow> bool" where
  "in_range lo hi b \<longleftrightarrow> lo \<le> unat b \<and> unat b \<le> hi"

fun utf8_valid :: "u8 list \<Rightarrow> bool" where
  "utf8_valid [] \<longleftrightarrow> True"
| "utf8_valid (b # bs) \<longleftrightarrow>
     (if unat b < 128 then utf8_valid bs
      else if in_range 194 223 b then
        (case bs of c # cs \<Rightarrow> in_range 128 191 c \<and> utf8_valid cs | _ \<Rightarrow> False)
      else if in_range 224 239 b then
        (case bs of c # d # ds \<Rightarrow>
           in_range (if unat b = 224 then 160 else 128) (if unat b = 237 then 159 else 191) c
           \<and> in_range 128 191 d \<and> utf8_valid ds
         | _ \<Rightarrow> False)
      else if in_range 240 244 b then
        (case bs of c # d # e # es \<Rightarrow>
           in_range (if unat b = 240 then 144 else 128) (if unat b = 244 then 143 else 191) c
           \<and> in_range 128 191 d \<and> in_range 128 191 e \<and> utf8_valid es
         | _ \<Rightarrow> False)
      else False)"

definition from_utf8 :: "u8 list \<Rightarrow> string option" where
  "from_utf8 bs = (if utf8_valid bs then Some (of_bytes bs) else None)"

text \<open>Every string of the program is valid UTF-8; an ASCII string is.\<close>

definition wf_string :: "string \<Rightarrow> bool" where
  "wf_string s \<longleftrightarrow> utf8_valid (as_bytes s)"

lemma from_utf8_as_bytes [simp]: "wf_string s \<Longrightarrow> from_utf8 (as_bytes s) = Some s"
  by (simp add: from_utf8_def wf_string_def)

lemma from_utf8_Some: "from_utf8 bs = Some s \<longleftrightarrow> bs = as_bytes s \<and> wf_string s"
  by (auto simp: from_utf8_def wf_string_def)

lemma wf_string_ascii: "\<forall>c \<in> set s. (of_char c :: nat) < 128 \<Longrightarrow> wf_string s"
  unfolding wf_string_def
  by (induction s) (auto simp: as_bytes_def byte_of_char_def unat_of_nat)

section \<open>Decimal digits\<close>

definition is_digit :: "char \<Rightarrow> bool" where
  "is_digit c \<longleftrightarrow> 48 \<le> (of_char c :: nat) \<and> (of_char c :: nat) \<le> 57"

definition digit_value :: "char \<Rightarrow> nat" where
  "digit_value c = of_char c - 48"

definition digit_char :: "nat \<Rightarrow> char" where
  "digit_char d = char_of (48 + d)"

lemma of_char_digit_char: "d < 10 \<Longrightarrow> (of_char (digit_char d) :: nat) = 48 + d"
  by (simp add: digit_char_def)

lemma is_digit_digit_char [simp]: "d < 10 \<Longrightarrow> is_digit (digit_char d)"
  by (simp add: is_digit_def of_char_digit_char)

lemma digit_value_digit_char [simp]: "d < 10 \<Longrightarrow> digit_value (digit_char d) = d"
  by (simp add: digit_value_def of_char_digit_char)

definition digits_value :: "string \<Rightarrow> nat" where
  "digits_value s = foldl (\<lambda>acc c. 10 * acc + digit_value c) 0 s"

text \<open>\<open>str::parse\<close> for a signed integer in the given range, and for an unsigned one: an optional
  sign (a minus sign only where the type is signed), at least one digit, and no overflow.\<close>

definition parse_digits :: "string \<Rightarrow> nat option" where
  "parse_digits s = (if s \<noteq> [] \<and> (\<forall>c \<in> set s. is_digit c) then Some (digits_value s) else None)"

definition parse_int :: "int \<Rightarrow> int \<Rightarrow> string \<Rightarrow> int option" where
  "parse_int lo hi s =
     (let value = (case s of
          [] \<Rightarrow> None
        | c # cs \<Rightarrow>
            if c = CHR ''+'' then map_option int (parse_digits cs)
            else if c = CHR ''-'' then
              (if lo < 0 then map_option (\<lambda>n. - int n) (parse_digits cs) else None)
            else map_option int (parse_digits s))
      in case value of
           None \<Rightarrow> None
         | Some v \<Rightarrow> if lo \<le> v \<and> v \<le> hi then Some v else None)"

abbreviation parse_i8 :: "string \<Rightarrow> int option" where
  "parse_i8 \<equiv> parse_int (- 128) 127"

abbreviation parse_i16 :: "string \<Rightarrow> int option" where
  "parse_i16 \<equiv> parse_int (- 32768) 32767"

abbreviation parse_i32 :: "string \<Rightarrow> int option" where
  "parse_i32 \<equiv> parse_int (- 2147483648) 2147483647"

abbreviation parse_i64 :: "string \<Rightarrow> int option" where
  "parse_i64 \<equiv> parse_int (- 9223372036854775808) 9223372036854775807"

abbreviation parse_u8 :: "string \<Rightarrow> int option" where
  "parse_u8 \<equiv> parse_int 0 255"

text \<open>\<open>ToString\<close> of the integer types.\<close>

fun show_nat :: "nat \<Rightarrow> string" where
  "show_nat n = (if n < 10 then [digit_char n] else show_nat (n div 10) @ [digit_char (n mod 10)])"

declare show_nat.simps [simp del]

definition show_int :: "int \<Rightarrow> string" where
  "show_int i = (if i < 0 then CHR ''-'' # show_nat (nat (- i)) else show_nat (nat i))"

text \<open>The format \<open>{:02}\<close>.\<close>

definition show_nat_02 :: "nat \<Rightarrow> string" where
  "show_nat_02 n = (if n < 10 then CHR ''0'' # show_nat n else show_nat n)"

lemma show_nat_digits: "c \<in> set (show_nat n) \<Longrightarrow> is_digit c"
proof (induction n rule: show_nat.induct)
  case (1 n)
  show ?case
  proof (cases "n < 10")
    case True
    with 1 show ?thesis by (subst (asm) show_nat.simps) simp
  next
    case False
    from "1.prems" False have "c \<in> set (show_nat (n div 10)) \<or> c = digit_char (n mod 10)"
      by (subst (asm) show_nat.simps) auto
    with "1.IH" False show ?thesis by auto
  qed
qed

lemma show_nat_nonempty [simp]: "show_nat n \<noteq> []"
  by (subst show_nat.simps) simp

lemma digits_value_show_nat [simp]: "digits_value (show_nat n) = n"
proof (induction n rule: show_nat.induct)
  case (1 n)
  show ?case
  proof (cases "n < 10")
    case True
    then show ?thesis by (subst show_nat.simps) (simp add: digits_value_def)
  next
    case False
    with 1 show ?thesis by (subst show_nat.simps) (simp add: digits_value_def)
  qed
qed

lemma parse_digits_show_nat [simp]: "parse_digits (show_nat n) = Some n"
  by (simp add: parse_digits_def show_nat_digits)

lemma show_nat_Cons: "show_nat n = c # cs \<Longrightarrow> is_digit c"
  using show_nat_digits [of c n] by simp

lemma not_is_digit_sign [simp]: "\<not> is_digit CHR ''+''" "\<not> is_digit CHR ''-''"
  by (simp_all add: is_digit_def)

lemma parse_int_show_int [simp]:
  assumes "lo \<le> i" and "i \<le> hi"
  shows "parse_int lo hi (show_int i) = Some i"
proof (cases "i < 0")
  case True
  with assms show ?thesis by (simp add: parse_int_def show_int_def)
next
  case False
  obtain c cs where c: "show_nat (nat i) = c # cs"
    by (cases "show_nat (nat i)") auto
  then have "is_digit c" by (rule show_nat_Cons)
  then have "c \<noteq> CHR ''+''" "c \<noteq> CHR ''-''" by auto
  with False assms parse_digits_show_nat [of "nat i"] show ?thesis
    by (simp add: parse_int_def show_int_def c)
qed

lemma parse_int_bounds: "parse_int lo hi s = Some v \<Longrightarrow> lo \<le> v \<and> v \<le> hi"
  by (auto simp: parse_int_def Let_def split: option.splits if_splits)

lemma is_digit_ascii: "is_digit c \<Longrightarrow> (of_char c :: nat) < 128"
  by (simp add: is_digit_def)

lemma show_int_ascii: "c \<in> set (show_int i) \<Longrightarrow> (of_char c :: nat) < 128"
  by (auto simp: show_int_def is_digit_ascii show_nat_digits split: if_splits)

section \<open>Splitting\<close>

text \<open>\<open>str::split_once(char)\<close>, \<open>strip_suffix(char)\<close> and \<open>strip_prefix([char])\<close>.\<close>

fun split_once :: "char \<Rightarrow> string \<Rightarrow> (string \<times> string) option" where
  "split_once c [] = None"
| "split_once c (x # xs) =
     (if x = c then Some ([], xs)
      else map_option (\<lambda>(a, b). (x # a, b)) (split_once c xs))"

definition strip_suffix :: "char \<Rightarrow> string \<Rightarrow> string option" where
  "strip_suffix c s = (if s \<noteq> [] \<and> last s = c then Some (butlast s) else None)"

definition strip_prefix :: "char list \<Rightarrow> string \<Rightarrow> string option" where
  "strip_prefix cs s = (case s of [] \<Rightarrow> None | x # xs \<Rightarrow> if x \<in> set cs then Some xs else None)"

lemma split_once_Some: "split_once c s = Some (a, b) \<longleftrightarrow> s = a @ c # b \<and> c \<notin> set a"
  by (induction s arbitrary: a b) (auto simp: Cons_eq_append_conv)

lemma strip_suffix_append [simp]: "strip_suffix c (s @ [c]) = Some s"
  by (simp add: strip_suffix_def)

lemma strip_suffix_Some: "strip_suffix c s = Some t \<longleftrightarrow> s = t @ [c]"
  by (cases s rule: rev_cases) (auto simp: strip_suffix_def)

lemma split_once_append: "c \<notin> set a \<Longrightarrow> split_once c (a @ c # b) = Some (a, b)"
  by (simp add: split_once_Some)

lemma split_once_show_int:
  assumes "0 \<le> i" and "\<not> is_digit c"
  shows "split_once c (show_int i @ c # s) = Some (show_int i, s)"
proof (rule split_once_append)
  show "c \<notin> set (show_int i)"
    using assms show_nat_digits [of c "nat i"] by (auto simp: show_int_def)
qed

lemma digits_value_Cons_zero [simp]: "digits_value (CHR ''0'' # s) = digits_value s"
  by (simp add: digits_value_def digit_value_def)

lemma parse_digits_zero_show_nat [simp]: "parse_digits (CHR ''0'' # show_nat n) = Some n"
  by (simp add: parse_digits_def show_nat_digits) (simp add: is_digit_def)

lemma parse_u8_show_nat_02: "n < 256 \<Longrightarrow> parse_u8 (show_nat_02 n) = Some (int n)"
  using parse_int_show_int [of 0 "int n" 255]
  by (auto simp: show_nat_02_def parse_int_def show_int_def)

end
