(* ===== verification/Times.thy ===== *)
theory Times
  imports Errors Text
begin

text \<open>
  The temporal half of \<open>src/datatype.rs\<close>: the stored time points, the half-open interval each
  stands for, and the relations between times that every temporal operation of the program uses.

  Calendar dates and timestamps belong to the chrono library.  A \<open>NaiveDate\<close> is what it exposes,
  its year, month and day, and a \<open>NaiveDateTime\<close> a date with hour, minute, second and nanosecond
  (a leap second has a nanosecond of a thousand million or more).  The library's operations are
  the record \<open>chrono\<close>, an argument of every definition that calls them; the locale \<open>calendar\<close>
  states the documented behaviour the program relies on.
\<close>

section \<open>Dates and timestamps\<close>

datatype naive_date = NaiveDate (date_year: int) (date_month: nat) (date_day: nat)

datatype naive_datetime =
  NaiveDateTime (datetime_date: naive_date) (datetime_hour: nat) (datetime_minute: nat)
    (datetime_second: nat) (datetime_nanosecond: nat)

record chrono =
  from_ymd_opt :: "int \<Rightarrow> nat \<Rightarrow> nat \<Rightarrow> naive_date option"
  and_hms_nano_opt :: "naive_date \<Rightarrow> nat \<Rightarrow> nat \<Rightarrow> nat \<Rightarrow> nat \<Rightarrow> naive_datetime option"
  succ_opt :: "naive_date \<Rightarrow> naive_date option"
  add_nanosecond :: "naive_datetime \<Rightarrow> naive_datetime option"
  date_from_str :: "string \<Rightarrow> naive_date option"
  datetime_from_str :: "string \<Rightarrow> naive_datetime option"
  show_date :: "naive_date \<Rightarrow> string"
  show_datetime :: "naive_datetime \<Rightarrow> string"

section \<open>Stored times\<close>

datatype time_type =
    BeginningOfTime
  | EndOfTime
  | Year int
  | YearMonth int nat
  | Date naive_date
  | DateTime naive_datetime

datatype time = Time (moment: time_type)

record temporal_instant =
  year :: int
  month :: nat
  day :: nat
  hour :: nat
  minute :: nat
  second :: nat
  nanosecond :: nat

datatype temporal_bound = NegativeInfinity | Finite temporal_instant | PositiveInfinity

record time_interval =
  istart :: temporal_bound
  iend :: temporal_bound

text \<open>The derived orders compare the fields in their declaration order, an enumeration's variants
  in theirs.\<close>

definition instant_key :: "temporal_instant \<Rightarrow> int list" where
  "instant_key i = [year i, int (month i), int (day i), int (hour i), int (minute i),
     int (second i), int (nanosecond i)]"

fun bound_key :: "temporal_bound \<Rightarrow> nat \<times> int list" where
  "bound_key NegativeInfinity = (0, [])"
| "bound_key (Finite i) = (1, instant_key i)"
| "bound_key PositiveInfinity = (2, [])"

fun time_key :: "time_type \<Rightarrow> nat \<times> int list" where
  "time_key BeginningOfTime = (0, [])"
| "time_key EndOfTime = (1, [])"
| "time_key (Year y) = (2, [y])"
| "time_key (YearMonth y m) = (3, [y, int m])"
| "time_key (Date (NaiveDate y m d)) = (4, [y, int m, int d])"
| "time_key (DateTime (NaiveDateTime (NaiveDate y m d) h mi s ns)) =
     (5, [y, int m, int d, int h, int mi, int s, int ns])"

lemma instant_key_inject [simp]: "instant_key i = instant_key j \<longleftrightarrow> i = j"
  by (cases i; cases j) (auto simp: instant_key_def)

lemma bound_key_inject [simp]: "bound_key b = bound_key c \<longleftrightarrow> b = c"
  by (cases b; cases c) auto

lemma time_key_inject [simp]: "time_key s = time_key t \<longleftrightarrow> s = t"
  by (cases s rule: time_key.cases; cases t rule: time_key.cases) auto

instantiation temporal_bound :: linorder
begin

definition less_eq_temporal_bound :: "temporal_bound \<Rightarrow> temporal_bound \<Rightarrow> bool" where
  "less_eq_temporal_bound b c \<longleftrightarrow> bound_key b \<le> bound_key c"

definition less_temporal_bound :: "temporal_bound \<Rightarrow> temporal_bound \<Rightarrow> bool" where
  "less_temporal_bound b c \<longleftrightarrow> bound_key b < bound_key c"

instance
proof
  fix x y z :: temporal_bound
  show "x < y \<longleftrightarrow> x \<le> y \<and> \<not> y \<le> x"
    unfolding less_eq_temporal_bound_def less_temporal_bound_def by (rule less_le_not_le)
  show "x \<le> x"
    by (simp add: less_eq_temporal_bound_def)
  show "x \<le> y \<Longrightarrow> y \<le> z \<Longrightarrow> x \<le> z"
    by (auto simp: less_eq_temporal_bound_def)
  show "x \<le> y \<Longrightarrow> y \<le> x \<Longrightarrow> x = y"
    by (simp add: less_eq_temporal_bound_def)
  show "x \<le> y \<or> y \<le> x"
    by (auto simp: less_eq_temporal_bound_def)
qed

end

instantiation time :: linorder
begin

definition less_eq_time :: "time \<Rightarrow> time \<Rightarrow> bool" where
  "less_eq_time s t \<longleftrightarrow> time_key (moment s) \<le> time_key (moment t)"

definition less_time :: "time \<Rightarrow> time \<Rightarrow> bool" where
  "less_time s t \<longleftrightarrow> time_key (moment s) < time_key (moment t)"

instance
proof
  fix x y z :: time
  show "x < y \<longleftrightarrow> x \<le> y \<and> \<not> y \<le> x"
    unfolding less_eq_time_def less_time_def by (rule less_le_not_le)
  show "x \<le> x"
    by (simp add: less_eq_time_def)
  show "x \<le> y \<Longrightarrow> y \<le> z \<Longrightarrow> x \<le> z"
    by (auto simp: less_eq_time_def)
  show "x \<le> y \<Longrightarrow> y \<le> x \<Longrightarrow> x = y"
    by (simp add: less_eq_time_def time.expand)
  show "x \<le> y \<or> y \<le> x"
    by (auto simp: less_eq_time_def)
qed

end

lemma bound_less_simps [simp]:
  "NegativeInfinity \<le> b"
  "b \<le> PositiveInfinity"
  "\<not> b < NegativeInfinity"
  "\<not> PositiveInfinity < b"
  "b \<le> NegativeInfinity \<longleftrightarrow> b = NegativeInfinity"
  "PositiveInfinity \<le> b \<longleftrightarrow> b = PositiveInfinity"
  "NegativeInfinity < Finite i"
  "NegativeInfinity < PositiveInfinity"
  "Finite i < PositiveInfinity"
  "Finite i \<le> Finite j \<longleftrightarrow> instant_key i \<le> instant_key j"
  "Finite i < Finite j \<longleftrightarrow> instant_key i < instant_key j"
  by (cases b; simp add: less_eq_temporal_bound_def less_temporal_bound_def)+

section \<open>Instants and intervals\<close>

definition start_of_year :: "int \<Rightarrow> temporal_instant" where
  "start_of_year y = \<lparr>year = y, month = 1, day = 1, hour = 0, minute = 0, second = 0,
     nanosecond = 0\<rparr>"

definition start_of_month :: "int \<Rightarrow> nat \<Rightarrow> temporal_instant" where
  "start_of_month y m = (start_of_year y)\<lparr>month := m\<rparr>"

definition from_date :: "naive_date \<Rightarrow> temporal_instant" where
  "from_date date = \<lparr>year = date_year date, month = date_month date, day = date_day date,
     hour = 0, minute = 0, second = 0, nanosecond = 0\<rparr>"

definition from_datetime :: "naive_datetime \<Rightarrow> temporal_instant" where
  "from_datetime t = \<lparr>year = date_year (datetime_date t), month = date_month (datetime_date t),
     day = date_day (datetime_date t), hour = datetime_hour t, minute = datetime_minute t,
     second = datetime_second t, nanosecond = datetime_nanosecond t\<rparr>"

definition checked_add_i32 :: "int \<Rightarrow> int \<Rightarrow> int option" where
  "checked_add_i32 a b =
     (if - 2147483648 \<le> a + b \<and> a + b \<le> 2147483647 then Some (a + b) else None)"

definition interval :: "chrono \<Rightarrow> time \<Rightarrow> time_interval" where
  "interval C t = (case moment t of
     BeginningOfTime \<Rightarrow> \<lparr>istart = NegativeInfinity, iend = NegativeInfinity\<rparr>
   | EndOfTime \<Rightarrow> \<lparr>istart = PositiveInfinity, iend = PositiveInfinity\<rparr>
   | Year y \<Rightarrow>
       \<lparr>istart = Finite (start_of_year y),
        iend = (case checked_add_i32 y 1 of
                  None \<Rightarrow> PositiveInfinity
                | Some next_year \<Rightarrow> Finite (start_of_year next_year))\<rparr>
   | YearMonth y m \<Rightarrow>
       (let (next_year, next_month) =
          (if m = 12 then (checked_add_i32 y 1, 1) else (Some y, m + 1))
        in \<lparr>istart = Finite (start_of_month y m),
            iend = (case next_year of
                      None \<Rightarrow> PositiveInfinity
                    | Some ny \<Rightarrow> Finite (start_of_month ny next_month))\<rparr>)
   | Date d \<Rightarrow>
       \<lparr>istart = Finite (from_date d),
        iend = (case succ_opt C d of
                  None \<Rightarrow> PositiveInfinity
                | Some next_day \<Rightarrow> Finite (from_date next_day))\<rparr>
   | DateTime dt \<Rightarrow>
       \<lparr>istart = Finite (from_datetime dt),
        iend = (case add_nanosecond C dt of
                  None \<Rightarrow> PositiveInfinity
                | Some next_nano \<Rightarrow> Finite (from_datetime next_nano))\<rparr>)"

section \<open>Relations between times\<close>

definition definitely_before :: "chrono \<Rightarrow> time \<Rightarrow> time \<Rightarrow> bool" where
  "definitely_before C s t \<longleftrightarrow> s \<noteq> t \<and> iend (interval C s) \<le> istart (interval C t)"

definition definitely_after :: "chrono \<Rightarrow> time \<Rightarrow> time \<Rightarrow> bool" where
  "definitely_after C s t \<longleftrightarrow> s \<noteq> t \<and> iend (interval C t) \<le> istart (interval C s)"

definition definitely_at_or_before :: "chrono \<Rightarrow> time \<Rightarrow> time \<Rightarrow> bool" where
  "definitely_at_or_before C s t \<longleftrightarrow> s = t \<or> definitely_before C s t"

definition definitely_at_or_after :: "chrono \<Rightarrow> time \<Rightarrow> time \<Rightarrow> bool" where
  "definitely_at_or_after C s t \<longleftrightarrow> s = t \<or> definitely_after C s t"

definition possibly_before :: "chrono \<Rightarrow> time \<Rightarrow> time \<Rightarrow> bool" where
  "possibly_before C s t \<longleftrightarrow> istart (interval C s) < iend (interval C t)"

definition possibly_after :: "chrono \<Rightarrow> time \<Rightarrow> time \<Rightarrow> bool" where
  "possibly_after C s t \<longleftrightarrow> istart (interval C t) < iend (interval C s)"

definition overlaps :: "chrono \<Rightarrow> time \<Rightarrow> time \<Rightarrow> bool" where
  "overlaps C s t \<longleftrightarrow>
     (let lhs = interval C s; rhs = interval C t
      in istart lhs < iend rhs \<and> istart rhs < iend lhs)"

definition time_contains :: "chrono \<Rightarrow> time \<Rightarrow> time \<Rightarrow> bool" where
  "time_contains C s t \<longleftrightarrow>
     (let lhs = interval C s; rhs = interval C t
      in istart lhs \<le> istart rhs \<and> iend rhs \<le> iend lhs)"

definition time_within :: "chrono \<Rightarrow> time \<Rightarrow> time \<Rightarrow> bool" where
  "time_within C s t \<longleftrightarrow> time_contains C t s"

section \<open>Reading and printing\<close>

definition new_year_from :: "string \<Rightarrow> string + time" where
  "new_year_from value =
     attempt (ok_or ''invalid year'' (parse_i32 value)) (\<lambda>y. Inr (Time (Year y)))"

definition new_year_month_from :: "string \<Rightarrow> string + time" where
  "new_year_month_from value =
     attempt (ok_or ''invalid year-month'' (split_once CHR ''-'' value)) (\<lambda>(y, m).
     attempt (ok_or ''invalid year in'' (parse_i32 y)) (\<lambda>y.
     attempt (ok_or ''invalid month in'' (parse_u8 m)) (\<lambda>m.
     if \<not> (1 \<le> m \<and> m \<le> 12) then Inl ''month is outside 01..12''
     else Inr (Time (YearMonth y (nat m))))))"

definition new_date_from :: "chrono \<Rightarrow> string \<Rightarrow> string + time" where
  "new_date_from C value =
     attempt (ok_or ''invalid date'' (date_from_str C value)) (\<lambda>d. Inr (Time (Date d)))"

definition new_datetime_from :: "chrono \<Rightarrow> string \<Rightarrow> string + time" where
  "new_datetime_from C value =
     attempt (ok_or ''invalid datetime'' (datetime_from_str C value)) (\<lambda>d. Inr (Time (DateTime d)))"

definition show_time :: "chrono \<Rightarrow> time \<Rightarrow> string" where
  "show_time C t = (case moment t of
     BeginningOfTime \<Rightarrow> ''BOT''
   | EndOfTime \<Rightarrow> ''EOT''
   | Year y \<Rightarrow> show_int y
   | YearMonth y m \<Rightarrow> show_int y @ ''-'' @ show_nat_02 m
   | Date d \<Rightarrow> show_date C d
   | DateTime d \<Rightarrow> show_datetime C d)"

end
