(* ===== verification/Calendar.thy ===== *)
theory Calendar
  imports Times
begin

text \<open>
  The contract of the calendar library and what the temporal relations inherit from it.  The
  locale \<open>calendar\<close> states that the next day and the next nanosecond are later; the locale
  \<open>calendar_codec\<close> adds that a date or timestamp built from its components has those components,
  in range.  The proleptic Gregorian calendar over the library's year range is the reference
  instance both locales are interpreted on.
\<close>

section \<open>The library's contract\<close>

locale calendar =
  fixes C :: chrono
  assumes succ_later:
      "succ_opt C d = Some e \<Longrightarrow> instant_key (from_date d) < instant_key (from_date e)"
    and nanosecond_later:
      "add_nanosecond C t = Some u \<Longrightarrow>
         instant_key (from_datetime t) < instant_key (from_datetime u)"
begin

text \<open>Only the two sentinels have an empty interval.\<close>

lemma interval_nonempty:
  assumes "moment t \<noteq> BeginningOfTime" and "moment t \<noteq> EndOfTime"
  shows "istart (interval C t) < iend (interval C t)"
proof (cases "moment t")
  case (YearMonth y m)
  then show ?thesis
    by (auto simp: interval_def checked_add_i32_def start_of_month_def start_of_year_def
        instant_key_def split: option.split)
qed (use assms in \<open>auto simp: interval_def checked_add_i32_def start_of_year_def instant_key_def
      dest!: succ_later nanosecond_later split: option.split\<close>)

lemma interval_ordered: "istart (interval C t) \<le> iend (interval C t)"
proof (cases "moment t = BeginningOfTime \<or> moment t = EndOfTime")
  case True
  then show ?thesis by (auto simp: interval_def)
next
  case False
  then show ?thesis using interval_nonempty by (simp add: less_imp_le)
qed

lemma empty_interval_sentinel:
  assumes "iend (interval C t) \<le> istart (interval C t)"
  shows "moment t = BeginningOfTime \<and> iend (interval C t) = NegativeInfinity \<or>
    moment t = EndOfTime \<and> istart (interval C t) = PositiveInfinity"
proof (cases "moment t \<noteq> BeginningOfTime \<and> moment t \<noteq> EndOfTime")
  case True
  then have "istart (interval C t) < iend (interval C t)"
    by (blast intro: interval_nonempty)
  with assms show ?thesis by simp
qed (auto simp: interval_def)

lemma start_sentinel:
  "istart (interval C t) = NegativeInfinity \<longleftrightarrow> t = Time BeginningOfTime"
  "istart (interval C t) = PositiveInfinity \<longleftrightarrow> t = Time EndOfTime"
  by (cases t; auto simp: interval_def Let_def split: time_type.splits prod.splits)+

lemma end_sentinel:
  "iend (interval C t) = NegativeInfinity \<longleftrightarrow> t = Time BeginningOfTime"
proof
  assume "iend (interval C t) = NegativeInfinity"
  with interval_ordered [of t] have "istart (interval C t) = NegativeInfinity" by simp
  then show "t = Time BeginningOfTime" by (simp only: start_sentinel)
qed (simp add: interval_def)

text \<open>Two times whose intervals touch in both directions are one sentinel.\<close>

lemma touching_both_ways:
  assumes "iend (interval C s) \<le> istart (interval C t)"
    and "iend (interval C t) \<le> istart (interval C s)"
  shows "s = t"
proof -
  have "iend (interval C s) \<le> istart (interval C s)"
    using assms interval_ordered [of t] by order
  then consider "s = Time BeginningOfTime" "iend (interval C s) = NegativeInfinity"
    | "s = Time EndOfTime" "istart (interval C s) = PositiveInfinity"
    using empty_interval_sentinel [of s] by (cases s) auto
  then show ?thesis
  proof cases
    case 1
    then have "iend (interval C t) = NegativeInfinity"
      using assms(2) start_sentinel(1) [of s] by simp
    with 1 show ?thesis by (simp only: end_sentinel)
  next
    case 2
    then have "istart (interval C t) = PositiveInfinity"
      using assms(1) interval_ordered [of s] by simp
    with 2 show ?thesis by (simp only: start_sentinel)
  qed
qed

lemma before_irreflexive: "\<not> definitely_before C t t"
  by (simp add: definitely_before_def)

lemma before_asymmetric: "definitely_before C s t \<Longrightarrow> \<not> definitely_before C t s"
  using touching_both_ways by (auto simp: definitely_before_def)

lemma before_transitive:
  assumes "definitely_before C s t" and "definitely_before C t u"
  shows "definitely_before C s u"
proof -
  have *: "iend (interval C s) \<le> istart (interval C u)"
    using assms interval_ordered [of t] by (auto simp: definitely_before_def intro: order_trans)
  have "s \<noteq> u"
    using assms before_asymmetric by blast
  with * show ?thesis by (simp add: definitely_before_def)
qed

lemma before_interval_order:
  assumes "definitely_before C s t" and "definitely_before C u v"
  shows "definitely_before C s v \<or> definitely_before C u t"
proof (cases "iend (interval C s) \<le> istart (interval C v)")
  case True
  then show ?thesis
    using assms before_transitive [of u v t] by (cases "s = v") (auto simp: definitely_before_def)
next
  case False
  then have "iend (interval C u) \<le> istart (interval C t)"
    using assms by (auto simp: definitely_before_def)
  moreover have "u = t \<Longrightarrow> definitely_before C s v"
    using assms before_transitive [of s t v] by simp
  ultimately show ?thesis by (auto simp: definitely_before_def)
qed

lemma after_iff_before: "definitely_after C s t \<longleftrightarrow> definitely_before C t s"
  by (auto simp: definitely_after_def definitely_before_def)

lemma overlaps_iff:
  "s \<noteq> t \<Longrightarrow> overlaps C s t \<longleftrightarrow> \<not> definitely_before C s t \<and> \<not> definitely_after C s t"
  by (auto simp: overlaps_def definitely_before_def definitely_after_def Let_def not_le)

text \<open>The greatest interval start is a sufficient witness for dominance.\<close>

lemma greatest_start_dominates:
  assumes "definitely_before C t u"
    and "istart (interval C u) \<le> istart (interval C w)"
  shows "definitely_before C t w"
proof -
  have *: "iend (interval C t) \<le> istart (interval C w)"
    using assms by (auto simp: definitely_before_def intro: order_trans)
  moreover have "t \<noteq> w"
  proof
    assume "t = w"
    with * assms interval_ordered [of t]
    have "iend (interval C w) \<le> istart (interval C u)" "istart (interval C u) \<le> istart (interval C w)"
      by (auto simp: definitely_before_def)
    with * \<open>t = w\<close> have start: "istart (interval C u) = istart (interval C t)"
      using interval_ordered [of t] by (metis order.antisym order.trans)
    consider "t = Time BeginningOfTime" | "t = Time EndOfTime"
      using empty_interval_sentinel [of t] * \<open>t = w\<close> by (cases t) auto
    then have "u = t"
    proof cases
      case 1
      then have "istart (interval C t) = NegativeInfinity" by (simp only: start_sentinel)
      with start have "u = Time BeginningOfTime" by (simp only: start_sentinel)
      with 1 show ?thesis by simp
    next
      case 2
      then have "istart (interval C t) = PositiveInfinity" by (simp only: start_sentinel)
      with start have "u = Time EndOfTime" by (simp only: start_sentinel)
      with 2 show ?thesis by simp
    qed
    with assms(1) show False by (simp add: definitely_before_def)
  qed
  ultimately show ?thesis by (simp add: definitely_before_def)
qed

end

locale calendar_codec = calendar +
  assumes from_ymd_components:
      "from_ymd_opt C y m d = Some x \<Longrightarrow>
         x = NaiveDate y m d \<and> - 2147483648 \<le> y \<and> y \<le> 2147483647 \<and> m < 256 \<and> d < 256"
    and from_hms_components:
      "and_hms_nano_opt C x h mi s ns = Some t \<Longrightarrow>
         t = NaiveDateTime x h mi s ns \<and> h < 256 \<and> mi < 256 \<and> s < 256 \<and> ns < 2 ^ 32"

text \<open>A date or timestamp the library has handed out.\<close>

definition valid_date :: "chrono \<Rightarrow> naive_date \<Rightarrow> bool" where
  "valid_date C d \<longleftrightarrow> from_ymd_opt C (date_year d) (date_month d) (date_day d) = Some d"

definition valid_datetime :: "chrono \<Rightarrow> naive_datetime \<Rightarrow> bool" where
  "valid_datetime C t \<longleftrightarrow> valid_date C (datetime_date t) \<and>
     and_hms_nano_opt C (datetime_date t) (datetime_hour t) (datetime_minute t)
       (datetime_second t) (datetime_nanosecond t) = Some t"

text \<open>A time the program's constructors can produce.\<close>

definition wf_time :: "chrono \<Rightarrow> time \<Rightarrow> bool" where
  "wf_time C t = (case moment t of
     BeginningOfTime \<Rightarrow> True
   | EndOfTime \<Rightarrow> True
   | Year y \<Rightarrow> - 2147483648 \<le> y \<and> y \<le> 2147483647
   | YearMonth y m \<Rightarrow> - 2147483648 \<le> y \<and> y \<le> 2147483647 \<and> 1 \<le> m \<and> m \<le> 12
   | Date d \<Rightarrow> valid_date C d
   | DateTime d \<Rightarrow> valid_datetime C d)"

section \<open>The proleptic Gregorian calendar\<close>

definition leap_year :: "int \<Rightarrow> bool" where
  "leap_year y \<longleftrightarrow> y mod 4 = 0 \<and> (y mod 100 \<noteq> 0 \<or> y mod 400 = 0)"

definition days_in_month :: "int \<Rightarrow> nat \<Rightarrow> nat" where
  "days_in_month y m =
     (if m \<in> {1, 3, 5, 7, 8, 10, 12} then 31
      else if m \<in> {4, 6, 9, 11} then 30
      else if leap_year y then 29 else 28)"

definition greg_ymd :: "int \<Rightarrow> nat \<Rightarrow> nat \<Rightarrow> naive_date option" where
  "greg_ymd y m d =
     (if - 262143 \<le> y \<and> y \<le> 262142 \<and> 1 \<le> m \<and> m \<le> 12 \<and> 1 \<le> d \<and> d \<le> days_in_month y m
      then Some (NaiveDate y m d) else None)"

definition greg_hms :: "naive_date \<Rightarrow> nat \<Rightarrow> nat \<Rightarrow> nat \<Rightarrow> nat \<Rightarrow> naive_datetime option" where
  "greg_hms x h mi s ns =
     (if h < 24 \<and> mi < 60 \<and> s < 60 \<and> (ns < 1000000000 \<or> s = 59 \<and> ns < 2000000000)
      then Some (NaiveDateTime x h mi s ns) else None)"

fun greg_succ :: "naive_date \<Rightarrow> naive_date option" where
  "greg_succ (NaiveDate y m d) =
     (if d < days_in_month y m then Some (NaiveDate y m (d + 1))
      else if m < 12 then Some (NaiveDate y (m + 1) 1)
      else if y < 262142 then Some (NaiveDate (y + 1) 1 1)
      else None)"

fun greg_nanosecond :: "naive_datetime \<Rightarrow> naive_datetime option" where
  "greg_nanosecond (NaiveDateTime x h mi s ns) =
     (if ns + 1 \<noteq> 1000000000 \<and> ns + 1 < 2000000000 then Some (NaiveDateTime x h mi s (ns + 1))
      else if s < 59 then Some (NaiveDateTime x h mi (s + 1) 0)
      else if mi < 59 then Some (NaiveDateTime x h (mi + 1) 0 0)
      else if h < 23 then Some (NaiveDateTime x (h + 1) 0 0 0)
      else map_option (\<lambda>x'. NaiveDateTime x' 0 0 0 0) (greg_succ x))"

text \<open>The ISO form \<open>YYYY-MM-DD\<close> of a date, and with a clock time of a timestamp.\<close>

definition greg_date_from_str :: "string \<Rightarrow> naive_date option" where
  "greg_date_from_str s = (case split_once CHR ''-'' s of
     None \<Rightarrow> None
   | Some (y, rest) \<Rightarrow> (case split_once CHR ''-'' rest of
       None \<Rightarrow> None
     | Some (m, d) \<Rightarrow> (case (parse_i32 y, parse_u8 m, parse_u8 d) of
         (Some y, Some m, Some d) \<Rightarrow> greg_ymd y (nat m) (nat d)
       | _ \<Rightarrow> None)))"

definition greg_datetime_from_str :: "string \<Rightarrow> naive_datetime option" where
  "greg_datetime_from_str s = (case split_once CHR ''T'' s of
     None \<Rightarrow> None
   | Some (date, clock) \<Rightarrow> (case (greg_date_from_str date, split_once CHR '':'' clock) of
       (Some x, Some (h, rest)) \<Rightarrow> (case split_once CHR '':'' rest of
           None \<Rightarrow> None
         | Some (mi, s) \<Rightarrow> (case (parse_u8 h, parse_u8 mi, parse_u8 s) of
             (Some h, Some mi, Some s) \<Rightarrow> greg_hms x (nat h) (nat mi) (nat s) 0
           | _ \<Rightarrow> None))
     | _ \<Rightarrow> None))"

definition greg_show_date :: "naive_date \<Rightarrow> string" where
  "greg_show_date d = show_int (date_year d) @ ''-'' @ show_nat_02 (date_month d) @ ''-''
     @ show_nat_02 (date_day d)"

definition greg_show_datetime :: "naive_datetime \<Rightarrow> string" where
  "greg_show_datetime t = greg_show_date (datetime_date t) @ '' '' @ show_nat_02 (datetime_hour t)
     @ '':'' @ show_nat_02 (datetime_minute t) @ '':'' @ show_nat_02 (datetime_second t)"

definition gregorian :: chrono where
  "gregorian = \<lparr>from_ymd_opt = greg_ymd, and_hms_nano_opt = greg_hms, succ_opt = greg_succ,
     add_nanosecond = greg_nanosecond, date_from_str = greg_date_from_str,
     datetime_from_str = greg_datetime_from_str, show_date = greg_show_date,
     show_datetime = greg_show_datetime\<rparr>"

lemma gregorian_simps [simp]:
  "from_ymd_opt gregorian = greg_ymd"
  "and_hms_nano_opt gregorian = greg_hms"
  "succ_opt gregorian = greg_succ"
  "add_nanosecond gregorian = greg_nanosecond"
  "date_from_str gregorian = greg_date_from_str"
  "datetime_from_str gregorian = greg_datetime_from_str"
  by (simp_all add: gregorian_def)

lemma greg_succ_later:
  "greg_succ d = Some e \<Longrightarrow> instant_key (from_date d) < instant_key (from_date e)"
  by (cases d) (auto simp: instant_key_def from_date_def split: if_splits)

lemma greg_nanosecond_later:
  assumes "greg_nanosecond t = Some u"
  shows "instant_key (from_datetime t) < instant_key (from_datetime u)"
proof (cases t)
  case (NaiveDateTime x h mi s ns)
  have "greg_succ x = Some x' \<Longrightarrow> [date_year x, int (date_month x), int (date_day x)]
      < [date_year x', int (date_month x'), int (date_day x')]" for x'
    using greg_succ_later [of x x'] by (auto simp: instant_key_def from_date_def)
  with assms NaiveDateTime show ?thesis
    by (auto simp: instant_key_def from_datetime_def split: if_splits)
qed

interpretation gregorian: calendar_codec gregorian
proof unfold_locales
  show "succ_opt gregorian d = Some e \<Longrightarrow> instant_key (from_date d) < instant_key (from_date e)"
    for d e by (simp add: greg_succ_later)
  show "add_nanosecond gregorian t = Some u \<Longrightarrow>
      instant_key (from_datetime t) < instant_key (from_datetime u)" for t u
    by (simp add: greg_nanosecond_later)
  show "from_ymd_opt gregorian y m d = Some x \<Longrightarrow>
      x = NaiveDate y m d \<and> - 2147483648 \<le> y \<and> y \<le> 2147483647 \<and> m < 256 \<and> d < 256" for y m d x
    by (auto simp: greg_ymd_def days_in_month_def split: if_splits)
  show "and_hms_nano_opt gregorian x h mi s ns = Some t \<Longrightarrow>
      t = NaiveDateTime x h mi s ns \<and> h < 256 \<and> mi < 256 \<and> s < 256 \<and> ns < 2 ^ 32" for x h mi s ns t
    by (auto simp: greg_hms_def split: if_splits)
qed

section \<open>Properties\<close>

text \<open>"definitely before" is a strict interval order: irreflexive, transitive, and of two ordered
  pairs one crosses over.\<close>

theorem definitely_before_interval_order:
  assumes "calendar C"
  shows "\<not> definitely_before C s s
    \<and> (definitely_before C s t \<and> definitely_before C t u \<longrightarrow> definitely_before C s u)
    \<and> (definitely_before C s t \<and> definitely_before C u v \<longrightarrow>
        definitely_before C s v \<or> definitely_before C u t)"
  using calendar.before_irreflexive [OF assms] calendar.before_transitive [OF assms]
    calendar.before_interval_order [OF assms] by blast

text \<open>The year 2023 is before June 2024, which is before the end of time.\<close>

lemma sample_before:
  "definitely_before gregorian (Time (Year 2023)) (Time (YearMonth 2024 6))"
  "definitely_before gregorian (Time (YearMonth 2024 6)) (Time EndOfTime)"
  by (simp_all add: definitely_before_def interval_def checked_add_i32_def start_of_year_def
      start_of_month_def instant_key_def)

theorem definitely_before_interval_order_witness:
  "definitely_before gregorian (Time (Year 2023)) (Time EndOfTime)"
  using definitely_before_interval_order [OF gregorian.calendar_axioms] sample_before by blast

text \<open>Two different stored times stand in exactly one of three relations: the first is definitely
  before the second, definitely after it, or the two overlap; and "possibly before" and "possibly
  after" are the exact negations of "definitely after" and "definitely before".\<close>

theorem time_trichotomy:
  assumes "calendar C" and "s \<noteq> t"
  shows "of_bool (definitely_before C s t) + of_bool (definitely_after C s t)
      + of_bool (overlaps C s t) = (1 :: nat)
    \<and> (possibly_before C s t \<longleftrightarrow> \<not> definitely_after C s t)
    \<and> (possibly_after C s t \<longleftrightarrow> \<not> definitely_before C s t)"
  using calendar.before_asymmetric [OF assms(1), of s t] calendar.after_iff_before [OF assms(1), of s t]
    calendar.overlaps_iff [OF assms] assms(2)
  by (auto simp: possibly_before_def possibly_after_def definitely_before_def definitely_after_def not_le)

theorem time_trichotomy_witness:
  "of_bool (definitely_before gregorian (Time (Year 2024)) (Time (YearMonth 2024 6)))
     + of_bool (definitely_after gregorian (Time (Year 2024)) (Time (YearMonth 2024 6)))
     + of_bool (overlaps gregorian (Time (Year 2024)) (Time (YearMonth 2024 6))) = (1 :: nat)"
  using time_trichotomy [OF gregorian.calendar_axioms, of "Time (Year 2024)" "Time (YearMonth 2024 6)"]
  by simp

lemma year_read_back:
  "- 2147483648 \<le> y \<Longrightarrow> y \<le> 2147483647 \<Longrightarrow>
     new_year_from (show_time C (Time (Year y))) = Inr (Time (Year y))"
  by (simp add: new_year_from_def show_time_def)

lemma year_month_read_back:
  "0 \<le> y \<Longrightarrow> y \<le> 2147483647 \<Longrightarrow> 1 \<le> m \<Longrightarrow> m \<le> 12 \<Longrightarrow>
     new_year_month_from (show_time C (Time (YearMonth y m))) = Inr (Time (YearMonth y m))"
  by (simp add: new_year_month_from_def show_time_def split_once_show_int parse_u8_show_nat_02)

lemma year_month_negative:
  "y < 0 \<Longrightarrow> new_year_month_from (show_time C (Time (YearMonth y m))) = Inl ''invalid year in''"
  by (simp add: new_year_month_from_def show_time_def show_int_def parse_int_def)

text \<open>C37: what a year or a year and month prints as is read back as the same time, for every year of
  the type, and for a month of every year from zero on; a month of a negative year prints to a text
  that its own constructor rejects.\<close>

theorem year_month_roundtrip:
  "(- 2147483648 \<le> y \<and> y \<le> 2147483647 \<longrightarrow>
       new_year_from (show_time C (Time (Year y))) = Inr (Time (Year y)))
   \<and> (0 \<le> y \<and> y \<le> 2147483647 \<and> 1 \<le> m \<and> m \<le> 12 \<longrightarrow>
       new_year_month_from (show_time C (Time (YearMonth y m))) = Inr (Time (YearMonth y m)))
   \<and> (y < 0 \<longrightarrow>
       new_year_month_from (show_time C (Time (YearMonth y m))) = Inl ''invalid year in'')"
  by (simp add: year_read_back year_month_read_back year_month_negative)

theorem year_month_roundtrip_witness:
  "new_year_month_from (show_time gregorian (Time (YearMonth 2024 6))) = Inr (Time (YearMonth 2024 6))"
  using year_month_roundtrip [of 2024 gregorian 6] by simp

end
