(* ===== verification/Reduction.thy ===== *)
theory Reduction
  imports Calendar
begin

text \<open>
  The linear temporal reduction of \<open>src/datatype/temporal.rs\<close>: a frontier remembers the greatest
  interval start seen so far, one pass finds it, a second pass keeps the rows it does not dominate.
  The work callback, a closure over mutable counters in the source, is a function on an abstract
  counter state \<open>'w\<close> that may refuse; a refusal leaves the function at once.

  The lemmas show that a result, whenever one is returned, is the quadratic reference (the rows of
  a group that no other row of the group is definitely after, in input order), and count the
  callback's visits exactly.
\<close>

datatype work = WorkRow | WorkComparison

type_synonym 'w work_fn = "work \<Rightarrow> 'w \<Rightarrow> unit result \<times> 'w"

record frontier =
  ftime :: time
  fstart :: temporal_bound

definition new_frontier :: "chrono \<Rightarrow> time \<Rightarrow> frontier" where
  "new_frontier C t = \<lparr>ftime = t, fstart = istart (interval C t)\<rparr>"

definition observe ::
    "chrono \<Rightarrow> frontier \<Rightarrow> time \<Rightarrow> 'w work_fn \<Rightarrow> 'w \<Rightarrow> (bool \<times> frontier) result \<times> 'w" where
  "observe C fr t work w =
     attempt_st (work WorkComparison w) (\<lambda>_ w.
       let start = istart (interval C t)
       in if fstart fr < start then (Inr (True, \<lparr>ftime = t, fstart = start\<rparr>), w)
          else (Inr (False, fr), w))"

definition dominates ::
    "chrono \<Rightarrow> frontier \<Rightarrow> time \<Rightarrow> 'w work_fn \<Rightarrow> 'w \<Rightarrow> bool result \<times> 'w" where
  "dominates C fr candidate work w =
     attempt_st (work WorkComparison w) (\<lambda>_ w.
       (Inr (candidate \<noteq> ftime fr \<and> iend (interval C candidate) \<le> fstart fr), w))"

section \<open>One group\<close>

text \<open>The first loop of \<open>retain_maximal\<close>, over the rows after the first, and its second loop.\<close>

fun find_frontier ::
    "chrono \<Rightarrow> ('r \<Rightarrow> time) \<Rightarrow> 'w work_fn \<Rightarrow> nat \<Rightarrow> 'r list \<Rightarrow> frontier \<times> nat \<Rightarrow> 'w
       \<Rightarrow> (frontier \<times> nat) result \<times> 'w" where
  "find_frontier C tm work index [] (fr, witness) w = (Inr (fr, witness), w)"
| "find_frontier C tm work index (row # rows) (fr, witness) w =
     attempt_st (work WorkRow w) (\<lambda>_ w.
     attempt_st (observe C fr (tm row) work w) (\<lambda>(replaced, fr) w.
     find_frontier C tm work (Suc index) rows (fr, if replaced then index else witness) w))"

fun keep_maximal ::
    "chrono \<Rightarrow> ('r \<Rightarrow> time) \<Rightarrow> 'w work_fn \<Rightarrow> frontier \<times> nat \<Rightarrow> nat \<Rightarrow> 'r list \<Rightarrow> 'r list \<Rightarrow> 'w
       \<Rightarrow> 'r list result \<times> 'w" where
  "keep_maximal C tm work (fr, witness) index [] retained w = (Inr retained, w)"
| "keep_maximal C tm work (fr, witness) index (row # rows) retained w =
     attempt_st (work WorkRow w) (\<lambda>_ w.
     attempt_st
       (if index = witness then (Inr True, w)
        else attempt_st (dominates C fr (tm row) work w) (\<lambda>dominated w. (Inr (\<not> dominated), w)))
       (\<lambda>keep w.
     keep_maximal C tm work (fr, witness) (Suc index) rows
       (if keep then retained @ [row] else retained) w))"

definition retain_maximal ::
    "chrono \<Rightarrow> ('r \<Rightarrow> time) \<Rightarrow> 'w work_fn \<Rightarrow> 'r list \<Rightarrow> 'w \<Rightarrow> 'r list result \<times> 'w" where
  "retain_maximal C tm work rows w = (case rows of
     [] \<Rightarrow> (Inr rows, w)
   | first # rest \<Rightarrow>
       attempt_st (work WorkRow w) (\<lambda>_ w.
       attempt_st (find_frontier C tm work 1 rest (new_frontier C (tm first), 0) w)
         (\<lambda>frontier w.
       keep_maximal C tm work frontier 0 rows [] w)))"

section \<open>Grouped rows\<close>

text \<open>The loop state of \<open>retain_maximal_by_key\<close>: the group number of each key, the frontier and
  witness of each group, and the group of each row so far.\<close>

type_synonym 'k grouping = "('k \<rightharpoonup> nat) \<times> (frontier \<times> nat) list \<times> nat list"

fun group_rows ::
    "chrono \<Rightarrow> ('r \<Rightarrow> 'k) \<Rightarrow> ('r \<Rightarrow> time) \<Rightarrow> 'w work_fn \<Rightarrow> nat \<Rightarrow> 'r list \<Rightarrow> 'k grouping \<Rightarrow> 'w
       \<Rightarrow> 'k grouping result \<times> 'w" where
  "group_rows C key tm work index [] st w = (Inr st, w)"
| "group_rows C key tm work index (row # rows) (groups, frontiers, membership) w =
     attempt_st (work WorkRow w) (\<lambda>_ w.
     attempt_st
       (case groups (key row) of
          None \<Rightarrow>
            (let grp = length frontiers
             in (Inr (grp, groups(key row \<mapsto> grp),
                   frontiers @ [(new_frontier C (tm row), index)]), w))
        | Some grp \<Rightarrow>
            (let (fr, witness) = frontiers ! grp
             in attempt_st (observe C fr (tm row) work w) (\<lambda>(replaced, fr) w.
                  (Inr (grp, groups,
                     frontiers[grp := (fr, if replaced then index else witness)]), w))))
       (\<lambda>(grp, groups, frontiers) w.
     group_rows C key tm work (Suc index) rows (groups, frontiers, membership @ [grp]) w))"

fun keep_grouped ::
    "chrono \<Rightarrow> ('r \<Rightarrow> time) \<Rightarrow> 'w work_fn \<Rightarrow> (frontier \<times> nat) list \<Rightarrow> nat \<Rightarrow> ('r \<times> nat) list
       \<Rightarrow> 'r list \<Rightarrow> 'w \<Rightarrow> 'r list result \<times> 'w" where
  "keep_grouped C tm work frontiers index [] retained w = (Inr retained, w)"
| "keep_grouped C tm work frontiers index ((row, grp) # rows) retained w =
     attempt_st (work WorkRow w) (\<lambda>_ w.
     let (fr, witness) = frontiers ! grp
     in attempt_st
       (if index = witness then (Inr True, w)
        else attempt_st (dominates C fr (tm row) work w) (\<lambda>dominated w. (Inr (\<not> dominated), w)))
       (\<lambda>keep w.
     keep_grouped C tm work frontiers (Suc index) rows
       (if keep then retained @ [row] else retained) w))"

definition retain_maximal_by_key ::
    "chrono \<Rightarrow> ('r \<Rightarrow> 'k) \<Rightarrow> ('r \<Rightarrow> time) \<Rightarrow> 'w work_fn \<Rightarrow> 'r list \<Rightarrow> 'w
       \<Rightarrow> 'r list result \<times> 'w" where
  "retain_maximal_by_key C key tm work rows w =
     attempt_st (group_rows C key tm work 0 rows (Map.empty, [], []) w)
       (\<lambda>(groups, frontiers, membership) w.
     keep_grouped C tm work frontiers 0 (zip rows membership) [] w)"

section \<open>The reference\<close>

text \<open>The definition by pairwise comparison: a row survives unless a row of its group is definitely
  after it.\<close>

definition maximal_in :: "chrono \<Rightarrow> ('r \<Rightarrow> time) \<Rightarrow> 'r list \<Rightarrow> 'r \<Rightarrow> bool" where
  "maximal_in C tm rows row \<longleftrightarrow> \<not> (\<exists>other \<in> set rows. definitely_before C (tm row) (tm other))"

definition maximal_rows ::
    "chrono \<Rightarrow> ('r \<Rightarrow> 'k) \<Rightarrow> ('r \<Rightarrow> time) \<Rightarrow> 'r list \<Rightarrow> 'r list" where
  "maximal_rows C key tm rows =
     filter (\<lambda>row. maximal_in C tm (filter (\<lambda>other. key other = key row) rows) row) rows"

section \<open>Frontiers\<close>

text \<open>A frontier with its witness row is right for a set of row indices when the witness is one
  of them and no other index has a later interval start.\<close>

definition frontier_of :: "chrono \<Rightarrow> (nat \<Rightarrow> time) \<Rightarrow> nat set \<Rightarrow> frontier \<times> nat \<Rightarrow> bool" where
  "frontier_of C tm J fw \<longleftrightarrow> snd fw \<in> J \<and> ftime (fst fw) = tm (snd fw)
     \<and> fstart (fst fw) = istart (interval C (tm (snd fw)))
     \<and> (\<forall>j \<in> J. istart (interval C (tm j)) \<le> fstart (fst fw))"

lemma frontier_of_new: "frontier_of C tm {i} (new_frontier C (tm i), i)"
  by (simp add: frontier_of_def new_frontier_def)

lemma frontier_of_observe:
  assumes "frontier_of C tm J (fr, witness)"
    and "observe C fr (tm i) work w = (Inr (replaced, fr'), w')"
  shows "frontier_of C tm (insert i J) (fr', if replaced then i else witness)"
  using assms
  by (auto simp: frontier_of_def observe_def Let_def attempt_st_eq_Inr split: if_splits
      dest: order.strict_implies_order intro: order_trans)

context calendar
begin

lemma frontier_decides:
  assumes "frontier_of C tm J (fr, witness)" and "i \<in> J"
  shows "i = witness \<or> \<not> (tm i \<noteq> ftime fr \<and> iend (interval C (tm i)) \<le> fstart fr)
    \<longleftrightarrow> \<not> (\<exists>j \<in> J. definitely_before C (tm i) (tm j))"
  using assms greatest_start_dominates [of "tm i" _ "tm witness"] before_irreflexive
  by (fastforce simp: frontier_of_def definitely_before_def)

end

lemma drop_eq_Cons: "drop i xs = y # ys \<Longrightarrow> i < length xs \<and> y = xs ! i \<and> ys = drop (Suc i) xs"
  by (metis Cons_nth_drop_Suc drop_all leI list.discI list.inject)

lemma find_frontier_correct:
  assumes "find_frontier C tm work i rows (fr, witness) w = (Inr fw, w')"
    and "rows = drop i R" and "i \<le> length R"
    and "frontier_of C (\<lambda>j. tm (R ! j)) {..<i} (fr, witness)"
  shows "frontier_of C (\<lambda>j. tm (R ! j)) {..<length R} fw"
  using assms
proof (induction C tm work i rows "(fr, witness)" w arbitrary: fr witness
    rule: find_frontier.induct)
  case (1 C tm work i fr witness w)
  then show ?case by simp
next
  case (2 C tm work i row rows fr witness w)
  from "2.prems"(2) have i: "i < length R" "row = R ! i" "rows = drop (Suc i) R"
    using drop_eq_Cons [of i R row rows] by auto
  from "2.prems"(1) obtain u w1 replaced fr' w2 where
      w1: "work WorkRow w = (Inr u, w1)"
    and obs: "observe C fr (tm row) work w1 = (Inr (replaced, fr'), w2)"
    and rest: "find_frontier C tm work (Suc i) rows (fr', if replaced then i else witness) w2
      = (Inr fw, w')"
    by (auto simp: attempt_st_eq_Inr)
  have "frontier_of C (\<lambda>j. tm (R ! j)) {..<Suc i} (fr', if replaced then i else witness)"
    using frontier_of_observe [OF "2.prems"(4), of i, OF obs [unfolded i(2)]]
    unfolding lessThan_Suc .
  with "2.hyps" [OF w1 obs refl rest] i show ?case by simp
qed

definition same_key :: "('r \<Rightarrow> 'k) \<Rightarrow> 'r list \<Rightarrow> nat \<Rightarrow> nat \<Rightarrow> nat set" where
  "same_key key R n j = {i. i < n \<and> key (R ! i) = key (R ! j)}"

text \<open>The loop invariant of \<open>group_rows\<close> after the first \<open>n\<close> rows of \<open>R\<close>.\<close>

definition grouping_inv ::
    "chrono \<Rightarrow> ('r \<Rightarrow> 'k) \<Rightarrow> ('r \<Rightarrow> time) \<Rightarrow> 'r list \<Rightarrow> nat \<Rightarrow> 'k grouping \<Rightarrow> bool" where
  "grouping_inv C key tm R n st \<longleftrightarrow> (case st of (groups, frontiers, membership) \<Rightarrow>
     length membership = n \<and> n \<le> length R
     \<and> (\<forall>j < n. groups (key (R ! j)) = Some (membership ! j))
     \<and> dom groups = (\<lambda>j. key (R ! j)) ` {..<n}
     \<and> ran groups = {..<length frontiers}
     \<and> (\<forall>j < n. frontier_of C (\<lambda>i. tm (R ! i)) (same_key key R n j)
          (frontiers ! (membership ! j))))"

lemma grouping_inv_empty: "grouping_inv C key tm R 0 (Map.empty, [], [])"
  by (simp add: grouping_inv_def)

lemma same_key_Suc:
  "same_key key R (Suc n) j =
     (if key (R ! n) = key (R ! j) then insert n (same_key key R n j) else same_key key R n j)"
  by (auto simp: same_key_def less_Suc_eq)

lemma grouping_inv_new:
  assumes inv: "grouping_inv C key tm R n (groups, frontiers, membership)" and n: "n < length R"
    and new: "groups (key (R ! n)) = None"
  shows "grouping_inv C key tm R (Suc n)
    (groups(key (R ! n) \<mapsto> length frontiers),
     frontiers @ [(new_frontier C (tm (R ! n)), n)], membership @ [length frontiers])"
proof -
  have old: "key (R ! j) \<noteq> key (R ! n)" if "j < n" for j
    using inv new that by (auto simp: grouping_inv_def)
  have bound: "membership ! j < length frontiers" if "j < n" for j
    using inv that by (auto simp: grouping_inv_def intro: ranI)
  have self: "same_key key R (Suc n) n = {n}"
    using old by (auto simp: same_key_def less_Suc_eq)
  have len: "length membership = n" and lookup: "\<And>j. j < n \<Longrightarrow> groups (key (R ! j)) = Some (membership ! j)"
    and dom: "dom groups = (\<lambda>j. key (R ! j)) ` {..<n}" and ran: "ran groups = {..<length frontiers}"
    and front: "\<And>j. j < n \<Longrightarrow> frontier_of C (\<lambda>i. tm (R ! i)) (same_key key R n j)
          (frontiers ! (membership ! j))"
    using inv by (auto simp: grouping_inv_def)
  have "ran (groups(key (R ! n) \<mapsto> length frontiers)) = {..<Suc (length frontiers)}"
    using ran new by (simp add: lessThan_Suc)
  moreover have "frontier_of C (\<lambda>i. tm (R ! i)) (same_key key R (Suc n) j)
      ((frontiers @ [(new_frontier C (tm (R ! n)), n)]) ! ((membership @ [length frontiers]) ! j))"
    if "j < Suc n" for j
  proof (cases "j = n")
    case True
    have "(frontiers @ [(new_frontier C (tm (R ! n)), n)]) ! ((membership @ [length frontiers]) ! n)
        = (new_frontier C (tm (R ! n)), n)"
      using len by (metis nth_append_length)
    with True self frontier_of_new [of C "\<lambda>i. tm (R ! i)" n] show ?thesis by simp
  next
    case False
    with that have "j < n" by simp
    with front old [of j] bound len show ?thesis
      by (simp add: nth_append same_key_Suc)
  qed
  moreover have "(groups(key (R ! n) \<mapsto> length frontiers)) (key (R ! j))
      = Some ((membership @ [length frontiers]) ! j)" if "j < Suc n" for j
    using that lookup len old by (cases "j = n") (auto simp: nth_append)
  ultimately show ?thesis
    using n len dom by (simp add: grouping_inv_def lessThan_Suc)
qed

lemma grouping_inv_old:
  assumes inv: "grouping_inv C key tm R n (groups, frontiers, membership)" and n: "n < length R"
    and old: "groups (key (R ! n)) = Some grp"
    and obs: "observe C (fst (frontiers ! grp)) (tm (R ! n)) work w = (Inr (replaced, fr'), w')"
  shows "grouping_inv C key tm R (Suc n)
    (groups, frontiers[grp := (fr', if replaced then n else snd (frontiers ! grp))],
     membership @ [grp])"
proof -
  have "key (R ! n) \<in> dom groups" using old by blast
  with inv obtain i where i: "i < n" "key (R ! i) = key (R ! n)"
    by (auto simp: grouping_inv_def)
  have grp: "grp < length frontiers"
    using inv old by (auto simp: grouping_inv_def intro: ranI)
  have mem: "membership ! j = grp \<longleftrightarrow> key (R ! j) = key (R ! n)" if "j < n" for j
  proof
    assume "membership ! j = grp"
    moreover have "membership ! i = grp"
      using inv i old by (auto simp: grouping_inv_def)
    ultimately have "snd (frontiers ! grp) \<in> same_key key R n j"
      "snd (frontiers ! grp) \<in> same_key key R n i"
      using inv i that by (auto simp: grouping_inv_def frontier_of_def)
    with i show "key (R ! j) = key (R ! n)" by (simp add: same_key_def)
  next
    assume "key (R ! j) = key (R ! n)"
    with inv old that show "membership ! j = grp" by (auto simp: grouping_inv_def)
  qed
  have "frontier_of C (\<lambda>i. tm (R ! i)) (same_key key R n n) (frontiers ! grp)"
  proof -
    have "same_key key R n i = same_key key R n n" using i by (simp add: same_key_def)
    moreover have "frontier_of C (\<lambda>i. tm (R ! i)) (same_key key R n i) (frontiers ! (membership ! i))"
      using inv i by (auto simp: grouping_inv_def)
    ultimately show ?thesis using mem [OF i(1)] i(2) by simp
  qed
  then have "frontier_of C (\<lambda>i. tm (R ! i)) (insert n (same_key key R n n))
      (fr', if replaced then n else snd (frontiers ! grp))"
    using frontier_of_observe [of C "\<lambda>i. tm (R ! i)"] obs
    by (metis prod.collapse)
  note updated = this
  have len: "length membership = n" using inv by (simp add: grouping_inv_def)
  have "frontier_of C (\<lambda>i. tm (R ! i)) (same_key key R (Suc n) j)
      (frontiers[grp := (fr', if replaced then n else snd (frontiers ! grp))]
        ! ((membership @ [grp]) ! j))" if j: "j < Suc n" for j
  proof (cases "key (R ! j) = key (R ! n)")
    case True
    then have "(membership @ [grp]) ! j = grp"
      using mem [of j] j len by (cases "j = n") (simp_all add: nth_append)
    moreover have "same_key key R (Suc n) j = insert n (same_key key R n n)"
      using True by (auto simp: same_key_def less_Suc_eq)
    ultimately show ?thesis using updated grp by simp
  next
    case False
    with j have "j < n" by (cases "j = n") auto
    with False mem [of j] len have "(membership @ [grp]) ! j = membership ! j" "membership ! j \<noteq> grp"
      by (simp_all add: nth_append)
    moreover have "same_key key R (Suc n) j = same_key key R n j"
      using False by (auto simp: same_key_def less_Suc_eq)
    moreover have "frontier_of C (\<lambda>i. tm (R ! i)) (same_key key R n j) (frontiers ! (membership ! j))"
      using inv \<open>j < n\<close> by (auto simp: grouping_inv_def)
    ultimately show ?thesis by simp
  qed
  moreover have "key (R ! n) \<in> (\<lambda>j. key (R ! j)) ` {..<n}"
    using i by (metis imageI lessThan_iff)
  moreover have "groups (key (R ! j)) = Some ((membership @ [grp]) ! j)" if "j < Suc n" for j
    using that inv old by (cases "j = n") (auto simp: grouping_inv_def nth_append)
  moreover have "length membership = n" "dom groups = (\<lambda>j. key (R ! j)) ` {..<Suc n}"
    "ran groups = {..<length frontiers}"
    using inv \<open>key (R ! n) \<in> (\<lambda>j. key (R ! j)) ` {..<n}\<close>
    by (simp_all add: grouping_inv_def lessThan_Suc insert_absorb)
  ultimately show ?thesis
    using n by (simp add: grouping_inv_def)
qed

lemma group_rows_correct:
  assumes "group_rows C key tm work i rows st w = (Inr st', w')"
    and "rows = drop i R" and "grouping_inv C key tm R i st"
  shows "grouping_inv C key tm R (length R) st'"
  using assms
proof (induction rows arbitrary: i st w)
  case Nil
  then have "i = length R" by (auto simp: grouping_inv_def)
  with Nil show ?case by simp
next
  case (Cons row rows)
  obtain groups frontiers membership where st: "st = (groups, frontiers, membership)"
    by (metis prod_cases3)
  from Cons.prems(2) have i: "i < length R" "row = R ! i" "rows = drop (Suc i) R"
    using drop_eq_Cons [of i R row rows] by auto
  from Cons.prems(1) obtain u w1 where w1: "work WorkRow w = (Inr u, w1)"
    by (auto simp: st attempt_st_eq_Inr)
  show ?case
  proof (cases "groups (key row)")
    case None
    with Cons.prems(1) w1 have "group_rows C key tm work (Suc i) rows
        (groups(key row \<mapsto> length frontiers), frontiers @ [(new_frontier C (tm row), i)],
         membership @ [length frontiers]) w1 = (Inr st', w')"
      by (simp add: st Let_def)
    from Cons.IH [OF this i(3)] show ?thesis
      using None i(2) grouping_inv_new [OF Cons.prems(3) [unfolded st] i(1)] by simp
  next
    case (Some grp)
    with Cons.prems(1) w1 obtain replaced fr' w2 where
        obs: "observe C (fst (frontiers ! grp)) (tm row) work w1 = (Inr (replaced, fr'), w2)"
      and rest: "group_rows C key tm work (Suc i) rows (groups,
          frontiers[grp := (fr', if replaced then i else snd (frontiers ! grp))],
          membership @ [grp]) w2 = (Inr st', w')"
      by (auto simp: st attempt_st_eq_Inr split_def Let_def)
    show ?thesis
      using Cons.IH [OF rest i(3)] grouping_inv_old [OF Cons.prems(3) [unfolded st] i(1)
          Some [unfolded i(2)] obs [unfolded i(2)]] by blast
  qed
qed

lemma keep_maximal_as_grouped:
  "keep_maximal C tm work fw i rows retained =
   keep_grouped C tm work [fw] i (map (\<lambda>row. (row, 0)) rows) retained"
proof (induction rows arbitrary: i retained)
  case (Cons row rows)
  obtain fr witness where fw: "fw = (fr, witness)" by fastforce
  show ?case by (rule ext) (simp add: fw Let_def Cons.IH [unfolded fw])
qed (rule ext, cases fw, simp)

context calendar
begin

lemma maximal_in_index:
  assumes "i < length R"
  shows "maximal_in C tm (filter (\<lambda>other. key other = key (R ! i)) R) (R ! i) \<longleftrightarrow>
    \<not> (\<exists>j \<in> same_key key R (length R) i. definitely_before C (tm (R ! i)) (tm (R ! j)))"
  by (auto simp: maximal_in_def same_key_def in_set_conv_nth)

lemma keep_grouped_correct:
  assumes "keep_grouped C tm work frontiers i rows retained w = (Inr out, w')"
    and "rows = drop i (zip R membership)" and "length membership = length R"
    and "\<And>j. j < length R \<Longrightarrow>
      frontier_of C (\<lambda>i. tm (R ! i)) (same_key key R (length R) j) (frontiers ! (membership ! j))"
  shows "out = retained @ filter (\<lambda>row. maximal_in C tm
      (filter (\<lambda>other. key other = key row) R) row) (drop i R)"
  using assms
proof (induction rows arbitrary: i retained w)
  case Nil
  then show ?case by simp
next
  case (Cons row_grp rows)
  obtain row grp where row_grp [simp]: "row_grp = (row, grp)" by fastforce
  let ?keep = "\<lambda>row. maximal_in C tm (filter (\<lambda>other. key other = key row) R) row"
  from Cons.prems(2) have i: "i < length R" "row = R ! i" "grp = membership ! i"
      "rows = drop (Suc i) (zip R membership)"
    using drop_eq_Cons [of i "zip R membership" "(row, grp)" rows] Cons.prems(3) by auto
  obtain fr witness where fw: "frontiers ! grp = (fr, witness)" by fastforce
  have "i \<in> same_key key R (length R) i" using i by (simp add: same_key_def)
  then have decides: "i = witness \<or> \<not> (tm row \<noteq> ftime fr \<and> iend (interval C (tm row)) \<le> fstart fr)
      \<longleftrightarrow> ?keep row"
    using frontier_decides [OF Cons.prems(4) [OF i(1), folded i(3), unfolded fw]]
      maximal_in_index [OF i(1), where key = key and tm = tm] i(2) by simp
  from Cons.prems(1) obtain u w1 keep w2 where w1: "work WorkRow w = (Inr u, w1)"
    and keep: "(if i = witness then (Inr True, w1)
        else attempt_st (dominates C fr (tm row) work w1) (\<lambda>dominated w. (Inr (\<not> dominated), w)))
          = (Inr keep, w2)"
    and rest: "keep_grouped C tm work frontiers (Suc i) rows
        (if keep then retained @ [row] else retained) w2 = (Inr out, w')"
    by (auto simp: attempt_st_eq_Inr fw Let_def)
  have "keep \<longleftrightarrow> ?keep row"
    using keep decides by (auto simp: dominates_def attempt_st_eq_Inr split: if_splits)
  moreover have "out = (if keep then retained @ [row] else retained) @ filter ?keep (drop (Suc i) R)"
    by (rule Cons.IH [OF rest i(4) Cons.prems(3) Cons.prems(4)])
  ultimately show ?case
    using i(1,2) by (simp add: Cons_nth_drop_Suc [symmetric])
qed

lemma retain_maximal_by_key_reference:
  assumes "fst (retain_maximal_by_key C key tm work rows w) = Inr out"
  shows "out = maximal_rows C key tm rows"
proof -
  from assms obtain groups frontiers membership w1 w2 where
      groups: "group_rows C key tm work 0 rows (Map.empty, [], []) w
        = (Inr (groups, frontiers, membership), w1)"
    and keep: "keep_grouped C tm work frontiers 0 (zip rows membership) [] w1 = (Inr out, w2)"
    by (cases "retain_maximal_by_key C key tm work rows w")
      (auto simp: retain_maximal_by_key_def attempt_st_eq_Inr)
  have inv: "grouping_inv C key tm rows (length rows) (groups, frontiers, membership)"
    by (rule group_rows_correct [OF groups]) (simp_all add: grouping_inv_empty)
  then have "out = [] @ filter (\<lambda>row. maximal_in C tm
      (filter (\<lambda>other. key other = key row) rows) row) (drop 0 rows)"
    by (intro keep_grouped_correct [OF keep]) (auto simp: grouping_inv_def)
  then show ?thesis by (simp add: maximal_rows_def)
qed

lemma retain_maximal_reference:
  assumes "fst (retain_maximal C tm work rows w) = Inr out"
  shows "out = filter (maximal_in C tm rows) rows"
proof (cases rows)
  case Nil
  with assms show ?thesis by (simp add: retain_maximal_def)
next
  case (Cons first rest)
  from assms Cons obtain w1 w2 fw w3 where
      find: "find_frontier C tm work 1 rest (new_frontier C (tm first), 0) w1 = (Inr fw, w2)"
    and keep: "keep_maximal C tm work fw 0 rows [] w2 = (Inr out, w3)"
    by (cases "retain_maximal C tm work rows w") (auto simp: retain_maximal_def attempt_st_eq_Inr)
  have "frontier_of C (\<lambda>j. tm (rows ! j)) {..<length rows} fw"
    using find_frontier_correct [OF find, of rows] frontier_of_new [of C "\<lambda>j. tm (rows ! j)" 0] Cons
    by (simp add: lessThan_Suc)
  then have "out = [] @ filter (\<lambda>row. maximal_in C tm
      (filter (\<lambda>other. () = ()) rows) row) (drop 0 rows)"
    by (intro keep_grouped_correct [OF keep [unfolded keep_maximal_as_grouped],
          where key = "\<lambda>_. ()" and membership = "replicate (length rows) 0"])
      (auto simp: same_key_def lessThan_def intro!: nth_equalityI)
  then show ?thesis by simp
qed

end

section \<open>Counting the callback's visits\<close>

text \<open>A callback that counts row visits and comparisons and refuses when a limit on their sum is
  reached.\<close>

definition visits :: "nat \<times> nat \<Rightarrow> nat" where
  "visits w = fst w + snd w"

definition metered :: "nat option \<Rightarrow> (nat \<times> nat) work_fn" where
  "metered limit kind w =
     (if (case limit of None \<Rightarrow> True | Some l \<Rightarrow> visits w < l)
      then (Inr (), case kind of WorkRow \<Rightarrow> (Suc (fst w), snd w) | WorkComparison \<Rightarrow> (fst w, Suc (snd w)))
      else (Inl Cancelled, w))"

abbreviation counting :: "(nat \<times> nat) work_fn" where
  "counting \<equiv> metered None"

lemma counting_simps [simp]:
  "counting WorkRow w = (Inr (), (Suc (fst w), snd w))"
  "counting WorkComparison w = (Inr (), (fst w, Suc (snd w)))"
  by (simp_all add: metered_def)

lemma group_rows_counting:
  "\<exists>groups' frontiers' membership' c'.
     group_rows C key tm counting i rows (groups, frontiers, membership) w =
       (Inr (groups', frontiers', membership'), (fst w + length rows, c'))
     \<and> c' + length frontiers' = snd w + length rows + length frontiers"
proof (induction rows arbitrary: i groups frontiers membership w)
  case (Cons row rows)
  show ?case
  proof (cases "groups (key row)")
    case None
    with Cons.IH [of "Suc i" "groups(key row \<mapsto> length frontiers)"
        "frontiers @ [(new_frontier C (tm row), i)]" "membership @ [length frontiers]"
        "(Suc (fst w), snd w)"]
    show ?thesis by (auto simp: Let_def simp del: fun_upd_apply)
  next
    case (Some grp)
    obtain fr witness where fw: "frontiers ! grp = (fr, witness)" by fastforce
    obtain replaced fr' where obs: "observe C fr (tm row) counting (Suc (fst w), snd w)
        = (Inr (replaced, fr'), (Suc (fst w), Suc (snd w)))"
      by (cases "fstart fr < istart (interval C (tm row))") (auto simp: observe_def Let_def)
    with Some fw Cons.IH [of "Suc i" groups
        "frontiers[grp := (fr', if replaced then i else witness)]" "membership @ [grp]"
        "(Suc (fst w), Suc (snd w))"]
    show ?thesis by (auto simp: Let_def)
  qed
qed simp

lemma keep_grouped_counting:
  "\<exists>out. keep_grouped C tm counting frontiers i rows retained w =
     (Inr out, (fst w + length rows,
        snd w + length (filter (\<lambda>(j, row, grp). j \<noteq> snd (frontiers ! grp)) (enumerate i rows))))"
proof (induction rows arbitrary: i retained w)
  case (Cons row_grp rows)
  obtain row grp where rg: "row_grp = (row, grp)" by fastforce
  obtain fr witness where fw: "frontiers ! grp = (fr, witness)" by fastforce
  show ?case
    using Cons.IH [of "Suc i" "retained @ [row]" "(Suc (fst w), snd w)"]
      Cons.IH [of "Suc i" "if tm row \<noteq> ftime fr \<and> iend (interval C (tm row)) \<le> fstart fr
        then retained else retained @ [row]" "(Suc (fst w), Suc (snd w))"]
    by (auto simp: rg fw dominates_def Let_def if_distrib cong: if_cong)
qed simp

text \<open>Each group has exactly one witness row.\<close>

lemma witness_count:
  assumes "grouping_inv C key tm R (length R) (groups, frontiers, membership)"
  shows "length (filter (\<lambda>(j, row, grp). j \<noteq> snd (frontiers ! grp)) (enumerate 0 (zip R membership)))
      + card (key ` set R) = length R"
    and "length frontiers = card (key ` set R)"
proof -
  let ?n = "length R"
  define W where "W = {j. j < ?n \<and> j = snd (frontiers ! (membership ! j))}"
  have len: "length membership = ?n"
    and lookup: "\<And>j. j < ?n \<Longrightarrow> groups (key (R ! j)) = Some (membership ! j)"
    and ran: "ran groups = {..<length frontiers}"
    and dom: "dom groups = (\<lambda>j. key (R ! j)) ` {..<?n}"
    using assms by (auto simp: grouping_inv_def)
  have witness: "snd (frontiers ! (membership ! j)) \<in> W
      \<and> membership ! snd (frontiers ! (membership ! j)) = membership ! j
      \<and> key (R ! snd (frontiers ! (membership ! j))) = key (R ! j)" if "j < ?n" for j
  proof -
    have "snd (frontiers ! (membership ! j)) \<in> same_key key R ?n j"
      using assms that by (auto simp: grouping_inv_def frontier_of_def)
    then have "snd (frontiers ! (membership ! j)) < ?n"
      and k: "key (R ! snd (frontiers ! (membership ! j))) = key (R ! j)"
      by (simp_all add: same_key_def)
    then have "membership ! snd (frontiers ! (membership ! j)) = membership ! j"
      using lookup that by (metis option.inject)
    with k show ?thesis
      using \<open>snd (frontiers ! (membership ! j)) < ?n\<close> by (simp add: W_def)
  qed
  have same: "membership ! j = membership ! i" if "j \<in> W" "i \<in> W" "key (R ! j) = key (R ! i)" for i j
    using that lookup by (metis (mono_tags, lifting) W_def mem_Collect_eq option.inject)
  have "inj_on (\<lambda>j. key (R ! j)) W"
    using same by (auto simp: inj_on_def W_def) (metis)
  moreover have "(\<lambda>j. key (R ! j)) ` W = key ` set R"
    using witness by (fastforce simp: in_set_conv_nth W_def image_iff)
  ultimately have keys: "card W = card (key ` set R)"
    using card_image by fastforce
  have "inj_on (\<lambda>j. membership ! j) W"
    by (auto simp: inj_on_def W_def)
  moreover have "(\<lambda>j. membership ! j) ` W = {..<length frontiers}"
  proof
    show "(\<lambda>j. membership ! j) ` W \<subseteq> {..<length frontiers}"
      using lookup ran by (auto simp: W_def intro: ranI)
    show "{..<length frontiers} \<subseteq> (\<lambda>j. membership ! j) ` W"
    proof
      fix g assume "g \<in> {..<length frontiers}"
      then obtain k where k: "groups k = Some g" using ran by (auto simp: ran_def)
      then have "k \<in> dom groups" by blast
      then obtain j where "j < ?n" "k = key (R ! j)" using dom by auto
      with k lookup [of j] have "j < ?n" "membership ! j = g" by simp_all
      with witness [of j] show "g \<in> (\<lambda>j. membership ! j) ` W" by (metis image_eqI)
    qed
  qed
  ultimately have "card W = length frontiers"
    using card_image by fastforce
  with keys show "length frontiers = card (key ` set R)" by simp
  let ?rows = "enumerate 0 (zip R membership)"
  have "length (filter (\<lambda>(j, row, grp). \<not> j \<noteq> snd (frontiers ! grp)) ?rows) = card W"
    using len by (auto simp: length_filter_conv_card nth_enumerate_eq W_def intro: arg_cong [where f = card])
  moreover have "length (filter (\<lambda>(j, row, grp). j \<noteq> snd (frontiers ! grp)) ?rows)
      + length (filter (\<lambda>(j, row, grp). \<not> j \<noteq> snd (frontiers ! grp)) ?rows) = length ?rows"
    using sum_length_filter_compl [of "\<lambda>(j, row, grp). j \<noteq> snd (frontiers ! grp)" ?rows]
    by (simp add: split_def)
  ultimately show "length (filter (\<lambda>(j, row, grp). j \<noteq> snd (frontiers ! grp)) ?rows)
      + card (key ` set R) = length R"
    using keys len by simp
qed

lemma retain_maximal_by_key_counting:
  "\<exists>out. retain_maximal_by_key C key tm counting rows (0, 0) =
     (Inr out, (2 * length rows, 2 * (length rows - card (key ` set rows))))"
proof -
  obtain groups frontiers membership c where
      groups0: "group_rows C key tm counting 0 rows (Map.empty, [], []) (0, 0)
        = (Inr (groups, frontiers, membership), (fst (0 :: nat, 0 :: nat) + length rows, c))"
    and c0: "c + length frontiers = snd (0 :: nat, 0 :: nat) + length rows + length ([] :: (frontier \<times> nat) list)"
    using group_rows_counting [of C key tm 0 rows Map.empty "[]" "[]" "(0, 0)"] by blast
  then have groups: "group_rows C key tm counting 0 rows (Map.empty, [], []) (0, 0)
        = (Inr (groups, frontiers, membership), (length rows, c))"
    and c: "c + length frontiers = length rows"
    by simp_all
  have inv: "grouping_inv C key tm rows (length rows) (groups, frontiers, membership)"
    by (rule group_rows_correct [OF groups]) (simp_all add: grouping_inv_empty)
  then have "length (zip rows membership) = length rows"
    by (simp add: grouping_inv_def)
  moreover obtain out where "keep_grouped C tm counting frontiers 0 (zip rows membership) [] (length rows, c)
      = (Inr out, (fst (length rows, c) + length (zip rows membership), snd (length rows, c)
          + length (filter (\<lambda>(j, row, grp). j \<noteq> snd (frontiers ! grp)) (enumerate 0 (zip rows membership)))))"
    using keep_grouped_counting by blast
  ultimately have "retain_maximal_by_key C key tm counting rows (0, 0) = (Inr out, (2 * length rows,
      c + length (filter (\<lambda>(j, row, grp). j \<noteq> snd (frontiers ! grp)) (enumerate 0 (zip rows membership)))))"
    by (simp add: retain_maximal_by_key_def groups)
  with witness_count [OF inv] c show ?thesis
    by (intro exI [of _ out]) (simp add: mult_2)
qed

text \<open>A computation under a limit runs like the unlimited one until the limit is reached and is
  then cancelled, with exactly that many visits made.\<close>

definition cancels_at :: "nat \<Rightarrow> ((nat \<times> nat) work_fn \<Rightarrow> nat \<times> nat \<Rightarrow> 'a result \<times> (nat \<times> nat)) \<Rightarrow> bool" where
  "cancels_at L F \<longleftrightarrow> (\<forall>w. \<exists>x w'. F counting w = (Inr x, w') \<and> visits w \<le> visits w' \<and>
     (visits w \<le> L \<longrightarrow>
       (if visits w' \<le> L then F (metered (Some L)) w = (Inr x, w')
        else \<exists>v. F (metered (Some L)) w = (Inl Cancelled, v) \<and> visits v = L)))"

lemma cancels_at_return: "cancels_at L (\<lambda>work w. (Inr x, w))"
  by (simp add: cancels_at_def)

lemma cancels_at_work: "cancels_at L (\<lambda>work. work kind)"
  by (cases kind) (auto simp: cancels_at_def metered_def visits_def)

lemma cancels_at_attempt:
  assumes F: "cancels_at L F" and G: "\<And>a. cancels_at L (G a)"
  shows "cancels_at L (\<lambda>work w. attempt_st (F work w) (\<lambda>a. G a work))"
  unfolding cancels_at_def
proof
  fix w :: "nat \<times> nat"
  let ?lim = "metered (Some L)"
  from F obtain a w1 where a: "F counting w = (Inr a, w1)" "visits w \<le> visits w1"
      "visits w \<le> L \<Longrightarrow> if visits w1 \<le> L then F ?lim w = (Inr a, w1)
       else \<exists>v. F ?lim w = (Inl Cancelled, v) \<and> visits v = L"
    unfolding cancels_at_def by blast
  from G [of a] obtain b w2 where b: "G a counting w1 = (Inr b, w2)" "visits w1 \<le> visits w2"
      "visits w1 \<le> L \<Longrightarrow> if visits w2 \<le> L then G a ?lim w1 = (Inr b, w2)
         else \<exists>v. G a ?lim w1 = (Inl Cancelled, v) \<and> visits v = L"
    unfolding cancels_at_def by blast
  have "if visits w2 \<le> L then attempt_st (F ?lim w) (\<lambda>a. G a ?lim) = (Inr b, w2)
        else \<exists>v. attempt_st (F ?lim w) (\<lambda>a. G a ?lim) = (Inl Cancelled, v) \<and> visits v = L"
    if "visits w \<le> L"
    using a b that by (cases "visits w1 \<le> L") (auto split: if_splits)
  with a b show "\<exists>x w'. attempt_st (F counting w) (\<lambda>a. G a counting) = (Inr x, w') \<and> visits w \<le> visits w' \<and>
     (visits w \<le> L \<longrightarrow> (if visits w' \<le> L then attempt_st (F ?lim w) (\<lambda>a. G a ?lim) = (Inr x, w')
        else \<exists>v. attempt_st (F ?lim w) (\<lambda>a. G a ?lim) = (Inl Cancelled, v) \<and> visits v = L))"
    by (intro exI [of _ b] exI [of _ w2]) auto
qed

lemma cancels_at_if:
  "(c \<Longrightarrow> cancels_at L F) \<Longrightarrow> (\<not> c \<Longrightarrow> cancels_at L G) \<Longrightarrow>
     cancels_at L (\<lambda>work w. if c then F work w else G work w)"
  by (cases c) auto

lemmas cancels_at_intros = cancels_at_return cancels_at_work cancels_at_attempt cancels_at_if

lemma cancels_at_observe: "cancels_at L (observe C fr t)"
  unfolding observe_def Let_def by (intro cancels_at_intros)

lemma cancels_at_dominates: "cancels_at L (dominates C fr t)"
  unfolding dominates_def by (intro cancels_at_intros)

lemma cancels_at_cong:
  "(\<And>work w. F work w = G work w) \<Longrightarrow> cancels_at L G \<Longrightarrow> cancels_at L F"
  by (metis (no_types, lifting) ext)

lemma cancels_at_find_frontier:
  "cancels_at L (\<lambda>work. find_frontier C tm work i rows fw)"
proof (induction rows arbitrary: i fw)
  case Nil
  obtain fr witness where fw: "fw = (fr, witness)" by fastforce
  show ?case unfolding fw by (rule cancels_at_cong, rule find_frontier.simps(1)) (rule cancels_at_return)
next
  case (Cons row rows)
  obtain fr witness where fw: "fw = (fr, witness)" by fastforce
  show ?case unfolding fw split_def
    by (rule cancels_at_cong, rule find_frontier.simps(2), unfold split_def)
      (intro cancels_at_intros cancels_at_observe Cons.IH)
qed

lemma cancels_at_group_rows:
  "cancels_at L (\<lambda>work. group_rows C key tm work i rows st)"
proof (induction rows arbitrary: i st)
  case Nil
  show ?case by (rule cancels_at_cong, rule group_rows.simps(1)) (rule cancels_at_return)
next
  case (Cons row rows)
  obtain groups frontiers membership where st: "st = (groups, frontiers, membership)"
    by (metis prod_cases3)
  show ?case unfolding st
    by (rule cancels_at_cong, rule group_rows.simps(2), unfold split_def, cases "groups (key row)")
      (simp_all only: option.case Let_def,
        (intro cancels_at_intros cancels_at_observe Cons.IH)+)
qed

lemma cancels_at_keep_grouped:
  "cancels_at L (\<lambda>work. keep_grouped C tm work frontiers i rows retained)"
proof (induction rows arbitrary: i retained)
  case Nil
  show ?case by (rule cancels_at_cong, rule keep_grouped.simps(1)) (rule cancels_at_return)
next
  case (Cons row_grp rows)
  obtain row grp where rg: "row_grp = (row, grp)" by fastforce
  show ?case unfolding rg
    by (rule cancels_at_cong, rule keep_grouped.simps(2), unfold split_def Let_def)
      (intro cancels_at_intros cancels_at_dominates Cons.IH)
qed

lemma cancels_at_retain_maximal_by_key:
  "cancels_at L (\<lambda>work. retain_maximal_by_key C key tm work rows)"
  unfolding retain_maximal_by_key_def split_def
  by (intro cancels_at_intros cancels_at_group_rows cancels_at_keep_grouped)

lemma cancels_at_retain_maximal:
  "cancels_at L (\<lambda>work. retain_maximal C tm work rows)"
proof (cases rows)
  case Nil
  show ?thesis unfolding Nil retain_maximal_def list.case by (rule cancels_at_return)
next
  case (Cons first rest)
  have "cancels_at L (\<lambda>work. keep_maximal C tm work fw 0 rows [])" for fw
    using cancels_at_keep_grouped by (simp add: keep_maximal_as_grouped)
  then show ?thesis
    unfolding retain_maximal_def Cons list.case
    by (intro cancels_at_intros cancels_at_find_frontier)
qed

section \<open>Properties\<close>

text \<open>Sample rows for the witnesses: year 2023, June 2024 and year 2024 in group 0, year 2020 in
  group 1.\<close>

definition sample_rows :: "(nat \<times> time) list" where
  "sample_rows = [(0, Time (Year 2023)), (0, Time (YearMonth 2024 6)), (1, Time (Year 2020)),
     (0, Time (Year 2024))]"

lemma sample_reduction:
  "retain_maximal_by_key gregorian fst snd counting sample_rows (0, 0) =
     (Inr [(0, Time (YearMonth 2024 6)), (1, Time (Year 2020)), (0, Time (Year 2024))], (8, 4))"
  by (simp add: retain_maximal_by_key_def sample_rows_def observe_def dominates_def
      new_frontier_def interval_def checked_add_i32_def start_of_year_def start_of_month_def
      instant_key_def Let_def less_eq_temporal_bound_def less_temporal_bound_def)

text \<open>C34: grouped temporal reduction returns, whenever its callback lets it return, exactly the rows
  of the quadratic reference: the rows of each key that no row of the same key is definitely after,
  in input order and with duplicates kept.\<close>

theorem grouped_reduction_is_reference:
  assumes "calendar C"
    and "fst (retain_maximal_by_key C key tm work rows w) = Inr out"
  shows "out = filter (\<lambda>row. \<not> (\<exists>other \<in> set rows.
      key other = key row \<and> definitely_before C (tm row) (tm other))) rows"
  using calendar.retain_maximal_by_key_reference [OF assms]
  by (auto simp: maximal_rows_def maximal_in_def intro: filter_cong)

theorem grouped_reduction_is_reference_witness:
  "[(0, Time (YearMonth 2024 6)), (1, Time (Year 2020)), (0, Time (Year 2024))] =
     filter (\<lambda>row. \<not> (\<exists>other \<in> set sample_rows. fst other = fst row
       \<and> definitely_before gregorian (snd row) (snd other))) sample_rows"
  by (rule grouped_reduction_is_reference [OF gregorian.calendar_axioms, where key = fst
        and tm = snd and work = counting and w = "(0, 0)"])
    (simp add: sample_reduction)

text \<open>C35: the ungrouped reduction returns, whenever its callback lets it return, exactly the rows that
  no other row is definitely after.\<close>

theorem reduction_is_reference:
  assumes "calendar C"
    and "fst (retain_maximal C tm work rows w) = Inr out"
  shows "out = filter (\<lambda>row. \<not> (\<exists>other \<in> set rows. definitely_before C (tm row) (tm other))) rows"
  using calendar.retain_maximal_reference [OF assms]
  by (auto simp: maximal_in_def intro: filter_cong)

theorem reduction_is_reference_witness:
  "[(0, Time (YearMonth 2024 6)), (0, Time (Year 2024))] =
     filter (\<lambda>row. \<not> (\<exists>other \<in> set sample_rows.
       definitely_before gregorian (snd row) (snd other))) sample_rows"
  by (rule reduction_is_reference [OF gregorian.calendar_axioms, where tm = snd
        and work = counting and w = "(0, 0)"])
    (simp add: retain_maximal_def sample_rows_def observe_def dominates_def
      new_frontier_def interval_def checked_add_i32_def start_of_year_def start_of_month_def
      instant_key_def Let_def less_eq_temporal_bound_def less_temporal_bound_def)

text \<open>C36: with a callback that never refuses, grouped reduction returns a result after exactly two
  row visits per row and exactly \<open>2 (n - groups)\<close> temporal comparisons, the bound the source's
  documentation states.\<close>

theorem grouped_reduction_work:
  "\<exists>out. retain_maximal_by_key C key tm counting rows (0, 0) =
     (Inr out, (2 * length rows, 2 * (length rows - card (key ` set rows))))"
  by (rule retain_maximal_by_key_counting)

text \<open>A refusal of the callback aborts grouped reduction at once and without a result: under any
  limit below the visits it needs the outcome is the callback's error after exactly the allowed
  visits, and under any other limit the outcome is the unlimited one.\<close>

theorem grouped_reduction_cancellation:
  "\<exists>out used. retain_maximal_by_key C key tm (metered None) rows (0, 0) = (Inr out, used)
     \<and> (if visits used \<le> limit
         then retain_maximal_by_key C key tm (metered (Some limit)) rows (0, 0) = (Inr out, used)
         else \<exists>stopped. retain_maximal_by_key C key tm (metered (Some limit)) rows (0, 0)
               = (Inl Cancelled, stopped) \<and> visits stopped = limit)"
  using cancels_at_retain_maximal_by_key [of limit C key tm rows]
  by (fastforce simp: cancels_at_def visits_def)

end
