(* ===== verification/Certainty.thy ===== *)
theory Certainty
  imports Text
begin

text \<open>
  The \<open>Certainty\<close> of \<open>src/datatype.rs\<close>: a signed percentage, saturated at one hundred on either
  side, with the inequality that says when a set of certainties is not contradictory.  The sums
  run in 32-bit signed arithmetic, which wraps in a release build; the wrap is written out and the
  main lemma gives the bound on the number of certainties below which it cannot happen.  The
  constructor from a floating-point number and the conversions back to one are not modelled.
\<close>

record certainty =
  alpha :: int

definition clamp :: "int \<Rightarrow> int \<Rightarrow> int \<Rightarrow> int" where
  "clamp lo hi x = (if x < lo then lo else if hi < x then hi else x)"

definition from_percent :: "int \<Rightarrow> certainty" where
  "from_percent a = \<lparr>alpha = clamp (- 100) 100 a\<rparr>"

definition percent :: "certainty \<Rightarrow> int" where
  "percent c = alpha c"

definition wf_certainty :: "certainty \<Rightarrow> bool" where
  "wf_certainty c \<longleftrightarrow> - 100 \<le> alpha c \<and> alpha c \<le> 100"

lemma wf_from_percent: "wf_certainty (from_percent a)"
  by (simp add: wf_certainty_def from_percent_def clamp_def)

lemma percent_from_percent: "percent (from_percent a) = max (- 100) (min 100 a)"
  by (simp add: percent_def from_percent_def clamp_def)

lemma from_percent_percent: "wf_certainty c \<Longrightarrow> from_percent (percent c) = c"
  by (simp add: wf_certainty_def from_percent_def clamp_def percent_def)

section \<open>Consistency\<close>

definition wrap_i32 :: "int \<Rightarrow> int" where
  "wrap_i32 x = (x + 2 ^ 31) mod 2 ^ 32 - 2 ^ 31"

lemma wrap_i32_id: "- (2 ^ 31) \<le> x \<Longrightarrow> x < 2 ^ 31 \<Longrightarrow> wrap_i32 x = x"
  by (simp add: wrap_i32_def)

definition alphas :: "certainty list \<Rightarrow> int list" where
  "alphas rs = filter (\<lambda>i. i \<noteq> 0) (map alpha rs)"

definition r_total :: "certainty list \<Rightarrow> int" where
  "r_total rs =
     wrap_i32
       (foldl (\<lambda>sum i. wrap_i32 (sum + wrap_i32 (100 * wrap_i32 (1 - sgn i)))) 0 (alphas rs) sdiv 2
        + foldl (\<lambda>sum i. wrap_i32 (sum + i)) 0 (alphas rs))"

definition consistent :: "certainty list \<Rightarrow> bool" where
  "consistent rs \<longleftrightarrow> r_total rs \<le> 100"

text \<open>The specification: the number of negative certainties, in percent, plus the signed sum.\<close>

definition negatives :: "certainty list \<Rightarrow> int" where
  "negatives rs = int (length (filter (\<lambda>c. alpha c < 0) rs))"

definition total :: "certainty list \<Rightarrow> int" where
  "total rs = sum_list (map alpha rs)"

lemma wrapping_sum:
  assumes "\<forall>x \<in> set xs. \<bar>f x\<bar> \<le> B" and "\<bar>a\<bar> + int (length xs) * B < 2 ^ 31"
  shows "foldl (\<lambda>s x. wrap_i32 (s + f x)) a xs = a + sum_list (map f xs)"
  using assms
proof (induction xs arbitrary: a)
  case (Cons x xs)
  have B: "\<bar>f x\<bar> \<le> B" using Cons.prems by simp
  then have "0 \<le> B" by simp
  then have "0 \<le> int (length xs) * B" by simp
  moreover have step: "\<bar>a + f x\<bar> + int (length xs) * B < 2 ^ 31"
    using Cons.prems(2) B by (simp add: algebra_simps)
  ultimately have "\<bar>a + f x\<bar> < 2 ^ 31" by linarith
  then have "wrap_i32 (a + f x) = a + f x" by (intro wrap_i32_id) auto
  with Cons.IH [of "a + f x"] Cons.prems step show ?case by simp
qed simp

lemma sum_list_alphas: "sum_list (alphas rs) = total rs"
  by (induction rs) (auto simp: alphas_def total_def)

lemma sum_list_signs:
  "sum_list (map (\<lambda>i. 100 * (1 - sgn i)) (alphas rs)) = 200 * negatives rs"
  by (induction rs) (auto simp: alphas_def negatives_def sgn_if)

lemma negatives_bounds: "0 \<le> negatives rs \<and> negatives rs \<le> int (length rs)"
  by (simp add: negatives_def)

lemma total_bound: "\<forall>c \<in> set rs. wf_certainty c \<Longrightarrow> \<bar>total rs\<bar> \<le> 100 * int (length rs)"
  by (induction rs) (auto simp: total_def wf_certainty_def)

lemma r_total_exact:
  assumes wf: "\<forall>c \<in> set rs. wf_certainty c" and few: "length rs \<le> 10000000"
  shows "r_total rs = 100 * negatives rs + total rs"
proof -
  have len: "length (alphas rs) \<le> 10000000"
    using few length_filter_le [of "\<lambda>i. i \<noteq> 0" "map alpha rs"]
    unfolding alphas_def length_map by (rule order_trans [rotated])
  have sign: "wrap_i32 (100 * wrap_i32 (1 - sgn i)) = 100 * (1 - sgn i)" for i :: int
    by (simp add: sgn_if wrap_i32_def)
  have small: "\<forall>i \<in> set (alphas rs). \<bar>i\<bar> \<le> 100"
    using wf by (auto simp: alphas_def wf_certainty_def abs_le_iff)
  have bound: "\<forall>i \<in> set (alphas rs). \<bar>100 * (1 - sgn i)\<bar> \<le> 200"
    by (simp add: sgn_if)
  have "foldl (\<lambda>s i. wrap_i32 (s + wrap_i32 (100 * wrap_i32 (1 - sgn i)))) 0 (alphas rs)
    = 200 * negatives rs"
    using wrapping_sum [of "alphas rs" "\<lambda>i. 100 * (1 - sgn i)" 200 0] len bound
    unfolding sign sum_list_signs by simp
  moreover have "foldl (\<lambda>s i. wrap_i32 (s + i)) 0 (alphas rs) = total rs"
    using wrapping_sum [of "alphas rs" "\<lambda>i. i" 100 0] len small by (simp add: sum_list_alphas)
  moreover have "(200 * negatives rs) sdiv 2 = 100 * negatives rs"
    using negatives_bounds [of rs] by (simp add: signed_divide_int_def sgn_if)
  moreover have "wrap_i32 (100 * negatives rs + total rs) = 100 * negatives rs + total rs"
    using negatives_bounds [of rs] total_bound [OF wf] few by (intro wrap_i32_id) auto
  ultimately show ?thesis by (simp add: r_total_def)
qed

text \<open>The consistency test decides the non-contradiction inequality of Transitional Modeling,
  one hundred for every negative certainty plus the signed sum at most one hundred, for any list of
  up to ten million certainties.\<close>

theorem consistent_inequality:
  assumes "\<forall>c \<in> set rs. wf_certainty c" and "length rs \<le> 10000000"
  shows "consistent rs \<longleftrightarrow> 100 * negatives rs + total rs \<le> 100"
  by (simp add: consistent_def r_total_exact [OF assms])

text \<open>Twenty near-certain denials are consistent and the twenty-first is not.\<close>

theorem consistent_inequality_witness:
  "consistent (replicate 20 (from_percent (- 95)))
   \<and> \<not> consistent (replicate 21 (from_percent (- 95)))"
proof -
  have eval: "consistent (replicate n (from_percent (- 95))) \<longleftrightarrow> n * 5 \<le> 100"
    if "n \<le> 10000000" for n :: nat
  proof -
    have "negatives (replicate n (from_percent (- 95))) = int n"
      by (induction n) (simp_all add: negatives_def from_percent_def clamp_def)
    moreover have "total (replicate n (from_percent (- 95))) = - 95 * int n"
      by (induction n) (simp_all add: total_def from_percent_def clamp_def)
    ultimately show ?thesis
      using consistent_inequality [of "replicate n (from_percent (- 95))"] that
      by (auto simp: wf_from_percent)
  qed
  show ?thesis by (simp add: eval)
qed

section \<open>Display\<close>

definition show_certainty :: "certainty \<Rightarrow> string" where
  "show_certainty c =
     (if alpha c = - 100 then ''-1''
      else if - 99 \<le> alpha c \<and> alpha c \<le> - 1 then ''-0.'' @ show_nat_02 (nat (- alpha c))
      else if alpha c = 0 then ''0''
      else if 1 \<le> alpha c \<and> alpha c \<le> 99 then ''0.'' @ show_nat_02 (nat (alpha c))
      else if alpha c = 100 then ''1''
      else ''?'')"

end
