(* ===== verification/Json.thy ===== *)
theory Json
  imports Text
begin

text \<open>
  The semantic JSON parser of \<open>src/literal.rs\<close>: a recursive descent over the bytes of the source
  with a cursor.  The parser's state is the cursor, threaded explicitly; on an error the whole
  parse stops, so the cursor at an error is not kept.  An error is the fixed text of its message.
  Object members are a \<open>BTreeMap\<close>, here an association list strictly sorted by key.  The decimal
  type and its parser (\<open>bigdecimal\<close>) and the JSON string parser (\<open>serde_json\<close>) are parameters.
  Every function is total: the recursion ends because the cursor moves on, and that is proved.
\<close>

record 'n literal_lib =
  big_from_str :: "string \<Rightarrow> 'n option"
  json_from_str :: "string \<Rightarrow> string option"

section \<open>An ordered map\<close>

text \<open>\<open>BTreeMap::insert\<close> returns the value it replaces.\<close>

fun btree_insert :: "'k :: linorder \<Rightarrow> 'v \<Rightarrow> ('k \<times> 'v) list \<Rightarrow> ('k \<times> 'v) list \<times> 'v option" where
  "btree_insert k v [] = ([(k, v)], None)"
| "btree_insert k v ((l, w) # rest) =
     (if k < l then ((k, v) # (l, w) # rest, None)
      else if k = l then ((k, v) # rest, Some w)
      else (let (rest', old) = btree_insert k v rest in ((l, w) # rest', old)))"

definition sorted_keys :: "('k :: linorder \<times> 'v) list \<Rightarrow> bool" where
  "sorted_keys xs \<longleftrightarrow> sorted_wrt (<) (map fst xs)"

lemma btree_insert_keys: "fst ` set (fst (btree_insert k v xs)) = insert k (fst ` set xs)"
  by (induction k v xs rule: btree_insert.induct) (simp_all add: case_prod_beta insert_commute)

lemma btree_insert_sorted: "sorted_keys xs \<Longrightarrow> sorted_keys (fst (btree_insert k v xs))"
proof (induction k v xs rule: btree_insert.induct)
  case (2 k v l w rest)
  then show ?case
    using btree_insert_keys [of k v rest]
    by (auto simp: sorted_keys_def case_prod_beta dest: less_trans)
qed (simp add: sorted_keys_def)

lemma btree_insert_lookup:
  "sorted_keys xs \<Longrightarrow> map_of (fst (btree_insert k v xs)) = (map_of xs)(k \<mapsto> v)"
  by (induction k v xs rule: btree_insert.induct)
    (simp_all add: sorted_keys_def case_prod_beta fun_upd_twist)

lemma map_of_above: "\<forall>x \<in> set xs. k < fst x \<Longrightarrow> map_of xs (k :: 'k :: linorder) = None"
  by (induction xs) auto

lemma btree_insert_old: "sorted_keys xs \<Longrightarrow> snd (btree_insert k v xs) = map_of xs k"
proof (induction k v xs rule: btree_insert.induct)
  case (2 k v l w rest)
  then have "\<forall>x \<in> set rest. l < fst x" "sorted_keys rest" by (auto simp: sorted_keys_def)
  with 2 show ?case
    using map_of_above [of rest k] by (simp add: case_prod_beta) (metis less_trans)
qed simp

text \<open>Two strictly sorted lists with the same lookups are equal.\<close>

lemma sorted_keys_distinct: "sorted_keys xs \<Longrightarrow> distinct (map fst xs)"
  by (auto simp: sorted_keys_def strict_sorted_iff)

lemma sorted_keys_unique:
  assumes "sorted_keys xs" and "sorted_keys ys" and "map_of xs = map_of ys"
  shows "xs = ys"
proof -
  have "set xs = set ys"
    using assms by (metis map_of_eqI map_of_inject_set sorted_keys_distinct)
  then have "map fst xs = map fst ys"
    using assms by (intro strict_sorted_equal) (auto simp: sorted_keys_def)
  with \<open>set xs = set ys\<close> show ?thesis
    using assms by (intro map_inj_on [where f = fst])
      (auto intro: inj_onI dest!: sorted_keys_distinct simp: eq_key_imp_eq_value)
qed

section \<open>The parser\<close>

datatype 'n semantic_json =
    JNull
  | JBool bool
  | JNumber 'n
  | JString string
  | JArray "'n semantic_json list"
  | JObject "(string \<times> 'n semantic_json) list"

type_synonym 'a parsed = "string + 'a \<times> nat"

definition peek :: "string \<Rightarrow> nat \<Rightarrow> char option" where
  "peek src c = (if c < length src then Some (src ! c) else None)"

definition consume :: "string \<Rightarrow> nat \<Rightarrow> char \<Rightarrow> bool \<times> nat" where
  "consume src c expected = (if peek src c = Some expected then (True, c + 1) else (False, c))"

definition expect :: "string \<Rightarrow> nat \<Rightarrow> char \<Rightarrow> unit parsed" where
  "expect src c expected =
     (let (ok, c) = consume src c expected
      in if ok then Inr ((), c) else Inl ''expected byte'')"

text \<open>A loop that moves the cursor while the byte satisfies a predicate.\<close>

function skip_while :: "(char \<Rightarrow> bool) \<Rightarrow> string \<Rightarrow> nat \<Rightarrow> nat" where
  "skip_while p src c =
     (case peek src c of
        Some b \<Rightarrow> if p b then skip_while p src (c + 1) else c
      | None \<Rightarrow> c)"
  by pat_completeness auto
termination
  by (relation "measure (\<lambda>(p, src, c). length src - c)") (auto simp: peek_def split: if_splits)

declare skip_while.simps [simp del]

definition is_json_space :: "char \<Rightarrow> bool" where
  "is_json_space b \<longleftrightarrow> of_char b \<in> {32 :: nat, 10, 13, 9}"

definition whitespace :: "string \<Rightarrow> nat \<Rightarrow> nat" where
  "whitespace src c = skip_while is_json_space src c"

definition keyword :: "string \<Rightarrow> nat \<Rightarrow> string \<Rightarrow> unit parsed" where
  "keyword src c k =
     (if take (length k) (drop c src) = k then Inr ((), c + length k)
      else Inl ''invalid JSON token'')"

text \<open>The scan of a string token: the cursor just after the closing quotation mark.\<close>

function scan_string :: "string \<Rightarrow> nat \<Rightarrow> bool \<Rightarrow> string + nat" where
  "scan_string src c escaped =
     (case peek src c of
        None \<Rightarrow> Inl ''unterminated JSON string''
      | Some b \<Rightarrow>
          if escaped then scan_string src (c + 1) False
          else if of_char b = (92 :: nat) then scan_string src (c + 1) True
          else if of_char b = (34 :: nat) then Inr (c + 1)
          else if of_char b < (32 :: nat) then Inl ''unescaped JSON control byte''
          else scan_string src (c + 1) False)"
  by pat_completeness auto
termination
  by (relation "measure (\<lambda>(src, c, escaped). length src - c)") (auto simp: peek_def split: if_splits)

declare scan_string.simps [simp del]

definition slice :: "string \<Rightarrow> nat \<Rightarrow> nat \<Rightarrow> string" where
  "slice src start stop = take (stop - start) (drop start src)"

definition json_string :: "'n literal_lib \<Rightarrow> string \<Rightarrow> nat \<Rightarrow> string parsed" where
  "json_string L src start =
     attempt (expect src start (CHR 0x22)) (\<lambda>(_, c).
     attempt (scan_string src c False) (\<lambda>stop.
     attempt (ok_or ''invalid JSON string'' (json_from_str L (slice src start stop))) (\<lambda>s.
     Inr (s, stop))))"

text \<open>The three parts of a number: the whole part, the optional fraction, the optional exponent.\<close>

definition number_whole :: "string \<Rightarrow> nat \<Rightarrow> string + nat" where
  "number_whole src c =
     (case peek src c of
        Some b \<Rightarrow>
          if b = CHR ''0'' then
            (case peek src (c + 1) of
               Some d \<Rightarrow> if is_digit d then Inl ''leading zero in JSON number'' else Inr (c + 1)
             | None \<Rightarrow> Inr (c + 1))
          else if is_digit b then Inr (skip_while is_digit src (c + 1))
          else Inl ''invalid JSON number''
      | None \<Rightarrow> Inl ''invalid JSON number'')"

definition number_fraction :: "string \<Rightarrow> nat \<Rightarrow> string + nat" where
  "number_fraction src c =
     (let (dot, fraction_start) = consume src c (CHR ''.'')
      in if dot then
           (let c = skip_while is_digit src fraction_start
            in if c = fraction_start then Inl ''missing JSON fraction'' else Inr c)
         else Inr fraction_start)"

definition number_exponent :: "string \<Rightarrow> nat \<Rightarrow> string + nat" where
  "number_exponent src c =
     (let (e, c) = (let (e, c) = consume src c (CHR ''e'')
                    in if e then (True, c) else consume src c (CHR ''E''))
      in if e then
           (let (_, exponent_start) = (let (plus, c) = consume src c (CHR ''+'')
                                       in if plus then (True, c) else consume src c (CHR ''-''));
                c = skip_while is_digit src exponent_start
            in if c = exponent_start then Inl ''missing JSON exponent'' else Inr c)
         else Inr c)"

definition json_number :: "'n literal_lib \<Rightarrow> string \<Rightarrow> nat \<Rightarrow> 'n parsed" where
  "json_number L src start =
     (let (_, c) = consume src start (CHR ''-'')
      in attempt (number_whole src c) (\<lambda>c.
         attempt (number_fraction src c) (\<lambda>c.
         attempt (number_exponent src c) (\<lambda>c.
         attempt (ok_or ''invalid JSON number'' (big_from_str L (slice src start c))) (\<lambda>n.
         Inr (n, c))))))"

text \<open>The loops of \<open>array\<close> and \<open>object\<close> are functions of their own, \<open>json_elements\<close> and
  \<open>json_members\<close>.\<close>

function (sequential)
  json_value :: "'n literal_lib \<Rightarrow> string \<Rightarrow> nat \<Rightarrow> 'n semantic_json parsed"
  and json_array :: "'n literal_lib \<Rightarrow> string \<Rightarrow> nat \<Rightarrow> 'n semantic_json parsed"
  and json_elements ::
    "'n literal_lib \<Rightarrow> string \<Rightarrow> nat \<Rightarrow> 'n semantic_json list \<Rightarrow> 'n semantic_json parsed"
  and json_object :: "'n literal_lib \<Rightarrow> string \<Rightarrow> nat \<Rightarrow> 'n semantic_json parsed"
  and json_members ::
    "'n literal_lib \<Rightarrow> string \<Rightarrow> nat \<Rightarrow> (string \<times> 'n semantic_json) list
       \<Rightarrow> 'n semantic_json parsed" where
  "json_value L src c =
     (let c = whitespace src c
      in case peek src c of
           Some b \<Rightarrow>
             if b = CHR ''n'' then
               attempt (keyword src c ''null'') (\<lambda>(_, c). Inr (JNull, c))
             else if b = CHR ''t'' then
               attempt (keyword src c ''true'') (\<lambda>(_, c). Inr (JBool True, c))
             else if b = CHR ''f'' then
               attempt (keyword src c ''false'') (\<lambda>(_, c). Inr (JBool False, c))
             else if b = CHR 0x22 then
               attempt (json_string L src c) (\<lambda>(s, c). Inr (JString s, c))
             else if b = CHR ''['' then json_array L src c
             else if b = CHR 0x7B then json_object L src c
             else if b = CHR ''-'' \<or> is_digit b then
               attempt (json_number L src c) (\<lambda>(n, c). Inr (JNumber n, c))
             else Inl ''invalid JSON byte''
         | None \<Rightarrow> Inl ''empty or truncated JSON'')"
| "json_array L src c =
     attempt (expect src c (CHR ''['')) (\<lambda>(_, c).
       let (closed, c) = consume src (whitespace src c) (CHR '']'')
       in if closed then Inr (JArray [], c) else json_elements L src c [])"
| "json_elements L src c values =
     attempt (json_value L src c) (\<lambda>(v, c).
       let (closed, c) = consume src (whitespace src c) (CHR '']'')
       in if closed then Inr (JArray (values @ [v]), c)
          else attempt (expect src c (CHR '','')) (\<lambda>(_, c).
            json_elements L src c (values @ [v])))"
| "json_object L src c =
     attempt (expect src c (CHR 0x7B)) (\<lambda>(_, c).
       let (closed, c) = consume src (whitespace src c) (CHR 0x7D)
       in if closed then Inr (JObject [], c) else json_members L src c [])"
| "json_members L src c members =
     attempt (json_string L src (whitespace src c)) (\<lambda>(key, c).
     attempt (expect src (whitespace src c) (CHR '':'')) (\<lambda>(_, c).
     attempt (json_value L src c) (\<lambda>(value, c).
       let (members, old) = btree_insert key value members
       in if old \<noteq> None then Inl ''duplicate JSON object key''
          else let (closed, c) = consume src (whitespace src c) (CHR 0x7D)
               in if closed then Inr (JObject members, c)
                  else attempt (expect src c (CHR '','')) (\<lambda>(_, c).
                    json_members L src c members))))"
  by pat_completeness auto


section \<open>Progress and termination\<close>

lemma peek_Some: "peek src c = Some b \<longleftrightarrow> c < length src \<and> src ! c = b"
  by (auto simp: peek_def)

lemma consume_progress:
  "consume src c e = (ok, c') \<Longrightarrow> c \<le> c' \<and> (ok \<longrightarrow> c < c' \<and> c' \<le> length src) \<and> (\<not> ok \<longrightarrow> c' = c)"
  by (auto simp: consume_def peek_Some split: if_splits)

lemma expect_progress: "expect src c e = Inr (u, c') \<Longrightarrow> c' = c + 1 \<and> c < length src"
  by (auto simp: expect_def consume_def peek_Some split: if_splits)

lemma skip_while_progress: "c \<le> skip_while p src c"
  by (induction p src c rule: skip_while.induct)
    (subst skip_while.simps, fastforce simp: peek_def split: if_splits option.splits)

lemma skip_while_bound: "c \<le> length src \<Longrightarrow> skip_while p src c \<le> length src"
  by (induction p src c rule: skip_while.induct)
    (subst skip_while.simps, simp add: peek_def)

lemma whitespace_progress: "c \<le> whitespace src c"
  by (simp add: whitespace_def skip_while_progress)

lemma keyword_progress:
  assumes "keyword src c k = Inr (u, c')" and "k \<noteq> []"
  shows "c < c' \<and> c' \<le> length src"
proof -
  have "take (length k) (drop c src) = k" and c': "c' = c + length k"
    using assms(1) by (auto simp: keyword_def split: if_splits)
  then have "min (length src - c) (length k) = length k" by (metis length_drop length_take)
  then have "c + length k \<le> length src" using assms(2) by (cases k) (auto simp: min_def split: if_splits)
  with assms(2) c' show ?thesis by (cases k) auto
qed

lemma scan_string_progress: "scan_string src c esc = Inr c' \<Longrightarrow> c < c' \<and> c' \<le> length src"
proof (induction src c esc rule: scan_string.induct)
  case (1 src c esc)
  show ?case
  proof (cases "peek src c")
    case None
    with "1.prems" show ?thesis by (subst (asm) scan_string.simps) simp
  next
    case (Some b)
    then have "c < length src" by (simp add: peek_Some)
    with "1.prems" Some "1.IH" [OF Some] show ?thesis
      by (subst (asm) scan_string.simps) (auto split: if_splits)
  qed
qed

lemma json_string_progress:
  "json_string L src c = Inr (s, c') \<Longrightarrow> c < c' \<and> c' \<le> length src"
  by (auto simp: json_string_def attempt_eq_Inr dest!: scan_string_progress expect_progress)

lemma number_whole_progress: "number_whole src c = Inr c' \<Longrightarrow> c < c'"
  using skip_while_progress [of "c + 1" is_digit src]
  by (auto simp: number_whole_def split: option.splits if_splits)

lemma number_fraction_progress: "number_fraction src c = Inr c' \<Longrightarrow> c \<le> c'"
  using skip_while_progress [of "c + 1" is_digit src]
  by (auto simp: number_fraction_def consume_def Let_def split: if_splits)

lemma number_exponent_progress: "number_exponent src c = Inr c' \<Longrightarrow> c \<le> c'"
  using skip_while_progress [of "c + 1" is_digit src]
    skip_while_progress [of "Suc (Suc c)" is_digit src]
  by (auto simp: number_exponent_def consume_def Let_def split: if_splits)

lemma json_number_progress: "json_number L src c = Inr (n, c') \<Longrightarrow> c < c'"
  by (auto simp: json_number_def consume_def attempt_eq_Inr split: if_splits
      dest!: number_whole_progress number_fraction_progress number_exponent_progress)

lemma separator_progress: "consume src (whitespace src c) e = (ok, d) \<Longrightarrow> c \<le> d"
  using whitespace_progress [of c src] consume_progress [of src "whitespace src c" e ok d] by simp

lemma colon_progress: "expect src (whitespace src c) e = Inr (u, d) \<Longrightarrow> c < d \<and> d \<le> length src"
  using whitespace_progress [of c src] by (auto dest: expect_progress)

lemma key_progress:
  "json_string L src (whitespace src c) = Inr (k, d) \<Longrightarrow> c < d \<and> d \<le> length src"
  using whitespace_progress [of c src] by (auto dest: json_string_progress)

lemma json_progress:
  "json_value_json_array_json_elements_json_object_json_members_dom (Inl (Inl (L, src, c))) \<Longrightarrow>
     json_value L src c = Inr (v, c') \<Longrightarrow> c < c'"
  "json_value_json_array_json_elements_json_object_json_members_dom (Inl (Inr (L, src, c))) \<Longrightarrow>
     json_array L src c = Inr (v, c') \<Longrightarrow> c < c'"
  "json_value_json_array_json_elements_json_object_json_members_dom (Inr (Inl (L, src, c, vs))) \<Longrightarrow>
     json_elements L src c vs = Inr (v, c') \<Longrightarrow> c < c'"
  "json_value_json_array_json_elements_json_object_json_members_dom (Inr (Inr (Inl (L, src, c)))) \<Longrightarrow>
     json_object L src c = Inr (v, c') \<Longrightarrow> c < c'"
  "json_value_json_array_json_elements_json_object_json_members_dom
       (Inr (Inr (Inr (L, src, c, ms)))) \<Longrightarrow>
     json_members L src c ms = Inr (v, c') \<Longrightarrow> c < c'"
proof (induction L src c and L src c and L src c vs and L src c and L src c ms
    arbitrary: v c' and v c' and v c' and v c' and v c'
    rule: json_value_json_array_json_elements_json_object_json_members.pinduct)
  case (1 L src c)
  have w: "c \<le> whitespace src c" by (rule whitespace_progress)
  have "\<And>k u d. keyword src (whitespace src c) k = Inr (u, d) \<Longrightarrow> k \<noteq> [] \<Longrightarrow> c < d"
    using keyword_progress w by (meson le_less_trans)
  moreover have "\<And>s d. json_string L src (whitespace src c) = Inr (s, d) \<Longrightarrow> c < d"
    using json_string_progress w by (meson le_less_trans)
  moreover have "\<And>n d. json_number L src (whitespace src c) = Inr (n, d) \<Longrightarrow> c < d"
    using json_number_progress w by (meson le_less_trans)
  moreover have "\<And>v d. peek src (whitespace src c) = Some (CHR ''['') \<Longrightarrow>
      json_array L src (whitespace src c) = Inr (v, d) \<Longrightarrow> c < d"
    using "1.IH"(1) w by (fastforce intro: le_less_trans)
  moreover have "\<And>v d. peek src (whitespace src c) = Some (CHR 0x7B) \<Longrightarrow>
      json_object L src (whitespace src c) = Inr (v, d) \<Longrightarrow> c < d"
    using "1.IH"(2) w by (fastforce intro: le_less_trans)
  ultimately show ?case
    using "1.prems"
    by (simp add: json_value.psimps [OF "1.hyps"] Let_def attempt_eq_Inr split: option.splits if_splits)
      blast+
next
  case (2 L src c)
  obtain c1 where bracket: "expect src c (CHR ''['') = Inr ((), c1)"
    using "2.prems" by (auto simp: json_array.psimps [OF "2.hyps"] attempt_eq_Inr)
  obtain ok d where sep: "consume src (whitespace src c1) (CHR '']'') = (ok, d)" by fastforce
  have "c < d" using expect_progress [OF bracket] separator_progress [OF sep] by simp
  show ?case
  proof (cases ok)
    case True
    with "2.prems" bracket sep \<open>c < d\<close> show ?thesis
      by (simp add: json_array.psimps [OF "2.hyps"])
  next
    case False
    with "2.prems" bracket sep have "json_elements L src d [] = Inr (v, c')"
      by (simp add: json_array.psimps [OF "2.hyps"])
    with "2.IH" [OF bracket refl sep [symmetric] refl] False \<open>c < d\<close> show ?thesis by simp
  qed
next
  case (3 L src c vs)
  obtain v1 c1 where v1: "json_value L src c = Inr (v1, c1)"
    using "3.prems" by (auto simp: json_elements.psimps [OF "3.hyps"] attempt_eq_Inr)
  obtain ok d where sep: "consume src (whitespace src c1) (CHR '']'') = (ok, d)" by fastforce
  have "c < d" using "3.IH"(1) [OF v1] separator_progress [OF sep] by simp
  show ?case
  proof (cases ok)
    case True
    with "3.prems" v1 sep \<open>c < d\<close> show ?thesis
      by (simp add: json_elements.psimps [OF "3.hyps"])
  next
    case False
    with "3.prems" v1 sep obtain c2 where c2: "expect src d (CHR '','') = Inr ((), c2)"
      and "json_elements L src c2 (vs @ [v1]) = Inr (v, c')"
      by (auto simp: json_elements.psimps [OF "3.hyps"] attempt_eq_Inr)
    with "3.IH"(2) [OF v1 refl sep [symmetric] refl] False have "c2 < c'" by simp
    with expect_progress [OF c2] \<open>c < d\<close> show ?thesis by simp
  qed
next
  case (4 L src c)
  obtain c1 where bracket: "expect src c (CHR 0x7B) = Inr ((), c1)"
    using "4.prems" by (auto simp: json_object.psimps [OF "4.hyps"] attempt_eq_Inr)
  obtain ok d where sep: "consume src (whitespace src c1) (CHR 0x7D) = (ok, d)" by fastforce
  have "c < d" using expect_progress [OF bracket] separator_progress [OF sep] by simp
  show ?case
  proof (cases ok)
    case True
    with "4.prems" bracket sep \<open>c < d\<close> show ?thesis
      by (simp add: json_object.psimps [OF "4.hyps"])
  next
    case False
    with "4.prems" bracket sep have "json_members L src d [] = Inr (v, c')"
      by (simp add: json_object.psimps [OF "4.hyps"])
    with "4.IH" [OF bracket refl sep [symmetric] refl] False \<open>c < d\<close> show ?thesis by simp
  qed
next
  case (5 L src c members)
  obtain k c1 c2 v1 c3
    where k: "json_string L src (whitespace src c) = Inr (k, c1)"
      and colon: "expect src (whitespace src c1) (CHR '':'') = Inr ((), c2)"
      and v1: "json_value L src c2 = Inr (v1, c3)"
    using "5.prems" by (auto simp: json_members.psimps [OF "5.hyps"] attempt_eq_Inr)
  obtain ok d where sep: "consume src (whitespace src c3) (CHR 0x7D) = (ok, d)" by fastforce
  obtain ms old where ins: "btree_insert k v1 members = (ms, old)" by fastforce
  have "c2 < c3" using "5.IH"(1) k colon v1 by fastforce
  then have "c < d"
    using key_progress [OF k] colon_progress [OF colon] separator_progress [OF sep] by simp
  have old: "old = None" 
    using "5.prems" k colon v1 sep ins
    by (auto simp: json_members.psimps [OF "5.hyps"] attempt_eq_Inr split: if_splits)
  show ?case
  proof (cases ok)
    case True
    with "5.prems" k colon v1 sep ins old \<open>c < d\<close> show ?thesis
      by (simp add: json_members.psimps [OF "5.hyps"])
  next
    case False
    with "5.prems" k colon v1 sep ins old obtain c4
      where c4: "expect src d (CHR '','') = Inr ((), c4)"
      and "json_members L src c4 ms = Inr (v, c')"
      by (auto simp: json_members.psimps [OF "5.hyps"] attempt_eq_Inr)
    with "5.IH"(2) k colon v1 sep ins old False have "c4 < c'" by fastforce
    with expect_progress [OF c4] \<open>c < d\<close> show ?thesis by simp
  qed
qed

termination json_value
  apply (relation "measures [\<lambda>x. case x of
      Inl (Inl (L, src, c)) \<Rightarrow> length src - c
    | Inl (Inr (L, src, c)) \<Rightarrow> length src - c
    | Inr (Inl (L, src, c, vs)) \<Rightarrow> length src - c
    | Inr (Inr (Inl (L, src, c))) \<Rightarrow> length src - c
    | Inr (Inr (Inr (L, src, c, ms))) \<Rightarrow> length src - c,
    \<lambda>x. case x of
      Inl (Inl _) \<Rightarrow> 2 | Inl (Inr _) \<Rightarrow> 1 | Inr (Inl _) \<Rightarrow> 3 | Inr (Inr (Inl _)) \<Rightarrow> 1
    | Inr (Inr (Inr _)) \<Rightarrow> 3]")
  apply (simp_all)
  subgoal for src c x x2 using whitespace_progress [of c src] by linarith
  subgoal for src c x x2 using whitespace_progress [of c src] by linarith
  subgoal by (auto dest!: expect_progress separator_progress [OF sym])
  subgoal by (auto dest!: json_progress(1) expect_progress separator_progress [OF sym])
  subgoal by (auto dest!: expect_progress separator_progress [OF sym])
  subgoal by (auto dest!: key_progress colon_progress)
  subgoal for L src c members a x y
    using whitespace_progress [of y src]
    by (auto dest!: json_progress(1) key_progress expect_progress separator_progress [OF sym])
  done

section \<open>The entry point and the shape of its result\<close>

definition json_parse :: "'n literal_lib \<Rightarrow> string \<Rightarrow> string + 'n semantic_json" where
  "json_parse L src =
     attempt (json_value L src 0) (\<lambda>(value, c).
     if whitespace src c \<noteq> length src then Inl ''trailing JSON data'' else Inr value)"

text \<open>The members of every object are strictly sorted by key, so no key occurs twice and two
  parsed objects are equal exactly if they map the same keys to the same values.\<close>

fun wf_json :: "'n semantic_json \<Rightarrow> bool" where
  "wf_json (JArray vs) \<longleftrightarrow> (\<forall>v \<in> set vs. wf_json v)"
| "wf_json (JObject ms) \<longleftrightarrow> sorted_keys ms \<and> (\<forall>(k, v) \<in> set ms. wf_json v)"
| "wf_json _ \<longleftrightarrow> True"

lemma btree_insert_values:
  "x \<in> set (fst (btree_insert k v xs)) \<Longrightarrow> x = (k, v) \<or> x \<in> set xs"
  by (induction k v xs rule: btree_insert.induct) (auto simp: case_prod_beta split: if_splits)

declare json_value.simps [simp del] json_array.simps [simp del] json_elements.simps [simp del]
  json_object.simps [simp del] json_members.simps [simp del]

lemma json_value_cases:
  assumes "json_value L src c = Inr (v, c')"
  obtains "v = JNull" | t where "v = JBool t" | s where "v = JString s" | n where "v = JNumber n"
  | "peek src (whitespace src c) = Some (CHR ''['')"
    "json_array L src (whitespace src c) = Inr (v, c')"
  | "peek src (whitespace src c) = Some (CHR 0x7B)"
    "json_object L src (whitespace src c) = Inr (v, c')"
proof -
  note run = assms [unfolded json_value.simps [of L src c] Let_def]
  from run obtain b where b: "peek src (whitespace src c) = Some b"
    by (cases "peek src (whitespace src c)") simp_all
  note run = run [unfolded b option.simps]
  consider "b = CHR ''n''" | "b = CHR ''t''" | "b = CHR ''f''" | "b = CHR 0x22" | "b = CHR ''[''"
    | "b = CHR 0x7B" | "b \<notin> {CHR ''n'', CHR ''t'', CHR ''f'', CHR 0x22, CHR ''['', CHR 0x7B}"
    by blast
  then show thesis
  proof cases
    case 7
    with run have "attempt (json_number L src (whitespace src c)) (\<lambda>(n, c). Inr (JNumber n, c))
      = Inr (v, c')" by (simp split: if_splits)
    with that(4) show thesis by (auto simp: attempt_eq_Inr)
  qed (use run b that in \<open>auto simp: attempt_eq_Inr\<close>)
qed

lemma json_array_cases:
  assumes "json_array L src c = Inr (v, c')"
  obtains c1 where "expect src c (CHR ''['') = Inr ((), c1)"
      "consume src (whitespace src c1) (CHR '']'') = (True, c')" "v = JArray []"
  | c1 d where "expect src c (CHR ''['') = Inr ((), c1)"
      "consume src (whitespace src c1) (CHR '']'') = (False, d)"
      "json_elements L src d [] = Inr (v, c')"
proof -
  note run = assms [unfolded json_array.simps [of L src c]]
  obtain c1 where c1: "expect src c (CHR ''['') = Inr ((), c1)"
    using run by (auto simp: attempt_eq_Inr)
  obtain ok d where sep: "consume src (whitespace src c1) (CHR '']'') = (ok, d)" by fastforce
  show thesis using run c1 sep that by (cases ok) auto
qed

lemma json_elements_cases:
  assumes "json_elements L src c vs = Inr (v, c')"
  obtains v1 c1 where "json_value L src c = Inr (v1, c1)"
      "consume src (whitespace src c1) (CHR '']'') = (True, c')" "v = JArray (vs @ [v1])"
  | v1 c1 d c2 where "json_value L src c = Inr (v1, c1)"
      "consume src (whitespace src c1) (CHR '']'') = (False, d)"
      "expect src d (CHR '','') = Inr ((), c2)"
      "json_elements L src c2 (vs @ [v1]) = Inr (v, c')"
proof -
  note run = assms [unfolded json_elements.simps [of L src c]]
  obtain v1 c1 where v1: "json_value L src c = Inr (v1, c1)"
    using run by (auto simp: attempt_eq_Inr)
  obtain ok d where sep: "consume src (whitespace src c1) (CHR '']'') = (ok, d)" by fastforce
  show thesis
  proof (cases ok)
    case False
    then obtain c2 where "expect src d (CHR '','') = Inr ((), c2)"
      using run v1 sep by (auto simp: attempt_eq_Inr)
    with run v1 sep False that show thesis by auto
  qed (use run v1 sep that in auto)
qed

lemma json_object_cases:
  assumes "json_object L src c = Inr (v, c')"
  obtains c1 where "expect src c (CHR 0x7B) = Inr ((), c1)"
      "consume src (whitespace src c1) (CHR 0x7D) = (True, c')" "v = JObject []"
  | c1 d where "expect src c (CHR 0x7B) = Inr ((), c1)"
      "consume src (whitespace src c1) (CHR 0x7D) = (False, d)"
      "json_members L src d [] = Inr (v, c')"
proof -
  note run = assms [unfolded json_object.simps [of L src c]]
  obtain c1 where c1: "expect src c (CHR 0x7B) = Inr ((), c1)"
    using run by (auto simp: attempt_eq_Inr)
  obtain ok d where sep: "consume src (whitespace src c1) (CHR 0x7D) = (ok, d)" by fastforce
  show thesis using run c1 sep that by (cases ok) auto
qed

lemma json_members_cases:
  assumes "json_members L src c ms = Inr (v, c')"
  obtains k c1 c2 v1 c3 ms' where "json_string L src (whitespace src c) = Inr (k, c1)"
      "expect src (whitespace src c1) (CHR '':'') = Inr ((), c2)"
      "json_value L src c2 = Inr (v1, c3)" "btree_insert k v1 ms = (ms', None)"
      "consume src (whitespace src c3) (CHR 0x7D) = (True, c')" "v = JObject ms'"
  | k c1 c2 v1 c3 ms' d c4 where "json_string L src (whitespace src c) = Inr (k, c1)"
      "expect src (whitespace src c1) (CHR '':'') = Inr ((), c2)"
      "json_value L src c2 = Inr (v1, c3)" "btree_insert k v1 ms = (ms', None)"
      "consume src (whitespace src c3) (CHR 0x7D) = (False, d)"
      "expect src d (CHR '','') = Inr ((), c4)"
      "json_members L src c4 ms' = Inr (v, c')"
proof -
  note run = assms [unfolded json_members.simps [of L src c]]
  obtain k c1 where k: "json_string L src (whitespace src c) = Inr (k, c1)"
    using run by (auto simp: attempt_eq_Inr)
  with run obtain c2 where colon: "expect src (whitespace src c1) (CHR '':'') = Inr ((), c2)"
    by (auto simp: attempt_eq_Inr)
  with run k obtain v1 c3 where v1: "json_value L src c2 = Inr (v1, c3)"
    by (auto simp: attempt_eq_Inr)
  obtain ms' old where ins: "btree_insert k v1 ms = (ms', old)" by fastforce
  have old: "old = None" using run k colon v1 ins by (auto split: if_splits)
  obtain ok d where sep: "consume src (whitespace src c3) (CHR 0x7D) = (ok, d)" by fastforce
  show thesis
  proof (cases ok)
    case True
    then show thesis using run k colon v1 ins old sep that(1) by simp
  next
    case False
    then obtain c4 where "expect src d (CHR '','') = Inr ((), c4)"
      using run k colon v1 ins old sep by (auto simp: attempt_eq_Inr)
    with False show thesis using run k colon v1 ins old sep that(2) by simp
  qed
qed

lemma json_value_wf:
  "json_value L src c = Inr (v, c') \<Longrightarrow> wf_json v"
  "json_array L src c = Inr (v, c') \<Longrightarrow> wf_json v"
  "json_elements L src c vs = Inr (v, c') \<Longrightarrow> \<forall>x \<in> set vs. wf_json x \<Longrightarrow> wf_json v"
  "json_object L src c = Inr (v, c') \<Longrightarrow> wf_json v"
  "json_members L src c ms = Inr (v, c') \<Longrightarrow> wf_json (JObject ms) \<Longrightarrow> wf_json v"
proof (induction L src c and L src c and L src c vs and L src c and L src c ms
    arbitrary: v c' and v c' and v c' and v c' and v c'
    rule: json_value_json_array_json_elements_json_object_json_members.induct)
  case (1 L src c)
  from "1.prems" show ?case
  proof (rule json_value_cases)
    assume "peek src (whitespace src c) = Some (CHR ''['')"
      and "json_array L src (whitespace src c) = Inr (v, c')"
    then show ?thesis using "1.IH"(1) by fastforce
  next
    assume "peek src (whitespace src c) = Some (CHR 0x7B)"
      and "json_object L src (whitespace src c) = Inr (v, c')"
    then show ?thesis using "1.IH"(2) by fastforce
  qed simp_all
next
  case (2 L src c)
  from "2.prems" show ?case by (rule json_array_cases) (use "2.IH" in fastforce)+
next
  case (3 L src c vs)
  from "3.prems"(1) show ?case
  proof (rule json_elements_cases)
    fix v1 c1
    assume "json_value L src c = Inr (v1, c1)" and "v = JArray (vs @ [v1])"
    then show ?thesis using "3.IH"(1) "3.prems"(2) by auto
  next
    fix v1 c1 d c2
    assume "json_value L src c = Inr (v1, c1)"
      and "consume src (whitespace src c1) (CHR '']'') = (False, d)"
      and "expect src d (CHR '','') = Inr ((), c2)"
      and "json_elements L src c2 (vs @ [v1]) = Inr (v, c')"
    then show ?thesis using "3.IH" "3.prems"(2) by fastforce
  qed
next
  case (4 L src c)
  from "4.prems" show ?case
    by (rule json_object_cases) (use "4.IH" in \<open>fastforce simp: sorted_keys_def\<close>)+
next
  case (5 L src c ms)
  have wf: "wf_json (JObject ms')"
    if "wf_json v1" and "btree_insert k v1 ms = (ms', None)" for k v1 ms'
    using that "5.prems"(2) btree_insert_sorted [of ms k v1] btree_insert_values [of _ k v1 ms]
    by fastforce
  from "5.prems"(1) show ?case
  proof (rule json_members_cases)
    fix k c1 c2 v1 c3 ms'
    assume "json_string L src (whitespace src c) = Inr (k, c1)"
      and "expect src (whitespace src c1) (CHR '':'') = Inr ((), c2)"
      and "json_value L src c2 = Inr (v1, c3)" and "btree_insert k v1 ms = (ms', None)"
      and "v = JObject ms'"
    then show ?thesis using "5.IH"(1) wf by blast
  next
    fix k c1 c2 v1 c3 ms' d c4
    assume *: "json_string L src (whitespace src c) = Inr (k, c1)"
      "expect src (whitespace src c1) (CHR '':'') = Inr ((), c2)"
      "json_value L src c2 = Inr (v1, c3)" "btree_insert k v1 ms = (ms', None)"
      "consume src (whitespace src c3) (CHR 0x7D) = (False, d)"
      "expect src d (CHR '','') = Inr ((), c4)"
      "json_members L src c4 ms' = Inr (v, c')"
    moreover have "wf_json (JObject ms')" using "5.IH"(1) wf * by blast
    ultimately show ?thesis using "5.IH"(2) by fastforce
  qed
qed

lemma json_parse_wf: "json_parse L src = Inr v \<Longrightarrow> wf_json v"
  by (auto simp: json_parse_def attempt_eq_Inr dest: json_value_wf(1) split: if_splits)

end
