(* ===== verification/Literals.thy ===== *)
theory Literals
  imports Json Certainty Errors
begin

text \<open>
  The literal values of \<open>src/literal.rs\<close>: a token kept byte for byte with the family its surface
  syntax selected, validated when it is made, compared exactly by token and nominally by the value
  the token denotes.  An error is the fixed text of its message.
\<close>

datatype literal_family =
    StringFamily | IntegerFamily | DecimalFamily | CertaintyFamily | JsonFamily | TimeFamily

definition from_identifier :: "u8 \<Rightarrow> literal_family option" where
  "from_identifier i =
     (if i = 1 then Some StringFamily
      else if i = 2 then Some IntegerFamily
      else if i = 3 then Some DecimalFamily
      else if i = 4 then Some CertaintyFamily
      else if i = 5 then Some JsonFamily
      else if i = 6 then Some TimeFamily
      else None)"

fun family_identifier :: "literal_family \<Rightarrow> u8" where
  "family_identifier StringFamily = 1"
| "family_identifier IntegerFamily = 2"
| "family_identifier DecimalFamily = 3"
| "family_identifier CertaintyFamily = 4"
| "family_identifier JsonFamily = 5"
| "family_identifier TimeFamily = 6"

lemma from_identifier_identifier [simp]: "from_identifier (family_identifier f) = Some f"
  by (cases f) (simp_all add: from_identifier_def)

lemma from_identifier_eq_Some: "from_identifier i = Some f \<longleftrightarrow> i = family_identifier f"
  by (cases f) (auto simp: from_identifier_def)

record literal =
  token :: string
  family :: literal_family

datatype 'n literal_order_key = NumberKey 'n | CertaintyKey int

datatype ordering = Less | Equal | Greater

definition compare :: "'a :: linorder \<Rightarrow> 'a \<Rightarrow> ordering" where
  "compare x y = (if x < y then Less else if x = y then Equal else Greater)"

section \<open>Validation\<close>

definition parse_number :: "'n literal_lib \<Rightarrow> string \<Rightarrow> string + 'n" where
  "parse_number L t = ok_or ''invalid number'' (big_from_str L t)"

definition parse_certainty :: "string \<Rightarrow> string + int" where
  "parse_certainty t =
     attempt (ok_or ''certainty literal lacks percent sign'' (strip_suffix (CHR 0x25) t)) (\<lambda>pct.
     attempt (ok_or ''invalid certainty'' (parse_i16 pct)) (\<lambda>value.
     if value < - 100 \<or> 100 < value then Inl ''certainty is outside -100%..=100%''
     else Inr value))"

definition parse_json_string :: "'n literal_lib \<Rightarrow> string \<Rightarrow> string + string" where
  "parse_json_string L t = ok_or ''invalid string literal'' (json_from_str L t)"

definition unsigned_part :: "string \<Rightarrow> string" where
  "unsigned_part t =
     (case strip_prefix [CHR ''+'', CHR ''-''] t of Some rest \<Rightarrow> rest | None \<Rightarrow> t)"

definition validate_integer :: "'n literal_lib \<Rightarrow> string \<Rightarrow> string + unit" where
  "validate_integer L t =
     (let digits = unsigned_part t
      in if digits = [] \<or> \<not> list_all is_digit digits then Inl ''invalid integer literal''
         else attempt (parse_number L t) (\<lambda>_. Inr ()))"

definition validate_decimal :: "'n literal_lib \<Rightarrow> string \<Rightarrow> string + unit" where
  "validate_decimal L t =
     (case split_once (CHR ''.'') (unsigned_part t) of
        None \<Rightarrow> Inl ''invalid decimal literal''
      | Some (whole, fraction) \<Rightarrow>
          if whole = [] \<or> fraction = [] \<or> \<not> list_all is_digit whole
             \<or> \<not> list_all is_digit fraction
          then Inl ''invalid decimal literal''
          else attempt (parse_number L t) (\<lambda>_. Inr ()))"

fun validate :: "'n literal_lib \<Rightarrow> string \<Rightarrow> literal_family \<Rightarrow> string + unit" where
  "validate L t StringFamily = attempt (parse_json_string L t) (\<lambda>_. Inr ())"
| "validate L t IntegerFamily = validate_integer L t"
| "validate L t DecimalFamily = validate_decimal L t"
| "validate L t CertaintyFamily = attempt (parse_certainty t) (\<lambda>_. Inr ())"
| "validate L t JsonFamily = attempt (json_parse L t) (\<lambda>_. Inr ())"
| "validate L t TimeFamily =
     (if t = [] then Inl ''time literal token cannot be empty'' else Inr ())"

definition new_literal :: "'n literal_lib \<Rightarrow> string \<Rightarrow> literal_family \<Rightarrow> string + literal" where
  "new_literal L t f = attempt (validate L t f) (\<lambda>_. Inr \<lparr>token = t, family = f\<rparr>)"

definition wf_literal :: "'n literal_lib \<Rightarrow> literal \<Rightarrow> bool" where
  "wf_literal L l \<longleftrightarrow> validate L (token l) (family l) = Inr ()"

lemma new_literal_eq_Inr: "new_literal L t f = Inr l \<longleftrightarrow> l = \<lparr>token = t, family = f\<rparr> \<and> wf_literal L l"
  by (auto simp: new_literal_def attempt_eq_Inr wf_literal_def)

lemma new_literal_parts: "wf_literal L l \<Longrightarrow> new_literal L (token l) (family l) = Inr l"
  by (simp add: new_literal_eq_Inr)

section \<open>Equality and order\<close>

text \<open>\<open>exactly_equals\<close> and the \<open>Eq\<close>, \<open>Ord\<close> and \<open>Hash\<close> instances look at the token alone.\<close>

definition exactly_equals :: "literal \<Rightarrow> literal \<Rightarrow> bool" where
  "exactly_equals x y \<longleftrightarrow> token x = token y"

definition certainty_percent :: "literal \<Rightarrow> string + int option" where
  "certainty_percent x =
     (if family x = CertaintyFamily then attempt (parse_certainty (token x)) (\<lambda>v. Inr (Some v))
      else Inr None)"

definition is_numeric :: "literal_family \<Rightarrow> bool" where
  "is_numeric f \<longleftrightarrow> f = IntegerFamily \<or> f = DecimalFamily"

definition nominally_equals :: "'n literal_lib \<Rightarrow> literal \<Rightarrow> literal \<Rightarrow> string + bool" where
  "nominally_equals L x y =
     (if is_numeric (family x) \<and> is_numeric (family y) then
        attempt (parse_number L (token x)) (\<lambda>a.
        attempt (parse_number L (token y)) (\<lambda>b. Inr (a = b)))
      else if family x = CertaintyFamily \<and> family y = CertaintyFamily then
        attempt (parse_certainty (token x)) (\<lambda>a.
        attempt (parse_certainty (token y)) (\<lambda>b. Inr (a = b)))
      else if family x = StringFamily \<and> family y = StringFamily then
        attempt (parse_json_string L (token x)) (\<lambda>a.
        attempt (parse_json_string L (token y)) (\<lambda>b. Inr (a = b)))
      else if family x = JsonFamily \<and> family y = JsonFamily then
        attempt (json_parse L (token x)) (\<lambda>a.
        attempt (json_parse L (token y)) (\<lambda>b. Inr (a = b)))
      else if family x = TimeFamily \<and> family y = TimeFamily then Inr (token x = token y)
      else Inl ''unsupported nominal comparison'')"

definition semantic_cmp :: "'n :: linorder literal_lib \<Rightarrow> literal \<Rightarrow> literal \<Rightarrow> string + ordering" where
  "semantic_cmp L x y =
     (if is_numeric (family x) \<and> is_numeric (family y) then
        attempt (parse_number L (token x)) (\<lambda>a.
        attempt (parse_number L (token y)) (\<lambda>b. Inr (compare a b)))
      else if family x = CertaintyFamily \<and> family y = CertaintyFamily then
        attempt (parse_certainty (token x)) (\<lambda>a.
        attempt (parse_certainty (token y)) (\<lambda>b. Inr (compare a b)))
      else Inl ''ordering is unsupported'')"

definition order_key :: "'n literal_lib \<Rightarrow> literal \<Rightarrow> string + 'n literal_order_key" where
  "order_key L x =
     (if is_numeric (family x) then
        attempt (parse_number L (token x)) (\<lambda>a. Inr (NumberKey a))
      else if family x = CertaintyFamily then
        attempt (parse_certainty (token x)) (\<lambda>a. Inr (CertaintyKey a))
      else Inl ''ORDER BY is unsupported'')"

text \<open>The mixed case is \<open>unreachable!\<close> in the source; the query validates the families first.\<close>

fun order_key_cmp :: "'n :: linorder literal_order_key \<Rightarrow> 'n literal_order_key \<Rightarrow> ordering option" where
  "order_key_cmp (NumberKey a) (NumberKey b) = Some (compare a b)"
| "order_key_cmp (CertaintyKey a) (CertaintyKey b) = Some (compare a b)"
| "order_key_cmp _ _ = None"

definition possibly_equals :: "'n literal_lib \<Rightarrow> literal \<Rightarrow> literal \<Rightarrow> string + bool" where
  "possibly_equals L x y = nominally_equals L x y"

section \<open>What a literal denotes\<close>

text \<open>The abstract value of a well-formed literal, and its sort.  Nominal equality is equality of
  these values within a sort.\<close>

datatype 'n denotation =
    DNumber 'n | DCertainty int | DText string | DJson "'n semantic_json" | DTime string

fun denote :: "'n literal_lib \<Rightarrow> literal_family \<Rightarrow> string \<Rightarrow> 'n denotation option" where
  "denote L StringFamily t = map_option DText (json_from_str L t)"
| "denote L IntegerFamily t = map_option DNumber (big_from_str L t)"
| "denote L DecimalFamily t = map_option DNumber (big_from_str L t)"
| "denote L CertaintyFamily t =
     (case parse_certainty t of Inr v \<Rightarrow> Some (DCertainty v) | Inl e \<Rightarrow> None)"
| "denote L JsonFamily t = (case json_parse L t of Inr v \<Rightarrow> Some (DJson v) | Inl e \<Rightarrow> None)"
| "denote L TimeFamily t = Some (DTime t)"

definition value_of :: "'n literal_lib \<Rightarrow> literal \<Rightarrow> 'n denotation" where
  "value_of L l = the (denote L (family l) (token l))"

fun same_sort :: "literal_family \<Rightarrow> literal_family \<Rightarrow> bool" where
  "same_sort f g \<longleftrightarrow> f = g \<or> is_numeric f \<and> is_numeric g"

lemma wf_literal_denotes: "wf_literal L l \<Longrightarrow> \<exists>d. denote L (family l) (token l) = Some d"
  by (cases "family l")
    (auto simp: wf_literal_def validate_integer_def validate_decimal_def parse_number_def
      parse_json_string_def attempt_eq_Inr Let_def split: if_splits option.splits)

text \<open>C38: on literals the constructor accepts, nominal equality is equality of the denoted values
  (numbers by value whatever their spelling, strings unescaped, JSON as trees with unordered
  members) for two literals of one sort, and an error for literals of different sorts.\<close>

theorem nominally_equals_spec:
  assumes "wf_literal L x" and "wf_literal L y"
  shows "nominally_equals L x y =
    (if same_sort (family x) (family y) then Inr (value_of L x = value_of L y)
     else Inl ''unsupported nominal comparison'')"
proof -
  obtain d e where "denote L (family x) (token x) = Some d" "denote L (family y) (token y) = Some e"
    using wf_literal_denotes [OF assms(1)] wf_literal_denotes [OF assms(2)] by blast
  then show ?thesis
    by (cases "family x"; cases "family y")
      (auto simp: nominally_equals_def value_of_def is_numeric_def parse_number_def
        parse_json_string_def attempt_def split: sum.splits)
qed

text \<open>A library instance for concrete runs: decimal integers, and strings without escapes.\<close>

definition plain_lib :: "int literal_lib" where
  "plain_lib =
     \<lparr>big_from_str = parse_int (- (10 ^ 30)) (10 ^ 30),
      json_from_str = (\<lambda>t. if 2 \<le> length t then Some (butlast (tl t)) else None)\<rparr>"

lemma parse_certainty_percent:
  "- 100 \<le> v \<Longrightarrow> v \<le> 100 \<Longrightarrow> parse_certainty (show_int v @ [CHR 0x25]) = Inr v"
  by (simp add: parse_certainty_def)

lemma parse_certainty_bounds: "parse_certainty t = Inr v \<Longrightarrow> - 100 \<le> v \<and> v \<le> 100"
  by (auto simp: parse_certainty_def attempt_eq_Inr split: if_splits)

theorem nominally_equals_spec_witness:
  "nominally_equals plain_lib \<lparr>token = ''7'', family = IntegerFamily\<rparr>
     \<lparr>token = ''+07'', family = IntegerFamily\<rparr> = Inr True"
proof -
  have "wf_literal plain_lib \<lparr>token = ''7'', family = IntegerFamily\<rparr>"
    "wf_literal plain_lib \<lparr>token = ''+07'', family = IntegerFamily\<rparr>"
    by code_simp+
  moreover have "value_of plain_lib \<lparr>token = ''7'', family = IntegerFamily\<rparr>
    = value_of plain_lib \<lparr>token = ''+07'', family = IntegerFamily\<rparr>"
    by code_simp
  ultimately show ?thesis by (simp add: nominally_equals_spec)
qed

text \<open>The order key a query prepares once per row agrees with the pairwise comparison: when two
  literals can be compared, both keys exist and comparing the keys gives the same ordering; when
  both keys exist but the comparison is refused, the keys are of different kinds, the case the
  key comparison leaves out.\<close>

theorem order_key_agrees:
  "semantic_cmp L x y = Inr r \<longleftrightarrow>
     (\<exists>kx ky. order_key L x = Inr kx \<and> order_key L y = Inr ky \<and> order_key_cmp kx ky = Some r)"
  by (auto simp: semantic_cmp_def order_key_def attempt_eq_Inr is_numeric_def)

lemma compare_simps:
  "compare x y = Less \<longleftrightarrow> x < y" "compare x y = Equal \<longleftrightarrow> x = y" "compare x y = Greater \<longleftrightarrow> y < x"
  by (auto simp: compare_def)

end
