(* ===== verification/Bytes.thy ===== *)
theory Bytes
  imports Text Errors
begin

text \<open>
  The byte layer of \<open>src/storage.rs\<close>: little-endian integers, fields taken from a byte slice at a
  cursor, canonical unsigned LEB128, length-prefixed text and blobs, and the CRC-32C checksum.

  A decoder takes the slice and the cursor and returns the value with the cursor after it; on an
  error the source's callers give the cursor up.  \<open>holds bs c xs\<close> says that the slice holds the
  field \<open>xs\<close> at cursor \<open>c\<close>; every decoder has one equation under it, and \<open>holds_append\<close> cuts a
  payload into its fields.
\<close>

type_synonym bytes = "u8 list"
type_synonym 'a decoded = "database_error + 'a \<times> nat"

definition corruption :: "string \<Rightarrow> database_error + 'a" where
  "corruption m = Inl (DataCorruption m)"

lemma corruption_neq_Inr [simp]: "corruption m \<noteq> Inr a" "Inr a \<noteq> corruption m"
  by (simp_all add: corruption_def)

section \<open>Little-endian integers\<close>

fun le_bytes :: "nat \<Rightarrow> nat \<Rightarrow> bytes" where
  "le_bytes 0 x = []"
| "le_bytes (Suc n) x = word_of_nat x # le_bytes n (x div 256)"

fun le_value :: "bytes \<Rightarrow> nat" where
  "le_value [] = 0"
| "le_value (b # bs) = unat b + 256 * le_value bs"

lemma length_le_bytes [simp]: "length (le_bytes n x) = n"
  by (induction n arbitrary: x) auto

lemma unat_word_of_nat_u8: "unat (word_of_nat x :: u8) = x mod 256"
  by (simp add: unat_of_nat)

lemma le_value_le_bytes: "le_value (le_bytes n x) = x mod 256 ^ n"
proof (induction n arbitrary: x)
  case (Suc n)
  then show ?case by (simp add: unat_word_of_nat_u8 mod_mult2_eq)
qed simp

lemma le_value_bound: "le_value bs < 256 ^ length bs"
proof (induction bs)
  case (Cons b bs)
  then show ?case using unat_u8_less [of b] by simp
qed simp

lemma le_bytes_le_value: "le_bytes (length bs) (le_value bs) = bs"
proof (induction bs)
  case (Cons b bs)
  have "(256 :: u8) = 0" by simp
  then have "word_of_nat (unat b + 256 * le_value bs) = (word_of_nat (unat b) :: u8)"
    by (simp only: of_nat_add of_nat_mult of_nat_numeral) simp
  moreover have "(unat b + 256 * le_value bs) div 256 = le_value bs"
    using unat_u8_less [of b] by simp
  ultimately show ?case using Cons by simp
qed simp

definition u16_bytes :: "u16 \<Rightarrow> bytes" where "u16_bytes x = le_bytes 2 (unat x)"
definition u32_bytes :: "u32 \<Rightarrow> bytes" where "u32_bytes x = le_bytes 4 (unat x)"
definition u64_bytes :: "u64 \<Rightarrow> bytes" where "u64_bytes x = le_bytes 8 (unat x)"

text \<open>An \<open>i32\<close> is an integer in range; its bytes are those of its two's complement.\<close>

definition i32_bytes :: "int \<Rightarrow> bytes" where
  "i32_bytes x = le_bytes 4 (nat (x mod 2 ^ 32))"

definition i32_value :: "bytes \<Rightarrow> int" where
  "i32_value bs = (let v = int (le_value bs) in if v < 2 ^ 31 then v else v - 2 ^ 32)"

lemma length_int_bytes [simp]:
  "length (u16_bytes x) = 2" "length (u32_bytes y) = 4" "length (u64_bytes z) = 8"
  "length (i32_bytes i) = 4"
  by (simp_all add: u16_bytes_def u32_bytes_def u64_bytes_def i32_bytes_def)

lemma u16_value [simp]: "word_of_nat (le_value (u16_bytes x)) = (x :: u16)"
  using unsigned_less [of x, where 'a = nat] by (simp add: u16_bytes_def le_value_le_bytes)

lemma u32_value [simp]: "word_of_nat (le_value (u32_bytes x)) = (x :: u32)"
  using unsigned_less [of x, where 'a = nat] by (simp add: u32_bytes_def le_value_le_bytes)

lemma u64_value [simp]: "word_of_nat (le_value (u64_bytes x)) = (x :: u64)"
  using unsigned_less [of x, where 'a = nat] by (simp add: u64_bytes_def le_value_le_bytes)

lemma i32_value_bytes [simp]:
  assumes "- (2 ^ 31) \<le> i" and "i < 2 ^ 31"
  shows "i32_value (i32_bytes i) = i"
proof -
  have "le_value (i32_bytes i) = nat (i mod 2 ^ 32)"
    by (simp add: i32_bytes_def le_value_le_bytes nat_mod_distrib)
  moreover have "i mod 2 ^ 32 = (if i < 0 then i + 2 ^ 32 else i)"
    using assms by (auto simp: mod_pos_pos_trivial) (smt (verit) mod_add_self2 mod_pos_pos_trivial)
  ultimately show ?thesis using assms by (simp add: i32_value_def Let_def)
qed

lemma u16_bytes_value:
  assumes "length bs = 2" shows "u16_bytes (word_of_nat (le_value bs)) = bs"
  using le_value_bound [of bs] le_bytes_le_value [of bs] assms
  by (simp add: u16_bytes_def unat_of_nat)

lemma u32_bytes_value:
  assumes "length bs = 4" shows "u32_bytes (word_of_nat (le_value bs)) = bs"
  using le_value_bound [of bs] le_bytes_le_value [of bs] assms
  by (simp add: u32_bytes_def unat_of_nat)

lemma u64_bytes_value:
  assumes "length bs = 8" shows "u64_bytes (word_of_nat (le_value bs)) = bs"
  using le_value_bound [of bs] le_bytes_le_value [of bs] assms
  by (simp add: u64_bytes_def unat_of_nat)

section \<open>A field at a cursor\<close>

definition holds :: "bytes \<Rightarrow> nat \<Rightarrow> bytes \<Rightarrow> bool" where
  "holds bs c xs \<longleftrightarrow>
     length bs < 2 ^ 64 \<and> c + length xs \<le> length bs \<and> take (length xs) (drop c bs) = xs"

lemma holds_append:
  "holds bs c (xs @ ys) \<longleftrightarrow> holds bs c xs \<and> holds bs (c + length xs) ys"
proof -
  have "take (length (xs @ ys)) (drop c bs) = take (length xs) (drop c bs)
    @ take (length ys) (drop (c + length xs) bs)"
    by (simp add: take_add add.commute)
  then show ?thesis by (auto simp: holds_def append_eq_append_conv)
qed

lemma holds_Cons: "holds bs c (x # ys) \<longleftrightarrow> holds bs c [x] \<and> holds bs (c + 1) ys"
  using holds_append [of bs c "[x]" ys] by simp

lemma holds_all: "length bs < 2 ^ 64 \<Longrightarrow> holds bs 0 bs"
  by (simp add: holds_def)

lemma holds_end: "holds bs c xs \<Longrightarrow> c + length xs \<le> length bs"
  by (simp add: holds_def)

definition take_array :: "nat \<Rightarrow> bytes \<Rightarrow> nat \<Rightarrow> bytes decoded" where
  "take_array n bs c =
     (case checked_add_usize c n of
        Some stop \<Rightarrow>
          if stop \<le> length bs then Inr (take (stop - c) (drop c bs), stop)
          else corruption ''truncated field''
      | None \<Rightarrow> corruption ''truncated field'')"

definition take_byte :: "bytes \<Rightarrow> nat \<Rightarrow> u8 decoded" where
  "take_byte bs c = attempt (take_array 1 bs c) (\<lambda>(a, c). Inr (a ! 0, c))"

definition take_u16 :: "bytes \<Rightarrow> nat \<Rightarrow> u16 decoded" where
  "take_u16 bs c = attempt (take_array 2 bs c) (\<lambda>(a, c). Inr (word_of_nat (le_value a), c))"

definition take_u32 :: "bytes \<Rightarrow> nat \<Rightarrow> u32 decoded" where
  "take_u32 bs c = attempt (take_array 4 bs c) (\<lambda>(a, c). Inr (word_of_nat (le_value a), c))"

definition take_i32 :: "bytes \<Rightarrow> nat \<Rightarrow> int decoded" where
  "take_i32 bs c = attempt (take_array 4 bs c) (\<lambda>(a, c). Inr (i32_value a, c))"

definition take_u64 :: "bytes \<Rightarrow> nat \<Rightarrow> u64 decoded" where
  "take_u64 bs c = attempt (take_array 8 bs c) (\<lambda>(a, c). Inr (word_of_nat (le_value a), c))"

definition expect_bytes :: "bytes \<Rightarrow> nat \<Rightarrow> bytes \<Rightarrow> unit decoded" where
  "expect_bytes bs c expected =
     (case checked_add_usize c (length expected) of
        Some stop \<Rightarrow>
          if \<not> stop \<le> length bs then corruption ''truncated field''
          else if take (stop - c) (drop c bs) \<noteq> expected then corruption ''invalid field''
          else Inr ((), stop)
      | None \<Rightarrow> corruption ''truncated field'')"

definition expect_u16 :: "bytes \<Rightarrow> nat \<Rightarrow> u16 \<Rightarrow> unit decoded" where
  "expect_u16 bs c expected =
     attempt (take_array 2 bs c) (\<lambda>(a, c).
     if word_of_nat (le_value a) \<noteq> expected then corruption ''invalid field'' else Inr ((), c))"

definition expect_u32 :: "bytes \<Rightarrow> nat \<Rightarrow> u32 \<Rightarrow> unit decoded" where
  "expect_u32 bs c expected =
     attempt (take_array 4 bs c) (\<lambda>(a, c).
     if word_of_nat (le_value a) \<noteq> expected then corruption ''invalid field'' else Inr ((), c))"

definition expect_u64 :: "bytes \<Rightarrow> nat \<Rightarrow> u64 \<Rightarrow> unit decoded" where
  "expect_u64 bs c expected =
     attempt (take_u64 bs c) (\<lambda>(found, c).
     if found \<noteq> expected then corruption ''invalid field'' else Inr ((), c))"

lemma take_array_holds: "holds bs c xs \<Longrightarrow> length xs = n \<Longrightarrow> take_array n bs c = Inr (xs, c + n)"
  by (auto simp: take_array_def holds_def)

lemma take_array_Inr:
  "take_array n bs c = Inr (xs, c') \<Longrightarrow> length bs < 2 ^ 64 \<Longrightarrow>
     holds bs c xs \<and> length xs = n \<and> c' = c + n"
  by (auto simp: take_array_def holds_def checked_add_usize_def split: if_splits)

lemma reader_holds [reader_simps]:
  "holds bs c [b] \<Longrightarrow> take_byte bs c = Inr (b, c + 1)"
  "holds bs c (u16_bytes h) \<Longrightarrow> take_u16 bs c = Inr (h, c + 2)"
  "holds bs c (u32_bytes w) \<Longrightarrow> take_u32 bs c = Inr (w, c + 4)"
  "holds bs c (u64_bytes d) \<Longrightarrow> take_u64 bs c = Inr (d, c + 8)"
  "holds bs c (i32_bytes i) \<Longrightarrow> - (2 ^ 31) \<le> i \<Longrightarrow> i < 2 ^ 31 \<Longrightarrow> take_i32 bs c = Inr (i, c + 4)"
  by (simp_all add: take_byte_def take_u16_def take_u32_def take_u64_def take_i32_def
      take_array_holds)

lemma expect_holds [reader_simps]:
  "holds bs c xs \<Longrightarrow> expect_bytes bs c xs = Inr ((), c + length xs)"
  "holds bs c (u16_bytes h) \<Longrightarrow> expect_u16 bs c h = Inr ((), c + 2)"
  "holds bs c (u32_bytes w) \<Longrightarrow> expect_u32 bs c w = Inr ((), c + 4)"
  "holds bs c (u64_bytes d) \<Longrightarrow> expect_u64 bs c d = Inr ((), c + 8)"
  by (simp_all add: expect_u16_def expect_u32_def expect_u64_def take_array_holds reader_holds)
    (auto simp: expect_bytes_def holds_def)

text \<open>The converse: what a successful read says of the slice.\<close>

lemma take_byte_Inr:
  assumes "take_byte bs c = Inr (b, c')" and "length bs < 2 ^ 64"
  shows "holds bs c [b] \<and> c' = c + 1"
proof -
  obtain a where "take_array 1 bs c = Inr (a, c')" and b: "b = a ! 0"
    using assms(1) by (auto simp: take_byte_def attempt_eq_Inr)
  then have "holds bs c a \<and> length a = 1 \<and> c' = c + 1" using take_array_Inr assms(2) by blast
  with b show ?thesis by (cases a) auto
qed

lemma take_u64_Inr:
  "take_u64 bs c = Inr (d, c') \<Longrightarrow> length bs < 2 ^ 64 \<Longrightarrow> holds bs c (u64_bytes d) \<and> c' = c + 8"
  by (auto simp: take_u64_def attempt_eq_Inr u64_bytes_value dest!: take_array_Inr)

lemma take_u16_Inr:
  "take_u16 bs c = Inr (d, c') \<Longrightarrow> length bs < 2 ^ 64 \<Longrightarrow> holds bs c (u16_bytes d) \<and> c' = c + 2"
  by (auto simp: take_u16_def attempt_eq_Inr u16_bytes_value dest!: take_array_Inr)

lemma take_u32_Inr:
  "take_u32 bs c = Inr (d, c') \<Longrightarrow> length bs < 2 ^ 64 \<Longrightarrow> holds bs c (u32_bytes d) \<and> c' = c + 4"
  by (auto simp: take_u32_def attempt_eq_Inr u32_bytes_value dest!: take_array_Inr)

lemma i32_bytes_value:
  assumes "length bs = 4"
  shows "i32_bytes (i32_value bs) = bs \<and> - (2 ^ 31) \<le> i32_value bs \<and> i32_value bs < 2 ^ 31"
proof -
  have v: "le_value bs < 2 ^ 32" using le_value_bound [of bs] assms by simp
  have "i32_value bs mod 2 ^ 32 = int (le_value bs)"
  proof (cases "int (le_value bs) < 2 ^ 31")
    case False
    have "(int (le_value bs) - 2 ^ 32) mod 2 ^ 32 = int (le_value bs) mod 2 ^ 32" by simp
    then show ?thesis using False v by (simp add: i32_value_def)
  qed (use v in \<open>simp add: i32_value_def\<close>)
  then show ?thesis
    using le_bytes_le_value [of bs] assms v by (auto simp: i32_bytes_def i32_value_def Let_def)
qed

lemma take_i32_Inr:
  "take_i32 bs c = Inr (i, c') \<Longrightarrow> length bs < 2 ^ 64 \<Longrightarrow>
     holds bs c (i32_bytes i) \<and> c' = c + 4 \<and> - (2 ^ 31) \<le> i \<and> i < 2 ^ 31"
  using i32_bytes_value by (fastforce simp: take_i32_def attempt_eq_Inr dest!: take_array_Inr)

section \<open>Canonical unsigned LEB128\<close>

unbundle bit_operations_syntax

lemma all_u8: "(\<forall>b :: u8. P b) \<longleftrightarrow> list_all (\<lambda>n. P (word_of_nat n)) [0..<256]"
proof
  assume *: "list_all (\<lambda>n. P (word_of_nat n)) [0..<256]"
  show "\<forall>b :: u8. P b"
  proof
    fix b :: u8
    show "P b" using * unat_u8_less [of b] by (auto simp: list_all_iff dest!: bspec [of _ _ "unat b"])
  qed
qed (simp add: list_all_iff)

lemma u8_low_bits: "\<forall>b :: u8. unat (b AND 0x7f) = unat b mod 128"
  unfolding all_u8 by code_simp

lemma u8_high_bit: "\<forall>b :: u8. (b AND 0x80 = 0) = (unat b < 128)"
  unfolding all_u8 by code_simp

lemma u8_set_high_bit: "\<forall>b :: u8. unat b < 128 \<longrightarrow> unat (b OR 0x80) = unat b + 128"
  unfolding all_u8 by code_simp

lemma u64_low_bits: "unat (v AND 0x7f :: u64) = unat v mod 128"
proof -
  have "v AND 0x7f = take_bit 7 v" by (simp add: take_bit_eq_mask mask_eq_exp_minus_1)
  then show ?thesis by (simp add: take_bit_eq_mod unat_mod)
qed

lemma unat_low_byte: "unat (ucast (v AND 0x7f :: u64) :: u8) = unat v mod 128"
  by (simp add: unsigned_ucast_eq u64_low_bits take_bit_eq_mod)

lemma unat_shift_7: "unat (drop_bit 7 (v :: u64)) = unat v div 128"
  by (simp add: drop_bit_eq_div unat_div)

lemma unat_or_shift:
  assumes "unat (acc :: u64) < 2 ^ s" and "unat part * 2 ^ s < 2 ^ 64"
  shows "unat (acc OR push_bit s part) = unat acc + unat part * 2 ^ s"
proof -
  have "unat (push_bit s part) = unat part * 2 ^ s"
    using assms(2) by (subst unsigned_push_bit_eq) (simp add: push_bit_eq_mult take_bit_nat_eq_self)
  moreover have "unat acc AND (unat part * 2 ^ s) = 0"
  proof (rule bit_eqI)
    fix n
    have "unat acc = take_bit s (unat acc)" using assms(1) by (simp add: take_bit_nat_eq_self)
    then show "bit (unat acc AND (unat part * 2 ^ s)) n = bit (0 :: nat) n"
      by (metis bit_0_eq bit_and_iff bit_push_bit_iff bit_take_bit_iff bot_apply bot_bool_def
          linorder_not_less push_bit_eq_mult)
  qed
  ultimately show ?thesis by (simp add: unsigned_or_eq disjunctive_add_eq_or)
qed

function encode_uleb128 :: "u64 \<Rightarrow> bytes" where
  "encode_uleb128 v =
     (let byte = ucast (v AND 0x7f) :: u8;
          v = drop_bit 7 v
      in if v \<noteq> 0 then (byte OR 0x80) # encode_uleb128 v else [byte])"
  by pat_completeness auto
termination
proof (relation "measure unat")
  fix v :: u64 and byte :: u8 and v'
  assume v': "v' = drop_bit 7 v" and "v' \<noteq> 0"
  then have "0 < unat v'" by (simp add: unat_gt_0)
  moreover have "unat v' = unat v div 128" by (simp only: v' unat_shift_7)
  ultimately show "(v', v) \<in> measure unat" by simp
qed simp

declare encode_uleb128.simps [simp del]

text \<open>\<open>(0..=63).step_by(7)\<close>.\<close>

definition uleb_shifts :: "nat list" where
  "uleb_shifts = [0, 7, 14, 21, 28, 35, 42, 49, 56, 63]"

fun decode_uleb128_loop :: "nat list \<Rightarrow> u64 \<Rightarrow> nat \<Rightarrow> bytes \<Rightarrow> nat \<Rightarrow> u64 decoded" where
  "decode_uleb128_loop [] v start bs c = corruption ''ULEB128 overflow''"
| "decode_uleb128_loop (shift # shifts) v start bs c =
     attempt (take_byte bs c) (\<lambda>(byte, c).
       let part = ucast (byte AND 0x7f) :: u64
       in if shift = 63 \<and> part > 1 then corruption ''ULEB128 overflow''
          else let v = v OR push_bit shift part
               in if byte AND 0x80 = 0 then
                    (if c - start > 1 \<and> byte = 0 then corruption ''non-canonical ULEB128''
                     else Inr (v, c))
                  else decode_uleb128_loop shifts v start bs c)"

definition decode_uleb128 :: "bytes \<Rightarrow> nat \<Rightarrow> u64 decoded" where
  "decode_uleb128 bs c = decode_uleb128_loop uleb_shifts 0 c bs c"

text \<open>The shifts from the \<open>i\<close>-th on, and the value an encoding adds there.\<close>

definition shifts_from :: "nat \<Rightarrow> nat list" where
  "shifts_from i = map (\<lambda>j. 7 * j) [i..<10]"

lemma uleb_shifts_from: "uleb_shifts = shifts_from 0"
  by (simp add: uleb_shifts_def shifts_from_def upt_rec)

lemma shifts_from_rec: "i < 10 \<Longrightarrow> shifts_from i = 7 * i # shifts_from (Suc i)"
  by (simp add: shifts_from_def upt_rec)

lemma shifts_from_end: "shifts_from 10 = []"
  by (simp add: shifts_from_def)

lemma unat_ucast_u8: "unat (ucast (v :: u64) :: u8) = unat v mod 256"
  by (simp add: unsigned_ucast_eq take_bit_eq_mod)

text \<open>One step of the encoder, over the value as a number.\<close>

lemma encode_uleb128_small:
  assumes "unat v < 128"
  shows "encode_uleb128 v = [ucast v]"
proof -
  have "drop_bit 7 v = 0"
    using assms unat_shift_7 [of v] by (metis div_less unat_eq_zero)
  moreover have "ucast (v AND 0x7f) = (ucast v :: u8)"
    using assms unat_low_byte [of v] unat_ucast_u8 [of v] by (simp only: word_unat_eq_iff) simp
  ultimately show ?thesis by (subst encode_uleb128.simps) simp
qed

lemma encode_uleb128_large:
  assumes "128 \<le> unat v"
  obtains b where "encode_uleb128 v = b # encode_uleb128 (drop_bit 7 v)"
    and "unat b = unat v mod 128 + 128"
proof -
  have "unat (drop_bit 7 v) \<noteq> 0"
    using assms unat_shift_7 [of v] by (simp add: div_eq_0_iff)
  then have "drop_bit 7 v \<noteq> 0" by auto
  then have "encode_uleb128 v = (ucast (v AND 0x7f) OR 0x80) # encode_uleb128 (drop_bit 7 v)"
    by (subst encode_uleb128.simps) simp
  moreover have "unat (ucast (v AND 0x7f) OR 0x80 :: u8) = unat v mod 128 + 128"
    using u8_set_high_bit unat_low_byte [of v] by (metis mod_less_divisor zero_less_numeral)
  ultimately show ?thesis using that by blast
qed

lemma encode_uleb128_nonempty [simp]: "encode_uleb128 v \<noteq> []"
  by (subst encode_uleb128.simps) (simp add: Let_def)

lemma length_encode_uleb128_le: "unat v < 2 ^ (7 * Suc n) \<Longrightarrow> length (encode_uleb128 v) \<le> Suc n"
proof (induction n arbitrary: v)
  case 0
  then show ?case by (simp add: encode_uleb128_small)
next
  case (Suc n)
  show ?case
  proof (cases "unat v < 128")
    case False
    then obtain b where "encode_uleb128 v = b # encode_uleb128 (drop_bit 7 v)"
      by (metis encode_uleb128_large not_less)
    moreover have "unat (drop_bit 7 v) < 2 ^ (7 * Suc n)"
      using Suc.prems unfolding unat_shift_7 by (simp add: less_mult_imp_div_less power_add)
    ultimately show ?thesis using Suc.IH by simp
  qed (simp add: encode_uleb128_small)
qed

lemma length_encode_uleb128: "length (encode_uleb128 v) \<le> 10"
  using length_encode_uleb128_le [of v 9] unat_u64_less [of v] by simp

text \<open>The group a byte carries.\<close>

lemma unat_part: "unat (ucast (b AND 0x7f :: u8) :: u64) = unat b mod 128"
  by (simp add: unsigned_ucast_eq u8_low_bits [rule_format] take_bit_eq_mod)

lemma word_of_unat: "unat (x :: u64) = n \<Longrightarrow> word_of_nat n = x"
  by auto

lemma decode_uleb128_step:
  assumes "i < 10" and "take_byte bs c = Inr (b, c + 1)"
  shows "decode_uleb128_loop (shifts_from i) acc start bs c =
    (if 7 * i = 63 \<and> 1 < unat b mod 128 then corruption ''ULEB128 overflow''
     else let acc = acc OR push_bit (7 * i) (ucast (b AND 0x7f))
          in if unat b < 128 then
               (if c + 1 - start > 1 \<and> b = 0 then corruption ''non-canonical ULEB128''
                else Inr (acc, c + 1))
             else decode_uleb128_loop (shifts_from (Suc i)) acc start bs (c + 1))"
proof -
  have "(ucast (b AND 0x7f) :: u64) > 1 \<longleftrightarrow> 1 < unat b mod 128"
    by (simp add: word_less_nat_alt unat_part)
  moreover have "b AND 0x80 = 0 \<longleftrightarrow> unat b < 128" using u8_high_bit by blast
  ultimately show ?thesis using assms by (simp only: shifts_from_rec decode_uleb128_loop.simps) (simp add: Let_def)
qed

lemma unat_or_part:
  fixes b :: u8
  assumes "unat acc < 2 ^ s" and "unat b mod 128 * 2 ^ s < 2 ^ 64"
  shows "unat (acc OR push_bit s (ucast (b AND 0x7f)) :: u64) = unat acc + unat b mod 128 * 2 ^ s"
  using unat_or_shift [of acc s "ucast (b AND 0x7f)"] assms unat_part [of b] by presburger

lemma decode_encode_uleb128_loop:
  assumes "i < 10" and "unat acc < 2 ^ (7 * i)" and "unat acc + unat v * 2 ^ (7 * i) < 2 ^ 64"
    and "i = 0 \<or> v \<noteq> 0" and "holds bs (start + i) (encode_uleb128 v)"
  shows "decode_uleb128_loop (shifts_from i) acc start bs (start + i) =
    Inr (word_of_nat (unat acc + unat v * 2 ^ (7 * i)), start + i + length (encode_uleb128 v))"
  using assms
proof (induction "10 - i" arbitrary: i acc v)
  case (Suc k)
  let ?s = "7 * i"
  have bound: "unat v * 2 ^ ?s < 2 ^ 64" using Suc.prems(3) by simp
  have top: "\<not> (?s = 63 \<and> 1 < unat v mod 128)"
  proof
    assume *: "?s = 63 \<and> 1 < unat v mod 128"
    then have "unat v < 2" using bound by simp
    with * show False by simp
  qed
  show ?case
  proof (cases "unat v < 128")
    case True
    let ?b = "ucast v :: u8"
    have b: "unat ?b = unat v" using True by (simp add: unat_ucast_u8)
    have enc: "encode_uleb128 v = [?b]" using True by (rule encode_uleb128_small)
    have read: "take_byte bs (start + i) = Inr (?b, start + i + 1)"
      using Suc.prems(5) enc by (simp add: reader_simps)
    have "unat (acc OR push_bit ?s (ucast (?b AND 0x7f))) = unat acc + unat v * 2 ^ ?s"
      using unat_or_part [of acc ?s ?b] Suc.prems(2) bound True b by simp
    then have sum: "acc OR push_bit ?s (ucast (?b AND 0x7f)) = word_of_nat (unat acc + unat v * 2 ^ ?s)"
      by (rule word_of_unat [symmetric])
    have "i = 0 \<or> ?b \<noteq> 0" using Suc.prems(4) b by (metis unat_eq_zero)
    moreover have "\<not> (?s = 63 \<and> 1 < unat ?b mod 128)" using top b by simp
    ultimately show ?thesis
      using decode_uleb128_step [OF Suc.prems(1) read, of acc start] True b
      unfolding Let_def sum enc by auto
  next
    case False
    then obtain b where enc: "encode_uleb128 v = b # encode_uleb128 (drop_bit 7 v)"
      and b: "unat b = unat v mod 128 + 128"
      by (metis encode_uleb128_large not_less)
    let ?acc = "acc OR push_bit ?s (ucast (b AND 0x7f))" and ?v = "drop_bit 7 v"
    have read: "take_byte bs (start + i) = Inr (b, start + i + 1)"
      and rest: "holds bs (start + i + 1) (encode_uleb128 ?v)"
      using Suc.prems(5) holds_Cons [of bs "start + i" b "encode_uleb128 ?v"] enc
      by (simp_all only: reader_simps)
    have split: "unat v = unat v mod 128 + unat ?v * 128" by (simp add: unat_shift_7)
    have "unat v mod 128 * 2 ^ ?s \<le> unat v * 2 ^ ?s" by simp
    then have fits: "unat v mod 128 * 2 ^ ?s < 2 ^ 64" using bound by linarith
    have sum: "unat ?acc = unat acc + unat v mod 128 * 2 ^ ?s"
      using unat_or_part [of acc ?s b] Suc.prems(2) fits b by simp
    have total: "unat ?acc + unat ?v * 2 ^ (7 * Suc i) = unat acc + unat v * 2 ^ ?s"
    proof -
      have "unat ?acc + unat ?v * 2 ^ (7 * Suc i) = unat acc + (unat v mod 128 + unat ?v * 128) * 2 ^ ?s"
        unfolding sum by (simp add: power_add algebra_simps)
      then show ?thesis using split by presburger
    qed
    have "unat v mod 128 \<le> 127" using mod_less_divisor [of 128 "unat v"] by linarith
    then have "unat v mod 128 * 2 ^ ?s \<le> 127 * 2 ^ ?s" by (rule mult_right_mono) simp
    with Suc.prems(2) have "unat acc + unat v mod 128 * 2 ^ ?s < 2 ^ ?s + 127 * 2 ^ ?s"
      by (rule add_less_le_mono)
    then have small: "unat ?acc < 2 ^ (7 * Suc i)" unfolding sum by (simp add: power_add)
    have nz: "?v \<noteq> 0" using False unat_shift_7 [of v] by (metis div_eq_0_iff unat_0 zero_neq_numeral)
    have "i < 9"
    proof (rule ccontr)
      assume "\<not> i < 9"
      with Suc.prems(1) have "i = 9" by simp
      with bound False show False by simp
    qed
    moreover have "\<not> (?s = 63 \<and> 1 < unat b mod 128)" using top b by simp
    moreover have "decode_uleb128_loop (shifts_from (Suc i)) ?acc start bs (start + Suc i) =
      Inr (word_of_nat (unat ?acc + unat ?v * 2 ^ (7 * Suc i)),
        start + Suc i + length (encode_uleb128 ?v))"
      using Suc.hyps Suc.prems(3) small total nz rest \<open>i < 9\<close> by (intro Suc.hyps(1)) simp_all
    ultimately show ?thesis
      using decode_uleb128_step [OF Suc.prems(1) read, of acc start] b
      unfolding Let_def total enc by simp
  qed
qed simp

lemma decode_uleb128_holds [reader_simps]:
  "holds bs c (encode_uleb128 v) \<Longrightarrow>
     decode_uleb128 bs c = Inr (v, c + length (encode_uleb128 v))"
  using decode_encode_uleb128_loop [of 0 0 v bs c] unat_u64_less [of v]
  by (simp add: decode_uleb128_def uleb_shifts_from)

text \<open>The decoder accepts nothing but the canonical encoding.\<close>

lemma encode_uleb128_byte:
  assumes "unat b < 128" shows "encode_uleb128 (ucast (b :: u8)) = [b]"
proof -
  have "unat (ucast b :: u64) = unat b"
    using unat_u8_less [of b] by (simp add: unsigned_ucast_eq take_bit_nat_eq_self)
  with assms encode_uleb128_small [of "ucast b"] unat_ucast_u8 [of "ucast b"] show ?thesis
    by (simp add: word_unat_eq_iff)
qed

lemma encode_uleb128_join:
  assumes "128 \<le> unat b" and "v' \<noteq> 0" and "unat v' * 128 < 2 ^ 64"
  obtains v where "encode_uleb128 v = b # encode_uleb128 v'"
    and "unat v = unat b mod 128 + unat v' * 128"
proof -
  let ?n = "unat b mod 128 + unat v' * 128"
  have m: "unat b mod 128 < 128" by simp
  have "unat v' < 2 ^ 57" using assms(3) by simp
  then have "?n < 2 ^ 64" using m by simp
  then have n: "unat (word_of_nat ?n :: u64) = ?n" by (rule unat_of_nat_u64)
  have "unat v' \<noteq> 0" using assms(2) by (simp add: unat_eq_zero)
  then have large: "128 \<le> unat (word_of_nat ?n :: u64)" unfolding n by simp
  then obtain b' where enc: "encode_uleb128 (word_of_nat ?n) = b' # encode_uleb128 (drop_bit 7 (word_of_nat ?n))"
    and b': "unat b' = unat (word_of_nat ?n :: u64) mod 128 + 128"
    by (rule encode_uleb128_large)
  have "unat (drop_bit 7 (word_of_nat ?n :: u64)) = unat v'"
    unfolding unat_shift_7 n using m by simp
  then have "drop_bit 7 (word_of_nat ?n :: u64) = v'" by (simp only: word_unat_eq_iff)
  moreover have "unat b' = unat b"
  proof -
    have "unat b mod 128 = (unat b - 128) mod 128" using assms(1) by (rule le_mod_geq)
    also have "\<dots> = unat b - 128" using unat_u8_less [of b] by simp
    finally have "unat b mod 128 + 128 = unat b" using assms(1) by simp
    moreover have "?n mod 128 = unat b mod 128" by simp
    ultimately show ?thesis using b' unfolding n by metis
  qed
  then have "b' = b" by (simp only: word_unat_eq_iff)
  ultimately have "encode_uleb128 (word_of_nat ?n) = b # encode_uleb128 v'" using enc by metis
  then show thesis using n by (rule that)
qed

lemma decode_uleb128_loop_Inr:
  assumes "i \<le> 10" and "unat acc < 2 ^ (7 * i)" and "length bs < 2 ^ 64"
    and "decode_uleb128_loop (shifts_from i) acc start bs (start + i) = Inr (w, c')"
  shows "\<exists>v. holds bs (start + i) (encode_uleb128 v) \<and> c' = start + i + length (encode_uleb128 v)
    \<and> unat w = unat acc + unat v * 2 ^ (7 * i) \<and> (i = 0 \<or> v \<noteq> 0)"
  using assms
proof (induction "10 - i" arbitrary: i acc)
  case 0
  then show ?case by (simp add: shifts_from_end)
next
  case (Suc k)
  let ?s = "7 * i" and ?c = "start + i"
  have i: "i < 10" and k: "k = 10 - Suc i" using Suc.hyps(2) by simp_all
  obtain b where read: "take_byte bs ?c = Inr (b, ?c + 1)" and b: "holds bs ?c [b]"
    using Suc.prems(4) take_byte_Inr [OF _ Suc.prems(3)]
    by (auto simp: shifts_from_rec [OF i] attempt_eq_Inr)
  let ?acc = "acc OR push_bit ?s (ucast (b AND 0x7f))"
  note run = Suc.prems(4) [unfolded decode_uleb128_step [OF i read] Let_def]
  have top: "\<not> (?s = 63 \<and> 1 < unat b mod 128)" using run by auto
  have fits: "unat b mod 128 * 2 ^ ?s < 2 ^ 64"
  proof (cases "i = 9")
    case True
    with top show ?thesis by simp
  next
    case False
    have "unat b mod 128 \<le> 127" using mod_less_divisor [of 128 "unat b"] by linarith
    moreover have "(2 :: nat) ^ ?s \<le> 2 ^ 56" using False i by (intro power_increasing) auto
    ultimately have "unat b mod 128 * 2 ^ ?s \<le> 127 * 2 ^ 56" by (rule mult_mono) simp_all
    then show ?thesis by simp
  qed
  have acc: "unat ?acc = unat acc + unat b mod 128 * 2 ^ ?s"
    using Suc.prems(2) fits by (rule unat_or_part)
  show ?case
  proof (cases "unat b < 128")
    case True
    then have "w = ?acc" "c' = ?c + 1" "i = 0 \<or> b \<noteq> 0" using run top by (auto split: if_splits)
    moreover have u: "unat (ucast b :: u64) = unat b"
      using unat_u8_less [of b] by (simp add: unsigned_ucast_eq take_bit_nat_eq_self)
    moreover have "b \<noteq> 0 \<Longrightarrow> (ucast b :: u64) \<noteq> 0" using u by (metis unat_eq_zero)
    ultimately show ?thesis
      using acc b True encode_uleb128_byte [OF True] by (intro exI [of _ "ucast b"]) auto
  next
    case False
    then have rest: "decode_uleb128_loop (shifts_from (Suc i)) ?acc start bs (start + Suc i) = Inr (w, c')"
      using run top by (auto split: if_splits)
    have "unat b mod 128 \<le> 127" using mod_less_divisor [of 128 "unat b"] by linarith
    then have "unat b mod 128 * 2 ^ ?s \<le> 127 * 2 ^ ?s" by (rule mult_right_mono) simp
    with Suc.prems(2) have "unat acc + unat b mod 128 * 2 ^ ?s < 2 ^ ?s + 127 * 2 ^ ?s"
      by (rule add_less_le_mono)
    then have small: "unat ?acc < 2 ^ (7 * Suc i)" unfolding acc by (simp add: power_add)
    obtain v' where v': "holds bs (start + Suc i) (encode_uleb128 v')"
        "c' = start + Suc i + length (encode_uleb128 v')"
        "unat w = unat ?acc + unat v' * 2 ^ (7 * Suc i)" "v' \<noteq> 0"
      using Suc.hyps(1) [of "Suc i" ?acc, OF k _ small Suc.prems(3) rest] i by auto
    have "(2 :: nat) ^ 7 \<le> 2 ^ (7 * Suc i)" by (intro power_increasing) simp_all
    then have "unat v' * 2 ^ 7 \<le> unat v' * 2 ^ (7 * Suc i)" by (rule mult_left_mono) simp
    also have "\<dots> \<le> unat w" unfolding v'(3) by simp
    also have "\<dots> < 2 ^ 64" by (rule unat_u64_less)
    finally have "unat v' * 128 < 2 ^ 64" by simp
    then obtain v where v: "encode_uleb128 v = b # encode_uleb128 v'"
        "unat v = unat b mod 128 + unat v' * 128"
      using encode_uleb128_join [of b v'] False v'(4) by (metis not_less)
    have "unat w = unat acc + unat v * 2 ^ ?s"
      unfolding v'(3) acc v(2) by (simp add: power_add algebra_simps)
    moreover have "v \<noteq> 0"
    proof
      assume "v = 0"
      with v(2) have "unat v' = 0" by simp
      with v'(4) show False by (simp add: unat_eq_zero)
    qed
    moreover have "holds bs ?c (encode_uleb128 v)"
      using holds_Cons [of bs ?c b "encode_uleb128 v'"] b v'(1) v(1) by simp
    ultimately show ?thesis using v'(2) v(1) by (intro exI [of _ v]) simp
  qed
qed

lemma decode_uleb128_Inr:
  assumes "decode_uleb128 bs c = Inr (v, c')" and "length bs < 2 ^ 64"
  shows "holds bs c (encode_uleb128 v) \<and> c' = c + length (encode_uleb128 v)"
proof -
  obtain u where "holds bs c (encode_uleb128 u)" "c' = c + length (encode_uleb128 u)" "unat v = unat u"
    using decode_uleb128_loop_Inr [of 0 0 bs c v c'] assms
    by (auto simp: decode_uleb128_def uleb_shifts_from)
  then show ?thesis using word_unat_eq_iff [of v u] by simp
qed

section \<open>Length-prefixed fields\<close>

definition encode_blob :: "bytes \<Rightarrow> bytes" where
  "encode_blob xs = encode_uleb128 (word_of_nat (length xs)) @ xs"

definition encode_text :: "string \<Rightarrow> bytes" where
  "encode_text s = encode_blob (as_bytes s)"

definition decode_blob :: "bytes \<Rightarrow> nat \<Rightarrow> bytes decoded" where
  "decode_blob bs c =
     attempt (decode_uleb128 bs c) (\<lambda>(len, c).
       case checked_add_usize c (unat len) of
         Some stop \<Rightarrow>
           if stop \<le> length bs then Inr (take (stop - c) (drop c bs), stop)
           else corruption ''truncated byte-string field''
       | None \<Rightarrow> corruption ''truncated byte-string field'')"

definition decode_text :: "bytes \<Rightarrow> nat \<Rightarrow> string decoded" where
  "decode_text bs c =
     attempt (decode_blob bs c) (\<lambda>(encoded, c).
     attempt (ok_or (DataCorruption ''invalid UTF-8 text'') (from_utf8 encoded)) (\<lambda>s.
     Inr (s, c)))"

lemma decode_blob_holds [reader_simps]:
  assumes "holds bs c (encode_blob xs)"
  shows "decode_blob bs c = Inr (xs, c + length (encode_blob xs))"
proof -
  let ?len = "word_of_nat (length xs) :: u64"
  have h: "holds bs c (encode_uleb128 ?len)" "holds bs (c + length (encode_uleb128 ?len)) xs"
    using assms by (simp_all add: encode_blob_def holds_append)
  then have "length xs < 2 ^ 64" by (auto simp: holds_def)
  then have "unat ?len = length xs" by (rule unat_of_nat_u64)
  with h decode_uleb128_holds [OF h(1)] show ?thesis
    by (auto simp: decode_blob_def encode_blob_def holds_def)
qed

lemma decode_text_holds [reader_simps]:
  "holds bs c (encode_text s) \<Longrightarrow> wf_string s \<Longrightarrow>
     decode_text bs c = Inr (s, c + length (encode_text s))"
  by (simp add: decode_text_def encode_text_def decode_blob_holds)

lemma decode_blob_Inr:
  assumes "decode_blob bs c = Inr (xs, c')" and "length bs < 2 ^ 64"
  shows "holds bs c (encode_blob xs) \<and> c' = c + length (encode_blob xs)"
proof -
  obtain len d where len: "decode_uleb128 bs c = Inr (len, d)"
    and stop: "d + unat len \<le> length bs" "xs = take (unat len) (drop d bs)" "c' = d + unat len"
    using assms(1)
    by (auto simp: decode_blob_def attempt_eq_Inr checked_add_usize_def split: if_splits)
  from decode_uleb128_Inr [OF len assms(2)]
  have h: "holds bs c (encode_uleb128 len)" and d: "d = c + length (encode_uleb128 len)" by auto
  have xs: "length xs = unat len" using stop by simp
  then have "word_of_nat (length xs) = len" by simp
  moreover have "holds bs d xs" using stop assms(2) xs by (simp add: holds_def)
  ultimately show ?thesis using h d xs stop(3) by (simp add: encode_blob_def holds_append)
qed

lemma decode_text_Inr:
  assumes "decode_text bs c = Inr (s, c')" and "length bs < 2 ^ 64"
  shows "holds bs c (encode_text s) \<and> c' = c + length (encode_text s) \<and> wf_string s"
  using assms decode_blob_Inr [of bs c]
  by (auto simp: decode_text_def attempt_eq_Inr encode_text_def from_utf8_Some)

section \<open>CRC-32C\<close>

definition crc_bit :: "u32 \<Rightarrow> u32" where
  "crc_bit crc = (if crc AND 1 = 1 then drop_bit 1 crc XOR 0x82f63b78 else drop_bit 1 crc)"

definition crc_byte :: "u32 \<Rightarrow> u8 \<Rightarrow> u32" where
  "crc_byte crc b = (crc_bit ^^ 8) (crc XOR ucast b)"

definition crc32c :: "bytes \<Rightarrow> u32" where
  "crc32c bs = NOT (foldl crc_byte (NOT 0) bs)"

text \<open>A step of the register loses nothing: the top bit of the polynomial tells which branch ran.\<close>

lemma xor_cancel: "x XOR z = y XOR z \<longleftrightarrow> x = y" for x y z :: u32
proof
  assume "x XOR z = y XOR z"
  then have "(x XOR z) XOR z = (y XOR z) XOR z" by simp
  then show "x = y" by (simp add: xor.assoc)
qed simp

lemma crc_bit_inj: "inj crc_bit"
proof (rule injI)
  fix x y :: u32
  assume eq: "crc_bit x = crc_bit y"
  have odd: "z AND 1 = 1 \<longleftrightarrow> bit z 0" for z :: u32
    by (simp add: and_one_eq odd_iff_mod_2_eq_one bit_0)
  have top: "bit (crc_bit z) 31 \<longleftrightarrow> bit z 0" for z :: u32
    by (simp add: crc_bit_def odd bit_simps bit_imp_le_length [of z 32])
      (auto dest: bit_imp_le_length)
  have "bit x 0 = bit y 0" using top eq by metis
  then have "drop_bit 1 x = drop_bit 1 y"
    using eq by (simp add: crc_bit_def odd xor_cancel split: if_splits)
  show "x = y"
  proof (rule bit_eqI)
    fix n
    show "bit x n = bit y n"
    proof (cases n)
      case (Suc m)
      have "bit (drop_bit 1 x) m = bit (drop_bit 1 y) m" using \<open>drop_bit 1 x = drop_bit 1 y\<close> by simp
      then show ?thesis by (simp add: bit_simps Suc)
    qed (use \<open>bit x 0 = bit y 0\<close> in simp)
  qed
qed

lemma crc_bits_inj: "inj (crc_bit ^^ n)"
  by (induction n) (simp_all add: inj_compose crc_bit_inj del: o_apply)

lemma crc_byte_register: "crc_byte x b = crc_byte y b \<longleftrightarrow> x = y"
  unfolding crc_byte_def by (simp only: inj_eq [OF crc_bits_inj] xor_cancel)

lemma crc_byte_input: "crc_byte x b = crc_byte x c \<longleftrightarrow> b = c"
proof
  assume "crc_byte x b = crc_byte x c"
  then have "x XOR ucast b = x XOR (ucast c :: u32)"
    unfolding crc_byte_def by (simp only: inj_eq [OF crc_bits_inj])
  then have "(ucast b :: u32) = ucast c" by (metis xor_cancel xor.commute)
  then have "unat (ucast b :: u32) = unat (ucast c :: u32)" by simp
  then show "b = c"
    using unat_u8_less [of b] unat_u8_less [of c]
    by (simp add: unsigned_ucast_eq take_bit_nat_eq_self word_unat_eq_iff)
qed simp

lemma crc_suffix: "foldl crc_byte x bs = foldl crc_byte y bs \<longleftrightarrow> x = y"
  by (induction bs arbitrary: x y) (simp_all add: crc_byte_register)

text \<open>Changing one byte changes the checksum.\<close>

lemma crc32c_one_byte:
  "crc32c (pre @ b # post) = crc32c (pre @ c # post) \<longleftrightarrow> b = c"
proof -
  have "crc32c (pre @ b # post) = crc32c (pre @ c # post) \<longleftrightarrow>
      foldl crc_byte (NOT 0) (pre @ b # post) = foldl crc_byte (NOT 0) (pre @ c # post)"
    unfolding crc32c_def by (metis bit.double_compl)
  then show ?thesis by (simp add: crc_suffix crc_byte_input)
qed

end
