(* ===== verification/Records.thy ===== *)
theory Records
  imports Bytes Literals Calendar
begin

text \<open>
  The logical records of \<open>src/storage.rs\<close>: the built-in codecs, and the payloads of Role, Codec and
  Posit records with their decoders.  The Unicode normalisation of a role name (\<open>nfc\<close>), the
  calendar and the number library are parameters.  A \<open>Thing\<close> is a 64-bit identity.

  The lemmas show that each decoder inverts its encoder on every value the program can hold, and
  the converse: an accepted payload is, byte for byte, the encoding of the value returned.
\<close>

type_synonym thing = u64

datatype builtin_codec = RawUtf8 | CanonicalI64 | CanonicalCertainty

definition all_codecs :: "builtin_codec list" where
  "all_codecs = [RawUtf8, CanonicalI64, CanonicalCertainty]"

fun codec_identifier :: "builtin_codec \<Rightarrow> u16" where
  "codec_identifier RawUtf8 = 0"
| "codec_identifier CanonicalI64 = 1"
| "codec_identifier CanonicalCertainty = 2"

fun codec_version :: "builtin_codec \<Rightarrow> u16" where
  "codec_version RawUtf8 = 1"
| "codec_version CanonicalI64 = 1"
| "codec_version CanonicalCertainty = 1"

fun codec_family :: "builtin_codec \<Rightarrow> u8" where
  "codec_family RawUtf8 = 0"
| "codec_family CanonicalI64 = family_identifier IntegerFamily"
| "codec_family CanonicalCertainty = family_identifier CertaintyFamily"

fun codec_name :: "builtin_codec \<Rightarrow> string" where
  "codec_name RawUtf8 = ''raw-utf8-token''"
| "codec_name CanonicalI64 = ''canonical-i64''"
| "codec_name CanonicalCertainty = ''canonical-certainty''"

definition from_pair :: "u16 \<Rightarrow> u16 \<Rightarrow> builtin_codec option" where
  "from_pair ident version =
     find (\<lambda>codec. codec_identifier codec = ident \<and> codec_version codec = version) all_codecs"

lemma from_pair_codec [simp]: "from_pair (codec_identifier k) (codec_version k) = Some k"
  by (cases k) (simp_all add: from_pair_def all_codecs_def)

lemma from_pair_Some:
  "from_pair i v = Some k \<Longrightarrow> i = codec_identifier k \<and> v = codec_version k"
  by (auto simp: from_pair_def find_Some_iff)

lemma wf_codec_name [simp]: "wf_string (codec_name k)"
  by (rule wf_string_ascii) (cases k; simp)

section \<open>Records\<close>

record pending_record =
  pending_type :: u8
  pending_version :: u8
  pending_flags :: u16
  pending_payload :: bytes

definition record_role :: u8 where "record_role = 1"
definition record_codec :: u8 where "record_codec = 2"
definition record_posit :: u8 where "record_posit = 3"
definition record_commit :: u8 where "record_commit = 255"

lemmas record_types = record_role_def record_codec_def record_posit_def record_commit_def

definition new_record :: "u8 \<Rightarrow> bytes \<Rightarrow> pending_record" where
  "new_record t payload =
     \<lparr>pending_type = t, pending_version = 1, pending_flags = 0, pending_payload = payload\<rparr>"

record replayed_role =
  role_identity :: thing
  role_name :: string
  role_reserved :: bool

record replayed_posit =
  posit_identity :: thing
  posit_appearances :: "(thing \<times> thing) list"
  posit_value :: literal
  posit_time :: time

section \<open>Roles\<close>

definition role_payload :: "thing \<Rightarrow> string \<Rightarrow> bool \<Rightarrow> bytes" where
  "role_payload ident name reserved = u64_bytes ident @ [if reserved then 1 else 0] @ encode_text name"

definition role_record_parts :: "thing \<Rightarrow> string \<Rightarrow> bool \<Rightarrow> pending_record" where
  "role_record_parts ident name reserved = new_record record_role (role_payload ident name reserved)"

definition decode_role :: "(string \<Rightarrow> string) \<Rightarrow> bytes \<Rightarrow> replayed_role result" where
  "decode_role nfc payload =
     attempt (take_u64 payload 0) (\<lambda>(ident, c).
     if ident = 0 then corruption ''Role identity 0 is reserved for genesis''
     else attempt (take_byte payload c) (\<lambda>(flag, c).
     attempt (if flag = 0 then Inr False else if flag = 1 then Inr True
              else corruption ''invalid Role reserved flag'') (\<lambda>reserved.
     attempt (decode_text payload c) (\<lambda>(name, c).
     if name = [] \<or> nfc name \<noteq> name \<or> c \<noteq> length payload
     then corruption ''invalid canonical Role payload''
     else Inr \<lparr>role_identity = ident, role_name = name, role_reserved = reserved\<rparr>))))"

definition wf_role :: "(string \<Rightarrow> string) \<Rightarrow> replayed_role \<Rightarrow> bool" where
  "wf_role nfc r \<longleftrightarrow> role_identity r \<noteq> 0 \<and> role_name r \<noteq> [] \<and> nfc (role_name r) = role_name r
     \<and> wf_string (role_name r)"

lemma role_fields:
  "holds p 0 (role_payload ident name reserved) \<longleftrightarrow>
     holds p 0 (u64_bytes ident) \<and> holds p 8 [if reserved then 1 else 0]
     \<and> holds p 9 (encode_text name)"
  unfolding role_payload_def by (simp add: holds_append del: append_Cons append.simps)

lemma role_payload_length: "length (role_payload ident name reserved) = 9 + length (encode_text name)"
  by (simp add: role_payload_def)

lemma decode_role_payload:
  assumes "wf_role nfc r"
    and "length (role_payload (role_identity r) (role_name r) (role_reserved r)) < 2 ^ 64"
  shows "decode_role nfc (role_payload (role_identity r) (role_name r) (role_reserved r)) = Inr r"
proof -
  let ?p = "role_payload (role_identity r) (role_name r) (role_reserved r)"
  have "holds ?p 0 ?p" using assms(2) by (rule holds_all)
  then have "holds ?p 0 (u64_bytes (role_identity r))"
      "holds ?p 8 [if role_reserved r then 1 else 0]" "holds ?p 9 (encode_text (role_name r))"
    by (simp_all only: role_fields)
  then show ?thesis
    using assms(1) role_payload_length [of "role_identity r" "role_name r" "role_reserved r"]
    by (cases "role_reserved r") (auto simp: decode_role_def reader_simps wf_role_def)
qed

lemma decode_role_Inr:
  assumes "decode_role nfc p = Inr r" and "length p < 2 ^ 64"
  shows "wf_role nfc r \<and> p = role_payload (role_identity r) (role_name r) (role_reserved r)"
proof -
  obtain ident c1 flag c2 name c3
    where t: "take_u64 p 0 = Inr (ident, c1)" "take_byte p c1 = Inr (flag, c2)"
        "decode_text p c2 = Inr (name, c3)"
      and r: "ident \<noteq> 0" "flag = 0 \<or> flag = 1" "name \<noteq> []" "nfc name = name" "c3 = length p"
        "r = \<lparr>role_identity = ident, role_name = name, role_reserved = (flag = 1)\<rparr>"
    using assms(1) by (auto simp: decode_role_def attempt_eq_Inr split: if_splits)
  note h = take_u64_Inr [OF t(1) assms(2)] take_byte_Inr [OF t(2) assms(2)]
    decode_text_Inr [OF t(3) assms(2)]
  have "holds p 0 (role_payload ident name (flag = 1))"
    and "length p = length (role_payload ident name (flag = 1))"
    using h r(2,5) by (auto simp: role_fields role_payload_length)
  with r h show ?thesis by (auto simp: holds_def wf_role_def)
qed

section \<open>Codecs\<close>

definition codec_payload :: "builtin_codec \<Rightarrow> bytes" where
  "codec_payload k = u16_bytes (codec_identifier k) @ u16_bytes (codec_version k)
     @ [codec_family k] @ u16_bytes 0 @ encode_text (codec_name k)"

definition codec_record_of :: "builtin_codec \<Rightarrow> pending_record" where
  "codec_record_of k = new_record record_codec (codec_payload k)"

definition codec_records :: "pending_record list" where
  "codec_records = map codec_record_of all_codecs"

definition decode_codec :: "bytes \<Rightarrow> builtin_codec result" where
  "decode_codec payload =
     attempt (take_u16 payload 0) (\<lambda>(ident, c).
     attempt (take_u16 payload c) (\<lambda>(version, c).
     attempt (take_byte payload c) (\<lambda>(family, c).
     attempt (take_u16 payload c) (\<lambda>(flags, c).
     attempt (decode_text payload c) (\<lambda>(name, c).
     attempt (ok_or (DataCorruption ''unknown required codec'') (from_pair ident version)) (\<lambda>codec.
     if family \<noteq> codec_family codec \<or> flags \<noteq> 0 \<or> name \<noteq> codec_name codec \<or> c \<noteq> length payload
     then corruption ''unknown or malformed required codec''
     else Inr codec))))))"

lemma length_encode_text:
  "length (encode_text s) = length (encode_uleb128 (word_of_nat (length s))) + length s"
  by (simp add: encode_text_def encode_blob_def)

lemma codec_payload_length: "length (codec_payload k) < 2 ^ 64"
proof -
  have "length (encode_text (codec_name k)) < 100"
    by (cases k) (simp_all add: length_encode_text encode_uleb128_small)
  then show ?thesis by (simp add: codec_payload_def)
qed

lemma codec_fields:
  "holds p 0 (codec_payload k) \<longleftrightarrow>
     holds p 0 (u16_bytes (codec_identifier k)) \<and> holds p 2 (u16_bytes (codec_version k))
     \<and> holds p 4 [codec_family k] \<and> holds p 5 (u16_bytes 0) \<and> holds p 7 (encode_text (codec_name k))"
  unfolding codec_payload_def
  by (simp add: holds_append del: append_Cons append.simps)

lemma decode_codec_payload: "decode_codec (codec_payload k) = Inr k"
proof -
  let ?p = "codec_payload k"
  have "holds ?p 0 ?p" by (rule holds_all [OF codec_payload_length])
  then have h: "holds ?p 0 (u16_bytes (codec_identifier k))" "holds ?p 2 (u16_bytes (codec_version k))"
      "holds ?p 4 [codec_family k]" "holds ?p 5 (u16_bytes 0)" "holds ?p 7 (encode_text (codec_name k))"
    by (simp_all add: codec_fields)
  moreover have "length ?p = 7 + length (encode_text (codec_name k))" by (simp add: codec_payload_def)
  ultimately show ?thesis by (simp add: decode_codec_def reader_simps)
qed

lemma decode_codec_Inr:
  assumes "decode_codec p = Inr k" and "length p < 2 ^ 64"
  shows "p = codec_payload k"
proof -
  obtain i c1 v c2 f c3 fl c4 n
    where t: "take_u16 p 0 = Inr (i, c1)" "take_u16 p c1 = Inr (v, c2)" "take_byte p c2 = Inr (f, c3)"
        "take_u16 p c3 = Inr (fl, c4)" "decode_text p c4 = Inr (n, length p)"
      and k: "from_pair i v = Some k" "f = codec_family k" "fl = 0" "n = codec_name k"
    using assms(1) by (auto simp: decode_codec_def attempt_eq_Inr split: if_splits)
  note h = take_u16_Inr [OF t(1) assms(2)] take_u16_Inr [OF t(2) assms(2)]
    take_byte_Inr [OF t(3) assms(2)] take_u16_Inr [OF t(4) assms(2)] decode_text_Inr [OF t(5) assms(2)]
  have "holds p 0 (codec_payload k)" and "length p = length (codec_payload k)"
    using h from_pair_Some [OF k(1)] k by (simp_all add: codec_fields) (simp add: codec_payload_def)
  then show ?thesis by (simp add: holds_def)
qed

end
