(* ===== verification/Posit_Records.thy ===== *)
theory Posit_Records
  imports Records
begin

text \<open>
  Posit records of \<open>src/storage.rs\<close>: the choice of a codec for a literal, the encoding of literals,
  times and appearance sets, and the decoder with every rejection it makes.
\<close>

unbundle bit_operations_syntax

section \<open>Literal payloads\<close>

definition canonical_integer :: "string \<Rightarrow> bool" where
  "canonical_integer t =
     (case parse_i64 t of Some parsed \<Rightarrow> show_int parsed = t | None \<Rightarrow> False)"

definition canonical_certainty :: "string \<Rightarrow> bool" where
  "canonical_certainty t =
     (case strip_suffix (CHR 0x25) t of
        None \<Rightarrow> False
      | Some pct \<Rightarrow>
          (case parse_i8 pct of
             None \<Rightarrow> False
           | Some p \<Rightarrow> - 100 \<le> p \<and> p \<le> 100 \<and> show_int p @ [CHR 0x25] = t))"

definition select_codec :: "literal \<Rightarrow> builtin_codec" where
  "select_codec value =
     (case family value of
        IntegerFamily \<Rightarrow> if canonical_integer (token value) then CanonicalI64 else RawUtf8
      | CertaintyFamily \<Rightarrow>
          if canonical_certainty (token value) then CanonicalCertainty else RawUtf8
      | _ \<Rightarrow> RawUtf8)"

definition zigzag :: "int \<Rightarrow> u64" where
  "zigzag i = push_bit 1 (word_of_int i) XOR (if i < 0 then - 1 else 0)"

definition unzigzag :: "u64 \<Rightarrow> int" where
  "unzigzag z = sint (drop_bit 1 z XOR (- (z AND 1)))"

definition encode_literal :: "literal \<Rightarrow> builtin_codec \<Rightarrow> bytes result" where
  "encode_literal value codec =
     (case codec of
        RawUtf8 \<Rightarrow> Inr (as_bytes (token value))
      | CanonicalI64 \<Rightarrow>
          attempt (ok_or (Invariant ''canonical integer codec selection failed'')
            (parse_i64 (token value))) (\<lambda>i. Inr (encode_uleb128 (zigzag i)))
      | CanonicalCertainty \<Rightarrow>
          attempt (ok_or (Invariant ''canonical certainty codec selection failed'')
            (case strip_suffix (CHR 0x25) (token value) of
               None \<Rightarrow> None | Some pct \<Rightarrow> parse_i8 pct)) (\<lambda>p. Inr [word_of_int p]))"

definition decode_literal :: "bytes \<Rightarrow> literal_family \<Rightarrow> builtin_codec \<Rightarrow> string result" where
  "decode_literal encoded fam codec =
     (if codec = RawUtf8 then
        ok_or (DataCorruption ''literal payload is not UTF-8'') (from_utf8 encoded)
      else if codec = CanonicalI64 \<and> fam = IntegerFamily then
        attempt (decode_uleb128 encoded 0) (\<lambda>(z, c).
        if c \<noteq> length encoded then corruption ''canonical integer payload has trailing bytes''
        else Inr (show_int (unzigzag z)))
      else if codec = CanonicalCertainty \<and> fam = CertaintyFamily then
        (case encoded of
           [b] \<Rightarrow>
             (let pct = sint b
              in if \<not> (- 100 \<le> pct \<and> pct \<le> 100)
                 then corruption ''canonical certainty payload is outside -100..=100''
                 else Inr (show_int pct @ [CHR 0x25]))
         | _ \<Rightarrow> corruption ''canonical certainty payload must contain one byte'')
      else corruption ''Posit codec is incompatible with its literal family'')"

lemma bit_zigzag:
  "bit (zigzag i) n \<longleftrightarrow> n < 64 \<and> ((1 \<le> n \<and> bit (word_of_int i :: u64) (n - 1)) \<noteq> (i < 0))"
  by (simp only: zigzag_def bit_xor_iff bit_push_bit_iff) (auto simp: bit_simps)

lemma unzigzag_zigzag:
  assumes "- (2 ^ 63) \<le> i" and "i < 2 ^ 63"
  shows "unzigzag (zigzag i) = i"
proof -
  let ?w = "word_of_int i :: u64"
  have s: "sint ?w = i"
    using assms by (simp add: sint_sbintrunc' signed_take_bit_int_eq_self)
  have sign: "i < 0 \<longleftrightarrow> bit ?w 63"
    using s bit_last_iff [of ?w] by simp
  have odd: "zigzag i AND 1 = (if i < 0 then 1 else 0)"
    using bit_zigzag [of i 0] by (simp add: and_one_eq bit_0 mod_2_eq_odd)
  have "drop_bit 1 (zigzag i) XOR (- (zigzag i AND 1)) = ?w"
  proof (rule bit_word_eqI)
    fix n assume "n < LENGTH(64)"
    then show "bit (drop_bit 1 (zigzag i) XOR (- (zigzag i AND 1))) n = bit ?w n"
      using sign by (cases "n = 63") (auto simp: odd bit_zigzag bit_xor_iff bit_drop_bit_eq)
  qed
  with s show ?thesis by (simp add: unzigzag_def)
qed

lemma zigzag_unzigzag: "zigzag (unzigzag z) = z"
proof -
  let ?w = "drop_bit 1 z XOR (- (z AND 1))"
  have w: "word_of_int (unzigzag z) = ?w" by (simp add: unzigzag_def)
  have low: "z AND 1 = (if bit z 0 then 1 else 0)" by (simp add: and_one_eq bit_0 mod_2_eq_odd)
  have bits: "bit ?w n \<longleftrightarrow> n < 64 \<and> (bit z (Suc n) \<noteq> bit z 0)" for n
    by (simp add: low bit_xor_iff bit_drop_bit_eq) (auto dest: bit_imp_le_length)
  have "unzigzag z < 0 \<longleftrightarrow> bit ?w 63"
    using bit_last_iff [of ?w] by (simp add: unzigzag_def)
  also have "\<dots> \<longleftrightarrow> bit z 0" unfolding bits by (auto dest: bit_imp_le_length)
  finally have sign: "unzigzag z < 0 \<longleftrightarrow> bit z 0" .
  show ?thesis
  proof (rule bit_word_eqI)
    fix n assume "n < LENGTH(64)"
    then show "bit (zigzag (unzigzag z)) n = bit z n"
      unfolding bit_zigzag w bits sign by (cases n) auto
  qed
qed

lemma unzigzag_bounds: "- (2 ^ 63) \<le> unzigzag z \<and> unzigzag z < 2 ^ 63"
  using sint_ge [of "drop_bit 1 z XOR (- (z AND 1))"] sint_lt [of "drop_bit 1 z XOR (- (z AND 1))"]
  by (simp add: unzigzag_def)

lemma canonical_integerD:
  "canonical_integer t \<Longrightarrow>
     \<exists>i. parse_i64 t = Some i \<and> show_int i = t \<and> - (2 ^ 63) \<le> i \<and> i < 2 ^ 63"
  using parse_int_bounds [of "- 9223372036854775808" 9223372036854775807 t]
  by (auto simp: canonical_integer_def split: option.splits)

lemma wf_string_show_int [simp]: "wf_string (show_int i)"
  by (rule wf_string_ascii) (use show_int_ascii in blast)

lemma sint_u8: "- 128 \<le> p \<Longrightarrow> p < 128 \<Longrightarrow> sint (word_of_int p :: u8) = p"
  by (simp add: sint_sbintrunc' signed_take_bit_int_eq_self)

text \<open>The chosen codec always encodes, and decodes to the same token.\<close>

lemma literal_codec_roundtrip:
  assumes "wf_string (token v)"
  obtains e where "encode_literal v (select_codec v) = Inr e"
    and "decode_literal e (family v) (select_codec v) = Inr (token v)"
    and "length e \<le> max 10 (length (token v))"
proof (cases "select_codec v")
  case RawUtf8
  with assms that show thesis by (simp add: encode_literal_def decode_literal_def)
next
  case CanonicalI64
  then have fam: "family v = IntegerFamily" and "canonical_integer (token v)"
    by (auto simp: select_codec_def split: literal_family.splits if_splits)
  then obtain i where i: "parse_i64 (token v) = Some i" "show_int i = token v"
      "- (2 ^ 63) \<le> i" "i < 2 ^ 63"
    using canonical_integerD by blast
  let ?e = "encode_uleb128 (zigzag i)"
  have "holds ?e 0 ?e" using length_encode_uleb128 [of "zigzag i"] by (intro holds_all) simp
  then have "decode_literal ?e (family v) CanonicalI64 = Inr (token v)"
    using fam i by (simp add: decode_literal_def reader_simps unzigzag_zigzag)
  then show thesis
    using that [of ?e] CanonicalI64 i length_encode_uleb128 [of "zigzag i"]
    by (simp add: encode_literal_def le_max_iff_disj)
next
  case CanonicalCertainty
  then have fam: "family v = CertaintyFamily" and c: "canonical_certainty (token v)"
    by (auto simp: select_codec_def split: literal_family.splits if_splits)
  then obtain pct p where p: "strip_suffix (CHR 0x25) (token v) = Some pct" "parse_i8 pct = Some p"
      "- 100 \<le> p" "p \<le> 100" "show_int p @ [CHR 0x25] = token v"
    by (auto simp: canonical_certainty_def split: option.splits)
  then have "decode_literal [word_of_int p] (family v) CanonicalCertainty = Inr (token v)"
    using fam by (simp add: decode_literal_def sint_u8 Let_def)
  then show thesis
    using that [of "[word_of_int p]"] CanonicalCertainty p
    by (simp add: encode_literal_def le_max_iff_disj)
qed

section \<open>Times\<close>

definition encode_time :: "time \<Rightarrow> bytes" where
  "encode_time t = (case moment t of
     BeginningOfTime \<Rightarrow> [0]
   | EndOfTime \<Rightarrow> [1]
   | Year y \<Rightarrow> [2] @ i32_bytes y
   | YearMonth y m \<Rightarrow> [3] @ i32_bytes y @ [word_of_nat m]
   | Date d \<Rightarrow>
       [4] @ i32_bytes (date_year d) @ [word_of_nat (date_month d)] @ [word_of_nat (date_day d)]
   | DateTime t \<Rightarrow>
       [5] @ i32_bytes (date_year (datetime_date t))
       @ [word_of_nat (date_month (datetime_date t))] @ [word_of_nat (date_day (datetime_date t))]
       @ [word_of_nat (datetime_hour t)] @ [word_of_nat (datetime_minute t)]
       @ [word_of_nat (datetime_second t)] @ u32_bytes (word_of_nat (datetime_nanosecond t)))"

definition decode_time :: "chrono \<Rightarrow> bytes \<Rightarrow> nat \<Rightarrow> time decoded" where
  "decode_time C bs c =
     attempt (take_byte bs c) (\<lambda>(tag, c).
     if tag = 0 then Inr (Time BeginningOfTime, c)
     else if tag = 1 then Inr (Time EndOfTime, c)
     else if tag = 2 then
       attempt (take_i32 bs c) (\<lambda>(y, c). Inr (Time (Year y), c))
     else if tag = 3 then
       attempt (take_i32 bs c) (\<lambda>(y, c).
       attempt (take_byte bs c) (\<lambda>(m, c).
       if \<not> (1 \<le> m \<and> m \<le> 12) then corruption ''invalid time month''
       else Inr (Time (YearMonth y (unat m)), c)))
     else if tag = 4 \<or> tag = 5 then
       attempt (take_i32 bs c) (\<lambda>(y, c).
       attempt (take_byte bs c) (\<lambda>(m, c).
       attempt (take_byte bs c) (\<lambda>(d, c).
       attempt (ok_or (DataCorruption ''invalid persisted calendar date'')
         (from_ymd_opt C y (unat m) (unat d))) (\<lambda>date.
       if tag = 4 then Inr (Time (Date date), c)
       else
         attempt (take_byte bs c) (\<lambda>(h, c).
         attempt (take_byte bs c) (\<lambda>(mi, c).
         attempt (take_byte bs c) (\<lambda>(s, c).
         attempt (take_u32 bs c) (\<lambda>(ns, c).
         attempt (ok_or (DataCorruption ''invalid persisted UTC datetime'')
           (and_hms_nano_opt C date (unat h) (unat mi) (unat s) (unat ns))) (\<lambda>dt.
         Inr (Time (DateTime dt), c))))))))))
     else corruption ''unknown time tag'')"

lemma unat_u8_of_nat: "n < 256 \<Longrightarrow> unat (word_of_nat n :: u8) = n"
  by (simp add: unat_of_nat)

lemma unat_u32_of_nat: "n < 2 ^ 32 \<Longrightarrow> unat (word_of_nat n :: u32) = n"
  by (simp add: unat_of_nat)

lemmas cut_fields = holds_append

context calendar_codec
begin

lemma valid_date_bounds:
  assumes "valid_date C d"
  shows "- (2 ^ 31) \<le> date_year d" "date_year d < 2 ^ 31" "date_month d < 256" "date_day d < 256"
  using from_ymd_components [of "date_year d" "date_month d" "date_day d" d] assms
  by (auto simp: valid_date_def)

lemma valid_datetime_bounds:
  assumes "valid_datetime C t"
  shows "datetime_hour t < 256" "datetime_minute t < 256" "datetime_second t < 256"
    "datetime_nanosecond t < 2 ^ 32"
  using from_hms_components [of "datetime_date t" "datetime_hour t" "datetime_minute t"
      "datetime_second t" "datetime_nanosecond t" t] assms
  by (auto simp: valid_datetime_def)

lemma decode_time_holds:
  assumes "holds p c (encode_time t)" and "wf_time C t"
  shows "decode_time C p c = Inr (t, c + length (encode_time t))"
proof (cases t)
  case (Time m)
  show ?thesis
  proof (cases m)
    case (Year y)
    with assms Time show ?thesis
      by (auto simp: encode_time_def wf_time_def decode_time_def holds_append reader_simps
          simp del: append_Cons append.simps)
  next
    case (YearMonth y mo)
    with assms Time show ?thesis
      by (auto simp: encode_time_def wf_time_def decode_time_def holds_append reader_simps
          unat_u8_of_nat word_le_nat_alt simp del: append_Cons append.simps)
  next
    case (Date d)
    with assms Time valid_date_bounds [of d] show ?thesis
      by (auto simp: encode_time_def wf_time_def decode_time_def holds_append reader_simps
          unat_u8_of_nat valid_date_def simp del: append_Cons append.simps)
  next
    case (DateTime d)
    with assms Time valid_date_bounds [of "datetime_date d"] valid_datetime_bounds [of d]
    show ?thesis
      by (auto simp: encode_time_def wf_time_def decode_time_def holds_append reader_simps
          unat_u8_of_nat unat_u32_of_nat valid_date_def valid_datetime_def
          simp del: append_Cons append.simps)
  qed (use assms Time in \<open>simp_all add: encode_time_def decode_time_def reader_simps\<close>)
qed

end

section \<open>Posits\<close>

definition appearance_bytes :: "(thing \<times> thing) list \<Rightarrow> bytes" where
  "appearance_bytes apps = concat (map (\<lambda>(r, t). u64_bytes r @ u64_bytes t) apps)"

definition posit_payload ::
    "thing \<Rightarrow> (thing \<times> thing) list \<Rightarrow> literal_family \<Rightarrow> builtin_codec \<Rightarrow> bytes \<Rightarrow> time \<Rightarrow> bytes" where
  "posit_payload ident apps fam codec encoded t =
     u64_bytes ident @ encode_uleb128 (word_of_nat (length apps)) @ appearance_bytes apps
     @ [family_identifier fam] @ u16_bytes (codec_identifier codec) @ u16_bytes (codec_version codec)
     @ encode_blob encoded @ encode_time t"

definition posit_record_logical_with_codec ::
    "thing \<Rightarrow> (thing \<times> thing) list \<Rightarrow> literal \<Rightarrow> time \<Rightarrow> builtin_codec \<Rightarrow> pending_record result" where
  "posit_record_logical_with_codec ident apps value t codec =
     attempt (encode_literal value codec) (\<lambda>encoded.
     Inr (new_record record_posit (posit_payload ident apps (family value) codec encoded t)))"

definition posit_record_logical ::
    "thing \<Rightarrow> (thing \<times> thing) list \<Rightarrow> literal \<Rightarrow> time \<Rightarrow> pending_record result" where
  "posit_record_logical ident apps value t =
     (let apps = sort apps
      in if any_adjacent (\<lambda>p q. fst p = fst q) apps
         then Inl (InvalidAppearanceSet ''a persisted appearance set cannot repeat a role'')
         else posit_record_logical_with_codec ident apps value t (select_codec value))"

fun take_appearances ::
    "nat \<Rightarrow> bytes \<Rightarrow> nat \<Rightarrow> (thing \<times> thing) list \<Rightarrow> (thing \<times> thing) list decoded" where
  "take_appearances 0 bs c acc = Inr (acc, c)"
| "take_appearances (Suc n) bs c acc =
     attempt (take_u64 bs c) (\<lambda>(role, c).
     attempt (take_u64 bs c) (\<lambda>(thing, c).
     if role = 0 \<or> thing = 0
     then corruption ''appearance identities cannot use genesis identity 0''
     else take_appearances n bs c (acc @ [(role, thing)])))"

definition decode_posit ::
    "'n literal_lib \<Rightarrow> chrono \<Rightarrow> bytes \<Rightarrow> builtin_codec set \<Rightarrow> replayed_posit result" where
  "decode_posit L C payload codecs =
     attempt (take_u64 payload 0) (\<lambda>(ident, c).
     if ident = 0 then corruption ''Posit identity 0 is reserved for genesis''
     else
     attempt (decode_uleb128 payload c) (\<lambda>(n, c).
     let count = unat n
     in if count = 0 \<or> count > (length payload - c) div 16
        then corruption ''appearance count exceeds the remaining Posit payload''
        else
     attempt (take_appearances count payload c []) (\<lambda>(apps, c).
     if apps = [] \<or> any_adjacent (\<lambda>p q. p \<ge> q) apps
        \<or> any_adjacent (\<lambda>p q. fst p = fst q) apps
     then corruption ''Posit appearances are not canonical''
     else
     attempt (take_byte payload c) (\<lambda>(fam, c).
     attempt (ok_or (DataCorruption ''unknown literal family'') (from_identifier fam)) (\<lambda>fam.
     attempt (take_u16 payload c) (\<lambda>(codec, c).
     attempt (take_u16 payload c) (\<lambda>(version, c).
     attempt (ok_or (DataCorruption ''unknown or not-yet-declared Posit codec'')
       (case from_pair codec version of
          None \<Rightarrow> None | Some k \<Rightarrow> if k \<in> codecs then Some k else None)) (\<lambda>codec.
     attempt (decode_blob payload c) (\<lambda>(encoded, c).
     attempt (decode_literal encoded fam codec) (\<lambda>token.
     attempt (case new_literal L token fam of
          Inl e \<Rightarrow> corruption ''invalid persisted literal'' | Inr v \<Rightarrow> Inr v) (\<lambda>value.
     attempt (decode_time C payload c) (\<lambda>(t, c).
     if c \<noteq> length payload then corruption ''Posit payload has trailing fields''
     else Inr \<lparr>posit_identity = ident, posit_appearances = apps, posit_value = value,
       posit_time = t\<rparr>))))))))))))"

text \<open>The posits the program can hold: a non-empty appearance set sorted by role with no role
  twice, no genesis identity, a valid literal, a valid time.\<close>

definition canonical_appearances :: "(thing \<times> thing) list \<Rightarrow> bool" where
  "canonical_appearances apps \<longleftrightarrow>
     apps \<noteq> [] \<and> sorted_wrt (<) (map fst apps) \<and> (\<forall>(r, t) \<in> set apps. r \<noteq> 0 \<and> t \<noteq> 0)"

definition wf_posit :: "'n literal_lib \<Rightarrow> chrono \<Rightarrow> replayed_posit \<Rightarrow> bool" where
  "wf_posit L C p \<longleftrightarrow> posit_identity p \<noteq> 0 \<and> canonical_appearances (posit_appearances p)
     \<and> wf_literal L (posit_value p) \<and> wf_string (token (posit_value p)) \<and> wf_time C (posit_time p)"

lemma any_adjacent_mono: "any_adjacent p xs \<Longrightarrow> (\<And>x y. p x y \<Longrightarrow> q x y) \<Longrightarrow> any_adjacent q xs"
  by (induction p xs rule: any_adjacent.induct) auto

lemma canonical_order:
  "sorted_wrt (<) (map fst apps) \<longleftrightarrow>
     \<not> any_adjacent (\<lambda>p q. p \<ge> q) apps \<and> \<not> any_adjacent (\<lambda>p q. fst p = fst q) apps"
  for apps :: "(thing \<times> thing) list"
proof -
  have strict: "sorted_wrt (<) (map fst apps) \<longleftrightarrow> \<not> any_adjacent (\<lambda>p q. fst p \<ge> fst q) apps"
    using any_adjacent_strict [of fst apps] by simp
  have "any_adjacent (\<lambda>p q. fst p \<ge> fst q) apps \<longleftrightarrow>
      any_adjacent (\<lambda>p q. p \<ge> q) apps \<or> any_adjacent (\<lambda>p q. fst p = fst q) apps"
    by (induction apps rule: induct_list012) (auto simp: less_eq_prod_def)
  with strict show ?thesis by blast
qed

section \<open>The round trip\<close>

lemma appearance_bytes_simps [simp]:
  "appearance_bytes [] = []"
  "appearance_bytes ((r, t) # apps) = u64_bytes r @ u64_bytes t @ appearance_bytes apps"
  by (simp_all add: appearance_bytes_def)

lemma length_appearance_bytes [simp]: "length (appearance_bytes apps) = 16 * length apps"
  by (induction apps) auto

lemma take_appearances_holds:
  "holds p c (appearance_bytes apps) \<Longrightarrow> \<forall>(r, t) \<in> set apps. r \<noteq> 0 \<and> t \<noteq> 0 \<Longrightarrow>
     take_appearances (length apps) p c acc = Inr (acc @ apps, c + 16 * length apps)"
proof (induction apps arbitrary: c acc)
  case (Cons a apps)
  obtain r t where a: "a = (r, t)" by fastforce
  have h: "holds p c (u64_bytes r)" "holds p (c + 8) (u64_bytes t)"
      "holds p (c + 16) (appearance_bytes apps)"
    using Cons.prems(1) a by (simp_all add: holds_append add.assoc)
  have "take_appearances (length apps) p (c + 16) (acc @ [a]) =
      Inr ((acc @ [a]) @ apps, c + 16 + 16 * length apps)"
    using Cons.IH [OF h(3)] Cons.prems(2) by simp
  then show ?case using h Cons.prems(2) a by (simp add: reader_simps add.assoc)
qed simp

lemma take_appearances_Inr:
  "take_appearances n p c acc = Inr (r, c') \<Longrightarrow> length p < 2 ^ 64 \<Longrightarrow> c \<le> length p \<Longrightarrow>
     \<exists>apps. r = acc @ apps \<and> length apps = n \<and> holds p c (appearance_bytes apps)
       \<and> c' = c + 16 * n \<and> (\<forall>(r, t) \<in> set apps. r \<noteq> 0 \<and> t \<noteq> 0)"
proof (induction n p c acc rule: take_appearances.induct)
  case (1 p c acc)
  then show ?case by (simp add: holds_def)
next
  case (2 n p c acc)
  obtain role d thing e
    where t: "take_u64 p c = Inr (role, d)" "take_u64 p d = Inr (thing, e)"
      and nz: "role \<noteq> 0" "thing \<noteq> 0"
      and rest: "take_appearances n p e (acc @ [(role, thing)]) = Inr (r, c')"
    using "2.prems"(1) by (auto simp: attempt_eq_Inr split: if_splits)
  note h = take_u64_Inr [OF t(1) "2.prems"(2)] take_u64_Inr [OF t(2) "2.prems"(2)]
  have e: "e = c + 16" "e \<le> length p" using h by (auto dest: holds_end)
  obtain apps where "r = (acc @ [(role, thing)]) @ apps" "length apps = n"
      "holds p e (appearance_bytes apps)" "c' = e + 16 * n" "\<forall>(r, t) \<in> set apps. r \<noteq> 0 \<and> t \<noteq> 0"
    using "2.IH" t nz rest "2.prems"(2) e by fastforce
  then show ?case using h nz e by (intro exI [of _ "(role, thing) # apps"]) (auto simp: holds_append ac_simps)
qed

lemma posit_fields:
  "holds p 0 (posit_payload ident apps fam codec encoded t) \<longleftrightarrow>
     (let c1 = 8 + length (encode_uleb128 (word_of_nat (length apps)));
          c2 = c1 + 16 * length apps;
          c3 = c2 + 5 + length (encode_blob encoded)
      in holds p 0 (u64_bytes ident) \<and> holds p 8 (encode_uleb128 (word_of_nat (length apps)))
         \<and> holds p c1 (appearance_bytes apps) \<and> holds p c2 [family_identifier fam]
         \<and> holds p (c2 + 1) (u16_bytes (codec_identifier codec))
         \<and> holds p (c2 + 3) (u16_bytes (codec_version codec))
         \<and> holds p (c2 + 5) (encode_blob encoded) \<and> holds p c3 (encode_time t))"
  unfolding posit_payload_def
  by (simp add: holds_append Let_def ac_simps del: append_Cons append.simps)

lemma posit_payload_length:
  "length (posit_payload ident apps fam codec encoded t) =
     8 + length (encode_uleb128 (word_of_nat (length apps))) + 16 * length apps
     + 5 + length (encode_blob encoded) + length (encode_time t)"
  by (simp add: posit_payload_def)

context calendar_codec
begin

lemma decode_posit_payload:
  assumes wf: "wf_posit L C p" and codec: "codec \<in> codecs"
    and enc: "decode_literal encoded (family (posit_value p)) codec = Inr (token (posit_value p))"
    and payload: "payload = posit_payload (posit_identity p) (posit_appearances p)
      (family (posit_value p)) codec encoded (posit_time p)"
    and len: "length payload < 2 ^ 64"
  shows "decode_posit L C payload codecs = Inr p"
proof -
  let ?apps = "posit_appearances p" and ?v = "posit_value p"
  let ?n = "word_of_nat (length ?apps) :: u64"
  let ?c1 = "8 + length (encode_uleb128 ?n)"
  let ?c2 = "?c1 + 16 * length ?apps"
  let ?c3 = "?c2 + 5 + length (encode_blob encoded)"
  have "holds payload 0 (posit_payload (posit_identity p) ?apps (family ?v) codec encoded (posit_time p))"
    using holds_all [OF len] payload by simp
  then have f: "holds payload 0 (u64_bytes (posit_identity p))" "holds payload 8 (encode_uleb128 ?n)"
      "holds payload ?c1 (appearance_bytes ?apps)" "holds payload ?c2 [family_identifier (family ?v)]"
      "holds payload (?c2 + 1) (u16_bytes (codec_identifier codec))"
      "holds payload (?c2 + 3) (u16_bytes (codec_version codec))"
      "holds payload (?c2 + 5) (encode_blob encoded)" "holds payload ?c3 (encode_time (posit_time p))"
    unfolding posit_fields Let_def by blast+
  have total: "length payload = ?c3 + length (encode_time (posit_time p))"
    using payload by (simp add: posit_payload_length)
  have apps: "?apps \<noteq> []" "\<forall>(r, t) \<in> set ?apps. r \<noteq> 0 \<and> t \<noteq> 0"
      "\<not> any_adjacent (\<lambda>p q. p \<ge> q) ?apps" "\<not> any_adjacent (\<lambda>p q. fst p = fst q) ?apps"
    using wf canonical_order [of ?apps] by (auto simp: wf_posit_def canonical_appearances_def)
  have n: "unat ?n = length ?apps" using total len by (intro unat_of_nat_u64) simp
  have count: "\<not> (length ?apps = 0 \<or> length ?apps > (length payload - ?c1) div 16)"
    using apps(1) total by simp
  show ?thesis
    unfolding decode_posit_def
    using f(1,2,4-) wf codec enc n count apps total
      take_appearances_holds [OF f(3) apps(2), of "[]"] decode_time_holds [OF f(8)]
    by (simp add: reader_simps wf_posit_def new_literal_parts)
qed

end

section \<open>The converse\<close>

lemma holds_whole: "holds bs 0 xs \<Longrightarrow> length xs = length bs \<Longrightarrow> bs = xs"
  by (simp add: holds_def)

lemma encode_decode_literal:
  assumes "decode_literal e fam codec = Inr t" and "length e < 2 ^ 64"
  shows "encode_literal \<lparr>token = t, family = fam\<rparr> codec = Inr e \<and> wf_string t"
proof (cases codec)
  case RawUtf8
  with assms show ?thesis
    by (auto simp: decode_literal_def encode_literal_def from_utf8_Some)
next
  case CanonicalI64
  with assms obtain z where z: "decode_uleb128 e 0 = Inr (z, length e)" "t = show_int (unzigzag z)"
    by (auto simp: decode_literal_def attempt_eq_Inr split: if_splits)
  from decode_uleb128_Inr [OF z(1) assms(2)] have "e = encode_uleb128 z"
    by (intro holds_whole) auto
  with CanonicalI64 z(2) unzigzag_bounds [of z] show ?thesis
    by (simp add: encode_literal_def zigzag_unzigzag)
next
  case CanonicalCertainty
  with assms obtain b where b: "e = [b]" "- 100 \<le> sint b" "sint b \<le> 100"
      "t = show_int (sint b) @ [CHR 0x25]"
    by (auto simp: decode_literal_def Let_def split: if_splits list.splits)
  have "wf_string t"
    by (rule wf_string_ascii) (auto simp: b(4) dest: show_int_ascii)
  with CanonicalCertainty b show ?thesis by (simp add: encode_literal_def)
qed

context calendar_codec
begin

lemma decode_time_Inr:
  assumes "decode_time C p c = Inr (t, c')" and "length p < 2 ^ 64"
  shows "holds p c (encode_time t) \<and> c' = c + length (encode_time t) \<and> wf_time C t"
proof -
  obtain tag c1 where tag: "take_byte p c = Inr (tag, c1)"
    using assms(1) by (auto simp: decode_time_def attempt_eq_Inr)
  have h: "holds p c [tag]" "c1 = c + 1" using take_byte_Inr [OF tag assms(2)] by auto
  note run = assms(1) [unfolded decode_time_def tag attempt_Inr prod.case]
  consider "tag = 0" | "tag = 1" | "tag = 2" | "tag = 3" | "tag = 4 \<or> tag = 5"
    | "tag \<notin> {0, 1, 2, 3, 4, 5}" by blast
  then show ?thesis
  proof cases
    case 3
    with run obtain y c2 where "take_i32 p c1 = Inr (y, c2)" "t = Time (Year y)" "c' = c2"
      by (auto simp: attempt_eq_Inr)
    then show ?thesis
      using h 3 take_i32_Inr [of p c1 y c2] assms(2)
      by (auto simp: encode_time_def wf_time_def holds_append simp del: append_Cons append.simps)
  next
    case 4
    with run obtain y c2 m where "take_i32 p c1 = Inr (y, c2)" "take_byte p c2 = Inr (m, c')"
        "1 \<le> m" "m \<le> 12" "t = Time (YearMonth y (unat m))"
      by (auto simp: attempt_eq_Inr split: if_splits)
    then show ?thesis
      using h 4 take_i32_Inr [of p c1 y c2] take_byte_Inr [of p c2 m c'] assms(2)
      by (auto simp: encode_time_def wf_time_def holds_append word_le_nat_alt
          simp del: append_Cons append.simps)
  next
    case 5
    with run obtain y c2 m c3 d c4 date
      where f: "take_i32 p c1 = Inr (y, c2)" "take_byte p c2 = Inr (m, c3)" "take_byte p c3 = Inr (d, c4)"
        and date: "from_ymd_opt C y (unat m) (unat d) = Some date"
      by (auto simp: attempt_eq_Inr split: if_splits)
    note hd = take_i32_Inr [OF f(1) assms(2)] take_byte_Inr [OF f(2) assms(2)] take_byte_Inr [OF f(3) assms(2)]
    have dv: "date = NaiveDate y (unat m) (unat d)" "valid_date C date"
      using from_ymd_components [OF date] date by (auto simp: valid_date_def)
    show ?thesis
    proof (cases "tag = 4")
      case True
      with run f date have "t = Time (Date date)" "c' = c4" by auto
      then show ?thesis
        using h hd True dv
        by (auto simp: encode_time_def wf_time_def holds_append simp del: append_Cons append.simps)
    next
      case False
      with 5 have tag5: "tag = 5" by simp
      with run f date obtain ho c5 mi c6 s c7 ns dt
        where g: "take_byte p c4 = Inr (ho, c5)" "take_byte p c5 = Inr (mi, c6)"
          "take_byte p c6 = Inr (s, c7)" "take_u32 p c7 = Inr (ns, c')"
          and dt: "and_hms_nano_opt C date (unat ho) (unat mi) (unat s) (unat ns) = Some dt"
          and t: "t = Time (DateTime dt)"
        by (auto simp: attempt_eq_Inr)
      note ht = take_byte_Inr [OF g(1) assms(2)] take_byte_Inr [OF g(2) assms(2)]
        take_byte_Inr [OF g(3) assms(2)] take_u32_Inr [OF g(4) assms(2)]
      have "dt = NaiveDateTime date (unat ho) (unat mi) (unat s) (unat ns)" "valid_datetime C dt"
        using from_hms_components [OF dt] dt dv by (auto simp: valid_datetime_def)
      then show ?thesis
        using h hd ht tag5 dv(1) t
        by (auto simp: encode_time_def wf_time_def holds_append simp del: append_Cons append.simps)
    qed
  qed (use run h in \<open>auto simp: encode_time_def wf_time_def\<close>)
qed

lemma decode_posit_Inr:
  assumes run: "decode_posit L C payload codecs = Inr p" and len: "length payload < 2 ^ 64"
  shows "wf_posit L C p \<and> (\<exists>codec encoded. codec \<in> codecs
    \<and> encode_literal (posit_value p) codec = Inr encoded
    \<and> payload = posit_payload (posit_identity p) (posit_appearances p) (family (posit_value p))
        codec encoded (posit_time p))"
proof -
  obtain ident c1 n c2 apps c3
    where f: "take_u64 payload 0 = Inr (ident, c1)" "decode_uleb128 payload c1 = Inr (n, c2)"
        "take_appearances (unat n) payload c2 [] = Inr (apps, c3)"
      and ident: "ident \<noteq> 0" "unat n \<noteq> 0"
      and order: "apps \<noteq> []" "\<not> any_adjacent (\<lambda>p q. p \<ge> q) apps"
        "\<not> any_adjacent (\<lambda>p q. fst p = fst q) apps"
    using run by (auto simp: decode_posit_def attempt_eq_Inr Let_def split: if_splits)
  note run1 = run [unfolded decode_posit_def f(1) attempt_Inr prod.case]
  obtain famb c4 fam kid c5 kver c6 codec encoded c7 tok val t
    where g: "take_byte payload c3 = Inr (famb, c4)" "from_identifier famb = Some fam"
        "take_u16 payload c4 = Inr (kid, c5)" "take_u16 payload c5 = Inr (kver, c6)"
        "from_pair kid kver = Some codec" "codec \<in> codecs"
        "decode_blob payload c6 = Inr (encoded, c7)" "decode_literal encoded fam codec = Inr tok"
        "new_literal L tok fam = Inr val" "decode_time C payload c7 = Inr (t, length payload)"
      and p: "p = \<lparr>posit_identity = ident, posit_appearances = apps, posit_value = val,
        posit_time = t\<rparr>"
    using run1 f(2,3) ident order
    by (auto simp: attempt_eq_Inr Let_def split: if_splits option.splits sum.splits)
  note h1 = take_u64_Inr [OF f(1) len] and h2 = decode_uleb128_Inr [OF f(2) len]
  have "c2 \<le> length payload" using h2 by (auto dest: holds_end)
  from take_appearances_Inr [OF f(3) len this]
  have h3: "length apps = unat n" "holds payload c2 (appearance_bytes apps)" "c3 = c2 + 16 * unat n"
      "\<forall>(r, t) \<in> set apps. r \<noteq> 0 \<and> t \<noteq> 0" by auto
  have n: "word_of_nat (length apps) = n" by (simp add: h3(1))
  note h4 = take_byte_Inr [OF g(1) len] take_u16_Inr [OF g(3) len] take_u16_Inr [OF g(4) len]
    decode_blob_Inr [OF g(7) len] decode_time_Inr [OF g(10) len]
  have val: "val = \<lparr>token = tok, family = fam\<rparr>" "wf_literal L val"
    using g(9) by (auto simp: new_literal_eq_Inr)
  have "length encoded < 2 ^ 64" using h4(4) len by (auto simp: encode_blob_def dest: holds_end)
  then have lit: "encode_literal val codec = Inr encoded" "wf_string tok"
    using encode_decode_literal [OF g(8)] val(1) by auto
  have ids: "famb = family_identifier fam" "kid = codec_identifier codec" "kver = codec_version codec"
    using g(2,5) from_pair_Some by (auto simp: from_identifier_eq_Some)
  have "holds payload 0 (posit_payload ident apps fam codec encoded t)"
    and total: "length payload = length (posit_payload ident apps fam codec encoded t)"
    using h1 h2 h3 h4 n ids by (auto simp: posit_fields posit_payload_length Let_def ac_simps)
  then have "payload = posit_payload ident apps fam codec encoded t"
    using holds_whole [of payload "posit_payload ident apps fam codec encoded t"] by simp
  moreover have "wf_posit L C p"
    using ident order h3(4) val lit(2) h4(5) canonical_order [of apps]
    by (simp add: p wf_posit_def canonical_appearances_def)
  ultimately show ?thesis using lit(1) g(6) by (auto simp: p val(1))
qed

end

section \<open>Properties\<close>

lemma sort_roles: "sorted (map fst (sort apps))" for apps :: "(thing \<times> thing) list"
proof -
  have "sorted_wrt (\<le>) (sort apps)" by simp
  then have "sorted_wrt (\<lambda>p q. fst p \<le> fst q) (sort apps)"
    by (rule sorted_wrt_mono_rel [rotated]) (auto simp: less_eq_prod_def)
  then show ?thesis by (simp add: sorted_wrt_map)
qed

lemma sort_repeats:
  "any_adjacent (\<lambda>p q. fst p = fst q) (sort apps) \<longleftrightarrow> \<not> distinct (map fst apps)"
  for apps :: "(thing \<times> thing) list"
proof -
  have "distinct (map fst (sort apps)) \<longleftrightarrow> distinct (map fst apps)"
    by (simp add: distinct_map)
  then show ?thesis using any_adjacent_eq_sorted [OF sort_roles] by blast
qed

lemma sort_canonical:
  assumes "apps \<noteq> []" and "distinct (map fst apps)" and "\<forall>(r, t) \<in> set apps. r \<noteq> 0 \<and> t \<noteq> 0"
  shows "canonical_appearances (sort apps)"
proof -
  have "distinct (map fst (sort apps))"
    using assms(2) by (simp add: distinct_map)
  then have "sorted_wrt (<) (map fst (sort apps))"
    using sort_roles [of apps] by (simp add: strict_sorted_iff)
  moreover have "sort apps \<noteq> []" using assms(1) by (metis set_empty set_sort)
  ultimately show ?thesis using assms(3) by (simp add: canonical_appearances_def)
qed

lemma posit_record_logical_result:
  assumes "wf_string (token v)" and "distinct (map fst apps)"
  obtains e where "posit_record_logical ident apps v t =
      Inr (new_record record_posit (posit_payload ident (sort apps) (family v) (select_codec v) e t))"
    and "decode_literal e (family v) (select_codec v) = Inr (token v)"
proof -
  obtain e where e: "encode_literal v (select_codec v) = Inr e"
      "decode_literal e (family v) (select_codec v) = Inr (token v)"
    using literal_codec_roundtrip [OF assms(1)] by blast
  have "\<not> any_adjacent (\<lambda>p q. fst p = fst q) (sort apps)" using assms(2) sort_repeats by blast
  with e that [of e] show thesis
    by (simp add: posit_record_logical_def posit_record_logical_with_codec_def)
qed



text \<open>C22: a Posit payload that the decoder accepts is the encoding of the posit it returns, byte for
  byte: the appearances canonical, the literal valid and in the codec the payload names, the time
  one the calendar knows, nothing left over.\<close>

theorem posit_payload_canonical:
  assumes "calendar_codec C" and "length payload < 2 ^ 64"
    and "decode_posit L C payload codecs = Inr p"
  shows "wf_posit L C p \<and> (\<exists>codec r. codec \<in> codecs
    \<and> posit_record_logical_with_codec (posit_identity p) (posit_appearances p) (posit_value p)
        (posit_time p) codec = Inr r
    \<and> payload = pending_payload r)"
  using calendar_codec.decode_posit_Inr [OF assms(1,3,2)]
  by (auto simp: posit_record_logical_with_codec_def new_record_def attempt_eq_Inr)

definition sample_posit :: replayed_posit where
  "sample_posit = \<lparr>posit_identity = 9, posit_appearances = [(1, 8), (2, 7)],
     posit_value = \<lparr>token = ''<ab>'', family = StringFamily\<rparr>, posit_time = Time (Year 2024)\<rparr>"

definition sample_payload :: bytes where
  "sample_payload = posit_payload 9 [(1, 8), (2, 7)] StringFamily RawUtf8 (as_bytes ''<ab>'')
     (Time (Year 2024))"

lemma sample_payload_length: "length sample_payload < 2 ^ 64"
  by (simp add: sample_payload_def posit_payload_length encode_uleb128_small encode_blob_def
      encode_time_def)

lemma sample_decoded: "decode_posit plain_lib gregorian sample_payload {RawUtf8} = Inr sample_posit"
proof (rule gregorian.decode_posit_payload)
  have "wf_string ''<ab>''" by (rule wf_string_ascii) simp
  then show "wf_posit plain_lib gregorian sample_posit"
      "decode_literal (as_bytes ''<ab>'') (family (posit_value sample_posit)) RawUtf8
        = Inr (token (posit_value sample_posit))"
    by (simp_all add: wf_posit_def sample_posit_def canonical_appearances_def wf_literal_def
        parse_json_string_def plain_lib_def wf_time_def decode_literal_def word_less_nat_alt)
  show "sample_payload = posit_payload (posit_identity sample_posit) (posit_appearances sample_posit)
      (family (posit_value sample_posit)) RawUtf8 (as_bytes ''<ab>'') (posit_time sample_posit)"
    by (simp add: sample_payload_def sample_posit_def)
qed (simp_all only: sample_payload_length insertI1)

theorem posit_payload_canonical_witness:
  "wf_posit plain_lib gregorian sample_posit \<and> (\<exists>r.
     posit_record_logical_with_codec (posit_identity sample_posit) (posit_appearances sample_posit)
       (posit_value sample_posit) (posit_time sample_posit) RawUtf8 = Inr r
     \<and> sample_payload = pending_payload r)"
  using posit_payload_canonical [OF gregorian.calendar_codec_axioms sample_payload_length sample_decoded]
  by simp

section \<open>Role and Codec records\<close>

text \<open>Role and Codec payloads are in one-to-one correspondence with the records the program
  holds: a payload decodes to a role exactly if the role is well formed (not the genesis identity,
  a non-empty name in Unicode normal form) and the payload is its encoding, and to a codec exactly
  if it is that codec's encoding.\<close>

theorem role_codec_payloads:
  assumes "length payload < 2 ^ 64"
  shows "(decode_role nfc payload = Inr r \<longleftrightarrow>
      wf_role nfc r \<and> payload = pending_payload
        (role_record_parts (role_identity r) (role_name r) (role_reserved r)))
    \<and> (decode_codec payload = Inr k \<longleftrightarrow> payload = pending_payload (codec_record_of k))"
  using assms decode_role_Inr [of nfc payload r] decode_role_payload [of nfc r]
    decode_codec_Inr [of payload k] decode_codec_payload [of k]
  by (auto simp: role_record_parts_def codec_record_of_def new_record_def)

theorem role_codec_payloads_witness:
  "decode_codec (pending_payload (codec_record_of CanonicalI64)) = Inr CanonicalI64"
  using role_codec_payloads [of "codec_payload CanonicalI64" "\<lambda>s. s" _ CanonicalI64]
    codec_payload_length [of CanonicalI64]
  by (simp add: codec_record_of_def new_record_def)

end
