(* ===== verification/Frames.thy ===== *)
theory Frames
  imports Posit_Records
begin

text \<open>
  The record frames of \<open>src/storage.rs\<close> and the scan of a committed log.  A frame is a sync word,
  version, type, flags, sequence number, LEB128 payload length, payload and a CRC-32C of all of it;
  a batch is a run of frames closed by a Commit frame.  The log is read through a buffered reader,
  here the bytes not yet read.  Offsets and lengths are \<open>nat\<close>, with the 64-bit bound where the
  code checks it.  The callback a scan hands each batch to is a function on a state that may fail.

  \<open>logged\<close> says that bytes are the frames of a list of batches; the scan accepts exactly those
  bytes and hands over exactly those batches.
\<close>

record stored_record =
  rec_type :: u8
  rec_version :: u8
  rec_flags :: u16
  rec_sequence :: u64
  rec_payload :: bytes

definition frame_magic :: bytes where
  "frame_magic = as_bytes ''PTR1''"

definition log_header_len :: nat where
  "log_header_len = 64"

definition max_frame_size :: nat where
  "max_frame_size = 16 * 1024 * 1024"

section \<open>Writing a frame\<close>

definition frame_head :: "stored_record \<Rightarrow> bytes" where
  "frame_head r = frame_magic @ [rec_version r] @ [rec_type r] @ u16_bytes (rec_flags r)
     @ u64_bytes (rec_sequence r) @ encode_uleb128 (word_of_nat (length (rec_payload r)))"

definition encode_frame :: "stored_record \<Rightarrow> bytes result" where
  "encode_frame r =
     (let bs = frame_head r
      in attempt (ok_or (Invariant ''record frame length overflow'')
           (case checked_add_usize (length bs) (length (rec_payload r)) of
              None \<Rightarrow> None | Some len \<Rightarrow> checked_add_usize len 4)) (\<lambda>complete_length.
         if complete_length > max_frame_size
         then Inl (Persistence ''record frame is too large'')
         else let bs = bs @ rec_payload r in Inr (bs @ u32_bytes (crc32c bs))))"

section \<open>Reading a frame\<close>

definition read_exact :: "nat \<Rightarrow> bytes \<Rightarrow> (bytes \<times> bytes) result" where
  "read_exact n src =
     (if n \<le> length src then Inr (take n src, drop n src)
      else Inl (DataCorruption ''truncated frame''))"

fun read_uleb128_loop ::
    "nat list \<Rightarrow> nat \<Rightarrow> u64 \<Rightarrow> bytes \<Rightarrow> bytes \<Rightarrow> (u64 \<times> bytes \<times> bytes) result" where
  "read_uleb128_loop [] index v framed src = corruption ''ULEB128 overflow''"
| "read_uleb128_loop (shift # shifts) index v framed src =
     attempt (read_exact 1 src) (\<lambda>(byte, src).
       let b = byte ! 0; framed = framed @ [b]; part = ucast (b AND 0x7f) :: u64
       in if shift = 63 \<and> part > 1 then corruption ''ULEB128 overflow''
          else let v = v OR push_bit shift part
               in if b AND 0x80 = 0 then
                    (if index > 0 \<and> b = 0 then corruption ''non-canonical ULEB128''
                     else Inr (v, framed, src))
                  else read_uleb128_loop shifts (index + 1) v framed src)"

definition read_uleb128 :: "bytes \<Rightarrow> bytes \<Rightarrow> (u64 \<times> bytes \<times> bytes) result" where
  "read_uleb128 framed src = read_uleb128_loop uleb_shifts 0 0 framed src"

definition read_frame :: "bytes \<Rightarrow> nat \<Rightarrow> nat \<Rightarrow> (stored_record \<times> nat \<times> bytes) result" where
  "read_frame src offset limit =
     attempt (read_exact 16 src) (\<lambda>(prefix, src).
     if take 4 prefix \<noteq> frame_magic then corruption ''record sync word mismatch''
     else
       let version = prefix ! 4; ty = prefix ! 5;
           flags = word_of_nat (le_value (take 2 (drop 6 prefix))) :: u16;
           sequence = word_of_nat (le_value (take 8 (drop 8 prefix))) :: u64
       in if version \<noteq> 1 \<or> flags \<noteq> 0 then corruption ''unsupported frame version/flags''
          else
     attempt (read_uleb128 prefix src) (\<lambda>(n, framed, src).
     let payload_length = unat n
     in attempt (ok_or (DataCorruption ''frame length overflow'')
          (case checked_add_usize (length framed) payload_length of
             None \<Rightarrow> None | Some len \<Rightarrow> checked_add_usize len 4)) (\<lambda>complete_length.
     if complete_length > max_frame_size
        \<or> (case checked_add_usize offset complete_length of
             None \<Rightarrow> True | Some stop \<Rightarrow> \<not> stop \<le> limit)
     then corruption ''invalid frame length''
     else
     attempt (read_exact payload_length src) (\<lambda>(payload, src).
     attempt (read_exact 4 src) (\<lambda>(checksum, src).
     if crc32c (framed @ payload) \<noteq> word_of_nat (le_value checksum)
     then corruption ''record checksum mismatch''
     else Inr (\<lparr>rec_type = ty, rec_version = version, rec_flags = flags, rec_sequence = sequence,
       rec_payload = payload\<rparr>, offset + complete_length, src))))))"

section \<open>The streaming LEB128 reader\<close>

text \<open>It is the slice decoder, started at the cursor after what was framed so far.\<close>

lemma take_byte_split:
  assumes "length (p @ src) < 2 ^ 64"
  shows "take_byte (p @ src) (length p) =
    (case src of [] \<Rightarrow> corruption ''truncated field'' | b # _ \<Rightarrow> Inr (b, length p + 1))"
  using assms
  by (cases src) (auto simp: take_byte_def take_array_def checked_add_usize_def corruption_def)

lemma take_byte_next: "take_byte bs c = Inr (b, c') \<Longrightarrow> c' = c + 1"
  by (auto simp: take_byte_def take_array_def attempt_eq_Inr checked_add_usize_def split: if_splits)

lemma decode_uleb128_loop_progress:
  "decode_uleb128_loop shifts v start bs c = Inr (w, c') \<Longrightarrow> c \<le> c'"
proof (induction shifts v start bs c rule: decode_uleb128_loop.induct)
  case (2 shift shifts v start bs c)
  obtain b d where t: "take_byte bs c = Inr (b, d)"
    using "2.prems" by (cases "take_byte bs c") auto
  then have "d = c + 1" by (rule take_byte_next)
  with "2.IH" [OF t] "2.prems" t show ?case
    by (fastforce simp: Let_def split: if_splits)
qed simp

lemma read_uleb128_loop_decode:
  assumes "length (p @ src) < 2 ^ 64" and "length p = start + index"
  shows "read_uleb128_loop shifts index v framed src = Inr (w, framed', src') \<longleftrightarrow>
    (\<exists>n. decode_uleb128_loop shifts v start (p @ src) (length p) = Inr (w, length p + n)
       \<and> framed' = framed @ take n src \<and> src' = drop n src)"
  using assms
proof (induction shifts arbitrary: index v framed p src)
  case (Cons shift shifts)
  show ?case
  proof (cases src)
    case Nil
    then have "take_byte (p @ src) (length p) = corruption ''truncated field''"
      using take_byte_split [OF Cons.prems(1)] by simp
    with Nil show ?thesis by (simp add: read_exact_def corruption_def)
  next
    case src: (Cons b rest)
    let ?v = "v OR push_bit shift (ucast (b AND 0x7f))"
    have byte: "take_byte (p @ src) (length p) = Inr (b, length p + 1)"
      using take_byte_split [OF Cons.prems(1)] src by simp
    have ix: "length p + 1 - start > 1 \<longleftrightarrow> index > 0" using Cons.prems(2) by simp
    have IH: "read_uleb128_loop shifts (index + 1) ?v (framed @ [b]) rest = Inr (w, framed', src') \<longleftrightarrow>
        (\<exists>n. decode_uleb128_loop shifts ?v start (p @ src) (length p + 1) = Inr (w, length p + 1 + n)
          \<and> framed' = (framed @ [b]) @ take n rest \<and> src' = drop n rest)"
      using Cons.IH [of "p @ [b]" rest "index + 1"] Cons.prems src by simp
    also have "\<dots> \<longleftrightarrow>
        (\<exists>n. decode_uleb128_loop shifts ?v start (p @ src) (length p + 1) = Inr (w, length p + n)
          \<and> framed' = framed @ take n src \<and> src' = drop n src)" (is "?L = ?R")
    proof
      assume ?L
      then obtain n where "decode_uleb128_loop shifts ?v start (p @ src) (length p + 1) = Inr (w, length p + 1 + n)"
        "framed' = (framed @ [b]) @ take n rest" "src' = drop n rest" by blast
      then show ?R by (intro exI [of _ "Suc n"]) (simp add: src)
    next
      assume ?R
      then obtain n where n: "decode_uleb128_loop shifts ?v start (p @ src) (length p + 1) = Inr (w, length p + n)"
        "framed' = framed @ take n src" "src' = drop n src" by blast
      with decode_uleb128_loop_progress [OF n(1)] obtain m where "n = Suc m" by (cases n) auto
      with n show ?L by (intro exI [of _ m]) (simp add: src)
    qed
    finally have IH: "read_uleb128_loop shifts (index + 1) ?v (framed @ [b]) rest = Inr (w, framed', src') \<longleftrightarrow> ?R" .
    have read: "read_exact 1 src = Inr ([b], rest)" by (simp add: read_exact_def src)
    show ?thesis
    proof (cases "b AND 0x80 = 0")
      case True
      then show ?thesis
        using ix unfolding read_uleb128_loop.simps decode_uleb128_loop.simps read byte
        by (auto simp: Let_def src intro: exI [of _ 1])
    next
      case False
      then show ?thesis
        using IH unfolding read_uleb128_loop.simps decode_uleb128_loop.simps read byte
        by (simp add: Let_def)
    qed
  qed
qed simp

lemma read_uleb128_encode:
  assumes "length (encode_uleb128 v @ rest) < 2 ^ 64"
  shows "read_uleb128 framed (encode_uleb128 v @ rest) = Inr (v, framed @ encode_uleb128 v, rest)"
proof -
  have "holds (encode_uleb128 v @ rest) 0 (encode_uleb128 v)" using assms by (simp add: holds_def)
  then have "decode_uleb128_loop uleb_shifts 0 0 ([] @ encode_uleb128 v @ rest) (length []) =
      Inr (v, length [] + length (encode_uleb128 v))"
    using decode_uleb128_holds by (simp add: decode_uleb128_def)
  then show ?thesis
    unfolding read_uleb128_def using assms
    by (subst read_uleb128_loop_decode [where p = "[]" and start = 0])
      (auto intro!: exI [of _ "length (encode_uleb128 v)"])
qed

lemma read_uleb128_Inr:
  assumes "read_uleb128 framed src = Inr (v, framed', src')" and "length src < 2 ^ 64"
  shows "src = encode_uleb128 v @ src' \<and> framed' = framed @ encode_uleb128 v"
proof -
  obtain n where n: "decode_uleb128_loop uleb_shifts 0 0 src 0 = Inr (v, n)"
      "framed' = framed @ take n src" "src' = drop n src"
    using assms read_uleb128_loop_decode [of "[]" src 0 0]
    by (auto simp: read_uleb128_def)
  then have "decode_uleb128 src 0 = Inr (v, n)" by (simp add: decode_uleb128_def)
  from decode_uleb128_Inr [OF this assms(2)]
  have "take n src = encode_uleb128 v" by (auto simp: holds_def)
  with n show ?thesis by (metis append_take_drop_id)
qed

section \<open>Frames round trip\<close>

lemma read_exact_Inr: "read_exact n src = Inr (a, b) \<Longrightarrow> src = a @ b \<and> length a = n"
  by (auto simp: read_exact_def split: if_splits)

lemma length_frame_magic [simp]: "length frame_magic = 4"
  by (simp add: frame_magic_def)

lemma encode_frame_Inr:
  "encode_frame r = Inr f \<longleftrightarrow>
     f = frame_head r @ rec_payload r @ u32_bytes (crc32c (frame_head r @ rec_payload r))
     \<and> length f \<le> max_frame_size"
  by (auto simp: encode_frame_def Let_def attempt_eq_Inr checked_add_usize_def max_frame_size_def
      split: if_splits)

lemma frame_prefix:
  defines "pre v t fl s \<equiv> frame_magic @ [v] @ [t] @ u16_bytes fl @ u64_bytes s"
  shows "length (pre v t fl s) = 16" and "take 4 (pre v t fl s) = frame_magic"
    and "pre v t fl s ! 4 = v" and "pre v t fl s ! 5 = t"
    and "take 2 (drop 6 (pre v t fl s)) = u16_bytes fl"
    and "take 8 (drop 8 (pre v t fl s)) = u64_bytes s"
  by (simp_all add: pre_def nth_append drop_Cons' take_Cons')

lemma read_frame_encoded:
  assumes f: "encode_frame r = Inr f" and "rec_version r = 1" and "rec_flags r = 0"
    and fits: "offset + length f \<le> limit" and "limit < 2 ^ 64" and src: "length (f @ rest) < 2 ^ 64"
  shows "read_frame (f @ rest) offset limit = Inr (r, offset + length f, rest)"
proof -
  let ?pre = "frame_magic @ [rec_version r] @ [rec_type r] @ u16_bytes (rec_flags r)
     @ u64_bytes (rec_sequence r)"
  let ?n = "word_of_nat (length (rec_payload r)) :: u64"
  let ?crc = "crc32c (frame_head r @ rec_payload r)"
  have f_eq: "f @ rest = ?pre @ encode_uleb128 ?n @ rec_payload r @ u32_bytes ?crc @ rest"
    and f_len: "length f = 16 + length (encode_uleb128 ?n) + length (rec_payload r) + 4"
    and small: "length f \<le> max_frame_size"
    using f by (auto simp: encode_frame_Inr frame_head_def)
  have head: "frame_head r = ?pre @ encode_uleb128 ?n" by (simp add: frame_head_def)
  have pre: "length ?pre = 16" by simp
  have n: "unat ?n = length (rec_payload r)"
    using src f_len by (intro unat_of_nat_u64) simp
  have r1: "read_exact 16 (f @ rest) =
      Inr (?pre, encode_uleb128 ?n @ rec_payload r @ u32_bytes ?crc @ rest)"
    unfolding f_eq read_exact_def using pre by (simp del: append_assoc add: append_assoc [symmetric])
  have r2: "read_uleb128 ?pre (encode_uleb128 ?n @ rec_payload r @ u32_bytes ?crc @ rest) =
      Inr (?n, frame_head r, rec_payload r @ u32_bytes ?crc @ rest)"
    unfolding head using src f_len by (intro read_uleb128_encode) (simp add: f_eq)
  have r3: "read_exact (length (rec_payload r)) (rec_payload r @ u32_bytes ?crc @ rest) =
      Inr (rec_payload r, u32_bytes ?crc @ rest)"
    and r4: "read_exact 4 (u32_bytes ?crc @ rest) = Inr (u32_bytes ?crc, rest)"
    by (simp_all add: read_exact_def)
  have len: "(case checked_add_usize (length (frame_head r)) (length (rec_payload r)) of
      None \<Rightarrow> None | Some len \<Rightarrow> checked_add_usize len 4) = Some (length f)"
    using f_len small by (simp add: head checked_add_usize_def max_frame_size_def)
  have stop: "checked_add_usize offset (length f) = Some (offset + length f)"
    using fits \<open>limit < 2 ^ 64\<close> by (simp add: checked_add_usize_def)
  show ?thesis
    unfolding read_frame_def r1 attempt_Inr prod.case Let_def frame_prefix u16_value u64_value r2 n
      len ok_or_simps stop option.case
    using small fits assms(2,3) by (simp add: r3 r4)
qed

lemma read_frame_Inr:
  assumes run: "read_frame src offset limit = Inr (r, next, rest)" and src: "length src < 2 ^ 64"
  obtains f where "encode_frame r = Inr f" and "src = f @ rest" and "next = offset + length f"
    and "next \<le> limit" and "rec_version r = 1" and "rec_flags r = 0"
proof -
  obtain pre src1 where pre: "read_exact 16 src = Inr (pre, src1)"
    using run by (auto simp: read_frame_def attempt_eq_Inr)
  then have split: "src = pre @ src1" "length pre = 16"
    by (auto simp: read_exact_def split: if_splits)
  define fl where "fl = (word_of_nat (le_value (take 2 (drop 6 pre))) :: u16)"
  define sq where "sq = (word_of_nat (le_value (take 8 (drop 8 pre))) :: u64)"
  obtain n framed src2 where n: "read_uleb128 pre src1 = Inr (n, framed, src2)"
    and head: "take 4 pre = frame_magic" "pre ! 4 = 1" "fl = 0"
    using run pre unfolding read_frame_def Let_def fl_def
    by (auto simp: attempt_eq_Inr split: if_splits)
  note run1 = run [unfolded read_frame_def pre attempt_Inr prod.case Let_def n, folded fl_def sq_def]
  have n2: "src1 = encode_uleb128 n @ src2" "framed = pre @ encode_uleb128 n"
    using read_uleb128_Inr [OF n] split(1) src by auto
  let ?len = "length framed + unat n + 4"
  obtain payload src3 checksum
    where small: "?len \<le> max_frame_size" "offset + ?len \<le> limit"
      and t: "read_exact (unat n) src2 = Inr (payload, src3)" "read_exact 4 src3 = Inr (checksum, rest)"
      and crc: "crc32c (framed @ payload) = word_of_nat (le_value checksum)"
      and r: "r = \<lparr>rec_type = pre ! 5, rec_version = 1, rec_flags = 0, rec_sequence = sq,
        rec_payload = payload\<rparr>" "next = offset + ?len"
    using run1 head
    by (auto simp: attempt_eq_Inr checked_add_usize_def split: if_splits)
  have parts: "src2 = payload @ src3" "length payload = unat n" "src3 = checksum @ rest"
      "length checksum = 4"
    using read_exact_Inr [OF t(1)] read_exact_Inr [OF t(2)] by simp_all
  have "pre = frame_magic @ [1] @ [pre ! 5] @ u16_bytes fl @ u64_bytes sq"
  proof -
    have "pre = take 4 pre @ drop 4 pre" by simp
    moreover have "drop 4 pre = pre ! 4 # drop 5 pre" "drop 5 pre = pre ! 5 # drop 6 pre"
      using Cons_nth_drop_Suc [of 4 pre] Cons_nth_drop_Suc [of 5 pre] split(2) by simp_all
    moreover have "drop 6 pre = take 2 (drop 6 pre) @ drop 8 pre"
      using append_take_drop_id [of 2 "drop 6 pre"] by simp
    moreover have "take 2 (drop 6 pre) = u16_bytes fl" "drop 8 pre = u64_bytes sq"
      using u16_bytes_value [of "take 2 (drop 6 pre)"] u64_bytes_value [of "drop 8 pre"] split(2)
      by (simp_all add: fl_def sq_def)
    ultimately show ?thesis using head by simp
  qed
  then have h: "frame_head r = framed"
    using parts head r n2 by (simp add: frame_head_def)
  have "checksum = u32_bytes (crc32c (framed @ payload))"
    using crc parts(4) u32_bytes_value by metis
  then have "encode_frame r = Inr (framed @ payload @ checksum)"
    using h parts(2,4) small(1) r(1) by (simp add: encode_frame_Inr)
  then show thesis
    using that [of "framed @ payload @ checksum"] split n2 parts r small(2) by simp
qed

section \<open>The scan of a committed log\<close>

record replay_metadata =
  meta_next_sequence :: u64
  meta_next_batch :: u64
  meta_batch_count :: nat

definition first_sequence :: "stored_record list \<Rightarrow> u64" where
  "first_sequence staged = (case staged of [] \<Rightarrow> 0 | r # _ \<Rightarrow> rec_sequence r)"

definition last_sequence :: "stored_record list \<Rightarrow> u64" where
  "last_sequence staged = (if staged = [] then 0 else rec_sequence (last staged))"

definition validate_commit :: "stored_record \<Rightarrow> u64 \<Rightarrow> stored_record list \<Rightarrow> unit result" where
  "validate_commit commit expected_batch staged =
     attempt (take_u64 (rec_payload commit) 0) (\<lambda>(batch, c).
     attempt (take_u64 (rec_payload commit) c) (\<lambda>(first, c).
     attempt (take_u64 (rec_payload commit) c) (\<lambda>(last, c).
     attempt (decode_uleb128 (rec_payload commit) c) (\<lambda>(count, c).
     if c \<noteq> length (rec_payload commit) then corruption ''commit has trailing fields''
     else if batch \<noteq> expected_batch \<or> first \<noteq> first_sequence staged
        \<or> last \<noteq> last_sequence staged \<or> count \<noteq> word_of_nat (length staged)
     then corruption ''invalid Commit''
     else Inr ()))))"

type_synonym 's on_batch = "stored_record list \<Rightarrow> 's \<Rightarrow> 's result"

lemma read_frame_progress:
  "read_frame src offset limit = Inr (r, next, rest) \<Longrightarrow> offset < next \<and> next \<le> limit"
  by (auto simp: read_frame_def attempt_eq_Inr Let_def checked_add_usize_def split: if_splits)

definition is_logical :: "u8 \<Rightarrow> bool" where
  "is_logical t \<longleftrightarrow> t = record_role \<or> t = record_codec \<or> t = record_posit"

text \<open>The state of the loop: the reader, the offset, the sequence and batch expected next, the
  batches counted, the records staged since the last Commit, and the callback's state.\<close>

function scan_loop ::
    "'s on_batch \<Rightarrow> nat \<Rightarrow> bytes \<Rightarrow> nat \<Rightarrow> u64 \<Rightarrow> u64 \<Rightarrow> nat \<Rightarrow> stored_record list \<Rightarrow> 's
       \<Rightarrow> (nat \<times> u64 \<times> u64 \<times> nat \<times> stored_record list \<times> 's) result" where
  "scan_loop on_batch committed src offset sequence batch count staged s =
     (if offset < committed then
        attempt (read_frame src offset committed) (\<lambda>(r, next_offset, src).
        if rec_sequence r \<noteq> sequence then corruption ''record sequence gap''
        else
        attempt (ok_or (Invariant ''record sequence exhausted'') (checked_add_u64 sequence 1))
          (\<lambda>sequence.
        if is_logical (rec_type r) then
          scan_loop on_batch committed src next_offset sequence batch count (staged @ [r]) s
        else if rec_type r = record_commit then
          attempt (validate_commit r batch staged) (\<lambda>_.
          attempt (on_batch staged s) (\<lambda>s.
          attempt (ok_or (Invariant ''batch count exhausted'') (checked_add_usize count 1)) (\<lambda>count.
          attempt (ok_or (Invariant ''batch sequence exhausted'') (checked_add_u64 batch 1)) (\<lambda>batch.
          scan_loop on_batch committed src next_offset sequence batch count [] s))))
        else corruption ''unknown mandatory record type''))
      else Inr (offset, sequence, batch, count, staged, s))"
  by pat_completeness auto
termination
  by (relation "measure (\<lambda>(on_batch, committed, src, offset, _). committed - offset)")
    (auto dest!: read_frame_progress)

declare scan_loop.simps [simp del]

definition scan_committed ::
    "bytes \<Rightarrow> nat \<Rightarrow> 's on_batch \<Rightarrow> 's \<Rightarrow> (replay_metadata \<times> 's) result" where
  "scan_committed log committed on_batch s =
     attempt (scan_loop on_batch committed (drop log_header_len log) log_header_len 1 1 0 [] s)
       (\<lambda>(offset, sequence, batch, count, staged, s).
     if offset \<noteq> committed \<or> staged \<noteq> []
     then corruption ''manifest committed length ends outside a Commit frame''
     else Inr (\<lparr>meta_next_sequence = sequence, meta_next_batch = batch,
       meta_batch_count = count\<rparr>, s))"

section \<open>The bytes of a list of batches\<close>

definition commit_record :: "u64 \<Rightarrow> stored_record list \<Rightarrow> u64 \<Rightarrow> stored_record" where
  "commit_record batch staged sequence =
     \<lparr>rec_type = record_commit, rec_version = 1, rec_flags = 0, rec_sequence = sequence,
      rec_payload = u64_bytes batch @ u64_bytes (first_sequence staged)
        @ u64_bytes (last_sequence staged) @ encode_uleb128 (word_of_nat (length staged))\<rparr>"

text \<open>\<open>framed seq rs bs seq'\<close>: \<open>bs\<close> is the frames of the logical records \<open>rs\<close>, numbered from
  \<open>seq\<close> on, and \<open>seq'\<close> is the number after them.\<close>

inductive framed :: "u64 \<Rightarrow> stored_record list \<Rightarrow> bytes \<Rightarrow> u64 \<Rightarrow> bool" where
  framed_Nil: "framed s [] [] s"
| framed_Cons: "rec_sequence r = s \<Longrightarrow> is_logical (rec_type r) \<Longrightarrow> rec_version r = 1 \<Longrightarrow>
    rec_flags r = 0 \<Longrightarrow> encode_frame r = Inr f \<Longrightarrow> checked_add_u64 s 1 = Some s' \<Longrightarrow>
    framed s' rs bs s'' \<Longrightarrow> framed s (r # rs) (f @ bs) s''"

text \<open>\<open>logged seq batch bss bs seq' batch'\<close>: \<open>bs\<close> is the frames of the batches \<open>bss\<close>, each closed by
  its Commit, numbered from \<open>seq\<close> and \<open>batch\<close> on.\<close>

inductive logged ::
    "u64 \<Rightarrow> u64 \<Rightarrow> stored_record list list \<Rightarrow> bytes \<Rightarrow> u64 \<Rightarrow> u64 \<Rightarrow> bool" where
  logged_Nil: "logged s b [] [] s b"
| logged_Cons: "framed s rs bs s1 \<Longrightarrow> encode_frame (commit_record b rs s1) = Inr f \<Longrightarrow>
    checked_add_u64 s1 1 = Some s2 \<Longrightarrow> checked_add_u64 b 1 = Some b' \<Longrightarrow>
    logged s2 b' bss rest s3 b'' \<Longrightarrow> logged s b (rs # bss) (bs @ f @ rest) s3 b''"

inductive_cases framed_NilE: "framed s [] bs s'"
inductive_cases framed_ConsE: "framed s (r # rs) bs s'"
inductive_cases logged_NilE: "logged s b [] bs s' b'"
inductive_cases logged_ConsE: "logged s b (rs # bss) bs s' b'"

lemma framed_append:
  "framed s xs as s' \<Longrightarrow> framed s' ys bs s'' \<Longrightarrow> framed s (xs @ ys) (as @ bs) s''"
  by (induction rule: framed.induct) (auto intro: framed.intros)

lemma logged_append:
  "logged s b xs as s' b' \<Longrightarrow> logged s' b' ys bs s'' b'' \<Longrightarrow> logged s b (xs @ ys) (as @ bs) s'' b''"
  by (induction rule: logged.induct) (auto intro: logged.intros)

lemma logged_one:
  "framed s rs bs s1 \<Longrightarrow> encode_frame (commit_record b rs s1) = Inr f \<Longrightarrow>
     checked_add_u64 s1 1 = Some s2 \<Longrightarrow> checked_add_u64 b 1 = Some b' \<Longrightarrow>
     logged s b [rs] (bs @ f) s2 b'"
  using logged_Cons [of s rs bs s1 b f s2 b' "[]" "[]" s2 b'] by (simp add: logged_Nil)

section \<open>The scan accepts exactly the logs of batches\<close>

lemma commit_payload_fields:
  "holds p 0 (u64_bytes b @ u64_bytes f @ u64_bytes l @ encode_uleb128 n) \<longleftrightarrow>
     holds p 0 (u64_bytes b) \<and> holds p 8 (u64_bytes f) \<and> holds p 16 (u64_bytes l)
     \<and> holds p 24 (encode_uleb128 n)"
  by (simp add: holds_append)

lemma validate_commit_record: "validate_commit (commit_record b rs s) b rs = Inr ()"
proof -
  let ?n = "word_of_nat (length rs) :: u64"
  let ?p = "rec_payload (commit_record b rs s)"
  have p: "?p = u64_bytes b @ u64_bytes (first_sequence rs) @ u64_bytes (last_sequence rs)
      @ encode_uleb128 ?n"
    by (simp add: commit_record_def)
  then have len: "length ?p = 24 + length (encode_uleb128 ?n)" by simp
  then have "length ?p < 2 ^ 64" using length_encode_uleb128 [of ?n] by simp
  then have "holds ?p 0 ?p" by (rule holds_all)
  then have "holds ?p 0 (u64_bytes b) \<and> holds ?p 8 (u64_bytes (first_sequence rs))
      \<and> holds ?p 16 (u64_bytes (last_sequence rs)) \<and> holds ?p 24 (encode_uleb128 ?n)"
    by (metis p commit_payload_fields)
  then show ?thesis using len by (auto simp: validate_commit_def reader_simps)
qed

lemma validate_commit_Inr:
  assumes "validate_commit r b rs = Inr ()" and "length (rec_payload r) < 2 ^ 64"
    and "rec_type r = record_commit" and "rec_version r = 1" and "rec_flags r = 0"
  shows "r = commit_record b rs (rec_sequence r)"
proof -
  let ?p = "rec_payload r" and ?n = "word_of_nat (length rs) :: u64"
  obtain c1 c2 c3
    where t: "take_u64 ?p 0 = Inr (b, c1)" "take_u64 ?p c1 = Inr (first_sequence rs, c2)"
        "take_u64 ?p c2 = Inr (last_sequence rs, c3)" "decode_uleb128 ?p c3 = Inr (?n, length ?p)"
    using assms(1) by (auto simp: validate_commit_def attempt_eq_Inr split: if_splits)
  note h = take_u64_Inr [OF t(1) assms(2)] take_u64_Inr [OF t(2) assms(2)]
    take_u64_Inr [OF t(3) assms(2)] decode_uleb128_Inr [OF t(4) assms(2)]
  have "?p = u64_bytes b @ u64_bytes (first_sequence rs) @ u64_bytes (last_sequence rs)
      @ encode_uleb128 ?n"
    using h by (intro holds_whole) (auto simp: commit_payload_fields)
  then show ?thesis using assms(3-5) by (cases r) (simp add: commit_record_def)
qed

lemma encode_frame_nonempty: "encode_frame r = Inr f \<Longrightarrow> 20 \<le> length f"
  by (auto simp: encode_frame_Inr frame_head_def)

lemma not_logical_commit [simp]: "\<not> is_logical record_commit"
  by (simp add: is_logical_def record_types)

lemma scan_framed:
  "framed seq rs bs seq' \<Longrightarrow> offset + length bs \<le> committed \<Longrightarrow> committed < 2 ^ 64 \<Longrightarrow>
   length (bs @ rest) < 2 ^ 64 \<Longrightarrow>
     scan_loop ob committed (bs @ rest) offset seq b n staged s =
     scan_loop ob committed rest (offset + length bs) seq' b n (staged @ rs) s"
proof (induction arbitrary: offset staged rule: framed.induct)
  case (framed_Cons r s f s' rs bs s'')
  have "offset < committed" using framed_Cons encode_frame_nonempty [of r f] by simp
  moreover have "read_frame (f @ bs @ rest) offset committed = Inr (r, offset + length f, bs @ rest)"
    using framed_Cons by (intro read_frame_encoded) simp_all
  ultimately show ?case
    using framed_Cons framed_Cons.IH [of "offset + length f" "staged @ [r]"]
    by (subst scan_loop.simps) (simp add: add.assoc)
qed simp

lemma scan_logged:
  "logged seq b bss bs seq' b' \<Longrightarrow> offset + length bs \<le> committed \<Longrightarrow> committed < 2 ^ 64 \<Longrightarrow>
   length (bs @ rest) < 2 ^ 64 \<Longrightarrow> n + length bss < 2 ^ 64 \<Longrightarrow>
     scan_loop ob committed (bs @ rest) offset seq b n [] s =
     attempt (try_fold ob bss s)
       (scan_loop ob committed rest (offset + length bs) seq' b' (n + length bss) [])"
proof (induction arbitrary: offset n s rule: logged.induct)
  case (logged_Cons sq rs bs s1 b f s2 b' bss tail s3 b'')
  let ?at = "offset + length bs"
  have lt: "?at < committed" using logged_Cons encode_frame_nonempty [of _ f] by fastforce
  have read: "read_frame (f @ tail @ rest) ?at committed =
      Inr (commit_record b rs s1, ?at + length f, tail @ rest)"
    using logged_Cons by (intro read_frame_encoded) (simp_all add: commit_record_def)
  have "scan_loop ob committed ((bs @ f @ tail) @ rest) offset sq b n [] s =
      scan_loop ob committed (f @ tail @ rest) ?at s1 b n rs s"
    using scan_framed [OF logged_Cons.hyps(1), of offset committed "f @ tail @ rest" ob b n "[]" s]
      logged_Cons.prems by simp
  also have "\<dots> = attempt (ob rs s) (\<lambda>s. scan_loop ob committed (tail @ rest) (?at + length f) s2 b'
      (n + 1) [] s)"
    using lt read logged_Cons.hyps logged_Cons.prems validate_commit_record [of b rs s1]
    by (subst scan_loop.simps) (simp add: commit_record_def)
  also have "\<dots> = attempt (ob rs s) (\<lambda>s. attempt (try_fold ob bss s)
      (scan_loop ob committed rest (?at + length f + length tail) s3 b'' (n + 1 + length bss) []))"
    using logged_Cons.IH [of "?at + length f" "n + 1"] logged_Cons.prems by simp
  finally show ?case by (cases "ob rs s") (simp_all add: ac_simps)
qed (cases "try_fold ob [] s"; simp)

lemma read_frame_payload_bound:
  "read_frame src offset limit = Inr (r, next, rest) \<Longrightarrow> length src < 2 ^ 64 \<Longrightarrow>
     length (rec_payload r) < 2 ^ 64 \<and> length rest < 2 ^ 64"
  using read_frame_Inr [of src offset limit r "next" rest] by (fastforce simp: encode_frame_Inr)

lemma scan_loop_Inr:
  assumes "scan_loop ob committed src offset seq b n staged s = Inr (stop, seq', b', n', [], s')"
    and "length src < 2 ^ 64" and "framed s0 staged pb seq"
  shows "\<exists>bs bss rest. src = bs @ rest \<and> stop = offset + length bs
    \<and> logged s0 b bss (pb @ bs) seq' b' \<and> n' = n + length bss \<and> try_fold ob bss s = Inr s'"
  using assms
proof (induction ob committed src offset seq b n staged s arbitrary: s0 pb rule: scan_loop.induct)
  case (1 ob committed src offset seq b n staged s)
  show ?case
  proof (cases "offset < committed")
    case False
    then have *: "stop = offset" "seq' = seq" "b' = b" "n' = n" "staged = []" "s' = s"
      using "1.prems"(1) by (subst (asm) scan_loop.simps; simp)+
    with "1.prems"(3) have "pb = []" "s0 = seq" by (auto elim: framed_NilE)
    with * show ?thesis by (auto intro: exI [of _ "[]"] logged_Nil)
  next
    case True
    note run = "1.prems"(1) [unfolded scan_loop.simps [of ob committed src]]
    obtain r nxt src1 where r: "read_frame src offset committed = Inr (r, nxt, src1)"
      and rs: "rec_sequence r = seq"
      using run True by (auto simp: attempt_eq_Inr split: if_splits)
    obtain seq1 where seq1: "checked_add_u64 seq 1 = Some seq1"
      using run True r rs by (cases "checked_add_u64 seq 1") auto
    obtain f where f: "encode_frame r = Inr f" "src = f @ src1" "nxt = offset + length f"
        "rec_version r = 1" "rec_flags r = 0"
      using read_frame_Inr [OF r "1.prems"(2)] by metis
    have src1: "length src1 < 2 ^ 64" using f(2) "1.prems"(2) by simp
    show ?thesis
    proof (cases "is_logical (rec_type r)")
      case log: True
      have step: "scan_loop ob committed src1 nxt seq1 b n (staged @ [r]) s = Inr (stop, seq', b', n', [], s')"
        using run True r rs seq1 log by simp
      have fr: "framed s0 (staged @ [r]) (pb @ f) seq1"
        using framed_append [OF "1.prems"(3), of "[r]" f seq1] rs log f(1,4,5) seq1
          framed_Cons [of r seq f seq1 "[]" "[]" seq1] framed_Nil by simp
      have "\<not> rec_sequence r \<noteq> seq"
        "ok_or (Invariant ''record sequence exhausted'') (checked_add_u64 seq 1) = Inr seq1"
        using rs seq1 by simp_all
      then obtain bs bss rest where "src1 = bs @ rest" "stop = nxt + length bs"
          "logged s0 b bss ((pb @ f) @ bs) seq' b'" "n' = n + length bss" "try_fold ob bss s = Inr s'"
        using "1.IH"(1) [OF True r refl refl _ _ log step src1 fr] by metis
      then show ?thesis
        using f by (intro exI [of _ "f @ bs"] exI [of _ bss] exI [of _ rest]) simp
    next
      case log: False
      have com: "rec_type r = record_commit" using run True r rs seq1 log by (auto split: if_splits)
      obtain s1 n1 b1 where v: "validate_commit r b staged = Inr ()" and s1: "ob staged s = Inr s1"
        and n1: "checked_add_usize n 1 = Some n1" and b1: "checked_add_u64 b 1 = Some b1"
        and rest: "scan_loop ob committed src1 nxt seq1 b1 n1 [] s1 = Inr (stop, seq', b', n', [], s')"
        using run True r rs seq1 log com by (auto simp: attempt_eq_Inr)
      have c: "r = commit_record b staged seq"
        using validate_commit_Inr [OF v _ com f(4,5)] read_frame_payload_bound [OF r "1.prems"(2)] rs
        by simp
      obtain bs bss tail where t: "src1 = bs @ tail" "stop = nxt + length bs"
          "logged seq1 b1 bss bs seq' b'" "n' = n1 + length bss" "try_fold ob bss s1 = Inr s'"
      proof -
        have "\<not> rec_sequence r \<noteq> seq"
          "ok_or (Invariant ''record sequence exhausted'') (checked_add_u64 seq 1) = Inr seq1"
          "ok_or (Invariant ''batch count exhausted'') (checked_add_usize n 1) = Inr n1"
          "ok_or (Invariant ''batch sequence exhausted'') (checked_add_u64 b 1) = Inr b1"
          using rs seq1 n1 b1 by simp_all
        from "1.IH"(2) [OF True r refl refl this(1,2) log com v s1 this(3,4) rest src1 framed_Nil] that
        show ?thesis by (metis append_Nil)
      qed
      have "logged s0 b (staged # bss) (pb @ f @ bs) seq' b'"
        using logged_Cons [OF "1.prems"(3) _ seq1 b1 t(3)] f(1) c by simp
      moreover have "n' = n + length (staged # bss)"
        using n1 t(4) by (simp add: checked_add_usize_def split: if_splits)
      ultimately show ?thesis
        using f t s1 by (intro exI [of _ "f @ bs"] exI [of _ "staged # bss"] exI [of _ tail]) simp
    qed
  qed
qed

lemma scan_committed_logged:
  assumes "logged 1 1 bss bs seq b" and "log = hdr @ bs @ rest" and "length hdr = log_header_len"
    and "committed = log_header_len + length bs" and "length log < 2 ^ 64" and "length bss < 2 ^ 64"
  shows "scan_committed log committed ob s = attempt (try_fold ob bss s) (\<lambda>s.
    Inr (\<lparr>meta_next_sequence = seq, meta_next_batch = b, meta_batch_count = length bss\<rparr>, s))"
proof -
  have "drop log_header_len log = bs @ rest" using assms(2,3) by simp
  moreover have "scan_loop ob committed (bs @ rest) log_header_len 1 1 0 [] s =
      attempt (try_fold ob bss s) (scan_loop ob committed rest committed seq b (length bss) [])"
    using scan_logged [OF assms(1), of log_header_len committed rest 0 ob s] assms(2-6) by simp
  moreover have "scan_loop ob committed rest committed seq b (length bss) [] s' =
      Inr (committed, seq, b, length bss, [], s')" for s'
    by (subst scan_loop.simps) simp
  ultimately show ?thesis
    by (cases "try_fold ob bss s") (simp_all add: scan_committed_def)
qed

lemma scan_committed_Inr:
  assumes "scan_committed log committed ob s = Inr (m, s')" and "length log < 2 ^ 64"
    and "log_header_len \<le> length log"
  obtains bs bss rest where "log = take log_header_len log @ bs @ rest"
    and "committed = log_header_len + length bs"
    and "logged 1 1 bss bs (meta_next_sequence m) (meta_next_batch m)"
    and "meta_batch_count m = length bss" and "try_fold ob bss s = Inr s'"
proof -
  obtain seq b n where loop: "scan_loop ob committed (drop log_header_len log) log_header_len 1 1 0 [] s =
      Inr (committed, seq, b, n, [], s')"
    and m: "m = \<lparr>meta_next_sequence = seq, meta_next_batch = b, meta_batch_count = n\<rparr>"
    using assms(1) by (auto simp: scan_committed_def attempt_eq_Inr split: if_splits)
  from scan_loop_Inr [OF loop _ framed_Nil] assms(2) obtain bs bss rest
    where "drop log_header_len log = bs @ rest" "committed = log_header_len + length bs"
      "logged 1 1 bss ([] @ bs) seq b" "n = 0 + length bss" "try_fold ob bss s = Inr s'"
    by fastforce
  then show thesis
    using that [of bs rest bss] append_take_drop_id [of log_header_len log] by (simp add: m)
qed

lemma logged_length: "logged s b bss bs s' b' \<Longrightarrow> length bss \<le> length bs"
  by (induction rule: logged.induct) (auto dest!: encode_frame_nonempty)

definition collect_batch :: "stored_record list list on_batch" where
  "collect_batch batch acc = Inr (acc @ [batch])"

lemma try_fold_collect [simp]: "try_fold collect_batch bss acc = Inr (acc @ bss)"
  by (induction bss arbitrary: acc) (simp_all add: collect_batch_def)

section \<open>Properties\<close>

text \<open>C20: scanning a committed log succeeds exactly if the bytes up to the committed length are the
  frames of some list of batches, with consecutive record and batch numbers and every batch closed
  by its Commit; it then hands over those batches in order and returns the next numbers.  What lies
  beyond the committed length does not matter.\<close>

theorem scan_accepts_exactly_batches:
  assumes "length log < 2 ^ 64" and "log_header_len \<le> committed" and "committed \<le> length log"
  shows "scan_committed log committed collect_batch [] = Inr (m, bss) \<longleftrightarrow>
    logged 1 1 bss (take (committed - log_header_len) (drop log_header_len log))
      (meta_next_sequence m) (meta_next_batch m)
    \<and> meta_batch_count m = length bss"
proof
  assume "scan_committed log committed collect_batch [] = Inr (m, bss)"
  then obtain bs bss' rest where "log = take log_header_len log @ bs @ rest"
      "committed = log_header_len + length bs"
      "logged 1 1 bss' bs (meta_next_sequence m) (meta_next_batch m)"
      "meta_batch_count m = length bss'" "try_fold collect_batch bss' [] = Inr bss"
    by (rule scan_committed_Inr) (use assms in auto)
  moreover from this(1) have "drop log_header_len log = bs @ rest"
    using assms by (metis append_take_drop_id same_append_eq)
  ultimately show "logged 1 1 bss (take (committed - log_header_len) (drop log_header_len log))
      (meta_next_sequence m) (meta_next_batch m) \<and> meta_batch_count m = length bss"
    by simp
next
  let ?bs = "take (committed - log_header_len) (drop log_header_len log)"
  assume r: "logged 1 1 bss ?bs (meta_next_sequence m) (meta_next_batch m)
    \<and> meta_batch_count m = length bss"
  have len: "length ?bs = committed - log_header_len" using assms by simp
  have "length bss < 2 ^ 64"
    using logged_length [of 1 1 bss ?bs] r len assms by fastforce
  then show "scan_committed log committed collect_batch [] = Inr (m, bss)"
    using r assms len
    by (subst scan_committed_logged [where bs = ?bs and hdr = "take log_header_len log"
          and rest = "drop committed log"])
      (auto simp: log_header_len_def append_assoc [symmetric] take_add [symmetric] simp del: append_assoc)
qed

text \<open>C26: if one byte of a frame is changed, no reader takes the result for a frame of that length;
  in particular a damaged payload, type, sequence number or checksum is always noticed.\<close>

theorem damaged_frame_rejected:
  assumes "encode_frame r = Inr f" and "i < length f" and "length (f @ rest) < 2 ^ 64"
    and "b \<noteq> f ! i"
  shows "read_frame (f[i := b] @ rest) offset limit \<noteq> Inr (r', offset + length f, rest')"
proof
  assume read: "read_frame (f[i := b] @ rest) offset limit = Inr (r', offset + length f, rest')"
  obtain g where g: "encode_frame r' = Inr g" and s: "f[i := b] @ rest = g @ rest'"
      and len: "length g = length f"
    using read_frame_Inr [OF read] assms(3) by auto
  have gf: "g = f[i := b]" using s len by (simp add: append_eq_append_conv)
  obtain a c where a: "f = a @ u32_bytes (crc32c a)" and c: "g = c @ u32_bytes (crc32c c)"
    using assms(1) g by (auto simp: encode_frame_Inr) (metis append_assoc)+
  have la: "length a = length c" using a c len by (metis length_append add_right_cancel length_int_bytes(2))
  show False
  proof (cases "i < length a")
    case True
    then have "f[i := b] = a[i := b] @ u32_bytes (crc32c a)" by (simp add: a list_update_append)
    then have "c @ u32_bytes (crc32c c) = a[i := b] @ u32_bytes (crc32c a)" using gf c by metis
    then have ca: "c = a[i := b] \<and> u32_bytes (crc32c c) = u32_bytes (crc32c a)"
      using append_eq_append_conv [of c "a[i := b]"] la by (metis length_list_update)
    then have "crc32c a = crc32c (a[i := b])" by (metis u32_value)
    moreover have "a = take i a @ a ! i # drop (Suc i) a" "a[i := b] = take i a @ b # drop (Suc i) a"
      using True by (simp_all add: id_take_nth_drop upd_conv_take_nth_drop)
    ultimately have "a ! i = b" by (metis crc32c_one_byte)
    then show ?thesis using True assms(4) by (simp add: a nth_append)
  next
    case False
    then have "f[i := b] = a @ (u32_bytes (crc32c a))[i - length a := b]"
      by (simp add: a list_update_append)
    then have "c = a" using gf c la by (simp add: append_eq_append_conv)
    then have "f[i := b] = f" using gf c a by simp
    then show ?thesis using assms(2,4) by (metis nth_list_update_eq)
  qed
qed

definition sample_record :: stored_record where
  "sample_record = \<lparr>rec_type = record_codec, rec_version = 1, rec_flags = 0, rec_sequence = 1,
     rec_payload = codec_payload RawUtf8\<rparr>"

lemma encode_frame_ok:
  assumes "length (rec_payload r) \<le> max_frame_size - 30"
  shows "encode_frame r =
    Inr (frame_head r @ rec_payload r @ u32_bytes (crc32c (frame_head r @ rec_payload r)))"
  using assms length_encode_uleb128 [of "word_of_nat (length (rec_payload r))"]
  by (simp add: encode_frame_Inr frame_head_def max_frame_size_def)

lemma sample_payload_small: "length (rec_payload sample_record) \<le> 100"
  by (simp add: sample_record_def codec_payload_def length_encode_text encode_uleb128_small)

lemma sample_logged: "\<exists>bs. logged 1 1 [[sample_record]] bs 3 2 \<and> length bs \<le> 1000"
proof -
  let ?c = "commit_record 1 [sample_record] 2"
  have c: "length (rec_payload ?c) \<le> 100"
    using length_encode_uleb128 [of "word_of_nat 1"] by (simp add: commit_record_def)
  obtain f g where f: "encode_frame sample_record = Inr f" "length f \<le> 200"
    and g: "encode_frame ?c = Inr g" "length g \<le> 200"
    using encode_frame_ok [of sample_record] encode_frame_ok [of ?c] sample_payload_small c
      length_encode_uleb128 [of "word_of_nat (length (rec_payload sample_record))"]
      length_encode_uleb128 [of "word_of_nat (length (rec_payload ?c))"]
    by (simp add: max_frame_size_def frame_head_def)
  have "framed 1 [sample_record] (f @ []) 2"
    by (rule framed_Cons [OF _ _ _ _ f(1) _ framed_Nil])
      (simp_all add: sample_record_def is_logical_def checked_add_u64_def)
  then have "logged 1 1 [[sample_record]] ((f @ []) @ g) 3 2"
    using g(1) by (rule logged_one) (simp_all add: checked_add_u64_def)
  then show ?thesis using f(2) g(2) by (intro exI [of _ "(f @ []) @ g"]) simp
qed

theorem scan_accepts_exactly_batches_witness:
  "\<exists>log committed. scan_committed log committed collect_batch [] =
     Inr (\<lparr>meta_next_sequence = 3, meta_next_batch = 2, meta_batch_count = 1\<rparr>, [[sample_record]])"
proof -
  obtain bs where bs: "logged 1 1 [[sample_record]] bs 3 2" "length bs \<le> 1000"
    using sample_logged by blast
  let ?log = "replicate 64 0 @ bs"
  have "scan_committed ?log (length ?log) collect_batch [] =
      Inr (\<lparr>meta_next_sequence = 3, meta_next_batch = 2, meta_batch_count = 1\<rparr>, [[sample_record]])"
    using scan_accepts_exactly_batches [of ?log "length ?log"
        "\<lparr>meta_next_sequence = 3, meta_next_batch = 2, meta_batch_count = 1\<rparr>" "[[sample_record]]"] bs
    by (simp add: log_header_len_def)
  then show ?thesis by blast
qed

theorem damaged_frame_rejected_witness:
  "\<exists>f. encode_frame sample_record = Inr f
     \<and> (\<forall>b r'. b \<noteq> f ! 5 \<longrightarrow> read_frame (f[5 := b]) 64 1000 \<noteq> Inr (r', 64 + length f, []))"
proof -
  obtain f where f: "encode_frame sample_record = Inr f"
    using encode_frame_ok [of sample_record] sample_payload_small by (simp add: max_frame_size_def)
  then have "20 \<le> length f" "length f < 2 ^ 64"
    using encode_frame_nonempty by (auto simp: encode_frame_Inr max_frame_size_def)
  then show ?thesis
    using damaged_frame_rejected [OF f, of 5 "[]"] f by auto
qed

end
