(* ===== verification/Store.thy ===== *)
theory Store
  imports Frames
begin

text \<open>
  The store files of \<open>src/storage.rs\<close>: the manifest, the log header, opening and initialising a
  store, appending a batch, the in-memory store, snapshots and backup.

  The disk holds the contents of the three files the code writes.  Operating-system failures and
  crashes are an argument, \<open>io_fault\<close>: it says at which call the operation fails and what that
  call leaves behind.  A write that fails or is cut short leaves arbitrary bytes in the part of the
  file it writes and nothing else; a rename is atomic.  The disk of a crash is the disk of the
  corresponding failure.  The store lock is an argument (whether it was free).
\<close>

section \<open>The manifest\<close>

record manifest =
  store_uuid :: bytes
  committed_length :: u64

definition manifest_magic :: bytes where "manifest_magic = as_bytes ''POSITPMF''"
definition log_magic :: bytes where "log_magic = as_bytes ''POSITLOG''"
definition log_name :: string where "log_name = ''log-0000000000000001.ptl''"
definition format_major :: u16 where "format_major = 1"
definition format_minor :: u16 where "format_minor = 0"
definition manifest_header_len :: u32 where "manifest_header_len = 48"

definition manifest_body :: "manifest \<Rightarrow> bytes" where
  "manifest_body m =
     manifest_magic @ u16_bytes format_major @ u16_bytes format_minor
     @ u32_bytes manifest_header_len @ store_uuid m @ u64_bytes 0 @ u64_bytes 0
     @ encode_uleb128 1 @ encode_text log_name @ u64_bytes 1 @ [0] @ u64_bytes (committed_length m)"

definition encode_manifest :: "manifest \<Rightarrow> bytes" where
  "encode_manifest m = (let bs = manifest_body m in bs @ u32_bytes (crc32c bs))"

definition read_manifest :: "bytes \<Rightarrow> manifest result" where
  "read_manifest bs =
     (if length bs < unat manifest_header_len + 4 then corruption ''manifest is truncated''
      else
        let checksum_offset = length bs - 4;
            stored_checksum = word_of_nat (le_value (drop checksum_offset bs))
        in if crc32c (take checksum_offset bs) \<noteq> stored_checksum
           then corruption ''manifest checksum mismatch''
           else
     attempt (expect_bytes bs 0 manifest_magic) (\<lambda>(_, c).
     attempt (expect_u16 bs c format_major) (\<lambda>(_, c).
     attempt (expect_u16 bs c format_minor) (\<lambda>(_, c).
     attempt (expect_u32 bs c manifest_header_len) (\<lambda>(_, c).
     attempt (take_array 16 bs c) (\<lambda>(uuid, c).
     attempt (expect_u64 bs c 0) (\<lambda>(_, c).
     attempt (expect_u64 bs c 0) (\<lambda>(_, c).
     attempt (decode_uleb128 bs c) (\<lambda>(segment_count, c).
     if segment_count \<noteq> 1 then corruption ''v1 implementation requires one log segment''
     else
     attempt (decode_text bs c) (\<lambda>(name, c).
     if name \<noteq> log_name then corruption ''unexpected log segment name''
     else
     attempt (expect_u64 bs c 1) (\<lambda>(_, c).
     attempt (take_byte bs c) (\<lambda>(sealed, c).
     if sealed \<noteq> 0 then corruption ''the only v1 log segment must be active''
     else
     attempt (take_u64 bs c) (\<lambda>(len, c).
     if c \<noteq> checksum_offset then corruption ''manifest has trailing fields''
     else Inr \<lparr>store_uuid = uuid, committed_length = len\<rparr>)))))))))))))"

lemma uleb_one: "encode_uleb128 1 = [1]"
  using encode_uleb128_small [of 1] by simp

lemma wf_log_name: "wf_string log_name"
  by (rule wf_string_ascii) (simp add: log_name_def)

lemma length_log_name: "length (encode_text log_name) = 25"
  by (simp add: length_encode_text log_name_def encode_uleb128_small)

lemma length_magic [simp]: "length manifest_magic = 8" "length log_magic = 8"
  by (simp_all add: manifest_magic_def log_magic_def)

lemma manifest_body_length: "length (store_uuid m) = 16 \<Longrightarrow> length (manifest_body m) = 91"
  by (simp add: manifest_body_def length_log_name uleb_one)

lemma manifest_fields:
  assumes "length (store_uuid m) = 16"
  shows "holds p 0 (manifest_body m) \<longleftrightarrow>
    holds p 0 manifest_magic \<and> holds p 8 (u16_bytes format_major)
    \<and> holds p 10 (u16_bytes format_minor) \<and> holds p 12 (u32_bytes manifest_header_len)
    \<and> holds p 16 (store_uuid m) \<and> holds p 32 (u64_bytes 0) \<and> holds p 40 (u64_bytes 0)
    \<and> holds p 48 (encode_uleb128 1) \<and> holds p 49 (encode_text log_name)
    \<and> holds p 74 (u64_bytes 1) \<and> holds p 82 [0] \<and> holds p 83 (u64_bytes (committed_length m))"
  unfolding manifest_body_def
  using assms length_log_name
  by (simp add: holds_append uleb_one del: append_Cons append.simps)

lemma read_encode_manifest:
  assumes "length (store_uuid m) = 16"
  shows "read_manifest (encode_manifest m) = Inr m"
proof -
  let ?p = "encode_manifest m" and ?b = "manifest_body m"
  have p: "?p = ?b @ u32_bytes (crc32c ?b)" by (simp add: encode_manifest_def Let_def)
  have len: "length ?b = 91" "length ?p = 95" using assms p by (simp_all add: manifest_body_length)
  have h: "holds ?p 0 ?b" using len p by (simp add: holds_def)
  have crc: "word_of_nat (le_value (drop 91 ?p)) = crc32c (take 91 ?p)"
    using len(1) by (simp add: p)
  have u: "take_array 16 ?p 16 = Inr (store_uuid m, 32)"
    using h assms take_array_holds [of ?p 16 "store_uuid m" 16] by (simp add: manifest_fields)
  have one: "decode_uleb128 ?p 48 = Inr (1, 49)"
    using h decode_uleb128_holds [of ?p 48 1] uleb_one by (simp add: manifest_fields [OF assms])
  show ?thesis
    using h [unfolded manifest_fields [OF assms]] u one crc len length_log_name wf_log_name
    by (auto simp: read_manifest_def reader_simps manifest_header_len_def)
qed

text \<open>The converse needs what the \<open>expect\<close> readers say of the bytes.\<close>

lemma expect_Inr:
  assumes "length bs < 2 ^ 64"
  shows "expect_bytes bs c xs = Inr (u, c') \<Longrightarrow> holds bs c xs \<and> c' = c + length xs"
    and "expect_u16 bs c h = Inr (u, c') \<Longrightarrow> holds bs c (u16_bytes h) \<and> c' = c + 2"
    and "expect_u32 bs c w = Inr (u, c') \<Longrightarrow> holds bs c (u32_bytes w) \<and> c' = c + 4"
    and "expect_u64 bs c d = Inr (u, c') \<Longrightarrow> holds bs c (u64_bytes d) \<and> c' = c + 8"
proof -
  show "expect_bytes bs c xs = Inr (u, c') \<Longrightarrow> holds bs c xs \<and> c' = c + length xs"
    using assms by (auto simp: expect_bytes_def checked_add_usize_def holds_def split: if_splits)
  show "expect_u16 bs c h = Inr (u, c') \<Longrightarrow> holds bs c (u16_bytes h) \<and> c' = c + 2"
    using take_u16_Inr [of bs c h c'] assms
    by (auto simp: expect_u16_def take_u16_def attempt_eq_Inr split: if_splits)
  show "expect_u32 bs c w = Inr (u, c') \<Longrightarrow> holds bs c (u32_bytes w) \<and> c' = c + 4"
    using take_u32_Inr [of bs c w c'] assms
    by (auto simp: expect_u32_def take_u32_def attempt_eq_Inr split: if_splits)
  show "expect_u64 bs c d = Inr (u, c') \<Longrightarrow> holds bs c (u64_bytes d) \<and> c' = c + 8"
    using take_u64_Inr [of bs c d c'] assms
    by (auto simp: expect_u64_def attempt_eq_Inr split: if_splits)
qed

lemma read_manifest_Inr:
  assumes run: "read_manifest bs = Inr m" and len: "length bs < 2 ^ 64"
  shows "bs = encode_manifest m \<and> length (store_uuid m) = 16"
proof -
  obtain c1 c2 c3 c4 c5 c6 c7 c8 c9 c10 c11 uuid cl
    where long: "52 \<le> length bs"
      and crc: "crc32c (take (length bs - 4) bs) = word_of_nat (le_value (drop (length bs - 4) bs))"
      and t: "expect_bytes bs 0 manifest_magic = Inr ((), c1)" "expect_u16 bs c1 format_major = Inr ((), c2)"
        "expect_u16 bs c2 format_minor = Inr ((), c3)" "expect_u32 bs c3 manifest_header_len = Inr ((), c4)"
        "take_array 16 bs c4 = Inr (uuid, c5)" "expect_u64 bs c5 0 = Inr ((), c6)"
        "expect_u64 bs c6 0 = Inr ((), c7)" "decode_uleb128 bs c7 = Inr (1, c8)"
        "decode_text bs c8 = Inr (log_name, c9)" "expect_u64 bs c9 1 = Inr ((), c10)"
        "take_byte bs c10 = Inr (0, c11)" "take_u64 bs c11 = Inr (cl, length bs - 4)"
      and m: "m = \<lparr>store_uuid = uuid, committed_length = cl\<rparr>"
    using run unfolding read_manifest_def Let_def manifest_header_len_def
    by (auto simp: attempt_eq_Inr split: if_splits)
  note h = expect_Inr(1) [OF len t(1)] expect_Inr(2) [OF len t(2)] expect_Inr(2) [OF len t(3)]
    expect_Inr(3) [OF len t(4)] take_array_Inr [OF t(5) len] expect_Inr(4) [OF len t(6)]
    expect_Inr(4) [OF len t(7)] decode_uleb128_Inr [OF t(8) len] decode_text_Inr [OF t(9) len]
    expect_Inr(4) [OF len t(10)] take_byte_Inr [OF t(11) len] take_u64_Inr [OF t(12) len]
  have uuid: "length (store_uuid m) = 16" using h m by simp
  have "length bs - 4 = 91" using h length_log_name by (auto simp: uleb_one)
  then have total: "length bs = 95" using long by simp
  have "holds bs 0 (manifest_body m)"
    unfolding manifest_fields [OF uuid] using h m length_log_name by (auto simp: uleb_one)
  then have body: "take 91 bs = manifest_body m"
    using manifest_body_length [OF uuid] by (auto simp: holds_def)
  moreover have "drop 91 bs = u32_bytes (crc32c (take 91 bs))"
    using crc total u32_bytes_value [of "drop 91 bs"] by simp
  ultimately have "bs = manifest_body m @ u32_bytes (crc32c (manifest_body m))"
    by (metis append_take_drop_id)
  with uuid show ?thesis by (simp add: encode_manifest_def Let_def)
qed

section \<open>The log header\<close>

definition header_body :: "bytes \<Rightarrow> bytes" where
  "header_body uuid = log_magic @ u16_bytes format_major @ u16_bytes format_minor
     @ u32_bytes (word_of_nat log_header_len) @ uuid @ u64_bytes 1 @ replicate 20 0"

definition encode_log_header :: "bytes \<Rightarrow> bytes" where
  "encode_log_header uuid = (let bs = header_body uuid in bs @ u32_bytes (crc32c bs))"

definition verify_log_header :: "bytes \<Rightarrow> bytes \<Rightarrow> unit result" where
  "verify_log_header log uuid =
     (if length log < log_header_len then Inl (Persistence ''failed to fill whole buffer'')
      else
        let bs = take log_header_len log
        in if take 8 bs \<noteq> log_magic
              \<or> word_of_nat (le_value (take 2 (drop 8 bs))) \<noteq> format_major
              \<or> word_of_nat (le_value (take 2 (drop 10 bs))) \<noteq> format_minor
              \<or> word_of_nat (le_value (take 4 (drop 12 bs))) \<noteq> (word_of_nat log_header_len :: u32)
              \<or> take 16 (drop 16 bs) \<noteq> uuid
              \<or> word_of_nat (le_value (take 8 (drop 32 bs))) \<noteq> (1 :: u64)
              \<or> list_ex (\<lambda>b. b \<noteq> 0) (take 20 (drop 40 bs))
           then corruption ''invalid log header metadata''
           else if crc32c (take 60 bs) \<noteq> word_of_nat (le_value (drop 60 bs))
           then corruption ''log header checksum mismatch''
           else Inr ())"

lemma header_body_length: "length uuid = 16 \<Longrightarrow> length (header_body uuid) = 60"
  by (simp add: header_body_def)

lemma encode_log_header_length: "length uuid = 16 \<Longrightarrow> length (encode_log_header uuid) = log_header_len"
  by (simp add: encode_log_header_def header_body_length log_header_len_def Let_def)

lemma verify_encoded_header:
  assumes "length uuid = 16"
  shows "verify_log_header (encode_log_header uuid @ rest) uuid = Inr ()"
proof -
  let ?h = "encode_log_header uuid"
  have h: "take log_header_len (?h @ rest) = ?h"
    using encode_log_header_length [OF assms] by simp
  have "take 60 ?h = header_body uuid" "drop 60 ?h = u32_bytes (crc32c (header_body uuid))"
    using header_body_length [OF assms] by (simp_all add: encode_log_header_def Let_def)
  moreover have "take 8 ?h = log_magic" "take 2 (drop 8 ?h) = u16_bytes format_major"
      "take 2 (drop 10 ?h) = u16_bytes format_minor"
      "take 4 (drop 12 ?h) = u32_bytes (word_of_nat log_header_len)" "take 16 (drop 16 ?h) = uuid"
      "take 8 (drop 32 ?h) = u64_bytes 1" "take 20 (drop 40 ?h) = replicate 20 0"
    using assms by (simp_all add: encode_log_header_def header_body_def Let_def)
  ultimately show ?thesis
    using encode_log_header_length [OF assms]
    by (simp add: verify_log_header_def h Let_def list_ex_iff)
qed

lemma verify_log_header_Inr:
  assumes "verify_log_header log uuid = Inr ()"
  shows "take log_header_len log = encode_log_header uuid \<and> length uuid = 16"
proof -
  let ?h = "take 64 log"
  have len: "64 \<le> length log" and f: "take 8 ?h = log_magic"
      "word_of_nat (le_value (take 2 (drop 8 ?h))) = format_major"
      "word_of_nat (le_value (take 2 (drop 10 ?h))) = format_minor"
      "word_of_nat (le_value (take 4 (drop 12 ?h))) = (word_of_nat log_header_len :: u32)"
      "take 16 (drop 16 ?h) = uuid" "word_of_nat (le_value (take 8 (drop 32 ?h))) = (1 :: u64)"
      "\<forall>b \<in> set (take 20 (drop 40 ?h)). b = 0"
      "crc32c (take 60 ?h) = word_of_nat (le_value (drop 60 ?h))"
    using assms by (auto simp: verify_log_header_def log_header_len_def Let_def list_ex_iff split: if_splits)
  have l: "length ?h = 64" using len by simp
  have zero: "take 20 (drop 40 ?h) = replicate 20 0"
    using f(7) l replicate_eqI [of "take 20 (drop 40 ?h)" 20 0] by simp
  have "take 60 ?h = header_body uuid"
  proof -
    have cut: "take (a + b) xs = take a xs @ take b (drop a xs)" for a b and xs :: bytes
      by (rule take_add)
    have "take 60 ?h = take 8 ?h @ take 2 (drop 8 ?h) @ take 2 (drop 10 ?h) @ take 4 (drop 12 ?h)
      @ take 16 (drop 16 ?h) @ take 8 (drop 32 ?h) @ take 20 (drop 40 ?h)"
      using cut [of 8 52 ?h] cut [of 2 50 "drop 8 ?h"] cut [of 2 48 "drop 10 ?h"]
        cut [of 4 44 "drop 12 ?h"] cut [of 16 28 "drop 16 ?h"] cut [of 8 20 "drop 32 ?h"] by simp
    moreover have "take 2 (drop 8 ?h) = u16_bytes format_major" "take 2 (drop 10 ?h) = u16_bytes format_minor"
      "take 4 (drop 12 ?h) = u32_bytes (word_of_nat log_header_len)" "take 8 (drop 32 ?h) = u64_bytes 1"
      using u16_bytes_value [of "take 2 (drop 8 ?h)"] u16_bytes_value [of "take 2 (drop 10 ?h)"]
        u32_bytes_value [of "take 4 (drop 12 ?h)"] u64_bytes_value [of "take 8 (drop 32 ?h)"] f l
      by simp_all
    ultimately show ?thesis using f zero by (simp add: header_body_def)
  qed
  moreover have "drop 60 ?h = u32_bytes (crc32c (take 60 ?h))"
    using f(8) l u32_bytes_value [of "drop 60 ?h"] by simp
  ultimately have "?h = header_body uuid @ u32_bytes (crc32c (header_body uuid))"
    by (metis append_take_drop_id)
  moreover have "length uuid = 16" using f(5) l by auto
  ultimately show ?thesis by (simp add: encode_log_header_def log_header_len_def Let_def)
qed

section \<open>The disk\<close>

record disk =
  log_file :: "bytes option"
  manifest_file :: "bytes option"
  next_file :: "bytes option"

text \<open>Where an operation fails: while the log is written or synced (what its tail then holds), while
  \<open>manifest.next\<close> is written or synced (what it then holds, if it exists), at the rename, or at the
  sync of the directory after the rename.\<close>

datatype io_fault =
    No_fault
  | Log_fault bytes
  | Next_fault "bytes option"
  | Rename_fault
  | Sync_fault

definition io_error :: database_error where
  "io_error = Persistence ''I/O error''"

definition write_manifest :: "io_fault \<Rightarrow> manifest \<Rightarrow> disk \<Rightarrow> unit result \<times> disk" where
  "write_manifest fault m d =
     (let bs = encode_manifest m
      in case fault of
           Next_fault contents \<Rightarrow> (Inl io_error, d\<lparr>next_file := contents\<rparr>)
         | Rename_fault \<Rightarrow> (Inl io_error, d\<lparr>next_file := Some bs\<rparr>)
         | Sync_fault \<Rightarrow> (Inl io_error, d\<lparr>manifest_file := Some bs, next_file := None\<rparr>)
         | _ \<Rightarrow> (Inr (), d\<lparr>manifest_file := Some bs, next_file := None\<rparr>))"

definition write_at :: "nat \<Rightarrow> bytes \<Rightarrow> bytes \<Rightarrow> bytes" where
  "write_at offset bs file = take offset file @ bs @ drop (offset + length bs) file"

section \<open>Appending a batch\<close>

record log_store =
  store_disk :: disk
  store_manifest :: manifest
  batch_count :: nat
  next_sequence :: u64
  next_batch :: u64
  poisoned :: bool

definition fail_closed :: database_error where
  "fail_closed = Persistence ''store writer is fail-closed after an earlier uncertain write''"

definition store_record :: "pending_record \<Rightarrow> u64 \<Rightarrow> stored_record" where
  "store_record r sequence =
     \<lparr>rec_type = pending_type r, rec_version = pending_version r, rec_flags = pending_flags r,
      rec_sequence = sequence, rec_payload = pending_payload r\<rparr>"

fun validate_pending_records :: "pending_record list \<Rightarrow> unit result" where
  "validate_pending_records [] = Inr ()"
| "validate_pending_records (r # rs) =
     (if \<not> is_logical (pending_type r) then Inl (Invariant ''unsupported pending record type'')
      else if pending_version r \<noteq> 1 \<or> pending_flags r \<noteq> 0
      then Inl (Invariant ''unsupported record version/flags'')
      else validate_pending_records rs)"

text \<open>The loop over the records: the frames so far, the stored records, the next number.\<close>

fun frame_records ::
    "pending_record list \<Rightarrow> u64 \<Rightarrow> bytes \<Rightarrow> stored_record list
       \<Rightarrow> (bytes \<times> stored_record list \<times> u64) result" where
  "frame_records [] sequence out stored = Inr (out, stored, sequence)"
| "frame_records (r # rs) sequence out stored =
     attempt (encode_frame (store_record r sequence)) (\<lambda>f.
     attempt (ok_or (Invariant ''record sequence exhausted'') (checked_add_u64 sequence 1)) (\<lambda>next.
     frame_records rs next (out @ f) (stored @ [store_record r sequence])))"

text \<open>The writes of an append, once the batch is framed: the log, then the manifest, then the
  writer's own counters.\<close>

definition commit_frames ::
    "io_fault \<Rightarrow> bytes \<Rightarrow> stored_record list \<Rightarrow> u64 \<Rightarrow> log_store
       \<Rightarrow> stored_record list result \<times> log_store" where
  "commit_frames fault out stored sequence s =
     (let old_length = committed_length (store_manifest s);
          d = store_disk s;
          old_log = (case log_file d of Some log \<Rightarrow> log | None \<Rightarrow> [])
      in case fault of
          Log_fault tail \<Rightarrow>
            (Inl io_error, s\<lparr>poisoned := True,
               store_disk := d\<lparr>log_file := Some (take (unat old_length) old_log @ tail)\<rparr>\<rparr>)
        | _ \<Rightarrow>
     let d = d\<lparr>log_file := Some (write_at (unat old_length) out old_log)\<rparr>;
         s = s\<lparr>store_disk := d\<rparr>
     in attempt_st (ok_or (Invariant ''log length exhausted'')
          (checked_add_u64 old_length (word_of_nat (length out))), s) (\<lambda>new_length s.
     let new_manifest =
           \<lparr>store_uuid = store_uuid (store_manifest s), committed_length = new_length\<rparr>
     in case write_manifest fault new_manifest (store_disk s) of
          (Inl e, d) \<Rightarrow> (Inl e, s\<lparr>poisoned := True, store_disk := d\<rparr>)
        | (Inr _, d) \<Rightarrow>
     let s = s\<lparr>store_disk := d, store_manifest := new_manifest\<rparr>
     in attempt_st (ok_or (Invariant ''record sequence exhausted'') (checked_add_u64 sequence 1), s)
          (\<lambda>sequence s.
     let s = s\<lparr>next_sequence := sequence\<rparr>
     in attempt_st (ok_or (Invariant ''batch sequence exhausted'') (checked_add_u64 (next_batch s) 1), s)
          (\<lambda>batch s.
     let s = s\<lparr>next_batch := batch\<rparr>
     in attempt_st (ok_or (Invariant ''batch count exhausted'') (checked_add_usize (batch_count s) 1), s)
          (\<lambda>count s.
     (Inr stored, s\<lparr>batch_count := count\<rparr>))))))"

definition append_batch ::
    "io_fault \<Rightarrow> pending_record list \<Rightarrow> log_store \<Rightarrow> stored_record list result \<times> log_store" where
  "append_batch fault records s =
     (if poisoned s then (Inl fail_closed, s)
      else
     attempt_st (validate_pending_records records, s) (\<lambda>_ s.
     attempt_st (frame_records records (next_sequence s) [] [], s) (\<lambda>(out, stored, sequence) s.
     attempt_st (encode_frame (commit_record (next_batch s) stored sequence), s) (\<lambda>commit s.
     commit_frames fault (out @ commit) stored sequence s))))"

definition flush_store :: "bool \<Rightarrow> log_store \<Rightarrow> unit result" where
  "flush_store synced s =
     (if poisoned s then Inl fail_closed else if synced then Inr () else Inl io_error)"

section \<open>Opening a store\<close>

text \<open>The two fixed bits of a version 4 UUID.\<close>

definition mark_uuid :: "bytes \<Rightarrow> bytes" where
  "mark_uuid bs = (let bs = bs[6 := (bs ! 6 AND 0x0f) OR 0x40] in bs[8 := (bs ! 8 AND 0x3f) OR 0x80])"

definition initialize_store ::
    "io_fault \<Rightarrow> bytes option \<Rightarrow> disk \<Rightarrow> manifest result \<times> disk" where
  "initialize_store fault random d =
     (case random of
        None \<Rightarrow> (Inl (Persistence ''failed to generate store UUID''), d)
      | Some bytes \<Rightarrow>
     let uuid = mark_uuid bytes
     in if log_file d \<noteq> None then (Inl io_error, d)
        else
     case fault of
       Log_fault tail \<Rightarrow> (Inl io_error, d\<lparr>log_file := Some tail\<rparr>)
     | _ \<Rightarrow>
     let d = d\<lparr>log_file := Some (encode_log_header uuid)\<rparr>;
         m = \<lparr>store_uuid = uuid, committed_length = word_of_nat log_header_len\<rparr>
     in case write_manifest fault m d of
          (Inl e, d) \<Rightarrow> (Inl e, d)
        | (Inr _, d) \<Rightarrow> (Inr m, d))"

text \<open>\<open>open_internal\<close>, for any consumer of the batches.\<close>

definition open_store ::
    "bool \<Rightarrow> io_fault \<Rightarrow> bytes option \<Rightarrow> 's on_batch \<Rightarrow> 's \<Rightarrow> disk
       \<Rightarrow> (log_store \<times> 's) result \<times> disk" where
  "open_store lock_free fault random on_batch st d =
     (if \<not> lock_free then (Inl (Persistence ''store is already owned''), d)
      else
     attempt_st
       (case manifest_file d of
          Some bs \<Rightarrow> (read_manifest bs, d)
        | None \<Rightarrow> initialize_store fault random d) (\<lambda>m d.
     case log_file d of
       None \<Rightarrow> (Inl io_error, d)
     | Some log \<Rightarrow>
     attempt_st (verify_log_header log (store_uuid m), d) (\<lambda>_ d.
     if unat (committed_length m) < log_header_len \<or> unat (committed_length m) > length log
     then (corruption ''manifest committed length is invalid for log length'', d)
     else
     let log = take (unat (committed_length m)) log;
         d = d\<lparr>log_file := Some log\<rparr>
     in attempt_st (scan_committed log (unat (committed_length m)) on_batch st, d) (\<lambda>(meta, st) d.
     (Inr (\<lparr>store_disk = d, store_manifest = m, batch_count = meta_batch_count meta,
        next_sequence = meta_next_sequence meta, next_batch = meta_next_batch meta,
        poisoned = False\<rparr>, st), d)))))"

section \<open>What the disk holds\<close>

text \<open>The disk holds a store with the given identity and batches: the manifest names a committed
  length up to which the log is the header and the frames of those batches.  Anything may follow.\<close>

definition disk_holds :: "disk \<Rightarrow> bytes \<Rightarrow> stored_record list list \<Rightarrow> bool" where
  "disk_holds d uuid bss \<longleftrightarrow> (\<exists>bs tail seq b.
     length uuid = 16
     \<and> log_file d = Some (encode_log_header uuid @ bs @ tail)
     \<and> log_header_len + length bs < 2 ^ 64
     \<and> manifest_file d = Some (encode_manifest
         \<lparr>store_uuid = uuid, committed_length = word_of_nat (log_header_len + length bs)\<rparr>)
     \<and> logged 1 1 bss bs seq b)"

text \<open>A store that may write: its disk holds its batches with nothing after them, and its memory
  agrees with the disk.\<close>

definition store_holds :: "log_store \<Rightarrow> bytes \<Rightarrow> stored_record list list \<Rightarrow> bool" where
  "store_holds s uuid bss \<longleftrightarrow> (\<exists>bs.
     \<not> poisoned s \<and> length uuid = 16
     \<and> log_file (store_disk s) = Some (encode_log_header uuid @ bs)
     \<and> log_header_len + length bs < 2 ^ 64
     \<and> store_manifest s =
         \<lparr>store_uuid = uuid, committed_length = word_of_nat (log_header_len + length bs)\<rparr>
     \<and> manifest_file (store_disk s) = Some (encode_manifest (store_manifest s))
     \<and> logged 1 1 bss bs (next_sequence s) (next_batch s)
     \<and> batch_count s = length bss)"

definition log_fits :: "disk \<Rightarrow> bool" where
  "log_fits d \<longleftrightarrow> (\<forall>log. log_file d = Some log \<longrightarrow> length log < 2 ^ 64)"

lemma store_disk_holds: "store_holds s uuid bss \<Longrightarrow> disk_holds (store_disk s) uuid bss"
  unfolding store_holds_def disk_holds_def by (metis append_Nil2)

fun number_records :: "pending_record list \<Rightarrow> u64 \<Rightarrow> stored_record list" where
  "number_records [] sequence = []"
| "number_records (r # rs) sequence = store_record r sequence # number_records rs (sequence + 1)"

lemma frame_records_Inr:
  "frame_records rs seq out stored = Inr (out', stored', seq') \<Longrightarrow>
     validate_pending_records rs = Inr () \<Longrightarrow>
     \<exists>bs. out' = out @ bs \<and> stored' = stored @ number_records rs seq
       \<and> framed seq (number_records rs seq) bs seq'"
proof (induction rs arbitrary: seq out stored)
  case Nil
  then show ?case by (simp add: framed_Nil)
next
  case (Cons r rs)
  obtain f nxt where f: "encode_frame (store_record r seq) = Inr f" "checked_add_u64 seq 1 = Some nxt"
      and rest: "frame_records rs nxt (out @ f) (stored @ [store_record r seq]) = Inr (out', stored', seq')"
    using Cons.prems(1) by (auto simp: attempt_eq_Inr)
  have v: "is_logical (pending_type r)" "pending_version r = 1" "pending_flags r = 0"
      "validate_pending_records rs = Inr ()"
    using Cons.prems(2) by (auto split: if_splits)
  have n: "nxt = seq + 1" using f(2) by (simp add: checked_add_u64_eq_Some)
  obtain bs where "out' = (out @ f) @ bs" "stored' = (stored @ [store_record r seq]) @ number_records rs nxt"
      "framed nxt (number_records rs nxt) bs seq'"
    using Cons.IH [OF rest v(4)] by blast
  then show ?case
    using f v n framed_Cons [of "store_record r seq" seq f nxt]
    by (intro exI [of _ "f @ bs"]) (simp add: store_record_def)
qed

text \<open>The numbers cannot run out on a log shorter than the address space.\<close>

lemma framed_numbers: "framed s rs bs s' \<Longrightarrow> unat s' = unat s + length rs \<and> length rs \<le> length bs"
  by (induction rule: framed.induct)
    (auto dest!: encode_frame_nonempty unat_checked_add_u64)

lemma logged_numbers:
  "logged s b bss bs s' b' \<Longrightarrow>
     unat s' \<le> unat s + length bs \<and> unat b' = unat b + length bss \<and> 20 * length bss \<le> length bs"
  by (induction rule: logged.induct)
    (auto dest!: encode_frame_nonempty framed_numbers unat_checked_add_u64)

section \<open>Opening what the disk holds\<close>

lemma open_disk_holds:
  assumes "disk_holds d uuid bss" and "log_fits d"
  shows "\<exists>s. store_holds s uuid bss \<and> open_store True fault random ob st d =
    (attempt (try_fold ob bss st) (\<lambda>st. Inr (s, st)), store_disk s)"
proof -
  obtain bs tail seq b where u: "length uuid = 16"
    and log: "log_file d = Some (encode_log_header uuid @ bs @ tail)"
    and len: "log_header_len + length bs < 2 ^ 64"
    and man: "manifest_file d = Some (encode_manifest
      \<lparr>store_uuid = uuid, committed_length = word_of_nat (log_header_len + length bs)\<rparr>)"
    and bss: "logged 1 1 bss bs seq b"
    using assms(1) unfolding disk_holds_def by blast
  let ?n = "log_header_len + length bs"
  let ?log = "encode_log_header uuid @ bs" and ?d = "d\<lparr>log_file := Some (encode_log_header uuid @ bs)\<rparr>"
  let ?m = "\<lparr>store_uuid = uuid, committed_length = word_of_nat ?n\<rparr>"
  let ?s = "\<lparr>store_disk = ?d, store_manifest = ?m, batch_count = length bss,
    next_sequence = seq, next_batch = b, poisoned = False\<rparr>"
  have n: "unat (word_of_nat ?n :: u64) = ?n" using len by (rule unat_of_nat_u64)
  have cut: "take ?n (encode_log_header uuid @ bs @ tail) = ?log"
    using encode_log_header_length [OF u] by simp
  have count: "length bss < 2 ^ 64" using logged_numbers [OF bss] len by linarith
  have scan: "scan_committed ?log ?n ob st = attempt (try_fold ob bss st) (\<lambda>st.
      Inr (\<lparr>meta_next_sequence = seq, meta_next_batch = b, meta_batch_count = length bss\<rparr>, st))"
    by (rule scan_committed_logged [OF bss, where rest = "[]"])
      (use encode_log_header_length [OF u] len count in simp_all)
  have "store_holds ?s uuid bss"
    unfolding store_holds_def using u len man bss by auto
  moreover have "open_store True fault random ob st d =
      (attempt (try_fold ob bss st) (\<lambda>st. Inr (?s, st)), ?d)"
    using read_encode_manifest [of ?m] u n cut scan verify_encoded_header [OF u, of "bs @ tail"]
      encode_log_header_length [OF u] man log
    by (cases "try_fold ob bss st") (simp_all add: open_store_def Let_def)
  ultimately show ?thesis by (intro exI [of _ ?s]) simp
qed

section \<open>Appending keeps the disk a store\<close>

lemma append_poisoned: "poisoned s \<Longrightarrow> append_batch fault rs s = (Inl fail_closed, s)"
  by (simp add: append_batch_def)

lemma commit_frames_cases:
  assumes inv: "store_holds s uuid bss"
    and fr: "framed (next_sequence s) stored out sq"
    and f: "encode_frame (commit_record (next_batch s) stored sq) = Inr f"
    and run: "commit_frames fault (out @ f) stored sq s = (r, s')"
    and fits: "log_fits (store_disk s')"
  obtains e where "r = Inl e" "poisoned s'" "disk_holds (store_disk s') uuid bss" "fault \<noteq> No_fault"
  | e where "r = Inl e" "poisoned s'" "disk_holds (store_disk s') uuid (bss @ [stored])"
      "fault \<noteq> No_fault"
  | "r = Inr stored" "store_holds s' uuid (bss @ [stored])"
proof -
  obtain bs where np: "\<not> poisoned s" and u: "length uuid = 16"
    and log: "log_file (store_disk s) = Some (encode_log_header uuid @ bs)"
    and len: "log_header_len + length bs < 2 ^ 64"
    and m: "store_manifest s =
      \<lparr>store_uuid = uuid, committed_length = word_of_nat (log_header_len + length bs)\<rparr>"
    and man: "manifest_file (store_disk s) = Some (encode_manifest (store_manifest s))"
    and bss: "logged 1 1 bss bs (next_sequence s) (next_batch s)" and cnt: "batch_count s = length bss"
    using inv unfolding store_holds_def by blast
  let ?n = "log_header_len + length bs"
  let ?log = "encode_log_header uuid @ bs"
  have n: "unat (committed_length (store_manifest s)) = ?n"
    unfolding m manifest.simps by (rule unat_of_nat_u64 [OF len])
  have hl: "length (encode_log_header uuid) = log_header_len" by (rule encode_log_header_length [OF u])
  have old: "disk_holds (store_disk s\<lparr>log_file := Some (?log @ tail), next_file := nx\<rparr>) uuid bss" for tail nx
    unfolding disk_holds_def using u len man m bss by auto
  show thesis
  proof (cases "\<exists>tail. fault = Log_fault tail")
    case True
    then obtain tail where "fault = Log_fault tail" by blast
    then have "r = Inl io_error" "poisoned s'"
        "store_disk s' = (store_disk s)\<lparr>log_file := Some (?log @ tail), next_file := next_file (store_disk s)\<rparr>"
      using run log n hl by (auto simp: commit_frames_def)
    then show thesis using that(1) old True by (metis io_fault.distinct(1))
  next
    case False
    have written: "write_at ?n (out @ f) ?log = ?log @ out @ f" using hl by (simp add: write_at_def)
    have "log_file (store_disk s') = Some (?log @ out @ f)"
      using run False log n written
      by (cases fault) (auto simp: commit_frames_def Let_def write_manifest_def attempt_st_def ok_or_def
          split: option.splits)
    then have total: "?n + length (out @ f) < 2 ^ 64"
      using fits hl by (simp add: log_fits_def)
    have nums: "unat (next_sequence s) \<le> 1 + length bs" "unat (next_batch s) = 1 + length bss"
        "20 * length bss \<le> length bs"
      using logged_numbers [OF bss] by simp_all
    have sq: "unat sq = unat (next_sequence s) + length stored" "length stored \<le> length out"
      using framed_numbers [OF fr] by auto
    have f20: "20 \<le> length f" by (rule encode_frame_nonempty [OF f])
    have add_len: "checked_add_u64 (word_of_nat ?n) (word_of_nat (length (out @ f))) =
        Some (word_of_nat (?n + length (out @ f)))"
      using total unat_of_nat_u64 [of ?n] unat_of_nat_u64 [of "length (out @ f)"] len
      unfolding checked_add_u64_def by (simp only: of_nat_add) simp
    obtain sq' b' where sq': "checked_add_u64 sq 1 = Some sq'"
      and b': "checked_add_u64 (next_batch s) 1 = Some b'"
      using nums sq total f20 by (auto simp: checked_add_u64_def)
    have cnt': "checked_add_usize (batch_count s) 1 = Some (length bss + 1)"
      using cnt nums len by (simp add: checked_add_usize_def)
    have new: "logged 1 1 (bss @ [stored]) (bs @ out @ f) sq' b'"
      by (rule logged_append [OF bss logged_one [OF fr f sq' b']])
    let ?m = "\<lparr>store_uuid = uuid, committed_length = word_of_nat (?n + length (out @ f))\<rparr>"
    have new_disk: "disk_holds (store_disk s\<lparr>log_file := Some (?log @ out @ f),
        manifest_file := Some (encode_manifest ?m), next_file := nx\<rparr>) uuid (bss @ [stored])" for nx
      unfolding disk_holds_def using u total new
      by (intro exI [of _ "bs @ out @ f"] exI [of _ "[]"] exI [of _ sq'] exI [of _ b']) (simp add: add.assoc)
    have start: "committed_length (store_manifest s) = word_of_nat ?n"
        "store_uuid (store_manifest s) = uuid" by (simp_all only: m manifest.simps)
    note eval = commit_frames_def Let_def log option.case n [unfolded start] start write_manifest_def
      written add_len [unfolded length_append] ok_or_simps attempt_st_simps prod.case sum.case io_fault.case
    show thesis
    proof (cases fault)
      case No_fault
      have "r = Inr stored \<and> s' = s\<lparr>store_disk := (store_disk s)\<lparr>log_file := Some (?log @ out @ f),
          manifest_file := Some (encode_manifest ?m), next_file := None\<rparr>, store_manifest := ?m,
          next_sequence := sq', next_batch := b', batch_count := length bss + 1\<rparr>"
        using run No_fault sq' b' cnt' by (simp add: eval del: of_nat_add)
      then have r: "r = Inr stored" and s': "s' = s\<lparr>store_disk := (store_disk s)\<lparr>log_file := Some (?log @ out @ f),
          manifest_file := Some (encode_manifest ?m), next_file := None\<rparr>, store_manifest := ?m,
          next_sequence := sq', next_batch := b', batch_count := length bss + 1\<rparr>" by blast+
      have "store_holds s' uuid (bss @ [stored])"
        unfolding store_holds_def s' using np u total new
        by (intro exI [of _ "bs @ out @ f"]) (simp add: add.assoc)
      with r show thesis by (rule that(3))
    next
      case (Next_fault c)
      have "r = Inl io_error \<and> poisoned s' \<and> store_disk s' =
          (store_disk s)\<lparr>log_file := Some (?log @ out @ f), next_file := c\<rparr>"
        using run Next_fault by (auto simp: eval simp del: of_nat_add)
      then show thesis using that(1) old Next_fault by (metis io_fault.distinct)
    next
      case Rename_fault
      have "r = Inl io_error \<and> poisoned s' \<and> store_disk s' =
          (store_disk s)\<lparr>log_file := Some (?log @ out @ f), next_file := Some (encode_manifest ?m)\<rparr>"
        using run Rename_fault by (auto simp: eval simp del: of_nat_add)
      then show thesis using that(1) old Rename_fault by (metis io_fault.distinct)
    next
      case Sync_fault
      have "r = Inl io_error \<and> poisoned s' \<and> store_disk s' =
          (store_disk s)\<lparr>log_file := Some (?log @ out @ f), manifest_file := Some (encode_manifest ?m),
            next_file := None\<rparr>"
        using run Sync_fault by (auto simp: eval simp del: of_nat_add)
      then show thesis using that(2) new_disk Sync_fault by (metis io_fault.distinct)
    qed (use False in blast)
  qed
qed

lemma append_batch_cases:
  assumes inv: "store_holds s uuid bss" and run: "append_batch fault rs s = (r, s')"
    and fits: "log_fits (store_disk s')"
  defines "stored \<equiv> number_records rs (next_sequence s)"
  obtains e where "r = Inl e" "s' = s"
  | e where "r = Inl e" "poisoned s'" "disk_holds (store_disk s') uuid bss"
  | e where "r = Inl e" "poisoned s'" "disk_holds (store_disk s') uuid (bss @ [stored])"
  | "r = Inr stored" "store_holds s' uuid (bss @ [stored])"
proof -
  have np: "poisoned s = False" using inv by (auto simp: store_holds_def)
  show thesis
  proof (cases "validate_pending_records rs")
    case (Inl e)
    with run np that(1) show thesis by (auto simp: append_batch_def)
  next
    case valid: (Inr u0)
    show thesis
    proof (cases "frame_records rs (next_sequence s) [] []")
      case (Inl e)
      with run np valid that(1) show thesis by (auto simp: append_batch_def)
    next
      case (Inr t)
      obtain out st1 sq where t: "t = (out, st1, sq)" by (cases t)
      have fr: "st1 = stored" "framed (next_sequence s) stored out sq"
        using frame_records_Inr [of rs "next_sequence s" "[]" "[]" out st1 sq] Inr t valid
        by (auto simp: stored_def)
      show thesis
      proof (cases "encode_frame (commit_record (next_batch s) stored sq)")
        case (Inl e)
        with run np valid \<open>frame_records rs (next_sequence s) [] [] = Inr t\<close> t fr that(1) show thesis
          by (auto simp: append_batch_def)
      next
        case commit: (Inr f)
        have "commit_frames fault (out @ f) stored sq s = (r, s')"
          using run np valid Inr t fr commit by (simp add: append_batch_def)
        then show thesis
          by (rule commit_frames_cases [OF inv fr(2) commit _ fits]) (use that in metis)+
      qed
    qed
  qed
qed

lemma open_store_Inr:
  assumes run: "open_store True fault random ob st d = (Inr (s, st'), d')"
    and man: "manifest_file d = Some bs" and fits: "log_fits d" and small: "length bs < 2 ^ 64"
  shows "\<exists>uuid bss. disk_holds d uuid bss \<and> store_holds s uuid bss \<and> try_fold ob bss st = Inr st'"
proof -
  obtain m log where m: "read_manifest bs = Inr m" and log: "log_file d = Some log"
    and v: "verify_log_header log (store_uuid m) = Inr ()"
    and bounds: "log_header_len \<le> unat (committed_length m)" "unat (committed_length m) \<le> length log"
    and scan: "\<exists>meta. scan_committed (take (unat (committed_length m)) log)
      (unat (committed_length m)) ob st = Inr (meta, st')"
    using run man unfolding open_store_def Let_def
    by (auto simp: attempt_st_eq_Inr split: option.splits if_splits)
  let ?c = "unat (committed_length m)"
  obtain meta where meta: "scan_committed (take ?c log) ?c ob st = Inr (meta, st')" using scan by blast
  have u: "length (store_uuid m) = 16" and bs: "bs = encode_manifest m"
    using read_manifest_Inr [OF m small] by auto
  have head: "take log_header_len log = encode_log_header (store_uuid m)"
    using verify_log_header_Inr [OF v] by simp
  have len: "length log < 2 ^ 64" using fits log by (simp add: log_fits_def)
  obtain body bss rest where body: "take ?c log = take log_header_len (take ?c log) @ body @ rest"
      "?c = log_header_len + length body"
      "logged 1 1 bss body (meta_next_sequence meta) (meta_next_batch meta)"
      "meta_batch_count meta = length bss" "try_fold ob bss st = Inr st'"
    by (rule scan_committed_Inr [OF meta]) (use len bounds in auto)
  have "length (take ?c log) = log_header_len + length body + length rest"
    using arg_cong [OF body(1), of length] bounds by simp
  then have "rest = []" using body(2) bounds by simp
  then have take_c: "take ?c log = encode_log_header (store_uuid m) @ body"
    using body(1) head bounds by (simp add: min_def)
  have c: "committed_length m = word_of_nat (log_header_len + length body)"
    by (simp add: body(2) [symmetric])
  have m_eq: "m = \<lparr>store_uuid = store_uuid m, committed_length = word_of_nat (log_header_len + length body)\<rparr>"
    using c by (cases m) simp
  have "disk_holds d (store_uuid m) bss"
    unfolding disk_holds_def
    using u log take_c append_take_drop_id [of ?c log] man bs m_eq body(2,3) unat_u64_less [of "committed_length m"]
    by (intro exI [of _ body] exI [of _ "drop ?c log"]) auto
  moreover from open_disk_holds [OF this fits, of fault random ob st] run body(5)
  have "store_holds s (store_uuid m) bss" by auto
  ultimately show ?thesis using body(5) by blast
qed

end
