(* ===== verification/Store_Properties.thy ===== *)
theory Store_Properties
  imports Store
begin

text \<open>
  The contract of a store backend (the trait \<open>StoreBackend\<close> of \<open>src/storage.rs\<close>) as a locale, its
  two implementations, the in-memory store and the log store, and the properties of the store
  files: crash atomicity, failing closed, recovery, initialisation.
\<close>

section \<open>The in-memory store\<close>

record memory_store =
  mem_batches :: "stored_record list list"
  mem_next_sequence :: u64

definition new_memory_store :: memory_store where
  "new_memory_store = \<lparr>mem_batches = [], mem_next_sequence = 1\<rparr>"

fun memory_records ::
    "pending_record list \<Rightarrow> stored_record list \<Rightarrow> memory_store
       \<Rightarrow> stored_record list result \<times> memory_store" where
  "memory_records [] stored s = (Inr stored, s)"
| "memory_records (r # rs) stored s =
     (let stored = stored @ [store_record r (mem_next_sequence s)]
      in attempt_st (ok_or (Invariant ''record sequence exhausted'')
           (checked_add_u64 (mem_next_sequence s) 1), s) (\<lambda>next s.
         memory_records rs stored (s\<lparr>mem_next_sequence := next\<rparr>)))"

definition memory_append ::
    "pending_record list \<Rightarrow> memory_store \<Rightarrow> stored_record list result \<times> memory_store" where
  "memory_append records s =
     attempt_st (validate_pending_records records, s) (\<lambda>_ s.
     attempt_st (memory_records records [] s) (\<lambda>stored s.
     (Inr stored, s\<lparr>mem_batches := mem_batches s @ [stored]\<rparr>)))"

section \<open>The contract of a backend\<close>

text \<open>What a record says apart from its number, and what a store has committed.\<close>

definition record_content :: "stored_record \<Rightarrow> u8 \<times> bytes" where
  "record_content r = (rec_type r, rec_payload r)"

definition pending_content :: "pending_record \<Rightarrow> u8 \<times> bytes" where
  "pending_content r = (pending_type r, pending_payload r)"

locale store_backend =
  fixes usable :: "'b \<Rightarrow> bool"
    and contents :: "'b \<Rightarrow> (u8 \<times> bytes) list list"
    and append :: "pending_record list \<Rightarrow> 'b \<Rightarrow> stored_record list result \<times> 'b"
  assumes append_commits:
      "usable b \<Longrightarrow> append rs b = (Inr stored, b') \<Longrightarrow>
         usable b' \<and> contents b' = contents b @ [map pending_content rs]
         \<and> map record_content stored = map pending_content rs"
    and append_refuses:
      "usable b \<Longrightarrow> append rs b = (Inl e, b') \<Longrightarrow> usable b' \<Longrightarrow> contents b' = contents b"
begin

text \<open>A run of appends that stops at the first failure.\<close>

fun append_all :: "pending_record list list \<Rightarrow> 'b \<Rightarrow> unit result \<times> 'b" where
  "append_all [] b = (Inr (), b)"
| "append_all (rs # rss) b = attempt_st (append rs b) (\<lambda>_ b. append_all rss b)"

text \<open>Whatever a client appended and was told is committed is there, in order; a failure loses
  nothing that was committed.\<close>

lemma append_all_prefix:
  "usable b \<Longrightarrow> append_all rss b = (r, b') \<Longrightarrow> usable b' \<Longrightarrow>
     \<exists>n \<le> length rss. contents b' = contents b @ map (map pending_content) (take n rss)
       \<and> (r = Inr () \<longrightarrow> n = length rss)"
proof (induction rss arbitrary: b)
  case (Cons rs rss)
  obtain r1 b1 where a: "append rs b = (r1, b1)" by fastforce
  show ?case
  proof (cases r1)
    case (Inl e)
    with Cons.prems a have "r = Inl e" "b' = b1" by simp_all
    with append_refuses [of b rs e b1] a Inl Cons.prems show ?thesis
      by (intro exI [of _ 0]) auto
  next
    case (Inr stored)
    with append_commits [of b rs stored b1] a Cons.prems
    have b1: "usable b1" "contents b1 = contents b @ [map pending_content rs]" by auto
    moreover have "append_all rss b1 = (r, b')" using Cons.prems(2) a Inr by simp
    ultimately obtain n where "n \<le> length rss"
      "contents b' = contents b1 @ map (map pending_content) (take n rss)"
      "r = Inr () \<longrightarrow> n = length rss"
      using Cons.IH Cons.prems(3) by blast
    with b1(2) show ?thesis by (intro exI [of _ "Suc n"]) simp
  qed
qed simp

end

section \<open>The in-memory store meets it\<close>

lemma number_records_content:
  "map record_content (number_records rs seq) = map pending_content rs"
  by (induction rs arbitrary: seq) (simp_all add: record_content_def pending_content_def store_record_def)

lemma memory_records_Inr:
  "memory_records rs acc s = (Inr stored, s') \<Longrightarrow>
     stored = acc @ number_records rs (mem_next_sequence s) \<and> mem_batches s' = mem_batches s"
proof (induction rs arbitrary: acc s)
  case (Cons r rs)
  obtain nxt where n: "checked_add_u64 (mem_next_sequence s) 1 = Some nxt"
    using Cons.prems by (cases "checked_add_u64 (mem_next_sequence s) 1") auto
  then have "nxt = mem_next_sequence s + 1" by (simp add: checked_add_u64_eq_Some)
  with Cons.IH Cons.prems n show ?case by fastforce
qed simp

lemma memory_records_Inl:
  "memory_records rs acc s = (Inl e, s') \<Longrightarrow> mem_batches s' = mem_batches s"
proof (induction rs arbitrary: acc s)
  case (Cons r rs)
  then show ?case
    by (cases "checked_add_u64 (mem_next_sequence s) 1") fastforce+
qed simp

definition memory_contents :: "memory_store \<Rightarrow> (u8 \<times> bytes) list list" where
  "memory_contents s = map (map record_content) (mem_batches s)"

interpretation memory: store_backend "\<lambda>_. True" memory_contents memory_append
proof unfold_locales
  fix b rs stored b'
  assume "memory_append rs b = (Inr stored, b')"
  then show "True \<and> memory_contents b' = memory_contents b @ [map pending_content rs]
      \<and> map record_content stored = map pending_content rs"
    by (auto simp: memory_append_def attempt_st_eq_Inr memory_contents_def number_records_content
        dest!: memory_records_Inr)
next
  fix b rs e b'
  assume "memory_append rs b = (Inl e, b')"
  then show "memory_contents b' = memory_contents b"
    by (auto simp: memory_append_def attempt_st_eq_Inl attempt_st_eq_Inr memory_contents_def
        dest: memory_records_Inl)
qed

section \<open>The log store meets it, whatever fails\<close>

text \<open>The committed contents are what a scan of the log recovers.  A log store is usable while it is
  not poisoned and its files are addressable.\<close>

definition log_batches :: "log_store \<Rightarrow> stored_record list list" where
  "log_batches s =
     (case open_store True No_fault None collect_batch [] (store_disk s) of
        (Inr (_, bss), _) \<Rightarrow> bss | _ \<Rightarrow> [])"

definition log_contents :: "log_store \<Rightarrow> (u8 \<times> bytes) list list" where
  "log_contents s = map (map record_content) (log_batches s)"

definition log_usable :: "log_store \<Rightarrow> bool" where
  "log_usable s \<longleftrightarrow> (\<exists>uuid bss. store_holds s uuid bss)"

lemma store_holds_fits:
  assumes "store_holds s uuid bss" shows "log_fits (store_disk s)"
proof -
  obtain bs where "length uuid = 16" "log_file (store_disk s) = Some (encode_log_header uuid @ bs)"
      "log_header_len + length bs < 2 ^ 64"
    using assms by (auto simp: store_holds_def)
  then show ?thesis by (simp add: log_fits_def encode_log_header_length)
qed

lemma log_batches_holds:
  assumes "store_holds s uuid bss"
  shows "log_batches s = bss"
  using open_disk_holds [OF store_disk_holds [OF assms] store_holds_fits [OF assms],
      of No_fault None collect_batch "[]"]
  by (auto simp: log_batches_def)

text \<open>The operating system refuses to let a file outgrow the address space: such a write fails with
  nothing written.\<close>

definition os_fault :: "io_fault \<Rightarrow> pending_record list \<Rightarrow> log_store \<Rightarrow> io_fault" where
  "os_fault fault rs s =
     (if log_fits (store_disk (snd (append_batch fault rs s))) then fault else Log_fault [])"

definition log_append ::
    "io_fault \<Rightarrow> pending_record list \<Rightarrow> log_store \<Rightarrow> stored_record list result \<times> log_store" where
  "log_append fault rs s = append_batch (os_fault fault rs s) rs s"

lemma log_append_fits:
  assumes "store_holds s uuid bss"
  shows "log_fits (store_disk (snd (log_append fault rs s)))"
proof -
  have fits: "log_fits (store_disk s)" using store_holds_fits [OF assms] .
  show ?thesis
  proof (cases "log_fits (store_disk (snd (append_batch fault rs s)))")
    case False
    have "log_fits (store_disk (snd (append_batch (Log_fault []) rs s)))"
      using fits
      by (auto simp: append_batch_def commit_frames_def attempt_st_def log_fits_def Let_def
          split: prod.splits sum.splits option.splits if_splits)
    with False show ?thesis by (simp add: log_append_def os_fault_def)
  qed (simp add: log_append_def os_fault_def)
qed

lemma append_outcome:
  assumes "store_holds s uuid bss" and "append_batch fault rs s = (r, s')"
    and "log_fits (store_disk s')"
  shows "(\<exists>e. r = Inl e \<and> (s' = s \<or> poisoned s'
      \<and> (disk_holds (store_disk s') uuid bss
         \<or> disk_holds (store_disk s') uuid (bss @ [number_records rs (next_sequence s)]))))
    \<or> r = Inr (number_records rs (next_sequence s))
      \<and> store_holds s' uuid (bss @ [number_records rs (next_sequence s)])"
  by (rule append_batch_cases [OF assms]) blast+

lemma log_append_cases:
  assumes "store_holds s uuid bss" and "log_append fault rs s = (r, s')"
  obtains e where "r = Inl e" "s' = s"
  | e where "r = Inl e" "poisoned s'"
  | "r = Inr (number_records rs (next_sequence s))"
    "store_holds s' uuid (bss @ [number_records rs (next_sequence s)])"
proof -
  have "log_fits (store_disk s')" using log_append_fits [OF assms(1), of fault rs] assms(2) by simp
  then show thesis
    using append_outcome [OF assms(1) assms(2) [unfolded log_append_def]] that by blast
qed

interpretation log: store_backend log_usable log_contents "log_append fault" for fault
proof unfold_locales
  fix s rs stored s'
  assume "log_usable s" and run: "log_append fault rs s = (Inr stored, s')"
  then obtain uuid bss where inv: "store_holds s uuid bss" by (auto simp: log_usable_def)
  have "store_holds s' uuid (bss @ [stored]) \<and> stored = number_records rs (next_sequence s)"
    by (rule log_append_cases [OF inv run]) auto
  then show "log_usable s' \<and> log_contents s' = log_contents s @ [map pending_content rs]
      \<and> map record_content stored = map pending_content rs"
    using log_batches_holds inv number_records_content
    by (auto simp: log_usable_def log_contents_def)
next
  fix s rs e s'
  assume "log_usable s" and run: "log_append fault rs s = (Inl e, s')" and u: "log_usable s'"
  then obtain uuid bss where inv: "store_holds s uuid bss" by (auto simp: log_usable_def)
  have "\<not> poisoned s'" using u by (auto simp: log_usable_def store_holds_def)
  then have "s' = s" by (rule_tac log_append_cases [OF inv run]) auto
  then show "log_contents s' = log_contents s" by simp
qed

section \<open>Properties\<close>

text \<open>C10: an append is atomic under failures and crashes.  Whatever call fails, and whatever bytes the
  failing write left, the store reopens with either exactly the batches it had or those and the
  whole new batch; if the append reported success it is the latter.\<close>

theorem append_crash_atomic:
  assumes "store_holds s uuid bss" and "append_batch fault rs s = (r, s')"
    and "log_fits (store_disk s')"
  shows "\<exists>s'' bss'. open_store True f random collect_batch [] (store_disk s') =
      (Inr (s'', bss'), store_disk s'')
    \<and> store_holds s'' uuid bss'
    \<and> (bss' = bss \<or> bss' = bss @ [number_records rs (next_sequence s)])
    \<and> (\<forall>stored. r = Inr stored \<longrightarrow>
         stored = number_records rs (next_sequence s) \<and> bss' = bss @ [stored])"
proof -
  let ?new = "bss @ [number_records rs (next_sequence s)]"
  have reopen: "\<exists>s''. store_holds s'' uuid bs' \<and> open_store True f random collect_batch [] (store_disk s') =
      (Inr (s'', bs'), store_disk s'')" if "disk_holds (store_disk s') uuid bs'" for bs'
    using open_disk_holds [OF that assms(3), of f random collect_batch "[]"] by auto
  consider "\<exists>e. r = Inl e" "disk_holds (store_disk s') uuid bss"
    | "\<exists>e. r = Inl e" "disk_holds (store_disk s') uuid ?new"
    | "r = Inr (number_records rs (next_sequence s))" "disk_holds (store_disk s') uuid ?new"
    using append_outcome [OF assms] store_disk_holds [OF assms(1)] store_disk_holds by blast
  then show ?thesis
  proof cases
    case 1
    then show ?thesis using reopen [of bss] by auto
  next
    case 2
    then show ?thesis using reopen [of ?new] by auto
  next
    case 3
    then show ?thesis using reopen [of ?new] by auto
  qed
qed

text \<open>A fresh store: its files after a successful initialisation, opened.\<close>

lemma mark_uuid_length [simp]: "length (mark_uuid bs) = length bs"
  by (simp add: mark_uuid_def Let_def)

definition fresh_disk :: disk where
  "fresh_disk = \<lparr>log_file = None, manifest_file = None, next_file = None\<rparr>"

definition fresh_store :: "bytes \<Rightarrow> log_store" where
  "fresh_store random =
     (let uuid = mark_uuid random;
          m = \<lparr>store_uuid = uuid, committed_length = word_of_nat log_header_len\<rparr>
      in \<lparr>store_disk = \<lparr>log_file = Some (encode_log_header uuid),
            manifest_file = Some (encode_manifest m), next_file = None\<rparr>,
          store_manifest = m, batch_count = 0, next_sequence = 1, next_batch = 1,
          poisoned = False\<rparr>)"

lemma fresh_store_holds:
  "length random = 16 \<Longrightarrow> store_holds (fresh_store random) (mark_uuid random) []"
  unfolding store_holds_def fresh_store_def
  by (intro exI [of _ "[]"]) (simp add: Let_def logged_Nil log_header_len_def)

lemma open_fresh:
  assumes "length random = 16"
  shows "open_store True No_fault (Some random) ob st fresh_disk =
    (Inr (fresh_store random, st), store_disk (fresh_store random))"
proof -
  have "scan_committed (encode_log_header (mark_uuid random)) log_header_len ob st =
      Inr (\<lparr>meta_next_sequence = 1, meta_next_batch = 1, meta_batch_count = 0\<rparr>, st)"
    using scan_committed_logged [OF logged_Nil, where log = "encode_log_header (mark_uuid random)"
        and hdr = "encode_log_header (mark_uuid random)" and rest = "[]"
        and committed = log_header_len and ob = ob and s = st] assms
    by (simp add: encode_log_header_length log_header_len_def)
  then show ?thesis
    using assms verify_encoded_header [of "mark_uuid random" "[]"]
    by (simp add: open_store_def initialize_store_def fresh_disk_def write_manifest_def fresh_store_def
        Let_def encode_log_header_length) (simp add: log_header_len_def)
qed

lemma fresh_fits: "length random = 16 \<Longrightarrow> log_fits (store_disk (fresh_store random))"
  using store_holds_fits fresh_store_holds by blast

definition sample_random :: bytes where
  "sample_random = replicate 16 7"

lemma sample_random_length [simp]: "length sample_random = 16"
  by (simp add: sample_random_def)

text \<open>A torn write of the log: the tail is garbage, and the store reopens empty.\<close>

theorem append_crash_atomic_witness:
  "\<exists>r s' s'' bss'. append_batch (Log_fault [1, 2, 3]) codec_records (fresh_store sample_random) = (r, s')
     \<and> open_store True No_fault None collect_batch [] (store_disk s') = (Inr (s'', bss'), store_disk s'')
     \<and> (bss' = [] \<or> bss' = [number_records codec_records 1])"
proof -
  obtain r s' where run: "append_batch (Log_fault [1, 2, 3]) codec_records (fresh_store sample_random) = (r, s')"
    by fastforce
  have log: "log_file (store_disk (fresh_store sample_random)) =
      Some (encode_log_header (mark_uuid sample_random))"
    by (simp add: fresh_store_def Let_def)
  have "log_fits (store_disk s')"
    using run log encode_log_header_length [of "mark_uuid sample_random"]
    by (auto simp: append_batch_def commit_frames_def attempt_st_def log_fits_def Let_def
        log_header_len_def split: prod.splits sum.splits option.splits if_splits)
  from append_crash_atomic [OF fresh_store_holds [OF sample_random_length] run this, of No_fault None]
  show ?thesis using run by (auto simp: fresh_store_def Let_def)
qed

text \<open>C11: recovery accepts exactly what the code writes.  A disk with a manifest opens exactly if
  some identity and list of batches are on it: a manifest that is the encoding of that identity and
  of a committed length, a log whose header carries the same identity, and frames of those batches
  up to that length; the opened store then holds those batches.\<close>

theorem open_accepts_exactly_stores:
  assumes "manifest_file d = Some bs" and "length bs < 2 ^ 64" and "log_fits d"
  shows "(\<exists>s d'. open_store True fault random collect_batch [] d = (Inr (s, bss), d')
      \<and> store_holds s uuid bss)
    \<longleftrightarrow> disk_holds d uuid bss"
proof
  assume "\<exists>s d'. open_store True fault random collect_batch [] d = (Inr (s, bss), d')
      \<and> store_holds s uuid bss"
  then obtain s d' where run: "open_store True fault random collect_batch [] d = (Inr (s, bss), d')"
    and s: "store_holds s uuid bss" by blast
  obtain uuid' bss' where o: "disk_holds d uuid' bss'" "store_holds s uuid' bss'"
      "try_fold collect_batch bss' [] = Inr bss"
    using open_store_Inr [OF run assms(1,3,2)] by blast
  have "uuid' = uuid" using o(2) s by (auto simp: store_holds_def)
  moreover have "bss' = bss" using o(3) by simp
  ultimately show "disk_holds d uuid bss" using o(1) by simp
next
  assume "disk_holds d uuid bss"
  from open_disk_holds [OF this assms(3), of fault random collect_batch "[]"]
  show "\<exists>s d'. open_store True fault random collect_batch [] d = (Inr (s, bss), d')
      \<and> store_holds s uuid bss" by auto
qed

theorem open_accepts_exactly_stores_witness:
  "\<exists>s d'. open_store True No_fault None collect_batch [] (store_disk (fresh_store sample_random)) =
     (Inr (s, []), d') \<and> store_holds s (mark_uuid sample_random) []"
proof -
  let ?d = "store_disk (fresh_store sample_random)"
  obtain bs where bs: "manifest_file ?d = Some bs" "length bs < 2 ^ 64"
    by (simp add: fresh_store_def Let_def encode_manifest_def manifest_body_length)
  have "disk_holds ?d (mark_uuid sample_random) []"
    by (rule store_disk_holds [OF fresh_store_holds]) simp
  then show ?thesis
    using open_accepts_exactly_stores [OF bs fresh_fits [OF sample_random_length], of No_fault None "[]"]
    by blast
qed

text \<open>C24: the writer fails closed.  A failed append either changed nothing at all, memory and disk, or
  left the writer poisoned; a poisoned writer refuses every further append and flush, and touches
  nothing.\<close>

theorem failed_append_fails_closed:
  assumes "store_holds s uuid bss" and "append_batch fault rs s = (Inl e, s')"
    and "log_fits (store_disk s')"
  shows "s' = s \<or> poisoned s'
    \<and> (\<forall>fault' rs'. append_batch fault' rs' s' = (Inl fail_closed, s'))
    \<and> (\<forall>synced. flush_store synced s' = Inl fail_closed)"
  using append_outcome [OF assms] by (auto simp: append_poisoned flush_store_def)

lemma torn_append:
  "\<exists>e s'. append_batch (Log_fault []) codec_records (fresh_store sample_random) = (Inl e, s')
     \<and> log_fits (store_disk s')"
proof -
  obtain r s' where run: "append_batch (Log_fault []) codec_records (fresh_store sample_random) = (r, s')"
    by fastforce
  moreover have "\<exists>e. r = Inl e"
    using run by (auto simp: append_batch_def commit_frames_def attempt_st_def Let_def
        split: prod.splits sum.splits if_splits)
  moreover have "log_fits (store_disk s')"
    using run fresh_fits [OF sample_random_length]
    by (auto simp: append_batch_def commit_frames_def attempt_st_def log_fits_def Let_def min_def
        split: prod.splits sum.splits option.splits if_splits)
  ultimately show ?thesis by blast
qed

theorem failed_append_fails_closed_witness:
  "\<exists>e s'. append_batch (Log_fault []) codec_records (fresh_store sample_random) = (Inl e, s')
     \<and> (s' = fresh_store sample_random \<or> flush_store True s' = Inl fail_closed)"
proof -
  obtain e s' where "append_batch (Log_fault []) codec_records (fresh_store sample_random) = (Inl e, s')"
      "log_fits (store_disk s')"
    using torn_append by blast
  then show ?thesis
    using failed_append_fails_closed [OF fresh_store_holds [OF sample_random_length]] by blast
qed



lemma frame_records_ok:
  assumes "\<forall>r \<in> set rs. length (pending_payload r) \<le> max_frame_size - 30"
    and "unat seq + length rs < 2 ^ 64"
  shows "\<exists>bs sq. frame_records rs seq out acc = Inr (bs, acc @ number_records rs seq, sq)"
  using assms
proof (induction rs arbitrary: seq out acc)
  case (Cons r rs)
  have "\<exists>f. encode_frame (store_record r seq) = Inr f"
    using encode_frame_ok [of "store_record r seq"] Cons.prems(1) by (simp add: store_record_def)
  then obtain f where f: "encode_frame (store_record r seq) = Inr f" by blast
  have nxt: "checked_add_u64 seq 1 = Some (seq + 1)" using Cons.prems(2) by (simp add: checked_add_u64_def)
  have "unat (seq + 1) + length rs < 2 ^ 64"
    using unat_checked_add_u64 [OF nxt] Cons.prems(2) by simp
  with Cons.IH [of "seq + 1" "out @ f" "acc @ [store_record r seq]"] Cons.prems(1) f nxt
  show ?case by simp
qed simp

lemma length_number_records [simp]: "length (number_records rs seq) = length rs"
  by (induction rs arbitrary: seq) simp_all

lemma framed_length: "framed s rs bs s' \<Longrightarrow> length bs \<le> length rs * max_frame_size"
  by (induction rule: framed.induct) (auto simp: encode_frame_Inr)

lemma commit_frames_log:
  assumes "commit_frames No_fault out stored sq s = (r, s')" and "log_file (store_disk s) = Some log"
  shows "log_file (store_disk s') = Some (write_at (unat (committed_length (store_manifest s))) out log)"
  using assms
  by (auto simp: commit_frames_def Let_def write_manifest_def attempt_st_def ok_or_def
      split: option.splits)

lemma append_batch_succeeds:
  assumes inv: "store_holds s uuid bss" and valid: "validate_pending_records rs = Inr ()"
    and fit: "\<forall>r \<in> set rs. length (pending_payload r) \<le> max_frame_size - 30"
    and seqs: "unat (next_sequence s) + length rs < 2 ^ 64"
    and room: "unat (committed_length (store_manifest s)) + (length rs + 1) * max_frame_size < 2 ^ 64"
  shows "\<exists>s'. append_batch No_fault rs s = (Inr (number_records rs (next_sequence s)), s')
    \<and> store_holds s' uuid (bss @ [number_records rs (next_sequence s)])"
proof -
  let ?stored = "number_records rs (next_sequence s)" and ?n = "unat (committed_length (store_manifest s))"
  obtain bs sq where fr: "frame_records rs (next_sequence s) [] [] = Inr (bs, ?stored, sq)"
    using frame_records_ok [OF fit seqs, of "[]" "[]"] by auto
  have "length (rec_payload (commit_record (next_batch s) ?stored sq)) \<le> 100"
    using length_encode_uleb128 [of "word_of_nat (length ?stored)"] by (simp add: commit_record_def)
  then obtain f where f: "encode_frame (commit_record (next_batch s) ?stored sq) = Inr f"
    using encode_frame_ok by (force simp: max_frame_size_def)
  have run: "append_batch No_fault rs s = commit_frames No_fault (bs @ f) ?stored sq s"
    using inv valid fr f by (simp add: append_batch_def store_holds_def)
  obtain r s' where rs': "append_batch No_fault rs s = (r, s')" by fastforce
  have go: "commit_frames No_fault (bs @ f) ?stored sq s = (r, s')" using run rs' by simp
  have framed: "framed (next_sequence s) ?stored bs sq"
    using frame_records_Inr [OF fr valid] by auto
  obtain log where log: "log_file (store_disk s) = Some log"
    using inv by (auto simp: store_holds_def)
  have "length bs \<le> length rs * max_frame_size" and "length f \<le> max_frame_size"
    using framed_length [OF framed] f encode_frame_Inr [of _ f] by (simp, blast)
  then have "?n + length (bs @ f) < 2 ^ 64" using room by simp
  moreover have "length log < 2 ^ 64"
    using store_holds_fits [OF inv] log by (simp add: log_fits_def)
  ultimately have fits: "log_fits (store_disk s')"
    using commit_frames_log [OF go log] by (simp add: log_fits_def write_at_def)
  show ?thesis
    by (rule commit_frames_cases [OF inv framed f go fits]) (use rs' in auto)
qed

text \<open>C23: an append whose records are valid and fit their frames succeeds when no call fails and the
  counters and the log have room for them, returns the records numbered from the writer's next
  sequence number, and leaves a store that holds them as its last batch.\<close>

theorem append_succeeds:
  assumes "store_holds s uuid bss" and "validate_pending_records rs = Inr ()"
    and "\<forall>r \<in> set rs. length (pending_payload r) \<le> max_frame_size - 30"
    and "unat (next_sequence s) + length rs < 2 ^ 64"
    and "unat (committed_length (store_manifest s)) + (length rs + 1) * max_frame_size < 2 ^ 64"
  shows "\<exists>s'. append_batch No_fault rs s = (Inr (number_records rs (next_sequence s)), s')
    \<and> store_holds s' uuid (bss @ [number_records rs (next_sequence s)])"
  using assms by (rule append_batch_succeeds)

theorem append_succeeds_witness:
  "\<exists>s'. append_batch No_fault codec_records (fresh_store sample_random) =
     (Inr (number_records codec_records 1), s')"
proof -
  have "unat (committed_length (store_manifest (fresh_store sample_random))) = 64"
    and "next_sequence (fresh_store sample_random) = 1"
    by (simp_all add: fresh_store_def Let_def log_header_len_def)
  moreover have "validate_pending_records codec_records = Inr ()" by code_simp
  moreover have "\<forall>r \<in> set codec_records. length (pending_payload r) \<le> max_frame_size - 30"
  proof -
    have "\<forall>r \<in> set codec_records. length (pending_payload r) < 100" by code_simp
    then show ?thesis by (fastforce simp: max_frame_size_def)
  qed
  moreover have "length codec_records < 20" by code_simp
  ultimately show ?thesis
    using append_succeeds [OF fresh_store_holds [OF sample_random_length], of codec_records]
    by (auto simp: max_frame_size_def)
qed

end
