(* ===== verification/Replay.thy ===== *)
theory Replay
  imports Store
begin

text \<open>
  The logical replay of a store (\<open>LogicalReplay\<close> of \<open>src/storage.rs\<close>): the records of the committed
  batches are decoded and checked one after another, and the roles and posits they hold are collected
  for the database.  A hash map is a map, a hash set a set; a literal is hashed and compared by its
  token, so the key of a proposition holds the token.  An error leaves the replay unused, as the
  caller drops it.
\<close>

section \<open>The replay state\<close>

type_synonym proposition_key = "(thing \<times> thing) list \<times> string \<times> time"

record logical_replay =
  replay_uuid :: bytes
  roles_by_identity :: "thing \<rightharpoonup> replayed_role"
  identities_by_name :: "string \<rightharpoonup> thing"
  construct_identities :: "thing set"
  propositions :: "proposition_key set"
  replay_roles :: "replayed_role list"
  replay_posits :: "replayed_posit list"
  replay_codecs :: "builtin_codec set"

record replayed_store =
  replayed_uuid :: bytes
  replayed_roles :: "replayed_role list"
  replayed_posits :: "replayed_posit list"
  has_required_codecs :: bool

definition new_replay :: "bytes \<Rightarrow> logical_replay" where
  "new_replay uuid =
     \<lparr>replay_uuid = uuid, roles_by_identity = Map.empty, identities_by_name = Map.empty,
      construct_identities = {}, propositions = {}, replay_roles = [], replay_posits = [],
      replay_codecs = {}\<rparr>"

definition proposition_of :: "replayed_posit \<Rightarrow> proposition_key" where
  "proposition_of p = (posit_appearances p, token (posit_value p), posit_time p)"

text \<open>The three arms of \<open>apply_record\<close> after decoding.\<close>

definition apply_role :: "replayed_role \<Rightarrow> logical_replay \<Rightarrow> logical_replay result" where
  "apply_role role st =
     (if roles_by_identity st (role_identity role) \<noteq> None
         \<or> identities_by_name st (role_name role) \<noteq> None
         \<or> role_identity role \<in> construct_identities st
      then corruption ''duplicate or conflicting Role record''
      else Inr (st\<lparr>construct_identities := insert (role_identity role) (construct_identities st),
        identities_by_name := (identities_by_name st)(role_name role \<mapsto> role_identity role),
        roles_by_identity := (roles_by_identity st)(role_identity role \<mapsto> role),
        replay_roles := replay_roles st @ [role]\<rparr>))"

definition apply_codec :: "builtin_codec \<Rightarrow> logical_replay \<Rightarrow> logical_replay result" where
  "apply_codec codec st =
     (if codec \<in> replay_codecs st then corruption ''duplicate Codec record''
      else Inr (st\<lparr>replay_codecs := insert codec (replay_codecs st)\<rparr>))"

definition apply_posit :: "replayed_posit \<Rightarrow> logical_replay \<Rightarrow> logical_replay result" where
  "apply_posit posit st =
     (if posit_identity posit \<in> construct_identities st
      then corruption ''duplicate Role or Posit identity''
      else if list_ex (\<lambda>(role, _). roles_by_identity st role = None) (posit_appearances posit)
      then corruption ''Posit references an unknown Role''
      else if proposition_of posit \<in> propositions st
      then corruption ''duplicate Posit proposition''
      else Inr (st\<lparr>construct_identities := insert (posit_identity posit) (construct_identities st),
        propositions := insert (proposition_of posit) (propositions st),
        replay_posits := replay_posits st @ [posit]\<rparr>))"

definition apply_record ::
    "(string \<Rightarrow> string) \<Rightarrow> 'n literal_lib \<Rightarrow> chrono \<Rightarrow> stored_record \<Rightarrow> logical_replay
       \<Rightarrow> logical_replay result" where
  "apply_record nfc L C r st =
     (if rec_type r = record_role then
        attempt (decode_role nfc (rec_payload r)) (\<lambda>role. apply_role role st)
      else if rec_type r = record_codec then
        attempt (decode_codec (rec_payload r)) (\<lambda>codec. apply_codec codec st)
      else if rec_type r = record_posit then
        attempt (case decode_posit L C (rec_payload r) (replay_codecs st) of
            Inl e \<Rightarrow> corruption ''invalid Posit record'' | Inr posit \<Rightarrow> Inr posit)
          (\<lambda>posit. apply_posit posit st)
      else corruption ''unsupported logical record type'')"

definition apply_batch ::
    "(string \<Rightarrow> string) \<Rightarrow> 'n literal_lib \<Rightarrow> chrono \<Rightarrow> logical_replay on_batch" where
  "apply_batch nfc L C batch st = try_fold (apply_record nfc L C) batch st"

section \<open>Finishing a replay\<close>

definition posit_role_id :: thing where "posit_role_id = 1"
definition ascertains_role_id :: thing where "ascertains_role_id = 2"
definition thing_role_id :: thing where "thing_role_id = 3"
definition class_role_id :: thing where "class_role_id = 4"
definition subclass_role_id :: thing where "subclass_role_id = 5"

definition builtin_roles :: "(thing \<times> string) list" where
  "builtin_roles = [(posit_role_id, ''posit''), (ascertains_role_id, ''ascertains''),
     (thing_role_id, ''thing''), (class_role_id, ''class''), (subclass_role_id, ''subclass'')]"

definition validate_builtin_role ::
    "(thing \<rightharpoonup> replayed_role) \<Rightarrow> (string \<rightharpoonup> thing) \<Rightarrow> thing \<Rightarrow> string \<Rightarrow> unit result" where
  "validate_builtin_role roles names ident name =
     (case (roles ident, names name) of
        (Some role, Some named) \<Rightarrow>
          if role_name role = name \<and> role_reserved role \<and> named = ident then Inr ()
          else corruption ''built-in Role must be reserved''
      | _ \<Rightarrow> corruption ''built-in Role must be reserved'')"

definition finish_replay :: "logical_replay \<Rightarrow> replayed_store result" where
  "finish_replay st =
     (let required = list_all (\<lambda>codec. codec \<in> replay_codecs st) all_codecs;
          used = replay_roles st \<noteq> [] \<or> replay_posits st \<noteq> [] \<or> replay_codecs st \<noteq> {}
      in attempt
           (if used
            then try_fold (\<lambda>(ident, name) _.
                   validate_builtin_role (roles_by_identity st) (identities_by_name st) ident name)
                 builtin_roles ()
            else Inr ()) (\<lambda>_.
         if \<not> required \<and> used then corruption ''store lacks one or more mandatory v1 codecs''
         else Inr \<lparr>replayed_uuid = replay_uuid st, replayed_roles = replay_roles st,
           replayed_posits = replay_posits st, has_required_codecs = required\<rparr>))"

definition replay_logical ::
    "(string \<Rightarrow> string) \<Rightarrow> 'n literal_lib \<Rightarrow> chrono \<Rightarrow> bytes \<Rightarrow> stored_record list list
       \<Rightarrow> replayed_store result" where
  "replay_logical nfc L C uuid bss =
     attempt (try_fold (apply_batch nfc L C) bss (new_replay uuid)) finish_replay"

text \<open>\<open>open_replayed\<close>: the scan feeds the replay, which is then finished.\<close>

definition open_replayed ::
    "(string \<Rightarrow> string) \<Rightarrow> 'n literal_lib \<Rightarrow> chrono \<Rightarrow> bool \<Rightarrow> io_fault \<Rightarrow> bytes option \<Rightarrow> disk
       \<Rightarrow> (log_store \<times> replayed_store) result \<times> disk" where
  "open_replayed nfc L C lock_free fault random d =
     (case open_store lock_free fault random (apply_batch nfc L C) (new_replay []) d of
        (Inl e, d) \<Rightarrow> (Inl e, d)
      | (Inr (s, st), d) \<Rightarrow>
          (attempt (finish_replay (st\<lparr>replay_uuid := store_uuid (store_manifest s)\<rparr>))
             (\<lambda>replayed. Inr (s, replayed)), d))"

section \<open>What a replay holds\<close>

text \<open>A catalogue: roles and posits that are well formed, with unique identities, role names and
  propositions, every posit over known roles.\<close>

definition known_roles :: "replayed_role list \<Rightarrow> replayed_posit \<Rightarrow> bool" where
  "known_roles roles p \<longleftrightarrow> fst ` set (posit_appearances p) \<subseteq> role_identity ` set roles"

definition catalogue ::
    "(string \<Rightarrow> string) \<Rightarrow> 'n literal_lib \<Rightarrow> chrono \<Rightarrow> replayed_role list \<Rightarrow> replayed_posit list \<Rightarrow> bool" where
  "catalogue nfc L C roles posits \<longleftrightarrow>
     (\<forall>r \<in> set roles. wf_role nfc r) \<and> (\<forall>p \<in> set posits. wf_posit L C p \<and> known_roles roles p)
     \<and> distinct (map role_identity roles @ map posit_identity posits)
     \<and> distinct (map role_name roles) \<and> distinct (map proposition_of posits)"

text \<open>The replay state is a function of the lists it has collected.\<close>

definition role_map :: "replayed_role list \<Rightarrow> thing \<rightharpoonup> replayed_role" where
  "role_map roles = map_of (map (\<lambda>r. (role_identity r, r)) roles)"

definition name_map :: "replayed_role list \<Rightarrow> string \<rightharpoonup> thing" where
  "name_map roles = map_of (map (\<lambda>r. (role_name r, role_identity r)) roles)"

definition replay_state ::
    "bytes \<Rightarrow> replayed_role list \<Rightarrow> replayed_posit list \<Rightarrow> builtin_codec set \<Rightarrow> logical_replay" where
  "replay_state uuid roles posits codecs =
     \<lparr>replay_uuid = uuid, roles_by_identity = role_map roles, identities_by_name = name_map roles,
      construct_identities = role_identity ` set roles \<union> posit_identity ` set posits,
      propositions = proposition_of ` set posits, replay_roles = roles, replay_posits = posits,
      replay_codecs = codecs\<rparr>"

lemma map_of_snoc: "map_of xs k = None \<Longrightarrow> map_of (xs @ [(k, v)]) = (map_of xs)(k \<mapsto> v)"
  by (auto simp: map_add_def fun_eq_iff split: option.splits)

lemma role_map_None [simp]: "role_map roles k = None \<longleftrightarrow> k \<notin> role_identity ` set roles"
  by (simp add: role_map_def map_of_eq_None_iff image_image)

lemma name_map_None [simp]: "name_map roles k = None \<longleftrightarrow> k \<notin> role_name ` set roles"
  by (simp add: name_map_def map_of_eq_None_iff image_image)

lemma role_map_snoc:
  "role_identity r \<notin> role_identity ` set roles \<Longrightarrow>
     role_map (roles @ [r]) = (role_map roles)(role_identity r \<mapsto> r)"
  using role_map_None [of roles "role_identity r"]
  by (simp only: role_map_def map_append list.map map_of_snoc simp_thms)

lemma name_map_snoc:
  "role_name r \<notin> role_name ` set roles \<Longrightarrow>
     name_map (roles @ [r]) = (name_map roles)(role_name r \<mapsto> role_identity r)"
  using name_map_None [of roles "role_name r"]
  by (simp only: name_map_def map_append list.map map_of_snoc simp_thms)

lemma new_replay_state: "new_replay uuid = replay_state uuid [] [] {}"
  by (simp add: new_replay_def replay_state_def role_map_def name_map_def)

lemma apply_role_state:
  "apply_role r (replay_state uuid roles posits codecs) = Inr st \<longleftrightarrow>
     role_identity r \<notin> role_identity ` set roles \<union> posit_identity ` set posits
     \<and> role_name r \<notin> role_name ` set roles \<and> st = replay_state uuid (roles @ [r]) posits codecs"
  by (auto simp: apply_role_def replay_state_def role_map_snoc name_map_snoc)

lemma apply_codec_state:
  "apply_codec k (replay_state uuid roles posits codecs) = Inr st \<longleftrightarrow>
     k \<notin> codecs \<and> st = replay_state uuid roles posits (insert k codecs)"
  by (auto simp: apply_codec_def replay_state_def)

lemma apply_posit_state:
  "apply_posit p (replay_state uuid roles posits codecs) = Inr st \<longleftrightarrow>
     posit_identity p \<notin> role_identity ` set roles \<union> posit_identity ` set posits
     \<and> known_roles roles p \<and> proposition_of p \<notin> proposition_of ` set posits
     \<and> st = replay_state uuid roles (posits @ [p]) codecs"
  by (auto simp: apply_posit_def replay_state_def known_roles_def list_ex_iff)

lemma record_types [simp]:
  "record_codec \<noteq> record_role" "record_posit \<noteq> record_role" "record_posit \<noteq> record_codec"
  by (simp_all add: record_codec_def record_role_def record_posit_def)

definition replay_ok ::
    "(string \<Rightarrow> string) \<Rightarrow> 'n literal_lib \<Rightarrow> chrono \<Rightarrow> logical_replay \<Rightarrow> bool" where
  "replay_ok nfc L C st \<longleftrightarrow> (\<exists>uuid roles posits codecs.
     st = replay_state uuid roles posits codecs \<and> catalogue nfc L C roles posits)"

text \<open>Replaying what the writer writes.\<close>

definition role_record_of :: "replayed_role \<Rightarrow> pending_record" where
  "role_record_of r = role_record_parts (role_identity r) (role_name r) (role_reserved r)"

definition posit_record_of :: "replayed_posit \<Rightarrow> pending_record result" where
  "posit_record_of p =
     posit_record_logical (posit_identity p) (posit_appearances p) (posit_value p) (posit_time p)"

lemma canonical_sorted: "canonical_appearances apps \<Longrightarrow> sort apps = apps"
proof -
  assume "canonical_appearances apps"
  then have "sorted_wrt (\<lambda>p q. fst p < fst q) apps"
    by (simp add: canonical_appearances_def sorted_wrt_map)
  then have "sorted apps"
    by (rule sorted_wrt_mono_rel [rotated]) (auto simp: less_eq_prod_def)
  then show ?thesis by (rule sorted_sort_id)
qed

lemma catalogue_Nil [simp]: "catalogue nfc L C [] []"
  by (simp add: catalogue_def)

lemma catalogue_role:
  "catalogue nfc L C roles posits \<Longrightarrow> wf_role nfc r
     \<Longrightarrow> role_identity r \<notin> role_identity ` set roles \<union> posit_identity ` set posits
     \<Longrightarrow> role_name r \<notin> role_name ` set roles \<Longrightarrow> catalogue nfc L C (roles @ [r]) posits"
  by (simp add: catalogue_def known_roles_def) blast

lemma catalogue_posit:
  "catalogue nfc L C roles posits \<Longrightarrow> wf_posit L C p \<Longrightarrow> known_roles roles p
     \<Longrightarrow> posit_identity p \<notin> role_identity ` set roles \<union> posit_identity ` set posits
     \<Longrightarrow> proposition_of p \<notin> proposition_of ` set posits \<Longrightarrow> catalogue nfc L C roles (posits @ [p])"
  by (auto simp: catalogue_def)

context calendar_codec
begin

lemma apply_record_catalogue:
  assumes "catalogue nfc L C roles posits" and "length (rec_payload r) < 2 ^ 64"
    and "apply_record nfc L C r (replay_state uuid roles posits codecs) = Inr st"
  obtains roles' posits' codecs' where "st = replay_state uuid roles' posits' codecs'"
    and "catalogue nfc L C roles' posits'"
proof -
  consider (role) role where "decode_role nfc (rec_payload r) = Inr role"
      "apply_role role (replay_state uuid roles posits codecs) = Inr st"
    | (codec) k where "apply_codec k (replay_state uuid roles posits codecs) = Inr st"
    | (posit) p where "decode_posit L C (rec_payload r) codecs = Inr p"
      "apply_posit p (replay_state uuid roles posits codecs) = Inr st"
    using assms(3) unfolding apply_record_def
    by (auto simp: attempt_eq_Inr replay_state_def split: if_splits sum.splits)
  then show thesis
  proof cases
    case role
    then have "st = replay_state uuid (roles @ [role]) posits codecs"
        "catalogue nfc L C (roles @ [role]) posits"
      using catalogue_role [OF assms(1)] decode_role_Inr [OF role(1) assms(2)]
      by (simp_all add: apply_role_state)
    then show thesis by (rule that)
  next
    case codec
    with assms(1) that show thesis by (auto simp: apply_codec_state)
  next
    case posit
    then have "st = replay_state uuid roles (posits @ [p]) codecs"
        "catalogue nfc L C roles (posits @ [p])"
      using catalogue_posit [OF assms(1)] decode_posit_Inr [OF posit(1) assms(2)]
      by (simp_all add: apply_posit_state)
    then show thesis by (rule that)
  qed
qed

lemma apply_batches_ok:
  assumes "\<forall>rs \<in> set bss. \<forall>r \<in> set rs. length (rec_payload r) < 2 ^ 64"
    and "replay_ok nfc L C st" and "try_fold (apply_batch nfc L C) bss st = Inr st'"
  shows "replay_ok nfc L C st'"
proof (rule try_fold_invariant [where P = "replay_ok nfc L C", OF _ assms(2,3)])
  fix rs s t assume rs: "rs \<in> set bss" "replay_ok nfc L C s" "apply_batch nfc L C rs s = Inr t"
  show "replay_ok nfc L C t"
  proof (rule try_fold_invariant
      [where P = "replay_ok nfc L C", OF _ rs(2) rs(3) [unfolded apply_batch_def]])
    fix r s t assume "r \<in> set rs" "replay_ok nfc L C s" "apply_record nfc L C r s = Inr t"
    with apply_record_catalogue assms(1) rs(1) show "replay_ok nfc L C t"
      unfolding replay_ok_def by metis
  qed
qed

lemma replay_role_batch:
  "catalogue nfc L C (roles @ new) posits
     \<Longrightarrow> \<forall>r \<in> set new. length (pending_payload (role_record_of r)) < 2 ^ 64
     \<Longrightarrow> apply_batch nfc L C (number_records (map role_record_of new) seq)
           (replay_state uuid roles posits codecs) =
         Inr (replay_state uuid (roles @ new) posits codecs)"
proof (induction new arbitrary: roles seq)
  case (Cons r new)
  have wf: "wf_role nfc r" and small: "length (pending_payload (role_record_of r)) < 2 ^ 64"
    using Cons.prems by (auto simp: catalogue_def)
  have "decode_role nfc (pending_payload (role_record_of r)) = Inr r"
    using decode_role_payload [OF wf] small
    by (simp add: role_record_of_def role_record_parts_def new_record_def)
  moreover have "apply_role r (replay_state uuid roles posits codecs) =
      Inr (replay_state uuid (roles @ [r]) posits codecs)"
    using Cons.prems(1) by (auto simp: apply_role_state catalogue_def)
  moreover have "rec_type (store_record (role_record_of r) seq) = record_role"
      "rec_payload (store_record (role_record_of r) seq) = pending_payload (role_record_of r)"
    by (simp_all add: store_record_def role_record_of_def role_record_parts_def new_record_def)
  ultimately have "apply_record nfc L C (store_record (role_record_of r) seq)
      (replay_state uuid roles posits codecs) = Inr (replay_state uuid (roles @ [r]) posits codecs)"
    by (simp add: apply_record_def)
  then show ?case
    using Cons.IH [of "roles @ [r]" "seq + 1"] Cons.prems by (simp add: apply_batch_def)
qed (simp add: apply_batch_def)

lemma posit_record_decodes:
  assumes wf: "wf_posit L C p" and rec: "posit_record_of p = Inr r"
    and "length (pending_payload r) < 2 ^ 64" and "select_codec (posit_value p) \<in> codecs"
  shows "pending_type r = record_posit \<and> decode_posit L C (pending_payload r) codecs = Inr p"
proof -
  have apps: "distinct (map fst (posit_appearances p))" "sort (posit_appearances p) = posit_appearances p"
    using wf canonical_sorted [of "posit_appearances p"]
    by (auto simp: wf_posit_def canonical_appearances_def strict_sorted_iff)
  obtain e where e: "r = new_record record_posit (posit_payload (posit_identity p)
        (posit_appearances p) (family (posit_value p)) (select_codec (posit_value p)) e (posit_time p))"
    and d: "decode_literal e (family (posit_value p)) (select_codec (posit_value p)) =
      Inr (token (posit_value p))"
    by (rule posit_record_logical_result
        [of "posit_value p" "posit_appearances p" "posit_identity p" "posit_time p"])
      (use wf rec apps in \<open>auto simp: posit_record_of_def wf_posit_def\<close>)
  show ?thesis
    using decode_posit_payload [OF wf assms(4) d _ assms(3)] e by (simp add: new_record_def)
qed

lemma replay_posit_batch:
  "catalogue nfc L C roles (posits @ new) \<Longrightarrow> try_map posit_record_of new = Inr rs
     \<Longrightarrow> \<forall>r \<in> set rs. length (pending_payload r) < 2 ^ 64 \<Longrightarrow> set all_codecs \<subseteq> codecs
     \<Longrightarrow> apply_batch nfc L C (number_records rs seq) (replay_state uuid roles posits codecs) =
         Inr (replay_state uuid roles (posits @ new) codecs)"
proof (induction new arbitrary: posits rs seq)
  case (Cons p new)
  obtain r rs' where rs: "rs = r # rs'" and r: "posit_record_of p = Inr r"
    and rest: "try_map posit_record_of new = Inr rs'"
    using Cons.prems(2) by (auto simp: attempt_eq_Inr)
  have wf: "wf_posit L C p" using Cons.prems(1) by (simp add: catalogue_def)
  have "select_codec (posit_value p) \<in> codecs"
    using Cons.prems(4) by (cases "select_codec (posit_value p)") (auto simp: all_codecs_def)
  then have d: "pending_type r = record_posit" "decode_posit L C (pending_payload r) codecs = Inr p"
    using posit_record_decodes [OF wf r] Cons.prems(3) rs by auto
  moreover have "apply_posit p (replay_state uuid roles posits codecs) =
      Inr (replay_state uuid roles (posits @ [p]) codecs)"
    using Cons.prems(1) by (auto simp: apply_posit_state catalogue_def)
  moreover have "replay_codecs (replay_state uuid roles posits codecs) = codecs"
    by (simp add: replay_state_def)
  ultimately have "apply_record nfc L C (store_record r seq) (replay_state uuid roles posits codecs) =
      Inr (replay_state uuid roles (posits @ [p]) codecs)"
    by (simp add: apply_record_def store_record_def)
  then show ?case
    using Cons.IH [of "posits @ [p]" rs' "seq + 1"] Cons.prems rs rest by (simp add: apply_batch_def)
qed (simp add: apply_batch_def)

end

lemma replay_codec_batch:
  "apply_batch nfc L C (number_records codec_records seq) (replay_state uuid roles posits {}) =
     Inr (replay_state uuid roles posits (set all_codecs))"
proof -
  have step: "apply_record nfc L C (store_record (codec_record_of k) seq)
      (replay_state uuid roles posits codecs) = Inr (replay_state uuid roles posits (insert k codecs))"
    if "k \<notin> codecs" for k codecs seq
    using that decode_codec_payload [of k]
    by (simp add: apply_record_def store_record_def codec_record_of_def new_record_def apply_codec_state)
  show ?thesis
    by (simp add: apply_batch_def codec_records_def all_codecs_def step insert_commute)
qed

lemma number_records_append:
  "number_records (xs @ ys) seq = number_records xs seq @ number_records ys (seq + word_of_nat (length xs))"
  by (induction xs arbitrary: seq) (simp_all add: algebra_simps)

lemma apply_batch_append:
  "apply_batch nfc L C (xs @ ys) st = attempt (apply_batch nfc L C xs st) (apply_batch nfc L C ys)"
  by (simp add: apply_batch_def try_fold_append fun_eq_iff attempt_def split: sum.splits)

lemma framed_payloads:
  "framed s rs bs s' \<Longrightarrow> \<forall>r \<in> set rs. length (rec_payload r) < 2 ^ 64"
  by (induction rule: framed.induct) (auto simp: encode_frame_Inr max_frame_size_def)

lemma logged_payloads:
  "logged s b bss bs s' b' \<Longrightarrow> \<forall>rs \<in> set bss. \<forall>r \<in> set rs. length (rec_payload r) < 2 ^ 64"
  by (induction rule: logged.induct) (use framed_payloads in auto)

lemma try_fold_checks:
  "try_fold (\<lambda>x _. f x) xs () = Inr u \<longleftrightarrow> (\<forall>x \<in> set xs. f x = Inr ())"
  by (induction xs) (auto simp: attempt_eq_Inr)

text \<open>What a finished replay guarantees of the built-in roles and codecs.\<close>

definition builtins_present :: "replayed_role list \<Rightarrow> bool" where
  "builtins_present roles \<longleftrightarrow>
     (\<forall>(ident, name) \<in> set builtin_roles.
        \<lparr>role_identity = ident, role_name = name, role_reserved = True\<rparr> \<in> set roles)"

lemma role_map_Some: "role_map roles k = Some r \<Longrightarrow> r \<in> set roles \<and> role_identity r = k"
  unfolding role_map_def by (drule map_of_SomeD) auto

lemma validate_builtin_role_Inr:
  assumes "validate_builtin_role (role_map roles) names ident name = Inr ()"
  shows "\<lparr>role_identity = ident, role_name = name, role_reserved = True\<rparr> \<in> set roles"
proof -
  obtain r where "role_map roles ident = Some r" "role_name r = name" "role_reserved r"
    using assms by (auto simp: validate_builtin_role_def split: option.splits if_splits)
  with role_map_Some [of roles ident r] show ?thesis by (cases r) auto
qed

lemma finish_replay_state:
  assumes "finish_replay (replay_state uuid roles posits codecs) = Inr rs"
  shows "rs = \<lparr>replayed_uuid = uuid, replayed_roles = roles, replayed_posits = posits,
      has_required_codecs = (set all_codecs \<subseteq> codecs)\<rparr>
    \<and> (roles \<noteq> [] \<or> posits \<noteq> [] \<or> codecs \<noteq> {} \<longrightarrow> builtins_present roles \<and> set all_codecs \<subseteq> codecs)"
proof -
  have "list_all (\<lambda>codec. codec \<in> codecs) all_codecs \<longleftrightarrow> set all_codecs \<subseteq> codecs"
    by (auto simp: list_all_iff)
  moreover have "try_fold (\<lambda>(ident, name) _.
        validate_builtin_role (role_map roles) (name_map roles) ident name) builtin_roles () = Inr u
      \<Longrightarrow> builtins_present roles" for u
    using try_fold_checks [of "\<lambda>(ident, name). validate_builtin_role (role_map roles) (name_map roles) ident name"
        builtin_roles u] validate_builtin_role_Inr
    by (fastforce simp: builtins_present_def case_prod_unfold)
  ultimately show ?thesis
    using assms by (auto simp: finish_replay_def replay_state_def Let_def attempt_eq_Inr split: if_splits)
qed

lemma role_map_member: "distinct (map role_identity roles) \<Longrightarrow> r \<in> set roles \<Longrightarrow>
    role_map roles (role_identity r) = Some r"
  unfolding role_map_def by (rule map_of_is_SomeI) (auto simp: o_def)

lemma name_map_member: "distinct (map role_name roles) \<Longrightarrow> r \<in> set roles \<Longrightarrow>
    name_map roles (role_name r) = Some (role_identity r)"
  unfolding name_map_def by (rule map_of_is_SomeI) (auto simp: o_def)

lemma finish_replay_ok:
  assumes "catalogue nfc L C roles posits" and "builtins_present roles" and "set all_codecs \<subseteq> codecs"
  shows "finish_replay (replay_state uuid roles posits codecs) =
    Inr \<lparr>replayed_uuid = uuid, replayed_roles = roles, replayed_posits = posits, has_required_codecs = True\<rparr>"
proof -
  have "validate_builtin_role (role_map roles) (name_map roles) ident name = Inr ()"
    if "(ident, name) \<in> set builtin_roles" for ident name
  proof -
    let ?r = "\<lparr>role_identity = ident, role_name = name, role_reserved = True\<rparr>"
    have "?r \<in> set roles" using that assms(2) by (auto simp: builtins_present_def)
    then have "role_map roles ident = Some ?r" "name_map roles name = Some ident"
      using role_map_member [of roles ?r] name_map_member [of roles ?r] assms(1)
      by (simp_all add: catalogue_def)
    then show ?thesis by (simp add: validate_builtin_role_def)
  qed
  then have "try_fold (\<lambda>(ident, name) _. validate_builtin_role (role_map roles) (name_map roles) ident name)
      builtin_roles () = Inr ()"
    using try_fold_checks [of "\<lambda>(ident, name). validate_builtin_role (role_map roles) (name_map roles) ident name"
        builtin_roles "()"]
    by (auto simp: case_prod_unfold)
  moreover have "list_all (\<lambda>codec. codec \<in> codecs) all_codecs" using assms(3) by (auto simp: list_all_iff)
  ultimately show ?thesis by (simp add: finish_replay_def replay_state_def Let_def)
qed

text \<open>Opening a store and replaying it.\<close>

definition replays_to ::
    "(string \<Rightarrow> string) \<Rightarrow> 'n literal_lib \<Rightarrow> chrono \<Rightarrow> stored_record list list
       \<Rightarrow> replayed_role list \<Rightarrow> replayed_posit list \<Rightarrow> builtin_codec set \<Rightarrow> bool" where
  "replays_to nfc L C bss roles posits codecs \<longleftrightarrow>
     try_fold (apply_batch nfc L C) bss (new_replay []) = Inr (replay_state [] roles posits codecs)"

lemma replays_to_snoc:
  "replays_to nfc L C bss roles posits codecs
     \<Longrightarrow> apply_batch nfc L C batch (replay_state [] roles posits codecs) = Inr (replay_state [] roles' posits' codecs')
     \<Longrightarrow> replays_to nfc L C (bss @ [batch]) roles' posits' codecs'"
  by (simp add: replays_to_def try_fold_append)

lemma replay_state_uuid: "(replay_state u roles posits codecs)\<lparr>replay_uuid := uuid\<rparr> =
    replay_state uuid roles posits codecs"
  by (simp add: replay_state_def)

lemma open_replayed_holds:
  assumes "disk_holds d uuid bss" and "log_fits d" and "replays_to nfc L C bss roles posits codecs"
    and "finish_replay (replay_state uuid roles posits codecs) = Inr rs"
  shows "\<exists>s. store_holds s uuid bss
    \<and> open_replayed nfc L C True fault random d = (Inr (s, rs), store_disk s)"
proof -
  obtain s where s: "store_holds s uuid bss"
    and run: "open_store True fault random (apply_batch nfc L C) (new_replay []) d =
      (Inr (s, replay_state [] roles posits codecs), store_disk s)"
    using open_disk_holds [OF assms(1,2), of fault random "apply_batch nfc L C" "new_replay []"] assms(3)
    by (auto simp: replays_to_def)
  have "store_uuid (store_manifest s) = uuid" using s by (auto simp: store_holds_def)
  with s run assms(4) show ?thesis by (auto simp: open_replayed_def replay_state_uuid)
qed

lemma open_replayed_Inr:
  assumes C: "calendar_codec C" and run: "open_replayed nfc L C True fault random d = (Inr (s, rs), d')"
    and "manifest_file d = Some bs" and "log_fits d" and "length bs < 2 ^ 64"
  obtains uuid bss codecs where "disk_holds d uuid bss" and "store_holds s uuid bss"
    and "replays_to nfc L C bss (replayed_roles rs) (replayed_posits rs) codecs"
    and "catalogue nfc L C (replayed_roles rs) (replayed_posits rs)"
    and "finish_replay (replay_state uuid (replayed_roles rs) (replayed_posits rs) codecs) = Inr rs"
proof -
  obtain st where open_s: "open_store True fault random (apply_batch nfc L C) (new_replay []) d = (Inr (s, st), d')"
    and fin: "finish_replay (st\<lparr>replay_uuid := store_uuid (store_manifest s)\<rparr>) = Inr rs"
    using run by (auto simp: open_replayed_def attempt_eq_Inr split: prod.splits sum.splits)
  obtain uuid bss where d: "disk_holds d uuid bss" "store_holds s uuid bss"
    and st: "try_fold (apply_batch nfc L C) bss (new_replay []) = Inr st"
    using open_store_Inr [OF open_s assms(3-5)] by blast
  have "replay_ok nfc L C (new_replay [])"
    unfolding replay_ok_def new_replay_state by (metis catalogue_Nil)
  moreover have "\<forall>rs \<in> set bss. \<forall>r \<in> set rs. length (rec_payload r) < 2 ^ 64"
    using d(1) logged_payloads by (fastforce simp: disk_holds_def)
  ultimately have "replay_ok nfc L C st"
    using calendar_codec.apply_batches_ok [OF C _ _ st] by blast
  then obtain u roles posits codecs where eq: "st = replay_state u roles posits codecs"
    and cat: "catalogue nfc L C roles posits" by (auto simp: replay_ok_def)
  have fin': "finish_replay (replay_state uuid roles posits codecs) = Inr rs"
    using fin d(2) by (auto simp: eq replay_state_uuid store_holds_def)
  then have rs: "roles = replayed_roles rs" "posits = replayed_posits rs"
    using finish_replay_state [OF fin'] by simp_all
  have "replay_uuid st = []"
  proof -
    have "replay_uuid t = []" if "replay_uuid s = []" "apply_record nfc L C r s = Inr t" for r s t
      using that by (auto simp: apply_record_def apply_role_def apply_codec_def apply_posit_def
          attempt_eq_Inr split: if_splits sum.splits)
    then have "replay_uuid t = []" if "replay_uuid s = []" "apply_batch nfc L C rs s = Inr t" for rs s t
      using that try_fold_invariant [where P = "\<lambda>s. replay_uuid s = []" and xs = rs and s = s and t = t
          and f = "apply_record nfc L C"] by (auto simp: apply_batch_def)
    then show ?thesis
      using st try_fold_invariant [where P = "\<lambda>s. replay_uuid s = []" and xs = bss and t = st
          and f = "apply_batch nfc L C" and s = "new_replay []"] by (auto simp: new_replay_def)
  qed
  then have "u = []" by (simp add: eq replay_state_def)
  then have "replays_to nfc L C bss roles posits codecs" using st eq by (simp add: replays_to_def)
  then show thesis using that d cat fin' rs by blast
qed

end
