(* ===== verification/Construct.thy ===== *)
theory Construct
  imports Replay
begin

text \<open>
  The constructs of \<open>src/construct.rs\<close> and the keepers that own them: things and their generator,
  roles, appearances, appearance sets and posits.  A keeper holds one instance per logical identity:
  a role by its name, an appearance by its role and thing, an appearance set by its appearances, a
  posit by its proposition.  Roles are compared by identity alone, so the keys of a hash map are what
  \<open>Hash\<close> and \<open>Eq\<close> see of a construct; a hash set of shared constructs is the set of their keys, the
  keeper having the instance of each.  Every posit of the engine holds a literal, so the map from
  value types to posit maps has one entry.  A shared pointer is what it points to, as a kept construct
  never changes; a lock is taken and released within one step.
\<close>

section \<open>Things\<close>

definition genesis :: thing where
  "genesis = 0"

record thing_generator =
  lower_bound :: thing
  retained :: "thing set"

definition new_generator :: thing_generator where
  "new_generator = \<lparr>lower_bound = genesis, retained = {}\<rparr>"

definition retain :: "thing \<Rightarrow> thing_generator \<Rightarrow> thing_generator" where
  "retain t g =
     (let g = g\<lparr>retained := insert t (retained g)\<rparr>
      in if t > lower_bound g then g\<lparr>lower_bound := t\<rparr> else g)"

definition check_thing :: "thing \<Rightarrow> thing_generator \<Rightarrow> thing option" where
  "check_thing t g = (if t \<in> retained g then Some t else None)"

definition release :: "thing \<Rightarrow> thing_generator \<Rightarrow> thing_generator" where
  "release t g = g\<lparr>retained := retained g - {t}\<rparr>"

definition generate :: "thing_generator \<Rightarrow> thing \<times> thing_generator" where
  "generate g =
     (let t = lower_bound g + 1 in (t, g\<lparr>lower_bound := t, retained := insert t (retained g)\<rparr>))"

section \<open>Roles\<close>

record role =
  role_thing :: thing
  label :: string
  reserved :: bool

definition new_role :: "(string \<Rightarrow> string) \<Rightarrow> thing \<Rightarrow> string \<Rightarrow> bool \<Rightarrow> role" where
  "new_role nfc ident name res = \<lparr>role_thing = ident, label = nfc name, reserved = res\<rparr>"

definition role_record :: "role \<Rightarrow> pending_record" where
  "role_record r = role_record_parts (role_thing r) (label r) (reserved r)"

record role_keeper =
  kept_roles :: "string \<rightharpoonup> role"
  role_lookup :: "thing \<rightharpoonup> role"

definition new_role_keeper :: role_keeper where
  "new_role_keeper = \<lparr>kept_roles = Map.empty, role_lookup = Map.empty\<rparr>"

definition keep_role :: "role \<Rightarrow> role_keeper \<Rightarrow> (role \<times> bool) \<times> role_keeper" where
  "keep_role r k =
     (case kept_roles k (label r) of
        Some kept \<Rightarrow> ((kept, True), k)
      | None \<Rightarrow> ((r, False), k\<lparr>kept_roles := (kept_roles k)(label r \<mapsto> r),
          role_lookup := (role_lookup k)(role_thing r \<mapsto> r)\<rparr>))"

definition get_role :: "(string \<Rightarrow> string) \<Rightarrow> string \<Rightarrow> role_keeper \<Rightarrow> role option" where
  "get_role nfc name k = kept_roles k (nfc name)"

section \<open>Appearances\<close>

record appearance =
  app_thing :: thing
  app_role :: role

type_synonym appearance_key = "thing \<times> thing"

text \<open>What appearances are ordered, compared and hashed by: the role's identity, then the thing.\<close>

definition akey :: "appearance \<Rightarrow> appearance_key" where
  "akey a = (role_thing (app_role a), app_thing a)"

type_synonym appearance_keeper = "appearance_key \<rightharpoonup> appearance"

definition keep_appearance_in ::
    "appearance \<Rightarrow> appearance_keeper \<Rightarrow> (appearance \<times> bool) \<times> appearance_keeper" where
  "keep_appearance_in a k =
     (case k (akey a) of
        Some kept \<Rightarrow> ((kept, True), k)
      | None \<Rightarrow> ((a, False), k(akey a \<mapsto> a)))"

section \<open>Appearance sets\<close>

type_synonym appearance_set = "appearance list"

definition set_key :: "appearance_set \<Rightarrow> appearance_key list" where
  "set_key s = map akey s"

definition new_appearance_set :: "appearance list \<Rightarrow> appearance_set option" where
  "new_appearance_set s =
     (let s = sort_key akey s
      in if any_adjacent (\<lambda>x y. role_thing (app_role x) = role_thing (app_role y)) s then None
         else Some s)"

definition set_roles :: "appearance_set \<Rightarrow> thing list" where
  "set_roles s = map (\<lambda>a. role_thing (app_role a)) s"

type_synonym appearance_set_keeper = "appearance_key list \<rightharpoonup> appearance_set"

definition keep_set_in ::
    "appearance_set \<Rightarrow> appearance_set_keeper \<Rightarrow> (appearance_set \<times> bool) \<times> appearance_set_keeper" where
  "keep_set_in s k =
     (case k (set_key s) of
        Some kept \<Rightarrow> ((kept, True), k)
      | None \<Rightarrow> ((s, False), k(set_key s \<mapsto> s)))"

section \<open>Posits\<close>

record posit =
  pthing :: thing
  pset :: appearance_set
  pvalue :: literal
  ptime :: time

definition pkey :: "posit \<Rightarrow> proposition_key" where
  "pkey p = (set_key (pset p), token (pvalue p), ptime p)"

text \<open>The bijective map from posits to their things, and the number of posits kept.  An insertion
  displaces what its left or right side was paired with.\<close>

record posit_keeper =
  by_posit :: "proposition_key \<rightharpoonup> thing"
  by_thing :: "thing \<rightharpoonup> posit"
  keeper_length :: nat

definition new_posit_keeper :: posit_keeper where
  "new_posit_keeper = \<lparr>by_posit = Map.empty, by_thing = Map.empty, keeper_length = 0\<rparr>"

definition bimap_insert :: "posit \<Rightarrow> posit_keeper \<Rightarrow> posit_keeper" where
  "bimap_insert p k =
     (let left = (case by_thing k (pthing p) of None \<Rightarrow> by_posit k | Some q \<Rightarrow> (by_posit k)(pkey q := None));
          right = (case by_posit k (pkey p) of None \<Rightarrow> by_thing k | Some t \<Rightarrow> (by_thing k)(t := None))
      in k\<lparr>by_posit := left(pkey p \<mapsto> pthing p), by_thing := right(pthing p \<mapsto> p)\<rparr>)"

definition keep_posit_in :: "posit \<Rightarrow> posit_keeper \<Rightarrow> (posit \<times> bool) \<times> posit_keeper" where
  "keep_posit_in p k =
     (case by_posit k (pkey p) of
        Some t \<Rightarrow> ((the (by_thing k t), True), k)
      | None \<Rightarrow>
          let k = bimap_insert p k; k = k\<lparr>keeper_length := keeper_length k + 1\<rparr>
          in ((the (by_thing k (pthing p)), False), k))"

definition existing_posit :: "posit \<Rightarrow> posit_keeper \<Rightarrow> posit option" where
  "existing_posit candidate k =
     (case by_posit k (pkey candidate) of None \<Rightarrow> None | Some t \<Rightarrow> by_thing k t)"

definition posit_thing_of :: "posit \<Rightarrow> posit_keeper \<Rightarrow> thing option" where
  "posit_thing_of p k = by_posit k (pkey p)"

definition posit_of_thing :: "thing \<Rightarrow> posit_keeper \<Rightarrow> posit option" where
  "posit_of_thing t k = by_thing k t"

text \<open>\<open>posit_record_parts\<close>: the record of a posit.\<close>

definition posit_record :: "posit \<Rightarrow> pending_record result" where
  "posit_record p = posit_record_logical (pthing p) (set_key (pset p)) (pvalue p) (ptime p)"

section \<open>Lookups\<close>

definition lookup_insert :: "'k \<Rightarrow> 'v \<Rightarrow> ('k \<rightharpoonup> 'v set) \<Rightarrow> 'k \<rightharpoonup> 'v set" where
  "lookup_insert key v index =
     index(key \<mapsto> insert v (case index key of None \<Rightarrow> {} | Some vs \<Rightarrow> vs))"

definition lookup_remove :: "'k \<Rightarrow> 'v \<Rightarrow> ('k \<rightharpoonup> 'v set) \<Rightarrow> 'k \<rightharpoonup> 'v set" where
  "lookup_remove key v index =
     (case index key of None \<Rightarrow> index | Some vs \<Rightarrow> index(key \<mapsto> vs - {v}))"

end
