(* ===== verification/Database.thy ===== *)
theory Database
  imports Construct
begin

text \<open>
  The database of \<open>src/construct.rs\<close>: the generator, the keepers, the lookups between constructs and
  the append-only store, with the operations that create roles, appearances, appearance sets and
  posits, and those that open a database in memory or over a store.  Every operation takes the failure
  the operating system makes it meet (\<open>io_fault\<close>), which only matters when there is a store.
\<close>

section \<open>The database\<close>

record database =
  generator :: thing_generator
  role_keeper :: role_keeper
  appearance_keeper :: appearance_keeper
  appearance_set_keeper :: appearance_set_keeper
  posit_keeper :: posit_keeper
  thing_to_appearance :: "thing \<rightharpoonup> appearance_key set"
  role_to_appearance :: "thing \<rightharpoonup> appearance_key set"
  appearance_to_appearance_set :: "appearance_key \<rightharpoonup> appearance_key list set"
  appearance_set_to_posit_thing :: "appearance_key list \<rightharpoonup> thing set"
  role_to_posit_thing :: "thing \<rightharpoonup> thing set"
  posit_thing_to_appearance_set :: "thing \<rightharpoonup> appearance_set"
  posit_time_lookup :: "thing \<rightharpoonup> time"
  store :: "log_store option"

definition empty_database :: "log_store option \<Rightarrow> database" where
  "empty_database s =
     \<lparr>generator = new_generator, role_keeper = new_role_keeper, appearance_keeper = Map.empty,
      appearance_set_keeper = Map.empty, posit_keeper = new_posit_keeper,
      thing_to_appearance = Map.empty, role_to_appearance = Map.empty,
      appearance_to_appearance_set = Map.empty, appearance_set_to_posit_thing = Map.empty,
      role_to_posit_thing = Map.empty, posit_thing_to_appearance_set = Map.empty,
      posit_time_lookup = Map.empty, store = s\<rparr>"

definition retain_thing :: "thing \<Rightarrow> database \<Rightarrow> database" where
  "retain_thing t db = db\<lparr>generator := retain t (generator db)\<rparr>"

section \<open>Keeping constructs\<close>

definition db_keep_role :: "role \<Rightarrow> database \<Rightarrow> (role \<times> bool) \<times> database" where
  "db_keep_role r db =
     (let (kept, k) = keep_role r (role_keeper db) in (kept, db\<lparr>role_keeper := k\<rparr>))"

definition keep_appearance :: "appearance \<Rightarrow> database \<Rightarrow> (appearance \<times> bool) \<times> database" where
  "keep_appearance a db =
     (let ((kept, previously), k) = keep_appearance_in a (appearance_keeper db);
          db = db\<lparr>appearance_keeper := k\<rparr>
      in if previously then ((kept, previously), db)
         else
           let db = db\<lparr>thing_to_appearance :=
                 lookup_insert (app_thing kept) (akey kept) (thing_to_appearance db)\<rparr>;
               db = (if reserved (app_role kept)
                 then db\<lparr>role_to_appearance :=
                   lookup_insert (role_thing (app_role kept)) (akey kept) (role_to_appearance db)\<rparr>
                 else db)
           in ((kept, previously), db))"

definition create_appearance :: "thing \<Rightarrow> role \<Rightarrow> database \<Rightarrow> (appearance \<times> bool) \<times> database" where
  "create_appearance t r db = keep_appearance \<lparr>app_thing = t, app_role = r\<rparr> db"

definition keep_appearance_set ::
    "appearance_set \<Rightarrow> database \<Rightarrow> (appearance_set \<times> bool) \<times> database" where
  "keep_appearance_set s db =
     (let ((kept, previously), k) = keep_set_in s (appearance_set_keeper db);
          db = db\<lparr>appearance_set_keeper := k\<rparr>
      in ((kept, previously),
          if previously then db
          else db\<lparr>appearance_to_appearance_set :=
            fold (\<lambda>a. lookup_insert (akey a) (set_key kept)) kept (appearance_to_appearance_set db)\<rparr>))"

definition create_appearance_set ::
    "appearance list \<Rightarrow> database \<Rightarrow> (appearance_set \<times> bool) result \<times> database" where
  "create_appearance_set s db =
     (case new_appearance_set s of
        None \<Rightarrow> (Inl (InvalidAppearanceSet
          ''an appearance set may contain at most one Thing for each Role''), db)
      | Some s \<Rightarrow> let (kept, db) = keep_appearance_set s db in (Inr kept, db))"

definition keep_posit :: "posit \<Rightarrow> database \<Rightarrow> (posit \<times> bool) \<times> database" where
  "keep_posit p db =
     (let ((kept, previously), k) = keep_posit_in p (posit_keeper db);
          db = db\<lparr>posit_keeper := k\<rparr>
      in ((kept, previously),
          if previously then db
          else db\<lparr>
            appearance_set_to_posit_thing :=
              lookup_insert (set_key (pset kept)) (pthing kept) (appearance_set_to_posit_thing db),
            posit_thing_to_appearance_set := (posit_thing_to_appearance_set db)(pthing kept \<mapsto> pset kept),
            posit_time_lookup := (posit_time_lookup db)(pthing kept \<mapsto> ptime kept),
            role_to_posit_thing :=
              fold (\<lambda>r. lookup_insert r (pthing kept)) (set_roles (pset kept)) (role_to_posit_thing db)\<rparr>))"

section \<open>Appending to the store\<close>

text \<open>A batch is appended when there are records and there is a store.\<close>

definition append_records ::
    "io_fault \<Rightarrow> pending_record list \<Rightarrow> database \<Rightarrow> unit result \<times> database" where
  "append_records fault records db =
     (case store db of
        None \<Rightarrow> (Inr (), db)
      | Some s \<Rightarrow>
          let (r, s) = append_batch fault records s; db = db\<lparr>store := Some s\<rparr>
          in case r of Inl e \<Rightarrow> (Inl e, db) | Inr _ \<Rightarrow> (Inr (), db))"

definition db_flush :: "bool \<Rightarrow> database \<Rightarrow> unit result" where
  "db_flush synced db = (case store db of None \<Rightarrow> Inr () | Some s \<Rightarrow> flush_store synced s)"

definition contains_role :: "(string \<Rightarrow> string) \<Rightarrow> string \<Rightarrow> database \<Rightarrow> bool" where
  "contains_role nfc name db = (get_role nfc (nfc name) (role_keeper db) \<noteq> None)"

section \<open>Creating roles\<close>

datatype role_source = ExistingRole role | NewRole nat

fun prepare_roles ::
    "(string \<Rightarrow> string) \<Rightarrow> (string \<times> bool) list \<Rightarrow> role list \<Rightarrow> role_source list \<Rightarrow> database
       \<Rightarrow> (role list \<times> role_source list) result \<times> database" where
  "prepare_roles nfc [] prepared sources db = (Inr (prepared, sources), db)"
| "prepare_roles nfc ((name, res) # names) prepared sources db =
     (let canonical = nfc name
      in if canonical = [] then (Inl (Execution ''role name cannot be empty''), db)
         else
           case get_role nfc canonical (role_keeper db) of
             Some kept \<Rightarrow> prepare_roles nfc names prepared (sources @ [ExistingRole kept]) db
           | None \<Rightarrow>
               (case position (\<lambda>r. label r = canonical) prepared of
                  Some index \<Rightarrow>
                    if reserved (prepared ! index) \<noteq> res
                    then (Inl (Execution ''role has conflicting reserved status in one command''), db)
                    else prepare_roles nfc names prepared (sources @ [NewRole index]) db
                | None \<Rightarrow>
                    let (ident, g) = generate (generator db)
                    in prepare_roles nfc names (prepared @ [new_role nfc ident canonical res])
                         (sources @ [NewRole (length prepared)]) (db\<lparr>generator := g\<rparr>)))"

fun keep_roles :: "role list \<Rightarrow> database \<Rightarrow> role list \<times> database" where
  "keep_roles [] db = ([], db)"
| "keep_roles (r # rs) db =
     (let ((kept, _), db) = db_keep_role r db; (rest, db) = keep_roles rs db in (kept # rest, db))"

fun resolve_role :: "role list \<Rightarrow> role_source \<Rightarrow> role \<times> bool" where
  "resolve_role kept (ExistingRole r) = (r, True)"
| "resolve_role kept (NewRole index) = (kept ! index, False)"

definition create_roles ::
    "(string \<Rightarrow> string) \<Rightarrow> io_fault \<Rightarrow> (string \<times> bool) list \<Rightarrow> database
       \<Rightarrow> (role \<times> bool) list result \<times> database" where
  "create_roles nfc fault names db =
     attempt_st (prepare_roles nfc names [] [] db) (\<lambda>(prepared, sources) db.
     attempt_st
       (if prepared = [] then (Inr (), db) else append_records fault (map role_record prepared) db)
       (\<lambda>_ db.
     let (kept, db) = keep_roles prepared db in (Inr (map (resolve_role kept) sources), db)))"

section \<open>Creating posits\<close>

record assertion_spec =
  target_index :: nat
  spec_positor :: thing
  spec_certainty :: literal
  spec_time :: time

datatype posit_source = ExistingPosit posit | NewPosit nat

type_synonym pending_posit = "appearance_set \<times> literal \<times> time"

fun stage_literal_posits ::
    "pending_posit list \<Rightarrow> posit list \<Rightarrow> posit_source list \<Rightarrow> database
       \<Rightarrow> posit list \<times> posit_source list \<times> database" where
  "stage_literal_posits [] prepared sources db = (prepared, sources, db)"
| "stage_literal_posits ((s, v, t) # posits) prepared sources db =
     (let (ident, g) = generate (generator db);
          candidate = \<lparr>pthing = ident, pset = s, pvalue = v, ptime = t\<rparr>
      in case existing_posit candidate (posit_keeper db) of
           Some kept \<Rightarrow>
             stage_literal_posits posits prepared (sources @ [ExistingPosit kept])
               (db\<lparr>generator := release ident g\<rparr>)
         | None \<Rightarrow>
             (case position (\<lambda>p. pkey p = pkey candidate) prepared of
                Some index \<Rightarrow>
                  stage_literal_posits posits prepared (sources @ [NewPosit index])
                    (db\<lparr>generator := release ident g\<rparr>)
              | None \<Rightarrow>
                  stage_literal_posits posits (prepared @ [candidate])
                    (sources @ [NewPosit (length prepared)]) (db\<lparr>generator := g\<rparr>)))"

fun resolve_posit :: "posit list \<Rightarrow> posit_source \<Rightarrow> posit" where
  "resolve_posit kept (ExistingPosit p) = p"
| "resolve_posit kept (NewPosit index) = kept ! index"

text \<open>The loop that makes the appearance set of every assertion envelope.\<close>

fun envelope_posits ::
    "role \<Rightarrow> role \<Rightarrow> posit list \<Rightarrow> assertion_spec list \<Rightarrow> pending_posit list \<Rightarrow> database
       \<Rightarrow> pending_posit list result \<times> database" where
  "envelope_posits posit_role ascertains_role targets [] acc db = (Inr acc, db)"
| "envelope_posits posit_role ascertains_role targets (spec # specs) acc db =
     (if target_index spec \<ge> length targets
      then (Inl (Invariant ''validated assertion target disappeared''), db)
      else
        let ((target, _), db) = create_appearance (pthing (targets ! target_index spec)) posit_role db;
            ((source, _), db) = create_appearance (spec_positor spec) ascertains_role db
        in attempt_st (create_appearance_set [target, source] db) (\<lambda>(s, _) db.
             envelope_posits posit_role ascertains_role targets specs
               (acc @ [(s, spec_certainty spec, spec_time spec)]) db))"

fun keep_posits :: "posit list \<Rightarrow> database \<Rightarrow> posit list \<times> database" where
  "keep_posits [] db = ([], db)"
| "keep_posits (p # ps) db =
     (let ((kept, _), db) = keep_posit p db; (rest, db) = keep_posits ps db in (kept # rest, db))"

record created_posits =
  created_targets :: "posit list"
  created_assertions :: "posit list"

definition create_literal_posits_with_assertions ::
    "io_fault \<Rightarrow> pending_posit list \<Rightarrow> assertion_spec list \<Rightarrow> database
       \<Rightarrow> created_posits result \<times> database" where
  "create_literal_posits_with_assertions fault targets assertions db =
     (if list_ex (\<lambda>spec. target_index spec \<ge> length targets) assertions
      then (Inl (Invariant ''assertion target index is outside the targets''), db)
      else if list_ex (\<lambda>spec. family (spec_certainty spec) \<noteq> CertaintyFamily) assertions
      then (Inl (Execution ''assertion certainty must be a percent literal''), db)
      else
     let (prepared, target_sources, db) = stage_literal_posits targets [] [] db;
         staged_targets = map (resolve_posit prepared) target_sources
     in attempt_st (ok_or (Invariant ''built-in posit role is missing'')
          (role_lookup (role_keeper db) posit_role_id), db) (\<lambda>posit_role db.
        attempt_st (ok_or (Invariant ''built-in ascertains role is missing'')
          (role_lookup (role_keeper db) ascertains_role_id), db) (\<lambda>ascertains_role db.
        attempt_st (envelope_posits posit_role ascertains_role staged_targets assertions [] db)
          (\<lambda>envelopes db.
        let (prepared, assertion_sources, db) = stage_literal_posits envelopes prepared [] db
        in attempt_st
             (if prepared = [] then (Inr (), db)
              else attempt_st (try_map posit_record prepared, db) (\<lambda>records db.
                append_records fault records db)) (\<lambda>_ db.
           let (kept, db) = keep_posits prepared db
           in (Inr \<lparr>created_targets = map (resolve_posit kept) target_sources,
                 created_assertions = map (resolve_posit kept) assertion_sources\<rparr>, db))))))"

section \<open>Opening a database\<close>

definition ensure_builtin_role ::
    "(string \<Rightarrow> string) \<Rightarrow> thing \<Rightarrow> string \<Rightarrow> database \<Rightarrow> unit result \<times> database" where
  "ensure_builtin_role nfc ident name db =
     (case get_role nfc name (role_keeper db) of
        Some kept \<Rightarrow>
          if role_thing kept \<noteq> ident \<or> \<not> reserved kept
          then (corruption ''built-in role must be reserved'', db)
          else (Inr (), db)
      | None \<Rightarrow>
          (case role_lookup (role_keeper db) ident of
             Some _ \<Rightarrow> (corruption ''built-in role identity belongs to another role'', db)
           | None \<Rightarrow>
               let db = retain_thing ident db;
                   (_, db) = db_keep_role (new_role nfc ident name True) db
               in (Inr (), db)))"

fun ensure_builtin_roles ::
    "(string \<Rightarrow> string) \<Rightarrow> (thing \<times> string) list \<Rightarrow> database \<Rightarrow> unit result \<times> database" where
  "ensure_builtin_roles nfc [] db = (Inr (), db)"
| "ensure_builtin_roles nfc ((ident, name) # rs) db =
     attempt_st (ensure_builtin_role nfc ident name db) (\<lambda>_ db. ensure_builtin_roles nfc rs db)"

fun retain_and_keep_roles :: "role list \<Rightarrow> database \<Rightarrow> database" where
  "retain_and_keep_roles [] db = db"
| "retain_and_keep_roles (r # rs) db =
     retain_and_keep_roles rs (snd (db_keep_role r (retain_thing (role_thing r) db)))"

definition bootstrap_append_store ::
    "(string \<Rightarrow> string) \<Rightarrow> io_fault \<Rightarrow> database \<Rightarrow> unit result \<times> database" where
  "bootstrap_append_store nfc fault db =
     (let roles = map (\<lambda>(ident, name). new_role nfc ident name True) builtin_roles;
          records = map role_record roles @ codec_records
      in case store db of
           None \<Rightarrow> (Inl (Invariant ''persistent store is absent''), db)
         | Some _ \<Rightarrow>
             attempt_st (append_records fault records db) (\<lambda>_ db.
             (Inr (), retain_and_keep_roles roles db)))"

fun restore_roles ::
    "(string \<Rightarrow> string) \<Rightarrow> replayed_role list \<Rightarrow> database \<Rightarrow> unit result \<times> database" where
  "restore_roles nfc [] db = (Inr (), db)"
| "restore_roles nfc (r # rs) db =
     (let db = retain_thing (role_identity r) db;
          ((_, existed), db) =
            db_keep_role (new_role nfc (role_identity r) (role_name r) (role_reserved r)) db
      in if existed then (corruption ''duplicate Role survived logical replay'', db)
         else restore_roles nfc rs db)"

fun restore_appearances ::
    "(thing \<times> thing) list \<Rightarrow> appearance list \<Rightarrow> database \<Rightarrow> appearance list result \<times> database" where
  "restore_appearances [] acc db = (Inr acc, db)"
| "restore_appearances ((ident, t) # apps) acc db =
     attempt_st (ok_or (DataCorruption ''missing replayed Role'')
       (role_lookup (role_keeper db) ident), db) (\<lambda>r db.
     let db = retain_thing t db;
         ((a, _), db) = keep_appearance \<lparr>app_thing = t, app_role = r\<rparr> db
     in restore_appearances apps (acc @ [a]) db)"

fun restore_posits :: "replayed_posit list \<Rightarrow> database \<Rightarrow> unit result \<times> database" where
  "restore_posits [] db = (Inr (), db)"
| "restore_posits (p # ps) db =
     attempt_st (restore_appearances (posit_appearances p) [] db) (\<lambda>apps db.
     attempt_st (create_appearance_set apps db) (\<lambda>(s, _) db.
     let db = retain_thing (posit_identity p) db;
         ((_, existed), db) = keep_posit
           \<lparr>pthing = posit_identity p, pset = s, pvalue = posit_value p,
            ptime = posit_time p\<rparr> db
     in if existed then (corruption ''duplicate Posit survived logical replay'', db)
        else restore_posits ps db))"

definition restore_append_store ::
    "(string \<Rightarrow> string) \<Rightarrow> replayed_store \<Rightarrow> database \<Rightarrow> unit result \<times> database" where
  "restore_append_store nfc replayed db =
     (if \<not> has_required_codecs replayed
      then (corruption ''append-only store lacks the mandatory v1 codec registry'', db)
      else
     attempt_st (restore_roles nfc (replayed_roles replayed) db) (\<lambda>_ db.
     attempt_st (restore_posits (replayed_posits replayed) db) (\<lambda>_ db.
     ensure_builtin_roles nfc builtin_roles db)))"

datatype persistence_mode = InMemory | File disk

text \<open>\<open>Database::new\<close>: the result and, for a store, what its disk holds then.  The first failure is
  the one of opening the store, the second the one of the bootstrap append.\<close>

definition new_database ::
    "(string \<Rightarrow> string) \<Rightarrow> 'n literal_lib \<Rightarrow> chrono \<Rightarrow> bool \<Rightarrow> io_fault \<Rightarrow> io_fault \<Rightarrow> bytes option
       \<Rightarrow> persistence_mode \<Rightarrow> database result \<times> disk option" where
  "new_database nfc L C lock_free fault fault' random mode =
     (case mode of
        InMemory \<Rightarrow>
          (case ensure_builtin_roles nfc builtin_roles (empty_database None) of
             (Inl e, _) \<Rightarrow> (Inl e, None)
           | (Inr _, db) \<Rightarrow> (Inr db, None))
      | File d \<Rightarrow>
          (case open_replayed nfc L C lock_free fault random d of
             (Inl e, d) \<Rightarrow> (Inl e, Some d)
           | (Inr (s, replayed), d) \<Rightarrow>
               let db = empty_database (Some s);
                   (r, db) =
                     (if replayed_roles replayed = [] \<and> replayed_posits replayed = []
                         \<and> \<not> has_required_codecs replayed
                      then bootstrap_append_store nfc fault' db
                      else restore_append_store nfc replayed db);
                   (r, db) =
                     (case r of
                        Inl e \<Rightarrow> (Inl e, db)
                      | Inr _ \<Rightarrow>
                          if dom (kept_roles (role_keeper db)) = {}
                          then ensure_builtin_roles nfc builtin_roles db
                          else (Inr (), db))
               in (attempt r (\<lambda>_. Inr db), map_option store_disk (store db))))"

end
