(* ===== verification/Database_Invariants.thy ===== *)
theory Database_Invariants
  imports Database
begin

text \<open>
  What the keepers and lookups of a database hold, as functions of the lists of roles and posits it was
  given, and the invariant of a database: its roles and posits are a catalogue, its memory is that
  catalogue, its generator is above every identity in use, and its store, if any, replays to it.
\<close>

section \<open>Roles\<close>

definition roles_are :: "role list \<Rightarrow> role_keeper \<Rightarrow> bool" where
  "roles_are rs k \<longleftrightarrow> kept_roles k = map_of (map (\<lambda>r. (label r, r)) rs)
     \<and> role_lookup k = map_of (map (\<lambda>r. (role_thing r, r)) rs)"

lemma map_of_key_None: "map_of (map (\<lambda>x. (f x, g x)) xs) k = None \<longleftrightarrow> k \<notin> f ` set xs"
  by (simp add: map_of_eq_None_iff image_image)

lemma map_of_key_snoc:
  "f x \<notin> f ` set xs \<Longrightarrow>
     map_of (map (\<lambda>x. (f x, g x)) (xs @ [x])) = (map_of (map (\<lambda>x. (f x, g x)) xs))(f x \<mapsto> g x)"
  by (simp add: map_of_snoc map_of_key_None del: map_of_append)

lemma map_of_key_Some:
  "map_of (map (\<lambda>x. (f x, g x)) xs) k = Some v \<Longrightarrow> \<exists>x \<in> set xs. f x = k \<and> g x = v"
  by (drule map_of_SomeD) auto

lemma map_of_key_member:
  "distinct (map f xs) \<Longrightarrow> x \<in> set xs \<Longrightarrow> map_of (map (\<lambda>x. (f x, g x)) xs) (f x) = Some (g x)"
  by (rule map_of_is_SomeI) (auto simp: o_def)

lemma roles_are_empty: "roles_are [] new_role_keeper"
  by (simp add: roles_are_def new_role_keeper_def)

lemma keep_role_new:
  assumes "roles_are rs k" and "label r \<notin> label ` set rs" and "role_thing r \<notin> role_thing ` set rs"
  obtains k' where "keep_role r k = ((r, False), k')" and "roles_are (rs @ [r]) k'"
proof -
  have "kept_roles k (label r) = None"
    using assms(1,2) by (simp add: roles_are_def map_of_key_None)
  then show thesis
    using that assms by (simp add: keep_role_def roles_are_def map_of_key_snoc del: map_append)
qed

section \<open>Posits and their lookups\<close>

text \<open>The lookup that files every posit under the given keys.\<close>

definition filed :: "(posit \<Rightarrow> 'k list) \<Rightarrow> posit list \<Rightarrow> 'k \<rightharpoonup> thing set" where
  "filed keys ps k =
     (if \<exists>p \<in> set ps. k \<in> set (keys p) then Some (pthing ` {p \<in> set ps. k \<in> set (keys p)}) else None)"

definition posits_are :: "posit list \<Rightarrow> database \<Rightarrow> bool" where
  "posits_are ps db \<longleftrightarrow>
     posit_keeper db =
       \<lparr>by_posit = map_of (map (\<lambda>p. (pkey p, pthing p)) ps),
        by_thing = map_of (map (\<lambda>p. (pthing p, p)) ps), keeper_length = length ps\<rparr>
     \<and> posit_time_lookup db = map_of (map (\<lambda>p. (pthing p, ptime p)) ps)
     \<and> posit_thing_to_appearance_set db = map_of (map (\<lambda>p. (pthing p, pset p)) ps)
     \<and> appearance_set_to_posit_thing db = filed (\<lambda>p. [set_key (pset p)]) ps
     \<and> role_to_posit_thing db = filed (\<lambda>p. set_roles (pset p)) ps"

lemma filed_Nil [simp]: "filed keys [] = Map.empty"
  by (auto simp: filed_def)

lemma fold_lookup_insert:
  "fold (\<lambda>k. lookup_insert k v) ks index =
     (\<lambda>k. if k \<in> set ks then Some (insert v (case index k of None \<Rightarrow> {} | Some vs \<Rightarrow> vs)) else index k)"
  by (induction ks arbitrary: index) (auto simp: lookup_insert_def fun_eq_iff split: option.splits)

lemma fold_lookup_filed:
  "fold (\<lambda>k. lookup_insert k (pthing p)) (keys p) (filed keys ps) = filed keys (ps @ [p])"
  unfolding fold_lookup_insert by (auto simp: filed_def fun_eq_iff)

lemma keep_posit_new:
  assumes "posits_are ps db" and "pkey p \<notin> pkey ` set ps" and "pthing p \<notin> pthing ` set ps"
  obtains db' where "keep_posit p db = ((p, False), db')" and "posits_are (ps @ [p]) db'"
proof -
  have none: "by_posit (posit_keeper db) (pkey p) = None" "by_thing (posit_keeper db) (pthing p) = None"
    using assms by (simp_all add: posits_are_def map_of_key_None)
  have keep: "keep_posit_in p (posit_keeper db) = ((p, False),
      \<lparr>by_posit = (by_posit (posit_keeper db))(pkey p \<mapsto> pthing p),
       by_thing = (by_thing (posit_keeper db))(pthing p \<mapsto> p),
       keeper_length = keeper_length (posit_keeper db) + 1\<rparr>)"
    using none by (simp add: keep_posit_in_def bimap_insert_def Let_def)
  have one: "lookup_insert (set_key (pset p)) (pthing p) (filed (\<lambda>p. [set_key (pset p)]) ps) =
      filed (\<lambda>p. [set_key (pset p)]) (ps @ [p])"
    using fold_lookup_filed [of p "\<lambda>p. [set_key (pset p)]" ps] by simp
  have "posits_are (ps @ [p]) (snd (keep_posit p db))" and "fst (keep_posit p db) = (p, False)"
    unfolding keep_posit_def keep
    using assms one fold_lookup_filed [of p "\<lambda>p. set_roles (pset p)" ps]
    by (simp_all add: posits_are_def map_of_key_snoc Let_def del: map_append)
  then show thesis using that [of "snd (keep_posit p db)"] by (metis prod.collapse)
qed

lemma keep_posit_frame [simp]:
  "role_keeper (snd (keep_posit p db)) = role_keeper db"
  "store (snd (keep_posit p db)) = store db"
  "generator (snd (keep_posit p db)) = generator db"
  "appearance_keeper (snd (keep_posit p db)) = appearance_keeper db"
  "appearance_set_keeper (snd (keep_posit p db)) = appearance_set_keeper db"
  "thing_to_appearance (snd (keep_posit p db)) = thing_to_appearance db"
  by (auto simp: keep_posit_def Let_def split: prod.splits)

lemma posits_are_empty: "posits_are [] (empty_database s)"
  by (simp add: posits_are_def empty_database_def new_posit_keeper_def)

text \<open>Two databases hold the same catalogue.\<close>

definition same_catalogue :: "database \<Rightarrow> database \<Rightarrow> bool" where
  "same_catalogue db db' \<longleftrightarrow> role_keeper db = role_keeper db' \<and> posit_keeper db = posit_keeper db'
     \<and> posit_time_lookup db = posit_time_lookup db'
     \<and> posit_thing_to_appearance_set db = posit_thing_to_appearance_set db'
     \<and> appearance_set_to_posit_thing db = appearance_set_to_posit_thing db'
     \<and> role_to_posit_thing db = role_to_posit_thing db'"

lemma same_catalogue_lists:
  assumes "roles_are rs (role_keeper db)" and "posits_are ps db"
    and "roles_are rs (role_keeper db')" and "posits_are ps db'"
  shows "same_catalogue db db'"
  using assms by (cases "role_keeper db"; cases "role_keeper db'") (auto simp: same_catalogue_def roles_are_def posits_are_def)

lemma posits_are_cong:
  "same_catalogue db db' \<Longrightarrow> posits_are ps db \<longleftrightarrow> posits_are ps db'"
  by (simp add: same_catalogue_def posits_are_def)

section \<open>Appearances\<close>

definition kept_role :: "role_keeper \<Rightarrow> role \<Rightarrow> bool" where
  "kept_role k r \<longleftrightarrow> role_lookup k (role_thing r) = Some r"

definition wf_set :: "role_keeper \<Rightarrow> appearance_set \<Rightarrow> bool" where
  "wf_set k s \<longleftrightarrow> sorted_wrt (<) (set_roles s) \<and> (\<forall>a \<in> set s. kept_role k (app_role a))"

definition appearances_ok :: "database \<Rightarrow> bool" where
  "appearances_ok db \<longleftrightarrow>
     (\<forall>k a. appearance_keeper db k = Some a \<longrightarrow> akey a = k \<and> kept_role (role_keeper db) (app_role a))
     \<and> (\<forall>k s. appearance_set_keeper db k = Some s \<longrightarrow> set_key s = k \<and> wf_set (role_keeper db) s)
     \<and> thing_to_appearance db = (\<lambda>t.
         if \<exists>r. appearance_keeper db (r, t) \<noteq> None
         then Some {k \<in> dom (appearance_keeper db). snd k = t} else None)"

lemma appearances_ok_cong:
  "role_keeper db' = role_keeper db \<Longrightarrow> appearance_keeper db' = appearance_keeper db
     \<Longrightarrow> appearance_set_keeper db' = appearance_set_keeper db
     \<Longrightarrow> thing_to_appearance db' = thing_to_appearance db
     \<Longrightarrow> appearances_ok db' \<longleftrightarrow> appearances_ok db"
  by (simp only: appearances_ok_def)

lemma kept_role_unique:
  "kept_role k r \<Longrightarrow> kept_role k r' \<Longrightarrow> role_thing r = role_thing r' \<Longrightarrow> r = r'"
  by (simp add: kept_role_def)

lemma akey_inject:
  "kept_role k (app_role a) \<Longrightarrow> kept_role k (app_role b) \<Longrightarrow> akey a = akey b \<Longrightarrow> a = b"
  using kept_role_unique [of k "app_role a" "app_role b"] by (cases a; cases b) (auto simp: akey_def)

lemma set_key_inject:
  "wf_set k s \<Longrightarrow> wf_set k s' \<Longrightarrow> set_key s = set_key s' \<Longrightarrow> s = s'"
proof (induction s arbitrary: s')
  case (Cons a s)
  then obtain b t where s': "s' = b # t" "akey a = akey b" "set_key s = set_key t"
    by (cases s') (auto simp: set_key_def)
  have "a = b" using akey_inject [of k a b] Cons.prems s' by (simp add: wf_set_def)
  moreover have "s = t"
    using Cons.IH [of t] Cons.prems s' by (simp add: wf_set_def set_roles_def)
  ultimately show ?case by (simp add: s')
qed (simp add: set_key_def)

lemma keep_appearance_frame [simp]:
  "role_keeper (snd (keep_appearance a db)) = role_keeper db"
  "store (snd (keep_appearance a db)) = store db"
  "generator (snd (keep_appearance a db)) = generator db"
  "same_catalogue (snd (keep_appearance a db)) db"
  by (auto simp: keep_appearance_def same_catalogue_def Let_def split: prod.splits)

lemma keep_appearance_ok:
  assumes ok: "appearances_ok db" and r: "kept_role (role_keeper db) (app_role a)"
  shows "fst (fst (keep_appearance a db)) = a \<and> appearances_ok (snd (keep_appearance a db))"
proof (cases "appearance_keeper db (akey a)")
  case (Some b)
  then have "b = a" using ok r akey_inject unfolding appearances_ok_def by metis
  then show ?thesis using Some ok
    by (simp add: keep_appearance_def keep_appearance_in_def Let_def appearances_ok_def)
next
  case None
  let ?t = "thing_to_appearance db"
  have t: "?t = (\<lambda>t. if \<exists>r. appearance_keeper db (r, t) \<noteq> None
      then Some {k \<in> dom (appearance_keeper db). snd k = t} else None)"
    using ok by (simp add: appearances_ok_def)
  have "lookup_insert (app_thing a) (akey a) ?t = (\<lambda>t.
      if \<exists>r. ((appearance_keeper db)(akey a \<mapsto> a)) (r, t) \<noteq> None
      then Some {k \<in> dom ((appearance_keeper db)(akey a \<mapsto> a)). snd k = t} else None)"
    unfolding lookup_insert_def t by (rule ext) (auto simp: akey_def split: if_splits)
  moreover have "appearance_keeper (snd (keep_appearance a db)) = (appearance_keeper db)(akey a \<mapsto> a)"
      "appearance_set_keeper (snd (keep_appearance a db)) = appearance_set_keeper db"
      "thing_to_appearance (snd (keep_appearance a db)) = lookup_insert (app_thing a) (akey a) ?t"
      "fst (fst (keep_appearance a db)) = a"
    using None by (simp_all add: keep_appearance_def keep_appearance_in_def Let_def)
  moreover have "\<forall>k b. ((appearance_keeper db)(akey a \<mapsto> a)) k = Some b \<longrightarrow>
      akey b = k \<and> kept_role (role_keeper db) (app_role b)"
    using ok r by (simp add: appearances_ok_def)
  moreover have "\<forall>k s. appearance_set_keeper db k = Some s \<longrightarrow> set_key s = k \<and> wf_set (role_keeper db) s"
    using ok by (simp add: appearances_ok_def)
  ultimately show ?thesis
    unfolding appearances_ok_def keep_appearance_frame by (intro conjI) (assumption | simp only:)+
qed

lemma keep_appearance_set_frame [simp]:
  "role_keeper (snd (keep_appearance_set s db)) = role_keeper db"
  "store (snd (keep_appearance_set s db)) = store db"
  "generator (snd (keep_appearance_set s db)) = generator db"
  "same_catalogue (snd (keep_appearance_set s db)) db"
  by (auto simp: keep_appearance_set_def same_catalogue_def Let_def split: prod.splits)

lemma keep_appearance_set_ok:
  assumes ok: "appearances_ok db" and s: "wf_set (role_keeper db) s"
  shows "fst (fst (keep_appearance_set s db)) = s \<and> appearances_ok (snd (keep_appearance_set s db))"
proof (cases "appearance_set_keeper db (set_key s)")
  case (Some s')
  then have "s' = s" using ok s set_key_inject unfolding appearances_ok_def by metis
  moreover have "keep_appearance_set s db = ((s', True), db)"
    using Some by (simp add: keep_appearance_set_def keep_set_in_def)
  ultimately show ?thesis using ok by simp
next
  case None
  then have "appearance_keeper (snd (keep_appearance_set s db)) = appearance_keeper db"
      "appearance_set_keeper (snd (keep_appearance_set s db)) = (appearance_set_keeper db)(set_key s \<mapsto> s)"
      "thing_to_appearance (snd (keep_appearance_set s db)) = thing_to_appearance db"
      "fst (fst (keep_appearance_set s db)) = s"
    by (simp_all add: keep_appearance_set_def keep_set_in_def Let_def)
  moreover have "\<forall>k s'. ((appearance_set_keeper db)(set_key s \<mapsto> s)) k = Some s' \<longrightarrow>
      set_key s' = k \<and> wf_set (role_keeper db) s'"
    using ok s by (simp add: appearances_ok_def)
  ultimately show ?thesis
    using ok unfolding appearances_ok_def keep_appearance_set_frame
    by (elim conjE, intro conjI) (assumption | simp only:)+
qed

lemma new_appearance_set_canonical:
  assumes "sorted_wrt (<) (set_roles s)"
  shows "new_appearance_set s = Some s"
proof -
  have "sorted_wrt (\<lambda>a b. role_thing (app_role a) < role_thing (app_role b)) s"
    using assms by (simp add: set_roles_def sorted_wrt_map)
  then have "sorted_wrt (\<lambda>a b. akey a \<le> akey b) s"
    by (rule sorted_wrt_mono_rel [rotated]) (auto simp: akey_def less_eq_prod_def)
  then have "sort_key akey s = s" by (intro sort_key_id_if_sorted) (simp add: sorted_wrt_map)
  moreover have "\<not> any_adjacent (\<lambda>x y. role_thing (app_role x) = role_thing (app_role y)) s"
    using any_adjacent_eq_sorted [of "\<lambda>a. role_thing (app_role a)" s] assms
    by (simp add: set_roles_def strict_sorted_iff)
  ultimately show ?thesis by (simp add: new_appearance_set_def Let_def)
qed

lemma create_appearance_set_ok:
  assumes "appearances_ok db" and "wf_set (role_keeper db) s"
  obtains prev db' where "create_appearance_set s db = (Inr (s, prev), db')" and "appearances_ok db'"
    and "role_keeper db' = role_keeper db" and "store db' = store db" and "generator db' = generator db"
    and "same_catalogue db' db"
proof -
  obtain s' prev db' where k: "keep_appearance_set s db = ((s', prev), db')" by (metis prod.collapse)
  then have "s' = s" using keep_appearance_set_ok [OF assms] by simp
  moreover have "new_appearance_set s = Some s"
    using assms(2) by (intro new_appearance_set_canonical) (simp add: wf_set_def)
  ultimately have "create_appearance_set s db = (Inr (s, prev), db')"
    using k by (simp add: create_appearance_set_def)
  then show thesis
    using that k keep_appearance_set_ok [OF assms] keep_appearance_set_frame [of s db] by simp
qed

section \<open>The catalogue of a database\<close>

text \<open>What a replayed role, an appearance and a posit are in memory.\<close>

definition role_of :: "replayed_role \<Rightarrow> role" where
  "role_of r = \<lparr>role_thing = role_identity r, label = role_name r, reserved = role_reserved r\<rparr>"

definition appearance_of :: "replayed_role list \<Rightarrow> thing \<times> thing \<Rightarrow> appearance" where
  "appearance_of roles = (\<lambda>(ident, t). \<lparr>app_thing = t, app_role = role_of (the (role_map roles ident))\<rparr>)"

definition object_of :: "replayed_role list \<Rightarrow> replayed_posit \<Rightarrow> posit" where
  "object_of roles p =
     \<lparr>pthing = posit_identity p, pset = map (appearance_of roles) (posit_appearances p),
      pvalue = posit_value p, ptime = posit_time p\<rparr>"

definition things_of :: "replayed_role list \<Rightarrow> replayed_posit list \<Rightarrow> thing set" where
  "things_of roles posits = role_identity ` set roles \<union> posit_identity ` set posits
     \<union> (\<Union>p \<in> set posits. snd ` set (posit_appearances p))"

definition db_ok ::
    "(string \<Rightarrow> string) \<Rightarrow> 'n literal_lib \<Rightarrow> chrono \<Rightarrow> replayed_role list \<Rightarrow> replayed_posit list
       \<Rightarrow> database \<Rightarrow> bool" where
  "db_ok nfc L C roles posits db \<longleftrightarrow>
     catalogue nfc L C roles posits \<and> builtins_present roles
     \<and> roles_are (map role_of roles) (role_keeper db)
     \<and> posits_are (map (object_of roles) posits) db \<and> appearances_ok db
     \<and> (\<forall>t \<in> things_of roles posits. t \<le> lower_bound (generator db))"

text \<open>The batches in the store replay to the catalogue.\<close>

definition store_ok ::
    "(string \<Rightarrow> string) \<Rightarrow> 'n literal_lib \<Rightarrow> chrono \<Rightarrow> replayed_role list \<Rightarrow> replayed_posit list
       \<Rightarrow> log_store \<Rightarrow> bool" where
  "store_ok nfc L C roles posits s \<longleftrightarrow> (\<exists>uuid bss.
     store_holds s uuid bss \<and> replays_to nfc L C bss roles posits (set all_codecs))"

definition disk_ok ::
    "(string \<Rightarrow> string) \<Rightarrow> 'n literal_lib \<Rightarrow> chrono \<Rightarrow> replayed_role list \<Rightarrow> replayed_posit list
       \<Rightarrow> disk \<Rightarrow> bool" where
  "disk_ok nfc L C roles posits d \<longleftrightarrow> (\<exists>uuid bss.
     disk_holds d uuid bss \<and> replays_to nfc L C bss roles posits (set all_codecs))"

lemma role_of_simps [simp]:
  "role_thing (role_of r) = role_identity r" "label (role_of r) = role_name r"
  "reserved (role_of r) = role_reserved r"
  by (simp_all add: role_of_def)

lemma object_of_simps [simp]:
  "pthing (object_of roles p) = posit_identity p" "pvalue (object_of roles p) = posit_value p"
  "ptime (object_of roles p) = posit_time p"
  by (simp_all add: object_of_def)

lemma lookup_role_of:
  "roles_are (map role_of roles) k \<Longrightarrow> role_lookup k ident = map_option role_of (role_map roles ident)"
proof -
  have "map_of (map (\<lambda>r. (role_thing r, r)) (map role_of roles)) ident = map_option role_of (role_map roles ident)"
    by (induction roles) (auto simp: role_map_def)
  then show "roles_are (map role_of roles) k \<Longrightarrow> role_lookup k ident = map_option role_of (role_map roles ident)"
    by (simp add: roles_are_def)
qed

lemma known_appearance:
  assumes "roles_are (map role_of roles) k" and "ident \<in> role_identity ` set roles"
  shows "role_lookup k ident = Some (app_role (appearance_of roles (ident, t)))
    \<and> akey (appearance_of roles (ident, t)) = (ident, t)
    \<and> kept_role k (app_role (appearance_of roles (ident, t)))"
proof -
  obtain r where r: "role_map roles ident = Some r"
    using assms(2) role_map_None [of roles ident] by (metis option.exhaust)
  then have "role_identity r = ident" using role_map_Some by blast
  with r lookup_role_of [OF assms(1)] show ?thesis
    by (simp add: appearance_of_def akey_def kept_role_def)
qed

lemma known_object:
  assumes "roles_are (map role_of roles) k" and "known_roles roles p"
  shows "set_key (pset (object_of roles p)) = posit_appearances p
    \<and> pkey (object_of roles p) = proposition_of p
    \<and> set_roles (pset (object_of roles p)) = map fst (posit_appearances p)
    \<and> (canonical_appearances (posit_appearances p) \<longrightarrow> wf_set k (pset (object_of roles p)))"
proof -
  have app: "akey (appearance_of roles x) = x \<and> kept_role k (app_role (appearance_of roles x))"
    if "x \<in> set (posit_appearances p)" for x
    using known_appearance [OF assms(1), of "fst x" "snd x"] assms(2) that
    by (auto simp: known_roles_def)
  have key: "set_key (pset (object_of roles p)) = posit_appearances p"
    using app by (simp add: set_key_def object_of_def o_def map_idI)
  moreover have "set_roles s = map fst (set_key s)" for s
    by (simp add: set_roles_def set_key_def akey_def)
  ultimately show ?thesis
    using app
    by (auto simp: pkey_def proposition_of_def wf_set_def canonical_appearances_def object_of_def)
qed

section \<open>Restoring a catalogue\<close>

lemma retain_bound: "lower_bound (retain t g) = max t (lower_bound g)"
  by (auto simp: retain_def Let_def max_def dest: leD)

lemma restore_roles_ok:
  "roles_are (map role_of old) (role_keeper db)
     \<Longrightarrow> distinct (map role_identity (old @ new)) \<Longrightarrow> distinct (map role_name (old @ new))
     \<Longrightarrow> \<forall>r \<in> set new. nfc (role_name r) = role_name r
     \<Longrightarrow> \<exists>g k. restore_roles nfc new db = (Inr (), db\<lparr>generator := g, role_keeper := k\<rparr>)
        \<and> roles_are (map role_of (old @ new)) k \<and> lower_bound (generator db) \<le> lower_bound g
        \<and> (\<forall>r \<in> set new. role_identity r \<le> lower_bound g)"
proof (induction new arbitrary: old db)
  case Nil
  then show ?case by (intro exI [of _ "generator db"] exI [of _ "role_keeper db"]) simp
next
  case (Cons r new)
  have r: "new_role nfc (role_identity r) (role_name r) (role_reserved r) = role_of r"
    using Cons.prems(4) by (simp add: new_role_def role_of_def)
  obtain k where k: "keep_role (role_of r) (role_keeper db) = ((role_of r, False), k)"
      "roles_are (map role_of old @ [role_of r]) k"
    by (rule keep_role_new [OF Cons.prems(1), of "role_of r"]) (use Cons.prems(2,3) in auto)
  let ?db = "db\<lparr>generator := retain (role_identity r) (generator db), role_keeper := k\<rparr>"
  obtain g k' where "restore_roles nfc new ?db = (Inr (), ?db\<lparr>generator := g, role_keeper := k'\<rparr>)"
      "roles_are (map role_of ((old @ [r]) @ new)) k'" "lower_bound (generator ?db) \<le> lower_bound g"
      "\<forall>r \<in> set new. role_identity r \<le> lower_bound g"
    using Cons.IH [of "old @ [r]" ?db] Cons.prems k(2) by auto
  then show ?case
    using k(1) r by (intro exI [of _ g] exI [of _ k'])
      (auto simp: retain_thing_def db_keep_role_def retain_bound)
qed

lemma restore_appearances_ok:
  "roles_are (map role_of roles) (role_keeper db) \<Longrightarrow> appearances_ok db
     \<Longrightarrow> fst ` set apps \<subseteq> role_identity ` set roles
     \<Longrightarrow> \<exists>db'. restore_appearances apps acc db = (Inr (acc @ map (appearance_of roles) apps), db')
        \<and> appearances_ok db' \<and> role_keeper db' = role_keeper db \<and> store db' = store db
        \<and> same_catalogue db' db \<and> lower_bound (generator db) \<le> lower_bound (generator db')
        \<and> (\<forall>t \<in> snd ` set apps. t \<le> lower_bound (generator db'))"
proof (induction apps arbitrary: acc db)
  case Nil
  then show ?case by (simp add: same_catalogue_def)
next
  case (Cons x apps)
  obtain ident t where x: "x = (ident, t)" by (cases x)
  let ?a = "appearance_of roles (ident, t)" and ?db = "retain_thing t db"
  have a: "role_lookup (role_keeper db) ident = Some (app_role ?a)" "kept_role (role_keeper db) (app_role ?a)"
    using known_appearance [OF Cons.prems(1), of ident t] Cons.prems(3) x by auto
  have rec: "\<lparr>app_thing = t, app_role = app_role ?a\<rparr> = ?a" by (simp add: appearance_of_def)
  have ok: "appearances_ok ?db" and frame: "role_keeper ?db = role_keeper db" "store ?db = store db"
      "same_catalogue ?db db"
    using Cons.prems(2) appearances_ok_cong [of ?db db] by (simp_all add: retain_thing_def same_catalogue_def)
  obtain prev db1 where k: "keep_appearance ?a ?db = ((?a, prev), db1)" "appearances_ok db1"
    using keep_appearance_ok [OF ok] a(2) frame(1) by (metis prod.collapse)
  have db1: "role_keeper db1 = role_keeper db" "store db1 = store db" "same_catalogue db1 db"
      "generator db1 = retain t (generator db)"
    using keep_appearance_frame [of ?a ?db, unfolded k(1) snd_conv] frame
    by (auto simp: same_catalogue_def retain_thing_def)
  obtain db' where "restore_appearances apps (acc @ [?a]) db1 =
        (Inr ((acc @ [?a]) @ map (appearance_of roles) apps), db')"
      "appearances_ok db'" "role_keeper db' = role_keeper db1" "store db' = store db1"
      "same_catalogue db' db1" "lower_bound (generator db1) \<le> lower_bound (generator db')"
      "\<forall>t \<in> snd ` set apps. t \<le> lower_bound (generator db')"
    using Cons.IH [of db1 "acc @ [?a]"] Cons.prems(1,3) k(2) db1(1) by auto
  then show ?case
    using x a(1) k(1) db1 by (intro exI [of _ db'])
      (auto simp: rec same_catalogue_def retain_bound)
qed

lemma restore_posits_ok:
  "roles_are (map role_of roles) (role_keeper db) \<Longrightarrow> appearances_ok db
     \<Longrightarrow> posits_are (map (object_of roles) old) db \<Longrightarrow> catalogue nfc L C roles (old @ new)
     \<Longrightarrow> \<exists>db'. restore_posits new db = (Inr (), db') \<and> appearances_ok db'
        \<and> posits_are (map (object_of roles) (old @ new)) db'
        \<and> role_keeper db' = role_keeper db \<and> store db' = store db
        \<and> lower_bound (generator db) \<le> lower_bound (generator db')
        \<and> (\<forall>t \<in> things_of [] new. t \<le> lower_bound (generator db'))"
proof (induction new arbitrary: old db)
  case Nil
  then show ?case by (simp add: things_of_def)
next
  case (Cons p new)
  let ?o = "object_of roles p"
  have p: "known_roles roles p" "canonical_appearances (posit_appearances p)"
    using Cons.prems(4) by (auto simp: catalogue_def wf_posit_def)
  obtain db1 where a: "restore_appearances (posit_appearances p) [] db = (Inr (pset ?o), db1)"
      "appearances_ok db1" "role_keeper db1 = role_keeper db" "store db1 = store db" "same_catalogue db1 db"
      "lower_bound (generator db) \<le> lower_bound (generator db1)"
      "\<forall>t \<in> snd ` set (posit_appearances p). t \<le> lower_bound (generator db1)"
    using restore_appearances_ok [OF Cons.prems(1,2), of "posit_appearances p" "[]"] p(1)
    by (auto simp: known_roles_def object_of_def)
  have "wf_set (role_keeper db1) (pset ?o)"
    using known_object [OF Cons.prems(1) p(1)] p(2) a(3) by simp
  then obtain prev db2 where s: "create_appearance_set (pset ?o) db1 = (Inr (pset ?o, prev), db2)"
      "appearances_ok db2" "role_keeper db2 = role_keeper db1" "store db2 = store db1"
      "generator db2 = generator db1" "same_catalogue db2 db1"
    using create_appearance_set_ok [OF a(2)] by metis
  let ?db = "retain_thing (posit_identity p) db2"
  have "posits_are (map (object_of roles) old) ?db"
    using Cons.prems(3) a(5) s(6) by (simp add: posits_are_def same_catalogue_def retain_thing_def)
  moreover have "pkey ?o \<notin> pkey ` set (map (object_of roles) old)"
    "pthing ?o \<notin> pthing ` set (map (object_of roles) old)"
  proof -
    have key: "pkey (object_of roles q) = proposition_of q" if "q \<in> set (old @ p # new)" for q
      using known_object [OF Cons.prems(1), of q] Cons.prems(4) that by (auto simp: catalogue_def)
    then have "pkey ` set (map (object_of roles) old) = proposition_of ` set old"
      by (auto simp: image_image intro!: image_cong)
    then show "pkey ?o \<notin> pkey ` set (map (object_of roles) old)"
        "pthing ?o \<notin> pthing ` set (map (object_of roles) old)"
      using Cons.prems(4) key [of p] by (auto simp: catalogue_def image_image)
  qed
  ultimately obtain db3 where k: "keep_posit ?o ?db = ((?o, False), db3)"
      "posits_are (map (object_of roles) old @ [?o]) db3"
    by (rule keep_posit_new)
  have db3: "role_keeper db3 = role_keeper db" "store db3 = store db" "appearances_ok db3"
      "generator db3 = retain (posit_identity p) (generator db1)"
    using keep_posit_frame [of ?o ?db, unfolded k(1) snd_conv] a(3,4) s(2-5) appearances_ok_cong [of db3 db2]
    by (auto simp: retain_thing_def)
  obtain db' where rest: "restore_posits new db3 = (Inr (), db')" "appearances_ok db'"
      "posits_are (map (object_of roles) ((old @ [p]) @ new)) db'"
      "role_keeper db' = role_keeper db3" "store db' = store db3"
      "lower_bound (generator db3) \<le> lower_bound (generator db')"
      "\<forall>t \<in> things_of [] new. t \<le> lower_bound (generator db')"
    using Cons.IH [of db3 "old @ [p]"] Cons.prems(1,4) db3 k(2) by auto
  have rec: "\<lparr>pthing = posit_identity p, pset = pset ?o, pvalue = posit_value p, ptime = posit_time p\<rparr> = ?o"
    by (simp add: object_of_def)
  have run: "restore_posits (p # new) db = (Inr (), db')"
    by (simp add: a(1) s(1) rec k(1) rest(1))
  have bound: "lower_bound (generator db1) \<le> lower_bound (generator db')"
      "posit_identity p \<le> lower_bound (generator db')"
    using rest(6) db3(4) by (simp_all add: retain_bound)
  have "things_of [] (p # new) =
      insert (posit_identity p) (snd ` set (posit_appearances p) \<union> things_of [] new)"
    by (auto simp: things_of_def)
  then have "\<forall>t \<in> things_of [] (p # new). t \<le> lower_bound (generator db')"
    using rest(7) bound order_trans [OF _ bound(1)] a(7) by (simp add: ball_Un)
  with run show ?case
    using rest a(6) bound(1) db3(1,2) by (intro exI [of _ db']) (auto intro: order_trans)
qed

lemma builtin_kept:
  assumes "catalogue nfc L C roles posits" and "builtins_present roles"
    and "roles_are (map role_of roles) k" and "(ident, name) \<in> set builtin_roles"
  defines "r \<equiv> \<lparr>role_thing = ident, label = name, reserved = True\<rparr>"
  shows "nfc name = name \<and> kept_roles k name = Some r \<and> role_lookup k ident = Some r"
proof -
  let ?r = "\<lparr>role_identity = ident, role_name = name, role_reserved = True\<rparr>"
  have r: "?r \<in> set roles" "role_of ?r = r" "wf_role nfc ?r"
    using assms(1,2,4) by (auto simp: builtins_present_def catalogue_def r_def role_of_def)
  have "distinct (map label (map role_of roles))" "distinct (map role_thing (map role_of roles))"
    using assms(1) by (simp_all add: catalogue_def o_def)
  then have "kept_roles k (label r) = Some r" "role_lookup k (role_thing r) = Some r"
    using r(1,2) assms(3) map_of_key_member [where x = r and xs = "map role_of roles"]
    by (force simp: roles_are_def)+
  with r(3) show ?thesis by (simp add: r_def wf_role_def)
qed

lemma ensure_builtin_roles_present:
  assumes "catalogue nfc L C roles posits" and "builtins_present roles"
    and "roles_are (map role_of roles) (role_keeper db)"
  shows "set rs \<subseteq> set builtin_roles \<Longrightarrow> ensure_builtin_roles nfc rs db = (Inr (), db)"
proof (induction rs)
  case (Cons x rs)
  then show ?case
    using builtin_kept [OF assms, of "fst x" "snd x"]
    by (cases x) (simp add: ensure_builtin_role_def get_role_def)
qed simp

lemma empty_database_ok: "appearances_ok (empty_database s)"
  by (simp add: appearances_ok_def empty_database_def)

lemma restore_append_store_ok:
  assumes cat: "catalogue nfc L C roles posits" and builtins: "builtins_present roles"
  obtains db where "restore_append_store nfc \<lparr>replayed_uuid = uuid, replayed_roles = roles,
      replayed_posits = posits, has_required_codecs = True\<rparr> (empty_database (Some s)) = (Inr (), db)"
    and "db_ok nfc L C roles posits db" and "store db = Some s"
proof -
  let ?e = "empty_database (Some s)"
  have e: "roles_are (map role_of []) (role_keeper ?e)"
    by (simp add: empty_database_def roles_are_empty)
  have "distinct (map role_identity ([] @ roles))" "distinct (map role_name ([] @ roles))"
      "\<forall>r \<in> set roles. nfc (role_name r) = role_name r"
    using cat by (auto simp: catalogue_def wf_role_def)
  from restore_roles_ok [OF e this] obtain g k
    where r: "restore_roles nfc roles ?e = (Inr (), ?e\<lparr>generator := g, role_keeper := k\<rparr>)"
      "roles_are (map role_of roles) k" "\<forall>r \<in> set roles. role_identity r \<le> lower_bound g"
    by auto
  let ?d = "?e\<lparr>generator := g, role_keeper := k\<rparr>"
  have "appearances_ok ?d" "posits_are (map (object_of roles) []) ?d"
    using posits_are_empty [of "Some s"] by (simp_all add: appearances_ok_def empty_database_def posits_are_def)
  then obtain db where p: "restore_posits posits ?d = (Inr (), db)" "appearances_ok db"
      "posits_are (map (object_of roles) posits) db" "role_keeper db = k" "store db = Some s"
      "lower_bound g \<le> lower_bound (generator db)"
      "\<forall>t \<in> things_of [] posits. t \<le> lower_bound (generator db)"
    using restore_posits_ok [of roles ?d "[]" nfc L C posits] r(2) cat
    by (auto simp: empty_database_def)
  have "things_of roles posits = role_identity ` set roles \<union> things_of [] posits"
    by (simp add: things_of_def Un_assoc)
  then have "\<forall>t \<in> things_of roles posits. t \<le> lower_bound (generator db)"
    using p(7) r(3) order_trans [OF _ p(6)] by (simp add: ball_Un)
  then have ok: "db_ok nfc L C roles posits db"
    using p r(2) assms by (simp add: db_ok_def)
  have "ensure_builtin_roles nfc builtin_roles db = (Inr (), db)"
    using ensure_builtin_roles_present [OF assms, of db builtin_roles] p(4) r(2) by simp
  then have "restore_append_store nfc \<lparr>replayed_uuid = uuid, replayed_roles = roles,
      replayed_posits = posits, has_required_codecs = True\<rparr> ?e = (Inr (), db)"
    by (simp add: restore_append_store_def r(1) p(1))
  then show thesis by (rule that [OF _ ok p(5)])
qed

lemma new_database_restores:
  assumes d: "disk_ok nfc L C roles posits d" and "log_fits d"
    and cat: "catalogue nfc L C roles posits" and builtins: "builtins_present roles"
  obtains db s where "new_database nfc L C True fault fault' random (File d) = (Inr db, Some (store_disk s))"
    and "db_ok nfc L C roles posits db" and "store db = Some s" and "store_ok nfc L C roles posits s"
proof -
  obtain uuid bss where h: "disk_holds d uuid bss" "replays_to nfc L C bss roles posits (set all_codecs)"
    using d by (auto simp: disk_ok_def)
  let ?rs = "\<lparr>replayed_uuid = uuid, replayed_roles = roles, replayed_posits = posits,
    has_required_codecs = True\<rparr>"
  obtain s where s: "store_holds s uuid bss"
    and run: "open_replayed nfc L C True fault random d = (Inr (s, ?rs), store_disk s)"
    using open_replayed_holds [OF h(1) assms(2) h(2) finish_replay_ok [OF cat builtins]] by auto
  obtain db where db: "restore_append_store nfc ?rs (empty_database (Some s)) = (Inr (), db)"
      "db_ok nfc L C roles posits db" "store db = Some s"
    using restore_append_store_ok [OF cat builtins] by metis
  have "(posit_role_id, ''posit'') \<in> set builtin_roles" by (simp add: builtin_roles_def)
  moreover have "roles_are (map role_of roles) (role_keeper db)" using db(2) by (simp add: db_ok_def)
  ultimately have "kept_roles (role_keeper db) ''posit'' \<noteq> None"
    using builtin_kept [OF cat builtins] by fastforce
  then have "dom (kept_roles (role_keeper db)) \<noteq> {}" by auto
  then have "new_database nfc L C True fault fault' random (File d) = (Inr db, Some (store_disk s))"
    using run db by (simp add: new_database_def)
  then show thesis
    using that db(2,3) s h(2) by (auto simp: store_ok_def)
qed

end
