(* ===== verification/Database_Operations.thy ===== *)
theory Database_Operations
  imports Database_Invariants
begin

text \<open>
  What creating roles and posits does to a database and its store: the catalogue grows by the new
  roles or posits and by nothing else, in memory and on disk together; a failure leaves the catalogue
  in memory as it was and the disk with the old catalogue or the whole new one.
\<close>

section \<open>Laws of the normalisation\<close>

text \<open>Unicode normalisation to NFC is idempotent, leaves ASCII alone and yields a string.\<close>

definition nfc_laws :: "(string \<Rightarrow> string) \<Rightarrow> bool" where
  "nfc_laws nfc \<longleftrightarrow> (\<forall>s. nfc (nfc s) = nfc s) \<and> (\<forall>s. wf_string s \<longrightarrow> wf_string (nfc s))
     \<and> (\<forall>s. (\<forall>c \<in> set s. of_char c < (128 :: nat)) \<longrightarrow> nfc s = s)"

section \<open>Appending\<close>

lemma number_records_payloads:
  "rec_payload ` set (number_records recs seq) = pending_payload ` set recs"
  by (induction recs arbitrary: seq) (simp_all add: store_record_def)

text \<open>A batch that replays from one catalogue to the next takes the store from the one to the other,
  or fails and leaves the disk with one of the two.\<close>

lemma store_append_cases:
  assumes ok: "store_ok nfc L C roles posits s" and run: "append_batch fault recs s = (r, s')"
    and fits: "log_fits (store_disk s')"
    and batch: "\<And>seq. \<forall>r \<in> set recs. length (pending_payload r) < 2 ^ 64 \<Longrightarrow>
      apply_batch nfc L C (number_records recs seq) (replay_state [] roles posits (set all_codecs)) =
        Inr (replay_state [] roles' posits' (set all_codecs))"
  obtains st where "r = Inr st" and "store_ok nfc L C roles' posits' s'"
  | e where "r = Inl e" and "s' = s"
  | e where "r = Inl e" and "poisoned s'"
      and "disk_ok nfc L C roles posits (store_disk s') \<or> disk_ok nfc L C roles' posits' (store_disk s')"
proof -
  obtain uuid bss where s: "store_holds s uuid bss"
    and rep: "replays_to nfc L C bss roles posits (set all_codecs)"
    using ok by (auto simp: store_ok_def)
  let ?new = "number_records recs (next_sequence s)"
  have new: "replays_to nfc L C (bss @ [?new]) roles' posits' (set all_codecs)"
    if h: "disk_holds d uuid (bss @ [?new])" for d
  proof -
    have "\<forall>r \<in> set ?new. length (rec_payload r) < 2 ^ 64"
      using h logged_payloads by (fastforce simp: disk_holds_def)
    then have "\<forall>x \<in> rec_payload ` set ?new. length x < 2 ^ 64" by simp
    then have "\<forall>r \<in> set recs. length (pending_payload r) < 2 ^ 64"
      unfolding number_records_payloads by simp
    from replays_to_snoc [OF rep batch [OF this]] show ?thesis .
  qed
  show thesis
  proof (rule append_batch_cases [OF s run fits])
    fix e assume "r = Inl e" "s' = s"
    then show thesis by (rule that(2))
  next
    fix e assume "r = Inl e" "poisoned s'" "disk_holds (store_disk s') uuid bss"
    with rep that(3) show thesis unfolding disk_ok_def by blast
  next
    fix e assume "r = Inl e" "poisoned s'" "disk_holds (store_disk s') uuid (bss @ [?new])"
    with new that(3) show thesis unfolding disk_ok_def by blast
  next
    assume "r = Inr ?new" "store_holds s' uuid (bss @ [?new])"
    with new store_disk_holds that(1) show thesis unfolding store_ok_def by blast
  qed
qed

text \<open>The database version.\<close>

definition settled ::
    "(string \<Rightarrow> string) \<Rightarrow> 'n literal_lib \<Rightarrow> chrono \<Rightarrow> replayed_role list \<Rightarrow> replayed_posit list
       \<Rightarrow> database \<Rightarrow> bool" where
  "settled nfc L C roles posits db \<longleftrightarrow>
     db_ok nfc L C roles posits db \<and> (\<forall>s. store db = Some s \<longrightarrow> store_ok nfc L C roles posits s)"

text \<open>A database whose last append failed: memory has the old catalogue, the writer is closed, and the
  disk has the old catalogue or the new one.\<close>

definition uncertain ::
    "(string \<Rightarrow> string) \<Rightarrow> 'n literal_lib \<Rightarrow> chrono \<Rightarrow> replayed_role list \<Rightarrow> replayed_posit list
       \<Rightarrow> replayed_role list \<Rightarrow> replayed_posit list \<Rightarrow> database \<Rightarrow> bool" where
  "uncertain nfc L C roles posits roles' posits' db \<longleftrightarrow>
     db_ok nfc L C roles posits db
     \<and> (\<exists>s. store db = Some s \<and> poisoned s
       \<and> (disk_ok nfc L C roles posits (store_disk s) \<or> disk_ok nfc L C roles' posits' (store_disk s)))"

definition db_fits :: "database \<Rightarrow> bool" where
  "db_fits db \<longleftrightarrow> (\<forall>s. store db = Some s \<longrightarrow> log_fits (store_disk s))"

lemma db_ok_store [simp]: "db_ok nfc L C roles posits (db\<lparr>store := s\<rparr>) \<longleftrightarrow> db_ok nfc L C roles posits db"
  using appearances_ok_cong [of "db\<lparr>store := s\<rparr>" db] by (simp add: db_ok_def posits_are_def)

lemma append_records_cases:
  assumes ok: "settled nfc L C roles posits db" and run: "append_records fault recs db = (r, db')"
    and fits: "db_fits db'"
    and batch: "\<And>seq. \<forall>r \<in> set recs. length (pending_payload r) < 2 ^ 64 \<Longrightarrow>
      apply_batch nfc L C (number_records recs seq) (replay_state [] roles posits (set all_codecs)) =
        Inr (replay_state [] roles' posits' (set all_codecs))"
  obtains s where "r = Inr ()" and "db' = db\<lparr>store := s\<rparr>"
      and "\<forall>t. s = Some t \<longrightarrow> store_ok nfc L C roles' posits' t"
  | e where "r = Inl e" and "db' = db"
  | e where "r = Inl e" and "uncertain nfc L C roles posits roles' posits' db'"
proof (cases "store db")
  case None
  then have "r = Inr ()" "db' = db" using run by (simp_all add: append_records_def)
  moreover have "db = db\<lparr>store := None\<rparr>" using None by (cases db) simp
  ultimately show thesis using that(1) [of None] by blast
next
  case (Some s)
  obtain r' s' where a: "append_batch fault recs s = (r', s')" by fastforce
  have db': "db' = db\<lparr>store := Some s'\<rparr>" and r: "r = (case r' of Inl e \<Rightarrow> Inl e | Inr _ \<Rightarrow> Inr ())"
    using run Some a by (auto simp: append_records_def Let_def split: sum.splits)
  have s: "store_ok nfc L C roles posits s" and s': "log_fits (store_disk s')"
    using ok fits Some db' by (auto simp: settled_def db_fits_def)
  show thesis
  proof (rule store_append_cases [OF s a s' batch])
    fix st assume "r' = Inr st" "store_ok nfc L C roles' posits' s'"
    then show thesis using that(1) [of "Some s'"] db' r by simp
  next
    fix e assume "r' = Inl e" "s' = s"
    then show thesis using that(2) [of e] db' r Some by simp
  next
    fix e assume "r' = Inl e" "poisoned s'"
      "disk_ok nfc L C roles posits (store_disk s') \<or> disk_ok nfc L C roles' posits' (store_disk s')"
    then show thesis
      using that(3) [of e] db' r ok by (simp add: uncertain_def settled_def)
  qed
qed

section \<open>Creating roles\<close>

text \<open>The roles a command prepares: unknown names, normalised and not empty, each once, with identities
  above every one handed out before.\<close>

definition fresh_roles :: "(string \<Rightarrow> string) \<Rightarrow> role_keeper \<Rightarrow> thing \<Rightarrow> role list \<Rightarrow> thing \<Rightarrow> bool" where
  "fresh_roles nfc k low rs high \<longleftrightarrow>
     distinct (map label rs) \<and> distinct (map role_thing rs) \<and> low \<le> high
     \<and> (\<forall>r \<in> set rs. kept_roles k (label r) = None \<and> label r \<noteq> [] \<and> nfc (label r) = label r
          \<and> wf_string (label r) \<and> low < role_thing r \<and> role_thing r \<le> high)"

text \<open>What a source stands for, of the name asked for.\<close>

fun source_ok :: "(string \<Rightarrow> string) \<Rightarrow> role_keeper \<Rightarrow> role list \<Rightarrow> string \<Rightarrow> role_source \<Rightarrow> bool" where
  "source_ok nfc k prepared name (ExistingRole r) \<longleftrightarrow> kept_roles k (nfc name) = Some r"
| "source_ok nfc k prepared name (NewRole i) \<longleftrightarrow>
     i < length prepared \<and> label (prepared ! i) = nfc name \<and> kept_roles k (nfc name) = None"

lemma generate_above:
  assumes "unat (lower_bound g) + 1 < 2 ^ 64"
  shows "lower_bound g < lower_bound g + 1"
    and "unat (lower_bound g + 1) = unat (lower_bound g) + 1"
proof -
  show "unat (lower_bound g + 1) = unat (lower_bound g) + 1"
    using assms by (simp add: unat_word_ariths)
  then show "lower_bound g < lower_bound g + 1" by (simp add: word_less_nat_alt)
qed

lemma source_ok_append: "source_ok nfc k xs name src \<Longrightarrow> source_ok nfc k (xs @ ys) name src"
  by (cases src) (auto simp: nth_append)

lemma prepare_roles_fresh:
  "prepare_roles nfc names prepared sources db = (r, db')
     \<Longrightarrow> nfc_laws nfc
     \<Longrightarrow> fresh_roles nfc (role_keeper db) low prepared (lower_bound (generator db))
     \<Longrightarrow> \<forall>(n, _) \<in> set names. wf_string n
     \<Longrightarrow> list_all2 (source_ok nfc (role_keeper db) prepared) handled sources
     \<Longrightarrow> unat (lower_bound (generator db)) + length names < 2 ^ 64
     \<Longrightarrow> \<exists>g. db' = db\<lparr>generator := g\<rparr> \<and> lower_bound (generator db) \<le> lower_bound g
        \<and> (\<forall>prepared' sources'. r = Inr (prepared', sources') \<longrightarrow>
            fresh_roles nfc (role_keeper db) low prepared' (lower_bound g)
            \<and> list_all2 (source_ok nfc (role_keeper db) prepared') (handled @ map fst names) sources')"
proof (induction nfc names prepared sources db arbitrary: handled rule: prepare_roles.induct)
  case (1 nfc prepared sources db)
  then show ?case by (intro exI [of _ "generator db"]) auto
next
  case (2 nfc name res names prepared sources db)
  let ?c = "nfc name" and ?k = "role_keeper db"
  have idem: "nfc ?c = ?c" using "2.prems"(2) by (simp add: nfc_laws_def)
  have get: "get_role nfc ?c ?k = kept_roles ?k ?c" by (simp add: get_role_def idem)
  show ?case
  proof (cases "?c = []")
    case True
    with "2.prems" show ?thesis by (intro exI [of _ "generator db"]) auto
  next
    case named: False
    show ?thesis
    proof (cases "kept_roles ?k ?c")
      case (Some kept)
      then have "source_ok nfc ?k prepared name (ExistingRole kept)" by simp
      with "2.IH"(3) [OF refl named, unfolded get, OF Some, of "handled @ [name]"] "2.prems" named Some get
      show ?thesis by (simp add: list_all2_appendI)
    next
      case None
      show ?thesis
      proof (cases "position (\<lambda>r. label r = ?c) prepared")
        case (Some i)
        show ?thesis
        proof (cases "reserved (prepared ! i) \<noteq> res")
          case True
          with "2.prems"(1) named None Some get show ?thesis
            by (intro exI [of _ "generator db"]) auto
        next
          case False
          have "source_ok nfc ?k prepared name (NewRole i)"
            using position_Some [OF Some] None by simp
          with "2.IH"(2) [OF refl named, unfolded get, OF None Some False, of "handled @ [name]"]
            "2.prems" named None Some False get
          show ?thesis by (simp add: list_all2_appendI)
        qed
      next
        case new: None
        let ?id = "lower_bound (generator db) + 1"
        let ?r = "new_role nfc ?id ?c res"
        obtain g1 where gen: "generate (generator db) = (?id, g1)" "lower_bound g1 = ?id"
          by (simp add: generate_def Let_def)
        have above: "lower_bound (generator db) < ?id" "unat ?id = unat (lower_bound (generator db)) + 1"
          using generate_above [of "generator db"] "2.prems"(6) by simp_all
        have fresh: "fresh_roles nfc ?k low (prepared @ [?r]) ?id"
          using "2.prems"(2-4) named None idem above(1) new [unfolded position_None]
          by (force simp: fresh_roles_def new_role_def nfc_laws_def)
        have src: "list_all2 (source_ok nfc ?k (prepared @ [?r])) (handled @ [name]) (sources @ [NewRole (length prepared)])"
          using "2.prems"(5) None idem by (intro list_all2_appendI)
            (auto simp: new_role_def intro: list_all2_mono source_ok_append)
        obtain g where "db' = (db\<lparr>generator := g1\<rparr>)\<lparr>generator := g\<rparr>" "?id \<le> lower_bound g"
          "\<forall>prepared' sources'. r = Inr (prepared', sources') \<longrightarrow>
            fresh_roles nfc ?k low prepared' (lower_bound g)
            \<and> list_all2 (source_ok nfc ?k prepared') ((handled @ [name]) @ map fst names) sources'"
          using "2.IH"(1) [OF refl named, unfolded get, OF None new refl gen(1) [symmetric], of "handled @ [name]"]
            "2.prems" named None new get gen fresh src above(2) by auto
        then show ?thesis using above(1) by (intro exI [of _ g]) (auto intro: order_trans)
      qed
    qed
  qed
qed

definition replayed_of_role :: "role \<Rightarrow> replayed_role" where
  "replayed_of_role r = \<lparr>role_identity = role_thing r, role_name = label r, role_reserved = reserved r\<rparr>"

lemma replayed_of_role_simps [simp]:
  "role_identity (replayed_of_role r) = role_thing r" "role_name (replayed_of_role r) = label r"
  "role_of (replayed_of_role r) = r" "role_record_of (replayed_of_role r) = role_record r"
  by (simp_all add: replayed_of_role_def role_of_def role_record_of_def role_record_def)

lemma catalogue_roles:
  assumes "catalogue nfc L C roles posits" and "\<forall>r \<in> set new. wf_role nfc r"
    and "distinct (map role_identity new)" and "distinct (map role_name new)"
    and "role_identity ` set new \<inter> things_of roles posits = {}"
    and "role_name ` set new \<inter> role_name ` set roles = {}"
  shows "catalogue nfc L C (roles @ new) posits"
  unfolding catalogue_def
proof (intro conjI)
  show "\<forall>r \<in> set (roles @ new). wf_role nfc r" using assms(1,2) by (auto simp: catalogue_def)
  show "\<forall>p \<in> set posits. wf_posit L C p \<and> known_roles (roles @ new) p"
    using assms(1) by (simp add: catalogue_def known_roles_def image_Un le_supI1)
  show "distinct (map role_identity (roles @ new) @ map posit_identity posits)"
    using assms(1,3,5) by (auto simp: catalogue_def things_of_def)
  show "distinct (map role_name (roles @ new))" "distinct (map proposition_of posits)"
    using assms(1,4,6) by (auto simp: catalogue_def)
qed

lemma roles_are_label:
  "roles_are (map role_of roles) k \<Longrightarrow> kept_roles k name = None \<longleftrightarrow> name \<notin> role_name ` set roles"
  by (auto simp only: roles_are_def map_of_key_None set_map image_image role_of_simps)

lemma fresh_roles_catalogue:
  assumes ok: "db_ok nfc L C roles posits db"
    and fresh: "fresh_roles nfc (role_keeper db) (lower_bound (generator db)) prepared high"
  shows "catalogue nfc L C (roles @ map replayed_of_role prepared) posits"
proof (rule catalogue_roles)
  show "catalogue nfc L C roles posits" using ok by (simp add: db_ok_def)
  show "\<forall>r \<in> set (map replayed_of_role prepared). wf_role nfc r"
    using fresh by (auto simp: fresh_roles_def wf_role_def)
  show "distinct (map role_identity (map replayed_of_role prepared))"
      "distinct (map role_name (map replayed_of_role prepared))"
    using fresh by (simp_all add: fresh_roles_def o_def)
  show "role_identity ` set (map replayed_of_role prepared) \<inter> things_of roles posits = {}"
    using ok fresh by (fastforce simp: db_ok_def fresh_roles_def)
  show "role_name ` set (map replayed_of_role prepared) \<inter> role_name ` set roles = {}"
    using fresh roles_are_label [of roles "role_keeper db"] ok
    by (fastforce simp: fresh_roles_def db_ok_def)
qed

lemma keep_roles_new:
  "roles_are rs (role_keeper db) \<Longrightarrow> distinct (map label (rs @ new)) \<Longrightarrow> distinct (map role_thing (rs @ new))
     \<Longrightarrow> \<exists>k. keep_roles new db = (new, db\<lparr>role_keeper := k\<rparr>) \<and> roles_are (rs @ new) k"
proof (induction new arbitrary: rs db)
  case Nil
  then show ?case by (intro exI [of _ "role_keeper db"]) simp
next
  case (Cons r new)
  obtain k where k: "keep_role r (role_keeper db) = ((r, False), k)" "roles_are (rs @ [r]) k"
    by (rule keep_role_new [OF Cons.prems(1), of r]) (use Cons.prems(2,3) in auto)
  obtain k' where "keep_roles new (db\<lparr>role_keeper := k\<rparr>) = (new, (db\<lparr>role_keeper := k\<rparr>)\<lparr>role_keeper := k'\<rparr>)"
      "roles_are ((rs @ [r]) @ new) k'"
    using Cons.IH [of "rs @ [r]" "db\<lparr>role_keeper := k\<rparr>"] Cons.prems(2,3) k(2) by auto
  with k(1) show ?case by (intro exI [of _ k']) (simp add: db_keep_role_def)
qed

lemma keep_roles_store [simp]: "store (snd (keep_roles rs db)) = store db"
  by (induction rs arbitrary: db) (simp_all add: db_keep_role_def case_prod_unfold Let_def)

text \<open>A larger role keeper keeps what was known.\<close>

lemma role_map_append:
  "ident \<in> role_identity ` set roles \<Longrightarrow> role_map (roles @ new) ident = role_map roles ident"
  using role_map_None [of roles ident] by (auto simp: role_map_def map_add_def split: option.splits)

lemma object_of_append:
  "known_roles roles p \<Longrightarrow> object_of (roles @ new) p = object_of roles p"
  by (auto simp: object_of_def appearance_of_def known_roles_def role_map_append image_subset_iff)

lemma appearances_ok_mono:
  assumes "appearances_ok db" and "\<And>r. kept_role (role_keeper db) r \<Longrightarrow> kept_role k r"
  shows "appearances_ok (db\<lparr>generator := g, role_keeper := k\<rparr>)"
proof -
  have "wf_set (role_keeper db) s \<Longrightarrow> wf_set k s" for s
    using assms(2) by (auto simp: wf_set_def)
  moreover let ?db = "db\<lparr>generator := g, role_keeper := k\<rparr>"
  have "role_keeper ?db = k" "appearance_keeper ?db = appearance_keeper db"
      "appearance_set_keeper ?db = appearance_set_keeper db"
      "thing_to_appearance ?db = thing_to_appearance db" by simp_all
  ultimately show ?thesis
    using assms unfolding appearances_ok_def by (elim conjE, intro conjI) (simp only: | blast)+
qed

lemma db_ok_roles:
  assumes ok: "db_ok nfc L C roles posits db" and cat: "catalogue nfc L C (roles @ new) posits"
    and k: "roles_are (map role_of (roles @ new)) k"
    and g: "lower_bound (generator db) \<le> lower_bound g" "\<forall>r \<in> set new. role_identity r \<le> lower_bound g"
  shows "db_ok nfc L C (roles @ new) posits (db\<lparr>generator := g, role_keeper := k\<rparr>)"
proof -
  have old: "roles_are (map role_of roles) (role_keeper db)" "catalogue nfc L C roles posits"
    using ok by (simp_all add: db_ok_def)
  have "kept_role k r" if r: "kept_role (role_keeper db) r" for r
  proof -
    obtain z where z: "role_map roles (role_thing r) = Some z" "role_of z = r"
      using r lookup_role_of [OF old(1), of "role_thing r"]
      unfolding kept_role_def by (metis map_option_eq_Some)
    then have "role_thing r \<in> role_identity ` set roles" using role_map_Some by (metis imageI)
    then have "role_lookup k (role_thing r) = map_option role_of (Some z)"
      using lookup_role_of [OF k] z(1) role_map_append by metis
    with z(2) show ?thesis by (simp add: kept_role_def)
  qed
  then have "appearances_ok (db\<lparr>generator := g, role_keeper := k\<rparr>)"
    using ok appearances_ok_mono by (auto simp: db_ok_def)
  moreover have "posits_are (map (object_of (roles @ new)) posits) (db\<lparr>generator := g, role_keeper := k\<rparr>)"
  proof -
    have "map (object_of (roles @ new)) posits = map (object_of roles) posits"
      using old(2) object_of_append by (auto simp: catalogue_def)
    moreover have "posits_are (map (object_of roles) posits) db" using ok by (simp add: db_ok_def)
    ultimately show ?thesis by (simp only: posits_are_def) simp
  qed
  moreover have "\<forall>t \<in> things_of (roles @ new) posits. t \<le> lower_bound g"
  proof -
    have "things_of (roles @ new) posits = things_of roles posits \<union> role_identity ` set new"
      by (auto simp: things_of_def)
    moreover have "\<forall>t \<in> things_of roles posits. t \<le> lower_bound g"
      using ok order_trans [OF _ g(1)] by (simp add: db_ok_def)
    ultimately show ?thesis using g(2) by (simp add: ball_Un)
  qed
  moreover have "builtins_present (roles @ new)"
    using ok by (auto simp: db_ok_def builtins_present_def)
  ultimately show ?thesis using cat k by (simp add: db_ok_def)
qed

lemma db_ok_generator:
  assumes "db_ok nfc L C roles posits db" and "lower_bound (generator db) \<le> lower_bound g"
  shows "db_ok nfc L C roles posits (db\<lparr>generator := g\<rparr>)"
  using db_ok_roles [of nfc L C roles posits db "[]" "role_keeper db" g] assms by (simp add: db_ok_def)

lemma settled_generator:
  assumes "settled nfc L C roles posits db" and "lower_bound (generator db) \<le> lower_bound g"
  shows "settled nfc L C roles posits (db\<lparr>generator := g\<rparr>)"
  using assms(1) db_ok_generator [OF _ assms(2), of nfc L C roles posits] by (simp add: settled_def)

text \<open>What \<open>create_roles\<close> answers for a name: the kept role of that name, and whether it was there.\<close>

definition role_answer ::
    "(string \<Rightarrow> string) \<Rightarrow> database \<Rightarrow> database \<Rightarrow> string \<Rightarrow> role \<times> bool \<Rightarrow> bool" where
  "role_answer nfc db db' name answer \<longleftrightarrow>
     kept_roles (role_keeper db') (nfc name) = Some (fst answer)
     \<and> (snd answer \<longleftrightarrow> kept_roles (role_keeper db) (nfc name) \<noteq> None)"

lemma create_roles_cases:
  assumes nfc: "nfc_laws nfc" and C: "calendar_codec C" and ok: "settled nfc L C roles posits db"
    and names: "\<forall>(n, _) \<in> set names. wf_string n"
    and room: "unat (lower_bound (generator db)) + length names < 2 ^ 64"
    and run: "create_roles nfc fault names db = (r, db')" and fits: "db_fits db'"
  obtains new out where "r = Inr out" and "settled nfc L C (roles @ new) posits db'"
      and "list_all2 (role_answer nfc db db') (map fst names) out"
  | e where "r = Inl e" and "settled nfc L C roles posits db'"
  | e new where "r = Inl e" and "catalogue nfc L C (roles @ new) posits"
      and "uncertain nfc L C roles posits (roles @ new) posits db'"
proof -
  note finish = that(1)
  have dbok: "db_ok nfc L C roles posits db" using ok by (simp add: settled_def)
  let ?k = "role_keeper db" and ?low = "lower_bound (generator db)"
  obtain p db1 where p: "prepare_roles nfc names [] [] db = (p, db1)" by fastforce
  have "fresh_roles nfc ?k ?low [] ?low" by (simp add: fresh_roles_def)
  from prepare_roles_fresh [OF p nfc this names _ room, of "[]"]
  obtain g where g: "db1 = db\<lparr>generator := g\<rparr>" "?low \<le> lower_bound g"
    and fresh: "\<And>prepared sources. p = Inr (prepared, sources) \<Longrightarrow>
      fresh_roles nfc ?k ?low prepared (lower_bound g)
      \<and> list_all2 (source_ok nfc ?k prepared) (map fst names) sources"
    by auto
  have set1: "settled nfc L C roles posits db1" using settled_generator [OF ok g(2)] g(1) by simp
  show thesis
  proof (cases p)
    case (Inl e)
    with run p have "r = Inl e" "db' = db1" by (auto simp: create_roles_def)
    with set1 show thesis by (auto intro: that(2))
  next
    case (Inr ps)
    obtain prepared sources where ps: "ps = (prepared, sources)" by (cases ps)
    note f = fresh [OF Inr [unfolded ps]]
    let ?new = "map replayed_of_role prepared"
    have cat: "catalogue nfc L C (roles @ ?new) posits"
      using fresh_roles_catalogue [OF dbok] f by blast
    have recs: "map role_record prepared = map role_record_of ?new" by simp
    have batch: "apply_batch nfc L C (number_records (map role_record prepared) seq)
        (replay_state [] roles posits (set all_codecs)) =
        Inr (replay_state [] (roles @ ?new) posits (set all_codecs))"
      if "\<forall>r \<in> set (map role_record prepared). length (pending_payload r) < 2 ^ 64" for seq
      using calendar_codec.replay_role_batch [OF C cat, of seq] that unfolding recs by simp
    define step where "step = (if prepared = [] then (Inr (), db1)
      else append_records fault (map role_record prepared) db1)"
    have run': "(r, db') = attempt_st step (\<lambda>_ db. let (kept, db) = keep_roles prepared db
        in (Inr (map (resolve_role kept) sources), db))"
      using run p Inr ps by (simp add: create_roles_def step_def)
    have publish: thesis if s: "step = (Inr (), db1\<lparr>store := s\<rparr>)"
      "\<forall>t. s = Some t \<longrightarrow> store_ok nfc L C (roles @ ?new) posits t" for s
    proof -
      have "roles_are (map role_of roles) (role_keeper (db1\<lparr>store := s\<rparr>))"
        using dbok g(1) by (simp add: db_ok_def)
      moreover have "distinct (map label (map role_of roles @ prepared))"
          "distinct (map role_thing (map role_of roles @ prepared))"
        using cat by (auto simp: catalogue_def o_def image_image)
      ultimately obtain k where keep: "keep_roles prepared (db1\<lparr>store := s\<rparr>) =
          (prepared, db1\<lparr>store := s\<rparr>\<lparr>role_keeper := k\<rparr>)"
        and k: "roles_are (map role_of roles @ prepared) k"
        using keep_roles_new by blast
      have db': "db' = db1\<lparr>store := s, role_keeper := k\<rparr>"
        and r: "r = Inr (map (resolve_role prepared) sources)"
        using run' s(1) keep by simp_all
      have k2: "roles_are (map role_of (roles @ ?new)) k" using k by (simp add: o_def)
      have "db_ok nfc L C (roles @ ?new) posits (db\<lparr>generator := g, role_keeper := k\<rparr>)"
        using f by (intro db_ok_roles [OF dbok cat k2 g(2)]) (simp add: fresh_roles_def)
      then have "db_ok nfc L C (roles @ ?new) posits ((db\<lparr>generator := g, role_keeper := k\<rparr>)\<lparr>store := s\<rparr>)"
        by (rule db_ok_store [THEN iffD2])
      moreover have eq: "db' = (db\<lparr>generator := g, role_keeper := k\<rparr>)\<lparr>store := s\<rparr>"
        using db' g(1) by (cases db) simp
      ultimately have "settled nfc L C (roles @ ?new) posits db'"
        unfolding settled_def eq using s(2) by simp
      moreover have "list_all2 (role_answer nfc db db') (map fst names) (map (resolve_role prepared) sources)"
      proof -
        have old: "roles_are (map role_of roles) ?k" using dbok by (simp add: db_ok_def)
        have distinct: "distinct (map label (map role_of roles @ prepared))"
          using cat by (simp add: catalogue_def o_def image_image)
        have kept: "kept_roles k (label x) = Some x" if "x \<in> set (map role_of roles @ prepared)" for x
          using k map_of_key_member [OF distinct that, of "\<lambda>x. x"] by (simp only: roles_are_def)
        have known: "x \<in> set (map role_of roles) \<and> label x = n" if "kept_roles ?k n = Some x" for n x
        proof -
          have "kept_roles ?k = map_of (map (\<lambda>r. (label r, r)) (map role_of roles))"
            using old by (simp only: roles_are_def)
          with that have "map_of (map (\<lambda>r. (label r, r)) (map role_of roles)) n = Some x" by (simp only:)
          from map_of_key_Some [OF this] show ?thesis by blast
        qed
        have k': "role_keeper db' = k" using db' by simp
        have "role_answer nfc db db' n (resolve_role prepared src)" if src: "source_ok nfc ?k prepared n src" for n src
        proof (cases src)
          case (ExistingRole x)
          then have x: "kept_roles ?k (nfc n) = Some x" using src by simp
          with known kept have "kept_roles k (nfc n) = Some x" by fastforce
          with x ExistingRole k' show ?thesis by (simp add: role_answer_def)
        next
          case (NewRole i)
          then have "i < length prepared" "label (prepared ! i) = nfc n" "kept_roles ?k (nfc n) = None"
            using src by simp_all
          with kept [of "prepared ! i"] NewRole k' show ?thesis by (simp add: role_answer_def)
        qed
        then show ?thesis
          using f by (auto simp: list_all2_map2 intro: list_all2_mono)
      qed
      ultimately show thesis by (rule finish [OF r])
    qed
    show thesis
    proof (cases "prepared = []")
      case True
      have "db1 = db1\<lparr>store := store db1\<rparr>" by simp
      then show thesis using publish [of "store db1"] True set1 by (simp add: step_def settled_def)
    next
      case False
      obtain r2 db2 where a: "append_records fault (map role_record prepared) db1 = (r2, db2)" by fastforce
      have "db_fits db2"
      proof (cases r2)
        case (Inl e)
        with run' False a fits show ?thesis by (simp add: step_def)
      next
        case (Inr u)
        then have "db' = snd (keep_roles prepared db2)"
          using run' False a by (simp add: step_def split: prod.splits)
        then have "store db' = store db2" by simp
        then show ?thesis using fits by (simp add: db_fits_def)
      qed
      then show thesis
      proof (rule append_records_cases [OF set1 a _ batch])
        fix s assume "r2 = Inr ()" "db2 = db1\<lparr>store := s\<rparr>"
          "\<forall>t. s = Some t \<longrightarrow> store_ok nfc L C (roles @ ?new) posits t"
        then show thesis using publish [of s] a False by (simp add: step_def)
      next
        fix e assume "r2 = Inl e" "db2 = db1"
        then show thesis using that(2) [of e] run' a False set1 by (simp add: step_def)
      next
        fix e assume "r2 = Inl e" "uncertain nfc L C roles posits (roles @ ?new) posits db2"
        then show thesis using that(3) [of e ?new] run' a False cat by (simp add: step_def)
      qed
    qed
  qed
qed

end
