(* ===== verification/Posit_Operations.thy ===== *)
theory Posit_Operations
  imports Database_Operations
begin

text \<open>
  What creating posits, with or without assertions about them, does to a database and its store.
\<close>

section \<open>Staging\<close>

text \<open>A proposition that may be stored: a set of kept roles in order, things that exist, a literal and
  a time the constructors accept.\<close>

definition wf_pending :: "'n literal_lib \<Rightarrow> chrono \<Rightarrow> role_keeper \<Rightarrow> thing \<Rightarrow> pending_posit \<Rightarrow> bool" where
  "wf_pending L C k high = (\<lambda>(s, v, t). wf_set k s \<and> s \<noteq> []
     \<and> (\<forall>a \<in> set s. app_thing a \<noteq> 0 \<and> app_thing a \<le> high)
     \<and> wf_literal L v \<and> wf_string (token v) \<and> wf_time C t)"

definition pending_key :: "pending_posit \<Rightarrow> proposition_key" where
  "pending_key = (\<lambda>(s, v, t). (set_key s, token v, t))"

definition pending_of :: "posit \<Rightarrow> pending_posit" where
  "pending_of p = (pset p, pvalue p, ptime p)"

definition fresh_posits ::
    "'n literal_lib \<Rightarrow> chrono \<Rightarrow> role_keeper \<Rightarrow> posit list \<Rightarrow> thing \<Rightarrow> posit list \<Rightarrow> thing \<Rightarrow> bool" where
  "fresh_posits L C k ps low new high \<longleftrightarrow>
     distinct (map pkey new) \<and> distinct (map pthing new) \<and> low \<le> high
     \<and> (\<forall>p \<in> set new. pkey p \<notin> pkey ` set ps \<and> low < pthing p \<and> pthing p \<le> high
          \<and> wf_pending L C k high (pending_of p))"

text \<open>What a source stands for.\<close>

fun stands_for :: "posit list \<Rightarrow> posit list \<Rightarrow> pending_posit \<Rightarrow> posit_source \<Rightarrow> bool" where
  "stands_for ps prepared x (ExistingPosit p) \<longleftrightarrow> p \<in> set ps \<and> pkey p = pending_key x"
| "stands_for ps prepared x (NewPosit i) \<longleftrightarrow> i < length prepared \<and> pkey (prepared ! i) = pending_key x"

lemma pkey_pending: "pkey p = pending_key (pending_of p)"
  by (simp add: pkey_def pending_key_def pending_of_def)

lemma stands_for_append: "stands_for ps xs x src \<Longrightarrow> stands_for ps (xs @ ys) x src"
  by (cases src) (auto simp: nth_append)

lemma wf_pending_mono:
  "wf_pending L C k high x \<Longrightarrow> high \<le> high' \<Longrightarrow> wf_pending L C k high' x"
  by (auto simp: wf_pending_def split: prod.splits intro: order_trans)

lemma fresh_posits_mono:
  "fresh_posits L C k ps low new high \<Longrightarrow> high \<le> high' \<Longrightarrow> fresh_posits L C k ps low new high'"
  by (auto simp: fresh_posits_def intro: order_trans wf_pending_mono)

lemma existing_posit_are:
  assumes "posits_are ps db" and "distinct (map pkey ps)" and "distinct (map pthing ps)"
  shows "existing_posit c (posit_keeper db) = Some p \<longleftrightarrow> p \<in> set ps \<and> pkey p = pkey c"
    and "existing_posit c (posit_keeper db) = None \<longleftrightarrow> pkey c \<notin> pkey ` set ps"
proof -
  have left: "by_posit (posit_keeper db) (pkey q) = Some (pthing q)" if "q \<in> set ps" for q
    using assms(1) map_of_key_member [OF assms(2) that, of pthing] by (simp add: posits_are_def)
  have right: "by_thing (posit_keeper db) (pthing q) = Some q" if "q \<in> set ps" for q
    using assms(1) map_of_key_member [OF assms(3) that, of "\<lambda>p. p"] by (simp add: posits_are_def)
  have none: "by_posit (posit_keeper db) key = None \<longleftrightarrow> key \<notin> pkey ` set ps" for key
    using assms(1) by (simp add: posits_are_def map_of_key_None)
  have found: "existing_posit c (posit_keeper db) = Some q" if "q \<in> set ps" "pkey q = pkey c" for q
    using left [OF that(1)] right [OF that(1)] that(2) by (simp add: existing_posit_def)
  have absent: "existing_posit c (posit_keeper db) = None" if "pkey c \<notin> pkey ` set ps"
  proof -
    have "by_posit (posit_keeper db) (pkey c) = None" using none that by blast
    then show ?thesis by (simp add: existing_posit_def)
  qed
  have known: "\<exists>q \<in> set ps. pkey q = pkey c \<and> existing_posit c (posit_keeper db) = Some q"
    if "pkey c \<in> pkey ` set ps"
    using that found by fastforce
  show "existing_posit c (posit_keeper db) = Some p \<longleftrightarrow> p \<in> set ps \<and> pkey p = pkey c"
  proof
    assume e: "existing_posit c (posit_keeper db) = Some p"
    then have "pkey c \<in> pkey ` set ps" using absent by fastforce
    from known [OF this] e show "p \<in> set ps \<and> pkey p = pkey c" by auto
  qed (use found in blast)
  show "existing_posit c (posit_keeper db) = None \<longleftrightarrow> pkey c \<notin> pkey ` set ps"
    using known absent by fastforce
qed

lemma release_bound [simp]: "lower_bound (release t g) = lower_bound g"
  by (simp add: release_def)

text \<open>One posit is staged: it is known, it was staged before, or it is new.\<close>

lemma stage_one_posit:
  assumes db: "posits_are ps db" "distinct (map pkey ps)" "distinct (map pthing ps)"
    and fresh: "fresh_posits L C (role_keeper db) ps low prepared (lower_bound (generator db))"
    and x: "wf_pending L C (role_keeper db) (lower_bound (generator db)) (s, v, t)"
    and room: "unat (lower_bound (generator db)) + 1 < 2 ^ 64"
  obtains src more g where "stage_literal_posits ((s, v, t) # new) prepared sources db =
      stage_literal_posits new (prepared @ more) (sources @ [src]) (db\<lparr>generator := g\<rparr>)"
    and "lower_bound g = lower_bound (generator db) + 1"
    and "fresh_posits L C (role_keeper db) ps low (prepared @ more) (lower_bound g)"
    and "stands_for ps (prepared @ more) (s, v, t) src"
proof -
  let ?low = "lower_bound (generator db)" and ?k = "role_keeper db"
  let ?id = "?low + 1"
  let ?c = "\<lparr>pthing = ?id, pset = s, pvalue = v, ptime = t\<rparr>"
  obtain g1 where gen: "generate (generator db) = (?id, g1)" "lower_bound g1 = ?id"
    by (simp add: generate_def Let_def)
  have above: "?low < ?id" using generate_above [of "generator db"] room by simp
  have key: "pkey ?c = pending_key (s, v, t)" by (simp add: pkey_def pending_key_def)
  have grown: "fresh_posits L C ?k ps low prepared ?id"
    using fresh_posits_mono [OF fresh] above by simp
  show thesis
  proof (cases "existing_posit ?c (posit_keeper db)")
    case (Some kept)
    show thesis
      by (rule that [where src = "ExistingPosit kept" and more = "[]" and g = "release ?id g1"])
        (use Some gen grown key existing_posit_are(1) [OF db, of ?c kept] in simp_all)
  next
    case None
    show thesis
    proof (cases "position (\<lambda>p. pkey p = pkey ?c) prepared")
      case (Some i)
      show thesis
        by (rule that [where src = "NewPosit i" and more = "[]" and g = "release ?id g1"])
          (use None Some gen grown key position_Some [OF Some] in simp_all)
    next
      case new: None
      have wf: "wf_pending L C ?k ?id (pending_of ?c)"
        using wf_pending_mono [OF x, of ?id] above by (simp add: pending_of_def)
      have low: "low < ?id" using fresh above by (auto simp: fresh_posits_def)
      have other: "\<forall>p \<in> set prepared. pthing p \<noteq> ?id \<and> pkey p \<noteq> pkey ?c"
        using fresh above new [unfolded position_None] by (force simp: fresh_posits_def)
      have "pkey ?c \<notin> pkey ` set ps" using existing_posit_are(2) [OF db] None by blast
      with grown wf low other have "fresh_posits L C ?k ps low (prepared @ [?c]) ?id"
        unfolding fresh_posits_def by auto
      then show thesis
        by (intro that [where src = "NewPosit (length prepared)" and more = "[?c]" and g = g1])
          (use None new gen key in simp_all)
    qed
  qed
qed

lemma stage_literal_posits_fresh:
  "posits_are ps db \<Longrightarrow> distinct (map pkey ps) \<Longrightarrow> distinct (map pthing ps)
     \<Longrightarrow> fresh_posits L C (role_keeper db) ps low prepared (lower_bound (generator db))
     \<Longrightarrow> \<forall>x \<in> set new. wf_pending L C (role_keeper db) (lower_bound (generator db)) x
     \<Longrightarrow> list_all2 (stands_for ps prepared) handled sources
     \<Longrightarrow> unat (lower_bound (generator db)) + length new < 2 ^ 64
     \<Longrightarrow> \<exists>more sources' g.
        stage_literal_posits new prepared sources db = (prepared @ more, sources', db\<lparr>generator := g\<rparr>)
        \<and> lower_bound (generator db) \<le> lower_bound g
        \<and> unat (lower_bound g) = unat (lower_bound (generator db)) + length new
        \<and> fresh_posits L C (role_keeper db) ps low (prepared @ more) (lower_bound g)
        \<and> list_all2 (stands_for ps (prepared @ more)) (handled @ new) sources'"
proof (induction new arbitrary: prepared sources db handled)
  case Nil
  then show ?case by (intro exI [of _ "[]"] exI [of _ sources] exI [of _ "generator db"]) simp
next
  case (Cons x new)
  obtain s v t where x: "x = (s, v, t)" by (cases x)
  obtain src more g where step: "stage_literal_posits (x # new) prepared sources db =
      stage_literal_posits new (prepared @ more) (sources @ [src]) (db\<lparr>generator := g\<rparr>)"
    and g: "lower_bound g = lower_bound (generator db) + 1"
    and fresh: "fresh_posits L C (role_keeper db) ps low (prepared @ more) (lower_bound g)"
    and src: "stands_for ps (prepared @ more) x src"
    by (rule stage_one_posit [OF Cons.prems(1-4), of s v t new sources]) (use Cons.prems x in auto)
  have above: "lower_bound (generator db) \<le> lower_bound g"
      "unat (lower_bound g) = unat (lower_bound (generator db)) + 1"
    using generate_above [of "generator db"] Cons.prems(7) g by simp_all
  have "list_all2 (stands_for ps (prepared @ more)) (handled @ [x]) (sources @ [src])"
    using Cons.prems(6) src by (auto intro: list_all2_appendI list_all2_mono stands_for_append)
  moreover have "\<forall>x \<in> set new. wf_pending L C (role_keeper db) (lower_bound g) x"
    using Cons.prems(5) by (auto intro: wf_pending_mono [OF _ above(1)])
  moreover have "posits_are ps (db\<lparr>generator := g\<rparr>)"
    using Cons.prems(1) by (simp add: posits_are_def)
  ultimately obtain more' sources' g' where
      "stage_literal_posits new (prepared @ more) (sources @ [src]) (db\<lparr>generator := g\<rparr>) =
        ((prepared @ more) @ more', sources', (db\<lparr>generator := g\<rparr>)\<lparr>generator := g'\<rparr>)"
      "lower_bound g \<le> lower_bound g'" "unat (lower_bound g') = unat (lower_bound g) + length new"
      "fresh_posits L C (role_keeper db) ps low ((prepared @ more) @ more') (lower_bound g')"
      "list_all2 (stands_for ps ((prepared @ more) @ more')) ((handled @ [x]) @ new) sources'"
    using Cons.IH [of "db\<lparr>generator := g\<rparr>" "prepared @ more" "handled @ [x]" "sources @ [src]"]
      Cons.prems(2,3,7) fresh above(2) by auto
  then show ?case
    unfolding step using above
    by (intro exI [of _ "more @ more'"] exI [of _ sources'] exI [of _ g']) (auto intro: order_trans)
qed

section \<open>Assertion envelopes\<close>

definition envelope :: "role \<Rightarrow> role \<Rightarrow> posit list \<Rightarrow> assertion_spec \<Rightarrow> pending_posit" where
  "envelope posit_role ascertains_role targets spec =
     ([\<lparr>app_thing = pthing (targets ! target_index spec), app_role = posit_role\<rparr>,
       \<lparr>app_thing = spec_positor spec, app_role = ascertains_role\<rparr>],
      spec_certainty spec, spec_time spec)"

lemma same_catalogue_trans:
  "same_catalogue db db' \<Longrightarrow> same_catalogue db' db'' \<Longrightarrow> same_catalogue db db''"
  by (simp add: same_catalogue_def)

lemma create_appearance_ok:
  assumes "appearances_ok db" and "kept_role (role_keeper db) r"
  obtains prev db' where "create_appearance t r db = ((\<lparr>app_thing = t, app_role = r\<rparr>, prev), db')"
    and "appearances_ok db'" and "role_keeper db' = role_keeper db" and "store db' = store db"
    and "generator db' = generator db" and "same_catalogue db' db"
proof -
  let ?a = "\<lparr>app_thing = t, app_role = r\<rparr>"
  have "fst (fst (create_appearance t r db)) = ?a" "appearances_ok (snd (create_appearance t r db))"
    using keep_appearance_ok [OF assms(1), of ?a] assms(2) by (simp_all add: create_appearance_def)
  then show thesis
    using that [of "snd (fst (create_appearance t r db))" "snd (create_appearance t r db)"]
    by (simp add: create_appearance_def) (metis prod.collapse)
qed

lemma envelope_posits_ok:
  assumes "role_thing posit_role = posit_role_id" and "role_thing ascertains_role = ascertains_role_id"
    and "\<forall>spec \<in> set specs. target_index spec < length targets"
    and "appearances_ok db"
    and "kept_role (role_keeper db) posit_role" and "kept_role (role_keeper db) ascertains_role"
  shows "\<exists>db'. envelope_posits posit_role ascertains_role targets specs acc db =
      (Inr (acc @ map (envelope posit_role ascertains_role targets) specs), db')
    \<and> appearances_ok db' \<and> role_keeper db' = role_keeper db \<and> store db' = store db
    \<and> generator db' = generator db \<and> same_catalogue db' db"
  using assms(3-6)
proof (induction specs arbitrary: acc db)
  case Nil
  then show ?case by (simp add: same_catalogue_def)
next
  case (Cons spec specs)
  let ?t = "pthing (targets ! target_index spec)"
  let ?s = "[\<lparr>app_thing = ?t, app_role = posit_role\<rparr>, \<lparr>app_thing = spec_positor spec, app_role = ascertains_role\<rparr>]"
  obtain p1 db1 where c1: "create_appearance ?t posit_role db = ((\<lparr>app_thing = ?t, app_role = posit_role\<rparr>, p1), db1)"
    "appearances_ok db1" "role_keeper db1 = role_keeper db" "store db1 = store db"
    "generator db1 = generator db" "same_catalogue db1 db"
    by (rule create_appearance_ok [OF Cons.prems(2,3), of ?t])
  obtain p2 db2 where c2: "create_appearance (spec_positor spec) ascertains_role db1 =
      ((\<lparr>app_thing = spec_positor spec, app_role = ascertains_role\<rparr>, p2), db2)"
    "appearances_ok db2" "role_keeper db2 = role_keeper db1" "store db2 = store db1"
    "generator db2 = generator db1" "same_catalogue db2 db1"
    by (rule create_appearance_ok [OF c1(2), of ascertains_role "spec_positor spec"])
      (use Cons.prems(4) c1(3) in simp)
  have "wf_set (role_keeper db2) ?s"
    using Cons.prems(3,4) c1(3) c2(3) assms(1,2)
    by (simp add: wf_set_def set_roles_def posit_role_id_def ascertains_role_id_def)
  from create_appearance_set_ok [OF c2(2) this]
  obtain p3 db3 where c3: "create_appearance_set ?s db2 = (Inr (?s, p3), db3)"
    "appearances_ok db3" "role_keeper db3 = role_keeper db2" "store db3 = store db2"
    "generator db3 = generator db2" "same_catalogue db3 db2" by metis
  from Cons.IH [of db3 "acc @ [(?s, spec_certainty spec, spec_time spec)]"] Cons.prems c1 c2 c3
  obtain db' where IH: "envelope_posits posit_role ascertains_role targets specs
      (acc @ [(?s, spec_certainty spec, spec_time spec)]) db3 =
      (Inr ((acc @ [(?s, spec_certainty spec, spec_time spec)]) @
        map (envelope posit_role ascertains_role targets) specs), db')"
    "appearances_ok db'" "role_keeper db' = role_keeper db" "store db' = store db"
    "generator db' = generator db" "same_catalogue db' db3" by auto
  have "same_catalogue db' db"
    using IH(6) c3(6) c2(6) c1(6) same_catalogue_trans by blast
  with IH(1-5) c1(1) c2(1) c3(1) Cons.prems(1) show ?case
    by (auto simp: envelope_def)
qed

section \<open>The catalogue with new posits\<close>

definition replayed_of_posit :: "posit \<Rightarrow> replayed_posit" where
  "replayed_of_posit p = \<lparr>posit_identity = pthing p, posit_appearances = set_key (pset p),
     posit_value = pvalue p, posit_time = ptime p\<rparr>"

lemma replayed_of_posit_simps [simp]:
  "posit_identity (replayed_of_posit p) = pthing p"
  "proposition_of (replayed_of_posit p) = pkey p"
  "posit_appearances (replayed_of_posit p) = set_key (pset p)"
  by (simp_all add: replayed_of_posit_def proposition_of_def pkey_def)

lemma posit_record_replayed: "posit_record p = posit_record_of (replayed_of_posit p)"
  by (simp add: posit_record_def posit_record_of_def replayed_of_posit_def)

lemma wf_set_appearances:
  assumes "roles_are (map role_of roles) k" and "wf_set k s" and "a \<in> set s"
  obtains r where "r \<in> set roles" and "role_of r = app_role a" and "role_identity r = fst (akey a)"
    and "appearance_of roles (akey a) = a"
proof -
  have "role_lookup k (role_thing (app_role a)) = Some (app_role a)"
    using assms(2,3) by (simp add: wf_set_def kept_role_def)
  then obtain r where r: "role_map roles (role_thing (app_role a)) = Some r" "role_of r = app_role a"
    using lookup_role_of [OF assms(1)] by auto
  then show thesis
    using that [of r] role_map_Some [OF r(1)] by (simp add: appearance_of_def akey_def)
qed

lemma object_of_replayed:
  assumes "roles_are (map role_of roles) k" and "wf_set k (pset p)"
  shows "object_of roles (replayed_of_posit p) = p"
proof -
  have "appearance_of roles (akey a) = a" if "a \<in> set (pset p)" for a
    by (rule wf_set_appearances [OF assms that])
  then show ?thesis
    by (simp add: object_of_def replayed_of_posit_def set_key_def o_def map_idI)
qed

lemma wf_pending_replayed:
  assumes k: "roles_are (map role_of roles) k" and roles: "\<forall>r \<in> set roles. wf_role nfc r"
    and wf: "wf_pending L C k high (pending_of p)" and ident: "pthing p \<noteq> 0"
  shows "wf_posit L C (replayed_of_posit p) \<and> known_roles roles (replayed_of_posit p)
    \<and> snd ` set (set_key (pset p)) \<subseteq> {..high}"
proof -
  have s: "wf_set k (pset p)" "pset p \<noteq> []" and things: "\<forall>a \<in> set (pset p). app_thing a \<noteq> 0 \<and> app_thing a \<le> high"
    using wf by (simp_all add: wf_pending_def pending_of_def)
  have app: "fst (akey a) \<noteq> 0 \<and> fst (akey a) \<in> role_identity ` set roles" if "a \<in> set (pset p)" for a
    by (rule wf_set_appearances [OF k s(1) that])
      (use roles in \<open>auto simp: wf_role_def intro: rev_image_eqI\<close>)
  have "map fst (set_key (pset p)) = set_roles (pset p)"
    by (simp add: set_key_def set_roles_def akey_def)
  then have "canonical_appearances (set_key (pset p))"
    using s app things by (auto simp: canonical_appearances_def wf_set_def set_key_def akey_def)
  moreover have "known_roles roles (replayed_of_posit p)"
    using app by (auto simp: known_roles_def set_key_def)
  moreover have "snd ` set (set_key (pset p)) \<subseteq> {..high}"
    using things by (auto simp: set_key_def akey_def)
  ultimately show ?thesis
    using wf ident by (simp add: wf_posit_def replayed_of_posit_def wf_pending_def pending_of_def)
qed

lemma catalogue_posits:
  assumes "catalogue nfc L C roles posits" and "\<forall>p \<in> set new. wf_posit L C p \<and> known_roles roles p"
    and "distinct (map posit_identity new)" and "distinct (map proposition_of new)"
    and "posit_identity ` set new \<inter> things_of roles posits = {}"
    and "proposition_of ` set new \<inter> proposition_of ` set posits = {}"
  shows "catalogue nfc L C roles (posits @ new)"
  using assms unfolding catalogue_def things_of_def by auto

lemma object_keys:
  assumes "db_ok nfc L C roles posits db"
  shows "pkey ` set (map (object_of roles) posits) = proposition_of ` set posits"
    and "map pkey (map (object_of roles) posits) = map proposition_of posits"
proof -
  have "pkey (object_of roles p) = proposition_of p" if "p \<in> set posits" for p
    using known_object [of roles "role_keeper db" p] assms that by (simp add: db_ok_def catalogue_def)
  then show "map pkey (map (object_of roles) posits) = map proposition_of posits" by simp
  then show "pkey ` set (map (object_of roles) posits) = proposition_of ` set posits"
    by (metis list.set_map)
qed

lemma fresh_posits_catalogue:
  assumes ok: "db_ok nfc L C roles posits db"
    and fresh: "fresh_posits L C (role_keeper db) (map (object_of roles) posits)
      (lower_bound (generator db)) prepared high"
  shows "catalogue nfc L C roles (posits @ map replayed_of_posit prepared)"
proof (rule catalogue_posits)
  let ?new = "map replayed_of_posit prepared"
  show cat: "catalogue nfc L C roles posits" using ok by (simp add: db_ok_def)
  show "\<forall>p \<in> set ?new. wf_posit L C p \<and> known_roles roles p"
  proof
    fix p assume "p \<in> set ?new"
    then obtain q where q: "q \<in> set prepared" "p = replayed_of_posit q" by auto
    then have "wf_pending L C (role_keeper db) high (pending_of q)" "pthing q \<noteq> 0"
      using fresh by (auto simp: fresh_posits_def)
    then show "wf_posit L C p \<and> known_roles roles p"
      using wf_pending_replayed [of roles "role_keeper db" nfc L C high q] ok cat q(2)
      by (simp add: db_ok_def catalogue_def)
  qed
  show "distinct (map posit_identity ?new)" "distinct (map proposition_of ?new)"
    using fresh by (simp_all add: fresh_posits_def o_def)
  show "posit_identity ` set ?new \<inter> things_of roles posits = {}"
    using ok fresh by (fastforce simp: db_ok_def fresh_posits_def)
  show "proposition_of ` set ?new \<inter> proposition_of ` set posits = {}"
  proof -
    have "pkey p \<notin> proposition_of ` set posits" if "p \<in> set prepared" for p
      using fresh that unfolding fresh_posits_def object_keys(1) [OF ok] by blast
    then have "x \<notin> proposition_of ` set posits" if "x \<in> pkey ` set prepared" for x
      using that by fast
    then show ?thesis by (simp only: set_map image_image replayed_of_posit_simps) blast
  qed
qed

lemma keep_posits_new:
  "posits_are ps db \<Longrightarrow> distinct (map pkey (ps @ new)) \<Longrightarrow> distinct (map pthing (ps @ new))
     \<Longrightarrow> appearances_ok db
     \<Longrightarrow> \<exists>db'. keep_posits new db = (new, db') \<and> posits_are (ps @ new) db' \<and> appearances_ok db'
        \<and> role_keeper db' = role_keeper db \<and> store db' = store db \<and> generator db' = generator db"
proof (induction new arbitrary: ps db)
  case (Cons p new)
  obtain db1 where k: "keep_posit p db = ((p, False), db1)" "posits_are (ps @ [p]) db1"
    by (rule keep_posit_new [OF Cons.prems(1), of p]) (use Cons.prems(2,3) in auto)
  have frame: "role_keeper db1 = role_keeper db" "store db1 = store db" "generator db1 = generator db"
      "appearances_ok db1"
    using keep_posit_frame [of p db] k(1) Cons.prems(4) appearances_ok_cong [of db1 db] by simp_all
  obtain db' where "keep_posits new db1 = (new, db')" "posits_are ((ps @ [p]) @ new) db'"
      "appearances_ok db'" "role_keeper db' = role_keeper db1" "store db' = store db1"
      "generator db' = generator db1"
    using Cons.IH [OF k(2) _ _ frame(4)] Cons.prems(2,3) by auto
  with k(1) frame show ?case by simp
qed simp

text \<open>The database with the new posits kept.\<close>

lemma db_ok_posits:
  assumes ok: "db_ok nfc L C roles posits db"
    and fresh: "fresh_posits L C (role_keeper db) (map (object_of roles) posits)
      (lower_bound (generator db)) prepared (lower_bound g)"
    and db': "posits_are (map (object_of roles) posits @ prepared) db'" "appearances_ok db'"
      "role_keeper db' = role_keeper db" "generator db' = g"
  shows "db_ok nfc L C roles (posits @ map replayed_of_posit prepared) db'"
proof -
  let ?new = "map replayed_of_posit prepared" and ?k = "role_keeper db"
  have k: "roles_are (map role_of roles) ?k" and cat: "catalogue nfc L C roles posits"
    using ok by (simp_all add: db_ok_def)
  have wf: "wf_pending L C ?k (lower_bound g) (pending_of p)" "pthing p \<noteq> 0" "pthing p \<le> lower_bound g"
    if "p \<in> set prepared" for p
    using fresh that by (auto simp: fresh_posits_def)
  have "wf_set ?k (pset p)" if "p \<in> set prepared" for p
    using wf(1) [OF that] by (simp add: wf_pending_def pending_of_def)
  then have "map (object_of roles) ?new = prepared"
    using object_of_replayed [OF k] by (simp add: map_idI)
  then have "posits_are (map (object_of roles) (posits @ ?new)) db'" using db'(1) by simp
  moreover have "\<forall>t \<in> things_of roles (posits @ ?new). t \<le> lower_bound g"
  proof -
    have old: "\<forall>t \<in> things_of roles posits. t \<le> lower_bound g"
      using ok fresh by (auto simp: db_ok_def fresh_posits_def intro: order_trans)
    have new: "pthing p \<le> lower_bound g \<and> snd ` set (set_key (pset p)) \<subseteq> {..lower_bound g}"
      if "p \<in> set prepared" for p
      using wf_pending_replayed [OF k _ wf(1) [OF that] wf(2) [OF that], of nfc] cat wf(3) [OF that]
      by (simp add: catalogue_def)
    have "things_of roles (posits @ ?new) = things_of roles posits \<union>
        (\<Union>p \<in> set prepared. insert (pthing p) (snd ` set (set_key (pset p))))"
      by (simp add: things_of_def image_Un image_image) blast
    then show ?thesis using old new by (simp only: ball_Un ball_UN ball_simps) blast
  qed
  ultimately show ?thesis
    using fresh_posits_catalogue [OF ok fresh] ok db' by (simp add: db_ok_def)
qed

section \<open>Creating posits\<close>

text \<open>What a caller gets for a proposition: the posit that the database now keeps for it, which is the
  one it kept before if there was one.\<close>

definition posit_answer :: "database \<Rightarrow> database \<Rightarrow> pending_posit \<Rightarrow> posit \<Rightarrow> bool" where
  "posit_answer db db' x p \<longleftrightarrow>
     pkey p = pending_key x \<and> posit_of_thing (pthing p) (posit_keeper db') = Some p
     \<and> (\<forall>t. by_posit (posit_keeper db) (pending_key x) = Some t \<longrightarrow> pthing p = t)"

lemma resolved_posit:
  assumes ok: "db_ok nfc L C roles posits db"
    and fresh: "fresh_posits L C (role_keeper db) (map (object_of roles) posits)
      (lower_bound (generator db)) prepared high"
    and src: "stands_for (map (object_of roles) posits) prepared x src"
  shows "pkey (resolve_posit prepared src) = pending_key x"
    and "resolve_posit prepared src \<in> set (map (object_of roles) posits @ prepared)"
    and "pthing (resolve_posit prepared src) \<noteq> 0" and "pthing (resolve_posit prepared src) \<le> high"
proof -
  have old: "pthing p \<noteq> 0 \<and> pthing p \<le> high" if p: "p \<in> set (map (object_of roles) posits)" for p
  proof -
    obtain q where q: "q \<in> set posits" "pthing p = posit_identity q" using p by fastforce
    then have "posit_identity q \<in> things_of roles posits" by (simp add: things_of_def)
    then have "posit_identity q \<le> lower_bound (generator db)" using ok by (simp add: db_ok_def)
    with ok fresh q show ?thesis
      by (auto simp: db_ok_def catalogue_def wf_posit_def fresh_posits_def)
  qed
  have new: "pthing p \<noteq> 0 \<and> pthing p \<le> high" if "p \<in> set prepared" for p
    using fresh that by (auto simp: fresh_posits_def)
  show "pkey (resolve_posit prepared src) = pending_key x"
      "resolve_posit prepared src \<in> set (map (object_of roles) posits @ prepared)"
    using src by (cases src; simp)+
  then show "pthing (resolve_posit prepared src) \<noteq> 0" "pthing (resolve_posit prepared src) \<le> high"
    using old new by auto
qed

lemma posit_answers:
  assumes ok: "db_ok nfc L C roles posits db"
    and fresh: "fresh_posits L C (role_keeper db) (map (object_of roles) posits)
      (lower_bound (generator db)) prepared high"
    and db': "posits_are (map (object_of roles) posits @ prepared) db'"
    and src: "list_all2 (stands_for (map (object_of roles) posits) prepared) xs sources"
  shows "list_all2 (posit_answer db db') xs (map (resolve_posit prepared) sources)"
proof -
  let ?ps = "map (object_of roles) posits"
  have cat: "catalogue nfc L C roles (posits @ map replayed_of_posit prepared)"
    by (rule fresh_posits_catalogue [OF ok fresh])
  have things: "distinct (map pthing (?ps @ prepared))"
    using cat by (simp add: catalogue_def o_def image_image)
  have "map proposition_of (posits @ map replayed_of_posit prepared) = map pkey (?ps @ prepared)"
    using object_keys(2) [OF ok] by simp
  then have keys: "distinct (map pkey (?ps @ prepared))"
    using cat by (metis catalogue_def)
  have old: "posits_are ?ps db" using ok by (simp add: db_ok_def)
  have "posit_answer db db' x (resolve_posit prepared src)" if s: "stands_for ?ps prepared x src" for x src
  proof -
    let ?p = "resolve_posit prepared src"
    note p = resolved_posit [OF ok fresh s]
    have "by_thing (posit_keeper db') (pthing ?p) = Some ?p"
      using db' map_of_key_member [OF things p(2), of "\<lambda>p. p"] by (simp only: posits_are_def posit_keeper.simps)
    moreover have "pthing ?p = t" if t: "by_posit (posit_keeper db) (pending_key x) = Some t" for t
    proof -
      have "map_of (map (\<lambda>p. (pkey p, pthing p)) ?ps) (pending_key x) = Some t"
        using t old by (simp only: posits_are_def posit_keeper.simps)
      from map_of_key_Some [OF this]
      obtain q where "q \<in> set ?ps" "pkey q = pending_key x" "pthing q = t" by blast
      moreover from this have "q = ?p"
        using keys p(1,2) by (metis UnCI distinct_map inj_on_def set_append)
      ultimately show ?thesis by simp
    qed
    ultimately show ?thesis using p(1) by (simp add: posit_answer_def posit_of_thing_def)
  qed
  with src show ?thesis by (auto simp: list_all2_map2 intro: list_all2_mono)
qed

lemma stage_db_fits:
  "store (snd (keep_posits ps db)) = store db"
  by (induction ps arbitrary: db) (simp_all add: case_prod_unfold Let_def)

definition wf_spec :: "'n literal_lib \<Rightarrow> chrono \<Rightarrow> thing \<Rightarrow> assertion_spec \<Rightarrow> bool" where
  "wf_spec L C high spec \<longleftrightarrow> spec_positor spec \<noteq> 0 \<and> spec_positor spec \<le> high
     \<and> wf_literal L (spec_certainty spec) \<and> wf_string (token (spec_certainty spec))
     \<and> wf_time C (spec_time spec)"

definition builtin_role :: "thing \<Rightarrow> string \<Rightarrow> role" where
  "builtin_role ident name = \<lparr>role_thing = ident, label = name, reserved = True\<rparr>"

abbreviation "posit_role \<equiv> builtin_role posit_role_id ''posit''"
abbreviation "ascertains_role \<equiv> builtin_role ascertains_role_id ''ascertains''"

lemma builtin_roles_kept:
  assumes "db_ok nfc L C roles posits db"
  shows "role_lookup (role_keeper db) posit_role_id = Some posit_role"
    and "role_lookup (role_keeper db) ascertains_role_id = Some ascertains_role"
    and "kept_role (role_keeper db) posit_role" and "kept_role (role_keeper db) ascertains_role"
  using builtin_kept [of nfc L C roles posits "role_keeper db"] assms
  by (auto simp: db_ok_def builtin_role_def kept_role_def builtin_roles_def)

lemma source_of: "list_all2 P xs ys \<Longrightarrow> y \<in> set ys \<Longrightarrow> \<exists>x. P x y"
  by (induction rule: list_all2_induct) auto

lemma try_map_map: "try_map f (map g xs) = try_map (\<lambda>x. f (g x)) xs"
  by (induction xs) simp_all

text \<open>The first half of the command: everything before the append.  The catalogue is untouched; the
  new posits are ready, and stand for the targets and the envelopes about them.\<close>

lemma stage_targets_and_envelopes:
  assumes ok: "settled nfc L C roles posits db"
    and targets: "\<forall>x \<in> set targets. wf_pending L C (role_keeper db) (lower_bound (generator db)) x"
    and specs: "\<forall>spec \<in> set specs. target_index spec < length targets
      \<and> wf_spec L C (lower_bound (generator db)) spec"
    and room: "unat (lower_bound (generator db)) + length targets + length specs < 2 ^ 64"
  obtains prep1 src1 db1 db2 prep src2 db3 where
    "stage_literal_posits targets [] [] db = (prep1, src1, db1)"
    "role_keeper db1 = role_keeper db"
    "envelope_posits posit_role ascertains_role (map (resolve_posit prep1) src1) specs [] db1 =
       (Inr (map (envelope posit_role ascertains_role (map (resolve_posit prep1) src1)) specs), db2)"
    "stage_literal_posits (map (envelope posit_role ascertains_role (map (resolve_posit prep1) src1)) specs)
       prep1 [] db2 = (prep, src2, db3)"
    "\<exists>more. prep = prep1 @ more"
    "role_keeper db3 = role_keeper db" "settled nfc L C roles posits db3"
    "fresh_posits L C (role_keeper db) (map (object_of roles) posits) (lower_bound (generator db)) prep
       (lower_bound (generator db3))"
    "list_all2 (stands_for (map (object_of roles) posits) prep) targets src1"
    "list_all2 (stands_for (map (object_of roles) posits) prep)
       (map (envelope posit_role ascertains_role (map (resolve_posit prep1) src1)) specs) src2"
    "map (resolve_posit prep) src1 = map (resolve_posit prep1) src1"
proof -
  let ?ps = "map (object_of roles) posits" and ?k = "role_keeper db" and ?low = "lower_bound (generator db)"
  have dbok: "db_ok nfc L C roles posits db" using ok by (simp add: settled_def)
  have ps: "posits_are ?ps db" using dbok by (simp add: db_ok_def)
  have keys: "distinct (map pkey ?ps)" "distinct (map pthing ?ps)"
    unfolding object_keys(2) [OF dbok] using dbok by (simp_all add: db_ok_def catalogue_def o_def)
  have none: "fresh_posits L C ?k ?ps ?low [] ?low" by (simp add: fresh_posits_def)
  obtain prep1 src1 g1 where st1: "stage_literal_posits targets [] [] db = (prep1, src1, db\<lparr>generator := g1\<rparr>)"
    and g1: "?low \<le> lower_bound g1" "unat (lower_bound g1) = unat ?low + length targets"
    and f1: "fresh_posits L C ?k ?ps ?low prep1 (lower_bound g1)"
    and src1: "list_all2 (stands_for ?ps prep1) targets src1"
    using stage_literal_posits_fresh [OF ps keys none targets, of "[]" "[]"] room by auto
  let ?db1 = "db\<lparr>generator := g1\<rparr>" and ?staged = "map (resolve_posit prep1) src1"
  let ?env = "map (envelope posit_role ascertains_role ?staged) specs"
  have set1: "settled nfc L C roles posits ?db1" using settled_generator [OF ok g1(1)] .
  have len: "length ?staged = length targets" using src1 by (simp add: list_all2_lengthD)
  have resolved: "pthing p \<noteq> 0 \<and> pthing p \<le> lower_bound g1" if p: "p \<in> set ?staged" for p
  proof -
    obtain src where src: "p = resolve_posit prep1 src" "src \<in> set src1" using p by auto
    from source_of [OF src1 src(2)] obtain x where "stands_for ?ps prep1 x src" by blast
    with src(1) show ?thesis using resolved_posit(3,4) [OF dbok f1] by blast
  qed
  have kept: "kept_role ?k posit_role" "kept_role ?k ascertains_role"
    by (rule builtin_roles_kept [OF dbok])+
  have "appearances_ok ?db1" using set1 by (simp add: settled_def db_ok_def)
  then obtain db2 where env: "envelope_posits posit_role ascertains_role ?staged specs [] ?db1 = (Inr ?env, db2)"
    and db2: "appearances_ok db2" "role_keeper db2 = ?k" "store db2 = store db" "generator db2 = g1"
      "same_catalogue db2 ?db1"
    using envelope_posits_ok [of posit_role ascertains_role specs ?staged ?db1 "[]"] specs kept len
    by (auto simp: builtin_role_def)
  have set2: "settled nfc L C roles posits db2"
    using set1 db2 posits_are_cong [OF db2(5)] by (simp add: settled_def db_ok_def)
  have "\<forall>x \<in> set ?env. wf_pending L C ?k (lower_bound g1) x"
  proof
    fix x assume "x \<in> set ?env"
    then obtain spec where spec: "spec \<in> set specs" "x = envelope posit_role ascertains_role ?staged spec"
      by auto
    have "?staged ! target_index spec \<in> set ?staged" using specs spec(1) len by (metis nth_mem)
    from resolved [OF this] specs spec kept g1(1) show "wf_pending L C ?k (lower_bound g1) x"
      by (auto simp: wf_pending_def envelope_def wf_set_def set_roles_def builtin_role_def wf_spec_def
        posit_role_id_def ascertains_role_id_def intro: order_trans)
  qed
  moreover have "posits_are ?ps db2" using set2 by (simp add: settled_def db_ok_def)
  moreover have "unat (lower_bound (generator db2)) + length ?env < 2 ^ 64"
    using room g1(2) db2(4) by simp
  ultimately obtain more src2 g3 where st2: "stage_literal_posits ?env prep1 [] db2 =
      (prep1 @ more, src2, db2\<lparr>generator := g3\<rparr>)"
    and g3: "lower_bound g1 \<le> lower_bound g3"
    and f3: "fresh_posits L C ?k ?ps ?low (prep1 @ more) (lower_bound g3)"
    and src2: "list_all2 (stands_for ?ps (prep1 @ more)) ?env src2"
    using stage_literal_posits_fresh [of ?ps db2 L C ?low prep1 ?env "[]" "[]"] keys f1 db2(2,4) by auto
  have "settled nfc L C roles posits (db2\<lparr>generator := g3\<rparr>)"
    using settled_generator [OF set2] g3 db2(4) by simp
  moreover have "list_all2 (stands_for ?ps (prep1 @ more)) targets src1"
    using src1 by (auto intro: list_all2_mono stands_for_append)
  moreover have "resolve_posit (prep1 @ more) src = resolve_posit prep1 src" if "src \<in> set src1" for src
  proof -
    from source_of [OF src1 that] obtain x where "stands_for ?ps prep1 x src" by blast
    then show ?thesis by (cases src) (auto simp: nth_append)
  qed
  ultimately show thesis
    using f3 db2(2) by (intro that [OF st1 _ env st2 _ _ _ _ _ src2]) auto
qed

definition created_answers ::
    "database \<Rightarrow> database \<Rightarrow> pending_posit list \<Rightarrow> assertion_spec list \<Rightarrow> created_posits \<Rightarrow> bool" where
  "created_answers db db' targets specs out \<longleftrightarrow>
     list_all2 (posit_answer db db') targets (created_targets out)
     \<and> list_all2 (posit_answer db db')
         (map (envelope posit_role ascertains_role (created_targets out)) specs) (created_assertions out)"

lemma create_posits_cases:
  assumes C: "calendar_codec C" and ok: "settled nfc L C roles posits db"
    and targets: "\<forall>x \<in> set targets. wf_pending L C (role_keeper db) (lower_bound (generator db)) x"
    and specs: "\<forall>spec \<in> set specs. wf_spec L C (lower_bound (generator db)) spec"
    and room: "unat (lower_bound (generator db)) + length targets + length specs < 2 ^ 64"
    and run: "create_literal_posits_with_assertions fault targets specs db = (r, db')"
    and fits: "db_fits db'"
  obtains new out where "r = Inr out" and "settled nfc L C roles (posits @ new) db'"
      and "created_answers db db' targets specs out"
  | e where "r = Inl e" and "settled nfc L C roles posits db'"
  | e new where "r = Inl e" and "catalogue nfc L C roles (posits @ new)"
      and "uncertain nfc L C roles posits roles (posits @ new) db'"
proof -
  note finish = that(1) and failed = that(2)
  let ?ps = "map (object_of roles) posits" and ?k = "role_keeper db" and ?low = "lower_bound (generator db)"
  have dbok: "db_ok nfc L C roles posits db" using ok by (simp add: settled_def)
  consider "list_ex (\<lambda>spec. target_index spec \<ge> length targets) specs
      \<or> list_ex (\<lambda>spec. family (spec_certainty spec) \<noteq> CertaintyFamily) specs"
    | "\<not> list_ex (\<lambda>spec. target_index spec \<ge> length targets) specs"
      "\<not> list_ex (\<lambda>spec. family (spec_certainty spec) \<noteq> CertaintyFamily) specs"
    by blast
  then show thesis
  proof cases
    case 1
    then have "db' = db" "\<exists>e. r = Inl e"
      using run by (auto simp: create_literal_posits_with_assertions_def split: if_splits)
    with ok failed show thesis by blast
  next
    case 2
    have "\<forall>spec \<in> set specs. target_index spec < length targets \<and> wf_spec L C ?low spec"
      using 2(1) specs by (auto simp: list_ex_iff not_le)
    then obtain prep1 src1 db1 db2 prep src2 db3 where st1: "stage_literal_posits targets [] [] db = (prep1, src1, db1)"
      and k1: "role_keeper db1 = ?k"
      and env: "envelope_posits posit_role ascertains_role (map (resolve_posit prep1) src1) specs [] db1 =
         (Inr (map (envelope posit_role ascertains_role (map (resolve_posit prep1) src1)) specs), db2)"
      and st2: "stage_literal_posits (map (envelope posit_role ascertains_role (map (resolve_posit prep1) src1)) specs)
         prep1 [] db2 = (prep, src2, db3)"
      and k3: "role_keeper db3 = ?k" and set3: "settled nfc L C roles posits db3"
      and fresh: "fresh_posits L C ?k ?ps ?low prep (lower_bound (generator db3))"
      and src1: "list_all2 (stands_for ?ps prep) targets src1"
      and src2: "list_all2 (stands_for ?ps prep)
         (map (envelope posit_role ascertains_role (map (resolve_posit prep1) src1)) specs) src2"
      and same: "map (resolve_posit prep) src1 = map (resolve_posit prep1) src1"
      by (rule stage_targets_and_envelopes [OF ok targets _ room])
    let ?new = "map replayed_of_posit prep"
    have cat: "catalogue nfc L C roles (posits @ ?new)" by (rule fresh_posits_catalogue [OF dbok fresh])
    define step where "step = (if prep = [] then (Inr (), db3)
      else attempt_st (try_map posit_record prep, db3) (\<lambda>records db. append_records fault records db))"
    have run': "(r, db') = attempt_st step (\<lambda>_ db. let (kept, db) = keep_posits prep db
        in (Inr \<lparr>created_targets = map (resolve_posit kept) src1,
              created_assertions = map (resolve_posit kept) src2\<rparr>, db))"
      using run 2 st1 env st2 builtin_roles_kept(1,2) [OF dbok] k1
      by (simp add: create_literal_posits_with_assertions_def step_def Let_def)
    have publish: thesis if s: "step = (Inr (), db3\<lparr>store := s\<rparr>)"
      "\<forall>t. s = Some t \<longrightarrow> store_ok nfc L C roles (posits @ ?new) t" for s
    proof -
      let ?db = "db3\<lparr>store := s\<rparr>"
      have ok3: "db_ok nfc L C roles posits ?db" using set3 by (simp add: settled_def)
      have "distinct (map pkey (?ps @ prep))" "distinct (map pthing (?ps @ prep))"
        using cat object_keys(2) [OF dbok]
        by (simp_all only: catalogue_def map_append distinct_append map_map o_def replayed_of_posit_simps
          set_append set_map image_image object_of_simps object_keys(1) [OF dbok, simplified] simp_thms Int_Un_distrib)
      then obtain db4 where keep: "keep_posits prep ?db = (prep, db4)" "posits_are (?ps @ prep) db4"
          "appearances_ok db4" "role_keeper db4 = role_keeper ?db" "store db4 = s"
          "generator db4 = generator ?db"
        using keep_posits_new [of ?ps ?db prep] ok3 by (auto simp: db_ok_def)
      have r: "r = Inr \<lparr>created_targets = map (resolve_posit prep) src1,
          created_assertions = map (resolve_posit prep) src2\<rparr>" and db': "db' = db4"
        using run' s(1) keep(1) by simp_all
      have "db_ok nfc L C roles (posits @ ?new) db4"
      proof (rule db_ok_posits [OF dbok])
        show "fresh_posits L C ?k ?ps ?low prep (lower_bound (generator db4))" using fresh keep(6) by simp
      qed (use keep k3 in simp_all)
      then have "settled nfc L C roles (posits @ ?new) db'"
        using s(2) keep(5) db' by (simp add: settled_def)
      moreover have "created_answers db db' targets specs \<lparr>created_targets = map (resolve_posit prep) src1,
          created_assertions = map (resolve_posit prep) src2\<rparr>"
        using posit_answers [OF dbok fresh keep(2) src1, unfolded same] posit_answers [OF dbok fresh keep(2) src2]
        unfolding created_answers_def created_posits.simps same db' by blast
      ultimately show thesis by (rule finish [OF r])
    qed
    show thesis
    proof (cases "prep = []")
      case True
      have "db3 = db3\<lparr>store := store db3\<rparr>" by simp
      then show thesis using publish [of "store db3"] True set3 by (simp add: step_def settled_def)
    next
      case False
      show thesis
      proof (cases "try_map posit_record prep")
        case (Inl e)
        then show thesis using failed [of e] run' False set3 by (simp add: step_def)
      next
        case (Inr recs)
        obtain r2 db4 where a: "append_records fault recs db3 = (r2, db4)" by fastforce
        have step: "step = (r2, db4)" using False Inr a by (simp add: step_def)
        have "db_fits db4"
        proof (cases r2)
          case (Inl e)
          with run' step fits show ?thesis by simp
        next
          case (Inr u)
          then have "store db' = store db4"
            using run' step stage_db_fits [of prep db4] by (simp split: prod.splits)
          then show ?thesis using fits by (simp add: db_fits_def)
        qed
        moreover have "apply_batch nfc L C (number_records recs seq) (replay_state [] roles posits (set all_codecs)) =
            Inr (replay_state [] roles (posits @ ?new) (set all_codecs))"
          if "\<forall>r \<in> set recs. length (pending_payload r) < 2 ^ 64" for seq
        proof -
          have "posit_record = (\<lambda>p. posit_record_of (replayed_of_posit p))"
            by (simp add: fun_eq_iff posit_record_replayed)
          then have "try_map posit_record_of ?new = Inr recs" using Inr by (simp add: try_map_map)
          from calendar_codec.replay_posit_batch [OF C cat this that] show ?thesis by simp
        qed
        ultimately show thesis
        proof (rule append_records_cases [OF set3 a])
          fix s assume "r2 = Inr ()" "db4 = db3\<lparr>store := s\<rparr>"
            "\<forall>t. s = Some t \<longrightarrow> store_ok nfc L C roles (posits @ ?new) t"
          then show thesis using publish [of s] step by simp
        next
          fix e assume "r2 = Inl e" "db4 = db3"
          then show thesis using failed [of e] run' step set3 by simp
        next
          fix e assume "r2 = Inl e" "uncertain nfc L C roles posits roles (posits @ ?new) db4"
          then show thesis using that(3) [of e ?new] run' step cat by simp
        qed
      qed
    qed
  qed
qed

end
