(* ===== verification/New_Database.thy ===== *)
theory New_Database
  imports Posit_Operations Store_Properties
begin

text \<open>
  A new database: what \<open>Database::new\<close> makes of nothing, in memory and over a directory without a
  store, and what it makes of a store whose initialisation or bootstrap was interrupted.
\<close>

section \<open>The built-in roles\<close>

definition builtin_catalogue :: "replayed_role list" where
  "builtin_catalogue = map (\<lambda>(ident, name). \<lparr>role_identity = ident, role_name = name, role_reserved = True\<rparr>)
     builtin_roles"

lemma builtin_names_normal: "nfc_laws nfc \<Longrightarrow> (ident, name) \<in> set builtin_roles \<Longrightarrow> nfc name = name"
  by (auto simp: nfc_laws_def builtin_roles_def)

lemma builtin_catalogue_ok:
  assumes "nfc_laws nfc"
  shows "catalogue nfc L C builtin_catalogue []" and "builtins_present builtin_catalogue"
proof -
  have distinct: "distinct (map role_identity builtin_catalogue)" "distinct (map role_name builtin_catalogue)"
    and wf: "\<forall>r \<in> set builtin_catalogue. role_identity r \<noteq> 0 \<and> role_name r \<noteq> [] \<and> wf_string (role_name r)"
    by code_simp+
  have "nfc (role_name r) = role_name r" if r: "r \<in> set builtin_catalogue" for r
  proof -
    obtain ident name where "(ident, name) \<in> set builtin_roles" "role_name r = name"
      using r by (auto simp: builtin_catalogue_def)
    then show ?thesis using builtin_names_normal [OF assms] by blast
  qed
  with distinct wf show "catalogue nfc L C builtin_catalogue []"
    by (simp add: catalogue_def wf_role_def)
  show "builtins_present builtin_catalogue"
    by (auto simp: builtins_present_def builtin_catalogue_def)
qed

lemma builtin_role_list:
  assumes "nfc_laws nfc"
  shows "map (\<lambda>(ident, name). new_role nfc ident name True) builtin_roles = map role_of builtin_catalogue"
proof -
  have "new_role nfc ident name True =
      role_of \<lparr>role_identity = ident, role_name = name, role_reserved = True\<rparr>"
    if "(ident, name) \<in> set builtin_roles" for ident name
    using builtin_names_normal [OF assms that] by (simp add: new_role_def role_of_def)
  then show ?thesis unfolding builtin_catalogue_def by auto
qed

text \<open>Keeping roles one by one, with their things retained.\<close>

lemma retain_and_keep_roles_new:
  "roles_are rs (role_keeper db) \<Longrightarrow> distinct (map label (rs @ new)) \<Longrightarrow> distinct (map role_thing (rs @ new))
     \<Longrightarrow> \<exists>g k. retain_and_keep_roles new db = db\<lparr>generator := g, role_keeper := k\<rparr> \<and> roles_are (rs @ new) k
        \<and> lower_bound (generator db) \<le> lower_bound g \<and> (\<forall>r \<in> set new. role_thing r \<le> lower_bound g)"
proof (induction new arbitrary: rs db)
  case Nil
  then show ?case by (intro exI [of _ "generator db"] exI [of _ "role_keeper db"]) simp
next
  case (Cons r new)
  obtain k where k: "keep_role r (role_keeper db) = ((r, False), k)" "roles_are (rs @ [r]) k"
    by (rule keep_role_new [OF Cons.prems(1), of r]) (use Cons.prems(2,3) in auto)
  let ?db = "db\<lparr>generator := retain (role_thing r) (generator db), role_keeper := k\<rparr>"
  have step: "retain_and_keep_roles (r # new) db = retain_and_keep_roles new ?db"
    using k(1) by (simp add: retain_thing_def db_keep_role_def)
  obtain g k' where "retain_and_keep_roles new ?db = ?db\<lparr>generator := g, role_keeper := k'\<rparr>"
      "roles_are ((rs @ [r]) @ new) k'" "lower_bound (generator ?db) \<le> lower_bound g"
      "\<forall>r \<in> set new. role_thing r \<le> lower_bound g"
    using Cons.IH [of "rs @ [r]" ?db] Cons.prems(2,3) k(2) by auto
  then show ?case
    unfolding step by (intro exI [of _ g] exI [of _ k']) (auto simp: retain_bound)
qed

lemma retain_and_keep_roles_bound:
  "lower_bound (generator (retain_and_keep_roles rs db)) =
     fold (\<lambda>r low. max (role_thing r) low) rs (lower_bound (generator db))"
  by (induction rs arbitrary: db)
    (simp_all add: retain_thing_def db_keep_role_def case_prod_unfold Let_def retain_bound)

text \<open>\<open>ensure_builtin_roles\<close> keeps the same roles when none is there.\<close>

lemma ensure_builtin_roles_new:
  "roles_are rs (role_keeper db) \<Longrightarrow> distinct (map label (rs @ map (\<lambda>(i, n). new_role nfc i n True) new))
     \<Longrightarrow> distinct (map role_thing (rs @ map (\<lambda>(i, n). new_role nfc i n True) new))
     \<Longrightarrow> \<forall>(i, n) \<in> set new. nfc n = n
     \<Longrightarrow> ensure_builtin_roles nfc new db =
         (Inr (), retain_and_keep_roles (map (\<lambda>(i, n). new_role nfc i n True) new) db)"
proof (induction new arbitrary: rs db)
  case (Cons x new)
  obtain i n where x: "x = (i, n)" by (cases x)
  let ?r = "new_role nfc i n True"
  obtain k where k: "keep_role ?r (role_keeper db) = ((?r, False), k)" "roles_are (rs @ [?r]) k"
    by (rule keep_role_new [OF Cons.prems(1), of ?r]) (use Cons.prems(2,3) x in auto)
  let ?db = "db\<lparr>generator := retain i (generator db), role_keeper := k\<rparr>"
  have "label ?r = n" "role_thing ?r = i" using Cons.prems(4) x by (auto simp: new_role_def)
  then have "get_role nfc n (role_keeper db) = None" "role_lookup (role_keeper db) i = None"
    using Cons.prems x by (auto simp: get_role_def roles_are_def map_of_key_None)
  then have "ensure_builtin_role nfc i n db = (Inr (), ?db)"
    using k(1) by (simp add: ensure_builtin_role_def retain_thing_def db_keep_role_def)
  moreover have "ensure_builtin_roles nfc new ?db =
      (Inr (), retain_and_keep_roles (map (\<lambda>(i, n). new_role nfc i n True) new) ?db)"
    using Cons.IH [of "rs @ [?r]" ?db] Cons.prems(2-4) k(2) x by simp
  moreover have "retain_and_keep_roles (?r # rs') db = retain_and_keep_roles rs' ?db" for rs'
    using k(1) \<open>role_thing ?r = i\<close> by (simp add: retain_thing_def db_keep_role_def)
  ultimately show ?case by (simp add: x)
qed simp

lemma builtins_kept_ok:
  assumes "nfc_laws nfc"
  obtains g k where "retain_and_keep_roles (map role_of builtin_catalogue) (empty_database s) =
      (empty_database s)\<lparr>generator := g, role_keeper := k\<rparr>"
    and "db_ok nfc L C builtin_catalogue [] ((empty_database s)\<lparr>generator := g, role_keeper := k\<rparr>)"
proof -
  let ?e = "empty_database s"
  have cat: "catalogue nfc L C builtin_catalogue []" by (rule builtin_catalogue_ok [OF assms])
  then have "distinct (map label ([] @ map role_of builtin_catalogue))"
      "distinct (map role_thing ([] @ map role_of builtin_catalogue))"
    by (simp_all add: catalogue_def o_def)
  moreover have "roles_are [] (role_keeper ?e)" by (simp add: empty_database_def roles_are_empty)
  ultimately obtain g k where keep: "retain_and_keep_roles (map role_of builtin_catalogue) ?e =
      ?e\<lparr>generator := g, role_keeper := k\<rparr>" and k: "roles_are (map role_of builtin_catalogue) k"
    and g: "\<forall>r \<in> set (map role_of builtin_catalogue). role_thing r \<le> lower_bound g"
    using retain_and_keep_roles_new [of "[]" ?e "map role_of builtin_catalogue"] by auto
  have "appearances_ok (?e\<lparr>generator := g, role_keeper := k\<rparr>)"
    by (simp add: appearances_ok_def empty_database_def)
  moreover have "posits_are (map (object_of builtin_catalogue) []) (?e\<lparr>generator := g, role_keeper := k\<rparr>)"
    using posits_are_empty [of s] by (simp add: posits_are_def)
  ultimately have "db_ok nfc L C builtin_catalogue [] (?e\<lparr>generator := g, role_keeper := k\<rparr>)"
    using cat builtin_catalogue_ok(2) [OF assms] k g by (simp add: db_ok_def things_of_def)
  with keep show thesis by (rule that)
qed

lemma builtins_bound:
  "lower_bound (generator (retain_and_keep_roles (map role_of builtin_catalogue) (empty_database s))) = 5"
proof -
  have "fold (\<lambda>r low. max (role_thing r) low) (map role_of builtin_catalogue) genesis = 5"
    by code_simp
  then show ?thesis by (simp add: retain_and_keep_roles_bound empty_database_def new_generator_def)
qed

lemma new_memory_database:
  assumes "nfc_laws nfc"
  obtains db where "new_database nfc L C lock fault fault' random InMemory = (Inr db, None)"
    and "settled nfc L C builtin_catalogue [] db" and "store db = None" and "lower_bound (generator db) = 5"
proof -
  let ?e = "empty_database None"
  obtain g k where keep: "retain_and_keep_roles (map role_of builtin_catalogue) ?e =
      ?e\<lparr>generator := g, role_keeper := k\<rparr>"
    and ok: "db_ok nfc L C builtin_catalogue [] (?e\<lparr>generator := g, role_keeper := k\<rparr>)"
    by (rule builtins_kept_ok [OF assms])
  have "distinct (map label (map role_of builtin_catalogue))"
      "distinct (map role_thing (map role_of builtin_catalogue))"
    using ok by (simp_all add: db_ok_def catalogue_def o_def)
  then have "ensure_builtin_roles nfc builtin_roles ?e = (Inr (), ?e\<lparr>generator := g, role_keeper := k\<rparr>)"
    using ensure_builtin_roles_new [of "[]" ?e nfc builtin_roles] builtin_names_normal [OF assms]
      builtin_role_list [OF assms] keep by (auto simp: empty_database_def roles_are_empty)
  moreover have "lower_bound g = 5"
    using builtins_bound [of None] unfolding keep by simp
  ultimately show thesis
    using that [of "?e\<lparr>generator := g, role_keeper := k\<rparr>"] ok
    by (simp add: new_database_def settled_def empty_database_def)
qed

section \<open>Bootstrapping a store\<close>

definition bootstrap_records :: "pending_record list" where
  "bootstrap_records = map role_record_of builtin_catalogue @ codec_records"

lemma bootstrap_records_ok:
  "validate_pending_records bootstrap_records = Inr ()"
  "\<forall>r \<in> set bootstrap_records. length (pending_payload r) < 100" "length bootstrap_records < 20"
  by code_simp+

lemma bootstrap_role_records:
  assumes "nfc_laws nfc"
  shows "map role_record (map (\<lambda>(ident, name). new_role nfc ident name True) builtin_roles) @ codec_records =
    bootstrap_records"
  unfolding builtin_role_list [OF assms] bootstrap_records_def
  by (simp add: role_record_def role_record_of_def)

lemma bootstrap_batch:
  assumes "nfc_laws nfc" and "calendar_codec C"
  shows "apply_batch nfc L C (number_records bootstrap_records seq) (replay_state [] [] [] {}) =
    Inr (replay_state [] builtin_catalogue [] (set all_codecs))"
proof -
  have "\<forall>r \<in> set builtin_catalogue. length (pending_payload (role_record_of r)) < 2 ^ 64"
  proof
    fix r assume "r \<in> set builtin_catalogue"
    then have "length (pending_payload (role_record_of r)) < 100"
      using bootstrap_records_ok(2) by (simp add: bootstrap_records_def)
    then show "length (pending_payload (role_record_of r)) < 2 ^ 64" by simp
  qed
  then have "apply_batch nfc L C (number_records (map role_record_of builtin_catalogue) seq)
      (replay_state [] [] [] {}) = Inr (replay_state [] builtin_catalogue [] {})"
    using calendar_codec.replay_role_batch [OF assms(2), of nfc L "[]" builtin_catalogue "[]"]
      builtin_catalogue_ok(1) [OF assms(1), of L C] by simp
  then show ?thesis
    unfolding bootstrap_records_def number_records_append apply_batch_append
    by (simp add: replay_codec_batch)
qed

text \<open>What an opened store without batches becomes.\<close>

lemma bootstrap_cases:
  assumes nfc: "nfc_laws nfc" and C: "calendar_codec C" and s: "store_holds s uuid []"
    and run: "bootstrap_append_store nfc fault (empty_database (Some s)) = (r, db)"
    and fits: "db_fits db"
  obtains t where "r = Inr ()" and "store db = Some t" and "settled nfc L C builtin_catalogue [] db"
    | e t where "r = Inl e" and "store db = Some t" and "disk_holds (store_disk t) uuid []"
    | e t where "r = Inl e" and "store db = Some t"
      and "disk_ok nfc L C builtin_catalogue [] (store_disk t)"
proof -
  let ?stored = "number_records bootstrap_records (next_sequence s)"
  obtain r2 t where a: "append_batch fault bootstrap_records s = (r2, t)" by fastforce
  have ed: "(empty_database x)\<lparr>store := y\<rparr> = empty_database y" for x y
    by (simp add: empty_database_def)
  have step: "bootstrap_append_store nfc fault (empty_database (Some s)) =
      (case r2 of Inl e \<Rightarrow> (Inl e, empty_database (Some t))
       | Inr _ \<Rightarrow> (Inr (), retain_and_keep_roles (map role_of builtin_catalogue) (empty_database (Some t))))"
    using a bootstrap_role_records [OF nfc] ed
    by (auto simp: bootstrap_append_store_def append_records_def Let_def builtin_role_list [OF nfc]
        empty_database_def split: sum.splits)
  have keep: "store (retain_and_keep_roles rs db) = store db" for rs db
    by (induction rs arbitrary: db) (simp_all add: db_keep_role_def retain_thing_def case_prod_unfold Let_def)
  have st: "store db = Some t"
    using run unfolding step by (auto simp: keep empty_database_def split: sum.splits)
  have replays: "replays_to nfc L C [?stored] builtin_catalogue [] (set all_codecs)"
    using bootstrap_batch [OF nfc C, of L "next_sequence s"] by (simp add: replays_to_def new_replay_state)
  have "log_fits (store_disk t)" using fits st by (simp add: db_fits_def)
  then show thesis
  proof (rule append_batch_cases [OF s a])
    fix e assume "r2 = Inl e" "t = s"
    then show thesis using that(2) [of e t] run st store_disk_holds [OF s] unfolding step by simp
  next
    fix e assume "r2 = Inl e" "disk_holds (store_disk t) uuid []"
    then show thesis using that(2) [of e t] run st unfolding step by simp
  next
    fix e assume "r2 = Inl e" "disk_holds (store_disk t) uuid ([] @ [?stored])"
    then show thesis
      using that(3) [of e t] run st replays unfolding step by (auto simp: disk_ok_def)
  next
    assume r2: "r2 = Inr ?stored" and t: "store_holds t uuid ([] @ [?stored])"
    obtain g k where "retain_and_keep_roles (map role_of builtin_catalogue) (empty_database (Some t)) =
        (empty_database (Some t))\<lparr>generator := g, role_keeper := k\<rparr>"
      and "db_ok nfc L C builtin_catalogue [] ((empty_database (Some t))\<lparr>generator := g, role_keeper := k\<rparr>)"
      by (rule builtins_kept_ok [OF nfc])
    moreover have "store_ok nfc L C builtin_catalogue [] t"
      using t replays by (auto simp: store_ok_def)
    ultimately show thesis
      using that(1) [of t] run st r2 unfolding step by (simp add: settled_def empty_database_def)
  qed
qed

text \<open>The same for \<open>Database::new\<close>, over any directory whose store opens empty.\<close>

definition empty_replay :: "bytes \<Rightarrow> replayed_store" where
  "empty_replay uuid = \<lparr>replayed_uuid = uuid, replayed_roles = [], replayed_posits = [],
     has_required_codecs = False\<rparr>"

lemma settled_has_roles:
  assumes "db_ok nfc L C roles posits db"
  shows "dom (kept_roles (role_keeper db)) \<noteq> {}"
proof -
  have "(posit_role_id, ''posit'') \<in> set builtin_roles" by (simp add: builtin_roles_def)
  then have "kept_roles (role_keeper db) ''posit'' \<noteq> None"
    using builtin_kept [of nfc L C roles posits "role_keeper db"] assms by (fastforce simp: db_ok_def)
  then show ?thesis by auto
qed

lemma new_store_cases:
  assumes nfc: "nfc_laws nfc" and C: "calendar_codec C" and s: "store_holds s uuid []"
    and opened: "open_replayed nfc L C True fault random d = (Inr (s, empty_replay uuid), store_disk s)"
    and run: "new_database nfc L C True fault fault' random (File d) = (r, Some d')" and fits: "log_fits d'"
  obtains db t where "r = Inr db" and "store db = Some t" and "d' = store_disk t"
      and "settled nfc L C builtin_catalogue [] db"
    | e where "r = Inl e" and "disk_holds d' uuid []"
    | e where "r = Inl e" and "disk_ok nfc L C builtin_catalogue [] d'"
proof -
  obtain r2 db where b: "bootstrap_append_store nfc fault' (empty_database (Some s)) = (r2, db)" by fastforce
  have new: "new_database nfc L C True fault fault' random (File d) =
      (let (r, db) = (case r2 of Inl e \<Rightarrow> (Inl e, db) | Inr _ \<Rightarrow>
          if dom (kept_roles (role_keeper db)) = {} then ensure_builtin_roles nfc builtin_roles db
          else (Inr (), db)) in (attempt r (\<lambda>_. Inr db), map_option store_disk (store db)))"
    using opened b by (simp add: new_database_def empty_replay_def)
  have keep: "store (retain_and_keep_roles rs db) = store db" for rs db
    by (induction rs arbitrary: db) (simp_all add: db_keep_role_def retain_thing_def case_prod_unfold Let_def)
  have ensure: "store (snd (ensure_builtin_roles nfc rs db)) = store db" for rs db
    by (induction rs arbitrary: db)
      (auto simp: ensure_builtin_role_def db_keep_role_def retain_thing_def attempt_st_def case_prod_unfold Let_def
        split: option.splits sum.splits prod.splits)
  have "map_option store_disk (store db) = Some d'"
    using run ensure [of builtin_roles db] unfolding new
    by (auto split: sum.splits prod.splits if_splits) (metis snd_conv)?
  then have "db_fits db" using fits by (auto simp: db_fits_def)
  then show thesis
  proof (rule bootstrap_cases [OF nfc C s b])
    fix t assume t: "r2 = Inr ()" "store db = Some t" "settled nfc L C builtin_catalogue [] db"
    then have "dom (kept_roles (role_keeper db)) \<noteq> {}"
      using settled_has_roles [of nfc L C builtin_catalogue "[]" db] by (simp add: settled_def)
    with t run show thesis using that(1) [of db t] unfolding new by simp
  next
    fix e t assume "r2 = Inl e" "store db = Some t" "disk_holds (store_disk t) uuid []"
    with run show thesis using that(2) [of e] unfolding new by simp
  next
    fix e t assume "r2 = Inl e" "store db = Some t" "disk_ok nfc L C builtin_catalogue [] (store_disk t)"
    with run show thesis using that(3) [of e] unfolding new by simp
  qed
qed

section \<open>Nothing fails\<close>

lemma empty_store_counters:
  assumes "store_holds s uuid []"
  shows "next_sequence s = 1" and "unat (committed_length (store_manifest s)) = 64"
  using assms by (auto simp: store_holds_def log_header_len_def elim: logged.cases)

lemma bootstrap_succeeds:
  assumes nfc: "nfc_laws nfc" and C: "calendar_codec C" and s: "store_holds s uuid []"
  obtains db t where "bootstrap_append_store nfc No_fault (empty_database (Some s)) = (Inr (), db)"
    and "store db = Some t" and "settled nfc L C builtin_catalogue [] db"
    and "lower_bound (generator db) = 5"
proof -
  obtain r db where run: "bootstrap_append_store nfc No_fault (empty_database (Some s)) = (r, db)" by fastforce
  have "\<forall>r \<in> set bootstrap_records. length (pending_payload r) \<le> max_frame_size - 30"
    using bootstrap_records_ok(2) by (fastforce simp: max_frame_size_def)
  then obtain t where t: "append_batch No_fault bootstrap_records s =
      (Inr (number_records bootstrap_records (next_sequence s)), t)"
    and holds: "store_holds t uuid ([] @ [number_records bootstrap_records (next_sequence s)])"
    using append_batch_succeeds [OF s bootstrap_records_ok(1)] bootstrap_records_ok(3)
      empty_store_counters [OF s] by (auto simp: max_frame_size_def)
  have db: "r = Inr ()" "db = retain_and_keep_roles (map role_of builtin_catalogue) (empty_database (Some t))"
    using run t bootstrap_role_records [OF nfc]
    by (auto simp: bootstrap_append_store_def append_records_def Let_def builtin_role_list [OF nfc]
        empty_database_def)
  have "store (retain_and_keep_roles rs db) = store db" for rs db
    by (induction rs arbitrary: db) (simp_all add: db_keep_role_def retain_thing_def case_prod_unfold Let_def)
  then have st: "store db = Some t" using db(2) by (simp add: empty_database_def)
  then have "db_fits db" using store_holds_fits [OF holds] by (simp add: db_fits_def)
  then have ok: "settled nfc L C builtin_catalogue [] db"
    by (rule bootstrap_cases [OF nfc C s run]) (use db(1) in auto)
  have "lower_bound (generator db) = 5" unfolding db(2) by (rule builtins_bound)
  with run db(1) st ok show thesis using that by simp
qed

lemma finish_empty_replay: "finish_replay (replay_state uuid [] [] {}) = Inr (empty_replay uuid)"
proof -
  have "\<not> list_all (\<lambda>codec. codec \<in> {}) all_codecs" by (simp add: all_codecs_def)
  then show ?thesis
    by (simp add: finish_replay_def replay_state_def Let_def empty_replay_def)
qed

lemma open_empty_store:
  assumes "disk_holds d uuid []" and "log_fits d"
  obtains s where "store_holds s uuid []"
    and "open_replayed nfc L C True fault random d = (Inr (s, empty_replay uuid), store_disk s)"
proof -
  have "replays_to nfc L C [] [] [] {}" by (simp add: replays_to_def new_replay_state)
  from open_replayed_holds [OF assms this finish_empty_replay] that show thesis by blast
qed

lemma open_fresh_replayed:
  assumes "length random = 16"
  shows "open_replayed nfc L C True No_fault (Some random) fresh_disk =
    (Inr (fresh_store random, empty_replay (mark_uuid random)), store_disk (fresh_store random))"
proof -
  have "store_uuid (store_manifest (fresh_store random)) = mark_uuid random"
    by (simp add: fresh_store_def Let_def)
  then show ?thesis
    using open_fresh [OF assms, of "apply_batch nfc L C" "new_replay []"] finish_empty_replay
    by (simp add: open_replayed_def new_replay_state replay_state_uuid)
qed

text \<open>Over a store without batches, and over a directory without a store.\<close>

lemma new_store_succeeds:
  assumes nfc: "nfc_laws nfc" and C: "calendar_codec C" and s: "store_holds s uuid []"
    and opened: "open_replayed nfc L C True fault random d = (Inr (s, empty_replay uuid), store_disk s)"
  obtains db t where "new_database nfc L C True fault No_fault random (File d) = (Inr db, Some (store_disk t))"
    and "store db = Some t" and "settled nfc L C builtin_catalogue [] db"
    and "lower_bound (generator db) = 5"
proof -
  obtain db t where b: "bootstrap_append_store nfc No_fault (empty_database (Some s)) = (Inr (), db)"
      "store db = Some t" "settled nfc L C builtin_catalogue [] db" "lower_bound (generator db) = 5"
    by (rule bootstrap_succeeds [OF nfc C s])
  have "dom (kept_roles (role_keeper db)) \<noteq> {}"
    using settled_has_roles [of nfc L C builtin_catalogue "[]" db] b(3) by (simp add: settled_def)
  then have "new_database nfc L C True fault No_fault random (File d) = (Inr db, Some (store_disk t))"
    using opened b(1,2) by (simp add: new_database_def empty_replay_def)
  with b show thesis using that by blast
qed

lemma new_fresh_database:
  assumes "nfc_laws nfc" and "calendar_codec C" and "length random = 16"
  obtains db t where
    "new_database nfc L C True No_fault No_fault (Some random) (File fresh_disk) = (Inr db, Some (store_disk t))"
    and "store db = Some t" and "settled nfc L C builtin_catalogue [] db"
    and "lower_bound (generator db) = 5"
  using new_store_succeeds [OF assms(1,2) fresh_store_holds [OF assms(3)] open_fresh_replayed [OF assms(3)]]
  by metis

lemma settled_disk:
  assumes "settled nfc L C roles posits db" and "store db = Some s"
  shows "disk_ok nfc L C roles posits (store_disk s) \<and> log_fits (store_disk s)"
  using assms store_disk_holds store_holds_fits unfolding settled_def store_ok_def disk_ok_def by blast

text \<open>Opening what a settled database left.\<close>

lemma disk_ok_reopens:
  assumes "disk_ok nfc L C roles posits d" and "log_fits d"
    and "catalogue nfc L C roles posits" and "builtins_present roles"
  obtains db s where "new_database nfc L C True fault fault' random (File d) = (Inr db, Some (store_disk s))"
    and "settled nfc L C roles posits db" and "store db = Some s"
  using new_database_restores [OF assms] by (metis option.inject settled_def)

lemma db_ok_same_catalogue:
  "db_ok nfc L C roles posits db \<Longrightarrow> db_ok nfc L C roles posits db' \<Longrightarrow> same_catalogue db db'"
  unfolding db_ok_def by (blast intro: same_catalogue_lists)

section \<open>An ordinary database\<close>

text \<open>The database the examples start from: a new store, with ASCII names only, integers as the only
  literals and the Gregorian calendar.\<close>

lemma id_nfc_laws: "nfc_laws (\<lambda>s. s)"
  by (simp add: nfc_laws_def)

lemma sample_database:
  obtains db t where "new_database (\<lambda>s. s) plain_lib gregorian True No_fault No_fault (Some sample_random)
      (File fresh_disk) = (Inr db, Some (store_disk t))"
    and "store db = Some t" and "settled (\<lambda>s. s) plain_lib gregorian builtin_catalogue [] db"
    and "lower_bound (generator db) = 5"
  by (rule new_fresh_database [OF id_nfc_laws gregorian.calendar_codec_axioms sample_random_length])

end
