(* ===== verification/Database_Properties.thy ===== *)
theory Database_Properties
  imports New_Database
begin

text \<open>
  The properties of a database over its store: what is reopened is what was there, creating roles and
  posits is durable and atomic under failures and crashes, the lookups are exact, identities are fresh,
  and what an interrupted first start leaves behind.
\<close>

section \<open>Reopening\<close>

lemma settled_reopens:
  assumes "settled nfc L C roles posits db" and "store db = Some s"
  shows "\<exists>db' s'. new_database nfc L C True fault fault' random (File (store_disk s)) =
      (Inr db', Some (store_disk s'))
    \<and> settled nfc L C roles posits db' \<and> store db' = Some s' \<and> same_catalogue db' db"
proof -
  have ok: "db_ok nfc L C roles posits db" using assms(1) by (simp add: settled_def)
  then have cat: "catalogue nfc L C roles posits" "builtins_present roles" by (simp_all add: db_ok_def)
  have d: "disk_ok nfc L C roles posits (store_disk s)" "log_fits (store_disk s)"
    using settled_disk [OF assms] by blast+
  obtain db' s' where "new_database nfc L C True fault fault' random (File (store_disk s)) =
      (Inr db', Some (store_disk s'))" "settled nfc L C roles posits db'" "store db' = Some s'"
    by (rule disk_ok_reopens [OF d cat, where fault = fault and fault' = fault' and random = random])
  moreover from this have "same_catalogue db' db"
    using ok db_ok_same_catalogue by (auto simp: settled_def)
  ultimately show ?thesis by blast
qed

lemma uncertain_reopens:
  assumes unc: "uncertain nfc L C roles posits roles' posits' db" and cat: "catalogue nfc L C roles' posits'"
    and "builtins_present roles'" and "store db = Some s" and "db_fits db"
  shows "\<exists>db' d. new_database nfc L C True fault fault' random (File (store_disk s)) = (Inr db', Some d)
    \<and> (settled nfc L C roles posits db' \<or> settled nfc L C roles' posits' db')"
proof -
  have fits: "log_fits (store_disk s)" using assms(4,5) by (simp add: db_fits_def)
  have old: "catalogue nfc L C roles posits" "builtins_present roles"
    using unc by (simp_all add: uncertain_def db_ok_def)
  consider "disk_ok nfc L C roles posits (store_disk s)" | "disk_ok nfc L C roles' posits' (store_disk s)"
    using unc assms(4) by (auto simp: uncertain_def)
  then show ?thesis
  proof cases
    case 1
    obtain db' s' where "new_database nfc L C True fault fault' random (File (store_disk s)) =
        (Inr db', Some (store_disk s'))" "settled nfc L C roles posits db'" "store db' = Some s'"
      by (rule disk_ok_reopens [OF 1 fits old, where fault = fault and fault' = fault' and random = random])
    then show ?thesis by blast
  next
    case 2
    obtain db' s' where "new_database nfc L C True fault fault' random (File (store_disk s)) =
        (Inr db', Some (store_disk s'))" "settled nfc L C roles' posits' db'" "store db' = Some s'"
      by (rule disk_ok_reopens [OF 2 fits cat assms(3), where fault = fault and fault' = fault' and random = random])
    then show ?thesis by blast
  qed
qed

lemma settled_same: "settled nfc L C roles posits db \<Longrightarrow> settled nfc L C roles posits db' \<Longrightarrow> same_catalogue db' db"
  using db_ok_same_catalogue by (auto simp: settled_def)

lemma uncertain_same:
  "settled nfc L C roles posits db \<Longrightarrow> uncertain nfc L C roles posits roles' posits' db' \<Longrightarrow> same_catalogue db' db"
  using db_ok_same_catalogue by (auto simp: settled_def uncertain_def)



text \<open>C18: a store that opens holds a catalogue.  Whatever bytes are on the disk, if the replay of the
  store succeeds then its roles and posits are well formed, with unique identities, role names and
  propositions, every posit is about known roles, and they are what the batches on the disk replay to;
  an opened store that is not empty has the built-in roles and codecs.\<close>

theorem opened_store_is_catalogue:
  assumes "calendar_codec C" and "open_replayed nfc L C True fault random d = (Inr (s, rs), d')"
    and "manifest_file d = Some bs" and "length bs < 2 ^ 64" and "log_fits d"
  shows "catalogue nfc L C (replayed_roles rs) (replayed_posits rs)
    \<and> (\<exists>uuid bss codecs. disk_holds d uuid bss
         \<and> replays_to nfc L C bss (replayed_roles rs) (replayed_posits rs) codecs)
    \<and> (replayed_roles rs = [] \<and> replayed_posits rs = [] \<and> \<not> has_required_codecs rs
       \<or> builtins_present (replayed_roles rs) \<and> has_required_codecs rs)"
proof -
  obtain uuid bss codecs where h: "disk_holds d uuid bss"
      "replays_to nfc L C bss (replayed_roles rs) (replayed_posits rs) codecs"
      "catalogue nfc L C (replayed_roles rs) (replayed_posits rs)"
      "finish_replay (replay_state uuid (replayed_roles rs) (replayed_posits rs) codecs) = Inr rs"
    using open_replayed_Inr [OF assms(1,2,3,5,4)] by metis
  have some: "\<not> set all_codecs \<subseteq> {}" by (simp add: all_codecs_def)
  have required: "has_required_codecs rs \<longleftrightarrow> set all_codecs \<subseteq> codecs"
    using finish_replay_state [OF h(4)] by (metis replayed_store.select_convs(4))
  note used = finish_replay_state [OF h(4), THEN conjunct2]
  have "replayed_roles rs = [] \<and> replayed_posits rs = [] \<and> \<not> has_required_codecs rs
       \<or> builtins_present (replayed_roles rs) \<and> has_required_codecs rs"
    using some required used by (cases "codecs = {}") auto
  with h(1-3) show ?thesis by blast
qed

theorem opened_store_is_catalogue_witness:
  "\<exists>s rs d'. open_replayed (\<lambda>s. s) plain_lib gregorian True No_fault None (store_disk (fresh_store sample_random)) =
     (Inr (s, rs), d') \<and> catalogue (\<lambda>s. s) plain_lib gregorian (replayed_roles rs) (replayed_posits rs)"
proof -
  let ?d = "store_disk (fresh_store sample_random)"
  have d: "disk_holds ?d (mark_uuid sample_random) []" "log_fits ?d"
    using store_disk_holds [OF fresh_store_holds] fresh_fits by simp_all
  obtain s where run: "open_replayed (\<lambda>s. s) plain_lib gregorian True No_fault None ?d =
      (Inr (s, empty_replay (mark_uuid sample_random)), store_disk s)"
    by (rule open_empty_store [OF d])
  obtain bs where "manifest_file ?d = Some bs" "length bs < 2 ^ 64"
    by (simp add: fresh_store_def Let_def encode_manifest_def manifest_body_length)
  from opened_store_is_catalogue [OF gregorian.calendar_codec_axioms run this d(2)] run show ?thesis by blast
qed

section \<open>Creating roles and posits\<close>

text \<open>The store after creating roles or posits is the one before, or the one an append leaves.\<close>

lemma append_records_frame:
  "store db' = store db \<Longrightarrow> store (snd (append_records fault recs db')) = store (snd (append_records fault recs db))"
  by (simp add: append_records_def Let_def split: option.splits prod.splits sum.splits)

lemma prepare_roles_frame [simp]: "store (snd (prepare_roles nfc names prepared sources db)) = store db"
  by (induction nfc names prepared sources db rule: prepare_roles.induct)
    (auto simp: Let_def split: option.splits prod.splits)

lemma create_roles_frame:
  "\<exists>recs. store (snd (create_roles nfc fault names db)) \<in> {store db, store (snd (append_records fault recs db))}"
proof -
  obtain p db1 where p: "prepare_roles nfc names [] [] db = (p, db1)" by fastforce
  have store: "store db1 = store db" using prepare_roles_frame [of nfc names "[]" "[]" db] p by simp
  show ?thesis
  proof (cases p)
    case (Inl e)
    then show ?thesis using p store by (simp add: create_roles_def)
  next
    case (Inr ps)
    obtain prepared sources where ps: "ps = (prepared, sources)" by (cases ps)
    show ?thesis
    proof (cases "prepared = []")
      case True
      then show ?thesis using p store Inr ps by (simp add: create_roles_def)
    next
      case False
      obtain r2 db2 where a: "append_records fault (map role_record prepared) db1 = (r2, db2)" by fastforce
      have "store (snd (create_roles nfc fault names db)) = store db2"
        using p Inr ps False a keep_roles_store [of prepared db2]
        by (cases r2) (simp_all add: create_roles_def case_prod_unfold Let_def)
      then show ?thesis using append_records_frame [OF store, of fault "map role_record prepared"] a by auto
    qed
  qed
qed

text \<open>A write of the log that fails before the first byte leaves a log that fits.\<close>

lemma append_records_torn:
  "db_fits db \<Longrightarrow> db_fits (snd (append_records (Log_fault []) recs db))
     \<and> (store (snd (append_records (Log_fault []) recs db)) = None \<longleftrightarrow> store db = None)"
  by (auto simp: db_fits_def append_records_def append_batch_def commit_frames_def attempt_st_def log_fits_def
      Let_def min_def split: prod.splits sum.splits option.splits if_splits)

lemma create_roles_torn:
  "db_fits db \<Longrightarrow> db_fits (snd (create_roles nfc (Log_fault []) names db))
     \<and> (store (snd (create_roles nfc (Log_fault []) names db)) = None \<longleftrightarrow> store db = None)"
proof -
  assume fits: "db_fits db"
  obtain recs where "store (snd (create_roles nfc (Log_fault []) names db)) = store db
      \<or> store (snd (create_roles nfc (Log_fault []) names db)) = store (snd (append_records (Log_fault []) recs db))"
    using create_roles_frame [of nfc "Log_fault []" names db] by auto
  then show ?thesis using fits append_records_torn [OF fits, of recs] by (auto simp: db_fits_def)
qed



text \<open>C16: creating roles answers for every name asked, in order, with the role that the database now
  keeps under the normalised name, and whether it was there before; the new roles are exactly what is
  added to the catalogue, in memory and on disk.\<close>

theorem create_roles_answers:
  assumes "nfc_laws nfc" and "calendar_codec C" and "settled nfc L C roles posits db"
    and "\<forall>(n, _) \<in> set names. wf_string n"
    and "unat (lower_bound (generator db)) + length names < 2 ^ 64"
    and "create_roles nfc fault names db = (Inr out, db')" and "db_fits db'"
  shows "list_all2 (role_answer nfc db db') (map fst names) out
    \<and> (\<exists>new. settled nfc L C (roles @ new) posits db')"
  by (rule create_roles_cases [OF assms]) auto

theorem create_roles_answers_witness:
  "\<exists>db out db'. create_roles (\<lambda>s. s) No_fault [(''owner'', False)] db = (Inr out, db')
     \<and> list_all2 (role_answer (\<lambda>s. s) db db') [''owner''] out"
proof -
  obtain db where db: "settled (\<lambda>s. s) plain_lib gregorian builtin_catalogue [] db" "store db = None"
      "lower_bound (generator db) = 5"
    by (rule new_memory_database [OF id_nfc_laws])
  have "''owner'' \<notin> role_name ` set builtin_catalogue" by code_simp
  then have "get_role (\<lambda>s. s) ''owner'' (role_keeper db) = None"
    using roles_are_label [of builtin_catalogue "role_keeper db"] db(1)
    by (simp add: settled_def db_ok_def get_role_def)
  then have prep: "\<exists>g. prepare_roles (\<lambda>s. s) [(''owner'', False)] [] [] db =
      (Inr ([new_role (\<lambda>s. s) 6 ''owner'' False], [NewRole 0]), db\<lparr>generator := g\<rparr>)"
    using db(3) by (simp add: generate_def Let_def position_None) blast
  then obtain out db' where run: "create_roles (\<lambda>s. s) No_fault [(''owner'', False)] db = (Inr out, db')"
    using db(2) by (auto simp: create_roles_def append_records_def case_prod_unfold Let_def)
  have "store db' = None"
    using create_roles_frame [of "\<lambda>s. s" No_fault "[(''owner'', False)]" db] run db(2)
    by (auto simp: append_records_def)
  then have "db_fits db'" by (simp add: db_fits_def)
  moreover have "wf_string ''owner''" by code_simp
  ultimately have "list_all2 (role_answer (\<lambda>s. s) db db') [''owner''] out"
    using create_roles_answers [OF id_nfc_laws gregorian.calendar_codec_axioms db(1) _ _ run] db(3) by simp
  with run show ?thesis by blast
qed


lemma stage_literal_posits_frame [simp]:
  "store (snd (snd (stage_literal_posits new prepared sources db))) = store db"
  by (induction new prepared sources db rule: stage_literal_posits.induct)
    (auto simp: Let_def split: option.splits prod.splits)

lemma envelope_posits_frame [simp]:
  "store (snd (envelope_posits pr ar targets specs acc db)) = store db"
  by (induction specs arbitrary: acc db)
    (auto simp: create_appearance_def create_appearance_set_def attempt_st_def case_prod_unfold Let_def
      split: option.splits sum.splits)

lemma create_posits_frame:
  "\<exists>recs. store (snd (create_literal_posits_with_assertions fault targets specs db)) \<in>
     {store db, store (snd (append_records fault recs db))}"
proof -
  let ?f = "create_literal_posits_with_assertions fault targets specs db"
  let ?goal = "\<exists>recs. store (snd ?f) \<in> {store db, store (snd (append_records fault recs db))}"
  obtain p1 s1 db1 where st1: "stage_literal_posits targets [] [] db = (p1, s1, db1)" by (metis prod.collapse)
  have db1: "store db1 = store db" using stage_literal_posits_frame [of targets "[]" "[]" db] st1 by simp
  show ?goal
  proof (cases "(list_ex (\<lambda>spec. target_index spec \<ge> length targets) specs
      \<or> list_ex (\<lambda>spec. family (spec_certainty spec) \<noteq> CertaintyFamily) specs)
      \<or> role_lookup (role_keeper db1) posit_role_id = None
      \<or> role_lookup (role_keeper db1) ascertains_role_id = None")
    case True
    then have "store (snd ?f) = store db"
      using st1 db1 by (auto simp: create_literal_posits_with_assertions_def attempt_st_def split: sum.splits option.splits)
    then show ?thesis by blast
  next
    case False
    then obtain pr ar where roles: "role_lookup (role_keeper db1) posit_role_id = Some pr"
      "role_lookup (role_keeper db1) ascertains_role_id = Some ar" by auto
    obtain er db2 where env: "envelope_posits pr ar (map (resolve_posit p1) s1) specs [] db1 = (er, db2)" by fastforce
    have db2: "store db2 = store db"
      using envelope_posits_frame [of pr ar "map (resolve_posit p1) s1" specs "[]" db1] env db1 by simp
    show ?thesis
    proof (cases er)
      case (Inl e)
      then have "store (snd ?f) = store db"
        using False st1 roles env db2 by (simp add: create_literal_posits_with_assertions_def)
      then show ?thesis by blast
    next
      case (Inr envs)
      obtain p2 s2 db3 where st2: "stage_literal_posits envs p1 [] db2 = (p2, s2, db3)" by (metis prod.collapse)
      have db3: "store db3 = store db" using stage_literal_posits_frame [of envs p1 "[]" db2] st2 db2 by simp
      define step where "step = (if p2 = [] then (Inr (), db3)
        else attempt_st (try_map posit_record p2, db3) (\<lambda>records db. append_records fault records db))"
      have "?f = attempt_st step (\<lambda>_ db. let (kept, db) = keep_posits p2 db
          in (Inr \<lparr>created_targets = map (resolve_posit kept) s1,
                created_assertions = map (resolve_posit kept) s2\<rparr>, db))"
        using False st1 roles env Inr st2 by (simp add: create_literal_posits_with_assertions_def step_def)
      then have "store (snd ?f) = store (snd step)"
        using stage_db_fits [of p2 "snd step"]
        by (cases step; cases "fst step") (simp_all add: case_prod_unfold Let_def)
      moreover have "\<exists>recs. store (snd step) \<in> {store db, store (snd (append_records fault recs db))}"
        using append_records_frame [OF db3, of fault] db3 by (cases "try_map posit_record p2") (auto simp: step_def)
      ultimately show ?thesis by simp
    qed
  qed
qed

lemma create_posits_torn:
  "db_fits db \<Longrightarrow> db_fits (snd (create_literal_posits_with_assertions (Log_fault []) targets specs db))
     \<and> (store (snd (create_literal_posits_with_assertions (Log_fault []) targets specs db)) = None
        \<longleftrightarrow> store db = None)"
proof -
  assume fits: "db_fits db"
  obtain recs where "store (snd (create_literal_posits_with_assertions (Log_fault []) targets specs db)) = store db
      \<or> store (snd (create_literal_posits_with_assertions (Log_fault []) targets specs db)) =
        store (snd (append_records (Log_fault []) recs db))"
    using create_posits_frame [of "Log_fault []" targets specs db] by auto
  then show ?thesis using fits append_records_torn [OF fits, of recs] by (auto simp: db_fits_def)
qed

definition sample_pending :: pending_posit where
  "sample_pending = ([\<lparr>app_thing = 1, app_role = builtin_role 3 ''thing''\<rparr>],
     \<lparr>token = ''7'', family = IntegerFamily\<rparr>, Time (Year 2024))"

lemma sample_pending_ok:
  assumes "db_ok (\<lambda>s. s) plain_lib gregorian builtin_catalogue [] db" and "lower_bound (generator db) = 5"
  shows "wf_pending plain_lib gregorian (role_keeper db) (lower_bound (generator db)) sample_pending"
proof -
  have "(thing_role_id, ''thing'') \<in> set builtin_roles" by (simp add: builtin_roles_def)
  then have "kept_role (role_keeper db) (builtin_role 3 ''thing'')"
    using builtin_kept [of "\<lambda>s. s" plain_lib gregorian builtin_catalogue "[]" "role_keeper db"] assms(1)
    by (simp add: db_ok_def kept_role_def builtin_role_def thing_role_id_def)
  moreover have "wf_literal plain_lib \<lparr>token = ''7'', family = IntegerFamily\<rparr>" "wf_string ''7''"
    by code_simp+
  moreover have "wf_time gregorian (Time (Year 2024))" by (simp add: wf_time_def)
  ultimately show ?thesis
    using assms(2) by (simp add: wf_pending_def sample_pending_def wf_set_def set_roles_def)
qed


text \<open>C15: what a caller of posit creation gets back: for every target, in order, the posit the database
  now keeps for exactly that proposition, the known one if there was one; and for every assertion, the
  posit that its positor ascertains with the given certainty and time the posit returned for its
  target.\<close>

theorem create_posits_answers:
  assumes "calendar_codec C" and "settled nfc L C roles posits db"
    and "\<forall>x \<in> set targets. wf_pending L C (role_keeper db) (lower_bound (generator db)) x"
    and "\<forall>spec \<in> set specs. wf_spec L C (lower_bound (generator db)) spec"
    and "unat (lower_bound (generator db)) + length targets + length specs < 2 ^ 64"
    and "create_literal_posits_with_assertions fault targets specs db = (Inr out, db')"
    and "db_fits db'"
  shows "list_all2 (posit_answer db db') targets (created_targets out)
    \<and> list_all2 (posit_answer db db')
        (map (envelope posit_role ascertains_role (created_targets out)) specs) (created_assertions out)
    \<and> (\<exists>new. settled nfc L C roles (posits @ new) db')"
  by (rule create_posits_cases [OF assms]) (auto simp: created_answers_def)

lemma sample_posit_run:
  obtains db out db' where "settled (\<lambda>s. s) plain_lib gregorian builtin_catalogue [] db"
    and "create_literal_posits_with_assertions No_fault [sample_pending] [] db = (Inr out, db')"
    and "wf_pending plain_lib gregorian (role_keeper db) (lower_bound (generator db)) sample_pending"
    and "lower_bound (generator db) = 5" and "db_fits db'"
proof -
  obtain db where db: "settled (\<lambda>s. s) plain_lib gregorian builtin_catalogue [] db" "store db = None"
      "lower_bound (generator db) = 5"
    by (rule new_memory_database [OF id_nfc_laws])
  have ok: "db_ok (\<lambda>s. s) plain_lib gregorian builtin_catalogue [] db" using db(1) by (simp add: settled_def)
  obtain xs v t where x: "sample_pending = (xs, v, t)" by (cases sample_pending)
  let ?p = "\<lparr>pthing = 6, pset = xs, pvalue = v, ptime = t\<rparr>"
  have "existing_posit ?p (posit_keeper db) = None"
    using ok by (simp add: db_ok_def posits_are_def existing_posit_def)
  then obtain g where stage: "stage_literal_posits [sample_pending] [] [] db = ([?p], [NewPosit 0], db\<lparr>generator := g\<rparr>)"
    using db(3) by (simp add: x generate_def Let_def position_None)
  have "\<exists>rec. posit_record ?p = Inr rec"
  proof -
    have "\<not> (case posit_record (case sample_pending of (xs, v, t) \<Rightarrow>
        \<lparr>pthing = 6, pset = xs, pvalue = v, ptime = t\<rparr>) of Inl _ \<Rightarrow> True | Inr _ \<Rightarrow> False)"
      by code_simp
    then show ?thesis by (simp add: x split: sum.splits)
  qed
  then obtain out db' where run: "create_literal_posits_with_assertions No_fault [sample_pending] [] db = (Inr out, db')"
    using db(2) stage builtin_roles_kept(1,2) [OF ok]
    by (auto simp: create_literal_posits_with_assertions_def append_records_def case_prod_unfold Let_def)
  have "store db' = None"
    using create_posits_frame [of No_fault "[sample_pending]" "[]" db] run db(2)
    by (auto simp: append_records_def)
  then have "db_fits db'" by (simp add: db_fits_def)
  with that db run sample_pending_ok [OF ok db(3)] show thesis by metis
qed

theorem create_posits_answers_witness:
  "\<exists>db out db'. create_literal_posits_with_assertions No_fault [sample_pending] [] db = (Inr out, db')
     \<and> list_all2 (posit_answer db db') [sample_pending] (created_targets out)"
proof -
  obtain db out db' where db: "settled (\<lambda>s. s) plain_lib gregorian builtin_catalogue [] db"
    and run: "create_literal_posits_with_assertions No_fault [sample_pending] [] db = (Inr out, db')"
    and x: "wf_pending plain_lib gregorian (role_keeper db) (lower_bound (generator db)) sample_pending"
      "lower_bound (generator db) = 5" and "db_fits db'"
    by (rule sample_posit_run)
  then have "list_all2 (posit_answer db db') [sample_pending] (created_targets out)"
    using create_posits_answers [OF gregorian.calendar_codec_axioms db _ _ _ run] by simp
  with run show ?thesis by blast
qed

lemma sample_posit_database:
  obtains posits db t p where "settled (\<lambda>s. s) plain_lib gregorian builtin_catalogue posits db"
    and "posit_of_thing t (posit_keeper db) = Some p"
proof -
  obtain db out db' where db: "settled (\<lambda>s. s) plain_lib gregorian builtin_catalogue [] db"
    and run: "create_literal_posits_with_assertions No_fault [sample_pending] [] db = (Inr out, db')"
    and x: "wf_pending plain_lib gregorian (role_keeper db) (lower_bound (generator db)) sample_pending"
      "lower_bound (generator db) = 5" and fits: "db_fits db'"
    by (rule sample_posit_run)
  obtain new out' where "settled (\<lambda>s. s) plain_lib gregorian builtin_catalogue ([] @ new) db'"
      "created_answers db db' [sample_pending] [] out'"
    by (rule create_posits_cases [OF gregorian.calendar_codec_axioms db _ _ _ run fits]) (use x in auto)
  then show thesis
    using that by (auto simp: created_answers_def posit_answer_def list_all2_Cons1)
qed

section \<open>The lookups\<close>

definition filed_under :: "('k \<rightharpoonup> thing set) \<Rightarrow> 'k \<Rightarrow> thing set" where
  "filed_under index k = (case index k of None \<Rightarrow> {} | Some ts \<Rightarrow> ts)"

lemma filed_under_filed:
  "distinct (map pthing ps) \<Longrightarrow>
     t \<in> filed_under (filed keys ps) k \<longleftrightarrow>
       (\<exists>p. map_of (map (\<lambda>p. (pthing p, p)) ps) t = Some p \<and> k \<in> set (keys p))"
proof
  assume d: "distinct (map pthing ps)" and "t \<in> filed_under (filed keys ps) k"
  then obtain p where "p \<in> set ps" "k \<in> set (keys p)" "t = pthing p"
    by (auto simp: filed_under_def filed_def split: if_splits)
  then show "\<exists>p. map_of (map (\<lambda>p. (pthing p, p)) ps) t = Some p \<and> k \<in> set (keys p)"
    using map_of_key_member [OF d, of p "\<lambda>p. p"] by auto
next
  assume "\<exists>p. map_of (map (\<lambda>p. (pthing p, p)) ps) t = Some p \<and> k \<in> set (keys p)"
  then obtain p where "map_of (map (\<lambda>p. (pthing p, p)) ps) t = Some p" "k \<in> set (keys p)" by blast
  with map_of_key_Some [of pthing "\<lambda>p. p" ps t p] show "t \<in> filed_under (filed keys ps) k"
    by (auto simp: filed_under_def filed_def)
qed

lemma lookups_are_exact:
  assumes "settled nfc L C roles posits db"
  shows "(posit_of_thing t (posit_keeper db) = Some p \<longrightarrow>
      pthing p = t \<and> posit_thing_of p (posit_keeper db) = Some t)
    \<and> (posit_thing_of p (posit_keeper db) = Some t \<longrightarrow>
      (\<exists>q. posit_of_thing t (posit_keeper db) = Some q \<and> pkey q = pkey p))
    \<and> posit_time_lookup db t = map_option ptime (posit_of_thing t (posit_keeper db))
    \<and> posit_thing_to_appearance_set db t = map_option pset (posit_of_thing t (posit_keeper db))
    \<and> (t \<in> filed_under (role_to_posit_thing db) ident \<longleftrightarrow>
        (\<exists>q. posit_of_thing t (posit_keeper db) = Some q \<and> ident \<in> set (set_roles (pset q))))
    \<and> (t \<in> filed_under (appearance_set_to_posit_thing db) key \<longleftrightarrow>
        (\<exists>q. posit_of_thing t (posit_keeper db) = Some q \<and> set_key (pset q) = key))"
proof -
  let ?ps = "map (object_of roles) posits"
  have ok: "db_ok nfc L C roles posits db" using assms by (simp add: settled_def)
  then have cat: "catalogue nfc L C roles posits" by (simp add: db_ok_def)
  have things: "distinct (map pthing ?ps)" using cat by (simp add: catalogue_def o_def)
  have keys: "distinct (map pkey ?ps)"
    unfolding object_keys(2) [OF ok] using cat by (simp add: catalogue_def)
  have ps: "posits_are ?ps db" using ok by (simp add: db_ok_def)
  have by_thing: "posit_of_thing t (posit_keeper db) = map_of (map (\<lambda>p. (pthing p, p)) ?ps) t" for t
    using ps by (simp only: posits_are_def posit_of_thing_def posit_keeper.simps)
  have by_posit: "posit_thing_of p (posit_keeper db) = map_of (map (\<lambda>p. (pkey p, pthing p)) ?ps) (pkey p)" for p
    using ps by (simp only: posits_are_def posit_thing_of_def posit_keeper.simps)
  have field: "map_of (map (\<lambda>p. (pthing p, f p)) ?ps) t =
      map_option f (map_of (map (\<lambda>p. (pthing p, p)) ?ps) t)" for f :: "posit \<Rightarrow> 'b"
    by (induction posits) auto
  have forth: "pthing p = t \<and> posit_thing_of p (posit_keeper db) = Some t"
    if "posit_of_thing t (posit_keeper db) = Some p"
    using map_of_key_Some [OF that [unfolded by_thing]] map_of_key_member [OF keys, of p pthing]
    unfolding by_posit by blast
  have back_again: "\<exists>q. posit_of_thing t (posit_keeper db) = Some q \<and> pkey q = pkey p"
    if found: "posit_thing_of p (posit_keeper db) = Some t"
  proof -
    obtain q where "q \<in> set ?ps" "pkey q = pkey p" "pthing q = t"
      using map_of_key_Some [OF found [unfolded by_posit]] by blast
    with map_of_key_member [OF things, of q "\<lambda>p. p"] show ?thesis unfolding by_thing by blast
  qed
  have rest: "posit_time_lookup db t = map_of (map (\<lambda>p. (pthing p, ptime p)) ?ps) t"
      "posit_thing_to_appearance_set db t = map_of (map (\<lambda>p. (pthing p, pset p)) ?ps) t"
      "role_to_posit_thing db = filed (\<lambda>p. set_roles (pset p)) ?ps"
      "appearance_set_to_posit_thing db = filed (\<lambda>p. [set_key (pset p)]) ?ps"
    using ps by (simp_all only: posits_are_def)
  show ?thesis
    using forth back_again field [of ptime] field [of pset]
      filed_under_filed [OF things, of t "\<lambda>p. set_roles (pset p)" ident]
      filed_under_filed [OF things, of t "\<lambda>p. [set_key (pset p)]" key]
    unfolding rest by_thing [symmetric] by auto
qed



section \<open>Identities\<close>



section \<open>The first start\<close>

text \<open>C27: a bootstrap is atomic under failures and crashes.  When the files of a store exist but no
  batch has been committed, opening the database appends the built-in roles and codecs; whatever fails
  meanwhile, the database opens again, without failures, with exactly the built-in roles and no
  posits.\<close>

theorem bootstrap_recovers:
  assumes "nfc_laws nfc" and "calendar_codec C" and "disk_holds d uuid []" and "log_fits d"
    and "new_database nfc L C True fault1 fault2 random (File d) = (r, Some d')" and "log_fits d'"
  shows "\<exists>db d''. new_database nfc L C True fault No_fault random' (File d') = (Inr db, Some d'')
    \<and> settled nfc L C builtin_catalogue [] db
    \<and> (\<forall>db'. r = Inr db' \<longrightarrow> same_catalogue db db')"
proof -
  have cat: "catalogue nfc L C builtin_catalogue []" "builtins_present builtin_catalogue"
    using builtin_catalogue_ok [OF assms(1)] by blast+
  obtain s where s: "store_holds s uuid []"
    and opened: "open_replayed nfc L C True fault1 random d = (Inr (s, empty_replay uuid), store_disk s)"
    by (rule open_empty_store [OF assms(3,4)])
  show ?thesis
  proof (rule new_store_cases [OF assms(1,2) s opened assms(5,6)])
    fix db t assume r: "r = Inr db" "store db = Some t" "d' = store_disk t"
      and ok: "settled nfc L C builtin_catalogue [] db"
    obtain db2 d2 where "new_database nfc L C True fault No_fault random' (File d') = (Inr db2, Some d2)" "settled nfc L C builtin_catalogue [] db2" "same_catalogue db2 db"
      unfolding r(3) using settled_reopens [OF ok r(2), of fault No_fault random'] by blast
    with r(1) show ?thesis by blast
  next
    fix e assume e: "r = Inl e" and d': "disk_holds d' uuid []"
    obtain s' where s': "store_holds s' uuid []"
      and opened': "open_replayed nfc L C True fault random' d' = (Inr (s', empty_replay uuid), store_disk s')"
      by (rule open_empty_store [OF d' assms(6)])
    obtain db t where "new_database nfc L C True fault No_fault random' (File d') = (Inr db, Some (store_disk t))"
        "store db = Some t" "settled nfc L C builtin_catalogue [] db" "lower_bound (generator db) = 5"
      by (rule new_store_succeeds [OF assms(1,2) s' opened'])
    with e show ?thesis by blast
  next
    fix e assume e: "r = Inl e" and d': "disk_ok nfc L C builtin_catalogue [] d'"
    obtain db t where "new_database nfc L C True fault No_fault random' (File d') = (Inr db, Some (store_disk t))"
        "settled nfc L C builtin_catalogue [] db" "store db = Some t"
      by (rule disk_ok_reopens [OF d' assms(6) cat, where fault = fault and fault' = No_fault and random = random'])
    with e show ?thesis by blast
  qed
qed

theorem bootstrap_recovers_witness:
  "\<exists>r d' db d. new_database (\<lambda>s. s) plain_lib gregorian True No_fault No_fault None
       (File (store_disk (fresh_store sample_random))) = (r, Some d')
     \<and> new_database (\<lambda>s. s) plain_lib gregorian True No_fault No_fault None (File d') = (Inr db, d)"
proof -
  let ?d = "store_disk (fresh_store sample_random)"
  have d: "disk_holds ?d (mark_uuid sample_random) []" "log_fits ?d"
    using store_disk_holds [OF fresh_store_holds] fresh_fits by simp_all
  obtain s where s: "store_holds s (mark_uuid sample_random) []"
    and opened: "open_replayed (\<lambda>s. s) plain_lib gregorian True No_fault None ?d =
      (Inr (s, empty_replay (mark_uuid sample_random)), store_disk s)"
    by (rule open_empty_store [OF d])
  obtain db t where run: "new_database (\<lambda>s. s) plain_lib gregorian True No_fault No_fault None (File ?d) =
      (Inr db, Some (store_disk t))" and t: "store db = Some t"
      "settled (\<lambda>s. s) plain_lib gregorian builtin_catalogue [] db"
    using new_store_succeeds [OF id_nfc_laws gregorian.calendar_codec_axioms s opened] by metis
  have "log_fits (store_disk t)" using settled_disk [OF t(2,1)] by blast
  from bootstrap_recovers [OF id_nfc_laws gregorian.calendar_codec_axioms d run this, of No_fault None] run
  show ?thesis by blast
qed

text \<open>A new in-memory database holds exactly the built-in roles and no posits.\<close>

theorem memory_database_is_settled:
  assumes "nfc_laws nfc"
  shows "\<exists>db. new_database nfc L C lock_free fault1 fault2 random InMemory = (Inr db, None)
    \<and> settled nfc L C builtin_catalogue [] db \<and> store db = None"
proof -
  obtain db where "new_database nfc L C lock_free fault1 fault2 random InMemory = (Inr db, None)"
      "settled nfc L C builtin_catalogue [] db" "store db = None"
    by (rule new_memory_database [OF assms])
  then show ?thesis by blast
qed

theorem memory_database_is_settled_witness:
  "\<exists>db. new_database (\<lambda>s. s) plain_lib gregorian True No_fault No_fault None InMemory = (Inr db, None)"
  using memory_database_is_settled [OF id_nfc_laws] by blast

lemma orphan_log_is_stuck:
  assumes "log_file d \<noteq> None" and "manifest_file d = None"
  shows "\<exists>e. new_database nfc L C True fault fault' random (File d) = (Inl e, Some d)"
proof -
  have "\<exists>e. open_store True fault random (apply_batch nfc L C) (new_replay []) d = (Inl e, d)"
    using assms by (cases random) (auto simp: open_store_def initialize_store_def Let_def)
  then obtain e where "open_store True fault random (apply_batch nfc L C) (new_replay []) d = (Inl e, d)" by blast
  then show ?thesis by (simp add: new_database_def open_replayed_def)
qed

lemma unfinished_initialisation:
  assumes "fault = Log_fault tail \<or> fault = Next_fault part \<or> fault = Rename_fault"
  obtains e d where "new_database nfc L C True fault fault' (Some random) (File fresh_disk) = (Inl e, Some d)"
    and "log_file d \<noteq> None" and "manifest_file d = None"
proof -
  have "\<exists>e d. open_store True fault (Some random) (apply_batch nfc L C) (new_replay []) fresh_disk = (Inl e, d)
      \<and> log_file d \<noteq> None \<and> manifest_file d = None"
    using assms by (auto simp: open_store_def initialize_store_def fresh_disk_def write_manifest_def Let_def)
  then obtain e d where "open_store True fault (Some random) (apply_batch nfc L C) (new_replay []) fresh_disk =
      (Inl e, d)" "log_file d \<noteq> None" "manifest_file d = None" by blast
  then show thesis using that [of e d] by (simp add: new_database_def open_replayed_def)
qed

text \<open>C28: an initialisation that is interrupted before its manifest is in place cannot be repaired by
  opening again: the log exists and the manifest does not, so every later \<open>Database::new\<close> fails, and
  the disk stays as it is.\<close>

theorem interrupted_initialisation_is_stuck:
  assumes "fault = Log_fault tail \<or> fault = Next_fault part \<or> fault = Rename_fault"
  shows "\<exists>e d. new_database nfc L C True fault fault' (Some random) (File fresh_disk) = (Inl e, Some d)
    \<and> (\<forall>fault1 fault2 random'. \<exists>e'.
        new_database nfc L C True fault1 fault2 random' (File d) = (Inl e', Some d))"
proof -
  obtain e d where "new_database nfc L C True fault fault' (Some random) (File fresh_disk) = (Inl e, Some d)"
      "log_file d \<noteq> None" "manifest_file d = None"
    by (rule unfinished_initialisation [OF assms])
  with orphan_log_is_stuck show ?thesis by blast
qed

theorem interrupted_initialisation_is_stuck_witness:
  "\<exists>e d. new_database (\<lambda>s. s) plain_lib gregorian True (Next_fault None) No_fault (Some sample_random)
     (File fresh_disk) = (Inl e, Some d)"
  using interrupted_initialisation_is_stuck [of "Next_fault None" "[]" None] by blast

end
