(* ===== verification/Saturating.thy ===== *)
theory Saturating
  imports Prelude
begin

text \<open>
  The saturating arithmetic of \<open>u64\<close> and the bit length of a number, which the resource accounting of
  the engine uses to size its reservations.
\<close>

definition saturating_add_u64 :: "u64 \<Rightarrow> u64 \<Rightarrow> u64" where
  "saturating_add_u64 a b = (if unat a + unat b < 2 ^ 64 then a + b else - 1)"

definition saturating_mul_u64 :: "u64 \<Rightarrow> u64 \<Rightarrow> u64" where
  "saturating_mul_u64 a b = (if unat a * unat b < 2 ^ 64 then a * b else - 1)"

lemma unat_max_u64: "unat (- 1 :: u64) = 2 ^ 64 - 1"
  by (simp add: unsigned_minus_1_eq_mask mask_eq_exp_minus_1)

lemma unat_saturating_add: "unat (saturating_add_u64 a b) = min (unat a + unat b) (2 ^ 64 - 1)"
  by (simp add: saturating_add_u64_def unat_word_ariths unat_max_u64 min_def)

lemma unat_saturating_mul: "unat (saturating_mul_u64 a b) = min (unat a * unat b) (2 ^ 64 - 1)"
  by (simp add: saturating_mul_u64_def unat_word_ariths unat_max_u64 min_def)

text \<open>\<open>BITS - leading_zeros\<close>: the number of bits of a number.\<close>

fun bit_length :: "nat \<Rightarrow> nat" where
  "bit_length n = (if n = 0 then 0 else 1 + bit_length (n div 2))"

declare bit_length.simps [simp del]

lemma bit_length_less: "n < 2 ^ k \<longleftrightarrow> bit_length n \<le> k"
proof (induction n arbitrary: k rule: bit_length.induct)
  case (1 n)
  show ?case
  proof (cases "n = 0")
    case True
    then show ?thesis by (simp add: bit_length.simps)
  next
    case False
    then show ?thesis using "1.IH" [of "k - 1"]
      by (cases k) (auto simp: bit_length.simps [of n] div_less_iff_less_mult mult.commute)
  qed
qed

end
