(* ===== verification/Effect.thy ===== *)
theory Effect
  imports Database Reduction Saturating
begin

text \<open>
  Information in effect (\<open>src/effect.rs\<close>): at a pair of cuts, one for assertions and one for what they
  assert, every source's standing assertions.  The resolution walks the posits that have both a
  \<open>posit\<close> and an \<open>ascertains\<close> role, drops those a later retraction of the same source covers, and keeps
  the latest targets of a source and appearance set, and the latest assertions of a source, appearance
  set and value.  The two callbacks of the caller, \<open>check\<close> for cancellation and work and \<open>reserve\<close> for
  memory, are arguments; the state they share is \<open>'w\<close>.
\<close>

section \<open>Limits, cuts and results\<close>

record effect_limits =
  max_candidates :: u64
  max_comparisons :: u64

definition default_limits :: effect_limits where
  "default_limits = \<lparr>max_candidates = 1000000, max_comparisons = 20000000\<rparr>"

record effect_cut =
  cut_assertion_time :: time
  cut_appearance_time :: time

record effect_counters =
  candidate_count :: u64
  eligible_count :: u64
  retraction_count :: u64
  comparison_count :: u64
  effective_count :: u64

definition no_counters :: effect_counters where
  "no_counters = \<lparr>candidate_count = 0, eligible_count = 0, retraction_count = 0,
     comparison_count = 0, effective_count = 0\<rparr>"

record effective_assertion =
  eff_assertion :: posit
  eff_target :: posit
  eff_positor :: thing
  eff_percent :: int

record effective_slice =
  slice_cut :: effect_cut
  slice_assertions :: "effective_assertion list"
  slice_counters :: effect_counters

type_synonym 'w charge = "u64 \<Rightarrow> 'w \<Rightarrow> unit result \<times> 'w"

section \<open>Candidates\<close>

definition count_comparison :: "effect_limits \<Rightarrow> effect_counters \<Rightarrow> unit result \<times> effect_counters" where
  "count_comparison limits counters =
     (case checked_add_u64 (comparison_count counters) 1 of
        None \<Rightarrow> (Inl (Invariant ''effect comparison count overflowed''), counters)
      | Some n \<Rightarrow>
          let counters = counters\<lparr>comparison_count := n\<rparr>
          in if n > max_comparisons limits
             then (Inl (ResourceLimit ''effective temporal comparisons'' (max_comparisons limits)), counters)
             else (Inr (), counters))"

definition treemap_len :: "thing set option \<Rightarrow> u64" where
  "treemap_len ts = (case ts of None \<Rightarrow> 0 | Some ts \<Rightarrow> word_of_nat (card ts))"

text \<open>A treemap is iterated in ascending order.\<close>

definition assertion_candidates ::
    "'w charge \<Rightarrow> 'w charge \<Rightarrow> database \<Rightarrow> 'w \<Rightarrow> (thing list \<times> u64) result \<times> 'w" where
  "assertion_candidates check reserve db w =
     (let targets = role_to_posit_thing db posit_role_id;
          sources = role_to_posit_thing db ascertains_role_id;
          count = saturating_add_u64 (treemap_len targets) (treemap_len sources)
      in attempt_st (check (saturating_mul_u64 count 2) w) (\<lambda>_ w.
         let workspace = saturating_add_u64 (saturating_mul_u64 count 512) 256
         in attempt_st (reserve workspace w) (\<lambda>_ w.
         let candidates =
           (case targets of None \<Rightarrow> {} | Some ts \<Rightarrow> ts) \<inter> (case sources of None \<Rightarrow> {} | Some ts \<Rightarrow> ts)
         in (Inr (sorted_list_of_set candidates, workspace), w))))"

text \<open>The target and the positor of an envelope: an appearance set of two appearances, one in each of
  the two roles.\<close>

fun find_envelope :: "appearance list \<Rightarrow> thing option \<times> thing option \<Rightarrow> thing option \<times> thing option" where
  "find_envelope [] found = found"
| "find_envelope (a # as) (target, positor) =
     (if role_thing (app_role a) = posit_role_id then find_envelope as (Some (app_thing a), positor)
      else if role_thing (app_role a) = ascertains_role_id
      then find_envelope as (target, Some (app_thing a))
      else find_envelope as (target, positor))"

definition envelope_things :: "appearance_set \<Rightarrow> (thing \<times> thing) option" where
  "envelope_things s =
     (if length s \<noteq> 2 then None
      else case find_envelope s (None, None) of
        (Some target, Some positor) \<Rightarrow> Some (target, positor)
      | _ \<Rightarrow> None)"

fun eligible_rows ::
    "chrono \<Rightarrow> 'w charge \<Rightarrow> 'w charge \<Rightarrow> database \<Rightarrow> effect_cut \<Rightarrow> thing list
       \<Rightarrow> effective_assertion list \<Rightarrow> u64 \<Rightarrow> effect_counters \<Rightarrow> 'w
       \<Rightarrow> (effective_assertion list \<times> effect_counters) result \<times> 'w" where
  "eligible_rows C check reserve db cuts [] eligible workspace counters w = (Inr (eligible, counters), w)"
| "eligible_rows C check reserve db cuts (ident # idents) eligible workspace counters w =
     attempt_st (check 1 w) (\<lambda>_ w.
     attempt_st (ok_or (Invariant ''assertion index contains an identity without a literal posit'')
         (posit_of_thing ident (posit_keeper db)), w) (\<lambda>assertion w.
     case envelope_things (pset assertion) of
       None \<Rightarrow> eligible_rows C check reserve db cuts idents eligible workspace counters w
     | Some (target_identity, positor) \<Rightarrow>
     if \<not> definitely_at_or_before C (ptime assertion) (cut_assertion_time cuts)
     then eligible_rows C check reserve db cuts idents eligible workspace counters w
     else
     attempt_st (case certainty_percent (pvalue assertion) of
           Inl e \<Rightarrow> Inl (Invariant e)
         | Inr amount \<Rightarrow> ok_or (Execution ''malformed assertion posit'') amount, w) (\<lambda>amount w.
     attempt_st (ok_or (Execution ''dangling assertion posit'')
         (posit_of_thing target_identity (posit_keeper db)), w) (\<lambda>target w.
     if \<not> definitely_at_or_before C (ptime target) (cut_appearance_time cuts)
     then eligible_rows C check reserve db cuts idents eligible workspace counters w
     else
     let counters = counters\<lparr>eligible_count := eligible_count counters + 1\<rparr>;
         counters = (if amount = 0
           then counters\<lparr>retraction_count := retraction_count counters + 1\<rparr> else counters);
         workspace = saturating_add_u64 (saturating_add_u64 workspace 1536)
           (saturating_mul_u64 (word_of_nat (length (token (pvalue target)))) 2)
     in attempt_st (reserve workspace w) (\<lambda>_ w.
     eligible_rows C check reserve db cuts idents
       (eligible @ [\<lparr>eff_assertion = assertion, eff_target = target, eff_positor = positor,
          eff_percent = amount\<rparr>]) workspace counters w)))))"

section \<open>Retractions and reductions\<close>

text \<open>The work callback of the reductions, over the caller's state and the counters.\<close>

definition effect_work :: "'w charge \<Rightarrow> effect_limits \<Rightarrow> ('w \<times> effect_counters) work_fn" where
  "effect_work check limits work = (\<lambda>(w, counters).
     case check 1 w of
       (Inl e, w) \<Rightarrow> (Inl e, (w, counters))
     | (Inr _, w) \<Rightarrow>
         if work = WorkComparison
         then let (r, counters) = count_comparison limits counters in (r, (w, counters))
         else (Inr (), (w, counters)))"

definition retraction_key :: "effective_assertion \<Rightarrow> thing \<times> thing" where
  "retraction_key row = (eff_positor row, pthing (eff_target row))"

fun gather_retractions ::
    "chrono \<Rightarrow> 's work_fn \<Rightarrow> effective_assertion list \<Rightarrow> (thing \<times> thing \<rightharpoonup> frontier) \<Rightarrow> 's
       \<Rightarrow> (thing \<times> thing \<rightharpoonup> frontier) result \<times> 's" where
  "gather_retractions C work [] retractions s = (Inr retractions, s)"
| "gather_retractions C work (row # rows) retractions s =
     attempt_st (work WorkRow s) (\<lambda>_ s.
     if eff_percent row \<noteq> 0 then gather_retractions C work rows retractions s
     else
     case retractions (retraction_key row) of
       None \<Rightarrow>
         gather_retractions C work rows
           (retractions(retraction_key row \<mapsto> new_frontier C (ptime (eff_assertion row)))) s
     | Some fr \<Rightarrow>
         attempt_st (observe C fr (ptime (eff_assertion row)) work s) (\<lambda>(_, fr) s.
         gather_retractions C work rows (retractions(retraction_key row \<mapsto> fr)) s))"

fun drop_retracted ::
    "chrono \<Rightarrow> 's work_fn \<Rightarrow> (thing \<times> thing \<rightharpoonup> frontier) \<Rightarrow> effective_assertion list
       \<Rightarrow> effective_assertion list \<Rightarrow> 's \<Rightarrow> effective_assertion list result \<times> 's" where
  "drop_retracted C work retractions [] nonzero s = (Inr nonzero, s)"
| "drop_retracted C work retractions (row # rows) nonzero s =
     attempt_st (work WorkRow s) (\<lambda>_ s.
     case retractions (retraction_key row) of
       None \<Rightarrow> drop_retracted C work retractions rows (nonzero @ [row]) s
     | Some fr \<Rightarrow>
         attempt_st (dominates C fr (ptime (eff_assertion row)) work s) (\<lambda>dominated s.
         drop_retracted C work retractions rows (if dominated then nonzero else nonzero @ [row]) s))"

definition target_key :: "effective_assertion \<Rightarrow> thing \<times> appearance_key list" where
  "target_key row = (eff_positor row, set_key (pset (eff_target row)))"

definition value_key :: "effective_assertion \<Rightarrow> thing \<times> appearance_key list \<times> string" where
  "value_key row = (eff_positor row, set_key (pset (eff_target row)), token (pvalue (eff_target row)))"

definition reduce_effective ::
    "chrono \<Rightarrow> 's work_fn \<Rightarrow> effective_assertion list \<Rightarrow> 's \<Rightarrow> effective_assertion list result \<times> 's" where
  "reduce_effective C work eligible s =
     attempt_st (gather_retractions C work eligible Map.empty s) (\<lambda>retractions s.
     attempt_st (drop_retracted C work retractions
         (filter (\<lambda>row. eff_percent row \<noteq> 0) eligible) [] s) (\<lambda>nonzero s.
     attempt_st (retain_maximal_by_key C target_key (\<lambda>row. ptime (eff_target row)) work nonzero s)
       (\<lambda>target_maxima s.
     retain_maximal_by_key C value_key (\<lambda>row. ptime (eff_assertion row)) work target_maxima s)))"

section \<open>Resolution\<close>

text \<open>What the result is sorted by.\<close>

definition effect_key ::
    "effective_assertion \<Rightarrow> thing \<times> appearance_key list \<times> string \<times> time \<times> time \<times> thing \<times> thing" where
  "effect_key row = (eff_positor row, set_key (pset (eff_target row)), token (pvalue (eff_target row)),
     ptime (eff_target row), ptime (eff_assertion row), pthing (eff_target row),
     pthing (eff_assertion row))"

definition sort_units :: "nat \<Rightarrow> u64" where
  "sort_units rows =
     (if rows < 2 then 0
      else saturating_mul_u64
        (saturating_mul_u64 (word_of_nat rows) (word_of_nat (bit_length (rows - 1)))) 7)"

definition resolve_budgeted ::
    "chrono \<Rightarrow> 'w charge \<Rightarrow> 'w charge \<Rightarrow> database \<Rightarrow> effect_cut \<Rightarrow> effect_limits \<Rightarrow> 'w
       \<Rightarrow> effective_slice result \<times> 'w" where
  "resolve_budgeted C check reserve db cuts limits w =
     attempt_st (check 1 w) (\<lambda>_ w.
     attempt_st (assertion_candidates check reserve db w) (\<lambda>(idents, workspace) w.
     let counters = no_counters\<lparr>candidate_count := word_of_nat (length idents)\<rparr>
     in if candidate_count counters > max_candidates limits
        then (Inl (ResourceLimit ''effective assertion candidates'' (max_candidates limits)), w)
        else
     attempt_st (eligible_rows C check reserve db cuts idents [] workspace counters w)
       (\<lambda>(eligible, counters) w.
     let (r, (w, counters)) = reduce_effective C (effect_work check limits) eligible (w, counters)
     in attempt_st (r, w) (\<lambda>effective w.
     attempt_st (check (sort_units (length effective)) w) (\<lambda>_ w.
     let effective = sort_key effect_key effective
     in attempt_st (check 1 w) (\<lambda>_ w.
     (Inr \<lparr>slice_cut = cuts, slice_assertions = effective,
        slice_counters = counters\<lparr>effective_count := word_of_nat (length effective)\<rparr>\<rparr>, w)))))))"

definition resolve ::
    "chrono \<Rightarrow> ('w \<Rightarrow> unit result \<times> 'w) \<Rightarrow> database \<Rightarrow> effect_cut \<Rightarrow> effect_limits \<Rightarrow> 'w
       \<Rightarrow> effective_slice result \<times> 'w" where
  "resolve C check db cuts limits w =
     resolve_budgeted C (\<lambda>_. check) (\<lambda>_ w. (Inr (), w)) db cuts limits w"

definition information_in_effect_with_limits ::
    "chrono \<Rightarrow> effect_cut \<Rightarrow> effect_limits \<Rightarrow> database \<Rightarrow> effective_slice result" where
  "information_in_effect_with_limits C cuts limits db =
     fst (resolve C (\<lambda>w. (Inr (), w)) db cuts limits ())"

definition information_in_effect :: "chrono \<Rightarrow> effect_cut \<Rightarrow> database \<Rightarrow> effective_slice result" where
  "information_in_effect C cuts db = information_in_effect_with_limits C cuts default_limits db"

end
