(* ===== verification/Effect_Properties.thy ===== *)
theory Effect_Properties
  imports Effect Database_Properties
begin

text \<open>
  What information in effect is: the resolution of \<open>src/effect.rs\<close>, with its indexes, frontiers and
  callbacks, returns exactly the assertions that a definition over sets of posits describes.
\<close>

section \<open>The reference\<close>

text \<open>The assertions a database has at two cuts, whatever index finds them: a posit whose set is an
  envelope, not later than the first cut, about a posit that is not later than the second.\<close>

definition evidence :: "chrono \<Rightarrow> database \<Rightarrow> effect_cut \<Rightarrow> effective_assertion set" where
  "evidence C db cuts = {row.
     posit_of_thing (pthing (eff_assertion row)) (posit_keeper db) = Some (eff_assertion row)
     \<and> envelope_things (pset (eff_assertion row)) = Some (pthing (eff_target row), eff_positor row)
     \<and> posit_of_thing (pthing (eff_target row)) (posit_keeper db) = Some (eff_target row)
     \<and> certainty_percent (pvalue (eff_assertion row)) = Inr (Some (eff_percent row))
     \<and> definitely_at_or_before C (ptime (eff_assertion row)) (cut_assertion_time cuts)
     \<and> definitely_at_or_before C (ptime (eff_target row)) (cut_appearance_time cuts)}"

text \<open>A retraction of an assertion: certainty zero, by the same source, of the same target, definitely
  later.\<close>

definition retracted :: "chrono \<Rightarrow> effective_assertion set \<Rightarrow> effective_assertion \<Rightarrow> bool" where
  "retracted C E row \<longleftrightarrow> (\<exists>other \<in> E. eff_percent other = 0 \<and> retraction_key other = retraction_key row
     \<and> definitely_before C (ptime (eff_assertion row)) (ptime (eff_assertion other)))"

definition latest ::
    "chrono \<Rightarrow> (effective_assertion \<Rightarrow> 'k) \<Rightarrow> (effective_assertion \<Rightarrow> time)
       \<Rightarrow> effective_assertion set \<Rightarrow> effective_assertion set" where
  "latest C key tm E =
     {row \<in> E. \<not> (\<exists>other \<in> E. key other = key row \<and> definitely_before C (tm row) (tm other))}"

definition in_effect :: "chrono \<Rightarrow> effective_assertion set \<Rightarrow> effective_assertion set" where
  "in_effect C E =
     latest C value_key (\<lambda>row. ptime (eff_assertion row))
       (latest C target_key (\<lambda>row. ptime (eff_target row))
         {row \<in> E. eff_percent row \<noteq> 0 \<and> \<not> retracted C E row})"

section \<open>Candidates\<close>

text \<open>The row of an identity.\<close>

definition effective_row :: "chrono \<Rightarrow> database \<Rightarrow> effect_cut \<Rightarrow> thing \<Rightarrow> effective_assertion option" where
  "effective_row C db cuts ident =
     (case posit_of_thing ident (posit_keeper db) of
        None \<Rightarrow> None
      | Some assertion \<Rightarrow>
          (case envelope_things (pset assertion) of
             None \<Rightarrow> None
           | Some (target_identity, positor) \<Rightarrow>
               (case (certainty_percent (pvalue assertion), posit_of_thing target_identity (posit_keeper db)) of
                  (Inr (Some amount), Some target) \<Rightarrow>
                    if definitely_at_or_before C (ptime assertion) (cut_assertion_time cuts)
                       \<and> definitely_at_or_before C (ptime target) (cut_appearance_time cuts)
                    then Some \<lparr>eff_assertion = assertion, eff_target = target, eff_positor = positor,
                      eff_percent = amount\<rparr>
                    else None
                | _ \<Rightarrow> None)))"

lemma eligible_step:
  assumes "eligible_rows C check reserve db cuts (ident # idents) eligible workspace counters w =
    (Inr (rows, counters'), w')"
  obtains workspace1 counters1 w1 where "eligible_rows C check reserve db cuts idents
      (eligible @ (case effective_row C db cuts ident of None \<Rightarrow> [] | Some row \<Rightarrow> [row]))
      workspace1 counters1 w1 = (Inr (rows, counters'), w')"
    and "candidate_count counters1 = candidate_count counters"
    and "comparison_count counters1 = comparison_count counters"
proof -
  obtain u w1 assertion where check: "check 1 w = (Inr u, w1)"
    and a: "posit_of_thing ident (posit_keeper db) = Some assertion"
    using assms by (auto simp: attempt_st_eq_Inr)
  note run = assms [unfolded eligible_rows.simps check a ok_or_simps attempt_st_simps]
  show thesis
  proof (cases "envelope_things (pset assertion)")
    case None
    then show thesis using that [of workspace counters w1] run a by (simp add: effective_row_def)
  next
    case (Some tp)
    obtain t p where tp: "tp = (t, p)" by (cases tp)
    note run = run [unfolded Some tp option.case prod.case]
    show thesis
    proof (cases "definitely_at_or_before C (ptime assertion) (cut_assertion_time cuts)")
      case False
      moreover from this a Some tp have "effective_row C db cuts ident = None"
        by (auto simp: effective_row_def split: sum.splits option.splits)
      ultimately show thesis using that [of workspace counters w1] run by simp
    next
      case True
      with run obtain amount target where amount: "certainty_percent (pvalue assertion) = Inr (Some amount)"
        and target: "posit_of_thing t (posit_keeper db) = Some target"
        by (cases "certainty_percent (pvalue assertion)") (auto simp: attempt_st_eq_Inr)
      note run = run [unfolded amount target sum.case ok_or_simps attempt_st_simps]
      show thesis
      proof (cases "definitely_at_or_before C (ptime target) (cut_appearance_time cuts)")
        case False
        with run True a Some tp amount target show thesis
          using that [of workspace counters w1] by (simp add: effective_row_def)
      next
        case late: True
        define c where "c = (let c = counters\<lparr>eligible_count := eligible_count counters + 1\<rparr> in if amount = 0
          then c\<lparr>retraction_count := retraction_count c + 1\<rparr> else c)"
        from run True late obtain ws w2 where "eligible_rows C check reserve db cuts idents
            (eligible @ [\<lparr>eff_assertion = assertion, eff_target = target, eff_positor = p, eff_percent = amount\<rparr>])
            ws c w2 = (Inr (rows, counters'), w')"
          by (auto simp: attempt_st_eq_Inr Let_def c_def)
        moreover have "effective_row C db cuts ident = Some \<lparr>eff_assertion = assertion, eff_target = target,
            eff_positor = p, eff_percent = amount\<rparr>"
          using True late a Some tp amount target by (simp add: effective_row_def)
        moreover have "candidate_count c = candidate_count counters" "comparison_count c = comparison_count counters"
          by (simp_all add: c_def Let_def)
        ultimately show thesis using that [of ws c w2] by simp
      qed
    qed
  qed
qed

lemma eligible_rows_are:
  "eligible_rows C check reserve db cuts idents eligible workspace counters w = (Inr (rows, counters'), w')
     \<Longrightarrow> rows = eligible @ List.map_filter (effective_row C db cuts) idents
       \<and> candidate_count counters' = candidate_count counters
       \<and> comparison_count counters' = comparison_count counters"
proof (induction idents arbitrary: eligible workspace counters w)
  case Nil
  then show ?case by (simp add: map_filter_simps)
next
  case (Cons ident idents)
  obtain workspace1 counters1 w1 where step: "eligible_rows C check reserve db cuts idents
      (eligible @ (case effective_row C db cuts ident of None \<Rightarrow> [] | Some row \<Rightarrow> [row]))
      workspace1 counters1 w1 = (Inr (rows, counters'), w')"
    and c: "candidate_count counters1 = candidate_count counters"
      "comparison_count counters1 = comparison_count counters"
    by (rule eligible_step [OF Cons.prems])
  from Cons.IH [OF step] c show ?case
    by (cases "effective_row C db cuts ident") (simp_all add: map_filter_simps)
qed

section \<open>Retractions\<close>

text \<open>A frontier of a set of times is one of them with the latest start.\<close>

definition latest_start :: "chrono \<Rightarrow> time set \<Rightarrow> frontier \<Rightarrow> bool" where
  "latest_start C T fr \<longleftrightarrow> ftime fr \<in> T \<and> fstart fr = istart (interval C (ftime fr))
     \<and> (\<forall>t \<in> T. istart (interval C t) \<le> fstart fr)"

lemma latest_start_new: "latest_start C {t} (new_frontier C t)"
  by (simp add: latest_start_def new_frontier_def)

lemma latest_start_observe:
  assumes "latest_start C T fr" and "observe C fr t work s = (Inr (replaced, fr'), s')"
  shows "latest_start C (insert t T) fr'"
  using assms
  by (auto simp: latest_start_def observe_def Let_def attempt_st_eq_Inr split: if_splits
      dest: order.strict_implies_order intro: order_trans)

context calendar
begin

lemma latest_start_dominates:
  assumes "latest_start C T fr" and "dominates C fr t work s = (Inr d, s')"
  shows "d \<longleftrightarrow> (\<exists>u \<in> T. definitely_before C t u)"
proof -
  have d: "d \<longleftrightarrow> definitely_before C t (ftime fr)"
    using assms by (auto simp: dominates_def latest_start_def definitely_before_def attempt_st_eq_Inr)
  show ?thesis
    unfolding d using assms(1) greatest_start_dominates by (auto simp: latest_start_def)
qed

end

text \<open>The retraction map after the given rows.\<close>

definition retraction_times :: "effective_assertion list \<Rightarrow> thing \<times> thing \<Rightarrow> time set" where
  "retraction_times rows k =
     (\<lambda>row. ptime (eff_assertion row)) ` {row \<in> set rows. eff_percent row = 0 \<and> retraction_key row = k}"

definition retractions_are ::
    "chrono \<Rightarrow> effective_assertion list \<Rightarrow> (thing \<times> thing \<rightharpoonup> frontier) \<Rightarrow> bool" where
  "retractions_are C rows m \<longleftrightarrow> (\<forall>k. m k = None \<longrightarrow> retraction_times rows k = {})
     \<and> (\<forall>k fr. m k = Some fr \<longrightarrow> latest_start C (retraction_times rows k) fr)"

declare split_paired_All [simp del]

lemma retraction_times_snoc:
  "retraction_times (rows @ [row]) k =
     (if eff_percent row = 0 \<and> retraction_key row = k
      then insert (ptime (eff_assertion row)) (retraction_times rows k) else retraction_times rows k)"
  by (auto simp: retraction_times_def)

lemma gather_retractions_are:
  "gather_retractions C work rows m s = (Inr m', s') \<Longrightarrow> retractions_are C before m
     \<Longrightarrow> retractions_are C (before @ rows) m'"
proof (induction rows arbitrary: before m s)
  case Nil
  then show ?case by simp
next
  case (Cons row rows)
  let ?k = "retraction_key row" and ?t = "ptime (eff_assertion row)"
  from Cons.prems(1) obtain u s1 where work: "work WorkRow s = (Inr u, s1)"
    by (auto simp: attempt_st_eq_Inr)
  note run = Cons.prems(1) [unfolded gather_retractions.simps work attempt_st_simps]
  have "\<exists>m1 s2. gather_retractions C work rows m1 s2 = (Inr m', s') \<and> retractions_are C (before @ [row]) m1"
  proof (cases "eff_percent row = 0")
    case False
    then have "retractions_are C (before @ [row]) m"
      using Cons.prems(2) by (simp add: retractions_are_def retraction_times_snoc)
    with run False show ?thesis by auto
  next
    case zero: True
    show ?thesis
    proof (cases "m ?k")
      case None
      then have "retraction_times before ?k = {}"
        using Cons.prems(2) by (simp add: retractions_are_def)
      then have "retractions_are C (before @ [row]) (m(?k \<mapsto> new_frontier C ?t))"
        using Cons.prems(2) zero latest_start_new
        by (simp add: retractions_are_def retraction_times_snoc)
      with run zero None show ?thesis by auto
    next
      case (Some fr)
      from run zero Some obtain replaced fr' s2 where obs: "observe C fr ?t work s1 = (Inr (replaced, fr'), s2)"
        and rest: "gather_retractions C work rows (m(?k \<mapsto> fr')) s2 = (Inr m', s')"
        by (auto simp: attempt_st_eq_Inr)
      have "latest_start C (retraction_times before ?k) fr"
        using Cons.prems(2) Some by (simp add: retractions_are_def)
      from latest_start_observe [OF this obs]
      have "retractions_are C (before @ [row]) (m(?k \<mapsto> fr'))"
        using Cons.prems(2) zero by (simp add: retractions_are_def retraction_times_snoc)
      with rest show ?thesis by blast
    qed
  qed
  with Cons.IH show ?case by fastforce
qed

context calendar
begin

lemma drop_retracted_is_filter:
  assumes "retractions_are C all m"
  shows "drop_retracted C work m rows kept s = (Inr out, s') \<Longrightarrow>
     out = kept @ filter (\<lambda>row. \<not> retracted C (set all) row) rows"
proof (induction rows arbitrary: kept s)
  case (Cons row rows)
  have reference: "retracted C (set all) row \<longleftrightarrow>
      (\<exists>t \<in> retraction_times all (retraction_key row). definitely_before C (ptime (eff_assertion row)) t)"
    by (auto simp: retracted_def retraction_times_def)
  from Cons.prems obtain u s1 where work: "work WorkRow s = (Inr u, s1)"
    by (auto simp: attempt_st_eq_Inr)
  note run = Cons.prems [unfolded drop_retracted.simps work attempt_st_simps]
  show ?case
  proof (cases "m (retraction_key row)")
    case None
    then have "\<not> retracted C (set all) row"
      using assms by (simp add: reference retractions_are_def)
    with run None Cons.IH [of "kept @ [row]" s1] show ?thesis by simp
  next
    case (Some fr)
    from run Some obtain d s2 where d: "dominates C fr (ptime (eff_assertion row)) work s1 = (Inr d, s2)"
      and rest: "drop_retracted C work m rows (if d then kept else kept @ [row]) s2 = (Inr out, s')"
      by (auto simp: attempt_st_eq_Inr)
    have "latest_start C (retraction_times all (retraction_key row)) fr"
      using assms Some by (simp add: retractions_are_def)
    from latest_start_dominates [OF this d] have "d \<longleftrightarrow> retracted C (set all) row"
      by (simp add: reference)
    with Cons.IH [OF rest] show ?thesis by simp
  qed
qed simp

lemma set_maximal_rows: "set (maximal_rows C key tm rows) = latest C key tm (set rows)"
  by (auto simp: maximal_rows_def maximal_in_def latest_def)

lemma reduce_effective_reference:
  assumes "reduce_effective C work rows s = (Inr out, s')"
  shows "set out = in_effect C (set rows) \<and> (distinct rows \<longrightarrow> distinct out)"
proof -
  obtain m s1 nonzero s2 maxima s3 where
      gather: "gather_retractions C work rows Map.empty s = (Inr m, s1)"
    and drops: "drop_retracted C work m (filter (\<lambda>row. eff_percent row \<noteq> 0) rows) [] s1 = (Inr nonzero, s2)"
    and targets: "retain_maximal_by_key C target_key (\<lambda>row. ptime (eff_target row)) work nonzero s2 = (Inr maxima, s3)"
    and by_value: "retain_maximal_by_key C value_key (\<lambda>row. ptime (eff_assertion row)) work maxima s3 = (Inr out, s')"
    using assms by (auto simp: reduce_effective_def attempt_st_eq_Inr)
  have "retractions_are C ([] @ rows) m"
    by (rule gather_retractions_are [OF gather]) (simp add: retractions_are_def retraction_times_def)
  then have nonzero: "nonzero = filter (\<lambda>row. \<not> retracted C (set rows) row) (filter (\<lambda>row. eff_percent row \<noteq> 0) rows)"
    using drop_retracted_is_filter [OF _ drops] by simp
  have maxima: "maxima = maximal_rows C target_key (\<lambda>row. ptime (eff_target row)) nonzero"
    using retain_maximal_by_key_reference [of target_key "\<lambda>row. ptime (eff_target row)" work nonzero s2 maxima]
      targets by simp
  have out: "out = maximal_rows C value_key (\<lambda>row. ptime (eff_assertion row)) maxima"
    using retain_maximal_by_key_reference [of value_key "\<lambda>row. ptime (eff_assertion row)" work maxima s3 out]
      by_value by simp
  have "set out = in_effect C (set rows)"
    unfolding out set_maximal_rows maxima nonzero in_effect_def by (simp add: conj_commute)
  moreover have "distinct rows \<longrightarrow> distinct out"
    by (simp add: out maxima nonzero maximal_rows_def)
  ultimately show ?thesis by blast
qed

end

section \<open>The index\<close>

lemma envelope_roles:
  assumes "envelope_things s = Some (t, p)"
  shows "posit_role_id \<in> set (set_roles s)" and "ascertains_role_id \<in> set (set_roles s)"
proof -
  have "length s = 2" using assms by (auto simp: envelope_things_def split: if_splits)
  then obtain a b where s: "s = [a, b]" by (auto simp: length_Suc_conv numeral_2_eq_2)
  show "posit_role_id \<in> set (set_roles s)" "ascertains_role_id \<in> set (set_roles s)"
    using assms by (auto simp: s envelope_things_def set_roles_def split: if_splits)
qed

lemma effective_row_evidence:
  assumes "settled nfc L C' roles posits db"
  shows "effective_row C db cuts ident = Some row \<longleftrightarrow>
    row \<in> evidence C db cuts \<and> pthing (eff_assertion row) = ident"
proof -
  have thing: "pthing p = t" if "posit_of_thing t (posit_keeper db) = Some p" for t p
    using lookups_are_exact [OF assms, of t p] that by blast
  show ?thesis
  proof
    assume "effective_row C db cuts ident = Some row"
    then show "row \<in> evidence C db cuts \<and> pthing (eff_assertion row) = ident"
      using thing by (auto simp: effective_row_def evidence_def split: option.splits prod.splits sum.splits if_splits)
  next
    assume "row \<in> evidence C db cuts \<and> pthing (eff_assertion row) = ident"
    then show "effective_row C db cuts ident = Some row"
      by (cases row) (auto simp: effective_row_def evidence_def)
  qed
qed

lemma set_map_filter: "set (List.map_filter f xs) = {y. \<exists>x \<in> set xs. f x = Some y}"
  by (induction xs) (auto simp: map_filter_simps split: option.splits)

lemma distinct_map_filter:
  "distinct xs \<Longrightarrow> (\<And>x y. f x = Some y \<Longrightarrow> g y = x) \<Longrightarrow> distinct (List.map_filter f xs)"
proof (induction xs)
  case (Cons x xs)
  have "y \<notin> set (List.map_filter f xs)" if y: "f x = Some y" for y
  proof
    assume "y \<in> set (List.map_filter f xs)"
    then obtain z where z: "z \<in> set xs" "f z = Some y" by (auto simp: set_map_filter)
    have "x = z" using Cons.prems(2) [OF y] Cons.prems(2) [OF z(2)] by simp
    with Cons.prems(1) z(1) show False by simp
  qed
  then show ?case using Cons by (simp add: map_filter_simps split: option.splits)
qed (simp add: map_filter_simps)

lemma candidate_rows:
  assumes ok: "settled nfc L C' roles posits db"
    and run: "assertion_candidates check reserve db w = (Inr (idents, workspace), w')"
  shows "set (List.map_filter (effective_row C db cuts) idents) = evidence C db cuts"
    and "distinct (List.map_filter (effective_row C db cuts) idents)"
    and "length idents = card (filed_under (role_to_posit_thing db) posit_role_id
           \<inter> filed_under (role_to_posit_thing db) ascertains_role_id)"
proof -
  let ?S = "filed_under (role_to_posit_thing db) posit_role_id \<inter> filed_under (role_to_posit_thing db) ascertains_role_id"
  have idents: "idents = sorted_list_of_set ?S"
    using run by (auto simp: assertion_candidates_def Let_def attempt_st_eq_Inr filed_under_def)
  have "role_to_posit_thing db = filed (\<lambda>p. set_roles (pset p)) (map (object_of roles) posits)"
    using ok by (simp add: settled_def db_ok_def posits_are_def)
  then have finite: "finite ?S" by (simp add: filed_under_def filed_def)
  then show "length idents = card ?S" by (simp add: idents)
  have "ident \<in> ?S" if row: "row \<in> evidence C db cuts" and ident: "pthing (eff_assertion row) = ident" for row ident
  proof -
    have "posit_of_thing ident (posit_keeper db) = Some (eff_assertion row)"
      and "envelope_things (pset (eff_assertion row)) = Some (pthing (eff_target row), eff_positor row)"
      using row ident by (auto simp: evidence_def)
    with envelope_roles show ?thesis
      using lookups_are_exact [OF ok, of ident "eff_assertion row"] by fastforce
  qed
  then show "set (List.map_filter (effective_row C db cuts) idents) = evidence C db cuts"
    using finite effective_row_evidence [OF ok, of C cuts] by (auto simp: idents set_map_filter)
  show "distinct (List.map_filter (effective_row C db cuts) idents)"
    by (rule distinct_map_filter [where g = "\<lambda>row. pthing (eff_assertion row)"])
      (use effective_row_evidence [OF ok, of C cuts] in \<open>auto simp: idents\<close>)
qed

section \<open>The cost of the reductions\<close>

text \<open>A work callback that meters comparisons: a row costs nothing, a comparison at most one, and below
  the limit neither is refused with the error of the limit.\<close>

definition within :: "('s \<Rightarrow> nat) \<Rightarrow> database_error \<Rightarrow> nat \<Rightarrow> 'a result \<times> 's \<Rightarrow> bool" where
  "within cost refusal n x \<longleftrightarrow> fst x \<noteq> Inl refusal \<and> cost (snd x) \<le> n"

lemma within_return: "cost s \<le> n \<Longrightarrow> within cost refusal n (Inr a, s)"
  by (simp add: within_def)

lemma within_attempt:
  assumes "within cost refusal m x" and "m \<le> n"
    and "\<And>a s. x = (Inr a, s) \<Longrightarrow> cost s \<le> m \<Longrightarrow> within cost refusal n (f a s)"
  shows "within cost refusal n (attempt_st x f)"
proof -
  obtain r s where x: "x = (r, s)" by (cases x)
  show ?thesis using assms x by (cases r) (auto simp: within_def)
qed

locale metered =
  fixes work :: "'s work_fn" and cost :: "'s \<Rightarrow> nat" and limit :: nat and refusal :: database_error
  assumes row: "within cost refusal (cost s) (work WorkRow s)"
    and comparison: "cost s < limit \<Longrightarrow> within cost refusal (cost s + 1) (work WorkComparison s)"
begin

lemma row_within: "cost s \<le> n \<Longrightarrow> within cost refusal n (work WorkRow s)"
  using row [of s] by (simp add: within_def)

lemma observe_within:
  "cost s < n \<Longrightarrow> n \<le> limit \<Longrightarrow> within cost refusal n (observe C fr t work s)"
  unfolding observe_def
  by (rule within_attempt [where m = "cost s + 1", OF comparison]) (auto intro: within_return simp: Let_def)

lemma dominates_within:
  "cost s < n \<Longrightarrow> n \<le> limit \<Longrightarrow> within cost refusal n (dominates C fr t work s)"
  unfolding dominates_def
  by (rule within_attempt [where m = "cost s + 1", OF comparison]) (auto intro: within_return)

lemma group_rows_within:
  "cost s + length rows \<le> n \<Longrightarrow> n \<le> limit
     \<Longrightarrow> within cost refusal n (group_rows C key tm work index rows st s)"
proof (induction rows arbitrary: index st s)
  case Nil
  then show ?case by (cases st) (simp add: within_return)
next
  case (Cons row rows)
  obtain groups frontiers membership where st: "st = (groups, frontiers, membership)" by (cases st)
  show ?case
    unfolding st group_rows.simps
  proof (rule within_attempt [where m = "cost s", OF row])
    fix u s1 assume s1: "cost s1 \<le> cost s"
    show "within cost refusal n (attempt_st
       (case groups (key row) of
          None \<Rightarrow>
            (let grp = length frontiers
             in (Inr (grp, groups(key row \<mapsto> grp),
                   frontiers @ [(new_frontier C (tm row), index)]), s1))
        | Some grp \<Rightarrow>
            (let (fr, witness) = frontiers ! grp
             in attempt_st (observe C fr (tm row) work s1) (\<lambda>(replaced, fr) w.
                  (Inr (grp, groups,
                     frontiers[grp := (fr, if replaced then index else witness)]), w))))
       (\<lambda>(grp, groups, frontiers) w.
     group_rows C key tm work (Suc index) rows (groups, frontiers, membership @ [grp]) w))"
    proof (rule within_attempt [where m = "cost s + 1"])
      show "within cost refusal (cost s + 1)
         (case groups (key row) of
          None \<Rightarrow>
            (let grp = length frontiers
             in (Inr (grp, groups(key row \<mapsto> grp),
                   frontiers @ [(new_frontier C (tm row), index)]), s1))
        | Some grp \<Rightarrow>
            (let (fr, witness) = frontiers ! grp
             in attempt_st (observe C fr (tm row) work s1) (\<lambda>(replaced, fr) w.
                  (Inr (grp, groups,
                     frontiers[grp := (fr, if replaced then index else witness)]), w))))"
        using s1 Cons.prems
        by (auto simp: case_prod_unfold Let_def intro!: within_return within_attempt [where m = "cost s + 1"]
            observe_within split: option.splits)
    qed (use Cons in \<open>auto simp: case_prod_unfold\<close>)
  qed (use Cons.prems in simp_all)
qed

lemma keep_grouped_within:
  "cost s + length rows \<le> n \<Longrightarrow> n \<le> limit
     \<Longrightarrow> within cost refusal n (keep_grouped C tm work frontiers index rows kept s)"
proof (induction rows arbitrary: index kept s)
  case Nil
  then show ?case by (simp add: within_return)
next
  case (Cons x rows)
  obtain row grp where x: "x = (row, grp)" by (cases x)
  obtain fr witness where fr: "frontiers ! grp = (fr, witness)" by fastforce
  show ?case
    unfolding x keep_grouped.simps fr Let_def prod.case
  proof (rule within_attempt [where m = "cost s", OF row])
    fix u s1 assume s1: "cost s1 \<le> cost s"
    show "within cost refusal n (attempt_st
       (if index = witness then (Inr True, s1)
        else attempt_st (dominates C fr (tm row) work s1) (\<lambda>dominated w. (Inr (\<not> dominated), w)))
       (\<lambda>keep w. keep_grouped C tm work frontiers (Suc index) rows (if keep then kept @ [row] else kept) w))"
    proof (rule within_attempt [where m = "cost s + 1"])
      show "within cost refusal (cost s + 1)
         (if index = witness then (Inr True, s1)
          else attempt_st (dominates C fr (tm row) work s1) (\<lambda>dominated w. (Inr (\<not> dominated), w)))"
        using s1 Cons.prems
        by (auto intro!: within_return within_attempt [where m = "cost s + 1"] dominates_within)
    qed (use Cons in auto)
  qed (use Cons.prems in simp_all)
qed

lemma retain_maximal_by_key_within:
  assumes "cost s + 2 * length rows \<le> n" and "n \<le> limit"
  shows "within cost refusal n (retain_maximal_by_key C key tm work rows s)"
  unfolding retain_maximal_by_key_def
proof (rule within_attempt [where m = "cost s + length rows", OF group_rows_within])
  fix st s1 assume "cost s1 \<le> cost s + length rows"
  then show "within cost refusal n ((\<lambda>(groups, frontiers, membership) w.
      keep_grouped C tm work frontiers 0 (zip rows membership) [] w) st s1)"
    using assms by (auto simp: case_prod_unfold intro!: keep_grouped_within)
qed (use assms in auto)

lemma gather_retractions_within:
  "cost s + length rows \<le> n \<Longrightarrow> n \<le> limit
     \<Longrightarrow> within cost refusal n (gather_retractions C work rows m s)"
proof (induction rows arbitrary: m s)
  case Nil
  then show ?case by (simp add: within_return)
next
  case (Cons row rows)
  show ?case
    unfolding gather_retractions.simps
  proof (rule within_attempt [where m = "cost s", OF row])
    fix u s1 assume s1: "cost s1 \<le> cost s"
    then show "within cost refusal n (if eff_percent row \<noteq> 0 then gather_retractions C work rows m s1
     else
     case m (retraction_key row) of
       None \<Rightarrow>
         gather_retractions C work rows
           (m(retraction_key row \<mapsto> new_frontier C (ptime (eff_assertion row)))) s1
     | Some fr \<Rightarrow>
         attempt_st (observe C fr (ptime (eff_assertion row)) work s1) (\<lambda>(_, fr) s.
         gather_retractions C work rows (m(retraction_key row \<mapsto> fr)) s))"
      using Cons by (auto simp: case_prod_unfold intro!: within_attempt [where m = "cost s + 1"]
          observe_within split: option.splits)
  qed (use Cons.prems in simp_all)
qed

lemma drop_retracted_within:
  "cost s + length rows \<le> n \<Longrightarrow> n \<le> limit
     \<Longrightarrow> within cost refusal n (drop_retracted C work m rows kept s)"
proof (induction rows arbitrary: kept s)
  case Nil
  then show ?case by (simp add: within_return)
next
  case (Cons row rows)
  show ?case
    unfolding drop_retracted.simps
  proof (rule within_attempt [where m = "cost s", OF row])
    fix u s1 assume s1: "cost s1 \<le> cost s"
    then show "within cost refusal n (case m (retraction_key row) of
       None \<Rightarrow> drop_retracted C work m rows (kept @ [row]) s1
     | Some fr \<Rightarrow>
         attempt_st (dominates C fr (ptime (eff_assertion row)) work s1) (\<lambda>dominated s.
         drop_retracted C work m rows (if dominated then kept else kept @ [row]) s))"
      using Cons by (auto intro!: within_attempt [where m = "cost s + 1"] dominates_within split: option.splits)
  qed (use Cons.prems in simp_all)
qed

end

lemma drop_retracted_length:
  "drop_retracted C work m rows kept s = (Inr out, s') \<Longrightarrow> length out \<le> length kept + length rows"
proof (induction rows arbitrary: kept s)
  case (Cons row rows)
  then obtain kept' s1 where "drop_retracted C work m rows kept' s1 = (Inr out, s')"
      "length kept' \<le> length kept + 1"
    by (auto simp: attempt_st_eq_Inr split: option.splits if_splits)
  with Cons.IH [of kept' s1] show ?case by simp
qed simp

lemma keep_grouped_length:
  "keep_grouped C tm work frontiers index rows kept s = (Inr out, s') \<Longrightarrow>
     length out \<le> length kept + length rows"
proof (induction rows arbitrary: index kept s)
  case (Cons x rows)
  then obtain kept' s1 where "keep_grouped C tm work frontiers (Suc index) rows kept' s1 = (Inr out, s')"
      "length kept' \<le> length kept + 1"
    by (cases x) (auto simp: attempt_st_eq_Inr case_prod_unfold Let_def split: if_splits)
  with Cons.IH [of "Suc index" kept' s1] show ?case by simp
qed simp

lemma retain_maximal_by_key_length:
  "retain_maximal_by_key C key tm work rows s = (Inr out, s') \<Longrightarrow> length out \<le> length rows"
  by (auto simp: retain_maximal_by_key_def attempt_st_eq_Inr dest!: keep_grouped_length)

context metered
begin

lemma reduce_effective_within:
  assumes "cost s + 6 * length rows \<le> n" and "n \<le> limit"
  shows "within cost refusal n (reduce_effective C work rows s)"
  unfolding reduce_effective_def
proof (rule within_attempt [where m = "cost s + length rows", OF gather_retractions_within])
  fix m s1 assume s1: "cost s1 \<le> cost s + length rows"
  let ?rows = "filter (\<lambda>row. eff_percent row \<noteq> 0) rows"
  have len: "length ?rows \<le> length rows" by simp
  show "within cost refusal n (attempt_st (drop_retracted C work m ?rows [] s1) (\<lambda>nonzero s.
     attempt_st (retain_maximal_by_key C target_key (\<lambda>row. ptime (eff_target row)) work nonzero s)
       (\<lambda>target_maxima s.
     retain_maximal_by_key C value_key (\<lambda>row. ptime (eff_assertion row)) work target_maxima s)))"
  proof (rule within_attempt [where m = "cost s + 2 * length rows", OF drop_retracted_within])
    fix nonzero s2 assume "drop_retracted C work m ?rows [] s1 = (Inr nonzero, s2)"
      and s2: "cost s2 \<le> cost s + 2 * length rows"
    then have nonzero: "length nonzero \<le> length rows"
      using le_trans [OF _ len] drop_retracted_length [of C work m ?rows "[]" s1 nonzero s2] by simp
    show "within cost refusal n (attempt_st
        (retain_maximal_by_key C target_key (\<lambda>row. ptime (eff_target row)) work nonzero s2) (\<lambda>target_maxima s.
         retain_maximal_by_key C value_key (\<lambda>row. ptime (eff_assertion row)) work target_maxima s))"
    proof (rule within_attempt [where m = "cost s + 4 * length rows", OF retain_maximal_by_key_within])
      fix maxima s3
      assume m: "retain_maximal_by_key C target_key (\<lambda>row. ptime (eff_target row)) work nonzero s2 = (Inr maxima, s3)"
        and s3: "cost s3 \<le> cost s + 4 * length rows"
      then have "length maxima \<le> length rows"
        using retain_maximal_by_key_length [OF m] nonzero by simp
      with s3 assms show "within cost refusal n
          (retain_maximal_by_key C value_key (\<lambda>row. ptime (eff_assertion row)) work maxima s3)"
        by (intro retain_maximal_by_key_within) simp_all
    qed (use s2 nonzero assms in simp_all)
  qed (use s1 len assms in linarith)+
qed (use assms in simp_all)

end

text \<open>The callback of the resolution, when the caller never cancels, is metered by its counter.\<close>

abbreviation "comparison_refusal limits \<equiv>
  ResourceLimit ''effective temporal comparisons'' (max_comparisons limits)"

lemma count_comparison_within:
  assumes "unat (comparison_count counters) < unat (max_comparisons limits)"
  shows "count_comparison limits counters =
      (Inr (), counters\<lparr>comparison_count := comparison_count counters + 1\<rparr>)
    \<and> unat (comparison_count counters + 1) = unat (comparison_count counters) + 1"
proof -
  have small: "unat (comparison_count counters) + 1 < 2 ^ 64"
    using assms unat_u64_less [of "max_comparisons limits"] by linarith
  then have after: "unat (comparison_count counters + 1) = unat (comparison_count counters) + 1"
    by (simp add: unat_word_ariths)
  then have "\<not> comparison_count counters + 1 > max_comparisons limits"
    using assms by (simp add: word_less_nat_alt)
  moreover have "checked_add_u64 (comparison_count counters) 1 = Some (comparison_count counters + 1)"
    using small by (simp add: checked_add_u64_def)
  ultimately show ?thesis using after by (simp add: count_comparison_def Let_def)
qed

interpretation effect: metered "effect_work (\<lambda>_ w. (Inr (), w)) limits"
  "\<lambda>s. unat (comparison_count (snd s))" "unat (max_comparisons limits)" "comparison_refusal limits"
  for limits
proof unfold_locales
  show "within (\<lambda>s. unat (comparison_count (snd s))) (comparison_refusal limits)
      (unat (comparison_count (snd s))) (effect_work (\<lambda>_ w. (Inr (), w)) limits WorkRow s)" for s :: "'a \<times> effect_counters"
    by (cases s) (simp add: effect_work_def within_def)
  show "within (\<lambda>s. unat (comparison_count (snd s))) (comparison_refusal limits)
      (unat (comparison_count (snd s)) + 1) (effect_work (\<lambda>_ w. (Inr (), w)) limits WorkComparison s)"
    if "unat (comparison_count (snd s)) < unat (max_comparisons limits)" for s :: "'a \<times> effect_counters"
    using count_comparison_within [OF that] by (cases s) (simp add: effect_work_def within_def)
qed

section \<open>Properties\<close>

lemma resolve_budgeted_Inr:
  assumes "resolve_budgeted C check reserve db cuts limits w = (Inr res, w')"
  obtains w1 idents workspace w2 eligible counters w3 effective w4 counters4 where
    "assertion_candidates check reserve db w1 = (Inr (idents, workspace), w2)"
    and "word_of_nat (length idents) \<le> max_candidates limits"
    and "eligible_rows C check reserve db cuts idents [] workspace
      (no_counters\<lparr>candidate_count := word_of_nat (length idents)\<rparr>) w2 = (Inr (eligible, counters), w3)"
    and "reduce_effective C (effect_work check limits) eligible (w3, counters) = (Inr effective, (w4, counters4))"
    and "res = \<lparr>slice_cut = cuts, slice_assertions = sort_key effect_key effective,
      slice_counters = counters4\<lparr>effective_count := word_of_nat (length effective)\<rparr>\<rparr>"
proof -
  obtain u w1 idents workspace w2 where a: "check 1 w = (Inr u, w1)"
      "assertion_candidates check reserve db w1 = (Inr (idents, workspace), w2)"
    using assms by (auto simp: resolve_budgeted_def attempt_st_eq_Inr Let_def)
  note run = assms [unfolded resolve_budgeted_def a attempt_st_simps prod.case Let_def]
  have limit: "\<not> word_of_nat (length idents) > max_candidates limits"
    using run by (auto simp: no_counters_def)
  obtain eligible counters w3 where e: "eligible_rows C check reserve db cuts idents [] workspace
      (no_counters\<lparr>candidate_count := word_of_nat (length idents)\<rparr>) w2 = (Inr (eligible, counters), w3)"
    using run limit by (auto simp: attempt_st_eq_Inr no_counters_def)
  obtain r w4 counters4 where red: "reduce_effective C (effect_work check limits) eligible (w3, counters) =
      (r, (w4, counters4))" by (metis prod.collapse)
  obtain effective where "r = Inr effective"
    and "res = \<lparr>slice_cut = cuts, slice_assertions = sort_key effect_key effective,
      slice_counters = counters4\<lparr>effective_count := word_of_nat (length effective)\<rparr>\<rparr>"
    using run limit e red by (auto simp: attempt_st_eq_Inr no_counters_def)
  with that a(2) limit e red show thesis by simp
qed

text \<open>C19: information in effect is what its definition over sets of posits says.  When the resolution
  returns, whatever its callbacks do, it returns the assertions of every source that are not
  retracted by that source, about the latest targets, each of them the latest for its value, each
  once, in the canonical order.\<close>

theorem information_in_effect_is_reference:
  assumes "calendar C" and "settled nfc L C roles posits db"
    and "resolve_budgeted C check reserve db cuts limits w = (Inr res, w')"
  shows "slice_cut res = cuts
    \<and> set (slice_assertions res) = in_effect C (evidence C db cuts)
    \<and> sorted (map effect_key (slice_assertions res)) \<and> distinct (slice_assertions res)"
proof -
  obtain w1 idents workspace w2 eligible counters w3 effective w4 counters4 where
      a: "assertion_candidates check reserve db w1 = (Inr (idents, workspace), w2)"
    and e: "eligible_rows C check reserve db cuts idents [] workspace
      (no_counters\<lparr>candidate_count := word_of_nat (length idents)\<rparr>) w2 = (Inr (eligible, counters), w3)"
    and red: "reduce_effective C (effect_work check limits) eligible (w3, counters) = (Inr effective, (w4, counters4))"
    and res: "res = \<lparr>slice_cut = cuts, slice_assertions = sort_key effect_key effective,
      slice_counters = counters4\<lparr>effective_count := word_of_nat (length effective)\<rparr>\<rparr>"
    by (rule resolve_budgeted_Inr [OF assms(3)])
  have eligible: "eligible = List.map_filter (effective_row C db cuts) idents"
    using eligible_rows_are [OF e] by simp
  have rows: "set eligible = evidence C db cuts" "distinct eligible"
    using candidate_rows(1,2) [OF assms(2) a, of C cuts] by (simp_all add: eligible)
  from calendar.reduce_effective_reference [OF assms(1) red] rows
  have "set effective = in_effect C (evidence C db cuts)" "distinct effective" by auto
  then show ?thesis by (simp add: res)
qed

definition sample_cuts :: effect_cut where
  "sample_cuts = \<lparr>cut_assertion_time = Time EndOfTime, cut_appearance_time = Time EndOfTime\<rparr>"

theorem information_in_effect_is_reference_witness:
  "\<exists>db res w. resolve_budgeted gregorian (\<lambda>n w. (Inr (), w + n)) (\<lambda>_ w. (Inr (), w)) db sample_cuts default_limits 0 =
     (Inr res, w) \<and> set (slice_assertions res) = in_effect gregorian (evidence gregorian db sample_cuts)"
proof -
  obtain db where db: "settled (\<lambda>s. s) plain_lib gregorian builtin_catalogue [] db" "store db = None"
      "lower_bound (generator db) = 5"
    by (rule new_memory_database [OF id_nfc_laws])
  have "role_to_posit_thing db = Map.empty"
    using db(1) by (simp add: settled_def db_ok_def posits_are_def)
  then have "\<exists>res w. resolve_budgeted gregorian (\<lambda>n w. (Inr (), w + n)) (\<lambda>_ w. (Inr (), w)) db sample_cuts
      default_limits 0 = (Inr res, w)"
    by (simp add: resolve_budgeted_def assertion_candidates_def Let_def no_counters_def default_limits_def
        reduce_effective_def retain_maximal_by_key_def)
  then obtain res w where run: "resolve_budgeted gregorian (\<lambda>n w. (Inr (), w + n)) (\<lambda>_ w. (Inr (), w)) db
      sample_cuts default_limits 0 = (Inr res, w)" by blast
  from information_in_effect_is_reference [OF gregorian.calendar_axioms db(1) this] run show ?thesis by blast
qed

text \<open>The number of candidates does not wrap: 0 is no posit's identity.\<close>

lemma candidates_fit:
  assumes ok: "settled nfc L C' roles posits db"
    and run: "assertion_candidates check reserve db w = (Inr (idents, workspace), w')"
  shows "length idents < 2 ^ 64"
proof -
  let ?S = "filed_under (role_to_posit_thing db) posit_role_id \<inter> filed_under (role_to_posit_thing db) ascertains_role_id"
  have dbok: "db_ok nfc L C' roles posits db" using ok by (simp add: settled_def)
  have "0 \<notin> ?S"
  proof
    assume "0 \<in> ?S"
    then obtain q where "posit_of_thing 0 (posit_keeper db) = Some q"
      using lookups_are_exact [OF ok, of 0] by blast
    then have "map_of (map (\<lambda>p. (pthing p, p)) (map (object_of roles) posits)) 0 = Some q"
      using dbok by (simp only: db_ok_def posits_are_def posit_of_thing_def posit_keeper.simps)
    from map_of_key_Some [OF this] obtain p where "p \<in> set posits" "posit_identity p = 0" by auto
    then show False using dbok by (auto simp: db_ok_def catalogue_def wf_posit_def)
  qed
  then have "?S \<subset> UNIV" by blast
  then have "card ?S < card (UNIV :: thing set)" by (intro psubset_card_mono) simp_all
  then show ?thesis using candidate_rows(3) [OF ok run] by (simp add: card_word)
qed

lemma length_map_filter: "length (List.map_filter f xs) \<le> length xs"
  by (induction xs) (auto simp: map_filter_simps split: option.splits)

lemma eligible_rows_not_refused:
  "fst (eligible_rows C (\<lambda>_ w. (Inr (), w)) (\<lambda>_ w. (Inr (), w)) db cuts idents eligible workspace counters w)
     \<noteq> Inl (ResourceLimit what n)"
proof (induction idents arbitrary: eligible workspace counters)
  case (Cons ident idents)
  then show ?case
    by (auto simp: ok_or_def Let_def attempt_st_def split: option.splits sum.splits prod.splits)
qed simp

text \<open>C30: with the default limits the limit on comparisons is slack: it never refuses a resolution,
  because the limit on candidates already bounds the comparisons by six for each of them.\<close>

theorem default_comparison_limit_is_slack:
  assumes "settled nfc L C roles posits db"
  shows "(case information_in_effect C cuts db of
      Inl e \<Rightarrow> e \<noteq> comparison_refusal default_limits
    | Inr res \<Rightarrow> unat (comparison_count (slice_counters res)) \<le> 6 * 1000000)"
proof -
  let ?check = "\<lambda>_ (w :: unit). (Inr () :: unit result, w)"
  let ?r = "resolve_budgeted C ?check ?check db cuts default_limits ()"
  have info: "information_in_effect C cuts db = fst ?r"
    by (simp add: information_in_effect_def information_in_effect_with_limits_def resolve_def)
  obtain idents workspace where cand: "assertion_candidates ?check ?check db () = (Inr (idents, workspace), ())"
    by (simp add: assertion_candidates_def Let_def)
  let ?zero = "no_counters\<lparr>candidate_count := word_of_nat (length idents)\<rparr>"
  obtain er where elig: "eligible_rows C ?check ?check db cuts idents [] workspace ?zero () = (er, ())"
    by (metis (full_types) old.unit.exhaust prod.collapse)
  show ?thesis
  proof (cases "word_of_nat (length idents) > max_candidates default_limits")
    case True
    then have "fst ?r = Inl (ResourceLimit ''effective assertion candidates'' (max_candidates default_limits))"
      by (simp add: resolve_budgeted_def cand no_counters_def)
    then show ?thesis by (simp add: info)
  next
    case few: False
    have run: "?r = attempt_st (er, ()) (\<lambda>(eligible, counters) w.
        let (r, (w, counters)) = reduce_effective C (effect_work ?check default_limits) eligible (w, counters)
        in attempt_st (r, w) (\<lambda>effective w. (Inr \<lparr>slice_cut = cuts,
            slice_assertions = sort_key effect_key effective,
            slice_counters = counters\<lparr>effective_count := word_of_nat (length effective)\<rparr>\<rparr>, w)))"
      using few elig by (simp add: resolve_budgeted_def cand no_counters_def)
    show ?thesis
    proof (cases er)
      case (Inl e)
      have "er \<noteq> Inl (comparison_refusal default_limits)"
        using eligible_rows_not_refused [of C db cuts idents "[]" workspace ?zero "()"
            "''effective temporal comparisons''"] elig by simp
      with Inl show ?thesis by (simp add: info run)
    next
      case (Inr ec)
      obtain eligible counters where ec: "ec = (eligible, counters)" by (cases ec)
      note rows = eligible_rows_are [OF elig [unfolded Inr ec]]
      have count: "length eligible \<le> length idents" "comparison_count counters = 0"
          "candidate_count counters = word_of_nat (length idents)"
        using rows by (simp_all add: no_counters_def length_map_filter)
      have n: "unat (word_of_nat (length idents) :: u64) = length idents"
        by (rule unat_of_nat_u64 [OF candidates_fit [OF assms cand]])
      then have bound: "length idents \<le> 1000000"
        using few by (simp add: default_limits_def word_less_nat_alt)
      obtain r w counters' where red: "reduce_effective C (effect_work ?check default_limits) eligible ((), counters) =
          (r, (w, counters'))" by (metis prod.collapse)
      have "within (\<lambda>s. unat (comparison_count (snd s))) (comparison_refusal default_limits) (6 * length idents)
          (reduce_effective C (effect_work ?check default_limits) eligible ((), counters))"
        by (rule effect.reduce_effective_within) (use count bound in \<open>simp_all add: default_limits_def\<close>)
      then have within: "r \<noteq> Inl (comparison_refusal default_limits)" "unat (comparison_count counters') \<le> 6 * length idents"
        by (simp_all add: within_def red)
      then show ?thesis
        using bound by (cases r) (simp_all add: info run Inr ec red)
    qed
  qed
qed

theorem default_comparison_limit_is_slack_witness:
  "\<exists>db. information_in_effect gregorian sample_cuts db \<noteq> Inl (comparison_refusal default_limits)"
proof -
  obtain db where db: "settled (\<lambda>s. s) plain_lib gregorian builtin_catalogue [] db" "store db = None"
      "lower_bound (generator db) = 5"
    by (rule new_memory_database [OF id_nfc_laws])
  from default_comparison_limit_is_slack [OF db(1), of sample_cuts]
  have "information_in_effect gregorian sample_cuts db \<noteq> Inl (comparison_refusal default_limits)"
    by (auto split: sum.splits)
  then show ?thesis by blast
qed

end
