(* ===== verification/Budget.thy ===== *)
theory Budget
  imports Errors Saturating
begin

text \<open>
  The query budget of \<open>src/traqula/budget.rs\<close>: work units, reservations of workspace memory, and the
  vector whose memory stays reserved.  The counters that every reservation shares through a reference
  count are the budget, threaded through the operations; a reservation holds whether it has them and
  its bytes.  Where the code would panic, on releasing more than is reserved, the result is None.
\<close>

section \<open>Limits and counters\<close>

record query_limits =
  max_work_units :: "u64 option"
  max_memory_bytes :: "u64 option"

definition no_limits :: query_limits where
  "no_limits = \<lparr>max_work_units = None, max_memory_bytes = None\<rparr>"

record budget_state =
  budget_limits :: query_limits
  work_used :: u64
  memory_used :: u64
  memory_peak :: u64

type_synonym query_budget = "budget_state option"

definition new_budget :: "query_limits \<Rightarrow> query_budget" where
  "new_budget limits =
     (if limits \<noteq> no_limits
      then Some \<lparr>budget_limits = limits, work_used = 0, memory_used = 0, memory_peak = 0\<rparr> else None)"

definition tracks_memory :: "query_budget \<Rightarrow> bool" where
  "tracks_memory b = (case b of None \<Rightarrow> False | Some s \<Rightarrow> max_memory_bytes (budget_limits s) \<noteq> None)"

definition charge_work :: "u64 \<Rightarrow> query_budget \<Rightarrow> unit result \<times> query_budget" where
  "charge_work units b =
     (case b of
        None \<Rightarrow> (Inr (), b)
      | Some s \<Rightarrow>
          (case max_work_units (budget_limits s) of
             None \<Rightarrow> (Inr (), b)
           | Some limit \<Rightarrow>
               (case checked_add_u64 (work_used s) units of
                  Some used \<Rightarrow>
                    if used \<le> limit then (Inr (), Some (s\<lparr>work_used := used\<rparr>))
                    else (Inl (ResourceLimit ''query work units'' limit), b)
                | None \<Rightarrow> (Inl (ResourceLimit ''query work units'' limit), b))))"

section \<open>Reservations\<close>

record reservation =
  active :: bool
  reserved_bytes :: u64

definition memory_refusal :: "u64 \<Rightarrow> database_error" where
  "memory_refusal limit = ResourceLimit ''query memory bytes'' limit"

definition checked_sub_u64 :: "u64 \<Rightarrow> u64 \<Rightarrow> u64 option" where
  "checked_sub_u64 a b = (if b \<le> a then Some (a - b) else None)"

definition memory_limit :: "query_budget \<Rightarrow> u64" where
  "memory_limit b = the (max_memory_bytes (budget_limits (the b)))"

definition resize :: "u64 \<Rightarrow> reservation \<times> query_budget \<Rightarrow> unit result \<times> (reservation \<times> query_budget)" where
  "resize bytes = (\<lambda>(r, b).
     if \<not> active r then (Inr (), (r, b))
     else
       let s = the b; limit = memory_limit b
       in case Option.bind (checked_sub_u64 (memory_used s) (reserved_bytes r))
             (\<lambda>others. checked_add_u64 others bytes) of
            Some requested \<Rightarrow>
              if requested \<le> limit
              then (Inr (), (r\<lparr>reserved_bytes := bytes\<rparr>,
                Some (s\<lparr>memory_used := requested, memory_peak := max (memory_peak s) requested\<rparr>)))
              else (Inl (memory_refusal limit), (r, b))
          | None \<Rightarrow> (Inl (memory_refusal limit), (r, b)))"

definition reserve_memory :: "u64 \<Rightarrow> query_budget \<Rightarrow> reservation result \<times> query_budget" where
  "reserve_memory bytes b =
     (let (r, (reservation, b)) = resize bytes (\<lparr>active = tracks_memory b, reserved_bytes = 0\<rparr>, b)
      in case r of Inl e \<Rightarrow> (Inl e, b) | Inr _ \<Rightarrow> (Inr reservation, b))"

definition grow :: "u64 \<Rightarrow> reservation \<times> query_budget \<Rightarrow> unit result \<times> (reservation \<times> query_budget)" where
  "grow bytes = (\<lambda>(r, b).
     if active r then
       case checked_add_u64 (reserved_bytes r) bytes of
         None \<Rightarrow> (Inl (memory_refusal (memory_limit b)), (r, b))
       | Some requested \<Rightarrow> resize requested (r, b)
     else (Inr (), (r, b)))"

definition release_bytes :: "u64 \<Rightarrow> reservation \<times> query_budget \<Rightarrow> (reservation \<times> query_budget) option" where
  "release_bytes bytes = (\<lambda>(r, b).
     if active r then
       if bytes > reserved_bytes r then None
       else case resize (reserved_bytes r - bytes) (r, b) of
         (Inr _, st) \<Rightarrow> Some st
       | (Inl _, _) \<Rightarrow> None
     else Some (r, b))"

text \<open>\<open>Drop\<close>: what is reserved is given back.\<close>

definition drop_reservation :: "reservation \<Rightarrow> query_budget \<Rightarrow> query_budget option" where
  "drop_reservation r b =
     (if active r then
        let s = the b
        in if reserved_bytes r > memory_used s then None
           else Some (Some (s\<lparr>memory_used := memory_used s - reserved_bytes r\<rparr>))
      else Some b)"

section \<open>Vectors\<close>

text \<open>The size of an element and its heap bytes belong to its type, and are arguments.  The allocator
  grants a capacity no smaller than asked for, or nothing.\<close>

type_synonym allocator = "nat \<Rightarrow> nat option"

record 'a budget_vec =
  vec_values :: "'a list"
  vec_capacity :: nat
  vec_memory :: reservation
  vec_payload :: u64

definition heap_sum :: "('a \<Rightarrow> u64) \<Rightarrow> 'a list \<Rightarrow> u64" where
  "heap_sum heap xs = fold (\<lambda>x acc. saturating_add_u64 acc (heap x)) xs 0"

definition vec_bytes :: "u64 \<Rightarrow> nat \<Rightarrow> u64 \<Rightarrow> u64" where
  "vec_bytes width capacity payload =
     saturating_add_u64 (saturating_mul_u64 (word_of_nat capacity) width) payload"

definition new_vec :: "query_budget \<Rightarrow> ('a budget_vec \<times> query_budget) option" where
  "new_vec b = (case reserve_memory 0 b of
     (Inr memory, b) \<Rightarrow> Some (\<lparr>vec_values = [], vec_capacity = 0, vec_memory = memory, vec_payload = 0\<rparr>, b)
   | (Inl _, _) \<Rightarrow> None)"

definition from_vec ::
    "u64 \<Rightarrow> ('a \<Rightarrow> u64) \<Rightarrow> 'a list \<Rightarrow> nat \<Rightarrow> query_budget \<Rightarrow> 'a budget_vec result \<times> query_budget" where
  "from_vec width heap xs capacity b =
     attempt_st (reserve_memory 0 b) (\<lambda>memory b.
     let payload = (if active memory then heap_sum heap xs else 0);
         (r, (memory, b)) = resize (vec_bytes width capacity payload) (memory, b)
     in attempt_st (r, b) (\<lambda>_ b.
        (Inr \<lparr>vec_values = xs, vec_capacity = capacity, vec_memory = memory, vec_payload = payload\<rparr>, b)))"

text \<open>\<open>push\<close>: the reservation is grown before the vector is, and again to what the allocator gave.\<close>

definition next_capacity :: "'a budget_vec \<Rightarrow> nat" where
  "next_capacity v =
     (if length (vec_values v) = vec_capacity v
      then max (min (vec_capacity v * 2) (2 ^ 64 - 1)) 4 else vec_capacity v)"

definition resize_vec ::
    "u64 \<Rightarrow> 'a budget_vec \<times> query_budget \<Rightarrow> unit result \<times> ('a budget_vec \<times> query_budget)" where
  "resize_vec bytes = (\<lambda>(v, b).
     let (r, (memory, b)) = resize bytes (vec_memory v, b) in (r, (v\<lparr>vec_memory := memory\<rparr>, b)))"

definition vec_push ::
    "u64 \<Rightarrow> ('a \<Rightarrow> u64) \<Rightarrow> allocator \<Rightarrow> 'a \<Rightarrow> 'a budget_vec \<times> query_budget
       \<Rightarrow> unit result \<times> ('a budget_vec \<times> query_budget)" where
  "vec_push width heap alloc x = (\<lambda>(v, b).
     if \<not> active (vec_memory v) then (Inr (), (v\<lparr>vec_values := vec_values v @ [x]\<rparr>, b))
     else
       let capacity = next_capacity v;
           payload = saturating_add_u64 (vec_payload v) (heap x)
       in attempt_st (resize_vec (vec_bytes width capacity payload) (v, b)) (\<lambda>_ (v, b).
          attempt_st
            (if capacity > vec_capacity v then
               (case alloc capacity of
                  None \<Rightarrow> (Inl (Execution ''query workspace allocation failed''), (v, b))
                | Some granted \<Rightarrow> (Inr (), (v\<lparr>vec_capacity := granted\<rparr>, b)))
             else (Inr (), (v, b))) (\<lambda>_ (v, b).
          attempt_st (resize_vec (vec_bytes width (vec_capacity v) payload) (v, b)) (\<lambda>_ (v, b).
          (Inr (), (v\<lparr>vec_payload := payload, vec_values := vec_values v @ [x]\<rparr>, b))))))"

fun push_all ::
    "u64 \<Rightarrow> ('a \<Rightarrow> u64) \<Rightarrow> allocator \<Rightarrow> 'a list \<Rightarrow> 'a budget_vec \<times> query_budget
       \<Rightarrow> unit result \<times> ('a budget_vec \<times> query_budget)" where
  "push_all width heap alloc [] st = (Inr (), st)"
| "push_all width heap alloc (x # xs) st =
     attempt_st (vec_push width heap alloc x st) (\<lambda>_ st. push_all width heap alloc xs st)"

definition vec_extend ::
    "u64 \<Rightarrow> ('a \<Rightarrow> u64) \<Rightarrow> allocator \<Rightarrow> 'a list \<Rightarrow> 'a budget_vec \<times> query_budget
       \<Rightarrow> unit result \<times> ('a budget_vec \<times> query_budget)" where
  "vec_extend width heap alloc xs = (\<lambda>(v, b).
     if \<not> active (vec_memory v) then (Inr (), (v\<lparr>vec_values := vec_values v @ xs\<rparr>, b))
     else push_all width heap alloc xs (v, b))"

text \<open>\<open>into_iter\<close> and \<open>next\<close>: every value that is handed out gives its payload back.\<close>

record 'a budget_iter =
  iter_values :: "'a list"
  iter_memory :: reservation

definition into_iter :: "'a budget_vec \<Rightarrow> 'a budget_iter" where
  "into_iter v = \<lparr>iter_values = vec_values v, iter_memory = vec_memory v\<rparr>"

definition iter_next ::
    "('a \<Rightarrow> u64) \<Rightarrow> 'a budget_iter \<times> query_budget \<Rightarrow> ('a option \<times> 'a budget_iter \<times> query_budget) option" where
  "iter_next heap = (\<lambda>(it, b).
     case iter_values it of
       [] \<Rightarrow> Some (None, it, b)
     | x # xs \<Rightarrow>
         (if active (iter_memory it) then
            (case release_bytes (heap x) (iter_memory it, b) of
               None \<Rightarrow> None
             | Some (memory, b) \<Rightarrow> Some (Some x, it\<lparr>iter_values := xs, iter_memory := memory\<rparr>, b))
          else Some (Some x, it\<lparr>iter_values := xs\<rparr>, b)))"

section \<open>Sort work\<close>

definition sort_work :: "nat \<Rightarrow> nat \<Rightarrow> u64" where
  "sort_work rows keys =
     (if rows < 2 then 0
      else saturating_mul_u64
        (saturating_mul_u64 (word_of_nat rows) (word_of_nat (bit_length (rows - 1)))) (word_of_nat keys))"

end
