(* ===== verification/Budget_Properties.thy ===== *)
theory Budget_Properties
  imports Budget
begin

text \<open>
  What the query budget promises: the memory counter is the sum of the live reservations at every
  moment, work is charged up to the limit and not beyond, and a budgeted vector always has its capacity
  and payload reserved, which it gives back as it is consumed.
\<close>

section \<open>The ledger\<close>

text \<open>The live reservations and the budget they share, and the steps that queries make on them.\<close>

type_synonym ledger = "reservation list \<times> query_budget"

inductive ledger_step :: "ledger \<Rightarrow> ledger \<Rightarrow> bool" where
  step_reserve: "reserve_memory bytes b = (Inr r, b') \<Longrightarrow> ledger_step (rs, b) (r # rs, b')"
| step_refuse: "reserve_memory bytes b = (Inl e, b') \<Longrightarrow> ledger_step (rs, b) (rs, b')"
| step_resize: "resize bytes (r, b) = (res, (r', b')) \<Longrightarrow> ledger_step (xs @ r # ys, b) (xs @ r' # ys, b')"
| step_grow: "grow bytes (r, b) = (res, (r', b')) \<Longrightarrow> ledger_step (xs @ r # ys, b) (xs @ r' # ys, b')"
| step_release: "release_bytes bytes (r, b) = Some (r', b') \<Longrightarrow>
    ledger_step (xs @ r # ys, b) (xs @ r' # ys, b')"
| step_drop: "drop_reservation r b = Some b' \<Longrightarrow> ledger_step (xs @ r # ys, b) (xs @ ys, b')"
| step_work: "charge_work units b = (res, b') \<Longrightarrow> ledger_step (rs, b) (rs, b')"

definition reserved_sum :: "reservation list \<Rightarrow> nat" where
  "reserved_sum rs = sum_list (map (\<lambda>r. unat (reserved_bytes r)) rs)"

lemma reserved_sum_simps [simp]:
  "reserved_sum [] = 0" "reserved_sum (r # rs) = unat (reserved_bytes r) + reserved_sum rs"
  "reserved_sum (rs @ rs') = reserved_sum rs + reserved_sum rs'"
  by (simp_all add: reserved_sum_def)

definition counted :: "query_limits \<Rightarrow> reservation \<Rightarrow> bool" where
  "counted limits r =
     ((active r \<longleftrightarrow> max_memory_bytes limits \<noteq> None) \<and> (\<not> active r \<longrightarrow> reserved_bytes r = 0))"

definition ledger_ok :: "query_limits \<Rightarrow> ledger \<Rightarrow> bool" where
  "ledger_ok limits = (\<lambda>(rs, b).
     (b = None \<longrightarrow> limits = no_limits) \<and> (\<forall>r \<in> set rs. counted limits r)
     \<and> (\<forall>s. b = Some s \<longrightarrow> budget_limits s = limits
          \<and> unat (memory_used s) = reserved_sum rs \<and> memory_used s \<le> memory_peak s
          \<and> (\<forall>limit. max_memory_bytes limits = Some limit \<longrightarrow> memory_peak s \<le> limit)
          \<and> (\<forall>limit. max_work_units limits = Some limit \<longrightarrow> work_used s \<le> limit)))"

lemma ledger_ok_None: "ledger_ok limits (rs, None) \<longleftrightarrow> limits = no_limits \<and> (\<forall>r \<in> set rs. counted limits r)"
  by (simp add: ledger_ok_def)

lemma ledger_okI:
  assumes "\<And>r. r \<in> set rs \<Longrightarrow> counted limits r"
    and "budget_limits s = limits" and "unat (memory_used s) = reserved_sum rs"
    and "memory_used s \<le> memory_peak s"
    and "\<And>limit. max_memory_bytes limits = Some limit \<Longrightarrow> memory_peak s \<le> limit"
    and "\<And>limit. max_work_units limits = Some limit \<Longrightarrow> work_used s \<le> limit"
  shows "ledger_ok limits (rs, Some s)"
  using assms by (simp add: ledger_ok_def)

lemma ledger_okD:
  assumes "ledger_ok limits (rs, Some s)"
  shows "\<And>r. r \<in> set rs \<Longrightarrow> counted limits r"
    and "budget_limits s = limits" and "unat (memory_used s) = reserved_sum rs"
    and "memory_used s \<le> memory_peak s"
    and "\<And>limit. max_memory_bytes limits = Some limit \<Longrightarrow> memory_peak s \<le> limit"
    and "\<And>limit. max_work_units limits = Some limit \<Longrightarrow> work_used s \<le> limit"
  using assms unfolding ledger_ok_def by simp_all

lemma ledger_counted: "ledger_ok limits (rs, b) \<Longrightarrow> r \<in> set rs \<Longrightarrow> counted limits r"
  unfolding ledger_ok_def by blast

lemma ledger_tracks: "ledger_ok limits (rs, b) \<Longrightarrow> tracks_memory b \<longleftrightarrow> max_memory_bytes limits \<noteq> None"
  by (cases b) (simp_all add: ledger_ok_def tracks_memory_def no_limits_def)

lemma active_tracks:
  assumes ok: "ledger_ok limits (rs, b)" and "r \<in> set rs" and "active r"
  obtains s limit where "b = Some s" and "max_memory_bytes (budget_limits s) = Some limit"
proof -
  have "tracks_memory b"
    using ledger_tracks [OF ok] ledger_counted [OF assms(1,2)] assms(3) by (simp add: counted_def)
  with that show thesis by (auto simp: tracks_memory_def split: option.splits)
qed

lemma new_ledger_ok: "ledger_ok limits ([], new_budget limits)"
  by (simp add: ledger_ok_def new_budget_def)

text \<open>One resize, of any reservation of the ledger.\<close>

lemma resize_ledger:
  assumes ok: "ledger_ok limits (xs @ r # ys, b)" and run: "resize bytes (r, b) = (res, (r', b'))"
  shows "ledger_ok limits (xs @ r' # ys, b')"
    and "res = Inr () \<Longrightarrow> active r \<Longrightarrow> r' = r\<lparr>reserved_bytes := bytes\<rparr>"
    and "res \<noteq> Inr () \<Longrightarrow> r' = r \<and> b' = b"
proof -
  have same: "r' = r \<and> b' = b" if "\<not> active r \<or> res \<noteq> Inr ()"
    using run that by (auto simp: resize_def Let_def split: option.splits if_splits)
  show "res \<noteq> Inr () \<Longrightarrow> r' = r \<and> b' = b" using same by blast
  show "res = Inr () \<Longrightarrow> active r \<Longrightarrow> r' = r\<lparr>reserved_bytes := bytes\<rparr>"
    using run by (auto simp: resize_def Let_def split: option.splits if_splits)
  show "ledger_ok limits (xs @ r' # ys, b')"
  proof (cases "active r \<and> res = Inr ()")
    case False
    then have "r' = r \<and> b' = b" using same by blast
    then show ?thesis using ok by simp
  next
    case True
    obtain s limit where b: "b = Some s" and limit: "max_memory_bytes (budget_limits s) = Some limit"
      by (rule active_tracks [OF ok, of r]) (use True in auto)
    note o = ledger_okD [OF ok [unfolded b]]
    obtain others requested where steps: "checked_sub_u64 (memory_used s) (reserved_bytes r) = Some others"
        "checked_add_u64 others bytes = Some requested" "requested \<le> limit"
      and r': "r' = r\<lparr>reserved_bytes := bytes\<rparr>"
      and b': "b' = Some (s\<lparr>memory_used := requested, memory_peak := max (memory_peak s) requested\<rparr>)"
      using run True b limit
      by (auto simp: resize_def Let_def memory_limit_def bind_eq_Some_conv split: option.splits if_splits)
    have "unat others = unat (memory_used s) - unat (reserved_bytes r)"
      using steps(1) by (auto simp: checked_sub_u64_def unat_sub split: if_splits)
    then have sum: "unat requested = reserved_sum (xs @ r' # ys)"
      using unat_checked_add_u64 [OF steps(2)] o(3) r' by simp
    have "counted limits r" using o(1) by simp
    then have "counted limits r'" using True r' by (simp add: counted_def)
    then have all: "counted limits x" if "x \<in> set (xs @ r' # ys)" for x using that o(1) by auto
    have peak: "max (memory_peak s) requested \<le> l" if "max_memory_bytes limits = Some l" for l
      using that o(5) [OF that] limit o(2) steps(3) by simp
    show ?thesis unfolding b'
      by (rule ledger_okI) (use all o(2) sum peak o(6) in simp_all)
  qed
qed

lemma reserve_ledger:
  assumes ok: "ledger_ok limits (rs, b)" and run: "reserve_memory bytes b = (res, b')"
  shows "res = Inr r \<Longrightarrow> ledger_ok limits (r # rs, b')" and "res = Inl e \<Longrightarrow> ledger_ok limits (rs, b')"
proof -
  let ?r = "\<lparr>active = tracks_memory b, reserved_bytes = 0\<rparr>"
  obtain x r1 b1 where rz: "resize bytes (?r, b) = (x, (r1, b1))" by (metis prod.collapse)
  have "counted limits ?r" using ledger_tracks [OF ok] by (simp add: counted_def)
  with ok have "ledger_ok limits ([] @ ?r # rs, b)" unfolding ledger_ok_def by simp
  note o = resize_ledger [OF this rz]
  show "res = Inl e \<Longrightarrow> ledger_ok limits (rs, b')"
    using o(3) run rz ok by (cases x) (simp_all add: reserve_memory_def)
  show "res = Inr r \<Longrightarrow> ledger_ok limits (r # rs, b')"
    using o(1) run rz by (cases x) (simp_all add: reserve_memory_def)
qed

lemma release_is_resize:
  "release_bytes bytes (r, b) = Some (r', b') \<Longrightarrow> active r \<Longrightarrow>
     resize (reserved_bytes r - bytes) (r, b) = (Inr (), (r', b'))"
  by (auto simp: release_bytes_def split: if_splits prod.splits sum.splits)

lemma drop_ledger:
  assumes ok: "ledger_ok limits (xs @ r # ys, b)"
  obtains b' where "drop_reservation r b = Some b'" and "ledger_ok limits (xs @ ys, b')"
proof (cases b)
  case None
  with ok have "\<not> active r" by (simp add: ledger_ok_None counted_def no_limits_def)
  then have "drop_reservation r b = Some b" by (simp add: drop_reservation_def)
  moreover have "ledger_ok limits (xs @ ys, b)" using ok unfolding None ledger_ok_None by auto
  ultimately show thesis using that by blast
next
  case (Some s)
  note o = ledger_okD [OF ok [unfolded Some]]
  define left where "left = memory_used s - reserved_bytes r"
  have le: "reserved_bytes r \<le> memory_used s" using o(3) by (simp add: word_le_nat_alt)
  then have diff: "unat left = reserved_sum (xs @ ys)" using o(3) by (simp add: unat_sub left_def)
  then have "left \<le> memory_used s" using o(3) by (simp add: word_le_nat_alt)
  with o(4) have "left \<le> memory_peak s" by (rule order_trans [rotated])
  then have "ledger_ok limits (xs @ ys, Some (s\<lparr>memory_used := left\<rparr>))"
    by (intro ledger_okI) (use o diff in simp_all)
  moreover have "drop_reservation r b = Some (Some (s\<lparr>memory_used := left\<rparr>))"
  proof (cases "active r")
    case True
    with le Some show ?thesis by (simp add: drop_reservation_def left_def not_less)
  next
    case False
    then have "reserved_bytes r = 0" using o(1) [of r] by (simp add: counted_def)
    with False Some show ?thesis by (simp add: drop_reservation_def left_def)
  qed
  ultimately show thesis using that by blast
qed

lemma work_ledger:
  assumes ok: "ledger_ok limits (rs, b)" and run: "charge_work units b = (res, b')"
  shows "ledger_ok limits (rs, b')"
proof (cases "b' = b")
  case True
  with ok show ?thesis by simp
next
  case False
  then obtain s limit used where b: "b = Some s" and limit: "max_work_units (budget_limits s) = Some limit"
    and used: "used \<le> limit" and b': "b' = Some (s\<lparr>work_used := used\<rparr>)"
    using run by (auto simp: charge_work_def split: option.splits if_splits)
  note o = ledger_okD [OF ok [unfolded b]]
  have "used \<le> l" if "max_work_units limits = Some l" for l using that limit used o(2) by simp
  then show ?thesis unfolding b'
    by (intro ledger_okI) (use o in simp_all)
qed

lemma ledger_step_ok:
  "ledger_step st st' \<Longrightarrow> ledger_ok limits st \<Longrightarrow> ledger_ok limits st'"
proof (induction rule: ledger_step.induct)
  case (step_reserve bytes b r b' rs)
  then show ?case using reserve_ledger(1) by blast
next
  case (step_refuse bytes b e b' rs)
  then show ?case using reserve_ledger(2) by blast
next
  case (step_resize bytes r b res r' b' xs ys)
  then show ?case using resize_ledger(1) by blast
next
  case (step_grow bytes r b res r' b' xs ys)
  show ?case
  proof (cases "active r \<and> checked_add_u64 (reserved_bytes r) bytes \<noteq> None")
    case True
    then obtain n where "resize n (r, b) = (res, (r', b'))"
      using step_grow(1) by (auto simp: grow_def)
    then show ?thesis using resize_ledger(1) [OF step_grow(2)] by blast
  next
    case False
    then have "r' = r \<and> b' = b" using step_grow(1) by (auto simp: grow_def split: if_splits)
    then show ?thesis using step_grow(2) by simp
  qed
next
  case (step_release bytes r b r' b' xs ys)
  show ?case
  proof (cases "active r")
    case True
    from resize_ledger(1) [OF step_release(2) release_is_resize [OF step_release(1) True]] show ?thesis .
  next
    case False
    then show ?thesis using step_release by (simp add: release_bytes_def)
  qed
next
  case (step_drop r b b' xs ys)
  then show ?case using drop_ledger [OF step_drop(2)] by auto
next
  case (step_work units b res b' rs)
  then show ?case using work_ledger by blast
qed

lemma reachable_ledger_ok: "ledger_step\<^sup>*\<^sup>* ([], new_budget limits) st \<Longrightarrow> ledger_ok limits st"
  by (induction rule: rtranclp_induct) (auto intro: new_ledger_ok ledger_step_ok)

text \<open>C31: the memory account of a query is exact.  In every state that reservations, resizes, refusals,
  releases and drops can lead to, in any order, the counter of reserved memory is the sum of the live
  reservations, the peak is between it and the limit, the work used is within its limit, and every
  reservation can be dropped without an underflow.\<close>

theorem memory_account_exact:
  assumes "ledger_step\<^sup>*\<^sup>* ([], new_budget limits) (rs, Some s)"
  shows "unat (memory_used s) = sum_list (map (\<lambda>r. unat (reserved_bytes r)) rs)
    \<and> memory_used s \<le> memory_peak s
    \<and> (\<forall>limit. max_memory_bytes limits = Some limit \<longrightarrow> memory_peak s \<le> limit)
    \<and> (\<forall>limit. max_work_units limits = Some limit \<longrightarrow> work_used s \<le> limit)
    \<and> (\<forall>r \<in> set rs. drop_reservation r (Some s) \<noteq> None)"
proof -
  have ok: "ledger_ok limits (rs, Some s)" by (rule reachable_ledger_ok [OF assms])
  have "drop_reservation r (Some s) \<noteq> None" if r: "r \<in> set rs" for r
  proof -
    obtain xs ys where "rs = xs @ r # ys" using r by (meson split_list)
    with ok drop_ledger [of limits xs r ys "Some s"] show ?thesis by auto
  qed
  then show ?thesis using ledger_okD(3-6) [OF ok] by (simp add: reserved_sum_def)
qed

definition sample_limits :: query_limits where
  "sample_limits = \<lparr>max_work_units = Some 10, max_memory_bytes = Some 100\<rparr>"

theorem memory_account_exact_witness:
  "\<exists>r s. reserve_memory 60 (new_budget sample_limits) = (Inr r, Some (s :: budget_state))
     \<and> memory_used s = 60 \<and> unat (memory_used s) = sum_list (map (\<lambda>r. unat (reserved_bytes r)) [r])
     \<and> drop_reservation r (Some s) \<noteq> None"
proof -
  let ?r = "\<lparr>active = True, reserved_bytes = 60\<rparr> :: reservation"
  let ?s = "\<lparr>budget_limits = sample_limits, work_used = 0, memory_used = 60, memory_peak = 60\<rparr> :: budget_state"
  have run: "reserve_memory 60 (new_budget sample_limits) = (Inr ?r, Some ?s)"
    by (simp add: reserve_memory_def resize_def new_budget_def sample_limits_def no_limits_def tracks_memory_def
        memory_limit_def checked_sub_u64_def checked_add_u64_def)
  then have "ledger_step\<^sup>*\<^sup>* ([], new_budget sample_limits) ([?r], Some ?s)"
    by (intro r_into_rtranclp step_reserve)
  from memory_account_exact [OF this] run show ?thesis by (intro exI [of _ ?r] exI [of _ ?s]) simp
qed

section \<open>Work\<close>

lemma unat_add_u64: "unat a + unat b < 2 ^ 64 \<Longrightarrow> unat (a + b :: u64) = unat a + unat b"
  by (simp add: unat_word_ariths)

text \<open>A sequence of charges, which the first refusal ends.\<close>

fun charge_all :: "u64 list \<Rightarrow> query_budget \<Rightarrow> unit result \<times> query_budget" where
  "charge_all [] b = (Inr (), b)"
| "charge_all (u # us) b = attempt_st (charge_work u b) (\<lambda>_ b. charge_all us b)"

lemma charge_all_unlimited:
  "(\<And>s. b = Some s \<Longrightarrow> max_work_units (budget_limits s) = None) \<Longrightarrow> charge_all us b = (Inr (), b)"
  by (induction us) (auto simp: charge_work_def split: option.splits)

lemma charge_work_limited:
  assumes "max_work_units (budget_limits s) = Some limit"
  shows "charge_work u (Some s) =
    (if unat (work_used s) + unat u \<le> unat limit then (Inr (), Some (s\<lparr>work_used := work_used s + u\<rparr>))
     else (Inl (ResourceLimit ''query work units'' limit), Some s))"
proof (cases "unat (work_used s) + unat u < 2 ^ 64")
  case True
  then have "unat (work_used s + u) = unat (work_used s) + unat u" by (simp add: unat_add_u64)
  then show ?thesis
    using assms True by (simp add: charge_work_def checked_add_u64_def word_le_nat_alt)
next
  case False
  moreover have "unat limit < 2 ^ 64" by (rule unat_u64_less)
  ultimately show ?thesis using assms by (simp add: charge_work_def checked_add_u64_def)
qed

lemma charge_all_limited:
  assumes "max_work_units (budget_limits s) = Some limit" and "unat (work_used s) \<le> unat limit"
  shows "if unat (work_used s) + sum_list (map unat us) \<le> unat limit
    then charge_all us (Some s) = (Inr (), Some (s\<lparr>work_used := work_used s + sum_list us\<rparr>))
    else fst (charge_all us (Some s)) = Inl (ResourceLimit ''query work units'' limit)"
  using assms
proof (induction us arbitrary: s)
  case (Cons u us)
  show ?case
  proof (cases "unat (work_used s) + unat u \<le> unat limit")
    case True
    let ?s = "s\<lparr>work_used := work_used s + u\<rparr>"
    have "unat limit < 2 ^ 64" by (rule unat_u64_less)
    with True have sum: "unat (work_used s + u) = unat (work_used s) + unat u" by (simp add: unat_add_u64)
    with Cons.IH [of ?s] Cons.prems True
    have "if unat (work_used s) + unat u + sum_list (map unat us) \<le> unat limit
      then charge_all us (Some ?s) = (Inr (), Some (?s\<lparr>work_used := work_used s + u + sum_list us\<rparr>))
      else fst (charge_all us (Some ?s)) = Inl (ResourceLimit ''query work units'' limit)" by simp
    then show ?thesis
      using True by (simp add: charge_work_limited [OF Cons.prems(1)] attempt_st_def add.assoc split: if_splits)
  next
    case False
    then show ?thesis by (simp add: charge_work_limited [OF Cons.prems(1)] attempt_st_def)
  qed
qed simp

text \<open>C33: work is charged exactly.  From a new budget, a sequence of charges is accepted if and only if
  their sum, taken without wrapping around, does not exceed the work limit; the budget then holds that
  sum, and otherwise the error names the limit.  Without a work limit every sequence is accepted.\<close>

theorem work_charged_exactly:
  "case max_work_units limits of
     None \<Rightarrow> charge_all us (new_budget limits) = (Inr (), new_budget limits)
   | Some limit \<Rightarrow>
       (if sum_list (map unat us) \<le> unat limit
        then \<exists>s. charge_all us (new_budget limits) = (Inr (), Some s) \<and> unat (work_used s) = sum_list (map unat us)
        else fst (charge_all us (new_budget limits)) = Inl (ResourceLimit ''query work units'' limit))"
proof (cases "max_work_units limits")
  case None
  then have "charge_all us (new_budget limits) = (Inr (), new_budget limits)"
    by (intro charge_all_unlimited) (auto simp: new_budget_def split: if_splits)
  with None show ?thesis by simp
next
  case (Some limit)
  let ?s = "\<lparr>budget_limits = limits, work_used = 0, memory_used = 0, memory_peak = 0\<rparr>"
  have new: "new_budget limits = Some ?s" using Some by (auto simp: new_budget_def no_limits_def)
  have words: "unat (sum_list us) = sum_list (map unat us)" if "sum_list (map unat us) \<le> unat limit"
    using that
  proof (induction us)
    case (Cons u us)
    moreover have "unat limit < 2 ^ 64" by (rule unat_u64_less)
    ultimately show ?case by (simp add: unat_add_u64)
  qed simp
  show ?thesis
    using charge_all_limited [of ?s limit us] Some words by (auto simp: new split: if_splits)
qed

section \<open>Vectors\<close>

text \<open>The allocator grants at least the capacity it is asked for, and less than \<open>isize\<close> can count.\<close>

definition grants_requests :: "allocator \<Rightarrow> bool" where
  "grants_requests alloc \<longleftrightarrow> (\<forall>n granted. alloc n = Some granted \<longrightarrow> n \<le> granted \<and> granted < 2 ^ 63)"

definition vec_ok :: "u64 \<Rightarrow> ('a \<Rightarrow> u64) \<Rightarrow> 'a budget_vec \<Rightarrow> bool" where
  "vec_ok width heap v \<longleftrightarrow> (active (vec_memory v) \<longrightarrow>
     vec_payload v = heap_sum heap (vec_values v)
     \<and> reserved_bytes (vec_memory v) = vec_bytes width (vec_capacity v) (vec_payload v)
     \<and> length (vec_values v) \<le> vec_capacity v \<and> vec_capacity v < 2 ^ 63)"

lemma heap_sum_snoc: "heap_sum heap (xs @ [x]) = saturating_add_u64 (heap_sum heap xs) (heap x)"
  by (simp add: heap_sum_def)

lemma resize_active: "resize bytes (r, b) = (res, (r', b')) \<Longrightarrow> active r' = active r"
  by (auto simp: resize_def Let_def split: option.splits if_splits)

lemma resize_Inr_active:
  "resize bytes (r, b) = (Inr u, (r', b')) \<Longrightarrow> active r \<Longrightarrow> reserved_bytes r' = bytes"
  by (auto simp: resize_def Let_def split: option.splits if_splits)

lemma resize_vec_cases:
  assumes "resize_vec bytes (v, b) = (res, (v', b'))"
  obtains m where "v' = v\<lparr>vec_memory := m\<rparr>" and "active m = active (vec_memory v)"
    and "res = Inr () \<Longrightarrow> active (vec_memory v) \<Longrightarrow> reserved_bytes m = bytes"
proof -
  obtain r m b1 where "resize bytes (vec_memory v, b) = (r, (m, b1))" by (metis prod.collapse)
  with assms that [of m] show thesis
    by (auto simp: resize_vec_def dest: resize_active resize_Inr_active)
qed

lemma next_capacity_grows:
  "length (vec_values v) = vec_capacity v \<Longrightarrow> vec_capacity v < 2 ^ 63 \<Longrightarrow> vec_capacity v < next_capacity v"
  by (cases "vec_capacity v = 0") (simp_all add: next_capacity_def)

lemma vec_push_steps:
  assumes push: "vec_push width heap alloc x (v, b) = (Inr (), (v', b'))" and "active (vec_memory v)"
    and payload: "payload = saturating_add_u64 (vec_payload v) (heap x)" and c: "c = next_capacity v"
  obtains v1 b1 k v3
  where "resize_vec (vec_bytes width c payload) (v, b) = (Inr (), (v1, b1))"
    and "if c > vec_capacity v1 then alloc c = Some k else k = vec_capacity v1"
    and "resize_vec (vec_bytes width k payload) (v1\<lparr>vec_capacity := k\<rparr>, b1) = (Inr (), (v3, b'))"
    and "v' = v3\<lparr>vec_payload := payload, vec_values := vec_values v3 @ [x]\<rparr>"
proof -
  obtain v1 b1 where first: "resize_vec (vec_bytes width c payload) (v, b) = (Inr (), (v1, b1))"
    using push assms(2) by (auto simp: vec_push_def Let_def attempt_st_eq_Inr c payload)
  have same: "v1\<lparr>vec_capacity := vec_capacity v1\<rparr> = v1" by simp
  obtain k where k: "if c > vec_capacity v1 then alloc c = Some k else k = vec_capacity v1"
    and rest: "attempt_st (resize_vec (vec_bytes width k payload) (v1\<lparr>vec_capacity := k\<rparr>, b1))
        (\<lambda>_ (v, b). (Inr (), (v\<lparr>vec_payload := payload, vec_values := vec_values v @ [x]\<rparr>, b))) = (Inr (), (v', b'))"
  proof (cases "c > vec_capacity v1")
    case True
    then obtain k where "alloc c = Some k"
      using push assms(2) first by (auto simp: vec_push_def Let_def c payload split: option.splits)
    with that [of k] push assms(2) first True show thesis by (simp add: vec_push_def Let_def c payload)
  next
    case False
    with that [of "vec_capacity v1"] push assms(2) first same show thesis
      by (simp add: vec_push_def Let_def c payload)
  qed
  with that [OF first k] show thesis by (auto simp: attempt_st_eq_Inr)
qed

lemma vec_push_Inr:
  assumes push: "vec_push width heap alloc x (v, b) = (Inr (), (v', b'))" and ok: "vec_ok width heap v"
    and grants: "grants_requests alloc"
  shows "vec_values v' = vec_values v @ [x] \<and> vec_ok width heap v'
    \<and> active (vec_memory v') = active (vec_memory v)"
proof (cases "active (vec_memory v)")
  case False
  with push show ?thesis by (auto simp: vec_push_def vec_ok_def)
next
  case True
  define payload where "payload = saturating_add_u64 (vec_payload v) (heap x)"
  define c where "c = next_capacity v"
  obtain v1 b1 k v3 where first: "resize_vec (vec_bytes width c payload) (v, b) = (Inr (), (v1, b1))"
    and k1: "if c > vec_capacity v1 then alloc c = Some k else k = vec_capacity v1"
    and second: "resize_vec (vec_bytes width k payload) (v1\<lparr>vec_capacity := k\<rparr>, b1) = (Inr (), (v3, b'))"
    and v': "v' = v3\<lparr>vec_payload := payload, vec_values := vec_values v3 @ [x]\<rparr>"
    by (rule vec_push_steps [OF push True payload_def c_def])
  obtain m1 where v1: "v1 = v\<lparr>vec_memory := m1\<rparr>" "active m1"
    by (rule resize_vec_cases [OF first]) (use True in auto)
  from k1 v1 have k: "if c > vec_capacity v then alloc c = Some k else k = vec_capacity v" by simp
  obtain m3 where v3: "v3 = v1\<lparr>vec_capacity := k, vec_memory := m3\<rparr>" "active m3"
      "reserved_bytes m3 = vec_bytes width k payload"
    by (rule resize_vec_cases [OF second]) (use v1 in auto)
  have old: "length (vec_values v) \<le> vec_capacity v" "vec_capacity v < 2 ^ 63"
    using ok True by (simp_all add: vec_ok_def)
  have "length (vec_values v) < k \<and> k < 2 ^ 63"
  proof (cases "c > vec_capacity v")
    case True
    with k grants have "c \<le> k \<and> k < 2 ^ 63" unfolding grants_requests_def by auto
    with True old show ?thesis by linarith
  next
    case False
    with next_capacity_grows [of v] old have "length (vec_values v) \<noteq> vec_capacity v" by (auto simp: c_def)
    with False k old show ?thesis by simp
  qed
  with v1 v3 v' ok True show ?thesis
    by (simp add: vec_ok_def heap_sum_snoc payload_def)
qed

lemma push_all_Inr:
  assumes "grants_requests alloc"
  shows "push_all width heap alloc xs (v, b) = (Inr (), (v', b')) \<Longrightarrow> vec_ok width heap v \<Longrightarrow>
    vec_values v' = vec_values v @ xs \<and> vec_ok width heap v' \<and> active (vec_memory v') = active (vec_memory v)"
proof (induction xs arbitrary: v b)
  case (Cons x xs)
  then obtain v1 b1 where "vec_push width heap alloc x (v, b) = (Inr (), (v1, b1))"
    and "push_all width heap alloc xs (v1, b1) = (Inr (), (v', b'))"
    by (auto simp: attempt_st_eq_Inr)
  with vec_push_Inr [OF _ Cons.prems(2) assms] Cons.IH show ?case by fastforce
qed simp

lemma vec_extend_Inr:
  assumes "vec_extend width heap alloc xs (v, b) = (Inr (), (v', b'))" and "vec_ok width heap v"
    and "grants_requests alloc"
  shows "vec_values v' = vec_values v @ xs \<and> vec_ok width heap v'
    \<and> active (vec_memory v') = active (vec_memory v)"
proof (cases "active (vec_memory v)")
  case True
  with assms(1) have "push_all width heap alloc xs (v, b) = (Inr (), (v', b'))" by (simp add: vec_extend_def)
  from push_all_Inr [OF assms(3) this assms(2)] show ?thesis .
next
  case False
  with assms(1) show ?thesis by (auto simp: vec_extend_def vec_ok_def)
qed

text \<open>Pushing keeps the ledger, whatever the outcome.\<close>

lemma resize_vec_ledger:
  assumes "ledger_ok limits (rs @ vec_memory v # rs', b)" and "resize_vec bytes (v, b) = (res, (v', b'))"
  shows "ledger_ok limits (rs @ vec_memory v' # rs', b')"
proof -
  obtain r m b1 where run: "resize bytes (vec_memory v, b) = (r, (m, b1))" by (metis prod.collapse)
  with resize_ledger(1) [OF assms(1) run] assms(2) show ?thesis by (auto simp: resize_vec_def)
qed

lemma vec_push_ledger:
  assumes ok: "ledger_ok limits (rs @ vec_memory v # rs', b)"
    and push: "vec_push width heap alloc x (v, b) = (Inr (), (v', b'))"
  shows "ledger_ok limits (rs @ vec_memory v' # rs', b')"
proof (cases "active (vec_memory v)")
  case False
  with push ok show ?thesis by (auto simp: vec_push_def)
next
  case True
  obtain v1 b1 k v3 payload c where first: "resize_vec (vec_bytes width c payload) (v, b) = (Inr (), (v1, b1))"
    and second: "resize_vec (vec_bytes width k payload) (v1\<lparr>vec_capacity := k\<rparr>, b1) = (Inr (), (v3, b'))"
    and v': "v' = v3\<lparr>vec_payload := payload, vec_values := vec_values v3 @ [x]\<rparr>"
    by (rule vec_push_steps [OF push True refl refl])
  have "ledger_ok limits (rs @ vec_memory (v1\<lparr>vec_capacity := k\<rparr>) # rs', b1)"
    using resize_vec_ledger [OF ok first] by simp
  from resize_vec_ledger [OF this second] show ?thesis by (simp add: v')
qed

lemma vec_extend_ledger:
  assumes ok: "ledger_ok limits (rs @ vec_memory v # rs', b)"
    and run: "vec_extend width heap alloc xs (v, b) = (Inr (), (v', b'))"
  shows "ledger_ok limits (rs @ vec_memory v' # rs', b')"
proof -
  have "push_all width heap alloc xs (v, b) = (Inr (), (v', b')) \<Longrightarrow> ?thesis" using ok
  proof (induction xs arbitrary: v b)
    case (Cons x xs)
    then obtain v1 b1 where "vec_push width heap alloc x (v, b) = (Inr (), (v1, b1))"
      and "push_all width heap alloc xs (v1, b1) = (Inr (), (v', b'))"
      by (auto simp: attempt_st_eq_Inr)
    with vec_push_ledger [OF Cons.prems(2)] Cons.IH show ?case by blast
  qed simp
  with run ok show ?thesis by (auto simp: vec_extend_def split: if_splits)
qed

lemma new_vec_ok:
  assumes "new_vec b = Some (v, b')" and "ledger_ok limits (rs, b)"
  shows "vec_values v = [] \<and> vec_ok width heap v \<and> ledger_ok limits (vec_memory v # rs, b')"
proof -
  let ?r = "\<lparr>active = tracks_memory b, reserved_bytes = 0\<rparr>"
  obtain r where run: "reserve_memory 0 b = (Inr r, b')"
    and v: "v = \<lparr>vec_values = [], vec_capacity = 0, vec_memory = r, vec_payload = 0\<rparr>"
    using assms(1) by (auto simp: new_vec_def split: prod.splits sum.splits)
  obtain x r1 b1 where rz: "resize 0 (?r, b) = (x, (r1, b1))" by (metis prod.collapse)
  then have "r1 = r \<and> x = Inr ()" using run by (auto simp: reserve_memory_def split: sum.splits)
  then have "reserved_bytes r = 0"
    using rz by (auto simp: resize_def Let_def split: option.splits if_splits)
  then show ?thesis using v reserve_ledger(1) [OF assms(2) run]
    by (simp add: vec_ok_def heap_sum_def vec_bytes_def saturating_mul_u64_def saturating_add_u64_def)
qed

lemma new_vec_total:
  assumes ok: "ledger_ok limits (rs, b)"
  shows "\<exists>v b'. new_vec b = Some (v, b')"
proof (cases "tracks_memory b")
  case False
  then show ?thesis by (simp add: new_vec_def reserve_memory_def resize_def)
next
  case True
  then obtain s limit where s: "b = Some s" "max_memory_bytes (budget_limits s) = Some limit"
    by (auto simp: tracks_memory_def split: option.splits)
  note o = ledger_okD [OF ok [unfolded s(1)]]
  have "memory_used s \<le> limit" using o(2,4) o(5) s(2) by (auto intro: order_trans)
  moreover have "checked_add_u64 (memory_used s) 0 = Some (memory_used s)"
    using unat_u64_less [of "memory_used s"] by (simp add: checked_add_u64_def)
  ultimately show ?thesis using s True
    by (simp add: new_vec_def reserve_memory_def resize_def memory_limit_def checked_sub_u64_def)
qed

section \<open>Draining\<close>

text \<open>Taking the next value again and again, at most so many times.\<close>

fun drain ::
    "('a \<Rightarrow> u64) \<Rightarrow> nat \<Rightarrow> 'a budget_iter \<times> query_budget \<Rightarrow> ('a list \<times> 'a budget_iter \<times> query_budget) option" where
  "drain heap 0 st = Some ([], st)"
| "drain heap (Suc n) st =
     (case iter_next heap st of
        None \<Rightarrow> None
      | Some (None, st) \<Rightarrow> Some ([], st)
      | Some (Some x, st) \<Rightarrow> (case drain heap n st of None \<Rightarrow> None | Some (xs, st) \<Rightarrow> Some (x # xs, st)))"

definition payload_sum :: "('a \<Rightarrow> u64) \<Rightarrow> 'a list \<Rightarrow> nat" where
  "payload_sum heap xs = sum_list (map (\<lambda>x. unat (heap x)) xs)"

lemma unat_heap_sum: "unat (heap_sum heap xs) = min (payload_sum heap xs) (2 ^ 64 - 1)"
  by (induction xs rule: rev_induct)
    (simp_all add: heap_sum_snoc payload_sum_def unat_saturating_add heap_sum_def)

lemma vec_bytes_exact:
  assumes "vec_bytes width n (heap_sum heap xs) \<noteq> - 1" and "n < 2 ^ 63"
  shows "unat (vec_bytes width n (heap_sum heap xs)) = n * unat width + payload_sum heap xs"
proof -
  let ?b = "vec_bytes width n (heap_sum heap xs)"
  have "unat (word_of_nat n :: u64) = n" using assms(2) by (simp add: unsigned_of_nat take_bit_nat_eq_self)
  then have eq: "unat ?b = min (min (n * unat width) (2 ^ 64 - 1) + min (payload_sum heap xs) (2 ^ 64 - 1)) (2 ^ 64 - 1)"
    by (simp only: vec_bytes_def unat_saturating_add unat_saturating_mul unat_heap_sum)
  have "unat ?b \<noteq> 2 ^ 64 - 1" using assms(1) unat_max_u64 by (metis word_unat_eq_iff)
  with eq show ?thesis unfolding min_def by (auto split: if_splits)
qed

lemma shrink_succeeds:
  assumes ok: "ledger_ok limits (rs @ r # rs', b)" and "active r" and "bytes \<le> reserved_bytes r"
  shows "\<exists>b'. resize bytes (r, b) = (Inr (), (r\<lparr>reserved_bytes := bytes\<rparr>, b'))"
proof -
  obtain s limit where b: "b = Some s" and limit: "max_memory_bytes (budget_limits s) = Some limit"
    by (rule active_tracks [OF ok, of r]) (use assms in auto)
  note o = ledger_okD [OF ok [unfolded b]]
  have le: "reserved_bytes r \<le> memory_used s" using o(3) by (simp add: word_le_nat_alt)
  have bytes: "unat bytes \<le> unat (reserved_bytes r)" using assms(3) by (simp add: word_le_nat_alt)
  let ?others = "memory_used s - reserved_bytes r"
  have others: "unat ?others = unat (memory_used s) - unat (reserved_bytes r)" using le by (simp add: unat_sub)
  have le': "unat (reserved_bytes r) \<le> unat (memory_used s)" using le by (simp add: word_le_nat_alt)
  have sum: "unat ?others + unat bytes \<le> unat (memory_used s)" using others bytes le' by linarith
  then have fits: "unat ?others + unat bytes < 2 ^ 64" using unat_u64_less [of "memory_used s"] by linarith
  then have "?others + bytes \<le> memory_used s" using sum by (simp add: word_le_nat_alt unat_add_u64)
  moreover have "memory_used s \<le> limit" using o(2,4) o(5) limit by (auto intro: order_trans)
  ultimately have "?others + bytes \<le> limit" by (rule order_trans)
  with b limit le fits assms(2) show ?thesis
    by (simp add: resize_def memory_limit_def checked_sub_u64_def checked_add_u64_def del: diff_add_cancel)
qed

lemma iter_next_value:
  assumes ok: "ledger_ok limits (rs @ iter_memory it # rs', b)" and vals: "iter_values it = x # xs"
    and bytes: "active (iter_memory it) \<Longrightarrow> unat (reserved_bytes (iter_memory it)) = base + payload_sum heap (x # xs)"
  obtains it' b' where "iter_next heap (it, b) = Some (Some x, it', b')" and "iter_values it' = xs"
    and "ledger_ok limits (rs @ iter_memory it' # rs', b')"
    and "active (iter_memory it') \<Longrightarrow> unat (reserved_bytes (iter_memory it')) = base + payload_sum heap xs"
proof (cases "active (iter_memory it)")
  case False
  show thesis
    by (rule that [of "it\<lparr>iter_values := xs\<rparr>" b]) (use False ok vals in \<open>simp_all add: iter_next_def\<close>)
next
  case True
  let ?r = "iter_memory it"
  have le: "unat (heap x) \<le> unat (reserved_bytes ?r)" using bytes True by (simp add: payload_sum_def)
  then have word: "heap x \<le> reserved_bytes ?r" by (simp add: word_le_nat_alt)
  then have left: "unat (reserved_bytes ?r - heap x) = base + payload_sum heap xs"
    using bytes True le by (simp add: unat_sub payload_sum_def)
  have small: "reserved_bytes ?r - heap x \<le> reserved_bytes ?r" using left le bytes True
    by (simp add: word_le_nat_alt payload_sum_def)
  obtain b' where run: "resize (reserved_bytes ?r - heap x) (?r, b)
      = (Inr (), (?r\<lparr>reserved_bytes := reserved_bytes ?r - heap x\<rparr>, b'))"
    using shrink_succeeds [OF ok True small] by blast
  show thesis
    by (rule that [of "it\<lparr>iter_values := xs, iter_memory := ?r\<lparr>reserved_bytes := reserved_bytes ?r - heap x\<rparr>\<rparr>" b'])
      (use True word run vals left resize_ledger(1) [OF ok run] in
        \<open>simp_all add: iter_next_def release_bytes_def not_less\<close>)
qed

lemma drain_values:
  assumes "ledger_ok limits (rs @ iter_memory it # rs', b)"
    and "active (iter_memory it) \<Longrightarrow>
      unat (reserved_bytes (iter_memory it)) = base + payload_sum heap (iter_values it)"
  shows "\<exists>it' b'. drain heap (length (iter_values it)) (it, b) = Some (iter_values it, it', b')
    \<and> iter_values it' = [] \<and> ledger_ok limits (rs @ iter_memory it' # rs', b')
    \<and> (active (iter_memory it') \<longrightarrow> unat (reserved_bytes (iter_memory it')) = base)"
  using assms
proof (induction "iter_values it" arbitrary: it b)
  case Nil
  then show ?case by (simp add: payload_sum_def)
next
  case (Cons x xs)
  obtain it' b' where step: "iter_next heap (it, b) = Some (Some x, it', b')" and v: "iter_values it' = xs"
    and rest: "ledger_ok limits (rs @ iter_memory it' # rs', b')"
      "active (iter_memory it') \<Longrightarrow> unat (reserved_bytes (iter_memory it')) = base + payload_sum heap xs"
    by (rule iter_next_value [OF Cons.prems(1) Cons.hyps(2) [symmetric]]) (use Cons in auto)
  from Cons.hyps(1) [OF v [symmetric] rest(1)] rest(2) v
  obtain it2 b2 where "drain heap (length xs) (it', b') = Some (xs, it2, b2)" and "iter_values it2 = []"
    and "ledger_ok limits (rs @ iter_memory it2 # rs', b2)"
    and "active (iter_memory it2) \<longrightarrow> unat (reserved_bytes (iter_memory it2)) = base" by auto
  with step Cons.hyps(2) [symmetric] show ?case by auto
qed

text \<open>C32: the life of a budgeted vector.  From a new budget with a memory limit below the largest
  number, a vector can be created; if values can be put into it, iterating over it yields exactly those
  values in their order and never panics, then nothing; and dropping the iterator brings the memory
  counter back to zero.\<close>

theorem budgeted_vector_returns_everything:
  assumes grants: "grants_requests alloc" and limit: "max_memory_bytes limits \<noteq> Some (- 1)"
    and new: "new_vec (new_budget limits) = Some (v, b)"
    and extend: "vec_extend width heap alloc xs (v, b) = (Inr (), (v', b'))"
  shows "\<exists>it b2 b3. drain heap (length xs) (into_iter v', b') = Some (xs, it, b2)
    \<and> iter_next heap (it, b2) = Some (None, it, b2)
    \<and> drop_reservation (iter_memory it) b2 = Some b3 \<and> (\<forall>s. b3 = Some s \<longrightarrow> memory_used s = 0)"
proof -
  note n = new_vec_ok [OF new new_ledger_ok, where width = width and heap = heap]
  have "ledger_ok limits ([] @ vec_memory v # [], b)" using n by simp
  from vec_extend_ledger [OF this extend] have ok: "ledger_ok limits ([] @ vec_memory v' # [], b')" .
  have v': "vec_values v' = xs" "vec_ok width heap v'" using vec_extend_Inr [OF extend _ grants] n by auto
  let ?it = "into_iter v'" and ?base = "vec_capacity v' * unat width"
  have it: "iter_values ?it = xs" "iter_memory ?it = vec_memory v'" using v' by (simp_all add: into_iter_def)
  have bytes: "unat (reserved_bytes (vec_memory v')) = ?base + payload_sum heap xs" if act: "active (vec_memory v')"
  proof -
    obtain s l where b': "b' = Some s" "max_memory_bytes (budget_limits s) = Some l"
      by (rule active_tracks [OF ok, of "vec_memory v'"]) (use act in auto)
    note o = ledger_okD [OF ok [unfolded b'(1)]]
    have "unat (reserved_bytes (vec_memory v')) = unat (memory_used s)" using o(3) by simp
    moreover have "memory_used s \<le> l" using o(2,4) o(5) b'(2) by (auto intro: order_trans)
    moreover have "l \<noteq> - 1" using limit o(2) b'(2) by auto
    ultimately have "reserved_bytes (vec_memory v') \<noteq> - 1" by (metis word_order.extremum_unique word_unat_eq_iff)
    then show ?thesis using vec_bytes_exact [of width "vec_capacity v'" heap xs] v' act by (simp add: vec_ok_def)
  qed
  from drain_values [of limits "[]" ?it "[]" b' ?base heap] ok bytes it
  obtain it2 b2 where d: "drain heap (length xs) (?it, b') = Some (xs, it2, b2)" "iter_values it2 = []"
    and ok2: "ledger_ok limits ([] @ iter_memory it2 # [], b2)" by auto
  obtain b3 where drop: "drop_reservation (iter_memory it2) b2 = Some b3" and ok3: "ledger_ok limits ([] @ [], b3)"
    by (rule drop_ledger [OF ok2])
  have "memory_used s = 0" if "b3 = Some s" for s
    using ledger_okD(3) [of limits "[] @ []" s] ok3 that by (simp add: unat_eq_0)
  with d drop show ?thesis by (auto simp: iter_next_def)
qed

definition sample_alloc :: allocator where
  "sample_alloc n = (if n \<le> 100 then Some n else None)"

theorem budgeted_vector_returns_everything_witness:
  "\<exists>v b v' b'. new_vec (new_budget sample_limits) = Some (v, b)
     \<and> vec_extend 8 id sample_alloc [7, 9] (v, b) = (Inr (), (v', b'))
     \<and> (\<exists>it b2. drain id 2 (into_iter v', b') = Some ([7, 9], it, b2))"
proof -
  let ?s = "\<lambda>used. Some \<lparr>budget_limits = sample_limits, work_used = 0, memory_used = used, memory_peak = used\<rparr>"
  let ?v = "\<lambda>xs capacity used payload. \<lparr>vec_values = xs, vec_capacity = capacity,
    vec_memory = \<lparr>active = True, reserved_bytes = used\<rparr>, vec_payload = payload\<rparr>"
  have new: "new_vec (new_budget sample_limits) = Some (?v [] 0 0 0, ?s 0)"
    by (simp add: new_vec_def reserve_memory_def resize_def new_budget_def sample_limits_def no_limits_def
        tracks_memory_def memory_limit_def checked_sub_u64_def checked_add_u64_def)
  have resize: "resize bytes (\<lparr>active = True, reserved_bytes = used\<rparr>, ?s used)
      = (Inr (), (\<lparr>active = True, reserved_bytes = bytes\<rparr>, ?s bytes))"
    if "used \<le> bytes" and "bytes \<le> 100" for used bytes
    using that by (simp add: resize_def sample_limits_def memory_limit_def checked_sub_u64_def checked_add_u64_def
        unat_u64_less [simplified])
  have bytes: "vec_bytes 8 4 7 = 39" "vec_bytes 8 4 16 = 48"
    by (simp_all add: vec_bytes_def saturating_add_u64_def saturating_mul_u64_def)
  have payload: "saturating_add_u64 0 7 = 7" "saturating_add_u64 7 9 = 16"
    by (simp_all add: saturating_add_u64_def)
  have capacity: "next_capacity (?v ([] :: u64 list) 0 0 0) = 4" "next_capacity (?v [7 :: u64] 4 39 7) = 4"
    by (simp_all add: next_capacity_def)
  have first: "vec_push 8 id sample_alloc 7 (?v [] 0 0 0, ?s 0) = (Inr (), (?v [7] 4 39 7, ?s 39))"
    using resize [of 0 39] resize [of 39 39] capacity(1)
    by (simp add: vec_push_def Let_def resize_vec_def bytes payload sample_alloc_def)
  have second: "vec_push 8 id sample_alloc 9 (?v [7] 4 39 7, ?s 39) = (Inr (), (?v [7, 9] 4 48 16, ?s 48))"
    using resize [of 39 48] resize [of 48 48] capacity(2)
    by (simp add: vec_push_def Let_def resize_vec_def bytes payload)
  have push: "vec_extend 8 id sample_alloc [7, 9] (?v [] 0 0 0, ?s 0) = (Inr (), (?v [7, 9] 4 48 16, ?s 48))"
    using first second by (simp add: vec_extend_def)
  have "grants_requests sample_alloc" by (simp add: grants_requests_def sample_alloc_def)
  moreover have "max_memory_bytes sample_limits \<noteq> Some (- 1)" by (simp add: sample_limits_def)
  ultimately obtain it b2 where "drain id (length [7, 9 :: u64]) (into_iter (?v [7, 9] 4 48 16), ?s 48) = Some ([7, 9], it, b2)"
    using budgeted_vector_returns_everything [OF _ _ new push] by blast
  then have "drain id 2 (into_iter (?v [7, 9] 4 48 16), ?s 48) = Some ([7, 9], it, b2)"
    by (simp only: list.size One_nat_def numeral_2_eq_2 plus_nat.add_0 add_Suc_right add_0_right)
  with new push show ?thesis by blast
qed

end
