(* ===== verification/Visiting.thy ===== *)
theory Visiting
  imports Errors
begin

text \<open>
  Row by row evaluation in \<open>src/traqula/query.rs\<close>: a producer hands each row to a visitor, which answers
  whether to go on, and both may fail.  A visitor changes what it captured, so it takes and returns a
  state.  What a producer does is described by its trace, the rows it would hand out and how it would
  end; feeding a trace to a visitor is what running the producer with that visitor does.
\<close>

section \<open>Producers and visitors\<close>

datatype sink_flow = Continue | Stop

type_synonym ('a, 's) visitor = "'a \<Rightarrow> 's \<Rightarrow> sink_flow result \<times> 's"

fun visit_all :: "('a, 's) visitor \<Rightarrow> 'a list \<Rightarrow> 's \<Rightarrow> sink_flow result \<times> 's" where
  "visit_all f [] s = (Inr Continue, s)"
| "visit_all f (x # xs) s =
     attempt_st (f x s) (\<lambda>flow s. if flow = Stop then (Inr Stop, s) else visit_all f xs s)"

lemma visit_all_cong [fundef_cong]:
  "xs = ys \<Longrightarrow> (\<And>y s. y \<in> set ys \<Longrightarrow> f y s = g y s) \<Longrightarrow> s = t \<Longrightarrow> visit_all f xs s = visit_all g ys t"
proof -
  assume "xs = ys" and "s = t" and "\<And>y s. y \<in> set ys \<Longrightarrow> f y s = g y s"
  then show ?thesis by (induction ys arbitrary: xs s t) (auto intro!: attempt_st_cong)
qed

lemma visit_all_append:
  "visit_all f (xs @ ys) s =
     attempt_st (visit_all f xs s) (\<lambda>flow s. if flow = Stop then (Inr Stop, s) else visit_all f ys s)"
  by (induction xs arbitrary: s) (auto simp: attempt_st_def split: prod.splits sum.splits)

section \<open>Traces\<close>

type_synonym 'a trace = "'a list \<times> unit result"

definition feed :: "'a trace \<Rightarrow> ('a, 's) visitor \<Rightarrow> 's \<Rightarrow> sink_flow result \<times> 's" where
  "feed tr visit s =
     attempt_st (visit_all visit (fst tr) s) (\<lambda>flow s.
       if flow = Stop then (Inr Stop, s)
       else (case snd tr of Inl e \<Rightarrow> Inl e | Inr _ \<Rightarrow> Inr Continue, s))"

fun bind_rows :: "'a list \<Rightarrow> unit result \<Rightarrow> ('a \<Rightarrow> 'b trace) \<Rightarrow> 'b trace" where
  "bind_rows [] r f = ([], r)"
| "bind_rows (x # xs) r f =
     (case f x of
        (ys, Inl e) \<Rightarrow> (ys, Inl e)
      | (ys, Inr _) \<Rightarrow> let (zs, r') = bind_rows xs r f in (ys @ zs, r'))"

definition trace_bind :: "'a trace \<Rightarrow> ('a \<Rightarrow> 'b trace) \<Rightarrow> 'b trace" where
  "trace_bind tr f = bind_rows (fst tr) (snd tr) f"

definition one_row :: "'a \<Rightarrow> 'a trace" where
  "one_row x = ([x], Inr ())"

definition no_rows :: "'a trace" where
  "no_rows = ([], Inr ())"

definition failed :: "database_error \<Rightarrow> 'a trace" where
  "failed e = ([], Inl e)"

lemma feed_Nil: "feed ([], r) visit s = (case r of Inl e \<Rightarrow> Inl e | Inr _ \<Rightarrow> Inr Continue, s)"
  by (simp add: feed_def)

lemma feed_Cons:
  "feed (x # xs, r) visit s =
     attempt_st (visit x s) (\<lambda>flow s. if flow = Stop then (Inr Stop, s) else feed (xs, r) visit s)"
  by (auto simp: feed_def attempt_st_def split: prod.splits sum.splits)

lemma feed_append:
  "feed (xs @ ys, r) visit s =
     attempt_st (feed (xs, Inr ()) visit s)
       (\<lambda>flow s. if flow = Stop then (Inr Stop, s) else feed (ys, r) visit s)"
  by (induction xs arbitrary: s)
    (auto simp: feed_Nil feed_Cons attempt_st_def split: prod.splits sum.splits)

lemma feed_failing:
  "feed (xs, Inl e) visit s =
     attempt_st (feed (xs, Inr ()) visit s)
       (\<lambda>flow s. if flow = Stop then (Inr Stop, s) else (Inl e, s))"
  using feed_append [of xs "[]" "Inl e" visit s] by (simp add: feed_Nil cong: if_cong)

lemma feed_one_row [simp]: "feed (one_row x) visit s = visit x s"
proof (cases "visit x s")
  case (Pair r t)
  show ?thesis
  proof (cases r)
    case (Inr flow)
    with Pair show ?thesis by (cases flow) (simp_all add: one_row_def feed_Cons feed_Nil)
  qed (simp add: Pair one_row_def feed_Cons)
qed

lemma feed_no_rows [simp]: "feed no_rows visit s = (Inr Continue, s)"
  by (simp add: feed_Nil no_rows_def)

lemma feed_failed [simp]: "feed (failed e) visit s = (Inl e, s)"
  by (simp add: feed_Nil failed_def)

lemma feed_bind_rows:
  "feed (bind_rows xs r f) visit s = feed (xs, r) (\<lambda>x. feed (f x) visit) s"
proof (induction xs arbitrary: s)
  case (Cons x xs)
  obtain ys r1 where fx: "f x = (ys, r1)" by (cases "f x") auto
  obtain zs r2 where rest: "bind_rows xs r f = (zs, r2)" by (cases "bind_rows xs r f") auto
  have step: "feed (zs, r2) visit t = feed (xs, r) (\<lambda>x. feed (f x) visit) t" for t
    using Cons.IH rest by simp
  obtain v t where run: "feed (ys, Inr ()) visit s = (v, t)" by (cases "feed (ys, Inr ()) visit s") auto
  show ?case
  proof (cases r1)
    case (Inl e)
    then show ?thesis using fx run by (cases v) (auto simp: feed_Cons feed_failing)
  next
    case (Inr u)
    then show ?thesis using fx rest run step by (simp add: feed_Cons feed_append cong: if_cong)
  qed
qed (simp add: feed_Nil)

lemma feed_trace_bind: "feed (trace_bind tr f) visit s = feed tr (\<lambda>x. feed (f x) visit) s"
  by (simp add: trace_bind_def feed_bind_rows)

lemma visit_all_is_feed: "visit_all visit xs s = feed (xs, Inr ()) visit s"
  by (induction xs arbitrary: s) (simp_all add: feed_Nil feed_Cons cong: if_cong)

lemma visit_all_feed: "visit_all (\<lambda>x. feed (f x) visit) xs s = feed (trace_bind (xs, Inr ()) f) visit s"
  by (simp add: feed_trace_bind visit_all_is_feed)

text \<open>Collecting the rows of a trace: all of them, or the error it ends with.\<close>

definition collected :: "'a trace \<Rightarrow> 'a list result" where
  "collected tr = (case snd tr of Inl e \<Rightarrow> Inl e | Inr _ \<Rightarrow> Inr (fst tr))"

lemma feed_collect:
  "(\<And>x acc. visit x acc = (Inr Continue, acc @ [x])) \<Longrightarrow>
     feed tr visit acc = (case snd tr of Inl e \<Rightarrow> Inl e | Inr _ \<Rightarrow> Inr Continue, acc @ fst tr)"
proof -
  assume v: "\<And>x acc. visit x acc = (Inr Continue, acc @ [x])"
  have "visit_all visit xs acc = (Inr Continue, acc @ xs)" for xs acc
    by (induction xs arbitrary: acc) (simp_all add: v)
  then show ?thesis by (simp add: feed_def)
qed

text \<open>The traces without an error are the lists, and binding them concatenates.\<close>

lemma trace_bind_lists:
  assumes "\<And>x. x \<in> set xs \<Longrightarrow> f x = (g x, Inr ())"
  shows "trace_bind (xs, Inr ()) f = (concat (map g xs), Inr ())"
  using assms by (induction xs) (simp_all add: trace_bind_def)

end
