(* ===== verification/Query.thy ===== *)
theory Query
  imports Visiting Database
begin

text \<open>
  The relations of a query (\<open>src/traqula/query.rs\<close>): the values a variable may have, bindings, the
  patterns of a search, and how a pattern matches the appearances and the fields of a posit.  A
  binding is the sorted association list a \<open>BTreeMap\<close> iterates.  Work and workspace accounting is that
  of \<open>Budget\<close> and is left out here: this is the evaluation of a query without limits.
\<close>

section \<open>Values of variables\<close>

datatype query_domain =
  ThingDomain | RoleDomain | PositDomain | AppearanceSetDomain | LiteralDomain | TimeDomain

fun domain_label :: "query_domain \<Rightarrow> string" where
  "domain_label ThingDomain = ''Thing''"
| "domain_label RoleDomain = ''Role''"
| "domain_label PositDomain = ''Posit''"
| "domain_label AppearanceSetDomain = ''AppearanceSet''"
| "domain_label LiteralDomain = ''LiteralValue''"
| "domain_label TimeDomain = ''Time''"

datatype bound_value =
    BoundThing thing
  | BoundRole role
  | BoundPosit thing
  | BoundSet appearance_set
  | BoundLiteral literal
  | BoundTime time

fun domain_of :: "bound_value \<Rightarrow> query_domain" where
  "domain_of (BoundThing _) = ThingDomain"
| "domain_of (BoundRole _) = RoleDomain"
| "domain_of (BoundPosit _) = PositDomain"
| "domain_of (BoundSet _) = AppearanceSetDomain"
| "domain_of (BoundLiteral _) = LiteralDomain"
| "domain_of (BoundTime _) = TimeDomain"

text \<open>The derived \<open>Eq\<close>: roles are compared by identity, appearance sets by their appearances, literals
  by token.\<close>

fun same_value :: "bound_value \<Rightarrow> bound_value \<Rightarrow> bool" where
  "same_value (BoundThing t) (BoundThing u) = (t = u)"
| "same_value (BoundRole r) (BoundRole q) = (role_thing r = role_thing q)"
| "same_value (BoundPosit t) (BoundPosit u) = (t = u)"
| "same_value (BoundSet s) (BoundSet t) = (set_key s = set_key t)"
| "same_value (BoundLiteral x) (BoundLiteral y) = exactly_equals x y"
| "same_value (BoundTime t) (BoundTime u) = (t = u)"
| "same_value _ _ = False"

datatype result_cell_kind =
  ThingCell | RoleCell | PositCell | AppearanceSetCell | LiteralCell | TimeCell

record result_cell =
  cell_kind :: result_cell_kind
  cell_text :: string

definition show_appearance :: "appearance \<Rightarrow> string" where
  "show_appearance a =
     ''('' @ show_nat (unat (app_thing a)) @ '', '' @ label (app_role a) @ '')''"

definition show_appearance_set :: "appearance_set \<Rightarrow> string" where
  "show_appearance_set s = ''{'' @ butlast (concat (map (\<lambda>a. show_appearance a @ '','') s)) @ ''}''"

fun value_cell :: "chrono \<Rightarrow> bound_value \<Rightarrow> result_cell" where
  "value_cell C (BoundThing t) = \<lparr>cell_kind = ThingCell, cell_text = show_nat (unat t)\<rparr>"
| "value_cell C (BoundRole r) = \<lparr>cell_kind = RoleCell, cell_text = label r\<rparr>"
| "value_cell C (BoundPosit t) = \<lparr>cell_kind = PositCell, cell_text = show_nat (unat t)\<rparr>"
| "value_cell C (BoundSet s) = \<lparr>cell_kind = AppearanceSetCell, cell_text = show_appearance_set s\<rparr>"
| "value_cell C (BoundLiteral x) = \<lparr>cell_kind = LiteralCell, cell_text = token x\<rparr>"
| "value_cell C (BoundTime t) = \<lparr>cell_kind = TimeCell, cell_text = show_time C t\<rparr>"

section \<open>Bindings\<close>

type_synonym binding = "(string \<times> bound_value) list"

definition binding_get :: "string \<Rightarrow> binding \<Rightarrow> bound_value option" where
  "binding_get name b = map_of b name"

fun binding_insert :: "string \<Rightarrow> bound_value \<Rightarrow> binding \<Rightarrow> binding" where
  "binding_insert name v [] = [(name, v)]"
| "binding_insert name v ((m, w) # b) =
     (if name < m then (name, v) # (m, w) # b
      else if name = m then (name, v) # b
      else (m, w) # binding_insert name v b)"

definition same_binding :: "binding \<Rightarrow> binding \<Rightarrow> bool" where
  "same_binding b c = list_all2 (\<lambda>(n, v) (m, w). n = m \<and> same_value v w) b c"

definition domain_error :: "string \<Rightarrow> query_domain \<Rightarrow> query_domain \<Rightarrow> database_error" where
  "domain_error name known other = VariableDomain name (domain_label known) (domain_label other)"

text \<open>\<open>bind\<close>: None is the answer that the value does not fit, after which no caller uses the binding.\<close>

definition bind_variable :: "string \<Rightarrow> bound_value \<Rightarrow> binding \<Rightarrow> binding option result" where
  "bind_variable name v b =
     (case binding_get name b of
        None \<Rightarrow> Inr (Some (binding_insert name v b))
      | Some existing \<Rightarrow>
          (case (existing, v) of
             (BoundThing t, BoundPosit u) \<Rightarrow> Inr (if t = u then Some (binding_insert name v b) else None)
           | (BoundPosit t, BoundThing u) \<Rightarrow> Inr (if t = u then Some b else None)
           | _ \<Rightarrow>
               if domain_of existing \<noteq> domain_of v
               then Inl (domain_error name (domain_of existing) (domain_of v))
               else Inr (if same_value existing v then Some b else None)))"

text \<open>The next step, when there is a binding.\<close>

definition attempt_some :: "'a option result \<Rightarrow> ('a \<Rightarrow> 'b option result) \<Rightarrow> 'b option result" where
  "attempt_some r f = attempt r (\<lambda>x. case x of None \<Rightarrow> Inr None | Some x \<Rightarrow> f x)"

section \<open>Patterns\<close>

datatype thing_slot = AnyThing | ThingVariable string | LegacyThing string | OneOf "string list"

datatype role_slot = AnyRole | NamedRole string | RoleVariable string

record appearance_pattern =
  thing_pattern :: thing_slot
  role_pattern :: role_slot

record appearance_set_pattern =
  set_binding :: "string option"
  set_members :: "appearance_pattern list"
  open_set :: bool
  any_set :: bool

datatype value_slot = AnyValue | ValueVariable string | LegacyValue string | ValueLiteral literal

datatype time_slot = AnyTime | TimeVariable string | LegacyTime string | TimeLiteral time

datatype cutoff = CutoffTime time | CutoffVariable string

datatype posit_pattern = PositPattern
    (pat_posit: "string option")
    (pat_appearances: appearance_set_pattern)
    (pat_value: value_slot)
    (pat_time: time_slot)
    (pat_cutoff: "cutoff option")
    (pat_latest_matching: bool)
    (pat_effect: "effect_pattern option")
  and effect_pattern = EffectPattern
    (assertion_cutoff: cutoff)
    (appearance_cutoff: cutoff)
    (effect_via: "posit_pattern option")

datatype operand = OperandVariable string | OperandLiteral literal | OperandTime time

record query_predicate =
  pred_left :: string
  pred_operator :: string
  pred_right :: operand

record order_item =
  order_variable :: string
  descending :: bool

section \<open>Matching appearances\<close>

fun one_of :: "thing \<Rightarrow> string list \<Rightarrow> binding \<Rightarrow> bool \<Rightarrow> bool result" where
  "one_of t [] b found = Inr found"
| "one_of t (name # names) b found =
     (case binding_get name b of
        Some (BoundThing u) \<Rightarrow> one_of t names b (found \<or> u = t)
      | Some (BoundPosit u) \<Rightarrow> one_of t names b (found \<or> u = t)
      | Some other \<Rightarrow> Inl (domain_error name (domain_of other) ThingDomain)
      | None \<Rightarrow> Inl (InvalidRecall name))"

fun match_thing :: "thing_slot \<Rightarrow> thing \<Rightarrow> binding \<Rightarrow> binding option result" where
  "match_thing AnyThing t b = Inr (Some b)"
| "match_thing (ThingVariable name) t b = bind_variable name (BoundThing t) b"
| "match_thing (LegacyThing name) t b = bind_variable name (BoundThing t) b"
| "match_thing (OneOf names) t b =
     attempt (one_of t names b False) (\<lambda>found. Inr (if found then Some b else None))"

fun match_role :: "role_slot \<Rightarrow> role \<Rightarrow> binding \<Rightarrow> binding option result" where
  "match_role AnyRole r b = Inr (Some b)"
| "match_role (NamedRole name) r b = Inr (if label r = name then Some b else None)"
| "match_role (RoleVariable name) r b = bind_variable name (BoundRole r) b"

definition match_appearance ::
    "appearance_pattern \<Rightarrow> appearance \<Rightarrow> binding \<Rightarrow> binding option result" where
  "match_appearance p a b =
     attempt_some (match_thing (thing_pattern p) (app_thing a) b)
       (match_role (role_pattern p) (app_role a))"

text \<open>Every way to match the members of a pattern to different appearances.\<close>

fun match_members ::
    "appearance_pattern list \<Rightarrow> appearance list \<Rightarrow> bool list \<Rightarrow> binding \<Rightarrow> (binding, 's) visitor
       \<Rightarrow> 's \<Rightarrow> sink_flow result \<times> 's" where
  "match_members [] stored used b visit s = visit b s"
| "match_members (p # ps) stored used b visit s =
     visit_all (\<lambda>(i, a) s.
       if used ! i then (Inr Continue, s)
       else attempt_st (match_appearance p a b, s) (\<lambda>next s.
         case next of
           None \<Rightarrow> (Inr Continue, s)
         | Some next \<Rightarrow> match_members ps stored (used[i := True]) next visit s))
       (enumerate 0 stored) s"

text \<open>With more than one appearance stored, two ways may give the same binding, which is visited once.\<close>

definition visit_unique :: "nat \<Rightarrow> (binding, 's) visitor \<Rightarrow> (binding, binding list \<times> 's) visitor" where
  "visit_unique n visit b = (\<lambda>(seen, s).
     if n > 1 then
       if list_ex (same_binding b) seen then (Inr Continue, (seen, s))
       else let (r, s) = visit b s in (r, (b # seen, s))
     else let (r, s) = visit b s in (r, (seen, s)))"

definition visit_appearance_set ::
    "appearance_set_pattern \<Rightarrow> appearance_set \<Rightarrow> binding \<Rightarrow> (binding, 's) visitor \<Rightarrow> 's
       \<Rightarrow> sink_flow result \<times> 's" where
  "visit_appearance_set p stored input visit s =
     attempt_st (case set_binding p of
         None \<Rightarrow> Inr (Some input)
       | Some name \<Rightarrow> bind_variable name (BoundSet stored) input, s) (\<lambda>bound s.
     case bound of
       None \<Rightarrow> (Inr Continue, s)
     | Some b \<Rightarrow>
         if any_set p then visit b s
         else if \<not> open_set p \<and> length (set_members p) \<noteq> length stored then (Inr Continue, s)
         else if length (set_members p) > length stored then (Inr Continue, s)
         else
           let (r, (_, s)) = match_members (set_members p) stored (replicate (length stored) False) b
             (visit_unique (length stored) visit) ([], s)
           in (r, s))"

definition collect_row :: "('a, 'a list) visitor" where
  "collect_row x acc = (Inr Continue, acc @ [x])"

definition match_appearance_set ::
    "appearance_set_pattern \<Rightarrow> appearance_set \<Rightarrow> binding \<Rightarrow> binding list result" where
  "match_appearance_set p stored input =
     (case visit_appearance_set p stored input collect_row [] of
        (Inl e, _) \<Rightarrow> Inl e
      | (Inr _, rows) \<Rightarrow> Inr rows)"

section \<open>Matching fields\<close>

definition match_fields ::
    "'n literal_lib \<Rightarrow> posit_pattern \<Rightarrow> posit \<Rightarrow> binding \<Rightarrow> binding option result" where
  "match_fields L p q b =
     attempt_some (case pat_posit p of
         None \<Rightarrow> Inr (Some b)
       | Some name \<Rightarrow> bind_variable name (BoundPosit (pthing q)) b) (\<lambda>b.
     attempt_some (case pat_value p of
         AnyValue \<Rightarrow> Inr (Some b)
       | ValueVariable name \<Rightarrow> bind_variable name (BoundLiteral (pvalue q)) b
       | LegacyValue name \<Rightarrow> bind_variable name (BoundLiteral (pvalue q)) b
       | ValueLiteral x \<Rightarrow>
           (case nominally_equals L (pvalue q) x of
              Inl e \<Rightarrow> Inl (Comparison e)
            | Inr same \<Rightarrow> Inr (if same then Some b else None))) (\<lambda>b.
     case pat_time p of
       AnyTime \<Rightarrow> Inr (Some b)
     | TimeVariable name \<Rightarrow> bind_variable name (BoundTime (ptime q)) b
     | LegacyTime name \<Rightarrow> bind_variable name (BoundTime (ptime q)) b
     | TimeLiteral t \<Rightarrow> Inr (if ptime q = t then Some b else None)))"

section \<open>Predicates\<close>

fun ordering_matches :: "ordering \<Rightarrow> string \<Rightarrow> bool" where
  "ordering_matches Less op = (op = ''<'' \<or> op = ''<='')"
| "ordering_matches Equal op = (op = ''<='' \<or> op = ''>='')"
| "ordering_matches Greater op = (op = ''>'' \<or> op = ''>='')"

definition identity_comparison :: "thing \<Rightarrow> string \<Rightarrow> thing \<Rightarrow> bool result" where
  "identity_comparison t op u =
     (if op \<in> {''==='', ''='', ''?=''} then Inr (t = u)
      else Inl (Comparison ''identity values support equality only''))"

definition compare_literals :: "'n :: linorder literal_lib \<Rightarrow> literal \<Rightarrow> string \<Rightarrow> literal \<Rightarrow> bool result" where
  "compare_literals L x op y =
     (case
        (if op = ''==='' then Inr (exactly_equals x y)
         else if op = ''='' then nominally_equals L x y
         else if op = ''?='' then possibly_equals L x y
         else if op \<in> {''<'', ''<='', ''>'', ''>=''} then
           (case semantic_cmp L x y of
              Inl e \<Rightarrow> Inl ''Ordering comparison not allowed''
            | Inr r \<Rightarrow> Inr (ordering_matches r op))
         else Inl ''unknown operator'') of
        Inl e \<Rightarrow> Inl (Comparison e)
      | Inr r \<Rightarrow> Inr r)"

definition compare_times :: "chrono \<Rightarrow> time \<Rightarrow> string \<Rightarrow> time \<Rightarrow> bool result" where
  "compare_times C t op u =
     (if op = ''==='' \<or> op = ''='' then Inr (t = u)
      else if op = ''?='' then Inr (overlaps C t u)
      else if op = ''<'' then Inr (definitely_before C t u)
      else if op = ''<='' then Inr (definitely_at_or_before C t u)
      else if op = ''>'' then Inr (definitely_after C t u)
      else if op = ''>='' then Inr (definitely_at_or_after C t u)
      else Inl (Comparison ''unknown operator''))"

fun compare_values ::
    "'n :: linorder literal_lib \<Rightarrow> chrono \<Rightarrow> bound_value \<Rightarrow> string \<Rightarrow> bound_value \<Rightarrow> bool result" where
  "compare_values L C (BoundLiteral x) op (BoundLiteral y) = compare_literals L x op y"
| "compare_values L C (BoundTime t) op (BoundTime u) = compare_times C t op u"
| "compare_values L C (BoundThing t) op (BoundThing u) = identity_comparison t op u"
| "compare_values L C (BoundThing t) op (BoundPosit u) = identity_comparison t op u"
| "compare_values L C (BoundPosit t) op (BoundThing u) = identity_comparison t op u"
| "compare_values L C (BoundPosit t) op (BoundPosit u) = identity_comparison t op u"
| "compare_values L C (BoundRole r) op (BoundRole q) = identity_comparison (role_thing r) op (role_thing q)"
| "compare_values L C (BoundSet s) op (BoundSet t) =
     (if op \<in> {''==='', ''='', ''?=''} then Inr (set_key s = set_key t)
      else Inl (Comparison ''appearance sets support equality only''))"
| "compare_values L C _ op _ = Inl (Comparison ''unsupported'')"

definition evaluate_predicate ::
    "'n :: linorder literal_lib \<Rightarrow> chrono \<Rightarrow> query_predicate \<Rightarrow> binding \<Rightarrow> bool result" where
  "evaluate_predicate L C p b =
     attempt (ok_or (UnknownVariable (pred_left p)) (binding_get (pred_left p) b)) (\<lambda>left.
     attempt (case pred_right p of
         OperandVariable name \<Rightarrow> ok_or (UnknownVariable name) (binding_get name b)
       | OperandLiteral x \<Rightarrow> Inr (BoundLiteral x)
       | OperandTime t \<Rightarrow> Inr (BoundTime t)) (\<lambda>right.
     compare_values L C left (pred_operator p) right))"

section \<open>Order\<close>

text \<open>\<open>order_value\<close>: the comparison of literals panics, as None, if it was not validated.\<close>

fun order_value :: "'n :: linorder literal_lib \<Rightarrow> bound_value \<Rightarrow> bound_value \<Rightarrow> ordering option" where
  "order_value L (BoundThing t) (BoundThing u) = Some (Literals.compare t u)"
| "order_value L (BoundThing t) (BoundPosit u) = Some (Literals.compare t u)"
| "order_value L (BoundPosit t) (BoundThing u) = Some (Literals.compare t u)"
| "order_value L (BoundPosit t) (BoundPosit u) = Some (Literals.compare t u)"
| "order_value L (BoundRole r) (BoundRole q) = Some (Literals.compare (role_thing r) (role_thing q))"
| "order_value L (BoundSet s) (BoundSet t) = Some (Literals.compare (set_key s) (set_key t))"
| "order_value L (BoundLiteral x) (BoundLiteral y) =
     (case semantic_cmp L x y of Inl e \<Rightarrow> None | Inr r \<Rightarrow> Some r)"
| "order_value L (BoundTime t) (BoundTime u) = Some (Literals.compare t u)"
| "order_value L _ _ = Some Equal"

fun reverse_ordering :: "ordering \<Rightarrow> ordering" where
  "reverse_ordering Less = Greater"
| "reverse_ordering Equal = Equal"
| "reverse_ordering Greater = Less"

fun compare_order ::
    "'n :: linorder literal_lib \<Rightarrow> binding \<Rightarrow> binding \<Rightarrow> order_item list \<Rightarrow> ordering option" where
  "compare_order L b c [] = Some Equal"
| "compare_order L b c (item # items) =
     (case (binding_get (order_variable item) b, binding_get (order_variable item) c) of
        (Some v, Some w) \<Rightarrow>
          (case order_value L v w of
             None \<Rightarrow> None
           | Some r \<Rightarrow>
               let r = (if descending item then reverse_ordering r else r)
               in if r \<noteq> Equal then Some r else compare_order L b c items)
      | _ \<Rightarrow> compare_order L b c items)"

end
