(* ===== verification/Query_Index.thy ===== *)
theory Query_Index
  imports Query
begin

text \<open>
  The posits a pattern is tried on (\<open>src/traqula/query.rs\<close>): all of them, or those that the lookups of
  the database find for the roles, things, posit and appearance set that the pattern or the binding
  determine.  A bitmap is a set, iterated in ascending order.
\<close>

datatype plan_access = Bitmap "string list" "string list" | FullScan | EffectiveSliceAccess

definition posting :: "('k \<rightharpoonup> 'v set) \<Rightarrow> 'k \<Rightarrow> 'v set" where
  "posting index k = (case index k of None \<Rightarrow> {} | Some vs \<Rightarrow> vs)"

section \<open>What a pattern determines\<close>

definition indexed_role ::
    "(string \<Rightarrow> string) \<Rightarrow> database \<Rightarrow> role_slot \<Rightarrow> binding \<Rightarrow> (bool \<times> role option) result" where
  "indexed_role nfc db slot input =
     (case slot of
        AnyRole \<Rightarrow> Inr (False, None)
      | NamedRole name \<Rightarrow> Inr (True, get_role nfc name (role_keeper db))
      | RoleVariable name \<Rightarrow>
          (case binding_get name input of
             Some (BoundRole r) \<Rightarrow> Inr (True, Some r)
           | Some other \<Rightarrow> Inl (domain_error name (domain_of other) RoleDomain)
           | None \<Rightarrow> Inr (False, None)))"

definition identity_of :: "string \<Rightarrow> bound_value \<Rightarrow> query_domain \<Rightarrow> thing result" where
  "identity_of name v expected =
     (case v of
        BoundThing t \<Rightarrow> Inr t
      | BoundPosit t \<Rightarrow> Inr t
      | other \<Rightarrow> Inl (domain_error name (domain_of other) expected))"

fun all_identities :: "string list \<Rightarrow> binding \<Rightarrow> thing list result" where
  "all_identities [] input = Inr []"
| "all_identities (name # names) input =
     attempt (ok_or (InvalidRecall name) (binding_get name input)) (\<lambda>v.
     attempt (identity_of name v ThingDomain) (\<lambda>t.
     attempt (all_identities names input) (\<lambda>ts. Inr (t # ts))))"

definition indexed_things :: "thing_slot \<Rightarrow> binding \<Rightarrow> thing list option result" where
  "indexed_things slot input =
     (let variable = (\<lambda>name. case binding_get name input of
            None \<Rightarrow> Inr None
          | Some v \<Rightarrow> attempt (identity_of name v ThingDomain) (\<lambda>t. Inr (Some [t])))
      in case slot of
        AnyThing \<Rightarrow> Inr None
      | ThingVariable name \<Rightarrow> variable name
      | LegacyThing name \<Rightarrow> variable name
      | OneOf names \<Rightarrow> attempt (all_identities names input) (\<lambda>ts. Inr (Some ts)))"

definition posit_posting_for_things :: "database \<Rightarrow> thing list \<Rightarrow> role option \<Rightarrow> thing set" where
  "posit_posting_for_things db things r =
     (let appearances = (\<Union>t \<in> set things. {a \<in> posting (thing_to_appearance db) t.
            case r of None \<Rightarrow> True | Some r \<Rightarrow> fst a = role_thing r});
          appearance_sets = (\<Union>a \<in> appearances. posting (appearance_to_appearance_set db) a)
      in \<Union>s \<in> appearance_sets. posting (appearance_set_to_posit_thing db) s)"

section \<open>Candidates\<close>

text \<open>The posting of the posit variable, when no temporal reduction comes before it.\<close>

definition posit_postings :: "posit_pattern \<Rightarrow> binding \<Rightarrow> thing set list result" where
  "posit_postings p input =
     (case pat_posit p of
        None \<Rightarrow> Inr []
      | Some name \<Rightarrow>
          if pat_cutoff p = None \<or> pat_latest_matching p then
            (case binding_get name input of
               None \<Rightarrow> Inr []
             | Some v \<Rightarrow> attempt (identity_of name v PositDomain) (\<lambda>t. Inr [{t}]))
          else Inr [])"

definition set_postings :: "database \<Rightarrow> posit_pattern \<Rightarrow> binding \<Rightarrow> thing set list result" where
  "set_postings db p input =
     (case set_binding (pat_appearances p) of
        None \<Rightarrow> Inr []
      | Some name \<Rightarrow>
          (case binding_get name input of
             None \<Rightarrow> Inr []
           | Some (BoundSet s) \<Rightarrow> Inr [posting (appearance_set_to_posit_thing db) (set_key s)]
           | Some other \<Rightarrow> Inl (domain_error name (domain_of other) AppearanceSetDomain)))"

text \<open>The postings of the members; None when a named role does not exist, so that nothing matches.\<close>

fun member_postings ::
    "(string \<Rightarrow> string) \<Rightarrow> database \<Rightarrow> appearance_pattern list \<Rightarrow> binding \<Rightarrow> thing set list option result" where
  "member_postings nfc db [] input = Inr (Some [])"
| "member_postings nfc db (m # ms) input =
     attempt (indexed_role nfc db (role_pattern m) input) (\<lambda>(constrained, r).
     if constrained \<and> r = None then Inr None
     else
       let role_posting = (if constrained
             then [posting (role_to_posit_thing db) (role_thing (the r))] else [])
       in attempt (indexed_things (thing_pattern m) input) (\<lambda>things.
          let thing_posting = (case things of
                None \<Rightarrow> [] | Some ts \<Rightarrow> [posit_posting_for_things db ts r])
          in attempt (member_postings nfc db ms input) (\<lambda>rest.
             Inr (case rest of
               None \<Rightarrow> None | Some rest \<Rightarrow> Some (role_posting @ thing_posting @ rest)))))"

fun intersect_postings :: "thing set \<Rightarrow> thing set list \<Rightarrow> thing set" where
  "intersect_postings candidates [] = candidates"
| "intersect_postings candidates (p # ps) =
     (let candidates = candidates \<inter> p
      in if candidates = {} then {} else intersect_postings candidates ps)"

definition indexed_candidate_identities ::
    "(string \<Rightarrow> string) \<Rightarrow> database \<Rightarrow> posit_pattern \<Rightarrow> binding \<Rightarrow> thing set option result" where
  "indexed_candidate_identities nfc db p input =
     attempt (posit_postings p input) (\<lambda>ps.
     attempt (set_postings db p input) (\<lambda>ss.
     attempt (member_postings nfc db (set_members (pat_appearances p)) input) (\<lambda>ms.
     case ms of
       None \<Rightarrow> Inr (Some {})
     | Some ms \<Rightarrow>
         (case sort_key card (ps @ ss @ ms) of
            [] \<Rightarrow> Inr None
          | c # cs \<Rightarrow> Inr (Some (intersect_postings c cs))))))"

definition candidate_identities ::
    "(string \<Rightarrow> string) \<Rightarrow> database \<Rightarrow> posit_pattern \<Rightarrow> binding \<Rightarrow> plan_access \<Rightarrow> thing list result" where
  "candidate_identities nfc db p input access =
     attempt (case access of
         Bitmap _ _ \<Rightarrow> indexed_candidate_identities nfc db p input
       | FullScan \<Rightarrow> Inr None
       | EffectiveSliceAccess \<Rightarrow> Inl (Invariant ''effective slice used as a posit scan'')) (\<lambda>candidates.
     Inr (case candidates of
         Some ids \<Rightarrow> sorted_list_of_set ids
       | None \<Rightarrow> sorted_list_of_set (dom (posit_thing_to_appearance_set db))))"

definition candidate_posits ::
    "(string \<Rightarrow> string) \<Rightarrow> database \<Rightarrow> posit_pattern \<Rightarrow> binding \<Rightarrow> plan_access \<Rightarrow> posit list result" where
  "candidate_posits nfc db p input access =
     attempt (candidate_identities nfc db p input access)
       (try_map (\<lambda>t. ok_or (Invariant ''posit index contains an identity without a literal posit'')
          (posit_of_thing t (posit_keeper db))))"

end
