(* ===== verification/Query_Variables.thy ===== *)
theory Query_Variables
  imports Query "HOL-Library.AList"
begin

text \<open>
  The variables of a query (\<open>src/traqula/query.rs\<close>): what a pattern introduces and what it depends on,
  the domain every variable is registered with, and the validation of a query before it is planned.
  The map from variables to domains is an association list; a set of names is a set.
\<close>

section \<open>Queries\<close>

record query =
  q_branches :: "posit_pattern list list"
  q_not_exists :: "posit_pattern list list"
  q_predicates :: "query_predicate list"
  q_returns :: "string list"
  q_distinct :: bool
  q_order :: "order_item list"
  q_limit :: "nat option"
  q_has_fallback :: bool

type_synonym domains = "(string \<times> query_domain) list"

record prepared_query =
  prepared :: query
  prepared_domains :: domains

section \<open>Names in a pattern\<close>

definition via_of :: "posit_pattern \<Rightarrow> posit_pattern option" where
  "via_of p = (case pat_effect p of None \<Rightarrow> None | Some e \<Rightarrow> effect_via e)"

lemma via_of_size [termination_simp]: "via_of p = Some via \<Longrightarrow> size via < size p"
  by (cases p; cases "pat_effect p"; cases "the (pat_effect p)") (auto simp: via_of_def)

fun thing_names :: "thing_slot \<Rightarrow> string list" where
  "thing_names (ThingVariable name) = [name]"
| "thing_names (LegacyThing name) = [name]"
| "thing_names _ = []"

fun role_names :: "role_slot \<Rightarrow> string list" where
  "role_names (RoleVariable name) = [name]"
| "role_names _ = []"

fun value_names :: "value_slot \<Rightarrow> string list" where
  "value_names (ValueVariable name) = [name]"
| "value_names (LegacyValue name) = [name]"
| "value_names _ = []"

fun time_names :: "time_slot \<Rightarrow> string list" where
  "time_names (TimeVariable name) = [name]"
| "time_names (LegacyTime name) = [name]"
| "time_names _ = []"

fun union_names :: "thing_slot \<Rightarrow> string list" where
  "union_names (OneOf names) = names"
| "union_names _ = []"

fun cutoff_names :: "cutoff \<Rightarrow> string list" where
  "cutoff_names (CutoffVariable name) = [name]"
| "cutoff_names _ = []"

fun option_names :: "string option \<Rightarrow> string list" where
  "option_names None = []"
| "option_names (Some name) = [name]"

text \<open>The names in appearance position: of the set, and of the things and roles of its members.\<close>

definition member_names :: "posit_pattern \<Rightarrow> string list" where
  "member_names p =
     concat (map (\<lambda>m. thing_names (thing_pattern m) @ role_names (role_pattern m))
       (set_members (pat_appearances p)))"

definition own_introduced :: "posit_pattern \<Rightarrow> string list" where
  "own_introduced p =
     option_names (pat_posit p) @ option_names (set_binding (pat_appearances p)) @ member_names p
     @ value_names (pat_value p) @ time_names (pat_time p)"

fun introduced :: "posit_pattern \<Rightarrow> string set" where
  "introduced p =
     set (own_introduced p) \<union> (case via_of p of None \<Rightarrow> {} | Some via \<Rightarrow> introduced via)"

declare introduced.simps [simp del]

definition own_dependencies :: "posit_pattern \<Rightarrow> string list" where
  "own_dependencies p =
     (case pat_cutoff p of None \<Rightarrow> [] | Some c \<Rightarrow> cutoff_names c)
     @ (case pat_effect p of
          None \<Rightarrow> []
        | Some e \<Rightarrow> cutoff_names (assertion_cutoff e) @ cutoff_names (appearance_cutoff e))
     @ concat (map (\<lambda>m. union_names (thing_pattern m)) (set_members (pat_appearances p)))"

fun dependencies :: "posit_pattern \<Rightarrow> string set" where
  "dependencies p =
     set (own_dependencies p) \<union> (case via_of p of None \<Rightarrow> {} | Some via \<Rightarrow> dependencies via)"

declare dependencies.simps [simp del]

text \<open>The names a temporal pattern binds only after its reduction.\<close>

definition deferred_temporal_fields :: "posit_pattern \<Rightarrow> string set" where
  "deferred_temporal_fields p =
     (if pat_cutoff p = None then {}
      else
        let retained = dependencies p \<union> set (option_names (set_binding (pat_appearances p)))
              \<union> set (member_names p)
        in (set (option_names (pat_posit p)) \<union> set (value_names (pat_value p)) \<union> set (time_names (pat_time p)))
           - retained)"

definition temporal_input :: "posit_pattern \<Rightarrow> binding \<Rightarrow> binding" where
  "temporal_input p input = filter (\<lambda>(name, _). name \<notin> deferred_temporal_fields p) input"

section \<open>Domains\<close>

definition register_domain :: "string \<Rightarrow> query_domain \<Rightarrow> domains \<Rightarrow> domains result" where
  "register_domain name d D =
     (case map_of D name of
        None \<Rightarrow> Inr (AList.update name d D)
      | Some existing \<Rightarrow>
          if existing = d then Inr D
          else if existing = ThingDomain \<and> d = PositDomain then Inr (AList.update name PositDomain D)
          else if existing = PositDomain \<and> d = ThingDomain then Inr D
          else Inl (domain_error name existing d))"

definition register_names :: "string list \<Rightarrow> query_domain \<Rightarrow> domains \<Rightarrow> domains result" where
  "register_names names d D = try_fold (\<lambda>name. register_domain name d) names D"

definition register_own :: "posit_pattern \<Rightarrow> domains \<Rightarrow> domains result" where
  "register_own p D =
     attempt (register_names (option_names (pat_posit p)) PositDomain D) (\<lambda>D.
     attempt (register_names (option_names (set_binding (pat_appearances p))) AppearanceSetDomain D) (\<lambda>D.
     attempt (try_fold (\<lambda>m D.
         attempt (register_names (thing_names (thing_pattern m)) ThingDomain D)
           (register_names (role_names (role_pattern m)) RoleDomain))
       (set_members (pat_appearances p)) D) (\<lambda>D.
     attempt (register_names (value_names (pat_value p)) LiteralDomain D) (\<lambda>D.
     register_names (time_names (pat_time p)) TimeDomain D))))"

fun register_pattern :: "posit_pattern \<Rightarrow> domains \<Rightarrow> domains result" where
  "register_pattern p D =
     attempt (register_own p D) (\<lambda>D.
       case via_of p of None \<Rightarrow> Inr D | Some via \<Rightarrow> register_pattern via D)"

declare register_pattern.simps [simp del]

definition require_variable :: "domains \<Rightarrow> string \<Rightarrow> unit result" where
  "require_variable D name = guard (map_of D name \<noteq> None) (UnknownVariable name)"

definition require_domain :: "domains \<Rightarrow> query_domain \<Rightarrow> string \<Rightarrow> unit result" where
  "require_domain D expected name =
     attempt (require_variable D name) (\<lambda>_.
       let actual = the (map_of D name)
       in guard (actual = expected \<or> expected = ThingDomain \<and> actual = PositDomain)
            (domain_error name actual expected))"

definition require_all :: "domains \<Rightarrow> query_domain \<Rightarrow> string list \<Rightarrow> unit result" where
  "require_all D expected names = try_fold (\<lambda>name _. require_domain D expected name) names ()"

fun validate_dependency_domains :: "posit_pattern \<Rightarrow> domains \<Rightarrow> unit result" where
  "validate_dependency_domains p D =
     attempt (require_all D TimeDomain (case pat_cutoff p of None \<Rightarrow> [] | Some c \<Rightarrow> cutoff_names c)) (\<lambda>_.
     attempt (case pat_effect p of
         None \<Rightarrow> Inr ()
       | Some e \<Rightarrow>
           require_all D TimeDomain (cutoff_names (assertion_cutoff e) @ cutoff_names (appearance_cutoff e))) (\<lambda>_.
     attempt (case via_of p of None \<Rightarrow> Inr () | Some via \<Rightarrow> validate_dependency_domains via D) (\<lambda>_.
     try_fold (\<lambda>m _. require_all D ThingDomain (union_names (thing_pattern m)))
       (set_members (pat_appearances p)) ())))"

declare validate_dependency_domains.simps [simp del]

definition remove_nth :: "nat \<Rightarrow> 'a list \<Rightarrow> 'a list" where
  "remove_nth i xs = take i xs @ drop (Suc i) xs"

lemma length_remove_nth [termination_simp]: "i < length xs \<Longrightarrow> length (remove_nth i xs) < length xs"
  by (simp add: remove_nth_def)

definition next_resolvable :: "posit_pattern list \<Rightarrow> string set \<Rightarrow> nat option" where
  "next_resolvable pending available = position (\<lambda>p. dependencies p \<subseteq> available) pending"

lemma next_resolvable_less [termination_simp]:
  "next_resolvable pending available = Some i \<Longrightarrow> i < length pending"
  unfolding next_resolvable_def by (drule position_Some) simp

definition unresolvable :: database_error where
  "unresolvable = InvalidRecall ''query has unresolvable variable dependencies''"

fun resolve_dependencies :: "posit_pattern list \<Rightarrow> string set \<Rightarrow> unit result" where
  "resolve_dependencies pending available =
     (if pending = [] then Inr ()
      else case next_resolvable pending available of
        None \<Rightarrow> Inl unresolvable
      | Some i \<Rightarrow>
          resolve_dependencies (remove_nth i pending) (available \<union> introduced (pending ! i)))"

declare resolve_dependencies.simps [simp del]

definition validate_pattern_dependencies ::
    "posit_pattern list \<Rightarrow> domains \<Rightarrow> string set \<Rightarrow> unit result" where
  "validate_pattern_dependencies patterns D initially_available =
     attempt (try_fold (\<lambda>p _. validate_dependency_domains p D) patterns ()) (\<lambda>_.
     resolve_dependencies patterns initially_available)"

section \<open>Validation\<close>

definition is_identity :: "query_domain \<Rightarrow> bool" where
  "is_identity d \<longleftrightarrow> d = ThingDomain \<or> d = PositDomain"

definition validate_predicate_domains :: "query_predicate \<Rightarrow> domains \<Rightarrow> unit result" where
  "validate_predicate_domains p D =
     (let left = the (map_of D (pred_left p));
          right = (case pred_right p of
              OperandVariable name \<Rightarrow> the (map_of D name)
            | OperandLiteral _ \<Rightarrow> LiteralDomain
            | OperandTime _ \<Rightarrow> TimeDomain);
          identities = (is_identity left \<and> is_identity right);
          equality = (pred_operator p \<in> {''='', ''==='', ''?=''})
      in guard ((left = right \<or> identities) \<and> (equality \<or> left = LiteralDomain \<or> left = TimeDomain))
           (Comparison ''unsupported''))"

definition validate_branch :: "posit_pattern list \<Rightarrow> domains result" where
  "validate_branch patterns =
     attempt (try_fold register_pattern patterns []) (\<lambda>D.
     attempt (validate_pattern_dependencies patterns D {}) (\<lambda>_. Inr D))"

definition common_domains :: "domains list \<Rightarrow> domains" where
  "common_domains Ds =
     filter (\<lambda>(name, _). list_all (\<lambda>D. map_of D name \<noteq> None) Ds) (hd Ds)"

definition validate_common :: "domains list \<Rightarrow> domains \<Rightarrow> unit result" where
  "validate_common Ds D =
     try_fold (\<lambda>branch _. try_fold (\<lambda>(name, d) _.
         guard (map_of branch name = Some d) (domain_error name d (the (map_of branch name)))) D ()) Ds ()"

definition validate_block ::
    "string set \<Rightarrow> domains \<Rightarrow> posit_pattern list \<Rightarrow> unit result" where
  "validate_block all_variables D patterns =
     attempt (try_fold (\<lambda>p local.
         if \<exists>name \<in> introduced p \<union> dependencies p. name \<in> all_variables \<and> map_of D name = None
         then Inl (InvalidRecall ''correlated variable is not bound in every union branch'')
         else register_pattern p local) patterns D) (\<lambda>local.
     validate_pattern_dependencies patterns local (set (map fst D)))"

definition validate_predicate :: "domains \<Rightarrow> query_predicate \<Rightarrow> unit result" where
  "validate_predicate D p =
     attempt (require_variable D (pred_left p)) (\<lambda>_.
     attempt (case pred_right p of
         OperandVariable name \<Rightarrow> require_variable D name
       | _ \<Rightarrow> Inr ()) (\<lambda>_.
     validate_predicate_domains p D))"

definition validate_order_item :: "query \<Rightarrow> domains \<Rightarrow> order_item \<Rightarrow> unit result" where
  "validate_order_item q D item =
     attempt (require_variable D (order_variable item)) (\<lambda>_.
     guard (order_variable item \<in> set (q_returns q)) (InvalidRecall ''ORDER BY variable must be projected''))"

definition validate_domains :: "query \<Rightarrow> domains result" where
  "validate_domains q =
     attempt (try_map validate_branch (q_branches q)) (\<lambda>Ds.
     let all_variables = set (concat (map (map fst) Ds)); D = common_domains Ds
     in attempt (validate_common Ds D) (\<lambda>_.
        attempt (try_fold (\<lambda>block _. validate_block all_variables D block) (q_not_exists q) ()) (\<lambda>_.
        attempt (try_fold (\<lambda>p _. validate_predicate D p) (q_predicates q) ()) (\<lambda>_.
        attempt (try_fold (\<lambda>name _. require_variable D name) (q_returns q) ()) (\<lambda>_.
        attempt (try_fold (\<lambda>item _. validate_order_item q D item) (q_order q) ()) (\<lambda>_.
        Inr D))))))"

end
