(* ===== verification/Result_Sets.thy ===== *)
theory Result_Sets
  imports Construct
begin

text \<open>
  The result sets of \<open>src/traqula.rs\<close>: nothing, one thing, or a bitmap of things, with the operations a
  script makes on them.  A bitmap is a finite set.  Where the code unwraps a field the model takes the
  value of the option; \<open>wf_result_set\<close>, which every operation keeps, says that the field of the mode is
  there.
\<close>

section \<open>The representation\<close>

datatype result_set_mode = EmptyMode | ThingMode | MultiMode

record result_set =
  rs_mode :: result_set_mode
  rs_thing :: "thing option"
  rs_multi :: "thing set option"

definition new_result_set :: result_set where
  "new_result_set = \<lparr>rs_mode = EmptyMode, rs_thing = None, rs_multi = None\<rparr>"

definition rs_is_empty :: "result_set \<Rightarrow> bool" where
  "rs_is_empty r \<longleftrightarrow> rs_mode r = EmptyMode"

definition set_empty :: "result_set \<Rightarrow> result_set" where
  "set_empty r = r\<lparr>rs_mode := EmptyMode, rs_thing := None, rs_multi := None\<rparr>"

definition set_thing :: "thing \<Rightarrow> result_set \<Rightarrow> result_set" where
  "set_thing t r = r\<lparr>rs_mode := ThingMode, rs_thing := Some t, rs_multi := None\<rparr>"

definition set_multi :: "thing set \<Rightarrow> result_set \<Rightarrow> result_set" where
  "set_multi ts r = r\<lparr>rs_mode := MultiMode, rs_thing := None, rs_multi := Some ts\<rparr>"

section \<open>Operations\<close>

definition rs_insert :: "thing \<Rightarrow> result_set \<Rightarrow> result_set" where
  "rs_insert t r =
     (case rs_mode r of
        EmptyMode \<Rightarrow> set_thing t r
      | ThingMode \<Rightarrow> if the (rs_thing r) = t then r else set_multi {the (rs_thing r), t} r
      | MultiMode \<Rightarrow> r\<lparr>rs_multi := Some (insert t (the (rs_multi r)))\<rparr>)"

definition insert_many :: "thing set \<Rightarrow> result_set \<Rightarrow> result_set" where
  "insert_many ts r =
     (case rs_mode r of
        EmptyMode \<Rightarrow>
          if card ts = 0 then r else if card ts = 1 then set_thing (Min ts) r else set_multi ts r
      | ThingMode \<Rightarrow>
          let existing = the (rs_thing r)
          in if ts = {} then r
             else if card ts = 1
             then if Min ts = existing then r else set_multi {existing, Min ts} r
             else set_multi (insert existing ts) r
      | MultiMode \<Rightarrow> if ts = {} then r else r\<lparr>rs_multi := Some (the (rs_multi r) \<union> ts)\<rparr>)"

text \<open>After an operation on the bitmap of a set in Multi mode: none or one left changes the mode.\<close>

definition normalize_multi :: "thing set \<Rightarrow> result_set \<Rightarrow> result_set" where
  "normalize_multi ts r =
     (if card ts = 0 then set_empty r
      else if card ts = 1 then set_thing (Min ts) r
      else r\<lparr>rs_multi := Some ts\<rparr>)"

definition intersect_with :: "result_set \<Rightarrow> result_set \<Rightarrow> result_set" where
  "intersect_with r other =
     (if rs_mode r = EmptyMode \<or> rs_mode other = EmptyMode then set_empty r
      else case (rs_mode r, rs_mode other) of
        (ThingMode, ThingMode) \<Rightarrow> if the (rs_thing r) \<noteq> the (rs_thing other) then set_empty r else r
      | (ThingMode, MultiMode) \<Rightarrow>
          if the (rs_thing r) \<notin> the (rs_multi other) then set_empty r else r
      | (MultiMode, ThingMode) \<Rightarrow>
          if the (rs_thing other) \<in> the (rs_multi r) then set_thing (the (rs_thing other)) r
          else set_empty r
      | (MultiMode, MultiMode) \<Rightarrow> normalize_multi (the (rs_multi r) \<inter> the (rs_multi other)) r
      | _ \<Rightarrow> r)"

definition union_with :: "result_set \<Rightarrow> result_set \<Rightarrow> result_set" where
  "union_with r other =
     (if rs_mode other \<noteq> EmptyMode then
        case (rs_mode r, rs_mode other) of
          (EmptyMode, ThingMode) \<Rightarrow> set_thing (the (rs_thing other)) r
        | (EmptyMode, MultiMode) \<Rightarrow> set_multi (the (rs_multi other)) r
        | (ThingMode, ThingMode) \<Rightarrow> set_multi {the (rs_thing other), the (rs_thing r)} r
        | (ThingMode, MultiMode) \<Rightarrow> set_multi (insert (the (rs_thing r)) (the (rs_multi other))) r
        | (MultiMode, ThingMode) \<Rightarrow>
            r\<lparr>rs_multi := Some (insert (the (rs_thing other)) (the (rs_multi r)))\<rparr>
        | (MultiMode, MultiMode) \<Rightarrow> r\<lparr>rs_multi := Some (the (rs_multi r) \<union> the (rs_multi other))\<rparr>
        | _ \<Rightarrow> r
      else r)"

definition difference_with :: "result_set \<Rightarrow> result_set \<Rightarrow> result_set" where
  "difference_with r other =
     (if rs_mode other \<noteq> EmptyMode \<and> rs_mode r \<noteq> EmptyMode then
        case (rs_mode r, rs_mode other) of
          (ThingMode, ThingMode) \<Rightarrow> if the (rs_thing r) = the (rs_thing other) then set_empty r else r
        | (ThingMode, MultiMode) \<Rightarrow>
            if the (rs_thing r) \<in> the (rs_multi other) then set_empty r else r
        | (MultiMode, ThingMode) \<Rightarrow> normalize_multi (the (rs_multi r) - {the (rs_thing other)}) r
        | (MultiMode, MultiMode) \<Rightarrow> normalize_multi (the (rs_multi r) - the (rs_multi other)) r
        | _ \<Rightarrow> r
      else r)"

definition symmetric_difference_with :: "result_set \<Rightarrow> result_set \<Rightarrow> result_set" where
  "symmetric_difference_with r other =
     (if rs_mode other \<noteq> EmptyMode \<and> rs_mode r \<noteq> EmptyMode then
        case (rs_mode r, rs_mode other) of
          (ThingMode, ThingMode) \<Rightarrow>
            if the (rs_thing r) = the (rs_thing other) then set_empty r
            else set_multi {the (rs_thing other), the (rs_thing r)} r
        | (ThingMode, MultiMode) \<Rightarrow>
            let t = the (rs_thing r); ts = the (rs_multi other);
                ts = (if t \<in> ts then ts - {t} else insert t ts)
            in if card ts = 0 then set_empty r
               else if card ts = 1 then set_thing (Min ts) r
               else set_multi ts r
        | (MultiMode, ThingMode) \<Rightarrow>
            let t = the (rs_thing other); ts = the (rs_multi r)
            in normalize_multi (if t \<in> ts then ts - {t} else insert t ts) r
        | _ \<Rightarrow> r
      else r)"

definition result_set_identities :: "result_set \<Rightarrow> thing list result" where
  "result_set_identities r =
     (case rs_mode r of
        EmptyMode \<Rightarrow> Inr []
      | ThingMode \<Rightarrow>
          attempt (ok_or (Invariant ''single result set has no identity'') (rs_thing r)) (\<lambda>t. Inr [t])
      | MultiMode \<Rightarrow>
          attempt (ok_or (Invariant ''multi result set has no bitmap'') (rs_multi r))
            (\<lambda>ts. Inr (sorted_list_of_set ts)))"

section \<open>What a result set stands for\<close>

definition elements :: "result_set \<Rightarrow> thing set" where
  "elements r =
     (case rs_mode r of EmptyMode \<Rightarrow> {} | ThingMode \<Rightarrow> {the (rs_thing r)} | MultiMode \<Rightarrow> the (rs_multi r))"

definition wf_result_set :: "result_set \<Rightarrow> bool" where
  "wf_result_set r \<longleftrightarrow>
     (case rs_mode r of
        EmptyMode \<Rightarrow> rs_thing r = None \<and> rs_multi r = None
      | ThingMode \<Rightarrow> rs_thing r \<noteq> None \<and> rs_multi r = None
      | MultiMode \<Rightarrow> rs_thing r = None \<and> rs_multi r \<noteq> None \<and> the (rs_multi r) \<noteq> {})"

text \<open>The three shapes of a well-formed set.\<close>

lemma wf_result_set_cases [consumes 1, case_names empty thing multi]:
  assumes "wf_result_set r"
  obtains "r = \<lparr>rs_mode = EmptyMode, rs_thing = None, rs_multi = None\<rparr>"
  | t where "r = \<lparr>rs_mode = ThingMode, rs_thing = Some t, rs_multi = None\<rparr>"
  | ts where "r = \<lparr>rs_mode = MultiMode, rs_thing = None, rs_multi = Some ts\<rparr>" and "ts \<noteq> {}"
proof (cases r)
  case (fields m t ts)
  then show thesis
    using assms that by (cases m; cases t; cases ts) (simp_all add: wf_result_set_def)
qed

lemmas result_set_ops = rs_insert_def insert_many_def normalize_multi_def intersect_with_def
  union_with_def difference_with_def symmetric_difference_with_def set_empty_def set_thing_def
  set_multi_def Let_def

lemma card_0_1:
  "card (ts :: thing set) = 0 \<longleftrightarrow> ts = {}" "card ts = Suc 0 \<Longrightarrow> ts = {Min ts}"
  by (auto simp: card_1_singleton_iff)

lemma normalize_multi_spec:
  assumes "rs_mode r = MultiMode" and "rs_thing r = None"
  shows "wf_result_set (normalize_multi ts r) \<and> elements (normalize_multi ts r) = ts"
  using assms card_0_1 [of ts]
  by (auto simp: normalize_multi_def set_empty_def set_thing_def wf_result_set_def elements_def)

definition symmetric_difference_defined :: "result_set \<Rightarrow> result_set \<Rightarrow> bool" where
  "symmetric_difference_defined r other \<longleftrightarrow>
     rs_mode other = EmptyMode \<or> (rs_mode r \<noteq> EmptyMode \<and> \<not> (rs_mode r = MultiMode \<and> rs_mode other = MultiMode))"

lemma denote_mode [simp]:
  "elements \<lparr>rs_mode = EmptyMode, rs_thing = x, rs_multi = y\<rparr> = {}"
  "elements \<lparr>rs_mode = ThingMode, rs_thing = Some t, rs_multi = y\<rparr> = {t}"
  "elements \<lparr>rs_mode = MultiMode, rs_thing = x, rs_multi = Some ts\<rparr> = ts"
  by (simp_all add: elements_def)

lemma wf_mode [simp]:
  "wf_result_set \<lparr>rs_mode = EmptyMode, rs_thing = None, rs_multi = None\<rparr>"
  "wf_result_set \<lparr>rs_mode = ThingMode, rs_thing = Some t, rs_multi = None\<rparr>"
  "wf_result_set \<lparr>rs_mode = MultiMode, rs_thing = None, rs_multi = Some ts\<rparr> \<longleftrightarrow> ts \<noteq> {}"
  by (simp_all add: wf_result_set_def)

definition stands_for :: "result_set \<Rightarrow> thing set \<Rightarrow> bool" where
  "stands_for r ts \<longleftrightarrow> wf_result_set r \<and> elements r = ts"

lemma insert_spec: "wf_result_set r \<Longrightarrow> stands_for (rs_insert t r) (insert t (elements r))"
  by (cases r rule: wf_result_set_cases) (auto simp: stands_for_def rs_insert_def set_thing_def set_multi_def)

lemma insert_many_spec: "wf_result_set r \<Longrightarrow> stands_for (insert_many ts r) (elements r \<union> ts)"
  by (cases r rule: wf_result_set_cases; use card_0_1 [of ts] in
    \<open>auto simp: stands_for_def insert_many_def set_thing_def set_multi_def Let_def\<close>)

lemma intersect_spec:
  "wf_result_set r \<Longrightarrow> wf_result_set q \<Longrightarrow> stands_for (intersect_with r q) (elements r \<inter> elements q)"
  by (cases r rule: wf_result_set_cases; cases q rule: wf_result_set_cases)
    (auto simp: stands_for_def intersect_with_def set_empty_def set_thing_def normalize_multi_spec)

lemma union_spec:
  "wf_result_set r \<Longrightarrow> wf_result_set q \<Longrightarrow> stands_for (union_with r q) (elements r \<union> elements q)"
  by (cases r rule: wf_result_set_cases; cases q rule: wf_result_set_cases)
    (auto simp: stands_for_def union_with_def set_multi_def set_thing_def)

lemma difference_spec:
  "wf_result_set r \<Longrightarrow> wf_result_set q \<Longrightarrow> stands_for (difference_with r q) (elements r - elements q)"
  by (cases r rule: wf_result_set_cases; cases q rule: wf_result_set_cases)
    (auto simp: stands_for_def difference_with_def set_empty_def normalize_multi_spec)

text \<open>What one thing toggles in a bitmap.\<close>

lemma toggle_eq: "(if t \<in> ts then ts - {t} else insert t ts) = {t} - ts \<union> (ts - {t})" for t :: thing
  by auto

lemma sized_spec:
  "stands_for (if card ts = 0 then set_empty r else if card ts = 1 then set_thing (Min ts) r else set_multi ts r) ts"
  using card_0_1 [of ts] by (auto simp: stands_for_def set_empty_def set_thing_def set_multi_def elements_def wf_result_set_def)

lemma symmetric_difference_spec:
  assumes "wf_result_set r" and "wf_result_set q"
  shows "stands_for (symmetric_difference_with r q)
     (if symmetric_difference_defined r q
      then (elements r - elements q) \<union> (elements q - elements r) else elements r)"
  using assms(1)
proof (cases r rule: wf_result_set_cases)
  case empty
  with assms show ?thesis by (simp add: stands_for_def symmetric_difference_with_def symmetric_difference_defined_def elements_def [of q])
next
  case (thing t)
  from assms(2) show ?thesis
  proof (cases q rule: wf_result_set_cases)
    case empty
    with thing show ?thesis by (simp add: stands_for_def symmetric_difference_with_def symmetric_difference_defined_def)
  next
    case (thing u)
    with \<open>r = _\<close> show ?thesis
      by (auto simp: stands_for_def symmetric_difference_with_def symmetric_difference_defined_def
          set_empty_def set_multi_def)
  next
    case (multi us)
    define left where "left = {t} - us \<union> (us - {t})"
    then have toggled: "(if t \<in> us then us - {t} else insert t us) = left" by (simp add: toggle_eq)
    from multi \<open>r = _\<close> sized_spec [of left r] show ?thesis
      by (simp add: symmetric_difference_with_def symmetric_difference_defined_def Let_def toggled left_def [symmetric]
          split: if_splits)
  qed
next
  case (multi ts)
  from assms(2) show ?thesis
  proof (cases q rule: wf_result_set_cases)
    case empty
    with multi show ?thesis by (simp add: stands_for_def symmetric_difference_with_def symmetric_difference_defined_def)
  next
    case (thing u)
    with \<open>r = _\<close> normalize_multi_spec [of r "{u} - ts \<union> (ts - {u})"] show ?thesis
      by (simp add: stands_for_def symmetric_difference_with_def symmetric_difference_defined_def
          Let_def toggle_eq Un_commute)
  next
    case (multi us)
    with \<open>r = _\<close> \<open>ts \<noteq> {}\<close> show ?thesis
      by (simp add: stands_for_def symmetric_difference_with_def symmetric_difference_defined_def)
  qed
qed

text \<open>C40: result sets denote sets of things, and the operations are those of sets: inserting one or
  many, intersection, union and difference always; symmetric difference unless the left operand is
  empty and the right one is not, or both are bitmaps, when the code leaves the left operand as it
  is.  Every result is well formed, and a set is empty exactly if it denotes no thing and lists its
  things in ascending order.\<close>

theorem result_sets_are_sets:
  assumes "wf_result_set r" and "wf_result_set q"
  shows "stands_for (rs_insert t r) (insert t (elements r))
    \<and> stands_for (insert_many ts r) (elements r \<union> ts)
    \<and> stands_for (intersect_with r q) (elements r \<inter> elements q)
    \<and> stands_for (union_with r q) (elements r \<union> elements q)
    \<and> stands_for (difference_with r q) (elements r - elements q)
    \<and> stands_for (symmetric_difference_with r q)
        (if symmetric_difference_defined r q
         then (elements r - elements q) \<union> (elements q - elements r) else elements r)
    \<and> (rs_is_empty r \<longleftrightarrow> elements r = {})
    \<and> result_set_identities r = Inr (sorted_list_of_set (elements r))"
proof (intro conjI)
  show "rs_is_empty r \<longleftrightarrow> elements r = {}" "result_set_identities r = Inr (sorted_list_of_set (elements r))"
    using assms(1)
    by (cases r rule: wf_result_set_cases; simp add: rs_is_empty_def result_set_identities_def ok_or_def)+
qed (use assms in \<open>simp_all only: insert_spec insert_many_spec intersect_spec union_spec difference_spec
  symmetric_difference_spec\<close>)

theorem result_sets_are_sets_witness:
  "elements (union_with (set_thing 1 new_result_set) (set_multi {2, 3} new_result_set)) = {1, 2, 3}
   \<and> elements (symmetric_difference_with new_result_set (set_thing 1 new_result_set)) = {}"
proof -
  have wf: "wf_result_set (set_thing 1 new_result_set)" "wf_result_set (set_multi {2, 3} new_result_set)"
    "wf_result_set new_result_set"
    by (simp_all add: set_thing_def set_multi_def new_result_set_def)
  show ?thesis
    using result_sets_are_sets [OF wf(1,2)] result_sets_are_sets [OF wf(3,1)]
    by (auto simp: stands_for_def symmetric_difference_defined_def set_thing_def set_multi_def new_result_set_def)
qed

end
