(* ===== verification/Query_Execution.thy ===== *)
theory Query_Execution
  imports Query_Index Query_Variables Effect Result_Sets
begin

text \<open>
  The evaluation of a planned query one relation at a time (\<open>src/traqula/query.rs\<close>): patterns over
  posits and over the information in effect, joins, absence blocks, predicates, projection, distinct
  rows and their order.  The cache of effective slices and the sink are threaded; this is an execution
  that no limit, deadline or cancellation ends, so that charging work and reserving workspace succeed
  and \<open>execution.check\<close> does too.
\<close>

section \<open>Plans\<close>

record planned_pattern =
  planned :: posit_pattern
  plan_source :: nat
  plan_access :: plan_access
  plan_estimate :: u64
  plan_input :: domains
  plan_predicates :: "query_predicate list"

record planned_branch =
  branch_patterns :: "planned_pattern list"
  branch_domains :: domains
  branch_scope :: string

record physical_query =
  ph_branches :: "planned_branch list"
  ph_not_exists :: "planned_branch list"
  ph_predicates :: "query_predicate list"
  ph_returns :: "string list"
  ph_distinct :: bool
  ph_order :: "order_item list"
  ph_domains :: domains
  ph_limit :: "nat option"
  ph_materialization :: "string option"

section \<open>Loops\<close>

fun try_concat :: "('a \<Rightarrow> 'b list result) \<Rightarrow> 'a list \<Rightarrow> 'b list result" where
  "try_concat f [] = Inr []"
| "try_concat f (x # xs) = attempt (f x) (\<lambda>ys. attempt (try_concat f xs) (\<lambda>zs. Inr (ys @ zs)))"

definition try_filter_map :: "('a \<Rightarrow> 'b option result) \<Rightarrow> 'a list \<Rightarrow> 'b list result" where
  "try_filter_map f = try_concat (\<lambda>x. attempt (f x) (\<lambda>y. Inr (case y of None \<Rightarrow> [] | Some y \<Rightarrow> [y])))"

definition try_filter :: "('a \<Rightarrow> bool result) \<Rightarrow> 'a list \<Rightarrow> 'a list result" where
  "try_filter f = try_filter_map (\<lambda>x. attempt (f x) (\<lambda>keep. Inr (if keep then Some x else None)))"

section \<open>Patterns over posits\<close>

definition resolve_cutoff :: "cutoff \<Rightarrow> binding \<Rightarrow> time result" where
  "resolve_cutoff c input =
     (case c of
        CutoffTime t \<Rightarrow> Inr t
      | CutoffVariable name \<Rightarrow>
          (case binding_get name input of
             Some (BoundTime t) \<Rightarrow> Inr t
           | Some other \<Rightarrow> Inl (domain_error name (domain_of other) TimeDomain)
           | None \<Rightarrow> Inl (InvalidRecall name)))"

record structural_match =
  match_posit :: posit
  match_binding :: binding

definition reduce_matches :: "chrono \<Rightarrow> structural_match list \<Rightarrow> structural_match list result" where
  "reduce_matches C rows =
     fst (retain_maximal_by_key C (\<lambda>m. set_key (pset (match_posit m))) (\<lambda>m. ptime (match_posit m))
       (\<lambda>_ s. (Inr (), s)) rows ())"

definition structural_matches ::
    "chrono \<Rightarrow> posit_pattern \<Rightarrow> time option \<Rightarrow> binding \<Rightarrow> posit \<Rightarrow> structural_match list result" where
  "structural_matches C p cutoff_time input q =
     (if (case cutoff_time of None \<Rightarrow> False | Some t \<Rightarrow> \<not> definitely_at_or_before C (ptime q) t)
      then Inr []
      else attempt (match_appearance_set (pat_appearances p) (pset q) input)
        (\<lambda>bs. Inr (map (\<lambda>b. \<lparr>match_posit = q, match_binding = b\<rparr>) bs)))"

text \<open>The values of the input joined into a match.\<close>

fun bind_all :: "binding \<Rightarrow> binding \<Rightarrow> binding option result" where
  "bind_all [] b = Inr (Some b)"
| "bind_all ((name, v) # input) b = attempt_some (bind_variable name v b) (bind_all input)"

definition evaluate_relation ::
    "'n literal_lib \<Rightarrow> chrono \<Rightarrow> (string \<Rightarrow> string) \<Rightarrow> database \<Rightarrow> posit_pattern \<Rightarrow> plan_access \<Rightarrow> binding
       \<Rightarrow> binding list result" where
  "evaluate_relation L C nfc db p access input =
     attempt (case pat_cutoff p of
         None \<Rightarrow> Inr None
       | Some c \<Rightarrow> attempt (resolve_cutoff c input) (\<lambda>t. Inr (Some t))) (\<lambda>cutoff_time.
     let structural_input = (if pat_cutoff p \<noteq> None then temporal_input p input else input)
     in attempt (candidate_posits nfc db p structural_input access) (\<lambda>posits.
     attempt (try_concat (structural_matches C p cutoff_time structural_input) posits) (\<lambda>structural.
     attempt (if pat_cutoff p \<noteq> None \<and> \<not> pat_latest_matching p
         then reduce_matches C structural else Inr structural) (\<lambda>candidates.
     attempt (try_filter_map (\<lambda>m.
         attempt_some (match_fields L p (match_posit m) (match_binding m))
           (\<lambda>b. Inr (Some \<lparr>match_posit = match_posit m, match_binding = b\<rparr>))) candidates) (\<lambda>matched.
     attempt (if pat_cutoff p \<noteq> None \<and> pat_latest_matching p
         then reduce_matches C matched else Inr matched) (\<lambda>matched.
     try_filter_map (\<lambda>m. bind_all input (match_binding m)) matched))))))"

section \<open>Patterns over the information in effect\<close>

type_synonym effect_cache = "effect_cut \<rightharpoonup> effective_slice"

definition evidence_matches ::
    "'n literal_lib \<Rightarrow> posit_pattern \<Rightarrow> effect_pattern \<Rightarrow> binding \<Rightarrow> effective_assertion \<Rightarrow> binding list result" where
  "evidence_matches L p e input evidence =
     attempt (match_appearance_set (pat_appearances p) (pset (eff_target evidence)) input)
       (try_concat (\<lambda>b.
          attempt (match_fields L p (eff_target evidence) b) (\<lambda>b.
          case b of
            None \<Rightarrow> Inr []
          | Some b \<Rightarrow>
              (case effect_via e of
                 None \<Rightarrow> Inr [b]
               | Some via \<Rightarrow>
                   attempt (match_appearance_set (pat_appearances via) (pset (eff_assertion evidence)) b)
                     (try_filter_map (match_fields L via (eff_assertion evidence)))))))"

definition cached_slice ::
    "chrono \<Rightarrow> database \<Rightarrow> effect_cut \<Rightarrow> effect_cache \<Rightarrow> effective_slice result \<times> effect_cache" where
  "cached_slice C db cuts cache =
     (case cache cuts of
        Some known \<Rightarrow> (Inr known, cache)
      | None \<Rightarrow>
          attempt_st (information_in_effect C cuts db, cache)
            (\<lambda>resolved cache. (Inr resolved, cache(cuts \<mapsto> resolved))))"

definition evaluate_effect_pattern ::
    "'n literal_lib \<Rightarrow> chrono \<Rightarrow> database \<Rightarrow> posit_pattern \<Rightarrow> effect_pattern \<Rightarrow> binding \<Rightarrow> effect_cache
       \<Rightarrow> binding list result \<times> effect_cache" where
  "evaluate_effect_pattern L C db p e input cache =
     attempt_st (attempt (resolve_cutoff (assertion_cutoff e) input) (\<lambda>t.
         attempt (resolve_cutoff (appearance_cutoff e) input) (\<lambda>u.
         Inr \<lparr>cut_assertion_time = t, cut_appearance_time = u\<rparr>)), cache) (\<lambda>cuts cache.
     attempt_st (cached_slice C db cuts cache) (\<lambda>resolved cache.
     (try_concat (evidence_matches L p e input) (slice_assertions resolved), cache)))"

definition evaluate_pattern ::
    "'n literal_lib \<Rightarrow> chrono \<Rightarrow> (string \<Rightarrow> string) \<Rightarrow> database \<Rightarrow> planned_pattern \<Rightarrow> binding \<Rightarrow> effect_cache
       \<Rightarrow> binding list result \<times> effect_cache" where
  "evaluate_pattern L C nfc db pp input cache =
     (case pat_effect (planned pp) of
        Some e \<Rightarrow> evaluate_effect_pattern L C db (planned pp) e input cache
      | None \<Rightarrow> (evaluate_relation L C nfc db (planned pp) (plan_access pp) input, cache))"

section \<open>Joins and absence\<close>

fun join_rows ::
    "(binding \<Rightarrow> effect_cache \<Rightarrow> binding list result \<times> effect_cache) \<Rightarrow> binding list \<Rightarrow> effect_cache
       \<Rightarrow> binding list result \<times> effect_cache" where
  "join_rows f [] cache = (Inr [], cache)"
| "join_rows f (b # bs) cache =
     attempt_st (f b cache) (\<lambda>rows cache.
     attempt_st (join_rows f bs cache) (\<lambda>rest cache. (Inr (rows @ rest), cache)))"

fun join_patterns ::
    "'n literal_lib \<Rightarrow> chrono \<Rightarrow> (string \<Rightarrow> string) \<Rightarrow> database \<Rightarrow> planned_pattern list \<Rightarrow> binding list
       \<Rightarrow> effect_cache \<Rightarrow> binding list result \<times> effect_cache" where
  "join_patterns L C nfc db [] bs cache = (Inr bs, cache)"
| "join_patterns L C nfc db (pp # pps) bs cache =
     attempt_st (join_rows (evaluate_pattern L C nfc db pp) bs cache) (\<lambda>joined cache.
       if joined = [] then (Inr [], cache) else join_patterns L C nfc db pps joined cache)"

text \<open>The union of the branches, each exporting the bindings of the common schema.\<close>

definition common_schema :: "domains \<Rightarrow> binding \<Rightarrow> binding" where
  "common_schema D b = filter (\<lambda>(name, _). map_of D name \<noteq> None) b"

fun union_branches ::
    "'n literal_lib \<Rightarrow> chrono \<Rightarrow> (string \<Rightarrow> string) \<Rightarrow> database \<Rightarrow> domains \<Rightarrow> planned_branch list
       \<Rightarrow> effect_cache \<Rightarrow> binding list result \<times> effect_cache" where
  "union_branches L C nfc db D [] cache = (Inr [], cache)"
| "union_branches L C nfc db D (branch # bs) cache =
     attempt_st (join_patterns L C nfc db (branch_patterns branch) [[]] cache) (\<lambda>rows cache.
     attempt_st (union_branches L C nfc db D bs cache) (\<lambda>rest cache.
     (Inr (map (common_schema D) rows @ rest), cache)))"

definition block_has_match ::
    "'n literal_lib \<Rightarrow> chrono \<Rightarrow> (string \<Rightarrow> string) \<Rightarrow> database \<Rightarrow> planned_branch \<Rightarrow> binding \<Rightarrow> effect_cache
       \<Rightarrow> bool result \<times> effect_cache" where
  "block_has_match L C nfc db block outer cache =
     attempt_st (join_patterns L C nfc db (branch_patterns block) [outer] cache)
       (\<lambda>bs cache. (Inr (bs \<noteq> []), cache))"

fun without_block ::
    "'n literal_lib \<Rightarrow> chrono \<Rightarrow> (string \<Rightarrow> string) \<Rightarrow> database \<Rightarrow> planned_branch \<Rightarrow> binding list \<Rightarrow> effect_cache
       \<Rightarrow> binding list result \<times> effect_cache" where
  "without_block L C nfc db block [] cache = (Inr [], cache)"
| "without_block L C nfc db block (b # bs) cache =
     attempt_st (block_has_match L C nfc db block b cache) (\<lambda>found cache.
     attempt_st (without_block L C nfc db block bs cache) (\<lambda>rest cache.
     (Inr (if found then rest else b # rest), cache)))"

fun without_blocks ::
    "'n literal_lib \<Rightarrow> chrono \<Rightarrow> (string \<Rightarrow> string) \<Rightarrow> database \<Rightarrow> planned_branch list \<Rightarrow> binding list
       \<Rightarrow> effect_cache \<Rightarrow> binding list result \<times> effect_cache" where
  "without_blocks L C nfc db [] bs cache = (Inr bs, cache)"
| "without_blocks L C nfc db (block # blocks) bs cache =
     attempt_st (without_block L C nfc db block bs cache) (without_blocks L C nfc db blocks)"

section \<open>Outcome\<close>

datatype identity_domain = ThingIdentity | PositIdentity

record identity_binding =
  identity_domain :: identity_domain
  identity_values :: result_set

record search_outcome =
  matched_rows :: nat
  identity_bindings :: "string \<rightharpoonup> identity_binding"
  has_return :: bool
  sink_stopped :: bool

fun identity_label :: "identity_domain \<Rightarrow> string" where
  "identity_label ThingIdentity = ''Thing''"
| "identity_label PositIdentity = ''Posit''"

fun bound_identity :: "bound_value \<Rightarrow> (identity_domain \<times> thing) option" where
  "bound_identity (BoundThing t) = Some (ThingIdentity, t)"
| "bound_identity (BoundPosit t) = Some (PositIdentity, t)"
| "bound_identity _ = None"

definition note_identity ::
    "string \<times> bound_value \<Rightarrow> (string \<rightharpoonup> identity_binding) \<Rightarrow> (string \<rightharpoonup> identity_binding) result" where
  "note_identity = (\<lambda>(name, v) known.
     case bound_identity v of
       None \<Rightarrow> Inr known
     | Some (d, t) \<Rightarrow>
         (case known name of
            None \<Rightarrow>
              Inr (known(name \<mapsto> \<lparr>identity_domain = d, identity_values = rs_insert t new_result_set\<rparr>))
          | Some entry \<Rightarrow>
              if identity_domain entry \<noteq> d
              then Inl (VariableDomain name (identity_label (identity_domain entry)) (identity_label d))
              else Inr (known(name \<mapsto> entry\<lparr>identity_values := rs_insert t (identity_values entry)\<rparr>))))"

definition collect_identities :: "binding list \<Rightarrow> (string \<rightharpoonup> identity_binding) result" where
  "collect_identities bs = try_fold (try_fold note_identity) bs Map.empty"

section \<open>Rows\<close>

type_synonym row = "result_cell list"

definition project :: "chrono \<Rightarrow> string list \<Rightarrow> binding \<Rightarrow> row result" where
  "project C names b =
     try_map (\<lambda>name. attempt (ok_or (UnknownVariable name) (binding_get name b)) (\<lambda>v. Inr (value_cell C v))) names"

fun distinct_rows :: "(binding \<times> row) list \<Rightarrow> row list \<Rightarrow> (binding \<times> row) list" where
  "distinct_rows [] seen = []"
| "distinct_rows ((b, r) # rows) seen =
     (if r \<in> set seen then distinct_rows rows seen else (b, r) # distinct_rows rows (r # seen))"

definition validate_order_literal ::
    "'n :: linorder literal_lib \<Rightarrow> literal \<Rightarrow> literal option \<Rightarrow> unit result" where
  "validate_order_literal L x first_one =
     (if \<not> is_numeric (family x) \<and> family x \<noteq> CertaintyFamily
      then Inl (Comparison ''ORDER BY is unsupported'')
      else case first_one of
        None \<Rightarrow> Inr ()
      | Some y \<Rightarrow> (case semantic_cmp L y x of Inl e \<Rightarrow> Inl (Comparison e) | Inr _ \<Rightarrow> Inr ()))"

fun validate_order_column ::
    "'n :: linorder literal_lib \<Rightarrow> string \<Rightarrow> (binding \<times> row) list \<Rightarrow> literal option \<Rightarrow> unit result" where
  "validate_order_column L name [] first_one = Inr ()"
| "validate_order_column L name ((b, _) # rows) first_one =
     attempt (ok_or (UnknownVariable name) (binding_get name b)) (\<lambda>v.
     case v of
       BoundLiteral x \<Rightarrow>
         attempt (validate_order_literal L x first_one) (\<lambda>_.
         validate_order_column L name rows (if first_one = None then Some x else first_one))
     | _ \<Rightarrow> validate_order_column L name rows first_one)"

definition validate_order_values ::
    "'n :: linorder literal_lib \<Rightarrow> (binding \<times> row) list \<Rightarrow> order_item list \<Rightarrow> unit result" where
  "validate_order_values L rows order =
     try_fold (\<lambda>item _. validate_order_column L (order_variable item) rows None) order ()"

text \<open>The stable sort of the standard library; the comparison does not panic on validated rows.\<close>

fun insert_sorted :: "('a \<Rightarrow> 'a \<Rightarrow> ordering option) \<Rightarrow> 'a \<Rightarrow> 'a list \<Rightarrow> 'a list" where
  "insert_sorted cmp x [] = [x]"
| "insert_sorted cmp x (y # ys) =
     (if cmp x y = Some Greater then y # insert_sorted cmp x ys else x # y # ys)"

definition stable_sort :: "('a \<Rightarrow> 'a \<Rightarrow> ordering option) \<Rightarrow> 'a list \<Rightarrow> 'a list" where
  "stable_sort cmp xs = foldr (insert_sorted cmp) xs []"

definition order_rows ::
    "'n :: linorder literal_lib \<Rightarrow> order_item list \<Rightarrow> (binding \<times> row) list \<Rightarrow> (binding \<times> row) list result" where
  "order_rows L order rows =
     (if order = [] then Inr rows
      else attempt (validate_order_values L rows order) (\<lambda>_.
        Inr (stable_sort (\<lambda>(b, _) (c, _). compare_order L b c order) rows)))"

section \<open>The materialized executor\<close>

record 's row_sink =
  on_meta :: "string list \<Rightarrow> 's \<Rightarrow> sink_flow \<times> 's"
  push_row :: "row \<Rightarrow> 's \<Rightarrow> sink_flow \<times> 's"

fun push_rows :: "'s row_sink \<Rightarrow> row list \<Rightarrow> 's \<Rightarrow> bool \<times> 's" where
  "push_rows sink [] s = (False, s)"
| "push_rows sink (r # rows) s =
     (case push_row sink r s of
        (Stop, s) \<Rightarrow> (True, s)
      | (Continue, s) \<Rightarrow> push_rows sink rows s)"

text \<open>The bindings of the whole query, and then its rows.\<close>

definition query_bindings ::
    "'n :: linorder literal_lib \<Rightarrow> chrono \<Rightarrow> (string \<Rightarrow> string) \<Rightarrow> database \<Rightarrow> physical_query
       \<Rightarrow> binding list result" where
  "query_bindings L C nfc db q =
     fst (attempt_st (union_branches L C nfc db (ph_domains q) (ph_branches q) Map.empty) (\<lambda>bs cache.
     attempt_st (without_blocks L C nfc db (ph_not_exists q) bs cache) (\<lambda>bs cache.
     (try_fold (\<lambda>p. try_filter (evaluate_predicate L C p)) (ph_predicates q) bs, cache))))"

definition query_rows ::
    "'n :: linorder literal_lib \<Rightarrow> chrono \<Rightarrow> physical_query \<Rightarrow> binding list \<Rightarrow> row list result" where
  "query_rows L C q bs =
     attempt (try_map (\<lambda>b. attempt (project C (ph_returns q) b) (\<lambda>r. Inr (b, r))) bs) (\<lambda>rows.
     attempt (order_rows L (ph_order q) (if ph_distinct q then distinct_rows rows [] else rows)) (\<lambda>rows.
     Inr (map snd rows)))"

text \<open>The state is what was returned as columns, and the sink's.\<close>

definition execute_materialized ::
    "'n :: linorder literal_lib \<Rightarrow> chrono \<Rightarrow> (string \<Rightarrow> string) \<Rightarrow> database \<Rightarrow> physical_query \<Rightarrow> 's row_sink
       \<Rightarrow> string list option \<times> 's \<Rightarrow> search_outcome result \<times> (string list option \<times> 's)" where
  "execute_materialized L C nfc db q sink st =
     attempt_st (query_bindings L C nfc db q, st) (\<lambda>bs st.
     attempt_st (collect_identities bs, st) (\<lambda>identities st.
     let outcome = (\<lambda>stopped. \<lparr>matched_rows = length bs, identity_bindings = identities,
           has_return = (ph_returns q \<noteq> []), sink_stopped = stopped\<rparr>)
     in if ph_returns q = [] then (Inr (outcome False), st)
        else
     attempt_st (query_rows L C q bs, st) (\<lambda>rows (_, s).
     case on_meta sink (ph_returns q) s of
       (Stop, s) \<Rightarrow> (Inr (outcome True), (Some (ph_returns q), s))
     | (Continue, s) \<Rightarrow>
         let (stopped, s) = push_rows sink rows s
         in (Inr (outcome stopped), (Some (ph_returns q), s)))))"

end
