(* ===== verification/Query_Plan.thy ===== *)
theory Query_Plan
  imports Query_Execution
begin

text \<open>
  The planner of \<open>src/traqula/query.rs\<close> and \<open>src/traqula/query/plan.rs\<close>: the order in which the patterns
  of a branch are joined, how each finds its candidates, which executor runs the query, and where its
  predicates are applied.  A reference to a pattern of a branch is the pattern with its index.
\<close>

section \<open>Join order\<close>

definition named_roles :: "posit_pattern \<Rightarrow> string list" where
  "named_roles p =
     concat (map (\<lambda>m. case role_pattern m of NamedRole name \<Rightarrow> [name] | _ \<Rightarrow> [])
       (set_members (pat_appearances p)))"

definition estimated_candidate_count ::
    "(string \<Rightarrow> string) \<Rightarrow> database \<Rightarrow> posit_pattern \<Rightarrow> u64" where
  "estimated_candidate_count nfc db p =
     (let roles = map (\<lambda>name. get_role nfc name (role_keeper db)) (named_roles p)
      in if roles = [] then - 1
         else if None \<in> set roles then 0
         else Min (set (map (\<lambda>r. treemap_len (role_to_posit_thing db (role_thing (the r)))) roles)))"

text \<open>The first of the pending patterns with the smallest estimate among those that can be joined.\<close>

fun best_pattern ::
    "(posit_pattern \<Rightarrow> u64) \<Rightarrow> string set \<Rightarrow> nat \<Rightarrow> (nat \<times> posit_pattern) list \<Rightarrow> (nat \<times> u64) option
       \<Rightarrow> (nat \<times> u64) option" where
  "best_pattern estimate available i [] best = best"
| "best_pattern estimate available i ((_, p) # pending) best =
     best_pattern estimate available (Suc i) pending
       (if dependencies p \<subseteq> available
           \<and> (case best of None \<Rightarrow> True | Some (_, best_estimate) \<Rightarrow> estimate p < best_estimate)
        then Some (i, estimate p) else best)"

lemma best_pattern_less:
  "best_pattern estimate available i pending best = Some (k, e) \<Longrightarrow>
     best = Some (k, e) \<or> i \<le> k \<and> k < i + length pending"
  by (induction estimate available i pending best rule: best_pattern.induct)
    (auto split: if_splits option.splits)

lemma best_pattern_index [termination_simp]:
  "best_pattern estimate available 0 pending None = Some (k, e) \<Longrightarrow> k < length pending"
  by (drule best_pattern_less) simp

fun plan_patterns ::
    "(posit_pattern \<Rightarrow> u64) \<Rightarrow> (nat \<times> posit_pattern) list \<Rightarrow> string set \<Rightarrow> (nat \<times> posit_pattern) list
       \<Rightarrow> (nat \<times> posit_pattern) list result" where
  "plan_patterns estimate pending available ordered =
     (if pending = [] then Inr ordered
      else case best_pattern estimate available 0 pending None of
        None \<Rightarrow> Inl unresolvable
      | Some (i, _) \<Rightarrow>
          plan_patterns estimate (remove_nth i pending)
            (available \<union> introduced (snd (pending ! i))) (ordered @ [pending ! i]))"

declare plan_patterns.simps [simp del]

section \<open>Access paths\<close>

definition access_path :: "posit_pattern \<Rightarrow> string set \<Rightarrow> plan_access" where
  "access_path p available =
     (if pat_effect p \<noteq> None then EffectiveSliceAccess
      else
        let names = (if pat_cutoff p = None then option_names (pat_posit p) else [])
              @ option_names (set_binding (pat_appearances p))
              @ concat (map (\<lambda>m. role_names (role_pattern m) @ thing_names (thing_pattern m)
                  @ union_names (thing_pattern m)) (set_members (pat_appearances p)));
            roles = remdups_adj (sort (named_roles p));
            bindings = remdups_adj (sort (filter (\<lambda>name. name \<in> available) names))
        in if roles = [] \<and> bindings = [] then FullScan else Bitmap roles bindings)"

section \<open>Compilation\<close>

definition plan_estimate_of :: "(string \<Rightarrow> string) \<Rightarrow> database \<Rightarrow> posit_pattern \<Rightarrow> u64" where
  "plan_estimate_of nfc db p =
     (if pat_effect p \<noteq> None
      then min (treemap_len (role_to_posit_thing db posit_role_id))
        (treemap_len (role_to_posit_thing db ascertains_role_id))
      else
        let estimate = estimated_candidate_count nfc db p
        in if estimate = - 1 then word_of_nat (keeper_length (posit_keeper db)) else estimate)"

fun compile_patterns ::
    "(string \<Rightarrow> string) \<Rightarrow> database \<Rightarrow> (nat \<times> posit_pattern) list \<Rightarrow> domains
       \<Rightarrow> (planned_pattern list \<times> domains) result" where
  "compile_patterns nfc db [] D = Inr ([], D)"
| "compile_patterns nfc db ((i, p) # ps) D =
     (let pp = \<lparr>planned = p, plan_source = i + 1, plan_access = access_path p (set (map fst D)),
          plan_estimate = plan_estimate_of nfc db p, plan_input = D, plan_predicates = []\<rparr>
      in attempt (register_pattern p D) (\<lambda>D.
         attempt (compile_patterns nfc db ps D) (\<lambda>(pps, D). Inr (pp # pps, D))))"

definition compile_branch ::
    "(string \<Rightarrow> string) \<Rightarrow> database \<Rightarrow> posit_pattern list \<Rightarrow> domains \<Rightarrow> string \<Rightarrow> planned_branch result" where
  "compile_branch nfc db patterns D scope =
     attempt (plan_patterns (estimated_candidate_count nfc db) (enumerate 0 patterns) (set (map fst D)) []) (\<lambda>ordered.
     attempt (compile_patterns nfc db ordered D) (\<lambda>(pps, D).
     Inr \<lparr>branch_patterns = pps, branch_domains = D, branch_scope = scope\<rparr>))"

definition materialization_reason :: "query \<Rightarrow> domains \<Rightarrow> string option" where
  "materialization_reason q D =
     (let patterns = concat (q_branches q @ q_not_exists q)
      in if q_has_fallback q then Some ''search_or_add_requires_complete_identity_bindings''
         else if list_ex (\<lambda>p. pat_effect p \<noteq> None) patterns
         then Some ''effective_evidence_requires_complete_validation''
         else if list_ex (\<lambda>p. case pat_value p of ValueLiteral _ \<Rightarrow> True | _ \<Rightarrow> False) patterns
           \<or> list_ex (\<lambda>p. the (map_of D (pred_left p)) = LiteralDomain \<and> pred_operator p \<noteq> ''==='')
               (q_predicates q)
         then Some ''literal_comparisons_require_complete_validation''
         else None)"

text \<open>Every predicate is applied by the first pattern after which its operands are bound.\<close>

definition predicate_ready :: "string set \<Rightarrow> query_predicate \<Rightarrow> bool" where
  "predicate_ready available p \<longleftrightarrow> pred_left p \<in> available
     \<and> (case pred_right p of OperandVariable name \<Rightarrow> name \<in> available | _ \<Rightarrow> True)"

fun push_predicates ::
    "string set \<Rightarrow> query_predicate list \<Rightarrow> planned_pattern list \<Rightarrow> planned_pattern list" where
  "push_predicates available remaining [] = []"
| "push_predicates available remaining (pp # pps) =
     (let available = available \<union> introduced (planned pp)
      in pp\<lparr>plan_predicates := plan_predicates pp @ filter (predicate_ready available) remaining\<rparr>
         # push_predicates available (filter (\<lambda>p. \<not> predicate_ready available p) remaining) pps)"

definition scope_name :: "string \<Rightarrow> nat \<Rightarrow> string" where
  "scope_name prefix i = prefix @ show_nat (i + 1)"

text \<open>\<open>effective_limit\<close>: the lower of the query's limit and the caller's.\<close>

definition effective_limit :: "nat option \<Rightarrow> nat option \<Rightarrow> nat option" where
  "effective_limit maximum query_limit =
     (case (query_limit, maximum) of
        (Some q, Some m) \<Rightarrow> Some (min q m)
      | (Some q, None) \<Rightarrow> Some q
      | (None, m) \<Rightarrow> m)"

definition compile_query ::
    "(string \<Rightarrow> string) \<Rightarrow> database \<Rightarrow> nat option \<Rightarrow> prepared_query \<Rightarrow> physical_query result" where
  "compile_query nfc db maximum pq =
     (let q = prepared pq; D = prepared_domains pq; reason = materialization_reason q D
      in attempt (try_map (\<lambda>(i, ps). compile_branch nfc db ps [] (scope_name ''branch_'' i))
           (enumerate 0 (q_branches q))) (\<lambda>branches.
         attempt (try_map (\<lambda>(i, ps). compile_branch nfc db ps D (scope_name ''not_exists_'' i))
           (enumerate 0 (q_not_exists q))) (\<lambda>blocks.
         Inr \<lparr>ph_branches = (if reason = None
              then map (\<lambda>b. b\<lparr>branch_patterns := push_predicates {} (q_predicates q) (branch_patterns b)\<rparr>)
                branches
              else branches),
            ph_not_exists = blocks, ph_predicates = q_predicates q, ph_returns = q_returns q,
            ph_distinct = q_distinct q, ph_order = q_order q, ph_domains = D, ph_limit = effective_limit maximum (q_limit q),
            ph_materialization = reason\<rparr>)))"

definition prepare_query :: "query \<Rightarrow> prepared_query result" where
  "prepare_query q =
     attempt (validate_domains q) (\<lambda>D. Inr \<lparr>prepared = q, prepared_domains = D\<rparr>)"

end
