(* ===== verification/Query_Pipeline.thy ===== *)
theory Query_Pipeline
  imports Query_Plan
begin

text \<open>
  The incremental executor of \<open>src/traqula/query/pipeline.rs\<close>: bindings are produced one at a time, depth
  first, filtered as soon as a predicate can be decided, and handed to the sink, or to the ordered rows
  when the query has an order.  The state that the closures capture is threaded.
\<close>

section \<open>Producing bindings\<close>

definition visit_pattern ::
    "'n literal_lib \<Rightarrow> chrono \<Rightarrow> (string \<Rightarrow> string) \<Rightarrow> database \<Rightarrow> planned_pattern \<Rightarrow> binding
       \<Rightarrow> (binding, 's) visitor \<Rightarrow> 's \<Rightarrow> sink_flow result \<times> 's" where
  "visit_pattern L C nfc db pp input visit s =
     (let p = planned pp
      in if pat_cutoff p \<noteq> None
         then attempt_st (fst (evaluate_pattern L C nfc db pp input Map.empty), s) (visit_all visit)
         else
           attempt_st (candidate_identities nfc db p input (plan_access pp), s)
             (visit_all (\<lambda>t s.
                attempt_st (ok_or (Invariant ''posit index contains an identity without a literal posit'')
                    (posit_of_thing t (posit_keeper db)), s) (\<lambda>q s.
                visit_appearance_set (pat_appearances p) (pset q) input (\<lambda>b s.
                  attempt_st (match_fields L p q b, s) (\<lambda>m s.
                  case m of None \<Rightarrow> (Inr Continue, s) | Some b \<Rightarrow> visit b s)) s))))"

fun holds_all ::
    "'n :: linorder literal_lib \<Rightarrow> chrono \<Rightarrow> query_predicate list \<Rightarrow> binding \<Rightarrow> bool result" where
  "holds_all L C [] b = Inr True"
| "holds_all L C (p # ps) b =
     attempt (evaluate_predicate L C p b) (\<lambda>holds. if holds then holds_all L C ps b else Inr False)"

fun visit_branch ::
    "'n :: linorder literal_lib \<Rightarrow> chrono \<Rightarrow> (string \<Rightarrow> string) \<Rightarrow> database \<Rightarrow> planned_pattern list \<Rightarrow> binding
       \<Rightarrow> (binding, 's) visitor \<Rightarrow> 's \<Rightarrow> sink_flow result \<times> 's" where
  "visit_branch L C nfc db [] input visit s = visit input s"
| "visit_branch L C nfc db (pp # pps) input visit s =
     visit_pattern L C nfc db pp input (\<lambda>b s.
       attempt_st (holds_all L C (plan_predicates pp) b, s) (\<lambda>holds s.
       if holds then visit_branch L C nfc db pps b visit s else (Inr Continue, s))) s"

text \<open>An absence block stops at its first match.\<close>

definition block_found ::
    "'n :: linorder literal_lib \<Rightarrow> chrono \<Rightarrow> (string \<Rightarrow> string) \<Rightarrow> database \<Rightarrow> planned_branch \<Rightarrow> binding
       \<Rightarrow> bool result" where
  "block_found L C nfc db block b =
     (case visit_branch L C nfc db (branch_patterns block) b (\<lambda>_ _. (Inr Stop, True)) False of
        (Inl e, _) \<Rightarrow> Inl e
      | (Inr _, found) \<Rightarrow> Inr found)"

fun any_block_found ::
    "'n :: linorder literal_lib \<Rightarrow> chrono \<Rightarrow> (string \<Rightarrow> string) \<Rightarrow> database \<Rightarrow> planned_branch list \<Rightarrow> binding
       \<Rightarrow> bool result" where
  "any_block_found L C nfc db [] b = Inr False"
| "any_block_found L C nfc db (block # blocks) b =
     attempt (block_found L C nfc db block b) (\<lambda>found.
       if found then Inr True else any_block_found L C nfc db blocks b)"

section \<open>Ordered rows\<close>

datatype 'n sort_key = ValueKey bound_value | LiteralKey "'n literal_order_key"

record 'n ranked_row =
  rank_keys :: "'n sort_key list"
  rank_row :: row
  rank_ordinal :: nat

text \<open>\<open>Ord for RankedRow\<close>; None is the code's \<open>unreachable!\<close>.\<close>

fun compare_keys ::
    "'n :: linorder literal_lib \<Rightarrow> 'n sort_key list \<Rightarrow> 'n sort_key list \<Rightarrow> order_item list \<Rightarrow> ordering option" where
  "compare_keys L (k # ks) (l # ls) (item # items) =
     (case (case (k, l) of
              (ValueKey v, ValueKey w) \<Rightarrow> order_value L v w
            | (LiteralKey x, LiteralKey y) \<Rightarrow> order_key_cmp x y
            | _ \<Rightarrow> None) of
        None \<Rightarrow> None
      | Some r \<Rightarrow>
          if r \<noteq> Equal then Some (if descending item then reverse_ordering r else r)
          else compare_keys L ks ls items)"
| "compare_keys L _ _ _ = Some Equal"

definition compare_ranked ::
    "'n :: linorder literal_lib \<Rightarrow> order_item list \<Rightarrow> 'n ranked_row \<Rightarrow> 'n ranked_row \<Rightarrow> ordering option" where
  "compare_ranked L order x y =
     (case compare_keys L (rank_keys x) (rank_keys y) order of
        Some Equal \<Rightarrow> Some (Literals.compare (rank_ordinal x) (rank_ordinal y))
      | r \<Rightarrow> r)"

text \<open>The binary heap is the ascending list that \<open>into_sorted_vec\<close> makes of it.\<close>

record 'n ordered_rows =
  or_capacity :: "nat option"
  or_families :: "literal_family option list"
  or_ordinal :: nat
  or_heap :: "'n ranked_row list"
  or_all :: "'n ranked_row list"

definition new_ordered_rows :: "order_item list \<Rightarrow> nat option \<Rightarrow> 'n ordered_rows" where
  "new_ordered_rows order limit =
     \<lparr>or_capacity = (case limit of
          None \<Rightarrow> None | Some n \<Rightarrow> if n + 1 \<le> usize_max then Some (n + 1) else None),
      or_families = replicate (length order) None, or_ordinal = 0, or_heap = [], or_all = []\<rparr>"

fun sort_keys ::
    "'n literal_lib \<Rightarrow> binding \<Rightarrow> order_item list \<Rightarrow> literal_family option list
       \<Rightarrow> ('n sort_key list \<times> literal_family option list) result" where
  "sort_keys L b (item # items) (first_one # firsts) =
     attempt (ok_or (UnknownVariable (order_variable item)) (binding_get (order_variable item) b)) (\<lambda>v.
     attempt (case v of
         BoundLiteral x \<Rightarrow>
           (case order_key L x of
              Inl e \<Rightarrow> Inl (Comparison e)
            | Inr key \<Rightarrow>
                (case first_one of
                   None \<Rightarrow> Inr (LiteralKey key, Some (family x))
                 | Some f \<Rightarrow>
                     if (f = CertaintyFamily) \<noteq> (family x = CertaintyFamily)
                     then Inl (Comparison ''ordering is unsupported'')
                     else Inr (LiteralKey key, Some f)))
       | v \<Rightarrow> Inr (ValueKey v, first_one)) (\<lambda>(key, first_one).
     attempt (sort_keys L b items firsts) (\<lambda>(keys, firsts).
     Inr (key # keys, first_one # firsts))))"
| "sort_keys L b _ firsts = Inr ([], firsts)"

definition push_ordered ::
    "'n :: linorder literal_lib \<Rightarrow> order_item list \<Rightarrow> binding \<Rightarrow> row \<Rightarrow> 'n ordered_rows \<Rightarrow> 'n ordered_rows result" where
  "push_ordered L order b r rows =
     attempt (sort_keys L b order (or_families rows)) (\<lambda>(keys, families).
     let ranked = \<lparr>rank_keys = keys, rank_row = r, rank_ordinal = or_ordinal rows\<rparr>
     in if or_ordinal rows + 1 > usize_max
        then Inl (ResourceLimit ''ordered query rows'' (- 1))
        else
          let rows = rows\<lparr>or_families := families, or_ordinal := or_ordinal rows + 1\<rparr>
          in Inr (case or_capacity rows of
               None \<Rightarrow> rows\<lparr>or_all := or_all rows @ [ranked]\<rparr>
             | Some capacity \<Rightarrow>
                 if length (or_heap rows) < capacity
                 then rows\<lparr>or_heap := insert_sorted (compare_ranked L order) ranked (or_heap rows)\<rparr>
                 else if compare_ranked L order ranked (last (or_heap rows)) = Some Less
                 then rows\<lparr>or_heap :=
                   insert_sorted (compare_ranked L order) ranked (butlast (or_heap rows))\<rparr>
                 else rows))"

definition finish_ordered ::
    "'n :: linorder literal_lib \<Rightarrow> order_item list \<Rightarrow> 'n ordered_rows \<Rightarrow> row list" where
  "finish_ordered L order rows =
     map rank_row (if or_capacity rows \<noteq> None then or_heap rows
       else stable_sort (compare_ranked L order) (or_all rows))"

section \<open>The executor\<close>

record ('n, 's) pipeline_state =
  pl_matched :: nat
  pl_seen :: "row list"
  pl_rows :: "'n ordered_rows"
  pl_stopped :: bool
  pl_sink :: 's

definition emit ::
    "'n :: linorder literal_lib \<Rightarrow> chrono \<Rightarrow> (string \<Rightarrow> string) \<Rightarrow> database \<Rightarrow> physical_query \<Rightarrow> 's row_sink
       \<Rightarrow> (binding, ('n, 's) pipeline_state) visitor" where
  "emit L C nfc db q sink b st =
     (let b = common_schema (ph_domains q) b
      in attempt_st (any_block_found L C nfc db (ph_not_exists q) b, st) (\<lambda>found st.
         if found then (Inr Continue, st)
         else
           let st = st\<lparr>pl_matched := min (pl_matched st + 1) usize_max\<rparr>
           in if ph_returns q = [] then (Inr Continue, st)
              else attempt_st (project C (ph_returns q) b, st) (\<lambda>r st.
                if ph_distinct q \<and> r \<in> set (pl_seen st) then (Inr Continue, st)
                else
                  let st = (if ph_distinct q then st\<lparr>pl_seen := r # pl_seen st\<rparr> else st)
                  in if ph_order q \<noteq> []
                     then attempt_st (push_ordered L (ph_order q) b r (pl_rows st), st)
                       (\<lambda>rows st. (Inr Continue, st\<lparr>pl_rows := rows\<rparr>))
                     else
                       (case push_row sink r (pl_sink st) of
                          (Stop, s) \<Rightarrow> (Inr Stop, st\<lparr>pl_sink := s, pl_stopped := True\<rparr>)
                        | (Continue, s) \<Rightarrow> (Inr Continue, st\<lparr>pl_sink := s\<rparr>)))))"

definition pipeline_outcome :: "physical_query \<Rightarrow> nat \<Rightarrow> bool \<Rightarrow> search_outcome" where
  "pipeline_outcome q matched stopped =
     \<lparr>matched_rows = matched, identity_bindings = Map.empty, has_return = (ph_returns q \<noteq> []),
      sink_stopped = stopped\<rparr>"

definition visit_branches ::
    "'n :: linorder literal_lib \<Rightarrow> chrono \<Rightarrow> (string \<Rightarrow> string) \<Rightarrow> database \<Rightarrow> physical_query \<Rightarrow> 's row_sink
       \<Rightarrow> 's \<Rightarrow> sink_flow result \<times> ('n, 's) pipeline_state" where
  "visit_branches L C nfc db q sink s =
     visit_all (\<lambda>branch. visit_branch L C nfc db (branch_patterns branch) [] (emit L C nfc db q sink))
       (ph_branches q)
       \<lparr>pl_matched = 0, pl_seen = [], pl_rows = new_ordered_rows (ph_order q) (ph_limit q),
        pl_stopped = False, pl_sink = s\<rparr>"

definition execute_pipeline ::
    "'n :: linorder literal_lib \<Rightarrow> chrono \<Rightarrow> (string \<Rightarrow> string) \<Rightarrow> database \<Rightarrow> physical_query \<Rightarrow> 's row_sink
       \<Rightarrow> string list option \<times> 's \<Rightarrow> search_outcome result \<times> (string list option \<times> 's)" where
  "execute_pipeline L C nfc db q sink = (\<lambda>(columns, s).
     let returns = ph_returns q; unsorted = (returns \<noteq> [] \<and> ph_order q = []);
         columns = (if unsorted then Some returns else columns);
         (flow, s) = (if unsorted then on_meta sink returns s else (Continue, s))
     in if flow = Stop then (Inr (pipeline_outcome q 0 True), (columns, s))
        else
          case visit_branches L C nfc db q sink s of
            (Inl e, st) \<Rightarrow> (Inl e, (columns, pl_sink st))
          | (Inr _, st) \<Rightarrow>
              if returns \<noteq> [] \<and> ph_order q \<noteq> [] then
                let rows = finish_ordered L (ph_order q) (pl_rows st)
                in (case on_meta sink returns (pl_sink st) of
                      (Stop, s) \<Rightarrow> (Inr (pipeline_outcome q (pl_matched st) True), (Some returns, s))
                    | (Continue, s) \<Rightarrow>
                        let (stopped, s) = push_rows sink rows s
                        in (Inr (pipeline_outcome q (pl_matched st) stopped), (Some returns, s)))
              else (Inr (pipeline_outcome q (pl_matched st) (pl_stopped st)), (columns, pl_sink st)))"

definition execute_plan ::
    "'n :: linorder literal_lib \<Rightarrow> chrono \<Rightarrow> (string \<Rightarrow> string) \<Rightarrow> database \<Rightarrow> physical_query \<Rightarrow> 's row_sink
       \<Rightarrow> string list option \<times> 's \<Rightarrow> search_outcome result \<times> (string list option \<times> 's)" where
  "execute_plan L C nfc db q sink st =
     (if ph_materialization q = None then execute_pipeline L C nfc db q sink st
      else execute_materialized L C nfc db q sink st)"

definition execute_prepared ::
    "'n :: linorder literal_lib \<Rightarrow> chrono \<Rightarrow> (string \<Rightarrow> string) \<Rightarrow> database \<Rightarrow> nat option \<Rightarrow> prepared_query
       \<Rightarrow> 's row_sink \<Rightarrow> string list option \<times> 's \<Rightarrow> search_outcome result \<times> (string list option \<times> 's)" where
  "execute_prepared L C nfc db maximum pq sink st =
     attempt_st (compile_query nfc db maximum pq, st)
       (\<lambda>q st. execute_plan L C nfc db q sink st)"

definition execute_query ::
    "'n :: linorder literal_lib \<Rightarrow> chrono \<Rightarrow> (string \<Rightarrow> string) \<Rightarrow> database \<Rightarrow> nat option \<Rightarrow> query
       \<Rightarrow> 's row_sink \<Rightarrow> string list option \<times> 's \<Rightarrow> search_outcome result \<times> (string list option \<times> 's)" where
  "execute_query L C nfc db maximum q sink st =
     attempt_st (prepare_query q, st)
       (\<lambda>pq st. execute_prepared L C nfc db maximum pq sink st)"

end
