(* ===== verification/Query_Typing.thy ===== *)
theory Query_Typing
  imports Query_Plan Database_Properties
begin

text \<open>
  The domains of variables as a type system: which sets of domains a variable may be given, the domain
  they resolve to, and when a binding fits an environment that gives every variable its domains.
  Registering the names of patterns computes such an environment, in whatever order; binding a value of
  a coherent domain succeeds and keeps the binding fitting.
\<close>

section \<open>Coherent sets of domains\<close>

text \<open>A thing and a posit are one kind, as a posit is a thing.\<close>

fun domain_kind :: "query_domain \<Rightarrow> query_domain" where
  "domain_kind PositDomain = ThingDomain"
| "domain_kind d = d"

definition coherent :: "query_domain set \<Rightarrow> bool" where
  "coherent S \<longleftrightarrow> (\<forall>d \<in> S. \<forall>e \<in> S. domain_kind d = domain_kind e)"

definition resolved :: "query_domain set \<Rightarrow> query_domain option" where
  "resolved S = (if S = {} then None else if PositDomain \<in> S then Some PositDomain else Some (the_elem S))"

lemma coherent_subset: "coherent T \<Longrightarrow> S \<subseteq> T \<Longrightarrow> coherent S"
  unfolding coherent_def by blast

lemma domain_kind_eq:
  "domain_kind d = domain_kind e \<longleftrightarrow> d = e \<or> {d, e} = {ThingDomain, PositDomain}"
  by (cases d; cases e) auto

lemma coherent_cases:
  assumes "coherent S"
  obtains "S = {}" | d where "S = {d}" | "S = {ThingDomain, PositDomain}"
proof (cases "S \<subseteq> {ThingDomain, PositDomain}")
  case True
  with that show thesis by (cases "ThingDomain \<in> S"; cases "PositDomain \<in> S") blast+
next
  case False
  then obtain d where d: "d \<in> S" "d \<noteq> ThingDomain" "d \<noteq> PositDomain" by blast
  have "e = d" if "e \<in> S" for e
    using assms d that unfolding coherent_def domain_kind_eq by (metis doubleton_eq_iff)
  with d that(2) [of d] show thesis by blast
qed

lemma resolved_simps [simp]:
  "resolved {} = None" "resolved {d} = Some d" "resolved {ThingDomain, PositDomain} = Some PositDomain"
  "resolved {PositDomain, ThingDomain} = Some PositDomain"
  by (simp_all add: resolved_def)

lemma resolved_None [simp]: "resolved S = None \<longleftrightarrow> S = {}"
  by (simp add: resolved_def)

lemma resolved_member: "coherent S \<Longrightarrow> resolved S = Some d \<Longrightarrow> d \<in> S"
  by (erule coherent_cases) auto

lemma resolved_kind:
  assumes "coherent S" and "resolved S = Some d" and "e \<in> S"
  shows "domain_kind e = domain_kind d"
  using assms resolved_member [OF assms(1,2)] unfolding coherent_def by blast

text \<open>A resolved domain stands for the set it came from.\<close>

lemma resolved_absorb:
  assumes "coherent S" and "S' \<subseteq> S" and "coherent (set_option (resolved S) \<union> S' \<union> T)"
  shows "coherent (S \<union> T) \<and> resolved (set_option (resolved S) \<union> S' \<union> T) = resolved (S \<union> T)"
  using assms(1)
proof (cases rule: coherent_cases)
  case 1
  with assms show ?thesis by simp
next
  case (2 d)
  then have "set_option (resolved S) \<union> S' \<union> T = S \<union> T" using assms(2) by auto
  with assms(3) show ?thesis by simp
next
  case 3
  have "T \<subseteq> {ThingDomain, PositDomain}"
  proof
    fix d assume "d \<in> T"
    with assms(3) 3 have "domain_kind d = domain_kind PositDomain" unfolding coherent_def by simp
    then show "d \<in> {ThingDomain, PositDomain}" by (cases d) simp_all
  qed
  moreover have "coherent {ThingDomain, PositDomain}" by (simp add: coherent_def)
  ultimately have "coherent (S \<union> T)" using 3 by (auto intro: coherent_subset)
  with 3 show ?thesis by (simp add: resolved_def)
qed

lemma coherent_absorb:
  assumes "coherent (S \<union> T)" and "S' \<subseteq> S"
  shows "coherent (set_option (resolved S) \<union> S' \<union> T)"
proof -
  have "coherent S" using assms(1) by (rule coherent_subset) simp
  then have "set_option (resolved S) \<subseteq> S" using resolved_member by (auto split: option.splits)
  with assms show ?thesis by (intro coherent_subset [OF assms(1)]) auto
qed

section \<open>Environments\<close>

type_synonym environment = "string \<Rightarrow> query_domain set"

definition declares :: "(string \<times> query_domain) list \<Rightarrow> environment" where
  "declares l name = {d. (name, d) \<in> set l}"

definition env_of :: "domains \<Rightarrow> environment" where
  "env_of D name = set_option (map_of D name)"

definition merge_env :: "environment \<Rightarrow> environment \<Rightarrow> environment" where
  "merge_env E F = (\<lambda>name. E name \<union> F name)"

definition coherent_env :: "environment \<Rightarrow> bool" where
  "coherent_env E \<longleftrightarrow> (\<forall>name. coherent (E name))"

lemma declares_simps [simp]:
  "declares [] = (\<lambda>_. {})" "declares (l @ m) = merge_env (declares l) (declares m)"
  by (auto simp: declares_def merge_env_def fun_eq_iff)

lemma declares_Cons: "declares ((n, d) # l) = merge_env (\<lambda>m. if m = n then {d} else {}) (declares l)"
  by (auto simp: declares_def merge_env_def fun_eq_iff)

lemma merge_env_assoc: "merge_env (merge_env E F) G = merge_env E (merge_env F G)"
  by (simp add: merge_env_def fun_eq_iff Un_assoc)

lemma merge_env_empty [simp]: "merge_env E (\<lambda>_. {}) = E" "merge_env (\<lambda>_. {}) E = E"
  by (simp_all add: merge_env_def)

lemma merge_env_commute: "merge_env E F = merge_env F E"
  by (simp add: merge_env_def fun_eq_iff Un_commute)

lemma coherent_env_mono: "coherent_env F \<Longrightarrow> (\<And>name. E name \<subseteq> F name) \<Longrightarrow> coherent_env E"
  unfolding coherent_env_def using coherent_subset by blast

lemma coherent_envD: "coherent_env E \<Longrightarrow> coherent (E name)"
  by (simp add: coherent_env_def)

text \<open>Registration computes the resolved environment.\<close>

lemma register_domain_ok:
  assumes "coherent (insert d (set_option (map_of D name)))"
  shows "\<exists>D'. register_domain name d D = Inr D'
    \<and> map_of D' = (map_of D)(name \<mapsto> the (resolved (insert d (set_option (map_of D name)))))"
proof (cases "map_of D name")
  case None
  then show ?thesis by (simp add: register_domain_def update_conv')
next
  case (Some e)
  with assms have "coherent {d, e}" by simp
  then have "domain_kind d = domain_kind e" unfolding coherent_def by blast
  then consider "d = e" | "d = ThingDomain" "e = PositDomain" | "d = PositDomain" "e = ThingDomain"
    by (cases d; cases e) simp_all
  then show ?thesis
  proof cases
    case 1
    with Some have "register_domain name d D = Inr D" by (simp add: register_domain_def)
    moreover have "map_of D = (map_of D)(name \<mapsto> e)" using Some by (simp add: map_upd_triv)
    ultimately show ?thesis using Some 1 by simp
  next
    case 2
    with Some have "register_domain name d D = Inr D" by (simp add: register_domain_def)
    moreover have "map_of D = (map_of D)(name \<mapsto> PositDomain)" using Some 2 by (simp add: map_upd_triv)
    ultimately show ?thesis using Some 2 by simp
  next
    case 3
    with Some show ?thesis by (simp add: register_domain_def update_conv')
  qed
qed

lemma register_domain_coherent:
  assumes "register_domain name d D = Inr D'"
  shows "coherent (insert d (set_option (map_of D name)))"
proof (cases "map_of D name")
  case None
  then show ?thesis by (simp add: coherent_def)
next
  case (Some e)
  with assms have "d = e \<or> d = PositDomain \<and> e = ThingDomain \<or> d = ThingDomain \<and> e = PositDomain"
    by (auto simp: register_domain_def split: if_splits)
  with Some show ?thesis by (auto simp: coherent_def)
qed

definition register_all :: "(string \<times> query_domain) list \<Rightarrow> domains \<Rightarrow> domains result" where
  "register_all l = try_fold (\<lambda>(name, d). register_domain name d) l"

lemma env_of_update:
  assumes "map_of D' = (map_of D)(name \<mapsto> the (resolved (insert d (set_option (map_of D name)))))"
  shows "env_of D' = (\<lambda>m. if m = name then set_option (resolved (insert d (env_of D name))) else env_of D m)"
  using assms by (auto simp: env_of_def fun_eq_iff)

text \<open>One step: a resolved environment extended.\<close>

lemma step_env:
  fixes E :: environment and l and d name
  defines "E' \<equiv> (\<lambda>m. if m = name then set_option (resolved (insert d (E name))) else E m)"
  assumes "coherent (insert d (E name))"
  shows "coherent_env (merge_env E' F) \<longleftrightarrow> coherent_env (merge_env (merge_env E (\<lambda>m. if m = name then {d} else {})) F)"
    and "coherent_env (merge_env E' F) \<Longrightarrow>
      resolved (merge_env E' F m) = resolved (merge_env (merge_env E (\<lambda>m. if m = name then {d} else {})) F m)"
proof -
  have absorb: "coherent (set_option (resolved (insert d (E name))) \<union> F name) \<longleftrightarrow> coherent (insert d (E name) \<union> F name)"
    "coherent (set_option (resolved (insert d (E name))) \<union> F name) \<Longrightarrow>
      resolved (set_option (resolved (insert d (E name))) \<union> F name) = resolved (insert d (E name) \<union> F name)"
    using resolved_absorb [OF assms(2), of "{}" "F name"] coherent_absorb [of "insert d (E name)" "F name" "{}"]
    by auto
  show "coherent_env (merge_env E' F) \<longleftrightarrow> coherent_env (merge_env (merge_env E (\<lambda>m. if m = name then {d} else {})) F)"
    unfolding coherent_env_def merge_env_def E'_def using absorb(1) by (auto split: if_splits)
  show "coherent_env (merge_env E' F) \<Longrightarrow>
      resolved (merge_env E' F m) = resolved (merge_env (merge_env E (\<lambda>m. if m = name then {d} else {})) F m)"
    using absorb(2) by (auto simp: merge_env_def E'_def dest: coherent_envD [where name = name])
qed

lemma register_all_simps [simp]:
  "register_all [] D = Inr D"
  "register_all ((name, d) # l) D = attempt (register_domain name d D) (register_all l)"
  "register_all (l @ m) D = attempt (register_all l D) (register_all m)"
  by (simp_all add: register_all_def try_fold_append)

lemma resolved_env_of [simp]: "resolved (env_of D name) = map_of D name"
  by (cases "map_of D name") (simp_all add: env_of_def)

lemma coherent_env_of [simp]: "coherent_env (env_of D)"
  unfolding coherent_env_def env_of_def coherent_def by (auto split: option.splits)

definition register_spec :: "(string \<times> query_domain) list \<Rightarrow> domains \<Rightarrow> domains result \<Rightarrow> bool" where
  "register_spec l D r \<longleftrightarrow>
     (if coherent_env (merge_env (env_of D) (declares l))
      then \<exists>D'. r = Inr D' \<and> map_of D' = (\<lambda>name. resolved (merge_env (env_of D) (declares l) name))
      else \<exists>e. r = Inl e)"

lemma register_all_spec: "register_spec l D (register_all l D)"
proof (induction l arbitrary: D)
  case Nil
  then show ?case by (simp add: register_spec_def)
next
  case (Cons x l)
  obtain n d where x [simp]: "x = (n, d)" by (cases x)
  let ?F = "merge_env (env_of D) (declares ((n, d) # l))"
  show ?case
  proof (cases "coherent (insert d (env_of D n))")
    case True
    then obtain D' where step: "register_domain n d D = Inr D'"
      and D': "map_of D' = (map_of D)(n \<mapsto> the (resolved (insert d (env_of D n))))"
      using register_domain_ok [of d D n] by (auto simp: env_of_def)
    have E: "env_of D' = (\<lambda>m. if m = n then set_option (resolved (insert d (env_of D n))) else env_of D m)"
      using env_of_update D' by (simp add: env_of_def)
    have F: "?F = merge_env (merge_env (env_of D) (\<lambda>m. if m = n then {d} else {})) (declares l)"
      by (simp add: declares_Cons merge_env_assoc)
    have "coherent_env (merge_env (env_of D') (declares l)) \<longleftrightarrow> coherent_env ?F"
      unfolding E F by (rule step_env(1), rule True)
    moreover have "coherent_env (merge_env (env_of D') (declares l)) \<Longrightarrow>
      resolved (merge_env (env_of D') (declares l) m) = resolved (?F m)" for m
      unfolding E F by (rule step_env(2), rule True)
    ultimately show ?thesis using Cons.IH [of D'] step by (auto simp: register_spec_def)
  next
    case False
    then have "\<not> coherent_env ?F"
      using coherent_subset [of "?F n" "insert d (env_of D n)"]
      by (auto simp: merge_env_def declares_Cons coherent_env_def)
    moreover obtain e where "register_domain n d D = Inl e"
      using False register_domain_coherent [of n d D] by (cases "register_domain n d D") (auto simp: env_of_def)
    ultimately show ?thesis by (simp add: register_spec_def)
  qed
qed

lemma register_all_Inr:
  "register_all l D = Inr D' \<Longrightarrow> coherent_env (merge_env (env_of D) (declares l))"
  "register_all l D = Inr D' \<Longrightarrow> map_of D' name = resolved (merge_env (env_of D) (declares l) name)"
  using register_all_spec [of l D] by (auto simp: register_spec_def split: if_splits)

lemma register_all_ok:
  assumes "coherent_env (merge_env (env_of D) (declares l))"
  obtains D' where "register_all l D = Inr D'"
  using register_all_spec [of l D] assms by (auto simp: register_spec_def)

lemma declares_mset: "set l = set m \<Longrightarrow> declares l = declares m"
  by (simp add: declares_def fun_eq_iff)

section \<open>The names of patterns\<close>

text \<open>What a pattern declares, in the order in which its names are registered.\<close>

definition in_domain :: "query_domain \<Rightarrow> string list \<Rightarrow> (string \<times> query_domain) list" where
  "in_domain d names = map (\<lambda>name. (name, d)) names"

definition member_schema :: "appearance_pattern \<Rightarrow> (string \<times> query_domain) list" where
  "member_schema m =
     in_domain ThingDomain (thing_names (thing_pattern m)) @ in_domain RoleDomain (role_names (role_pattern m))"

definition own_schema :: "posit_pattern \<Rightarrow> (string \<times> query_domain) list" where
  "own_schema p =
     in_domain PositDomain (option_names (pat_posit p))
     @ in_domain AppearanceSetDomain (option_names (set_binding (pat_appearances p)))
     @ concat (map member_schema (set_members (pat_appearances p)))
     @ in_domain LiteralDomain (value_names (pat_value p)) @ in_domain TimeDomain (time_names (pat_time p))"

fun schema :: "posit_pattern \<Rightarrow> (string \<times> query_domain) list" where
  "schema p = own_schema p @ (case via_of p of None \<Rightarrow> [] | Some via \<Rightarrow> schema via)"

declare schema.simps [simp del]

definition schemas :: "posit_pattern list \<Rightarrow> (string \<times> query_domain) list" where
  "schemas ps = concat (map schema ps)"

lemma schemas_simps [simp]: "schemas [] = []" "schemas (p # ps) = schema p @ schemas ps"
  by (simp_all add: schemas_def)

lemma fst_in_domain [simp]: "fst ` set (in_domain d names) = set names"
  by (force simp: in_domain_def)

lemma introduced_schema: "introduced p = fst ` set (schema p)"
proof (induction p rule: introduced.induct)
  case (1 p)
  have member: "fst ` set (concat (map member_schema ms)) =
      set (concat (map (\<lambda>m. thing_names (thing_pattern m) @ role_names (role_pattern m)) ms))" for ms
    by (induction ms) (simp_all add: member_schema_def image_Un)
  then have "set (own_introduced p) = fst ` set (own_schema p)"
    by (simp add: own_introduced_def own_schema_def member_names_def image_Un del: set_concat)
  with 1 show ?case
    by (simp add: introduced.simps [of p] schema.simps [of p] image_Un split: option.split)
qed

lemma register_names_all: "register_names names d = register_all (in_domain d names)"
proof
  show "register_names names d D = register_all (in_domain d names) D" for D
    by (induction names arbitrary: D)
      (auto simp: register_names_def in_domain_def intro!: attempt_cong)
qed

lemma attempt_assoc: "attempt (attempt r f) g = attempt r (\<lambda>x. attempt (f x) g)"
  by (cases r) simp_all

lemma register_pattern_all: "register_pattern p D = register_all (schema p) D"
proof (induction p arbitrary: D rule: schema.induct)
  case (1 p)
  have members: "try_fold (\<lambda>m D. attempt (register_names (thing_names (thing_pattern m)) ThingDomain D)
      (register_names (role_names (role_pattern m)) RoleDomain)) ms D
    = register_all (concat (map member_schema ms)) D" for ms D
    by (induction ms arbitrary: D)
      (auto simp: member_schema_def register_names_all attempt_assoc intro!: attempt_cong)
  have "register_own p D = register_all (own_schema p) D" for D
    unfolding register_own_def members unfolding own_schema_def register_names_all
    by (simp cong: attempt_cong)
  with 1 show ?case
    by (auto simp: register_pattern.simps [of p] schema.simps [of p] intro!: attempt_cong split: option.split)
qed

lemma register_patterns_all: "try_fold register_pattern ps D = register_all (schemas ps) D"
  by (induction ps arbitrary: D) (auto simp: register_pattern_all intro!: attempt_cong)

lemma register_all_dom: "register_all l D = Inr D' \<Longrightarrow> set (map fst D') = set (map fst D) \<union> fst ` set l"
proof -
  assume r: "register_all l D = Inr D'"
  have "name \<in> set (map fst D') \<longleftrightarrow> name \<in> set (map fst D) \<union> fst ` set l" for name
  proof -
    have "name \<in> set (map fst D') \<longleftrightarrow> merge_env (env_of D) (declares l) name \<noteq> {}"
      using register_all_Inr(2) [OF r, of name] map_of_eq_None_iff [of D' name] by (auto simp: image_iff)
    also have "\<dots> \<longleftrightarrow> name \<in> set (map fst D) \<union> fst ` set l"
      using map_of_eq_None_iff [of D name]
      by (cases "map_of D name") (force simp: merge_env_def env_of_def declares_def)+
    finally show ?thesis .
  qed
  then show ?thesis by blast
qed

end
