(* ===== verification/Query_Order.thy ===== *)
theory Query_Order
  imports Query_Typing "HOL-Library.Multiset"
begin

text \<open>
  The join order of \<open>src/traqula/query/plan.rs\<close>: the planner joins, among the patterns whose
  dependencies are bound, one with the smallest estimate.  What validation resolves the planner never
  gets stuck on, because binding more names keeps every other order joinable; and registering the names
  of the patterns in the order of the plan gives the domains that validation found in the query's order.
\<close>

section \<open>Orders that can be joined\<close>

text \<open>Every pattern of an order depends on names that are bound when it is reached.\<close>

fun joinable :: "string set \<Rightarrow> posit_pattern list \<Rightarrow> bool" where
  "joinable A [] \<longleftrightarrow> True"
| "joinable A (p # ps) \<longleftrightarrow> dependencies p \<subseteq> A \<and> joinable (A \<union> introduced p) ps"

text \<open>No later pattern that could have been joined is cheaper, or as cheap and earlier in the query.\<close>

fun cheapest_first :: "(posit_pattern \<Rightarrow> u64) \<Rightarrow> string set \<Rightarrow> (nat \<times> posit_pattern) list \<Rightarrow> bool" where
  "cheapest_first estimate A [] \<longleftrightarrow> True"
| "cheapest_first estimate A ((i, p) # ps) \<longleftrightarrow>
     (\<forall>(j, q) \<in> set ps. dependencies q \<subseteq> A \<longrightarrow>
        estimate p < estimate q \<or> estimate p = estimate q \<and> i < j)
     \<and> cheapest_first estimate (A \<union> introduced p) ps"

definition solvable :: "string set \<Rightarrow> posit_pattern multiset \<Rightarrow> bool" where
  "solvable A M \<longleftrightarrow> (\<exists>ps. mset ps = M \<and> joinable A ps)"

lemma joinable_mono: "joinable A ps \<Longrightarrow> A \<subseteq> B \<Longrightarrow> joinable B ps"
  by (induction ps arbitrary: A B) (auto, blast)

lemma joinable_earlier: "joinable A (ps @ p # qs) \<Longrightarrow> joinable (A \<union> introduced p) (ps @ qs)"
proof (induction ps arbitrary: A)
  case (Cons q ps)
  then show ?case using joinable_mono by (fastforce simp: Un_ac)
qed simp

lemma solvable_earlier: "solvable A (add_mset p M) \<Longrightarrow> solvable (A \<union> introduced p) M"
proof -
  assume "solvable A (add_mset p M)"
  then obtain ps where ps: "mset ps = add_mset p M" "joinable A ps" by (auto simp: solvable_def)
  then have "p \<in> set ps" by (metis set_mset_mset union_single_eq_member)
  then obtain qs rs where "ps = qs @ p # rs" by (meson split_list)
  with ps show ?thesis unfolding solvable_def by (intro exI [of _ "qs @ rs"]) (simp add: joinable_earlier)
qed

lemma solvable_available:
  assumes "solvable A M" and "M \<noteq> {#}"
  shows "\<exists>p \<in># M. dependencies p \<subseteq> A"
proof -
  obtain ps where ps: "mset ps = M" "joinable A ps" using assms(1) by (auto simp: solvable_def)
  with assms(2) show ?thesis by (cases ps) auto
qed

lemma mset_remove_nth: "i < length xs \<Longrightarrow> mset xs = add_mset (xs ! i) (mset (remove_nth i xs))"
  by (subst id_take_nth_drop [of i xs]) (simp_all add: remove_nth_def)

lemma map_remove_nth [simp]: "map f (remove_nth i xs) = remove_nth i (map f xs)"
  by (simp add: remove_nth_def take_map drop_map)

lemma set_remove_nth: "i < length xs \<Longrightarrow> set xs = insert (xs ! i) (set (remove_nth i xs))"
  using mset_remove_nth [of i xs] by (metis set_mset_add_mset_insert set_mset_mset)

lemma resolved_is_solvable: "resolve_dependencies pending A = Inr () \<Longrightarrow> solvable A (mset pending)"
proof (induction pending A rule: resolve_dependencies.induct)
  case (1 pending A)
  show ?case
  proof (cases "pending = []")
    case True
    then show ?thesis by (simp add: solvable_def)
  next
    case False
    with 1(2) obtain i where i: "next_resolvable pending A = Some i"
      by (auto simp: resolve_dependencies.simps [of pending A] split: option.splits)
    with 1(2) False have "resolve_dependencies (remove_nth i pending) (A \<union> introduced (pending ! i)) = Inr ()"
      by (simp add: resolve_dependencies.simps [of pending A])
    from 1(1) [OF False i this] obtain ps where
      "mset ps = mset (remove_nth i pending)" "joinable (A \<union> introduced (pending ! i)) ps"
      by (auto simp: solvable_def)
    moreover have "dependencies (pending ! i) \<subseteq> A" "i < length pending"
      using position_Some [OF i [unfolded next_resolvable_def]] by auto
    ultimately show ?thesis unfolding solvable_def
      by (intro exI [of _ "pending ! i # ps"]) (simp add: mset_remove_nth)
  qed
qed

section \<open>The planner\<close>

lemma best_pattern_None:
  "best_pattern estimate A i pending best = None \<longleftrightarrow>
     best = None \<and> (\<forall>x \<in> set pending. \<not> dependencies (snd x) \<subseteq> A)"
  by (induction estimate A i pending best rule: best_pattern.induct) (auto split: if_splits)

lemma best_pattern_Some:
  "best_pattern estimate A i pending best = Some (k, e) \<Longrightarrow>
     (\<forall>x \<in> set pending. dependencies (snd x) \<subseteq> A \<longrightarrow> e \<le> estimate (snd x))
     \<and> (\<forall>b be. best = Some (b, be) \<longrightarrow> e \<le> be)
     \<and> (best = Some (k, e) \<or>
        (\<exists>m < length pending. k = i + m \<and> dependencies (snd (pending ! m)) \<subseteq> A
          \<and> e = estimate (snd (pending ! m)) \<and> (\<forall>b be. best = Some (b, be) \<longrightarrow> e < be)
          \<and> (\<forall>j < m. dependencies (snd (pending ! j)) \<subseteq> A \<longrightarrow> e < estimate (snd (pending ! j)))))"
proof (induction estimate A i pending best rule: best_pattern.induct)
  case (2 estimate A i n p pending best)
  let ?take = "dependencies p \<subseteq> A
    \<and> (case best of None \<Rightarrow> True | Some (_, best_estimate) \<Rightarrow> estimate p < best_estimate)"
  let ?best = "if ?take then Some (i, estimate p) else best"
  have run: "best_pattern estimate A (Suc i) pending ?best = Some (k, e)" using 2(2) by simp
  note IH = 2(1) [OF run]
  have le: "\<forall>x \<in> set pending. dependencies (snd x) \<subseteq> A \<longrightarrow> e \<le> estimate (snd x)"
    and best: "\<forall>b be. ?best = Some (b, be) \<longrightarrow> e \<le> be" using IH by blast+
  have head: "e \<le> estimate p" if "dependencies p \<subseteq> A"
  proof (cases ?take)
    case False
    with that obtain b be where b: "best = Some (b, be)" "be \<le> estimate p" by (auto split: option.splits)
    from b(1) False have "?best = Some (b, be)" by (simp only: if_False)
    with best have "e \<le> be" by blast
    with b(2) show ?thesis by order
  qed (use best in auto)
  have before: "\<forall>b be. best = Some (b, be) \<longrightarrow> e \<le> be"
    using best by (cases ?take) (auto split: option.splits)
  consider "?best = Some (k, e)"
    | m where "m < length pending" "k = Suc i + m" "dependencies (snd (pending ! m)) \<subseteq> A"
        "e = estimate (snd (pending ! m))" "\<forall>b be. ?best = Some (b, be) \<longrightarrow> e < be"
        "\<forall>j < m. dependencies (snd (pending ! j)) \<subseteq> A \<longrightarrow> e < estimate (snd (pending ! j))"
    using IH by blast
  then show ?case
  proof cases
    case 1
    show ?thesis
    proof (cases ?take)
      case True
      with 1 have "k = i" "e = estimate p" by auto
      with True le show ?thesis by (auto intro!: exI [of _ 0] split: option.splits)
    next
      case False
      with 1 have "best = Some (k, e)" by (simp only: if_False)
      then show ?thesis using le head before by simp
    qed
  next
    case (2 m)
    have "e < estimate p" if "dependencies p \<subseteq> A"
    proof (cases ?take)
      case False
      with that obtain b be where b: "best = Some (b, be)" "be \<le> estimate p" by (auto split: option.splits)
      from b(1) False have "?best = Some (b, be)" by (simp only: if_False)
      with 2(5) have "e < be" by blast
      with b(2) show ?thesis by order
    qed (use 2(5) in auto)
    moreover have "\<forall>b be. best = Some (b, be) \<longrightarrow> e < be"
      using 2(5) by (cases ?take) (auto split: option.splits)
    moreover have "(\<forall>j < Suc m. dependencies (snd (((n, p) # pending) ! j)) \<subseteq> A \<longrightarrow>
        e < estimate (snd (((n, p) # pending) ! j)))"
      using 2(6) \<open>dependencies p \<subseteq> A \<Longrightarrow> e < estimate p\<close> by (auto simp: less_Suc_eq_0_disj)
    ultimately show ?thesis using 2 le head before by (intro conjI disjI2 exI [of _ "Suc m"]) auto
  qed
qed simp

lemma nth_of_remove_nth:
  assumes "x \<in> set (remove_nth i xs)"
  shows "\<exists>k < length xs. k \<noteq> i \<and> xs ! k = x"
proof -
  from assms consider "x \<in> set (take i xs)" | "x \<in> set (drop (Suc i) xs)" by (auto simp: remove_nth_def)
  then show ?thesis
  proof cases
    case 1
    then obtain k where "k < i" "k < length xs" "xs ! k = x" by (auto simp: in_set_conv_nth)
    then show ?thesis by (intro exI [of _ k]) simp
  next
    case 2
    then obtain k where "k < length (drop (Suc i) xs)" "drop (Suc i) xs ! k = x"
      unfolding in_set_conv_nth by blast
    then show ?thesis by (intro exI [of _ "Suc i + k"]) simp
  qed
qed

lemma sorted_remove_nth: "sorted_wrt R xs \<Longrightarrow> sorted_wrt R (remove_nth i xs)"
proof (cases "i < length xs")
  case True
  assume "sorted_wrt R xs"
  then have "sorted_wrt R (take i xs @ xs ! i # drop (Suc i) xs)" using True by (simp flip: id_take_nth_drop)
  then show ?thesis by (simp add: remove_nth_def sorted_wrt_append)
qed (simp add: remove_nth_def)

lemma plan_patterns_solvable:
  assumes "solvable A (mset (map snd pending))" and "sorted_wrt (<) (map fst pending)"
  shows "\<exists>ordered. plan_patterns estimate pending A acc = Inr (acc @ ordered)
    \<and> mset ordered = mset pending \<and> joinable A (map snd ordered) \<and> cheapest_first estimate A ordered"
  using assms
proof (induction estimate pending A acc rule: plan_patterns.induct)
  case (1 estimate pending A acc)
  show ?case
  proof (cases "pending = []")
    case True
    then show ?thesis by (simp add: plan_patterns.simps)
  next
    case False
    then obtain x where "x \<in> set pending" "dependencies (snd x) \<subseteq> A"
      using solvable_available [OF 1(2)] by auto
    then obtain i e where i: "best_pattern estimate A 0 pending None = Some (i, e)"
      by (cases "best_pattern estimate A 0 pending None") (auto simp: best_pattern_None)
    then have less: "i < length pending" by (rule best_pattern_index)
    obtain n p where np: "pending ! i = (n, p)" by (cases "pending ! i")
    have pick: "dependencies p \<subseteq> A"
      "\<forall>j < i. dependencies (snd (pending ! j)) \<subseteq> A \<longrightarrow> estimate p < estimate (snd (pending ! j))"
      "\<forall>x \<in> set pending. dependencies (snd x) \<subseteq> A \<longrightarrow> estimate p \<le> estimate (snd x)"
      using best_pattern_Some [OF i] np by auto
    have "mset (map snd pending) = add_mset p (mset (map snd (remove_nth i pending)))"
      using mset_remove_nth [of i "map snd pending"] less np by simp
    then have "solvable (A \<union> introduced p) (mset (map snd (remove_nth i pending)))"
      using 1(2) by (simp add: solvable_earlier)
    moreover have "sorted_wrt (<) (map fst (remove_nth i pending))"
      using 1(3) by (simp add: sorted_remove_nth)
    ultimately obtain ordered where rest:
      "plan_patterns estimate (remove_nth i pending) (A \<union> introduced p) (acc @ [pending ! i])
         = Inr (acc @ [pending ! i] @ ordered)"
      "mset ordered = mset (remove_nth i pending)" "joinable (A \<union> introduced p) (map snd ordered)"
      "cheapest_first estimate (A \<union> introduced p) ordered"
      using 1(1) [OF False i refl] np by auto
    have "estimate p < estimate q \<or> estimate p = estimate q \<and> n < j"
      if "(j, q) \<in> set ordered" and dep: "dependencies q \<subseteq> A" for j q
    proof -
      have "(j, q) \<in> set (remove_nth i pending)" using that(1) rest(2) by (metis set_mset_mset)
      then obtain m where "m < length pending" "m \<noteq> i" "pending ! m = (j, q)" using nth_of_remove_nth by metis
      then consider k where "k < i" "pending ! k = (j, q)" | k where "i < k" "k < length pending" "pending ! k = (j, q)"
        by (metis linorder_neqE_nat)
      then show ?thesis
      proof cases
        case 1
        with pick(2) [rule_format, of k] dep show ?thesis by simp
      next
        case (2 k)
        then have "estimate p \<le> estimate q" using pick(3) dep by (metis nth_mem snd_conv)
        moreover have "n < j"
          using sorted_wrt_nth_less [OF \<open>sorted_wrt (<) (map fst pending)\<close> \<open>i < k\<close>] 2 less np by simp
        ultimately show ?thesis by auto
      qed
    qed
    then have "cheapest_first estimate A ((n, p) # ordered)" using rest(4) by auto
    moreover have "mset ((n, p) # ordered) = mset pending"
      using mset_remove_nth [OF less] rest(2) np by simp
    moreover have "plan_patterns estimate pending A acc = Inr (acc @ (n, p) # ordered)"
      using rest(1) False i np by (simp add: plan_patterns.simps [of estimate pending])
    ultimately show ?thesis using rest(3) pick(1) by (intro exI [of _ "(n, p) # ordered"]) simp
  qed
qed

section \<open>Compiling a branch\<close>

lemma set_schemas: "set (schemas ps) = (\<Union>p \<in> set ps. set (schema p))"
  by (simp add: schemas_def)

lemma compile_patterns_ok:
  assumes "coherent_env (merge_env (env_of D) (declares (schemas (map snd ordered))))"
  shows "\<exists>pps D'. compile_patterns nfc db ordered D = Inr (pps, D') \<and> map planned pps = map snd ordered
    \<and> register_all (schemas (map snd ordered)) D = Inr D'"
  using assms
proof (induction ordered arbitrary: D)
  case (Cons x ordered)
  obtain i p where x: "x = (i, p)" by (cases x)
  let ?rest = "schemas (map snd ordered)"
  have "coherent_env (merge_env (env_of D) (declares (schema p @ ?rest)))" using Cons.prems x by simp
  then obtain D' where D': "register_all (schema p @ ?rest) D = Inr D'" by (rule register_all_ok)
  then obtain D1 where D1: "register_all (schema p) D = Inr D1" "register_all ?rest D1 = Inr D'"
    by (auto simp: attempt_eq_Inr)
  then have "coherent_env (merge_env (env_of D1) (declares ?rest))" using register_all_Inr(1) by blast
  with Cons.IH [of D1] D1(2) obtain pps where
    "compile_patterns nfc db ordered D1 = Inr (pps, D')" "map planned pps = map snd ordered" by auto
  then show ?case using x D1 by (simp add: register_pattern_all attempt_def)
qed simp

text \<open>What validation accepts compiles, and with the same domains.\<close>

lemma compile_branch_ok:
  assumes "register_all (schemas patterns) D = Inr D'"
    and "resolve_dependencies patterns (set (map fst D)) = Inr ()"
  obtains b ordered where "compile_branch nfc db patterns D scope = Inr b"
    and "map planned (branch_patterns b) = map snd ordered" and "mset ordered = mset (enumerate 0 patterns)"
    and "joinable (set (map fst D)) (map snd ordered)"
    and "cheapest_first (estimated_candidate_count nfc db) (set (map fst D)) ordered"
    and "map_of (branch_domains b) = map_of D'"
proof -
  let ?A = "set (map fst D)"
  have "solvable ?A (mset (map snd (enumerate 0 patterns)))"
    using resolved_is_solvable [OF assms(2)] by simp
  then obtain ordered where
    o: "plan_patterns (estimated_candidate_count nfc db) (enumerate 0 patterns) ?A [] = Inr ordered"
    "mset ordered = mset (enumerate 0 patterns)" "joinable ?A (map snd ordered)"
    "cheapest_first (estimated_candidate_count nfc db) ?A ordered"
    using plan_patterns_solvable [of ?A "enumerate 0 patterns" "estimated_candidate_count nfc db" "[]"]
    by (auto simp: strict_sorted_iff)
  have "set (map snd ordered) = set (map snd (enumerate 0 patterns))"
    using o(2) by (metis mset_map set_mset_mset)
  then have same: "declares (schemas (map snd ordered)) = declares (schemas patterns)"
    by (intro declares_mset) (simp only: set_schemas map_snd_enumerate)
  then obtain pps D2 where c: "compile_patterns nfc db ordered D = Inr (pps, D2)"
    "map planned pps = map snd ordered" "register_all (schemas (map snd ordered)) D = Inr D2"
    using compile_patterns_ok [of D ordered nfc db] register_all_Inr(1) [OF assms(1)] by auto
  have "map_of D2 = map_of D'"
    using register_all_Inr(2) [OF c(3)] register_all_Inr(2) [OF assms(1)] same by auto
  with o c that show thesis by (simp add: compile_branch_def)
qed

lemma try_map_ok: "(\<And>x. x \<in> set xs \<Longrightarrow> \<exists>y. f x = Inr y \<and> P x y) \<Longrightarrow> \<exists>ys. try_map f xs = Inr ys \<and> list_all2 P xs ys"
  by (induction xs) (fastforce simp: attempt_def)+

lemma try_map_list_all2: "try_map f xs = Inr ys \<longleftrightarrow> list_all2 (\<lambda>x y. f x = Inr y) xs ys"
  by (induction xs arbitrary: ys) (auto simp: attempt_eq_Inr list_all2_Cons1)

lemma try_fold_unit: "try_fold (\<lambda>x _. f x) xs () = Inr () \<longleftrightarrow> (\<forall>x \<in> set xs. f x = Inr ())"
  by (induction xs) (auto simp: attempt_eq_Inr)

lemma validated_branch:
  "validate_branch patterns = Inr D \<Longrightarrow>
     register_all (schemas patterns) [] = Inr D \<and> resolve_dependencies patterns {} = Inr ()"
  by (auto simp: validate_branch_def register_patterns_all validate_pattern_dependencies_def attempt_eq_Inr)

lemma validated_block:
  assumes "validate_block vars D patterns = Inr ()"
  shows "\<exists>D'. register_all (schemas patterns) D = Inr D'
    \<and> resolve_dependencies patterns (set (map fst D)) = Inr ()"
proof -
  have "try_fold (\<lambda>p local. if f p then Inl e else register_pattern p local) ps D = Inr D'
      \<Longrightarrow> register_all (schemas ps) D = Inr D'" for f e ps D D'
    by (induction ps arbitrary: D) (auto simp: register_pattern_all attempt_eq_Inr split: if_splits)
  with assms show ?thesis
    unfolding validate_block_def validate_pattern_dependencies_def by (auto simp: attempt_eq_Inr)
qed

lemma planned_push_predicates [simp]: "map planned (push_predicates A ps pps) = map planned pps"
  by (induction A ps pps rule: push_predicates.induct) (simp_all add: Let_def)

text \<open>A compiled branch is a plan of its patterns, given domains and names that are bound before it.\<close>

definition plans ::
    "(string \<Rightarrow> string) \<Rightarrow> database \<Rightarrow> domains \<Rightarrow> posit_pattern list \<Rightarrow> planned_branch \<Rightarrow> bool" where
  "plans nfc db D patterns b \<longleftrightarrow>
     (\<exists>ordered. map planned (branch_patterns b) = map snd ordered \<and> mset ordered = mset (enumerate 0 patterns)
        \<and> joinable (set (map fst D)) (map snd ordered)
        \<and> cheapest_first (estimated_candidate_count nfc db) (set (map fst D)) ordered)
     \<and> (\<exists>D'. try_fold register_pattern patterns D = Inr D' \<and> map_of (branch_domains b) = map_of D')"

lemma compile_branch_plans:
  assumes "register_all (schemas patterns) D = Inr D'"
    and "resolve_dependencies patterns (set (map fst D)) = Inr ()"
  shows "\<exists>b. compile_branch nfc db patterns D scope = Inr b \<and> plans nfc db D patterns b"
  using compile_branch_ok [OF assms] unfolding plans_def register_patterns_all by (metis assms(1))

lemma compile_branches_plan:
  assumes "\<And>ps. ps \<in> set branches \<Longrightarrow> \<exists>D'. register_all (schemas ps) D = Inr D'
    \<and> resolve_dependencies ps (set (map fst D)) = Inr ()"
  shows "\<exists>bs. try_map (\<lambda>(i, ps). compile_branch nfc db ps D (scope i)) (enumerate n branches) = Inr bs
    \<and> list_all2 (plans nfc db D) branches bs"
  using assms
proof (induction branches arbitrary: n)
  case (Cons ps branches)
  have "\<exists>D'. register_all (schemas ps) D = Inr D' \<and> resolve_dependencies ps (set (map fst D)) = Inr ()"
    by (rule Cons.prems) simp
  then obtain b where "compile_branch nfc db ps D (scope n) = Inr b" "plans nfc db D ps b"
    using compile_branch_plans by blast
  moreover obtain bs where
    "try_map (\<lambda>(i, ps). compile_branch nfc db ps D (scope i)) (enumerate (Suc n) branches) = Inr bs"
    "list_all2 (plans nfc db D) branches bs" using Cons.IH [of "Suc n"] Cons.prems by auto
  ultimately show ?case by simp
qed simp

lemma prepared_plan:
  assumes "prepare_query q = Inr pq"
  shows "\<exists>ph. compile_query nfc db maximum pq = Inr ph
    \<and> list_all2 (plans nfc db []) (q_branches q) (ph_branches ph)
    \<and> list_all2 (plans nfc db (prepared_domains pq)) (q_not_exists q) (ph_not_exists ph)"
proof -
  obtain D where D: "validate_domains q = Inr D" "pq = \<lparr>prepared = q, prepared_domains = D\<rparr>"
    using assms by (auto simp: prepare_query_def attempt_eq_Inr)
  then obtain Ds where Ds: "try_map validate_branch (q_branches q) = Inr Ds"
    and blocks: "\<forall>block \<in> set (q_not_exists q). \<exists>vars. validate_block vars D block = Inr ()"
    by (auto simp: validate_domains_def attempt_eq_Inr Let_def try_fold_unit)
  have "\<exists>D'. register_all (schemas ps) [] = Inr D' \<and> resolve_dependencies ps {} = Inr ()"
    if "ps \<in> set (q_branches q)" for ps
    using try_map_set [OF Ds that] validated_branch by blast
  then obtain bs where bs: "try_map (\<lambda>(i, ps). compile_branch nfc db ps [] (scope_name ''branch_'' i))
      (enumerate 0 (q_branches q)) = Inr bs" "list_all2 (plans nfc db []) (q_branches q) bs"
    using compile_branches_plan [of "q_branches q" "[]" nfc db "scope_name ''branch_''" 0] by auto
  obtain blocks' where bl: "try_map (\<lambda>(i, ps). compile_branch nfc db ps D (scope_name ''not_exists_'' i))
      (enumerate 0 (q_not_exists q)) = Inr blocks'" "list_all2 (plans nfc db D) (q_not_exists q) blocks'"
    using compile_branches_plan [of "q_not_exists q" D nfc db "scope_name ''not_exists_''" 0] blocks validated_block
    by blast
  have push: "list_all2 (plans nfc db []) (q_branches q)
      (map (\<lambda>b. b\<lparr>branch_patterns := push_predicates {} ps (branch_patterns b)\<rparr>) bs)" for ps
    using bs(2) by (auto simp: list_all2_map2 plans_def elim: list_all2_mono)
  show ?thesis using D(2) bs bl push by (simp add: compile_query_def Let_def)
qed

text \<open>C39: planning always succeeds on a query that validation accepted: the greedy join order never gets
  stuck, it uses every pattern of every branch and absence block exactly once, each after the patterns
  that bind the names it depends on, always one with the smallest estimate among those that could be
  joined (the first in the query among equals), and it registers the same domains as validation.\<close>

theorem prepared_queries_compile:
  assumes "prepare_query q = Inr pq"
  shows "\<exists>ph. compile_query nfc db maximum pq = Inr ph
    \<and> list_all2 (plans nfc db []) (q_branches q) (ph_branches ph)
    \<and> list_all2 (plans nfc db (prepared_domains pq)) (q_not_exists q) (ph_not_exists ph)"
  by (rule prepared_plan [OF assms])

definition sample_pattern :: "string \<Rightarrow> string \<Rightarrow> cutoff option \<Rightarrow> posit_pattern" where
  "sample_pattern thing_name time_name c =
     PositPattern None
       \<lparr>set_binding = None, set_members = [\<lparr>thing_pattern = ThingVariable thing_name, role_pattern = AnyRole\<rparr>],
        open_set = True, any_set = False\<rparr>
       AnyValue (TimeVariable time_name) c False None"

definition sample_query :: query where
  "sample_query =
     \<lparr>q_branches = [[sample_pattern ''x'' ''u'' (Some (CutoffVariable ''t'')), sample_pattern ''x'' ''t'' None]],
      q_not_exists = [[sample_pattern ''x'' ''t'' (Some (CutoffVariable ''u''))]], q_predicates = [],
      q_returns = [''x''], q_distinct = True, q_order = [], q_limit = None, q_has_fallback = False\<rparr>"

theorem prepared_queries_compile_witness:
  "\<exists>pq ph. prepare_query sample_query = Inr pq \<and> compile_query id (empty_database None) None pq = Inr ph
    \<and> list_all2 (plans id (empty_database None) []) (q_branches sample_query) (ph_branches ph)"
proof -
  have "\<not> isl (prepare_query sample_query)" by code_simp
  then obtain pq where pq: "prepare_query sample_query = Inr pq" by (cases "prepare_query sample_query") auto
  from prepared_queries_compile [OF pq, of id "empty_database None" None] pq show ?thesis by blast
qed

end
