(* ===== verification/Query_Bindings.thy ===== *)
theory Query_Bindings
  imports Query_Typing
begin

text \<open>
  Bindings that have the domains an environment gives, and matching as a typed operation: binding a value
  of a coherent domain succeeds, extends the binding and gives one of the extended environment.  From
  there the slots of a pattern, its members and its fields follow by composition.
\<close>

section \<open>Sorted bindings\<close>

definition sorted_binding :: "binding \<Rightarrow> bool" where
  "sorted_binding b \<longleftrightarrow> sorted_wrt (<) (map fst b)"

lemma binding_insert_keys: "fst ` set (binding_insert name v b) = insert name (fst ` set b)"
  by (induction name v b rule: binding_insert.induct) auto

lemma sorted_binding_insert: "sorted_binding b \<Longrightarrow> sorted_binding (binding_insert name v b)"
proof (induction name v b rule: binding_insert.induct)
  case (2 name v m w b)
  have "n > m" if "n \<in> fst ` set (binding_insert name v b)" "m < name" for n
    using 2(2) that unfolding binding_insert_keys sorted_binding_def by auto
  with 2 show ?case unfolding sorted_binding_def by (auto dest: less_trans)
qed (simp add: sorted_binding_def)

lemma binding_get_insert:
  "sorted_binding b \<Longrightarrow> binding_get n (binding_insert name v b) = (if n = name then Some v else binding_get n b)"
proof (induction name v b rule: binding_insert.induct)
  case (2 name v m w b)
  then have IH: "binding_get n (binding_insert name v b) = (if n = name then Some v else binding_get n b)"
    if "\<not> name < m" "name \<noteq> m" using that by (simp add: sorted_binding_def)
  show ?case
  proof (cases "name < m")
    case False
    then show ?thesis using IH by (auto simp: binding_get_def)
  qed (auto simp: binding_get_def)
qed (simp add: binding_get_def)

lemma sorted_binding_Nil [simp]: "sorted_binding []"
  by (simp add: sorted_binding_def)

lemma sorted_binding_filter: "sorted_binding b \<Longrightarrow> sorted_binding (filter P b)"
  unfolding sorted_binding_def by (induction b) auto

lemma binding_get_filter:
  assumes "sorted_binding b"
  shows "binding_get n (filter (\<lambda>(name, _). P name) b) = (if P n then binding_get n b else None)"
  using assms by (induction b) (auto simp: binding_get_def sorted_binding_def map_of_eq_None_iff split: if_splits)

lemma binding_get_member: "sorted_binding b \<Longrightarrow> (n, v) \<in> set b \<Longrightarrow> binding_get n b = Some v"
  unfolding binding_get_def sorted_binding_def by (rule map_of_is_SomeI) (simp_all add: strict_sorted_iff)

section \<open>Refinement of bindings\<close>

text \<open>A binding is extended by new names and by learning that a thing is a posit.  Values are compared as
  the code compares them.\<close>

lemma same_value_refl [simp]: "same_value v v"
  by (cases v) (simp_all add: exactly_equals_def)

lemma same_value_sym: "same_value v w \<Longrightarrow> same_value w v"
  by (cases v; cases w) (auto simp: exactly_equals_def)

lemma same_value_trans: "same_value u v \<Longrightarrow> same_value v w \<Longrightarrow> same_value u w"
  by (cases u; cases v; cases w) (auto simp: exactly_equals_def)

fun upgrades :: "bound_value \<Rightarrow> bound_value \<Rightarrow> bool" where
  "upgrades (BoundThing t) (BoundPosit u) \<longleftrightarrow> t = u"
| "upgrades v w \<longleftrightarrow> same_value v w"

definition refines :: "binding \<Rightarrow> binding \<Rightarrow> bool" where
  "refines b c \<longleftrightarrow> (\<forall>n v. binding_get n b = Some v \<longrightarrow> (\<exists>w. binding_get n c = Some w \<and> upgrades v w))"

lemma upgrades_refl [simp]: "upgrades v v"
  by (cases v) simp_all

lemma upgrades_trans: "upgrades u v \<Longrightarrow> upgrades v w \<Longrightarrow> upgrades u w"
  by (cases u; cases v; cases w) (auto simp: exactly_equals_def)

lemma refines_refl [simp]: "refines b b"
  by (simp add: refines_def)

lemma refines_trans: "refines a b \<Longrightarrow> refines b c \<Longrightarrow> refines a c"
  unfolding refines_def using upgrades_trans by meson

lemma refinesD: "refines b c \<Longrightarrow> binding_get n b = Some v \<Longrightarrow> \<exists>w. binding_get n c = Some w \<and> upgrades v w"
  by (simp add: refines_def)

text \<open>Binding a value that is known, or known better, changes nothing.\<close>

lemma bind_variable_known:
  "binding_get n b = Some w \<Longrightarrow> upgrades v w \<Longrightarrow> bind_variable n v b = Inr (Some b)"
  by (cases v; cases w) (auto simp: bind_variable_def exactly_equals_def)

text \<open>What is bound is known.\<close>

lemma bind_variable_binds:
  assumes "bind_variable n v b = Inr (Some c)" and "sorted_binding b"
  shows "\<exists>w. binding_get n c = Some w \<and> upgrades v w"
proof (cases "binding_get n b")
  case None
  with assms show ?thesis by (auto simp: bind_variable_def binding_get_insert)
next
  case (Some w)
  with assms show ?thesis
    by (cases w; cases v) (auto simp: bind_variable_def binding_get_insert exactly_equals_def split: if_splits)
qed

lemma bind_variable_refines:
  assumes "bind_variable n v b = Inr (Some c)" and "sorted_binding b"
  shows "sorted_binding c \<and> refines b c"
proof (cases "binding_get n b")
  case None
  with assms have "c = binding_insert n v b" by (simp add: bind_variable_def)
  with None assms(2) show ?thesis
    by (auto simp: refines_def sorted_binding_insert binding_get_insert)
next
  case (Some w)
  have "c = b \<or> (\<exists>t. w = BoundThing t \<and> v = BoundPosit t \<and> c = binding_insert n v b)"
    using assms(1) Some by (cases w; cases v) (auto simp: bind_variable_def split: if_splits)
  with Some assms(2) show ?thesis
    by (auto simp: refines_def sorted_binding_insert binding_get_insert)
qed

lemma bind_all_binds:
  assumes "bind_all input b = Inr (Some c)" and "sorted_binding b"
  shows "refines b c \<and> (\<forall>(n, v) \<in> set input. \<exists>w. binding_get n c = Some w \<and> upgrades v w)"
  using assms
proof (induction input arbitrary: b)
  case (Cons x input)
  obtain n v where x: "x = (n, v)" by (cases x)
  with Cons.prems(1) obtain d where d: "bind_variable n v b = Inr (Some d)" "bind_all input d = Inr (Some c)"
    by (auto simp: attempt_some_def attempt_eq_Inr split: option.splits)
  note step = bind_variable_refines [OF d(1) Cons.prems(2)]
  with Cons.IH [OF d(2)] have rest: "refines d c"
    "\<forall>(n, v) \<in> set input. \<exists>w. binding_get n c = Some w \<and> upgrades v w" by auto
  obtain w where "binding_get n d = Some w" "upgrades v w" using bind_variable_binds [OF d(1) Cons.prems(2)] by auto
  then obtain u where "binding_get n c = Some u" "upgrades v u"
    using refinesD [OF rest(1)] upgrades_trans by blast
  then show ?case using step rest refines_trans [of b d c] by (auto simp: x)
qed simp

lemma bind_all_refines_input:
  assumes "bind_all input b = Inr (Some c)" and "sorted_binding b" and "sorted_binding input"
  shows "refines input c"
proof -
  have "(n, v) \<in> set input" if "binding_get n input = Some v" for n v
    using that by (simp add: binding_get_def map_of_SomeD)
  with bind_all_binds [OF assms(1,2)] show ?thesis unfolding refines_def by fastforce
qed

lemma bind_all_known:
  "(\<And>n v. (n, v) \<in> set input \<Longrightarrow> \<exists>w. binding_get n b = Some w \<and> upgrades v w) \<Longrightarrow> bind_all input b = Inr (Some b)"
proof (induction input)
  case (Cons x input)
  obtain n v where x: "x = (n, v)" by (cases x)
  then obtain w where "binding_get n b = Some w" "upgrades v w" using Cons.prems by force
  then have "bind_variable n v b = Inr (Some b)" by (rule bind_variable_known)
  then show ?case using Cons x by (simp add: attempt_some_def)
qed simp

lemma bind_all_refines: "sorted_binding input \<Longrightarrow> refines input b \<Longrightarrow> bind_all input b = Inr (Some b)"
  by (rule bind_all_known) (metis binding_get_member refinesD)

section \<open>Typed bindings\<close>

definition typed :: "environment \<Rightarrow> binding \<Rightarrow> bool" where
  "typed E b \<longleftrightarrow> sorted_binding b \<and> (\<forall>n. map_option domain_of (binding_get n b) = resolved (E n))"

lemma typed_sorted: "typed E b \<Longrightarrow> sorted_binding b"
  by (simp add: typed_def)

lemma typedD: "typed E b \<Longrightarrow> map_option domain_of (binding_get n b) = resolved (E n)"
  by (simp add: typed_def)

lemma typed_None: "typed E b \<Longrightarrow> binding_get n b = None \<longleftrightarrow> E n = {}"
  using typedD [of E b n] by (auto simp flip: resolved_None)

lemma typed_cong: "typed E b \<Longrightarrow> (\<And>n. resolved (E n) = resolved (F n)) \<Longrightarrow> typed F b"
  by (simp add: typed_def)

lemma typed_member:
  assumes "typed E b" and "binding_get n b = Some v" and "coherent_env E"
  shows "domain_of v \<in> E n"
  using typedD [OF assms(1), of n] assms(2) resolved_member [OF coherent_envD [OF assms(3)]] by simp

lemma typed_kind:
  assumes "typed E b" and "coherent_env E" and "d \<in> E n"
  obtains v where "binding_get n b = Some v" and "domain_kind (domain_of v) = domain_kind d"
proof (cases "binding_get n b")
  case None
  with typed_None [OF assms(1)] assms(3) show thesis by auto
next
  case (Some v)
  with typed_member [OF assms(1) Some assms(2)] coherent_envD [OF assms(2), of n] assms(3) that
  show thesis unfolding coherent_def by blast
qed

lemma typed_empty [simp]: "typed (\<lambda>_. {}) []"
  by (simp add: typed_def binding_get_def)

text \<open>What a fallible match gives: always an answer, and if a binding then an extended and typed one.\<close>

definition matches_to :: "environment \<Rightarrow> binding \<Rightarrow> binding option result \<Rightarrow> bool" where
  "matches_to E b r \<longleftrightarrow> (\<exists>answer. r = Inr answer \<and> (\<forall>c. answer = Some c \<longrightarrow> typed E c \<and> refines b c))"

lemma matches_to_simps [simp]:
  "matches_to E b (Inr None)" "matches_to E b (Inr (Some c)) \<longleftrightarrow> typed E c \<and> refines b c"
  "\<not> matches_to E b (Inl e)"
  by (auto simp: matches_to_def)

lemma matches_to_attempt_some:
  assumes "matches_to E b r" and "\<And>c. typed E c \<Longrightarrow> refines b c \<Longrightarrow> matches_to F c (f c)"
  shows "matches_to F b (attempt_some r f)"
proof -
  obtain answer where r: "r = Inr answer" "\<And>c. answer = Some c \<Longrightarrow> typed E c \<and> refines b c"
    using assms(1) by (auto simp: matches_to_def)
  show ?thesis
  proof (cases answer)
    case (Some c)
    with r assms(2) [of c] refines_trans [of b c] show ?thesis
      by (auto simp: attempt_some_def matches_to_def)
  qed (simp add: r attempt_some_def)
qed

lemma typed_insert:
  assumes "typed E b" and "resolved (E n) = Some (domain_of v)"
  shows "typed E (binding_insert n v b)"
  using assms by (auto simp: typed_def sorted_binding_insert binding_get_insert)

definition widen :: "environment \<Rightarrow> (string \<times> query_domain) list \<Rightarrow> environment" where
  "widen E l = merge_env E (declares l)"

lemma widen_simps [simp]: "widen E [] = E" "widen E (l @ m) = widen (widen E l) m"
  by (simp_all add: widen_def merge_env_assoc)

lemma widen_one: "widen E [(n, d)] m = (if m = n then insert d (E m) else E m)"
  by (auto simp: widen_def declares_def merge_env_def)

lemma widen_mono: "E n \<subseteq> widen E l n"
  by (simp add: widen_def merge_env_def)

lemma coherent_widenD: "coherent_env (widen E l) \<Longrightarrow> coherent_env E"
  by (erule coherent_env_mono) (rule widen_mono)

lemma bind_variable_typed:
  assumes "typed E b" and "coherent_env (widen E [(n, domain_of v)])"
  shows "matches_to (widen E [(n, domain_of v)]) b (bind_variable n v b)"
proof -
  let ?F = "widen E [(n, domain_of v)]"
  have coh: "coherent (insert (domain_of v) (E n))" using coherent_envD [OF assms(2), of n] by (simp add: widen_one)
  have other: "resolved (?F m) = resolved (E m)" if "m \<noteq> n" for m using that by (simp add: widen_one)
  show ?thesis
  proof (cases "binding_get n b")
    case None
    then have "E n = {}" using assms(1) by (simp add: typed_None)
    then have "resolved (?F n) = Some (domain_of v)" by (simp add: widen_one)
    with assms(1) None other show ?thesis
      by (auto simp: bind_variable_def typed_def sorted_binding_insert binding_get_insert refines_def)
  next
    case (Some w)
    then have res: "resolved (E n) = Some (domain_of w)" using typedD [OF assms(1), of n] by simp
    have w: "domain_of w \<in> E n" using typed_member [OF assms(1) Some coherent_widenD [OF assms(2)]] .
    have kind: "domain_kind (domain_of w) = domain_kind (domain_of v)"
      using coh w unfolding coherent_def by blast
    have keep: "typed ?F b" if "resolved (insert (domain_of v) (E n)) = resolved (E n)"
      using typed_cong [OF assms(1), of ?F] that other by (metis widen_one)
    have same: "insert (domain_of v) (E n) = E n" if "domain_of w = domain_of v" using w that by auto
    show ?thesis
    proof (cases "domain_of w = domain_of v")
      case True
      then have "bind_variable n v b = Inr (if same_value w v then Some b else None)"
        using Some by (cases w; cases v) (auto simp: bind_variable_def)
      with keep same [OF True] show ?thesis by simp
    next
      case False
      with kind consider t u where "w = BoundThing t" "v = BoundPosit u" | t u where "w = BoundPosit t" "v = BoundThing u"
        by (cases w; cases v) auto
      then show ?thesis
      proof cases
        case (1 t u)
        have "resolved (?F n) = Some (domain_of v)" using 1 by (simp add: widen_one resolved_def)
        with assms(1) other have "typed ?F (binding_insert n v b)"
          by (auto simp: typed_def sorted_binding_insert binding_get_insert)
        moreover have "refines b (binding_insert n v b)" if "t = u"
          using Some 1 that typed_sorted [OF assms(1)] by (auto simp: refines_def binding_get_insert)
        ultimately show ?thesis using Some 1 by (simp add: bind_variable_def)
      next
        case (2 t u)
        have "PositDomain \<in> E n" using w 2 by simp
        then have "resolved (insert (domain_of v) (E n)) = resolved (E n)" by (auto simp: resolved_def)
        with keep Some 2 show ?thesis by (simp add: bind_variable_def)
      qed
    qed
  qed
qed

section \<open>Typed matching\<close>

definition identity_in :: "environment \<Rightarrow> string \<Rightarrow> bool" where
  "identity_in E n \<longleftrightarrow> (\<exists>d \<in> E n. domain_kind d = ThingDomain)"

lemma identity_in_mono: "identity_in E n \<Longrightarrow> E n \<subseteq> F n \<Longrightarrow> identity_in F n"
  by (auto simp: identity_in_def)

lemma bound_identity_in:
  assumes "typed E b" and "coherent_env E" and "identity_in E n"
  obtains t where "binding_get n b = Some (BoundThing t)" | t where "binding_get n b = Some (BoundPosit t)"
proof -
  obtain d where "d \<in> E n" "domain_kind d = ThingDomain" using assms(3) by (auto simp: identity_in_def)
  then obtain v where "binding_get n b = Some v" "domain_kind (domain_of v) = ThingDomain"
    using typed_kind [OF assms(1,2)] by metis
  with that show thesis by (cases v) auto
qed

lemma one_of_total:
  assumes "typed E b" and "coherent_env E" and "\<And>n. n \<in> set names \<Longrightarrow> identity_in E n"
  shows "\<exists>found'. one_of t names b found = Inr found'"
  using assms(3)
proof (induction names arbitrary: found)
  case (Cons n names)
  from Cons.prems have "identity_in E n" by simp
  then show ?case by (rule bound_identity_in [OF assms(1,2)]) (use Cons in auto)
qed simp

lemma match_thing_typed:
  assumes "typed E b" and "coherent_env (widen E (in_domain ThingDomain (thing_names slot)))"
    and "\<And>n. n \<in> set (union_names slot) \<Longrightarrow> identity_in E n"
  shows "matches_to (widen E (in_domain ThingDomain (thing_names slot))) b (match_thing slot t b)"
proof (cases slot)
  case (OneOf names)
  then obtain found where "one_of t names b False = Inr found"
    using one_of_total [OF assms(1) coherent_widenD [OF assms(2)], of names t False] assms(3) by auto
  with OneOf assms(1) show ?thesis by (simp add: in_domain_def)
qed (use assms bind_variable_typed [of E b _ "BoundThing t"] in \<open>auto simp: in_domain_def\<close>)

lemma match_role_typed:
  assumes "typed E b" and "coherent_env (widen E (in_domain RoleDomain (role_names slot)))"
  shows "matches_to (widen E (in_domain RoleDomain (role_names slot))) b (match_role slot r b)"
  using assms bind_variable_typed [of E b _ "BoundRole r"] by (cases slot) (auto simp: in_domain_def)

lemma match_appearance_typed:
  assumes "typed E b" and "coherent_env (widen E (member_schema m))"
    and "\<And>n. n \<in> set (union_names (thing_pattern m)) \<Longrightarrow> identity_in E n"
  shows "matches_to (widen E (member_schema m)) b (match_appearance m a b)"
  unfolding match_appearance_def member_schema_def widen_simps
proof (rule matches_to_attempt_some)
  let ?T = "in_domain ThingDomain (thing_names (thing_pattern m))"
  have coh: "coherent_env (widen (widen E ?T) (in_domain RoleDomain (role_names (role_pattern m))))"
    using assms(2) by (simp add: member_schema_def)
  show "matches_to (widen E ?T) b (match_thing (thing_pattern m) (app_thing a) b)"
    using assms(1,3) coherent_widenD [OF coh] by (intro match_thing_typed)
  show "matches_to (widen (widen E ?T) (in_domain RoleDomain (role_names (role_pattern m)))) c
      (match_role (role_pattern m) (app_role a) c)" if "typed (widen E ?T) c" for c
    using that coh by (rule match_role_typed)
qed

definition field_schema :: "posit_pattern \<Rightarrow> (string \<times> query_domain) list" where
  "field_schema p =
     in_domain PositDomain (option_names (pat_posit p)) @ in_domain LiteralDomain (value_names (pat_value p))
     @ in_domain TimeDomain (time_names (pat_time p))"

definition literal_free :: "posit_pattern \<Rightarrow> bool" where
  "literal_free p \<longleftrightarrow> (\<forall>x. pat_value p \<noteq> ValueLiteral x)"

lemma match_fields_typed:
  assumes "typed E b" and "coherent_env (widen E (field_schema p))" and "literal_free p"
  shows "matches_to (widen E (field_schema p)) b (match_fields L p q b)"
proof -
  let ?P = "in_domain PositDomain (option_names (pat_posit p))"
  let ?V = "in_domain LiteralDomain (value_names (pat_value p))"
  let ?T = "in_domain TimeDomain (time_names (pat_time p))"
  have coh: "coherent_env (widen (widen (widen E ?P) ?V) ?T)" using assms(2) by (simp add: field_schema_def)
  note coh2 = coherent_widenD [OF coh]
  note coh1 = coherent_widenD [OF coh2]
  have time: "matches_to (widen (widen (widen E ?P) ?V) ?T) d (case pat_time p of
       AnyTime \<Rightarrow> Inr (Some d)
     | TimeVariable name \<Rightarrow> bind_variable name (BoundTime (ptime q)) d
     | LegacyTime name \<Rightarrow> bind_variable name (BoundTime (ptime q)) d
     | TimeLiteral t \<Rightarrow> Inr (if ptime q = t then Some d else None))" if "typed (widen (widen E ?P) ?V) d" for d
    using that coh bind_variable_typed [of "widen (widen E ?P) ?V" d _ "BoundTime (ptime q)"]
    by (cases "pat_time p") (auto simp: in_domain_def)
  have val: "matches_to (widen (widen E ?P) ?V) c (case pat_value p of
         AnyValue \<Rightarrow> Inr (Some c)
       | ValueVariable name \<Rightarrow> bind_variable name (BoundLiteral (pvalue q)) c
       | LegacyValue name \<Rightarrow> bind_variable name (BoundLiteral (pvalue q)) c
       | ValueLiteral x \<Rightarrow>
           (case nominally_equals L (pvalue q) x of
              Inl e \<Rightarrow> Inl (Comparison e)
            | Inr same \<Rightarrow> Inr (if same then Some c else None)))" if "typed (widen E ?P) c" for c
    using that coh2 assms(3) bind_variable_typed [of "widen E ?P" c _ "BoundLiteral (pvalue q)"]
    by (cases "pat_value p") (auto simp: in_domain_def literal_free_def)
  have pos: "matches_to (widen E ?P) b (case pat_posit p of
         None \<Rightarrow> Inr (Some b)
       | Some name \<Rightarrow> bind_variable name (BoundPosit (pthing q)) b)"
    using assms(1) coh1 bind_variable_typed [of E b _ "BoundPosit (pthing q)"]
    by (cases "pat_posit p") (auto simp: in_domain_def)
  show ?thesis
    unfolding match_fields_def field_schema_def widen_simps
    by (rule matches_to_attempt_some [OF pos], rule matches_to_attempt_some [OF val], assumption, rule time)
qed

text \<open>Binding all of a typed binding into another.\<close>

definition pairs_of :: "binding \<Rightarrow> (string \<times> query_domain) list" where
  "pairs_of b = map (\<lambda>(n, v). (n, domain_of v)) b"

lemma bind_all_typed:
  assumes "typed E b" and "coherent_env (widen E (pairs_of input))"
  shows "matches_to (widen E (pairs_of input)) b (bind_all input b)"
  using assms
proof (induction input arbitrary: E b)
  case (Cons x input)
  obtain n v where x: "x = (n, v)" by (cases x)
  have split: "widen E (pairs_of (x # input)) = widen (widen E [(n, domain_of v)]) (pairs_of input)"
    unfolding widen_simps(2) [symmetric] by (simp add: x pairs_of_def)
  note coh = Cons.prems(2) [unfolded split]
  show ?case
    unfolding split unfolding x bind_all.simps
    by (rule matches_to_attempt_some [OF bind_variable_typed [OF Cons.prems(1) coherent_widenD [OF coh]]])
      (rule Cons.IH [OF _ coh])
qed (simp add: pairs_of_def)

lemma declares_pairs_of:
  assumes "typed E b"
  shows "declares (pairs_of b) n = set_option (resolved (E n))"
proof -
  have "(n, d) \<in> set (pairs_of b) \<longleftrightarrow> map_option domain_of (binding_get n b) = Some d" for d
    using binding_get_member [OF typed_sorted [OF assms], of n]
    by (force simp: pairs_of_def binding_get_def dest: map_of_SomeD)
  then show ?thesis using typedD [OF assms, of n] by (auto simp: declares_def)
qed

end
