(* ===== verification/Query_Traces.thy ===== *)
theory Query_Traces
  imports Query_Bindings Query_Pipeline
begin

text \<open>
  What the row by row evaluation of the pipeline produces, as traces: for every producer the rows it hands
  out and how it ends, and the proof that running it with a visitor is feeding that trace.
\<close>

section \<open>Traces of results\<close>

definition rows_trace :: "'a list result \<Rightarrow> 'a trace" where
  "rows_trace r = (case r of Inl e \<Rightarrow> failed e | Inr xs \<Rightarrow> (xs, Inr ()))"

definition option_trace :: "'a option result \<Rightarrow> 'a trace" where
  "option_trace r = (case r of Inl e \<Rightarrow> failed e | Inr None \<Rightarrow> no_rows | Inr (Some x) \<Rightarrow> one_row x)"

lemma rows_trace_simps [simp]: "rows_trace (Inl e) = failed e" "rows_trace (Inr xs) = (xs, Inr ())"
  by (simp_all add: rows_trace_def)

lemma option_trace_simps [simp]:
  "option_trace (Inl e) = failed e" "option_trace (Inr None) = no_rows" "option_trace (Inr (Some x)) = one_row x"
  by (simp_all add: option_trace_def)

lemma feed_rows_trace: "feed (rows_trace r) visit s = attempt_st (r, s) (visit_all visit)"
  by (cases r) (simp_all add: visit_all_is_feed)

lemma feed_option_trace:
  "feed (trace_bind (option_trace r) f) visit s =
     attempt_st (r, s) (\<lambda>next s. case next of None \<Rightarrow> (Inr Continue, s) | Some x \<Rightarrow> feed (f x) visit s)"
proof (cases r)
  case (Inr x)
  then show ?thesis by (cases x) (simp_all add: feed_trace_bind)
qed (simp add: feed_trace_bind)

lemma feed_option: "feed (option_trace r) visit s =
     attempt_st (r, s) (\<lambda>next s. case next of None \<Rightarrow> (Inr Continue, s) | Some x \<Rightarrow> visit x s)"
proof (cases r)
  case (Inr x)
  then show ?thesis by (cases x) simp_all
qed simp

section \<open>Appearance sets\<close>

fun members_trace :: "appearance_pattern list \<Rightarrow> appearance list \<Rightarrow> bool list \<Rightarrow> binding \<Rightarrow> binding trace" where
  "members_trace [] stored used b = one_row b"
| "members_trace (p # ps) stored used b =
     trace_bind (enumerate 0 stored, Inr ()) (\<lambda>(i, a).
       if used ! i then no_rows
       else trace_bind (option_trace (match_appearance p a b)) (members_trace ps stored (used[i := True])))"

lemma feed_if: "feed (if c then tr else tr') visit s = (if c then feed tr visit s else feed tr' visit s)"
  by simp

lemma match_members_trace:
  "match_members ps stored used b visit s = feed (members_trace ps stored used b) visit s"
proof (induction ps arbitrary: used b s)
  case (Cons p ps)
  have step: "(\<lambda>(i, a) s. if used ! i then (Inr Continue, s)
       else attempt_st (match_appearance p a b, s) (\<lambda>next s.
         case next of
           None \<Rightarrow> (Inr Continue, s)
         | Some next \<Rightarrow> match_members ps stored (used[i := True]) next visit s))
     = (\<lambda>x. feed (case x of (i, a) \<Rightarrow>
         if used ! i then no_rows
         else trace_bind (option_trace (match_appearance p a b)) (members_trace ps stored (used[i := True]))) visit)"
    by (intro ext) (auto simp: feed_option_trace Cons.IH intro!: attempt_st_cong split: option.split)
  show ?case unfolding match_members.simps members_trace.simps step visit_all_feed ..
qed simp

text \<open>With more than one appearance the rows already seen are left out.\<close>

fun unique_rows :: "binding list \<Rightarrow> binding list \<Rightarrow> binding list" where
  "unique_rows seen [] = []"
| "unique_rows seen (b # bs) =
     (if list_ex (same_binding b) seen then unique_rows seen bs else b # unique_rows (b # seen) bs)"

lemma set_unique_rows: "set (unique_rows seen bs) \<subseteq> set bs"
  by (induction seen bs rule: unique_rows.induct) auto

lemma feed_visit_unique:
  "(let (r, (_, s)) = feed (bs, e) (visit_unique n visit) (seen, s) in (r, s))
     = feed (if n > 1 then unique_rows seen bs else bs, e) visit s"
proof (induction bs arbitrary: seen s)
  case (Cons b bs)
  obtain r t where v: "visit b s = (r, t)" by (cases "visit b s") auto
  show ?case
  proof (cases "n > 1 \<and> list_ex (same_binding b) seen")
    case True
    then show ?thesis using Cons.IH [of seen s] by (simp add: feed_Cons visit_unique_def)
  next
    case False
    obtain seen' where "visit_unique n visit b (seen, s) = (r, (seen', t))" and
      "seen' = (if n > 1 then b # seen else seen)" using False v by (auto simp: visit_unique_def)
    then show ?thesis using False v Cons.IH [of seen' t]
      by (cases r) (auto simp: feed_Cons split: if_splits cong: if_cong)
  qed
qed (simp add: feed_Nil)

definition set_trace :: "appearance_set_pattern \<Rightarrow> appearance_set \<Rightarrow> binding \<Rightarrow> binding trace" where
  "set_trace p stored input =
     trace_bind (option_trace (case set_binding p of
         None \<Rightarrow> Inr (Some input)
       | Some name \<Rightarrow> bind_variable name (BoundSet stored) input)) (\<lambda>b.
     if any_set p then one_row b
     else if \<not> open_set p \<and> length (set_members p) \<noteq> length stored then no_rows
     else if length (set_members p) > length stored then no_rows
     else
       let (bs, e) = members_trace (set_members p) stored (replicate (length stored) False) b
       in (if length stored > 1 then unique_rows [] bs else bs, e))"

lemma visit_appearance_set_trace:
  "visit_appearance_set p stored input visit s = feed (set_trace p stored input) visit s"
proof -
  define bs e where "bs b = fst (members_trace (set_members p) stored (replicate (length stored) False) b)"
    and "e b = snd (members_trace (set_members p) stored (replicate (length stored) False) b)" for b
  then have tr: "members_trace (set_members p) stored (replicate (length stored) False) b = (bs b, e b)" for b
    by simp
  have unique: "(let (r, (_, s)) = feed (bs b, e b) (visit_unique n visit) ([], s) in (r, s))
      = feed (if n > 1 then unique_rows [] (bs b) else bs b, e b) visit s" for n b s
    by (rule feed_visit_unique)
  show ?thesis
    unfolding visit_appearance_set_def set_trace_def feed_option_trace match_members_trace tr unique
    by (simp only: feed_if feed_one_row feed_no_rows Let_def prod.case)
qed

lemma match_appearance_set_trace: "match_appearance_set p stored input = collected (set_trace p stored input)"
proof -
  have "feed (set_trace p stored input) collect_row [] =
      (case snd (set_trace p stored input) of Inl e \<Rightarrow> Inl e | Inr _ \<Rightarrow> Inr Continue, [] @ fst (set_trace p stored input))"
    by (rule feed_collect) (simp add: collect_row_def)
  then show ?thesis
    by (simp add: match_appearance_set_def visit_appearance_set_trace collected_def split: sum.split)
qed

section \<open>Patterns\<close>

abbreviation (input) foreign_identity :: database_error where
  "foreign_identity \<equiv> Invariant ''posit index contains an identity without a literal posit''"

definition candidate_trace ::
    "'n literal_lib \<Rightarrow> database \<Rightarrow> posit_pattern \<Rightarrow> binding \<Rightarrow> thing \<Rightarrow> binding trace" where
  "candidate_trace L db p input t =
     (case posit_of_thing t (posit_keeper db) of
        None \<Rightarrow> failed foreign_identity
      | Some q \<Rightarrow> trace_bind (set_trace (pat_appearances p) (pset q) input)
          (\<lambda>b. option_trace (match_fields L p q b)))"

definition pattern_trace ::
    "'n literal_lib \<Rightarrow> chrono \<Rightarrow> (string \<Rightarrow> string) \<Rightarrow> database \<Rightarrow> planned_pattern \<Rightarrow> binding \<Rightarrow> binding trace" where
  "pattern_trace L C nfc db pp input =
     (let p = planned pp
      in if pat_cutoff p \<noteq> None then rows_trace (fst (evaluate_pattern L C nfc db pp input Map.empty))
         else trace_bind (rows_trace (candidate_identities nfc db p input (plan_access pp)))
           (candidate_trace L db p input))"

lemma visit_pattern_trace:
  "visit_pattern L C nfc db pp input visit s = feed (pattern_trace L C nfc db pp input) visit s"
proof -
  have cand: "(\<lambda>t s. attempt_st (ok_or foreign_identity (posit_of_thing t (posit_keeper db)), s) (\<lambda>q s.
        visit_appearance_set (pat_appearances p) (pset q) input (\<lambda>b s.
          attempt_st (match_fields L p q b, s) (\<lambda>m s.
            case m of None \<Rightarrow> (Inr Continue, s) | Some b \<Rightarrow> visit b s)) s))
     = (\<lambda>t. feed (candidate_trace L db p input t) visit)" for p
  proof (intro ext)
    fix t s
    have fields: "(\<lambda>b s. attempt_st (match_fields L p q b, s) (\<lambda>m s.
          case m of None \<Rightarrow> (Inr Continue, s) | Some b \<Rightarrow> visit b s))
        = (\<lambda>b. feed (option_trace (match_fields L p q b)) visit)" for q
      by (intro ext) (simp only: feed_option)
    show "attempt_st (ok_or foreign_identity (posit_of_thing t (posit_keeper db)), s) (\<lambda>q s.
        visit_appearance_set (pat_appearances p) (pset q) input (\<lambda>b s.
          attempt_st (match_fields L p q b, s) (\<lambda>m s.
            case m of None \<Rightarrow> (Inr Continue, s) | Some b \<Rightarrow> visit b s)) s)
       = feed (candidate_trace L db p input t) visit s"
      by (cases "posit_of_thing t (posit_keeper db)")
        (simp_all add: candidate_trace_def visit_appearance_set_trace feed_trace_bind fields)
  qed
  show ?thesis
    unfolding visit_pattern_def pattern_trace_def Let_def cand
    by (simp add: feed_rows_trace feed_trace_bind)
qed

fun branch_trace ::
    "'n :: linorder literal_lib \<Rightarrow> chrono \<Rightarrow> (string \<Rightarrow> string) \<Rightarrow> database \<Rightarrow> planned_pattern list \<Rightarrow> binding
       \<Rightarrow> binding trace" where
  "branch_trace L C nfc db [] input = one_row input"
| "branch_trace L C nfc db (pp # pps) input =
     trace_bind (pattern_trace L C nfc db pp input) (\<lambda>b.
       case holds_all L C (plan_predicates pp) b of
         Inl e \<Rightarrow> failed e
       | Inr ok \<Rightarrow> if ok then branch_trace L C nfc db pps b else no_rows)"

lemma visit_branch_trace:
  "visit_branch L C nfc db pps input visit s = feed (branch_trace L C nfc db pps input) visit s"
proof (induction pps arbitrary: input s)
  case (Cons pp pps)
  have "(\<lambda>b s. attempt_st (holds_all L C (plan_predicates pp) b, s) (\<lambda>holds s.
       if holds then visit_branch L C nfc db pps b visit s else (Inr Continue, s)))
     = (\<lambda>b. feed (case holds_all L C (plan_predicates pp) b of
         Inl e \<Rightarrow> failed e
       | Inr ok \<Rightarrow> if ok then branch_trace L C nfc db pps b else no_rows) visit)"
    by (intro ext) (auto simp: Cons.IH split: sum.split)
  then show ?case by (simp add: visit_pattern_trace feed_trace_bind)
qed simp

end
