(* ===== verification/Query_Soundness.thy ===== *)
theory Query_Soundness
  imports Query_Traces
begin

text \<open>
  Type soundness of pattern evaluation: on a binding that has the domains of its environment, a pattern
  whose names are coherent with it, whose dependencies are bound and which compares no literal produces
  bindings of the extended environment, and can end in one error only, that of a candidate identity that
  is not a posit.
\<close>

section \<open>Sound traces\<close>

definition ends_well :: "unit result \<Rightarrow> bool" where
  "ends_well r \<longleftrightarrow> r = Inr () \<or> r = Inl foreign_identity"

definition sound :: "environment \<Rightarrow> binding \<Rightarrow> binding trace \<Rightarrow> bool" where
  "sound E b tr \<longleftrightarrow> (\<forall>c \<in> set (fst tr). typed E c \<and> refines b c) \<and> ends_well (snd tr)"

lemma ends_well_simps [simp]: "ends_well (Inr u)" "ends_well (Inl foreign_identity)"
  by (simp_all add: ends_well_def)

lemma sound_simps [simp]:
  "sound E b no_rows" "sound E b (one_row c) \<longleftrightarrow> typed E c \<and> refines b c"
  "sound E b (failed foreign_identity)"
  "sound E b (xs, Inr u) \<longleftrightarrow> (\<forall>c \<in> set xs. typed E c \<and> refines b c)"
  by (simp_all add: sound_def no_rows_def one_row_def failed_def)

lemma bind_rows_ends: "ends_well r \<Longrightarrow> (\<And>x. x \<in> set xs \<Longrightarrow> ends_well (snd (f x))) \<Longrightarrow> ends_well (snd (bind_rows xs r f))"
proof (induction xs)
  case (Cons x xs)
  have "ends_well (snd (f x))" using Cons.prems(2) [of x] by simp
  moreover have "ends_well (snd (bind_rows xs r f))" using Cons by simp
  ultimately show ?case by (auto simp: Let_def split: prod.split sum.split)
qed simp

lemma bind_rows_set: "set (fst (bind_rows xs r f)) \<subseteq> (\<Union>x \<in> set xs. set (fst (f x)))"
  by (induction xs) (auto simp: Let_def split: prod.splits sum.splits)

lemma sound_bind_over:
  assumes "ends_well (snd tr)" and "\<And>x. x \<in> set (fst tr) \<Longrightarrow> sound E b (f x)"
  shows "sound E b (trace_bind tr f)"
  using assms bind_rows_ends [of "snd tr" "fst tr" f] bind_rows_set [of "fst tr" "snd tr" f]
  unfolding sound_def trace_bind_def by blast

lemma sound_bind:
  assumes "sound E b tr" and "\<And>c. typed E c \<Longrightarrow> refines b c \<Longrightarrow> sound F c (f c)"
  shows "sound F b (trace_bind tr f)"
proof (rule sound_bind_over)
  show "ends_well (snd tr)" using assms(1) by (simp add: sound_def)
  fix c assume "c \<in> set (fst tr)"
  then have "typed E c" "refines b c" using assms(1) by (simp_all add: sound_def)
  with assms(2) refines_trans [OF \<open>refines b c\<close>] show "sound F b (f c)" by (auto simp: sound_def)
qed

lemma sound_option: "matches_to E b r \<Longrightarrow> sound E b (option_trace r)"
  unfolding matches_to_def by (auto simp: option_trace_def split: option.split)

lemma sound_cong: "sound E b tr \<Longrightarrow> (\<And>n. resolved (E n) = resolved (F n)) \<Longrightarrow> sound F b tr"
  unfolding sound_def using typed_cong by blast

section \<open>Appearance sets\<close>

definition members_schema :: "appearance_pattern list \<Rightarrow> (string \<times> query_domain) list" where
  "members_schema ms = concat (map member_schema ms)"

lemma members_sound:
  assumes "typed E b" and "coherent_env (widen E (members_schema ps))"
    and "\<And>p n. p \<in> set ps \<Longrightarrow> n \<in> set (union_names (thing_pattern p)) \<Longrightarrow> identity_in E n"
  shows "sound (widen E (members_schema ps)) b (members_trace ps stored used b)"
  using assms
proof (induction ps arbitrary: E b used)
  case (Cons p ps)
  let ?E = "widen E (member_schema p)"
  have split: "widen E (members_schema (p # ps)) = widen ?E (members_schema ps)"
    by (simp add: members_schema_def)
  note coh = Cons.prems(2) [unfolded split]
  have step: "sound (widen ?E (members_schema ps)) b
      (trace_bind (option_trace (match_appearance p a b)) (members_trace ps stored (used[i := True])))" for a i
  proof (rule sound_bind)
    show "sound ?E b (option_trace (match_appearance p a b))"
      using Cons.prems(1,3) coherent_widenD [OF coh] by (intro sound_option match_appearance_typed) auto
    show "sound (widen ?E (members_schema ps)) c (members_trace ps stored (used[i := True]) c)" if "typed ?E c" for c
    proof (rule Cons.IH [OF that coh])
      fix q n assume "q \<in> set ps" "n \<in> set (union_names (thing_pattern q))"
      then have "identity_in E n" using Cons.prems(3) by auto
      then show "identity_in ?E n" by (rule identity_in_mono) (rule widen_mono)
    qed
  qed
  show ?case unfolding split members_trace.simps
    by (rule sound_bind_over) (auto simp: step)
qed (simp add: members_schema_def)

definition set_schema :: "appearance_set_pattern \<Rightarrow> (string \<times> query_domain) list" where
  "set_schema p = in_domain AppearanceSetDomain (option_names (set_binding p)) @ members_schema (set_members p)"

lemma set_sound:
  assumes "typed E b" and "coherent_env (widen E (set_schema p))"
    and "\<And>m n. m \<in> set (set_members p) \<Longrightarrow> n \<in> set (union_names (thing_pattern m)) \<Longrightarrow> identity_in E n"
    and "any_set p \<Longrightarrow> set_members p = []"
  shows "sound (widen E (set_schema p)) b (set_trace p stored b)"
proof -
  let ?E = "widen E (in_domain AppearanceSetDomain (option_names (set_binding p)))"
  have coh: "coherent_env (widen ?E (members_schema (set_members p)))"
    using assms(2) by (simp add: set_schema_def)
  show ?thesis
    unfolding set_trace_def set_schema_def widen_simps
  proof (rule sound_bind)
    show "sound ?E b (option_trace (case set_binding p of
         None \<Rightarrow> Inr (Some b) | Some name \<Rightarrow> bind_variable name (BoundSet stored) b))"
      using assms(1) coherent_widenD [OF coh] bind_variable_typed [of E b _ "BoundSet stored"]
      by (cases "set_binding p") (auto simp: in_domain_def intro!: sound_option)
    fix c assume c: "typed ?E c"
    have "sound (widen ?E (members_schema (set_members p))) c
        (members_trace (set_members p) stored (replicate (length stored) False) c)"
    proof (rule members_sound [OF c coh])
      fix m n assume "m \<in> set (set_members p)" "n \<in> set (union_names (thing_pattern m))"
      then have "identity_in E n" by (rule assms(3))
      then show "identity_in ?E n" by (rule identity_in_mono) (rule widen_mono)
    qed
    then have members: "sound (widen ?E (members_schema (set_members p))) c
        (let (bs, e) = members_trace (set_members p) stored (replicate (length stored) False) c
         in (if length stored > 1 then unique_rows [] bs else bs, e))"
      using set_unique_rows [of "[]"]
      by (cases "members_trace (set_members p) stored (replicate (length stored) False) c")
        (auto simp: sound_def dest: subsetD)
    show "sound (widen ?E (members_schema (set_members p))) c
        (if any_set p then one_row c
         else if \<not> open_set p \<and> length (set_members p) \<noteq> length stored then no_rows
         else if length (set_members p) > length stored then no_rows
         else let (bs, e) = members_trace (set_members p) stored (replicate (length stored) False) c
           in (if length stored > 1 then unique_rows [] bs else bs, e))"
      using c members assms(4) by (simp add: members_schema_def)
  qed
qed

section \<open>Candidates\<close>

text \<open>What evaluating a pattern relies on: its names are coherent with the environment, the names of its
  unions are bound to identities, and a wildcard has no members.\<close>

definition ready :: "environment \<Rightarrow> posit_pattern \<Rightarrow> bool" where
  "ready E p \<longleftrightarrow> coherent_env (widen E (own_schema p))
     \<and> (\<forall>m \<in> set (set_members (pat_appearances p)). \<forall>n \<in> set (union_names (thing_pattern m)). identity_in E n)
     \<and> (any_set (pat_appearances p) \<longrightarrow> set_members (pat_appearances p) = [])"

lemma typed_of_domain:
  assumes "typed E b" and "coherent_env (widen E l)" and "(n, d) \<in> set l" and "binding_get n b = Some v"
  shows "domain_kind (domain_of v) = domain_kind d"
proof -
  have "domain_of v \<in> widen E l n"
    using typed_member [OF assms(1,4) coherent_widenD [OF assms(2)]] widen_mono by blast
  moreover have "d \<in> widen E l n" using assms(3) by (simp add: widen_def merge_env_def declares_def)
  ultimately show ?thesis using coherent_envD [OF assms(2), of n] unfolding coherent_def by blast
qed

lemma identity_of_total: "domain_kind (domain_of v) = ThingDomain \<Longrightarrow> \<exists>t. identity_of n v d = Inr t"
  by (cases v) (simp_all add: identity_of_def)

lemma all_identities_total:
  assumes "typed E b" and "coherent_env E" and "\<And>n. n \<in> set names \<Longrightarrow> identity_in E n"
  shows "\<exists>ts. all_identities names b = Inr ts"
  using assms(3)
proof (induction names)
  case (Cons n names)
  then obtain ts where "all_identities names b = Inr ts" by auto
  moreover from Cons.prems have "identity_in E n" by simp
  then obtain t where "binding_get n b = Some (BoundThing t) \<or> binding_get n b = Some (BoundPosit t)"
    by (rule bound_identity_in [OF assms(1,2)]) auto
  ultimately show ?case by (auto simp: identity_of_def)
qed simp

lemma indexed_things_total:
  assumes "typed E b" and "coherent_env (widen E (in_domain ThingDomain (thing_names slot)))"
    and "\<And>n. n \<in> set (union_names slot) \<Longrightarrow> identity_in E n"
  shows "\<exists>ts. indexed_things slot b = Inr ts"
proof -
  have "\<exists>ts. (case binding_get n b of None \<Rightarrow> Inr None
      | Some v \<Rightarrow> attempt (identity_of n v ThingDomain) (\<lambda>t. Inr (Some [t]))) = Inr ts"
    if "n \<in> set (thing_names slot)" for n
  proof (cases "binding_get n b")
    case (Some v)
    have "domain_kind (domain_of v) = ThingDomain"
      using typed_of_domain [OF assms(1,2) _ Some, of ThingDomain] that by (auto simp: in_domain_def)
    then obtain t where "identity_of n v ThingDomain = Inr t" using identity_of_total by blast
    with Some show ?thesis by simp
  qed simp
  then show ?thesis using all_identities_total [OF assms(1) coherent_widenD [OF assms(2)], of "union_names slot"] assms(3)
    by (cases slot) (fastforce simp: indexed_things_def)+
qed

lemma indexed_role_total:
  assumes "typed E b" and "coherent_env (widen E (in_domain RoleDomain (role_names slot)))"
  shows "\<exists>r. indexed_role nfc db slot b = Inr r"
proof (cases slot)
  case (RoleVariable n)
  show ?thesis
  proof (cases "binding_get n b")
    case (Some v)
    have "domain_kind (domain_of v) = RoleDomain"
      using typed_of_domain [OF assms _ Some, of RoleDomain] RoleVariable by (auto simp: in_domain_def)
    then obtain r where "v = BoundRole r" by (cases v) simp_all
    with Some RoleVariable show ?thesis by (auto simp: indexed_role_def)
  qed (auto simp: RoleVariable indexed_role_def)
qed (auto simp: indexed_role_def)

lemma coherent_env_part: "coherent_env (widen E l) \<Longrightarrow> set m \<subseteq> set l \<Longrightarrow> coherent_env (widen E m)"
  by (erule coherent_env_mono) (auto simp: widen_def merge_env_def declares_def)

lemma member_postings_total:
  assumes "typed E b" and "coherent_env (widen E (members_schema ms))"
    and "\<And>m n. m \<in> set ms \<Longrightarrow> n \<in> set (union_names (thing_pattern m)) \<Longrightarrow> identity_in E n"
  shows "\<exists>r. member_postings nfc db ms b = Inr r"
  using assms(2,3)
proof (induction ms)
  case (Cons m ms)
  have rest: "\<exists>r. member_postings nfc db ms b = Inr r"
    using Cons.prems by (intro Cons.IH coherent_env_part [OF Cons.prems(1)]) (auto simp: members_schema_def)
  have r: "\<exists>r. indexed_role nfc db (role_pattern m) b = Inr r"
    by (rule indexed_role_total [OF assms(1) coherent_env_part [OF Cons.prems(1)]])
      (auto simp: members_schema_def member_schema_def)
  have ts: "\<exists>ts. indexed_things (thing_pattern m) b = Inr ts"
    by (rule indexed_things_total [OF assms(1) coherent_env_part [OF Cons.prems(1)]])
      (use Cons.prems(2) in \<open>auto simp: members_schema_def member_schema_def\<close>)
  from r ts rest show ?case by (auto simp: Let_def)
qed simp

lemma candidate_identities_total:
  assumes "typed E b" and "ready E p" and "access \<noteq> EffectiveSliceAccess"
  shows "\<exists>ids. candidate_identities nfc db p b access = Inr ids"
proof -
  have coh: "coherent_env (widen E (own_schema p))" using assms(2) by (simp add: ready_def)
  have "\<exists>r. posit_postings p b = Inr r"
  proof (cases "pat_posit p")
    case (Some n)
    have "\<exists>t. identity_of n v PositDomain = Inr t" if "binding_get n b = Some v" for v
      using typed_of_domain [OF assms(1) coh _ that, of PositDomain] Some
      by (intro identity_of_total) (auto simp: own_schema_def in_domain_def)
    with Some show ?thesis by (cases "binding_get n b") (force simp: posit_postings_def)+
  qed (simp add: posit_postings_def)
  moreover have "\<exists>r. set_postings db p b = Inr r"
  proof (cases "set_binding (pat_appearances p)")
    case (Some n)
    have "domain_kind (domain_of v) = AppearanceSetDomain" if "binding_get n b = Some v" for v
      using typed_of_domain [OF assms(1) coh _ that, of AppearanceSetDomain] Some
      by (auto simp: own_schema_def in_domain_def)
    with Some show ?thesis
      by (cases "binding_get n b"; cases "the (binding_get n b)") (auto simp: set_postings_def)
  qed (simp add: set_postings_def)
  moreover have "\<exists>r. member_postings nfc db (set_members (pat_appearances p)) b = Inr r"
    using assms(2) by (intro member_postings_total [OF assms(1) coherent_env_part [OF coh]])
      (auto simp: own_schema_def members_schema_def ready_def)
  ultimately have "\<exists>r. indexed_candidate_identities nfc db p b = Inr r"
    by (auto simp: indexed_candidate_identities_def split: option.split list.split)
  with assms(3) show ?thesis by (cases access) (auto simp: candidate_identities_def)
qed

section \<open>Patterns\<close>

lemma own_schema_split:
  "widen E (own_schema p) = widen (widen E (set_schema (pat_appearances p))) (field_schema p)"
proof -
  have "set (own_schema p) = set (set_schema (pat_appearances p) @ field_schema p)"
    by (auto simp: own_schema_def set_schema_def members_schema_def field_schema_def)
  then have "widen E (own_schema p) = widen E (set_schema (pat_appearances p) @ field_schema p)"
    using declares_mset unfolding widen_def by metis
  then show ?thesis by simp
qed

lemma ready_set:
  assumes "ready E p"
  shows "coherent_env (widen E (set_schema (pat_appearances p)))"
  using assms coherent_widenD unfolding ready_def own_schema_split by blast

lemma ready_set_sound:
  assumes "typed E b" and "ready E p"
  shows "sound (widen E (set_schema (pat_appearances p))) b (set_trace (pat_appearances p) stored b)"
  using assms(2) by (intro set_sound [OF assms(1) ready_set [OF assms(2)]]) (auto simp: ready_def)

lemma candidate_sound:
  assumes "typed E b" and "ready E p" and "literal_free p"
  shows "sound (widen E (own_schema p)) b (candidate_trace L db p b t)"
proof -
  have "coherent_env (widen (widen E (set_schema (pat_appearances p))) (field_schema p))"
    using assms(2) by (simp add: ready_def own_schema_split)
  then have "sound (widen E (own_schema p)) c (option_trace (match_fields L p q c))"
    if "typed (widen E (set_schema (pat_appearances p))) c" for c q
    unfolding own_schema_split using that assms(3) by (intro sound_option match_fields_typed)
  then have "sound (widen E (own_schema p)) b (trace_bind (set_trace (pat_appearances p) (pset q) b)
      (\<lambda>b. option_trace (match_fields L p q b)))" for q
    by (rule sound_bind [OF ready_set_sound [OF assms(1,2)]])
  then show ?thesis by (auto simp: candidate_trace_def split: option.split)
qed

section \<open>Temporal patterns\<close>

lemma group_rows_total:
  "\<exists>st'. group_rows C key tm (\<lambda>_ s. (Inr (), s)) index rows st w = (Inr st', w)"
  by (induction rows arbitrary: index st)
    (auto simp: observe_def Let_def split: option.split prod.split)

lemma keep_grouped_total:
  "\<exists>out. keep_grouped C tm (\<lambda>_ s. (Inr (), s)) frontiers index rows kept w = (Inr out, w)
     \<and> set out \<subseteq> set kept \<union> fst ` set rows"
proof (induction rows arbitrary: index kept)
  case (Cons x rows)
  obtain row grp where x: "x = (row, grp)" by (cases x)
  have step: "keep_grouped C tm (\<lambda>_ s. (Inr (), s)) frontiers index (x # rows) kept w
      = keep_grouped C tm (\<lambda>_ s. (Inr (), s)) frontiers (Suc index) rows kept w
    \<or> keep_grouped C tm (\<lambda>_ s. (Inr (), s)) frontiers index (x # rows) kept w
      = keep_grouped C tm (\<lambda>_ s. (Inr (), s)) frontiers (Suc index) rows (kept @ [row]) w"
    by (cases "frontiers ! grp") (auto simp: x dominates_def)
  from Cons [of "Suc index" kept] Cons [of "Suc index" "kept @ [row]"] step show ?case by (auto simp: x)
qed simp

lemma reduce_matches_total: "\<exists>out. reduce_matches C rows = Inr out \<and> set out \<subseteq> set rows"
proof -
  obtain groups frontiers membership where
    "group_rows C (\<lambda>m. set_key (pset (match_posit m))) (\<lambda>m. ptime (match_posit m)) (\<lambda>_ s. (Inr (), s)) 0 rows
       (Map.empty, [], []) () = (Inr (groups, frontiers, membership), ())"
    using group_rows_total by (metis prod_cases3)
  moreover have "fst ` set (zip rows membership) \<subseteq> set rows" by (auto dest: set_zip_leftD)
  ultimately show ?thesis
    using keep_grouped_total [of C "\<lambda>m. ptime (match_posit m)" frontiers 0 "zip rows membership" "[]" "()"]
    by (auto simp: reduce_matches_def retain_maximal_by_key_def)
qed

text \<open>The results of a fallible list computation, when each part is sound.\<close>

definition lists_to :: "('b \<Rightarrow> bool) \<Rightarrow> 'b list result \<Rightarrow> bool" where
  "lists_to P r \<longleftrightarrow> (case r of Inl e \<Rightarrow> e = foreign_identity | Inr ys \<Rightarrow> \<forall>y \<in> set ys. P y)"

lemma lists_to_simps [simp]:
  "lists_to P (Inr ys) \<longleftrightarrow> (\<forall>y \<in> set ys. P y)" "lists_to P (Inl e) \<longleftrightarrow> e = foreign_identity"
  by (simp_all add: lists_to_def)

lemma lists_to_attempt:
  assumes "lists_to P r" and "\<And>xs. r = Inr xs \<Longrightarrow> \<forall>x \<in> set xs. P x \<Longrightarrow> lists_to Q (f xs)"
  shows "lists_to Q (attempt r f)"
  using assms by (cases r) auto

lemma lists_to_concat: "(\<And>x. x \<in> set xs \<Longrightarrow> lists_to P (f x)) \<Longrightarrow> lists_to P (try_concat f xs)"
proof (induction xs)
  case (Cons x xs)
  then have "lists_to P (f x)" "lists_to P (try_concat f xs)" by auto
  then show ?case by (cases "f x"; cases "try_concat f xs") auto
qed simp

lemma lists_to_filter_map:
  assumes "\<And>x. x \<in> set xs \<Longrightarrow> \<exists>answer. f x = Inr answer \<and> (\<forall>y. answer = Some y \<longrightarrow> P y)"
  shows "lists_to P (try_filter_map f xs)"
  unfolding try_filter_map_def
proof (rule lists_to_concat)
  fix x assume "x \<in> set xs"
  from assms [OF this] show "lists_to P (attempt (f x) (\<lambda>y. Inr (case y of None \<Rightarrow> [] | Some y \<Rightarrow> [y])))"
    by (auto split: option.split)
qed

lemma lists_to_collected: "sound E b tr \<Longrightarrow> lists_to (\<lambda>c. typed E c \<and> refines b c) (collected tr)"
  by (auto simp: sound_def ends_well_def collected_def)

lemma sound_rows_trace: "lists_to (\<lambda>c. typed E c \<and> refines b c) r \<Longrightarrow> sound E b (rows_trace r)"
  by (cases r) auto

text \<open>The environment of the input without the names that are bound after the reduction.\<close>

definition without :: "string set \<Rightarrow> environment \<Rightarrow> environment" where
  "without N E = (\<lambda>n. if n \<in> N then {} else E n)"

lemma typed_temporal_input:
  assumes "typed E b"
  shows "typed (without (deferred_temporal_fields p) E) (temporal_input p b)"
proof -
  have "binding_get n (temporal_input p b) = (if n \<notin> deferred_temporal_fields p then binding_get n b else None)" for n
    using binding_get_filter [OF typed_sorted [OF assms], of n "\<lambda>n. n \<notin> deferred_temporal_fields p"]
    by (simp add: temporal_input_def)
  with assms show ?thesis
    by (auto simp: typed_def temporal_input_def sorted_binding_filter without_def)
qed

lemma ready_without:
  assumes "ready E p"
  shows "ready (without (deferred_temporal_fields p) E) p"
proof -
  have "n \<notin> deferred_temporal_fields p"
    if "m \<in> set (set_members (pat_appearances p))" "n \<in> set (union_names (thing_pattern m))" for m n
    using that by (auto simp: deferred_temporal_fields_def Let_def dependencies.simps [of p] own_dependencies_def)
  then have "identity_in (without (deferred_temporal_fields p) E) n"
    if "m \<in> set (set_members (pat_appearances p))" "n \<in> set (union_names (thing_pattern m))" for m n
    using that assms by (auto simp: ready_def identity_in_def without_def)
  moreover have "coherent_env (widen (without (deferred_temporal_fields p) E) (own_schema p))"
    using assms unfolding ready_def
    by (elim conjE coherent_env_mono) (auto simp: widen_def merge_env_def without_def)
  ultimately show ?thesis using assms by (auto simp: ready_def)
qed

lemma bind_input_typed:
  assumes "typed E input" and "coherent_env (widen E l)" and "\<And>n. E' n \<subseteq> E n"
    and "typed (widen E' l) c"
  shows "\<exists>answer. bind_all input c = Inr answer
    \<and> (\<forall>b. answer = Some b \<longrightarrow> typed (widen E l) b \<and> refines input b)"
proof -
  let ?F = "widen (widen E' l) (pairs_of input)"
  have F: "?F n = set_option (resolved (E n)) \<union> E' n \<union> declares l n" for n
    using declares_pairs_of [OF assms(1), of n] by (auto simp: widen_def merge_env_def)
  have G: "widen E l n = E n \<union> declares l n" for n by (simp add: widen_def merge_env_def)
  have cohE: "coherent (E n)" for n using coherent_envD [OF coherent_widenD [OF assms(2)]] .
  have coh: "coherent (?F n)" for n
    unfolding F using coherent_envD [OF assms(2), of n] assms(3) unfolding G by (rule coherent_absorb)
  then have same: "resolved (?F n) = resolved (widen E l n)" for n
    unfolding F G using resolved_absorb [OF cohE assms(3), of n "declares l n"] by simp
  have "matches_to ?F c (bind_all input c)"
    using assms(4) coh by (intro bind_all_typed) (auto simp: coherent_env_def)
  then show ?thesis using typed_cong [of ?F _ "widen E l"] same
      bind_all_refines_input [OF _ typed_sorted [OF assms(4)] typed_sorted [OF assms(1)]]
    by (auto simp: matches_to_def)
qed

definition cutoff_bound :: "environment \<Rightarrow> posit_pattern \<Rightarrow> bool" where
  "cutoff_bound E p \<longleftrightarrow> (\<forall>name. pat_cutoff p = Some (CutoffVariable name) \<longrightarrow> TimeDomain \<in> E name)"

lemma resolve_cutoff_total:
  assumes "typed E b" and "coherent_env E" and "cutoff_bound E p" and "pat_cutoff p = Some c"
  shows "\<exists>t. resolve_cutoff c b = Inr t"
proof (cases c)
  case (CutoffVariable name)
  then have "TimeDomain \<in> E name" using assms(3,4) by (simp add: cutoff_bound_def)
  then obtain v where "binding_get name b = Some v" "domain_kind (domain_of v) = domain_kind TimeDomain"
    by (rule typed_kind [OF assms(1,2)])
  then show ?thesis using CutoffVariable by (cases v) (auto simp: resolve_cutoff_def)
qed (simp add: resolve_cutoff_def)

lemma candidate_posits_total:
  assumes "typed E b" and "ready E p" and "access \<noteq> EffectiveSliceAccess"
  shows "lists_to (\<lambda>_. True) (candidate_posits nfc db p b access)"
proof -
  obtain ids where "candidate_identities nfc db p b access = Inr ids"
    using candidate_identities_total [OF assms] by blast
  moreover have "lists_to (\<lambda>_. True) (try_map (\<lambda>t. ok_or foreign_identity (posit_of_thing t (posit_keeper db))) ids)"
    by (induction ids) (auto simp: ok_or_def attempt_def split: option.splits sum.splits)
  ultimately show ?thesis by (simp add: candidate_posits_def)
qed

lemma structural_matches_sound:
  assumes "typed E b" and "ready E p"
  shows "lists_to (\<lambda>m. typed (widen E (set_schema (pat_appearances p))) (match_binding m)) (structural_matches C p t b q)"
proof -
  have "lists_to (\<lambda>c. typed (widen E (set_schema (pat_appearances p))) c \<and> refines b c)
      (match_appearance_set (pat_appearances p) (pset q) b)"
    unfolding match_appearance_set_trace by (rule lists_to_collected [OF ready_set_sound [OF assms]])
  then show ?thesis
    by (cases "match_appearance_set (pat_appearances p) (pset q) b") (auto simp: structural_matches_def)
qed

lemma reduce_matches_sound: "\<forall>m \<in> set ms. P m \<Longrightarrow> lists_to P (if c then reduce_matches C ms else Inr ms)"
proof -
  assume "\<forall>m \<in> set ms. P m"
  moreover obtain out where "reduce_matches C ms = Inr out" "set out \<subseteq> set ms" using reduce_matches_total by blast
  ultimately show ?thesis by (cases c) (simp_all, blast)
qed

lemma evaluate_relation_sound:
  assumes "typed E input" and "ready E p" and "literal_free p" and "cutoff_bound E p"
    and "access \<noteq> EffectiveSliceAccess"
  shows "lists_to (\<lambda>c. typed (widen E (own_schema p)) c \<and> refines input c)
    (evaluate_relation L C nfc db p access input)"
proof -
  define S where "S = (if pat_cutoff p \<noteq> None then temporal_input p input else input)"
  define E' where "E' = (if pat_cutoff p \<noteq> None then without (deferred_temporal_fields p) E else E)"
  let ?set = "widen E' (set_schema (pat_appearances p))"
  have S: "typed E' S" "ready E' p" "\<And>n. E' n \<subseteq> E n"
    using assms typed_temporal_input ready_without by (auto simp: S_def E'_def without_def)
  have coh: "coherent_env (widen E (own_schema p))" "coherent_env (widen ?set (field_schema p))"
    using assms(2) S(2) by (simp_all add: ready_def own_schema_split)
  obtain cutoff where cutoff: "(case pat_cutoff p of None \<Rightarrow> Inr None
      | Some c \<Rightarrow> attempt (resolve_cutoff c input) (\<lambda>t. Inr (Some t))) = Inr cutoff"
    using resolve_cutoff_total [OF assms(1) coherent_widenD [OF coh(1)] assms(4)]
    by (cases "pat_cutoff p") auto
  let ?fields = "\<lambda>m. attempt_some (match_fields L p (match_posit m) (match_binding m))
      (\<lambda>b. Inr (Some \<lparr>match_posit = match_posit m, match_binding = b\<rparr>))"
  have fields: "\<exists>answer. ?fields m = Inr answer
      \<and> (\<forall>y. answer = Some y \<longrightarrow> typed (widen E' (own_schema p)) (match_binding y))"
    if "typed ?set (match_binding m)" for m
    using match_fields_typed [OF that coh(2) assms(3), of L "match_posit m"]
    by (auto simp: matches_to_def attempt_some_def own_schema_split split: option.split)
  have joined: "\<exists>answer. bind_all input (match_binding m) = Inr answer
      \<and> (\<forall>b. answer = Some b \<longrightarrow> typed (widen E (own_schema p)) b \<and> refines input b)"
    if "typed (widen E' (own_schema p)) (match_binding m)" for m
    by (rule bind_input_typed [OF assms(1) coh(1) S(3) that])
  show ?thesis
    unfolding evaluate_relation_def cutoff attempt_Inr Let_def S_def [symmetric]
  proof (rule lists_to_attempt [OF candidate_posits_total [OF S(1,2) assms(5)]])
    fix posits
    show "lists_to (\<lambda>c. typed (widen E (own_schema p)) c \<and> refines input c)
      (attempt (try_concat (structural_matches C p cutoff S) posits) (\<lambda>structural.
       attempt (if pat_cutoff p \<noteq> None \<and> \<not> pat_latest_matching p
         then reduce_matches C structural else Inr structural) (\<lambda>candidates.
       attempt (try_filter_map ?fields candidates) (\<lambda>matched.
       attempt (if pat_cutoff p \<noteq> None \<and> pat_latest_matching p
         then reduce_matches C matched else Inr matched) (\<lambda>matched.
       try_filter_map (\<lambda>m. bind_all input (match_binding m)) matched)))))"
      by (rule lists_to_attempt [OF lists_to_concat [OF structural_matches_sound [OF S(1,2)]]],
          rule lists_to_attempt [OF reduce_matches_sound [where P = "\<lambda>m. typed ?set (match_binding m)"]], assumption,
          rule lists_to_attempt [OF lists_to_filter_map
            [where P = "\<lambda>m. typed (widen E' (own_schema p)) (match_binding m)"]], rule fields, erule (1) bspec,
          rule lists_to_attempt [OF reduce_matches_sound
            [where P = "\<lambda>m. typed (widen E' (own_schema p)) (match_binding m)"]], assumption,
          rule lists_to_filter_map, rule joined, erule (1) bspec)
  qed
qed

section \<open>Planned patterns\<close>

text \<open>A pattern in an environment that it can be evaluated in, with the access the planner gives it.\<close>

definition well_planned :: "environment \<Rightarrow> planned_pattern \<Rightarrow> bool" where
  "well_planned E pp \<longleftrightarrow> ready E (planned pp) \<and> literal_free (planned pp) \<and> cutoff_bound E (planned pp)
     \<and> pat_effect (planned pp) = None \<and> plan_access pp \<noteq> EffectiveSliceAccess"

lemma evaluate_pattern_sound:
  assumes "typed E input" and "well_planned E pp"
  shows "lists_to (\<lambda>c. typed (widen E (own_schema (planned pp))) c \<and> refines input c)
      (fst (evaluate_pattern L C nfc db pp input cache))
    \<and> snd (evaluate_pattern L C nfc db pp input cache) = cache"
  using assms evaluate_relation_sound [of E input "planned pp" "plan_access pp" L C nfc db]
  by (simp add: well_planned_def evaluate_pattern_def)

theorem pattern_sound:
  assumes "typed E input" and "well_planned E pp"
  shows "sound (widen E (own_schema (planned pp))) input (pattern_trace L C nfc db pp input)"
proof (cases "pat_cutoff (planned pp) = None")
  case True
  have w: "ready E (planned pp)" "literal_free (planned pp)" "plan_access pp \<noteq> EffectiveSliceAccess"
    using assms(2) by (simp_all add: well_planned_def)
  obtain ids where "candidate_identities nfc db (planned pp) input (plan_access pp) = Inr ids"
    using candidate_identities_total [OF assms(1) w(1,3)] by blast
  then show ?thesis
    unfolding pattern_trace_def Let_def using True candidate_sound [OF assms(1) w(1,2)]
    by (simp, intro sound_bind_over) simp_all
next
  case False
  then show ?thesis
    using sound_rows_trace [OF conjunct1 [OF evaluate_pattern_sound [OF assms]]]
    by (simp add: pattern_trace_def)
qed

section \<open>Both executors agree on a pattern\<close>

lemma try_concat_Inr:
  "try_concat f xs = Inr ys \<Longrightarrow> (\<forall>x \<in> set xs. \<exists>zs. f x = Inr zs) \<and> ys = concat (map (\<lambda>x. projr (f x)) xs)"
  by (induction xs arbitrary: ys) (auto simp: attempt_eq_Inr)

lemma try_concat_total: "(\<And>x. x \<in> set xs \<Longrightarrow> f x = Inr (g x)) \<Longrightarrow> try_concat f xs = Inr (concat (map g xs))"
  by (induction xs) auto

lemma try_concat_concat: "try_concat f (concat xss) = try_concat (try_concat f) xss"
proof (induction xss)
  case (Cons xs xss)
  have "try_concat f (xs @ ys) = attempt (try_concat f xs) (\<lambda>as. attempt (try_concat f ys) (\<lambda>bs. Inr (as @ bs)))" for xs ys
    by (induction xs) (auto simp: attempt_def split: sum.splits)
  with Cons show ?case by simp
qed simp

text \<open>A trace that collects to a list is that list.\<close>

lemma collected_Inr: "collected tr = Inr xs \<longleftrightarrow> tr = (xs, Inr ())"
  by (cases tr) (auto simp: collected_def split: sum.splits)

lemma trace_bind_collected:
  assumes "collected tr = Inr xs" and "\<And>x. x \<in> set xs \<Longrightarrow> collected (f x) = Inr (g x)"
  shows "collected (trace_bind tr f) = Inr (concat (map g xs))"
  using assms trace_bind_lists [of xs f g] unfolding collected_Inr by simp

text \<open>The fields of the matches of one posit, and of all of them.\<close>

definition fields_of :: "'n literal_lib \<Rightarrow> posit_pattern \<Rightarrow> structural_match \<Rightarrow> structural_match option result" where
  "fields_of L p m = attempt_some (match_fields L p (match_posit m) (match_binding m))
     (\<lambda>b. Inr (Some \<lparr>match_posit = match_posit m, match_binding = b\<rparr>))"

lemma fields_of_Inr:
  "fields_of L p \<lparr>match_posit = q, match_binding = b\<rparr> = Inr answer \<Longrightarrow>
     match_fields L p q b = Inr (map_option match_binding answer)"
  by (auto simp: fields_of_def attempt_some_def attempt_eq_Inr split: option.splits)

lemma candidate_agrees:
  assumes "structural_matches C p None input q = Inr ms" and "try_filter_map (fields_of L p) ms = Inr matched"
  shows "collected (trace_bind (set_trace (pat_appearances p) (pset q) input)
      (\<lambda>b. option_trace (match_fields L p q b))) = Inr (map match_binding matched)"
proof -
  obtain bs where bs: "collected (set_trace (pat_appearances p) (pset q) input) = Inr bs"
    "ms = map (\<lambda>b. \<lparr>match_posit = q, match_binding = b\<rparr>) bs"
    using assms(1) by (auto simp: structural_matches_def match_appearance_set_trace attempt_eq_Inr)
  have "\<exists>matched. try_filter_map (fields_of L p) (map (\<lambda>b. \<lparr>match_posit = q, match_binding = b\<rparr>) bs) = Inr matched \<Longrightarrow>
      collected (trace_bind (bs, Inr ()) (\<lambda>b. option_trace (match_fields L p q b)))
      = Inr (map match_binding (projr (try_filter_map (fields_of L p) (map (\<lambda>b. \<lparr>match_posit = q, match_binding = b\<rparr>) bs))))"
  proof (induction bs)
    case (Cons b bs)
    let ?mk = "\<lambda>b. \<lparr>match_posit = q, match_binding = b\<rparr>"
    from Cons.prems obtain answer rest where a: "fields_of L p (?mk b) = Inr answer"
      "try_filter_map (fields_of L p) (map ?mk bs) = Inr rest"
      by (auto simp: try_filter_map_def attempt_eq_Inr)
    with Cons.IH have "trace_bind (bs, Inr ()) (\<lambda>b. option_trace (match_fields L p q b)) = (map match_binding rest, Inr ())"
      by (simp add: collected_Inr)
    then show ?case using a fields_of_Inr [OF a(1)]
      by (cases answer)
        (simp_all add: try_filter_map_def collected_Inr trace_bind_def no_rows_def one_row_def)
  qed (simp add: try_filter_map_def collected_Inr trace_bind_def)
  with assms(2) bs show ?thesis by (simp add: collected_Inr)
qed

lemma candidates_agree:
  assumes "try_map (\<lambda>t. ok_or foreign_identity (posit_of_thing t (posit_keeper db))) ids = Inr posits"
    and "try_concat (structural_matches C p None input) posits = Inr structural"
    and "try_filter_map (fields_of L p) structural = Inr matched"
  shows "collected (trace_bind (ids, Inr ()) (candidate_trace L db p input)) = Inr (map match_binding matched)"
  using assms
proof (induction ids arbitrary: posits structural matched)
  case (Cons t ids)
  from Cons.prems(1) obtain q qs where q: "posit_of_thing t (posit_keeper db) = Some q" "posits = q # qs"
    "try_map (\<lambda>t. ok_or foreign_identity (posit_of_thing t (posit_keeper db))) ids = Inr qs"
    by (auto simp: attempt_eq_Inr)
  with Cons.prems(2) obtain ms rest where ms: "structural_matches C p None input q = Inr ms"
    "try_concat (structural_matches C p None input) qs = Inr rest" "structural = ms @ rest"
    by (auto simp: attempt_eq_Inr)
  have "try_filter_map (fields_of L p) (xs @ ys) = attempt (try_filter_map (fields_of L p) xs)
      (\<lambda>as. attempt (try_filter_map (fields_of L p) ys) (\<lambda>bs. Inr (as @ bs)))" for xs ys
    unfolding try_filter_map_def by (induction xs) (auto simp: attempt_def split: sum.splits)
  with Cons.prems(3) ms(3) obtain m1 m2 where m: "try_filter_map (fields_of L p) ms = Inr m1"
    "try_filter_map (fields_of L p) rest = Inr m2" "matched = m1 @ m2"
    by (auto simp: attempt_eq_Inr)
  have "candidate_trace L db p input t = (map match_binding m1, Inr ())"
    using candidate_agrees [OF ms(1) m(1)] q(1) by (simp add: candidate_trace_def collected_Inr)
  moreover have "trace_bind (ids, Inr ()) (candidate_trace L db p input) = (map match_binding m2, Inr ())"
    using Cons.IH [OF q(3) ms(2) m(2)] by (simp add: collected_Inr)
  ultimately show ?case using m(3) by (simp add: collected_Inr trace_bind_def)
qed (simp add: trace_bind_def collected_Inr try_filter_map_def)

lemma pattern_agrees:
  assumes "typed E input" and "well_planned E pp"
    and "fst (evaluate_pattern L C nfc db pp input cache) = Inr rows"
  shows "pattern_trace L C nfc db pp input = (rows, Inr ())"
proof (cases "pat_cutoff (planned pp)")
  case None
  let ?p = "planned pp"
  have "evaluate_relation L C nfc db ?p (plan_access pp) input = Inr rows"
    using assms(2,3) by (simp add: well_planned_def evaluate_pattern_def)
  then obtain ids posits structural matched where
    ids: "candidate_identities nfc db ?p input (plan_access pp) = Inr ids"
    and run: "try_map (\<lambda>t. ok_or foreign_identity (posit_of_thing t (posit_keeper db))) ids = Inr posits"
      "try_concat (structural_matches C ?p None input) posits = Inr structural"
      "try_filter_map (fields_of L ?p) structural = Inr matched"
    and rows: "try_filter_map (\<lambda>m. bind_all input (match_binding m)) matched = Inr rows"
    using None unfolding evaluate_relation_def candidate_posits_def fields_of_def [symmetric]
    by (simp add: attempt_eq_Inr) blast
  have tr: "pattern_trace L C nfc db pp input = (map match_binding matched, Inr ())"
    using candidates_agree [OF run] ids None by (simp add: pattern_trace_def collected_Inr)
  then have "refines input (match_binding m)" if "m \<in> set matched" for m
    using pattern_sound [OF assms(1,2), of L C nfc db] that by simp
  then have "bind_all input (match_binding m) = Inr (Some (match_binding m))" if "m \<in> set matched" for m
    using that by (intro bind_all_refines [OF typed_sorted [OF assms(1)]])
  then have "try_filter_map (\<lambda>m. bind_all input (match_binding m)) matched = Inr (concat (map (\<lambda>m. [match_binding m]) matched))"
    unfolding try_filter_map_def by (intro try_concat_total) simp
  with rows tr show ?thesis by simp
next
  case (Some c)
  have "fst (evaluate_pattern L C nfc db pp input Map.empty) = fst (evaluate_pattern L C nfc db pp input cache)"
    using assms(2) by (simp add: well_planned_def evaluate_pattern_def)
  with Some assms(3) show ?thesis by (simp add: pattern_trace_def)
qed

end
