(* ===== verification/Query_Predicates.thy ===== *)
theory Query_Predicates
  imports Query_Soundness
begin

text \<open>
  Predicates on typed bindings: those that validation accepts can be decided, and extending a binding does
  not change the decision, so that it does not matter how early the pipeline makes it.
\<close>

section \<open>Typed predicates\<close>

definition equality_operators :: "string list" where
  "equality_operators = [''='', ''==='', ''?='']"

text \<open>The comparators of the grammar.\<close>

definition comparators :: "string list" where
  "comparators = equality_operators @ [''<'', ''<='', ''>'', ''>='']"

fun operand_domains :: "environment \<Rightarrow> operand \<Rightarrow> query_domain set" where
  "operand_domains E (OperandVariable n) = E n"
| "operand_domains E (OperandLiteral _) = {LiteralDomain}"
| "operand_domains E (OperandTime _) = {TimeDomain}"

definition decidable :: "query_domain \<Rightarrow> string \<Rightarrow> bool" where
  "decidable d op \<longleftrightarrow>
     (if d = LiteralDomain then op = ''===''
      else if d = TimeDomain then op \<in> set comparators
      else op \<in> set equality_operators)"

definition predicate_typed :: "environment \<Rightarrow> query_predicate \<Rightarrow> bool" where
  "predicate_typed E p \<longleftrightarrow> (\<exists>d \<in> E (pred_left p). \<exists>e \<in> operand_domains E (pred_right p).
     domain_kind d = domain_kind e \<and> decidable d (pred_operator p))"

lemma operand_domains_mono: "(\<And>n. E n \<subseteq> F n) \<Longrightarrow> operand_domains E r \<subseteq> operand_domains F r"
  by (cases r) auto

lemma predicate_typed_mono: "predicate_typed E p \<Longrightarrow> (\<And>n. E n \<subseteq> F n) \<Longrightarrow> predicate_typed F p"
  unfolding predicate_typed_def using operand_domains_mono [of E F "pred_right p"] by blast

lemma decidable_kind: "domain_kind d = domain_kind e \<Longrightarrow> decidable d op = decidable e op"
  by (cases d; cases e) (auto simp: decidable_def)

definition operand_value :: "operand \<Rightarrow> binding \<Rightarrow> bound_value option" where
  "operand_value r b =
     (case r of OperandVariable n \<Rightarrow> binding_get n b | OperandLiteral x \<Rightarrow> Some (BoundLiteral x)
      | OperandTime t \<Rightarrow> Some (BoundTime t))"

lemma evaluate_predicate_values:
  assumes "binding_get (pred_left p) b = Some v" and "operand_value (pred_right p) b = Some w"
  shows "evaluate_predicate L C p b = compare_values L C v (pred_operator p) w"
  using assms by (cases "pred_right p") (auto simp: evaluate_predicate_def operand_value_def)

lemma operand_typed:
  assumes "typed E b" and "coherent_env E" and "e \<in> operand_domains E r"
  obtains w where "operand_value r b = Some w" and "domain_kind (domain_of w) = domain_kind e"
proof (cases r)
  case (OperandVariable n)
  with assms(3) have "e \<in> E n" by simp
  then obtain w where "binding_get n b = Some w" "domain_kind (domain_of w) = domain_kind e"
    by (rule typed_kind [OF assms(1,2)])
  with OperandVariable that show thesis by (simp add: operand_value_def)
qed (use assms(3) that in \<open>auto simp: operand_value_def\<close>)

lemma compare_values_total:
  assumes "domain_kind (domain_of v) = domain_kind (domain_of w)" and "decidable (domain_of v) op"
  shows "\<exists>r. compare_values L C v op w = Inr r"
proof -
  have times: "\<exists>r. compare_times C t op u = Inr r" if "op \<in> set comparators" for t u
    using that unfolding compare_times_def comparators_def equality_operators_def by auto
  have literals: "\<exists>r. compare_literals L x ''==='' y = Inr r" for x y by (simp add: compare_literals_def)
  have identities: "\<exists>r. identity_comparison t op u = Inr r" if "op \<in> set equality_operators" for t u
    using that by (auto simp: identity_comparison_def equality_operators_def)
  show ?thesis
    using assms times literals identities
    by (cases v; cases w) (auto simp: decidable_def equality_operators_def)
qed

lemma predicate_values:
  assumes "typed E b" and "coherent_env E" and "predicate_typed E p"
  obtains v w where "binding_get (pred_left p) b = Some v" and "operand_value (pred_right p) b = Some w"
    and "domain_kind (domain_of v) = domain_kind (domain_of w)" and "decidable (domain_of v) (pred_operator p)"
proof -
  obtain d e where d: "d \<in> E (pred_left p)" and e: "e \<in> operand_domains E (pred_right p)"
    and k: "domain_kind d = domain_kind e" "decidable d (pred_operator p)"
    using assms(3) by (auto simp: predicate_typed_def)
  obtain v where v: "binding_get (pred_left p) b = Some v" "domain_kind (domain_of v) = domain_kind d"
    using typed_kind [OF assms(1,2) d] .
  obtain w where w: "operand_value (pred_right p) b = Some w" "domain_kind (domain_of w) = domain_kind e"
    using operand_typed [OF assms(1,2) e] .
  show thesis using that [OF v(1) w(1)] v(2) w(2) k decidable_kind [OF v(2)] by simp
qed

lemma predicate_total:
  assumes "typed E b" and "coherent_env E" and "predicate_typed E p"
  shows "\<exists>r. evaluate_predicate L C p b = Inr r"
  using predicate_values [OF assms] compare_values_total evaluate_predicate_values by metis

section \<open>Predicates on extended bindings\<close>

lemma compare_values_upgrades:
  assumes "domain_kind (domain_of v) = domain_kind (domain_of w)" and "decidable (domain_of v) op"
    and "upgrades v v'" and "upgrades w w'"
  shows "compare_values L C v' op w' = compare_values L C v op w"
proof -
  have literals: "compare_literals L x' ''==='' y' = compare_literals L x ''==='' y"
    if "exactly_equals x x'" "exactly_equals y y'" for x y x' y'
    using that by (simp add: compare_literals_def exactly_equals_def)
  show ?thesis
    using assms(3,4,1,2) literals
    by (cases v; cases v'; simp; cases w; cases w'; auto simp: decidable_def)
qed

lemma operand_refines:
  "refines b c \<Longrightarrow> operand_value r b = Some w \<Longrightarrow> \<exists>w'. operand_value r c = Some w' \<and> upgrades w w'"
  by (cases r) (auto simp: operand_value_def dest: refinesD)

lemma predicate_refines:
  assumes "typed E b" and "coherent_env E" and "predicate_typed E p" and "refines b c"
  shows "evaluate_predicate L C p c = evaluate_predicate L C p b"
proof -
  obtain v w where v: "binding_get (pred_left p) b = Some v" and w: "operand_value (pred_right p) b = Some w"
    and k: "domain_kind (domain_of v) = domain_kind (domain_of w)" "decidable (domain_of v) (pred_operator p)"
    using predicate_values [OF assms(1-3)] .
  obtain v' where v': "binding_get (pred_left p) c = Some v'" "upgrades v v'" using refinesD [OF assms(4) v] by blast
  obtain w' where w': "operand_value (pred_right p) c = Some w'" "upgrades w w'"
    using operand_refines [OF assms(4) w] by blast
  show ?thesis
    unfolding evaluate_predicate_values [OF v w] evaluate_predicate_values [OF v'(1) w'(1)]
    by (rule compare_values_upgrades [OF k v'(2) w'(2)])
qed

definition satisfied :: "'n :: linorder literal_lib \<Rightarrow> chrono \<Rightarrow> query_predicate list \<Rightarrow> binding \<Rightarrow> bool" where
  "satisfied L C ps b \<longleftrightarrow> (\<forall>p \<in> set ps. evaluate_predicate L C p b = Inr True)"

lemma satisfied_simps [simp]:
  "satisfied L C [] b" "satisfied L C (ps @ qs) b \<longleftrightarrow> satisfied L C ps b \<and> satisfied L C qs b"
  by (auto simp: satisfied_def)

lemma holds_all_satisfied:
  assumes "typed E b" and "coherent_env E" and "\<And>p. p \<in> set ps \<Longrightarrow> predicate_typed E p"
  shows "holds_all L C ps b = Inr (satisfied L C ps b)"
  using assms(3)
proof (induction ps)
  case (Cons p ps)
  obtain r where "evaluate_predicate L C p b = Inr r" using predicate_total [OF assms(1,2)] Cons.prems by fastforce
  then show ?case using Cons by (simp add: satisfied_def)
qed (simp add: satisfied_def)

lemma satisfied_refines:
  assumes "typed E b" and "coherent_env E" and "\<And>p. p \<in> set ps \<Longrightarrow> predicate_typed E p" and "refines b c"
  shows "satisfied L C ps c = satisfied L C ps b"
proof -
  have "evaluate_predicate L C p c = evaluate_predicate L C p b" if "p \<in> set ps" for p
    using predicate_refines [OF assms(1,2) assms(3) [OF that] assms(4)] .
  then show ?thesis by (simp add: satisfied_def)
qed

lemma try_filter_satisfied:
  assumes "coherent_env E" and "\<And>b. b \<in> set bs \<Longrightarrow> typed E b" and "\<And>p. p \<in> set ps \<Longrightarrow> predicate_typed E p"
  shows "try_fold (\<lambda>p. try_filter (evaluate_predicate L C p)) ps bs = Inr (filter (satisfied L C ps) bs)"
  using assms(2,3)
proof (induction ps arbitrary: bs)
  case Nil
  then show ?case by (simp add: satisfied_def)
next
  case (Cons p ps)
  have "try_filter (evaluate_predicate L C p) bs = Inr (filter (\<lambda>b. evaluate_predicate L C p b = Inr True) bs)"
    using Cons.prems(1)
  proof (induction bs)
    case (Cons b bs)
    obtain r where "evaluate_predicate L C p b = Inr r"
      using predicate_total [OF Cons.prems [of b] assms(1)] \<open>\<And>q. q \<in> set (p # ps) \<Longrightarrow> predicate_typed E q\<close>
      by fastforce
    with Cons show ?case by (cases r) (simp_all add: try_filter_def try_filter_map_def)
  qed (simp add: try_filter_def try_filter_map_def)
  moreover have "try_fold (\<lambda>p. try_filter (evaluate_predicate L C p)) ps
      (filter (\<lambda>b. evaluate_predicate L C p b = Inr True) bs)
    = Inr (filter (satisfied L C ps) (filter (\<lambda>b. evaluate_predicate L C p b = Inr True) bs))"
    using Cons.prems by (intro Cons.IH) auto
  ultimately show ?case by (simp add: satisfied_def)
qed

end
