(* ===== verification/Query_Branches.thy ===== *)
theory Query_Branches
  imports Query_Predicates
begin

text \<open>
  Branches and absence blocks: joining the patterns of a branch one relation at a time gives the rows that
  the pipeline produces one at a time, once those that its predicates reject are left out.
\<close>

section \<open>Typed branches\<close>

fun branch_typed :: "environment \<Rightarrow> planned_pattern list \<Rightarrow> bool" where
  "branch_typed E [] \<longleftrightarrow> coherent_env E"
| "branch_typed E (pp # pps) \<longleftrightarrow> well_planned E pp
     \<and> (\<forall>p \<in> set (plan_predicates pp). predicate_typed (widen E (own_schema (planned pp))) p)
     \<and> branch_typed (widen E (own_schema (planned pp))) pps"

fun env_after :: "environment \<Rightarrow> planned_pattern list \<Rightarrow> environment" where
  "env_after E [] = E"
| "env_after E (pp # pps) = env_after (widen E (own_schema (planned pp))) pps"

definition strip :: "planned_pattern list \<Rightarrow> planned_pattern list" where
  "strip pps = map (\<lambda>pp. pp\<lparr>plan_predicates := []\<rparr>) pps"

definition branch_predicates :: "planned_pattern list \<Rightarrow> query_predicate list" where
  "branch_predicates pps = concat (map plan_predicates pps)"

lemma strip_simps [simp]: "strip [] = []" "strip (pp # pps) = pp\<lparr>plan_predicates := []\<rparr> # strip pps"
  by (simp_all add: strip_def)

lemma branch_predicates_simps [simp]:
  "branch_predicates [] = []" "branch_predicates (pp # pps) = plan_predicates pp @ branch_predicates pps"
  by (simp_all add: branch_predicates_def)

lemma branch_typed_coherent: "branch_typed E pps \<Longrightarrow> coherent_env E"
  by (cases pps) (auto simp: well_planned_def ready_def dest: coherent_widenD)

lemma env_after_coherent: "branch_typed E pps \<Longrightarrow> coherent_env (env_after E pps)"
  by (induction pps arbitrary: E) auto

lemma env_after_mono: "E n \<subseteq> env_after E pps n"
proof (induction pps arbitrary: E)
  case (Cons pp pps)
  then show ?case using widen_mono by fastforce
qed simp

lemma env_after_strip [simp]: "env_after E (strip pps) = env_after E pps"
  by (induction pps arbitrary: E) simp_all

lemma well_planned_strip [simp]: "well_planned E (pp\<lparr>plan_predicates := ps\<rparr>) = well_planned E pp"
  by (simp add: well_planned_def)

lemma branch_typed_strip: "branch_typed E pps \<Longrightarrow> branch_typed E (strip pps)"
  by (induction pps arbitrary: E) simp_all

lemma evaluate_pattern_strip [simp]:
  "evaluate_pattern L C nfc db (pp\<lparr>plan_predicates := ps\<rparr>) = evaluate_pattern L C nfc db pp"
  by (intro ext) (simp add: evaluate_pattern_def split: option.split)

lemma pattern_trace_strip [simp]:
  "pattern_trace L C nfc db (pp\<lparr>plan_predicates := ps\<rparr>) input = pattern_trace L C nfc db pp input"
  by (simp add: pattern_trace_def Let_def)

lemma branch_sound:
  "typed E b \<Longrightarrow> branch_typed E pps \<Longrightarrow> sound (env_after E pps) b (branch_trace L C nfc db pps b)"
proof (induction pps arbitrary: E b)
  case (Cons pp pps)
  let ?E = "widen E (own_schema (planned pp))"
  have "sound ?E b (pattern_trace L C nfc db pp b)" using Cons.prems by (intro pattern_sound) simp_all
  then show ?case unfolding branch_trace.simps env_after.simps
  proof (rule sound_bind)
    fix c assume c: "typed ?E c"
    have "holds_all L C (plan_predicates pp) c = Inr (satisfied L C (plan_predicates pp) c)"
      using Cons.prems(2) by (intro holds_all_satisfied [OF c]) (auto dest: branch_typed_coherent)
    then show "sound (env_after ?E pps) c (case holds_all L C (plan_predicates pp) c of Inl e \<Rightarrow> failed e
        | Inr ok \<Rightarrow> if ok then branch_trace L C nfc db pps c else no_rows)"
      using Cons.IH [OF c] Cons.prems(2) by simp
  qed
qed simp

section \<open>Joins\<close>

definition branch_rows ::
    "'n :: linorder literal_lib \<Rightarrow> chrono \<Rightarrow> (string \<Rightarrow> string) \<Rightarrow> database \<Rightarrow> planned_pattern list \<Rightarrow> binding \<Rightarrow> binding list" where
  "branch_rows L C nfc db pps b = fst (branch_trace L C nfc db (strip pps) b)"

lemma join_rows_Inr:
  assumes "\<And>b. b \<in> set bs \<Longrightarrow> snd (f b cache) = cache"
    and "join_rows f bs cache = (Inr rows, cache')"
  shows "cache' = cache \<and> rows = concat (map (\<lambda>b. projr (fst (f b cache))) bs)
    \<and> (\<forall>b \<in> set bs. \<exists>rs. fst (f b cache) = Inr rs)"
  using assms
proof (induction bs arbitrary: rows)
  case (Cons b bs)
  obtain r where f: "f b cache = (r, cache)" using Cons.prems(1) [of b] by (cases "f b cache") simp
  with Cons.prems(2) obtain rs rest where rs: "r = Inr rs" "join_rows f bs cache = (Inr rest, cache')" "rows = rs @ rest"
    by (auto simp: attempt_st_eq_Inr)
  from Cons.IH [OF Cons.prems(1) rs(2)] rs f show ?case by simp
qed simp

lemma concat_map_concat: "concat (map f (concat (map g xs))) = concat (map (\<lambda>x. concat (map f (g x))) xs)"
  by (induction xs) simp_all

lemma strip_trace_Cons:
  assumes "pattern_trace L C nfc db pp b = (js, Inr ())"
    and "\<And>j. j \<in> set js \<Longrightarrow> branch_trace L C nfc db (strip pps) j = (branch_rows L C nfc db pps j, Inr ())"
  shows "branch_trace L C nfc db (strip (pp # pps)) b = (concat (map (branch_rows L C nfc db pps) js), Inr ())"
  using trace_bind_lists [of js "branch_trace L C nfc db (strip pps)" "branch_rows L C nfc db pps"] assms
  by (simp cong: if_cong)

lemma join_agrees:
  assumes "\<And>b. b \<in> set bs \<Longrightarrow> typed E b" and "branch_typed E pps"
    and "join_patterns L C nfc db pps bs cache = (Inr rows, cache')"
  shows "cache' = cache \<and> rows = concat (map (branch_rows L C nfc db pps) bs)
    \<and> (\<forall>b \<in> set bs. branch_trace L C nfc db (strip pps) b = (branch_rows L C nfc db pps b, Inr ()))"
  using assms
proof (induction pps arbitrary: E bs)
  case Nil
  then show ?case by (simp add: branch_rows_def one_row_def)
next
  case (Cons pp pps)
  let ?E = "widen E (own_schema (planned pp))" and ?f = "evaluate_pattern L C nfc db pp"
  have w: "well_planned E pp" and rest: "branch_typed ?E pps" using Cons.prems(2) by simp_all
  from Cons.prems(3) obtain joined cache1 where j: "join_rows ?f bs cache = (Inr joined, cache1)"
    and continue: "(if joined = [] then (Inr [], cache1) else join_patterns L C nfc db pps joined cache1) = (Inr rows, cache')"
    by (auto simp: attempt_st_eq_Inr)
  have snd: "snd (?f b cache) = cache" if "b \<in> set bs" for b
    using evaluate_pattern_sound [OF Cons.prems(1) [OF that] w] by blast
  define J where "J = (\<lambda>b. projr (fst (?f b cache)))"
  have J: "cache1 = cache" "joined = concat (map J bs)" "\<And>b. b \<in> set bs \<Longrightarrow> fst (?f b cache) = Inr (J b)"
    using join_rows_Inr [of bs ?f, OF snd j] by (auto simp: J_def)
  have tr: "pattern_trace L C nfc db pp b = (J b, Inr ())" if "b \<in> set bs" for b
    by (rule pattern_agrees [OF Cons.prems(1) [OF that] w J(3) [OF that]])
  have typed: "typed ?E c" if "c \<in> set joined" for c
    using that J(2) tr pattern_sound [OF Cons.prems(1) w, of _ L C nfc db] by fastforce
  show ?case
  proof (cases "joined = []")
    case True
    then have "J b = []" if "b \<in> set bs" for b using J(2) that by auto
    then have "branch_trace L C nfc db (strip (pp # pps)) b = ([], Inr ())" if "b \<in> set bs" for b
      using strip_trace_Cons [OF tr [OF that]] that by simp
    moreover from this have "concat (map (branch_rows L C nfc db (pp # pps)) bs) = []"
      by (simp add: branch_rows_def)
    ultimately show ?thesis using True continue J(1) by (simp add: branch_rows_def)
  next
    case False
    with continue J(1) have "join_patterns L C nfc db pps joined cache = (Inr rows, cache')" by simp
    from Cons.IH [OF typed rest this] have IH: "cache' = cache"
      "rows = concat (map (branch_rows L C nfc db pps) joined)"
      "\<And>c. c \<in> set joined \<Longrightarrow> branch_trace L C nfc db (strip pps) c = (branch_rows L C nfc db pps c, Inr ())" by auto
    have each: "branch_trace L C nfc db (strip (pp # pps)) b
        = (concat (map (branch_rows L C nfc db pps) (J b)), Inr ())" if "b \<in> set bs" for b
      by (rule strip_trace_Cons [OF tr [OF that] IH(3)]) (use that J(2) in auto)
    then have "branch_rows L C nfc db (pp # pps) b = concat (map (branch_rows L C nfc db pps) (J b))"
      if "b \<in> set bs" for b
      using that by (simp add: branch_rows_def)
    with each IH(1,2) J(2) show ?thesis by (simp add: concat_map_concat cong: map_cong)
  qed
qed

section \<open>Predicates applied early\<close>

lemma branch_rows_typed:
  assumes "typed E b" and "branch_typed E pps" and "c \<in> set (branch_rows L C nfc db pps b)"
  shows "typed (env_after E pps) c \<and> refines b c"
  using branch_sound [OF assms(1) branch_typed_strip [OF assms(2)], of L C nfc db] assms(3)
  by (simp add: sound_def branch_rows_def)

lemma trace_bind_Inr:
  "trace_bind (xs, Inr ()) f = (ys, Inr ()) \<Longrightarrow> x \<in> set xs \<Longrightarrow> snd (f x) = Inr ()"
  unfolding trace_bind_def
  by (induction xs arbitrary: ys) (auto simp: Let_def split: prod.splits sum.splits)

lemma trace_bind_ends: "snd (trace_bind (xs, r) f) = Inr () \<Longrightarrow> r = Inr ()"
  unfolding trace_bind_def by (induction xs) (auto simp: Let_def split: prod.splits sum.splits)

lemma predicates_agree:
  assumes "typed E b" and "branch_typed E pps"
    and "branch_trace L C nfc db (strip pps) b = (branch_rows L C nfc db pps b, Inr ())"
  shows "branch_trace L C nfc db pps b
    = (filter (satisfied L C (branch_predicates pps)) (branch_rows L C nfc db pps b), Inr ())"
  using assms
proof (induction pps arbitrary: E b)
  case Nil
  then show ?case by (simp add: branch_rows_def one_row_def)
next
  case (Cons pp pps)
  let ?E = "widen E (own_schema (planned pp))" and ?R = "branch_rows L C nfc db pps"
  obtain js r where js: "pattern_trace L C nfc db pp b = (js, r)" by (cases "pattern_trace L C nfc db pp b")
  have strip: "trace_bind (js, r) (branch_trace L C nfc db (strip pps)) = (branch_rows L C nfc db (pp # pps) b, Inr ())"
    using Cons.prems(3) js by (simp cong: if_cong)
  have "snd (trace_bind (js, r) (branch_trace L C nfc db (strip pps))) = Inr ()" unfolding strip by simp
  then have r: "r = Inr ()" by (rule trace_bind_ends)
  have js_typed: "typed ?E j" if "j \<in> set js" for j
    using pattern_sound [of E b pp L C nfc db] Cons.prems(1,2) js that by (simp add: sound_def)
  have rest: "branch_typed ?E pps" using Cons.prems(2) by simp
  have sub: "branch_trace L C nfc db (strip pps) j = (?R j, Inr ())" if "j \<in> set js" for j
    using trace_bind_Inr [OF strip [unfolded r] that] by (simp add: branch_rows_def prod_eq_iff)
  have rows: "branch_rows L C nfc db (pp # pps) b = concat (map ?R js)"
    using strip trace_bind_lists [of js "branch_trace L C nfc db (strip pps)" ?R] sub r by simp
  let ?preds = "plan_predicates pp"
  have each: "(case holds_all L C ?preds j of Inl e \<Rightarrow> failed e
      | Inr ok \<Rightarrow> if ok then branch_trace L C nfc db pps j else no_rows)
    = (filter (satisfied L C (branch_predicates (pp # pps))) (?R j), Inr ())" if j: "j \<in> set js" for j
  proof -
    have preds: "\<And>p. p \<in> set ?preds \<Longrightarrow> predicate_typed ?E p" using Cons.prems(2) by simp
    note coh = branch_typed_coherent [OF rest]
    have "satisfied L C ?preds c = satisfied L C ?preds j" if "c \<in> set (?R j)" for c
      using branch_rows_typed [OF js_typed [OF j] rest that]
      by (intro satisfied_refines [OF js_typed [OF j] coh preds]) auto
    then have "filter (satisfied L C (branch_predicates (pp # pps))) (?R j)
        = (if satisfied L C ?preds j then filter (satisfied L C (branch_predicates pps)) (?R j) else [])"
      by (auto intro!: filter_cong)
    then show ?thesis
      using holds_all_satisfied [OF js_typed [OF j] coh preds, where L = L and C = C] Cons.IH [OF js_typed [OF j] rest sub [OF j]]
      by (simp add: no_rows_def)
  qed
  show ?case
    using trace_bind_lists [of js _ "\<lambda>j. filter (satisfied L C (branch_predicates (pp # pps))) (?R j)", OF each]
    by (simp add: js r rows filter_concat o_def del: satisfied_simps)
qed

end
