(* ===== verification/Query_Agreement.thy ===== *)
theory Query_Agreement
  imports Query_Branches
begin

text \<open>
  The two executors on a typed query without an order: the pipeline fails only on a candidate identity that
  is not a posit, and hands the sink what the materialized executor hands it.
\<close>

section \<open>Typed queries\<close>

definition exports :: "domains \<Rightarrow> environment \<Rightarrow> bool" where
  "exports D E \<longleftrightarrow> (\<forall>n d. map_of D n = Some d \<longrightarrow> resolved (E n) = Some d)"

definition query_typed :: "physical_query \<Rightarrow> bool" where
  "query_typed q \<longleftrightarrow>
     (\<forall>b \<in> set (ph_branches q). branch_typed (\<lambda>_. {}) (branch_patterns b)
        \<and> exports (ph_domains q) (env_after (\<lambda>_. {}) (branch_patterns b))
        \<and> set (branch_predicates (branch_patterns b)) = set (ph_predicates q))
     \<and> (\<forall>b \<in> set (ph_not_exists q). branch_typed (env_of (ph_domains q)) (branch_patterns b)
        \<and> strip (branch_patterns b) = branch_patterns b)
     \<and> (\<forall>p \<in> set (ph_predicates q). predicate_typed (env_of (ph_domains q)) p)
     \<and> (\<forall>n \<in> set (ph_returns q). map_of (ph_domains q) n \<noteq> None)"

lemma common_schema_get:
  "sorted_binding b \<Longrightarrow> binding_get n (common_schema D b) = (if map_of D n \<noteq> None then binding_get n b else None)"
  using binding_get_filter [of b n "\<lambda>n. map_of D n \<noteq> None"] by (simp add: common_schema_def)

lemma common_schema_typed: "typed E b \<Longrightarrow> exports D E \<Longrightarrow> typed (env_of D) (common_schema D b)"
  unfolding typed_def exports_def
  by (auto simp: common_schema_get) (auto simp: common_schema_def sorted_binding_filter)

lemma common_schema_refines: "sorted_binding b \<Longrightarrow> refines (common_schema D b) b"
  by (auto simp: refines_def common_schema_get split: if_splits)

lemma satisfied_common_schema:
  assumes "typed E b" and "exports D E" and "\<And>p. p \<in> set ps \<Longrightarrow> predicate_typed (env_of D) p"
  shows "satisfied L C ps (common_schema D b) = satisfied L C ps b"
  using satisfied_refines [OF common_schema_typed [OF assms(1,2)] coherent_env_of assms(3)
      common_schema_refines [OF typed_sorted [OF assms(1)]], of ps L C] by simp

section \<open>Projected rows\<close>

text \<open>The cells of a row have the kinds of the domains of its columns.\<close>

fun domain_cell :: "query_domain \<Rightarrow> result_cell_kind" where
  "domain_cell ThingDomain = ThingCell"
| "domain_cell RoleDomain = RoleCell"
| "domain_cell PositDomain = PositCell"
| "domain_cell AppearanceSetDomain = AppearanceSetCell"
| "domain_cell LiteralDomain = LiteralCell"
| "domain_cell TimeDomain = TimeCell"

definition row_kinds :: "domains \<Rightarrow> string list \<Rightarrow> row \<Rightarrow> bool" where
  "row_kinds D names r \<longleftrightarrow> map cell_kind r = map (\<lambda>n. domain_cell (the (map_of D n))) names"

lemma value_cell_kind: "cell_kind (value_cell C v) = domain_cell (domain_of v)"
  by (cases v) simp_all

lemma project_kinds:
  assumes "typed (env_of D) b" and "\<And>n. n \<in> set names \<Longrightarrow> map_of D n \<noteq> None"
  shows "\<exists>r. project C names b = Inr r \<and> row_kinds D names r"
proof -
  have get: "\<exists>v. binding_get n b = Some v \<and> map_of D n = Some (domain_of v)" if "n \<in> set names" for n
    using typedD [OF assms(1), of n] assms(2) [OF that] by auto
  then have "project C names b = Inr (map (\<lambda>n. value_cell C (the (binding_get n b))) names)"
    unfolding project_def by (intro try_map_Inr) fastforce
  moreover have "row_kinds D names (map (\<lambda>n. value_cell C (the (binding_get n b))) names)"
    using get by (fastforce simp: row_kinds_def value_cell_kind)
  ultimately show ?thesis by blast
qed

section \<open>Absence blocks\<close>

lemma block_found_trace:
  "block_found L C nfc db block b =
     (case branch_trace L C nfc db (branch_patterns block) b of
        (r # rs, e) \<Rightarrow> Inr True | ([], Inr u) \<Rightarrow> Inr False | ([], Inl e) \<Rightarrow> Inl e)"
  unfolding block_found_def visit_branch_trace
  by (cases "branch_trace L C nfc db (branch_patterns block) b"; cases "fst (branch_trace L C nfc db (branch_patterns block) b)")
    (auto simp: feed_Cons feed_Nil split: sum.split)

definition blocked ::
    "'n :: linorder literal_lib \<Rightarrow> chrono \<Rightarrow> (string \<Rightarrow> string) \<Rightarrow> database \<Rightarrow> planned_branch list \<Rightarrow> binding \<Rightarrow> bool" where
  "blocked L C nfc db blocks b \<longleftrightarrow> (\<exists>block \<in> set blocks. branch_rows L C nfc db (branch_patterns block) b \<noteq> [])"

lemma without_block_agrees:
  assumes "\<And>b. b \<in> set bs \<Longrightarrow> typed E b" and "branch_typed E (branch_patterns block)"
    and "strip (branch_patterns block) = branch_patterns block"
    and "without_block L C nfc db block bs cache = (Inr rows, cache')"
  shows "cache' = cache \<and> rows = filter (\<lambda>b. branch_rows L C nfc db (branch_patterns block) b = []) bs
    \<and> (\<forall>b \<in> set bs. block_found L C nfc db block b = Inr (branch_rows L C nfc db (branch_patterns block) b \<noteq> []))"
  using assms(1,4)
proof (induction bs arbitrary: rows)
  case (Cons b bs)
  let ?R = "branch_rows L C nfc db (branch_patterns block)"
  from Cons.prems(2) obtain found cache1 rest where
    f: "join_patterns L C nfc db (branch_patterns block) [b] cache = (Inr found, cache1)"
    and r: "without_block L C nfc db block bs cache1 = (Inr rest, cache')"
    "rows = (if found \<noteq> [] then rest else b # rest)"
    by (auto simp: attempt_st_eq_Inr block_has_match_def)
  have j: "cache1 = cache" "found = ?R b" "branch_trace L C nfc db (branch_patterns block) b = (?R b, Inr ())"
    using join_agrees [OF _ assms(2) f] Cons.prems(1) assms(3) by auto
  then have "block_found L C nfc db block b = Inr (?R b \<noteq> [])"
    by (cases "?R b") (simp_all add: block_found_trace)
  with Cons.IH [OF _ r(1) [unfolded j(1)]] Cons.prems(1) r(2) j(2) show ?case by auto
qed simp

lemma without_blocks_agrees:
  assumes "\<And>b. b \<in> set bs \<Longrightarrow> typed E b"
    and "\<And>block. block \<in> set blocks \<Longrightarrow> branch_typed E (branch_patterns block)
      \<and> strip (branch_patterns block) = branch_patterns block"
    and "without_blocks L C nfc db blocks bs cache = (Inr rows, cache')"
  shows "cache' = cache \<and> rows = filter (\<lambda>b. \<not> blocked L C nfc db blocks b) bs
    \<and> (\<forall>b \<in> set bs. any_block_found L C nfc db blocks b = Inr (blocked L C nfc db blocks b))"
  using assms
proof (induction blocks arbitrary: bs)
  case Nil
  then show ?case by (simp add: blocked_def)
next
  case (Cons block blocks)
  let ?R = "branch_rows L C nfc db (branch_patterns block)"
  obtain bs1 cache1 where one: "without_block L C nfc db block bs cache = (Inr bs1, cache1)"
    and rest: "without_blocks L C nfc db blocks bs1 cache1 = (Inr rows, cache')"
    using Cons.prems(3) by (auto simp: attempt_st_eq_Inr)
  have step: "cache1 = cache" "bs1 = filter (\<lambda>b. ?R b = []) bs"
    "\<And>b. b \<in> set bs \<Longrightarrow> block_found L C nfc db block b = Inr (?R b \<noteq> [])"
    using without_block_agrees [OF Cons.prems(1) _ _ one] Cons.prems(2) by auto
  have IH: "cache' = cache" "rows = filter (\<lambda>b. \<not> blocked L C nfc db blocks b) bs1"
    "\<And>b. b \<in> set bs1 \<Longrightarrow> any_block_found L C nfc db blocks b = Inr (blocked L C nfc db blocks b)"
    using Cons.IH [OF _ _ rest [unfolded step(1)]] Cons.prems(1,2) step(2) by auto
  have "any_block_found L C nfc db (block # blocks) b = Inr (blocked L C nfc db (block # blocks) b)"
    if "b \<in> set bs" for b
    using step(2,3) IH(3) [of b] that by (auto simp: blocked_def)
  moreover have "rows = filter (\<lambda>b. \<not> blocked L C nfc db (block # blocks) b) bs"
    unfolding IH(2) step(2) filter_filter by (rule filter_cong) (auto simp: blocked_def)
  ultimately show ?case using IH(1) by blast
qed

section \<open>Rows\<close>

definition query_branch_rows ::
    "'n :: linorder literal_lib \<Rightarrow> chrono \<Rightarrow> (string \<Rightarrow> string) \<Rightarrow> database \<Rightarrow> planned_branch list \<Rightarrow> binding list" where
  "query_branch_rows L C nfc db branches = concat (map (\<lambda>b. branch_rows L C nfc db (branch_patterns b) []) branches)"

lemma union_branches_agrees:
  assumes "\<And>b. b \<in> set branches \<Longrightarrow> branch_typed (\<lambda>_. {}) (branch_patterns b)"
    and "union_branches L C nfc db D branches cache = (Inr rows, cache')"
  shows "cache' = cache \<and> rows = map (common_schema D) (query_branch_rows L C nfc db branches)
    \<and> (\<forall>b \<in> set branches. branch_trace L C nfc db (strip (branch_patterns b)) []
        = (branch_rows L C nfc db (branch_patterns b) [], Inr ()))"
  using assms
proof (induction branches arbitrary: rows)
  case (Cons b branches)
  from Cons.prems(2) obtain one cache1 rest where
    o: "join_patterns L C nfc db (branch_patterns b) [[]] cache = (Inr one, cache1)"
    and r: "union_branches L C nfc db D branches cache1 = (Inr rest, cache')" "rows = map (common_schema D) one @ rest"
    by (auto simp: attempt_st_eq_Inr)
  have j: "cache1 = cache" "one = branch_rows L C nfc db (branch_patterns b) []"
    "branch_trace L C nfc db (strip (branch_patterns b)) [] = (branch_rows L C nfc db (branch_patterns b) [], Inr ())"
    using join_agrees [OF _ _ o, of "\<lambda>_. {}"] Cons.prems(1) [of b] by auto
  with Cons.IH [OF _ r(1) [unfolded j(1)]] Cons.prems(1) r(2) show ?case by (simp add: query_branch_rows_def)
qed (simp add: query_branch_rows_def)

lemma query_rows_typed:
  assumes "query_typed q" and "c \<in> set (query_branch_rows L C nfc db (ph_branches q))"
  obtains E where "typed E c" and "exports (ph_domains q) E"
proof -
  obtain b where b: "b \<in> set (ph_branches q)" "c \<in> set (branch_rows L C nfc db (branch_patterns b) [])"
    using assms(2) by (auto simp: query_branch_rows_def)
  then have "typed (env_after (\<lambda>_. {}) (branch_patterns b)) c"
    using branch_rows_typed [OF typed_empty _ b(2)] assms(1) by (simp add: query_typed_def)
  moreover have "exports (ph_domains q) (env_after (\<lambda>_. {}) (branch_patterns b))"
    using assms(1) b(1) by (simp add: query_typed_def)
  ultimately show thesis by (rule that)
qed

lemma filter_map_filter:
  "(\<And>x. x \<in> set xs \<Longrightarrow> P (f x) = P x) \<Longrightarrow> filter P (filter Q (map f xs)) = filter Q (map f (filter P xs))"
  by (induction xs) auto

text \<open>What the materialized executor computes before the rows.\<close>

lemma query_bindings_agrees:
  assumes "query_typed q" and "query_bindings L C nfc db q = Inr bs"
  defines "rows \<equiv> filter (satisfied L C (ph_predicates q)) (query_branch_rows L C nfc db (ph_branches q))"
  shows "bs = filter (\<lambda>b. \<not> blocked L C nfc db (ph_not_exists q) b) (map (common_schema (ph_domains q)) rows)
    \<and> (\<forall>b \<in> set rows. any_block_found L C nfc db (ph_not_exists q) (common_schema (ph_domains q) b)
        = Inr (blocked L C nfc db (ph_not_exists q) (common_schema (ph_domains q) b)))
    \<and> (\<forall>b \<in> set (ph_branches q). branch_trace L C nfc db (branch_patterns b) []
        = (filter (satisfied L C (ph_predicates q)) (branch_rows L C nfc db (branch_patterns b) []), Inr ()))"
proof -
  let ?cs = "common_schema (ph_domains q)" and ?all = "query_branch_rows L C nfc db (ph_branches q)"
    and ?blocked = "blocked L C nfc db (ph_not_exists q)"
  have typed: "\<And>b. b \<in> set (ph_branches q) \<Longrightarrow> branch_typed (\<lambda>_. {}) (branch_patterns b)"
    "\<And>b. b \<in> set (ph_not_exists q) \<Longrightarrow> branch_typed (env_of (ph_domains q)) (branch_patterns b)
      \<and> strip (branch_patterns b) = branch_patterns b"
    "\<And>p. p \<in> set (ph_predicates q) \<Longrightarrow> predicate_typed (env_of (ph_domains q)) p"
    using assms(1) by (simp_all add: query_typed_def)
  have "fst (attempt_st (union_branches L C nfc db (ph_domains q) (ph_branches q) Map.empty) (\<lambda>bs cache.
     attempt_st (without_blocks L C nfc db (ph_not_exists q) bs cache) (\<lambda>bs cache.
     (try_fold (\<lambda>p. try_filter (evaluate_predicate L C p)) (ph_predicates q) bs, cache)))) = Inr bs"
    using assms(2) by (simp add: query_bindings_def)
  then obtain bs1 cache1 bs2 cache2 where
    u: "union_branches L C nfc db (ph_domains q) (ph_branches q) Map.empty = (Inr bs1, cache1)"
    and w: "without_blocks L C nfc db (ph_not_exists q) bs1 cache1 = (Inr bs2, cache2)"
    and p: "try_fold (\<lambda>p. try_filter (evaluate_predicate L C p)) (ph_predicates q) bs2 = Inr bs"
    by (auto simp: attempt_st_def split: prod.splits sum.splits)
  have bs1: "bs1 = map ?cs ?all"
    and tr: "\<And>b. b \<in> set (ph_branches q) \<Longrightarrow> branch_trace L C nfc db (strip (branch_patterns b)) []
        = (branch_rows L C nfc db (branch_patterns b) [], Inr ())"
    using union_branches_agrees [OF typed(1) u] by auto
  have all_typed: "typed (env_of (ph_domains q)) (?cs c)" "satisfied L C (ph_predicates q) (?cs c) = satisfied L C (ph_predicates q) c"
    if "c \<in> set ?all" for c
    using query_rows_typed [OF assms(1) that] common_schema_typed satisfied_common_schema typed(3) by metis+
  then have bs1_typed: "typed (env_of (ph_domains q)) c" if "c \<in> set bs1" for c using that bs1 by auto
  note blocks = without_blocks_agrees [OF bs1_typed typed(2) w]
  have "bs = filter (satisfied L C (ph_predicates q)) bs2"
    using try_filter_satisfied [OF coherent_env_of, of bs2 "ph_domains q" "ph_predicates q" L C] p blocks bs1_typed typed(3)
    by auto
  also have "\<dots> = filter (\<lambda>b. \<not> ?blocked b) (map ?cs rows)"
    using blocks filter_map_filter [of ?all "satisfied L C (ph_predicates q)" ?cs] all_typed(2)
    unfolding rows_def bs1 by simp
  finally have "bs = \<dots>" .
  moreover have "any_block_found L C nfc db (ph_not_exists q) (?cs b) = Inr (?blocked (?cs b))" if "b \<in> set rows" for b
    using blocks that bs1 by (auto simp: rows_def)
  moreover have "branch_trace L C nfc db (branch_patterns b) []
      = (filter (satisfied L C (ph_predicates q)) (branch_rows L C nfc db (branch_patterns b) []), Inr ())"
    if "b \<in> set (ph_branches q)" for b
  proof -
    have "satisfied L C (branch_predicates (branch_patterns b)) = satisfied L C (ph_predicates q)"
      using assms(1) that by (simp add: query_typed_def satisfied_def fun_eq_iff)
    then show ?thesis using predicates_agree [OF typed_empty typed(1) [OF that] tr [OF that]] by simp
  qed
  ultimately show ?thesis by blast
qed

section \<open>The sink\<close>

text \<open>The rows that a query without an order gives its sink.\<close>

definition delivered :: "chrono \<Rightarrow> physical_query \<Rightarrow> row list \<Rightarrow> binding list \<Rightarrow> row list" where
  "delivered C q seen bs =
     (let rows = map (\<lambda>b. (b, projr (project C (ph_returns q) b))) bs
      in map snd (if ph_distinct q then distinct_rows rows seen else rows))"

lemma delivered_Nil [simp]: "delivered C q seen [] = []"
  by (simp add: delivered_def)

lemma delivered_Cons:
  "delivered C q seen (b # bs) =
     (let r = projr (project C (ph_returns q) b)
      in if ph_distinct q \<and> r \<in> set seen then delivered C q seen bs
         else r # delivered C q (if ph_distinct q then r # seen else seen) bs)"
  by (simp add: delivered_def Let_def)

lemma saturating_step: "m \<le> u \<Longrightarrow> min (min (m + 1) u + k) (u :: nat) = min (m + Suc k) u"
  by (simp add: min_def)

lemma emit_blocked:
  "any_block_found L C nfc db (ph_not_exists q) (common_schema (ph_domains q) b) = Inr True \<Longrightarrow>
     emit L C nfc db q sink b st = (Inr Continue, st)"
  by (simp add: emit_def)

lemma emit_counts:
  assumes "ph_returns q = []"
    and "\<And>b. b \<in> set rows \<Longrightarrow> any_block_found L C nfc db (ph_not_exists q) (common_schema (ph_domains q) b)
      = Inr (blocked L C nfc db (ph_not_exists q) (common_schema (ph_domains q) b))"
    and "pl_matched st \<le> usize_max"
  shows "visit_all (emit L C nfc db q sink) rows st = (Inr Continue, st\<lparr>pl_matched := min (pl_matched st
    + length (filter (\<lambda>b. \<not> blocked L C nfc db (ph_not_exists q) b) (map (common_schema (ph_domains q)) rows))) usize_max\<rparr>)"
  using assms(2,3)
proof (induction rows arbitrary: st)
  case (Cons b rows)
  let ?b = "common_schema (ph_domains q) b"
  show ?case
  proof (cases "blocked L C nfc db (ph_not_exists q) ?b")
    case True
    then show ?thesis using Cons emit_blocked [of L C nfc db q b sink st] by simp
  next
    case False
    then have "emit L C nfc db q sink b st = (Inr Continue, st\<lparr>pl_matched := min (pl_matched st + 1) usize_max\<rparr>)"
      using Cons.prems(1) [of b] assms(1) by (simp add: emit_def)
    with Cons.IH [of "st\<lparr>pl_matched := min (pl_matched st + 1) usize_max\<rparr>"] Cons.prems False
    show ?thesis by (simp add: saturating_step [simplified])
  qed
qed simp

lemma emit_delivers:
  assumes "ph_returns q \<noteq> []" and "ph_order q = []"
    and "\<And>b. b \<in> set rows \<Longrightarrow> any_block_found L C nfc db (ph_not_exists q) (common_schema (ph_domains q) b)
      = Inr (blocked L C nfc db (ph_not_exists q) (common_schema (ph_domains q) b))"
    and "\<And>b. b \<in> set rows \<Longrightarrow> \<exists>r. project C (ph_returns q) (common_schema (ph_domains q) b) = Inr r"
    and "bs = filter (\<lambda>b. \<not> blocked L C nfc db (ph_not_exists q) b) (map (common_schema (ph_domains q)) rows)"
    and "push_rows sink (delivered C q (pl_seen st) bs) (pl_sink st) = (stopped, s)"
    and "pl_matched st \<le> usize_max" and "\<not> pl_stopped st"
  shows "\<exists>flow st'. visit_all (emit L C nfc db q sink) rows st = (Inr flow, st') \<and> pl_sink st' = s
    \<and> pl_stopped st' = stopped \<and> (\<not> stopped \<longrightarrow> pl_matched st' = min (pl_matched st + length bs) usize_max)"
  using assms(3-8)
proof (induction rows arbitrary: st bs)
  case Nil
  then show ?case by simp
next
  case (Cons b rows)
  let ?b = "common_schema (ph_domains q) b"
  let ?rest = "filter (\<lambda>b. \<not> blocked L C nfc db (ph_not_exists q) b) (map (common_schema (ph_domains q)) rows)"
  note IH = Cons.IH [OF Cons.prems(1,2) refl, simplified]
  show ?case
  proof (cases "blocked L C nfc db (ph_not_exists q) ?b")
    case True
    then have "visit_all (emit L C nfc db q sink) (b # rows) st = visit_all (emit L C nfc db q sink) rows st"
      using Cons.prems(1) [of b] emit_blocked [of L C nfc db q b sink st] by simp
    with True IH [of st] Cons.prems show ?thesis by simp
  next
    case False
    obtain r where r: "project C (ph_returns q) ?b = Inr r" using Cons.prems(2) [of b] by auto
    have bs: "bs = ?b # ?rest" using False Cons.prems(3) by simp
    define st1 where "st1 = st\<lparr>pl_matched := min (pl_matched st + 1) usize_max\<rparr>"
    show ?thesis
    proof (cases "ph_distinct q \<and> r \<in> set (pl_seen st)")
      case True
      then have "emit L C nfc db q sink b st = (Inr Continue, st1)"
        using False Cons.prems(1) [of b] assms(1,2) r by (simp add: emit_def st1_def)
      moreover have "push_rows sink (delivered C q (pl_seen st1) ?rest) (pl_sink st1) = (stopped, s)"
        using Cons.prems(4) True r unfolding bs delivered_Cons by (simp add: st1_def)
      moreover have "pl_matched st1 \<le> usize_max" "\<not> pl_stopped st1" using Cons.prems(6) by (simp_all add: st1_def)
      ultimately obtain flow st' where "visit_all (emit L C nfc db q sink) (b # rows) st = (Inr flow, st')"
        "pl_sink st' = s" "pl_stopped st' = stopped"
        "\<not> stopped \<longrightarrow> pl_matched st' = min (pl_matched st1 + length ?rest) usize_max"
        using Cons.IH [OF Cons.prems(1,2) refl, of st1] by auto
      then show ?thesis using saturating_step [OF Cons.prems(5)] unfolding bs st1_def by auto
    next
      case fresh: False
      define st2 where "st2 = (if ph_distinct q then st1\<lparr>pl_seen := r # pl_seen st1\<rparr> else st1)"
      obtain flow s1 where push: "push_row sink r (pl_sink st) = (flow, s1)" by (cases "push_row sink r (pl_sink st)")
      have seen: "pl_seen st2 = (if ph_distinct q then r # pl_seen st else pl_seen st)"
        "pl_sink st2 = pl_sink st" "pl_matched st2 = min (pl_matched st + 1) usize_max" "pl_stopped st2 = pl_stopped st"
        by (simp_all add: st2_def st1_def)
      have emit: "emit L C nfc db q sink b st =
          (if flow = Stop then (Inr Stop, st2\<lparr>pl_sink := s1, pl_stopped := True\<rparr>)
           else (Inr Continue, st2\<lparr>pl_sink := s1\<rparr>))"
        using False fresh Cons.prems(1) [of b] assms(1,2) r push
        by (cases flow) (auto simp: emit_def st1_def st2_def Let_def)
      have rows: "push_rows sink (r # delivered C q (pl_seen st2) ?rest) (pl_sink st) = (stopped, s)"
        using Cons.prems(4) fresh r unfolding bs delivered_Cons by (simp add: seen Let_def)
      show ?thesis
      proof (cases flow)
        case Stop
        with push emit rows seen show ?thesis by auto
      next
        case Continue
        with push emit rows seen have "emit L C nfc db q sink b st = (Inr Continue, st2\<lparr>pl_sink := s1\<rparr>)"
          "push_rows sink (delivered C q (pl_seen st2) ?rest) s1 = (stopped, s)" by simp_all
        moreover have "pl_matched st2 \<le> usize_max" "\<not> pl_stopped st2" using Cons.prems(6) seen by simp_all
        ultimately obtain flow st' where "visit_all (emit L C nfc db q sink) (b # rows) st = (Inr flow, st')"
          "pl_sink st' = s" "pl_stopped st' = stopped"
          "\<not> stopped \<longrightarrow> pl_matched st' = min (pl_matched st2 + length ?rest) usize_max"
          using Cons.IH [OF Cons.prems(1,2) refl, of "st2\<lparr>pl_sink := s1\<rparr>"] by auto
        then show ?thesis using saturating_step [OF Cons.prems(5)] unfolding bs seen by auto
      qed
    qed
  qed
qed

section \<open>Agreement\<close>

lemma materialized_rows:
  assumes "ph_order q = []" and "query_rows L C q bs = Inr rows"
  shows "rows = delivered C q [] bs \<and> (\<forall>b \<in> set bs. \<exists>r. project C (ph_returns q) b = Inr r)"
proof -
  obtain pairs where p: "try_map (\<lambda>b. attempt (project C (ph_returns q) b) (\<lambda>r. Inr (b, r))) bs = Inr pairs"
    and r: "rows = map snd (if ph_distinct q then distinct_rows pairs [] else pairs)"
    using assms by (auto simp: query_rows_def order_rows_def attempt_eq_Inr)
  have "pairs = map (\<lambda>b. (b, projr (project C (ph_returns q) b))) bs
      \<and> (\<forall>b \<in> set bs. \<exists>r. project C (ph_returns q) b = Inr r)"
    using p by (induction bs arbitrary: pairs) (auto simp: attempt_eq_Inr)
  with r show ?thesis by (simp add: delivered_def Let_def)
qed

lemma visit_branches_rows:
  assumes "\<And>b. b \<in> set (ph_branches q) \<Longrightarrow> branch_trace L C nfc db (branch_patterns b) []
    = (filter P (branch_rows L C nfc db (branch_patterns b) []), Inr ())"
  shows "visit_all (\<lambda>branch. visit_branch L C nfc db (branch_patterns branch) [] visit) (ph_branches q) s
    = visit_all visit (filter P (query_branch_rows L C nfc db (ph_branches q))) s"
proof -
  have "visit_all (\<lambda>branch. visit_branch L C nfc db (branch_patterns branch) [] visit) (ph_branches q) s
      = feed (trace_bind (ph_branches q, Inr ()) (\<lambda>branch. branch_trace L C nfc db (branch_patterns branch) [])) visit s"
    unfolding visit_all_feed [symmetric] visit_branch_trace [abs_def] by simp
  also have "trace_bind (ph_branches q, Inr ()) (\<lambda>branch. branch_trace L C nfc db (branch_patterns branch) [])
      = (filter P (query_branch_rows L C nfc db (ph_branches q)), Inr ())"
    using trace_bind_lists [OF assms] by (simp add: query_branch_rows_def filter_concat o_def)
  finally show ?thesis by (simp add: visit_all_is_feed)
qed

definition agrees :: "search_outcome \<Rightarrow> search_outcome \<Rightarrow> bool" where
  "agrees out out' \<longleftrightarrow> has_return out' = has_return out \<and> sink_stopped out' = sink_stopped out
     \<and> (\<not> sink_stopped out \<longrightarrow> matched_rows out' = min (matched_rows out) usize_max)"

lemma typed_executors_agree:
  fixes L :: "'n :: linorder literal_lib" and sink :: "'s row_sink"
  assumes "query_typed q" and "ph_order q = []"
    and "execute_materialized L C nfc db q sink st = (Inr out, st')"
  shows "\<exists>out'. execute_pipeline L C nfc db q sink st = (Inr out', st') \<and> agrees out out'"
proof -
  obtain columns s0 where st: "st = (columns, s0)" by (cases st)
  obtain bs identities where bs: "query_bindings L C nfc db q = Inr bs" "collect_identities bs = Inr identities"
    using assms(3) by (auto simp: execute_materialized_def attempt_st_eq_Inr)
  let ?cs = "common_schema (ph_domains q)" and ?blocked = "blocked L C nfc db (ph_not_exists q)"
  let ?rows = "filter (satisfied L C (ph_predicates q)) (query_branch_rows L C nfc db (ph_branches q))"
  have bindings: "bs = filter (\<lambda>b. \<not> ?blocked b) (map ?cs ?rows)"
    and blocks: "\<And>b. b \<in> set ?rows \<Longrightarrow> any_block_found L C nfc db (ph_not_exists q) (?cs b) = Inr (?blocked (?cs b))"
    and traces: "\<And>b. b \<in> set (ph_branches q) \<Longrightarrow> branch_trace L C nfc db (branch_patterns b) []
        = (filter (satisfied L C (ph_predicates q)) (branch_rows L C nfc db (branch_patterns b) []), Inr ())"
    using query_bindings_agrees [OF assms(1) bs(1)] by blast+
  define init :: "'s \<Rightarrow> ('n, 's) pipeline_state" where
    "init s = \<lparr>pl_matched = 0, pl_seen = [], pl_rows = new_ordered_rows (ph_order q) (ph_limit q),
      pl_stopped = False, pl_sink = s\<rparr>" for s
  have visit: "visit_branches L C nfc db q sink s = visit_all (emit L C nfc db q sink) ?rows (init s)" for s
    unfolding visit_branches_def init_def by (rule visit_branches_rows [OF traces])
  show ?thesis
  proof (cases "ph_returns q = []")
    case True
    with assms(3) bs have "out = \<lparr>matched_rows = length bs, identity_bindings = identities, has_return = False,
        sink_stopped = False\<rparr>" "st' = st" by (auto simp: execute_materialized_def)
    moreover have "visit_branches L C nfc db q sink s0
        = (Inr Continue, (init s0)\<lparr>pl_matched := min (length bs) usize_max\<rparr>)"
      using emit_counts [OF True blocks, of ?rows "init s0" sink] bindings by (simp add: visit init_def)
    ultimately show ?thesis
      using True by (simp add: execute_pipeline_def st pipeline_outcome_def agrees_def init_def Let_def)
  next
    case False
    let ?outcome = "\<lambda>stopped. \<lparr>matched_rows = length bs, identity_bindings = identities, has_return = True,
        sink_stopped = stopped\<rparr>"
    obtain rows where rows: "query_rows L C q bs = Inr rows"
      using assms(3) False bs by (auto simp: execute_materialized_def attempt_st_eq_Inr)
    obtain flow s1 where meta: "on_meta sink (ph_returns q) s0 = (flow, s1)" by (cases "on_meta sink (ph_returns q) s0")
    show ?thesis
    proof (cases flow)
      case Stop
      with assms(3) False bs rows meta have "out = ?outcome True" "st' = (Some (ph_returns q), s1)"
        by (auto simp: execute_materialized_def st)
      then show ?thesis
        using False assms(2) Stop meta by (simp add: execute_pipeline_def st pipeline_outcome_def agrees_def)
    next
      case Continue
      obtain stopped s2 where push: "push_rows sink rows s1 = (stopped, s2)" by (cases "push_rows sink rows s1")
      from assms(3) False bs rows meta Continue push have out: "out = ?outcome stopped" "st' = (Some (ph_returns q), s2)"
        by (auto simp: execute_materialized_def st)
      have typed: "\<exists>r. project C (ph_returns q) (?cs b) = Inr r" if "b \<in> set ?rows" for b
      proof -
        have "b \<in> set (query_branch_rows L C nfc db (ph_branches q))" using that by simp
        then obtain E where "typed E b" "exports (ph_domains q) E" by (rule query_rows_typed [OF assms(1)])
        then show ?thesis
          using assms(1) project_kinds [OF common_schema_typed, of E b "ph_domains q" "ph_returns q" C]
          unfolding query_typed_def by blast
      qed
      have "push_rows sink (delivered C q (pl_seen (init s1)) bs) (pl_sink (init s1)) = (stopped, s2)"
        using materialized_rows [OF assms(2) rows] push by (simp add: init_def)
      then obtain flow' st2 where v: "visit_branches L C nfc db q sink s1 = (Inr flow', st2)" "pl_sink st2 = s2"
        "pl_stopped st2 = stopped" "\<not> stopped \<longrightarrow> pl_matched st2 = min (pl_matched (init s1) + length bs) usize_max"
        using emit_delivers [OF False assms(2) blocks typed bindings, of sink "init s1"]
        unfolding visit by (auto simp: init_def)
      then show ?thesis
        using False assms(2) meta Continue out by (simp add: execute_pipeline_def st pipeline_outcome_def agrees_def init_def)
    qed
  qed
qed

section \<open>Totality\<close>

text \<open>A run that ends well and keeps an invariant of its state.\<close>

definition fine :: "'a result \<Rightarrow> bool" where
  "fine r \<longleftrightarrow> (case r of Inl e \<Rightarrow> e = foreign_identity | Inr _ \<Rightarrow> True)"

definition keeps :: "('s \<Rightarrow> bool) \<Rightarrow> 'a result \<times> 's \<Rightarrow> bool" where
  "keeps I run \<longleftrightarrow> fine (fst run) \<and> I (snd run)"

lemma fine_simps [simp]: "fine (Inr x)" "fine (Inl e) \<longleftrightarrow> e = foreign_identity"
  by (auto simp: fine_def)

lemma keeps_simps [simp]: "keeps I (Inr x, s) \<longleftrightarrow> I s" "keeps I (Inl e, s) \<longleftrightarrow> e = foreign_identity \<and> I s"
  by (auto simp: keeps_def)

lemma keeps_attempt_st:
  "keeps I r \<Longrightarrow> (\<And>x s. I s \<Longrightarrow> keeps I (f x s)) \<Longrightarrow> keeps I (attempt_st r f)"
  by (cases r; cases "fst r") auto

lemma keeps_visit_all: "I s \<Longrightarrow> (\<And>x s. x \<in> set xs \<Longrightarrow> I s \<Longrightarrow> keeps I (f x s)) \<Longrightarrow> keeps I (visit_all f xs s)"
proof (induction xs arbitrary: s)
  case (Cons x xs)
  have "keeps I (if flow = Stop then (Inr Stop, t) else visit_all f xs t)" if "I t" for flow t
    using that Cons by simp
  then show ?case unfolding visit_all.simps using Cons.prems by (intro keeps_attempt_st) auto
qed simp

lemma keeps_feed:
  assumes "sound E b tr" and "I s" and "\<And>c s. typed E c \<Longrightarrow> I s \<Longrightarrow> keeps I (visit c s)"
  shows "keeps I (feed tr visit s)"
  unfolding feed_def
proof (rule keeps_attempt_st)
  show "keeps I (visit_all visit (fst tr) s)"
    using assms by (intro keeps_visit_all) (auto simp: sound_def)
  show "keeps I (if flow = Stop then (Inr Stop, t)
      else (case snd tr of Inl e \<Rightarrow> Inl e | Inr _ \<Rightarrow> Inr Continue, t))" if "I t" for flow t
    using that assms(1) by (auto simp: sound_def ends_well_def)
qed

lemma block_found_fine:
  assumes "typed E b" and "branch_typed E (branch_patterns block)"
  shows "fine (block_found L C nfc db block b)"
proof -
  have "keeps (\<lambda>_. True) (feed (branch_trace L C nfc db (branch_patterns block) b) (\<lambda>_ _. (Inr Stop, True)) False)"
    by (rule keeps_feed [OF branch_sound [OF assms]]) simp_all
  then show ?thesis unfolding block_found_def visit_branch_trace
    by (auto simp: keeps_def split: prod.split sum.split)
qed

lemma any_block_found_fine:
  assumes "typed E b" and "\<And>block. block \<in> set blocks \<Longrightarrow> branch_typed E (branch_patterns block)"
  shows "fine (any_block_found L C nfc db blocks b)"
  using assms(2)
proof (induction blocks)
  case (Cons block blocks)
  then have "fine (any_block_found L C nfc db blocks b)" by simp
  moreover have "fine (block_found L C nfc db block b)" by (rule block_found_fine [OF assms(1)]) (simp add: Cons.prems)
  ultimately show ?case by (cases "block_found L C nfc db block b") simp_all
qed simp

definition sink_keeps :: "physical_query \<Rightarrow> 's row_sink \<Rightarrow> ('s \<Rightarrow> bool) \<Rightarrow> bool" where
  "sink_keeps q sink I \<longleftrightarrow> (\<forall>s. I s \<longrightarrow> I (snd (on_meta sink (ph_returns q) s))
     \<and> (\<forall>r. row_kinds (ph_domains q) (ph_returns q) r \<longrightarrow> I (snd (push_row sink r s))))"

lemma emit_keeps:
  assumes "query_typed q" and "ph_order q = []" and "typed E b" and "exports (ph_domains q) E"
    and "sink_keeps q sink I" and "I (pl_sink st)"
  shows "keeps (\<lambda>st. I (pl_sink st)) (emit L C nfc db q sink b st)"
proof -
  let ?b = "common_schema (ph_domains q) b"
  have b: "typed (env_of (ph_domains q)) ?b" by (rule common_schema_typed [OF assms(3,4)])
  have fine: "fine (any_block_found L C nfc db (ph_not_exists q) ?b)"
    using assms(1) by (intro any_block_found_fine [OF b]) (simp add: query_typed_def)
  obtain r where r: "project C (ph_returns q) ?b = Inr r" "row_kinds (ph_domains q) (ph_returns q) r"
    using project_kinds [OF b, of "ph_returns q" C] assms(1) by (auto simp: query_typed_def)
  obtain flow s1 where push: "push_row sink r (pl_sink st) = (flow, s1)" by (cases "push_row sink r (pl_sink st)")
  with assms(5,6) r(2) have "I s1" unfolding sink_keeps_def by (metis snd_conv)
  with fine r(1) push assms(6) show ?thesis
    by (cases "any_block_found L C nfc db (ph_not_exists q) ?b"; cases flow)
      (simp_all add: emit_def assms(2) Let_def)
qed

lemma typed_pipeline_total:
  fixes L :: "'n :: linorder literal_lib" and sink :: "'s row_sink"
  assumes "query_typed q" and "ph_order q = []" and "sink_keeps q sink I" and "I s"
  shows "keeps (\<lambda>(_, s). I s) (execute_pipeline L C nfc db q sink (columns, s))"
proof -
  have visit: "keeps (\<lambda>st. I (pl_sink st)) (visit_branches L C nfc db q sink s)" if "I s" for s
    unfolding visit_branches_def visit_branch_trace
  proof (rule keeps_visit_all)
    fix b and st :: "('n, 's) pipeline_state" assume b: "b \<in> set (ph_branches q)" and st: "I (pl_sink st)"
    then have "sound (env_after (\<lambda>_. {}) (branch_patterns b)) [] (branch_trace L C nfc db (branch_patterns b) [])"
      using assms(1) by (intro branch_sound) (simp_all add: query_typed_def)
    then show "keeps (\<lambda>st. I (pl_sink st))
        (feed (branch_trace L C nfc db (branch_patterns b) []) (emit L C nfc db q sink) st)"
    proof (rule keeps_feed [where I = "\<lambda>st. I (pl_sink st)", OF _ st])
      fix c and t :: "('n, 's) pipeline_state"
      assume "typed (env_after (\<lambda>_. {}) (branch_patterns b)) c" and "I (pl_sink t)"
      then show "keeps (\<lambda>st. I (pl_sink st)) (emit L C nfc db q sink c t)"
        using assms(1,3) b unfolding query_typed_def by (intro emit_keeps [OF assms(1,2)]) blast+
    qed
  qed (use that in simp)
  show ?thesis
  proof (cases "ph_returns q = []")
    case True
    then show ?thesis
      using visit [OF assms(4)] by (auto simp: execute_pipeline_def keeps_def Let_def split: prod.split sum.split)
  next
    case False
    obtain flow s1 where meta: "on_meta sink (ph_returns q) s = (flow, s1)" by (cases "on_meta sink (ph_returns q) s")
    with assms(3,4) have "I s1" unfolding sink_keeps_def by (metis snd_conv)
    with False meta visit [OF this] show ?thesis
      by (auto simp: execute_pipeline_def keeps_def assms(2) Let_def split: prod.split sum.split)
  qed
qed

end
