(* ===== verification/Query_Streaming.thy ===== *)
theory Query_Streaming
  imports Query_Order Query_Agreement
begin

text \<open>
  Queries that the planner lets stream: a prepared query without a reason to materialize compiles to a
  typed plan, so that its execution fails only on a candidate identity that is not a posit and gives the
  sink what the materialized executor gives it.
\<close>

section \<open>Queries of the grammar\<close>

text \<open>What \<open>src/traqula.pest\<close> guarantees: a wildcard set has no members, and a condition has one of the
  comparators.\<close>

definition grammatical :: "query \<Rightarrow> bool" where
  "grammatical q \<longleftrightarrow>
     (\<forall>ps \<in> set (q_branches q @ q_not_exists q). \<forall>p \<in> set ps.
        any_set (pat_appearances p) \<longrightarrow> set_members (pat_appearances p) = [])
     \<and> (\<forall>p \<in> set (q_predicates q). pred_operator p \<in> set comparators)"

text \<open>A pattern that the pipeline can run: no evidence, no literal to compare, and no members of a wildcard.\<close>

definition streams :: "posit_pattern \<Rightarrow> bool" where
  "streams p \<longleftrightarrow> pat_effect p = None \<and> literal_free p
     \<and> (any_set (pat_appearances p) \<longrightarrow> set_members (pat_appearances p) = [])"

lemma no_reason:
  "(if a then Some x else if b then Some y else if c \<or> d then Some z else None) = None \<Longrightarrow> \<not> b \<and> \<not> c \<and> \<not> d"
  by (auto split: if_splits)

lemma materialization_None:
  assumes "materialization_reason q D = None" and "grammatical q"
  shows "\<And>ps p. ps \<in> set (q_branches q @ q_not_exists q) \<Longrightarrow> p \<in> set ps \<Longrightarrow> streams p"
    and "\<And>p. p \<in> set (q_predicates q) \<Longrightarrow> the (map_of D (pred_left p)) = LiteralDomain \<Longrightarrow> pred_operator p = ''===''"
proof -
  let ?patterns = "concat (q_branches q @ q_not_exists q)"
  have none: "\<not> list_ex (\<lambda>p. pat_effect p \<noteq> None) ?patterns"
    "\<not> list_ex (\<lambda>p. case pat_value p of ValueLiteral _ \<Rightarrow> True | _ \<Rightarrow> False) ?patterns"
    "\<not> list_ex (\<lambda>p. the (map_of D (pred_left p)) = LiteralDomain \<and> pred_operator p \<noteq> ''==='') (q_predicates q)"
    using no_reason [OF assms(1) [unfolded materialization_reason_def Let_def]] by blast+
  show "streams p" if ps: "ps \<in> set (q_branches q @ q_not_exists q)" "p \<in> set ps" for ps p
  proof -
    have "p \<in> set ?patterns" using ps by auto
    then have "pat_effect p = None" "\<not> (case pat_value p of ValueLiteral _ \<Rightarrow> True | _ \<Rightarrow> False)"
      using none(1,2) unfolding list_ex_iff by blast+
    moreover have "any_set (pat_appearances p) \<longrightarrow> set_members (pat_appearances p) = []"
      using assms(2) ps unfolding grammatical_def by blast
    ultimately show ?thesis by (auto simp: streams_def literal_free_def)
  qed
  show "pred_operator p = ''===''"
    if "p \<in> set (q_predicates q)" "the (map_of D (pred_left p)) = LiteralDomain" for p
    using none(3) that unfolding list_ex_iff by blast
qed

lemma streams_schema: "streams p \<Longrightarrow> schema p = own_schema p"
  by (simp add: schema.simps [of p] streams_def via_of_def)

section \<open>Dependencies\<close>

lemma require_all_Inr:
  "require_all D expected names = Inr () \<Longrightarrow> n \<in> set names \<Longrightarrow>
     \<exists>d. map_of D n = Some d \<and> (d = expected \<or> expected = ThingDomain \<and> d = PositDomain)"
  unfolding require_all_def try_fold_unit
  by (auto simp: require_domain_def require_variable_def attempt_eq_Inr Let_def)

text \<open>Validated dependencies, in the environment that the domains resolve.\<close>

definition depends_well :: "environment \<Rightarrow> posit_pattern \<Rightarrow> bool" where
  "depends_well F p \<longleftrightarrow> cutoff_bound F p
     \<and> (\<forall>m \<in> set (set_members (pat_appearances p)). \<forall>n \<in> set (union_names (thing_pattern m)). identity_in F n)"

lemma validated_dependencies:
  assumes "validate_dependency_domains p D = Inr ()" and "\<And>n. map_of D n = resolved (F n)" and "coherent_env F"
  shows "depends_well F p"
proof -
  have cutoffs: "require_all D TimeDomain (case pat_cutoff p of None \<Rightarrow> [] | Some c \<Rightarrow> cutoff_names c) = Inr ()"
    and unions: "\<And>m. m \<in> set (set_members (pat_appearances p)) \<Longrightarrow>
      require_all D ThingDomain (union_names (thing_pattern m)) = Inr ()"
    using assms(1) unfolding validate_dependency_domains.simps [of p] by (auto simp: attempt_eq_Inr try_fold_unit)
  have member: "d \<in> F n" if "map_of D n = Some d" for n d
    using that assms(2) [of n] resolved_member [OF coherent_envD [OF assms(3)]] by metis
  have "TimeDomain \<in> F n" if "pat_cutoff p = Some (CutoffVariable n)" for n
    using require_all_Inr [OF cutoffs, of n] that member by auto
  moreover have "identity_in F n"
    if mn: "m \<in> set (set_members (pat_appearances p))" "n \<in> set (union_names (thing_pattern m))" for m n
  proof -
    obtain d where "map_of D n = Some d" "d = ThingDomain \<or> d = PositDomain"
      using require_all_Inr [OF unions [OF mn(1)] mn(2)] by auto
    then have "d \<in> F n" "domain_kind d = ThingDomain" using member by auto
    then show ?thesis by (auto simp: identity_in_def)
  qed
  ultimately show ?thesis by (simp add: depends_well_def cutoff_bound_def)
qed

lemma kind_below:
  assumes "coherent_env F" and "\<And>n. E n \<subseteq> F n" and "E n \<noteq> {}" and "d \<in> F n"
  shows "\<exists>e \<in> E n. domain_kind e = domain_kind d"
  using assms coherent_envD [OF assms(1), of n] unfolding coherent_def by blast

lemma depends_well_below:
  assumes "coherent_env F" and "\<And>n. E n \<subseteq> F n" and "\<And>n. n \<in> dependencies p \<Longrightarrow> E n \<noteq> {}"
    and "depends_well F p"
  shows "depends_well E p"
proof -
  have time: "TimeDomain \<in> E n" if in_F: "TimeDomain \<in> F n" and bound: "E n \<noteq> {}" for n
  proof -
    obtain e where "e \<in> E n" "domain_kind e = domain_kind TimeDomain"
      using kind_below [where E = E and F = F, OF assms(1,2) bound in_F] by blast
    then show ?thesis by (cases e) simp_all
  qed
  have ident: "identity_in E n" if ident_F: "identity_in F n" and bound: "E n \<noteq> {}" for n
  proof -
    obtain d where "d \<in> F n" "domain_kind d = ThingDomain" using ident_F by (auto simp: identity_in_def)
    then obtain e where "e \<in> E n" "domain_kind e = ThingDomain"
      using kind_below [where E = E and F = F, OF assms(1,2) bound] by fastforce
    then show ?thesis by (auto simp: identity_in_def)
  qed
  have "TimeDomain \<in> E n" if "pat_cutoff p = Some (CutoffVariable n)" for n
  proof (rule time)
    show "TimeDomain \<in> F n" using assms(4) that by (simp add: depends_well_def cutoff_bound_def)
    show "E n \<noteq> {}" using that by (intro assms(3)) (simp add: dependencies.simps [of p] own_dependencies_def)
  qed
  moreover have "identity_in E n"
    if "m \<in> set (set_members (pat_appearances p))" "n \<in> set (union_names (thing_pattern m))" for m n
  proof (rule ident)
    show "identity_in F n" using assms(4) that by (simp add: depends_well_def)
    show "E n \<noteq> {}" using that by (intro assms(3)) (auto simp: dependencies.simps [of p] own_dependencies_def)
  qed
  ultimately show ?thesis by (simp add: depends_well_def cutoff_bound_def)
qed

section \<open>Compiled branches are typed\<close>

lemma widen_introduced: "n \<in> introduced p \<Longrightarrow> widen E (schema p) n \<noteq> {}"
  by (force simp: introduced_schema widen_def merge_env_def declares_def)

lemma planned_typed:
  assumes "coherent_env (widen E (schemas (map planned pps)))" and "joinable A (map planned pps)"
    and "\<And>n. n \<in> A \<Longrightarrow> E n \<noteq> {}"
    and "\<And>pp. pp \<in> set pps \<Longrightarrow> streams (planned pp) \<and> plan_access pp \<noteq> EffectiveSliceAccess \<and> plan_predicates pp = []
      \<and> depends_well (widen E (schemas (map planned pps))) (planned pp)"
  shows "branch_typed E pps \<and> env_after E pps = widen E (schemas (map planned pps))"
  using assms
proof (induction pps arbitrary: E A)
  case (Cons pp pps)
  let ?p = "planned pp" and ?F = "widen E (schemas (map planned (pp # pps)))"
  have p: "streams ?p" "plan_access pp \<noteq> EffectiveSliceAccess" "plan_predicates pp = []" "depends_well ?F ?p"
    using Cons.prems(4) [of pp] by auto
  have own: "schema ?p = own_schema ?p" using p(1) by (rule streams_schema)
  have split: "?F = widen (widen E (own_schema ?p)) (schemas (map planned pps))" by (simp add: own)
  have below: "E n \<subseteq> ?F n" for n by (rule widen_mono)
  have "E n \<noteq> {}" if "n \<in> dependencies ?p" for n using that Cons.prems(2,3) by auto
  then have "depends_well E ?p" by (rule depends_well_below [OF Cons.prems(1) below _ p(4)])
  moreover have "coherent_env (widen E (own_schema ?p))"
    using Cons.prems(1) unfolding split by (rule coherent_widenD)
  ultimately have planned: "well_planned E pp"
    using p(1,2) by (simp add: well_planned_def ready_def streams_def depends_well_def)
  have "branch_typed (widen E (own_schema ?p)) pps
      \<and> env_after (widen E (own_schema ?p)) pps = widen (widen E (own_schema ?p)) (schemas (map planned pps))"
  proof (rule Cons.IH)
    show "coherent_env (widen (widen E (own_schema ?p)) (schemas (map planned pps)))"
      using Cons.prems(1) unfolding split .
    show "joinable (A \<union> introduced ?p) (map planned pps)" using Cons.prems(2) by simp
    show "widen E (own_schema ?p) n \<noteq> {}" if "n \<in> A \<union> introduced ?p" for n
      using that widen_introduced [of n ?p E] Cons.prems(3) widen_mono [of E n] own by fastforce
    show "streams (planned x) \<and> plan_access x \<noteq> EffectiveSliceAccess \<and> plan_predicates x = []
        \<and> depends_well (widen (widen E (own_schema ?p)) (schemas (map planned pps))) (planned x)"
      if "x \<in> set pps" for x
      using Cons.prems(4) [of x] that unfolding split by simp
  qed
  with planned p(3) split show ?case by simp
qed simp

lemma access_path_scan: "pat_effect p = None \<Longrightarrow> access_path p A \<noteq> EffectiveSliceAccess"
  unfolding access_path_def Let_def by simp

lemma compile_patterns_plans:
  "compile_patterns nfc db ordered D = Inr (pps, D') \<Longrightarrow> pp \<in> set pps \<Longrightarrow>
     plan_predicates pp = [] \<and> (pat_effect (planned pp) = None \<longrightarrow> plan_access pp \<noteq> EffectiveSliceAccess)"
  by (induction ordered arbitrary: D pps) (auto simp: Let_def attempt_eq_Inr access_path_scan)

lemma compile_branch_typed:
  assumes "register_all (schemas patterns) D = Inr D'" and "resolve_dependencies patterns (set (map fst D)) = Inr ()"
    and "\<And>p. p \<in> set patterns \<Longrightarrow> validate_dependency_domains p D' = Inr ()"
    and "\<And>p. p \<in> set patterns \<Longrightarrow> streams p"
    and "compile_branch nfc db patterns D scope = Inr b"
  shows "branch_typed (env_of D) (branch_patterns b) \<and> strip (branch_patterns b) = branch_patterns b
    \<and> (\<forall>n. map_of D' n = resolved (env_after (env_of D) (branch_patterns b) n))
    \<and> set (map planned (branch_patterns b)) = set patterns"
proof -
  obtain ordered where o: "map planned (branch_patterns b) = map snd ordered" "mset ordered = mset (enumerate 0 patterns)"
    "joinable (set (map fst D)) (map snd ordered)"
    using compile_branch_ok [OF assms(1,2), of nfc db scope thesis] assms(5) by auto
  have same: "set (map planned (branch_patterns b)) = set patterns"
    using o(1,2) by (metis map_snd_enumerate mset_map set_mset_mset)
  let ?F = "widen (env_of D) (schemas (map planned (branch_patterns b)))"
  have F: "?F = widen (env_of D) (schemas patterns)"
    unfolding widen_def using same by (intro arg_cong [where f = "merge_env (env_of D)"] declares_mset) (simp only: set_schemas)
  have coh: "coherent_env ?F" and D': "\<And>n. map_of D' n = resolved (?F n)"
    unfolding F using register_all_Inr [OF assms(1)] by (simp_all add: widen_def)
  have dep: "depends_well ?F (planned pp)" if "pp \<in> set (branch_patterns b)" for pp
    using that same assms(3) by (intro validated_dependencies [OF _ D' coh]) auto
  obtain ordered' pps' D1 where c: "compile_patterns nfc db ordered' D = Inr (pps', D1)" "branch_patterns b = pps'"
    using assms(5) by (auto simp: compile_branch_def attempt_eq_Inr)
  have each: "streams (planned pp) \<and> plan_access pp \<noteq> EffectiveSliceAccess \<and> plan_predicates pp = []
      \<and> depends_well ?F (planned pp)" if "pp \<in> set (branch_patterns b)" for pp
  proof -
    have "streams (planned pp)" using that same assms(4) by auto
    with compile_patterns_plans [OF c(1), of pp] that c(2) dep [OF that] show ?thesis by (auto simp: streams_def)
  qed
  have "branch_typed (env_of D) (branch_patterns b) \<and> env_after (env_of D) (branch_patterns b) = ?F"
  proof (rule planned_typed [OF coh])
    show "joinable (set (map fst D)) (map planned (branch_patterns b))" using o by simp
    show "env_of D n \<noteq> {}" if "n \<in> set (map fst D)" for n
      using that map_of_eq_None_iff [of D n] by (auto simp: env_of_def)
  qed (rule each)
  moreover have "strip (branch_patterns b) = branch_patterns b"
    using each unfolding strip_def by (intro map_idI) simp
  ultimately show ?thesis using D' same by auto
qed

section \<open>Predicates pushed into a branch\<close>

lemma predicate_typed_below:
  assumes "coherent_env F" and "\<And>n. E n \<subseteq> F n" and "predicate_typed F p" and "predicate_ready A p"
    and "\<And>n. n \<in> A \<Longrightarrow> E n \<noteq> {}"
  shows "predicate_typed E p"
proof -
  obtain d e where d: "d \<in> F (pred_left p)" and e: "e \<in> operand_domains F (pred_right p)"
    and k: "domain_kind d = domain_kind e" "decidable d (pred_operator p)"
    using assms(3) by (auto simp: predicate_typed_def)
  have "E (pred_left p) \<noteq> {}" using assms(4,5) by (simp add: predicate_ready_def)
  then obtain d' where d': "d' \<in> E (pred_left p)" "domain_kind d' = domain_kind d"
    using kind_below [where E = E and F = F, OF assms(1,2) _ d] by blast
  obtain e' where e': "e' \<in> operand_domains E (pred_right p)" "domain_kind e' = domain_kind e"
  proof (cases "pred_right p")
    case (OperandVariable n)
    then have "E n \<noteq> {}" "e \<in> F n" using assms(4,5) e by (auto simp: predicate_ready_def)
    then show thesis using kind_below [where E = E and F = F, OF assms(1,2)] that OperandVariable by fastforce
  qed (use e that in auto)
  from d' e' k decidable_kind [OF d'(2), of "pred_operator p"] show ?thesis unfolding predicate_typed_def by metis
qed

lemma predicate_ready_mono: "predicate_ready A p \<Longrightarrow> A \<subseteq> B \<Longrightarrow> predicate_ready B p"
  by (auto simp: predicate_ready_def split: operand.splits)

lemma push_typed:
  assumes "branch_typed E pps" and "\<And>pp. pp \<in> set pps \<Longrightarrow> streams (planned pp) \<and> plan_predicates pp = []"
    and "\<And>p. p \<in> set preds \<Longrightarrow> predicate_typed (env_after E pps) p" and "\<And>n. n \<in> A \<Longrightarrow> E n \<noteq> {}"
  shows "branch_typed E (push_predicates A preds pps) \<and> env_after E (push_predicates A preds pps) = env_after E pps"
  using assms
proof (induction A preds pps arbitrary: E rule: push_predicates.induct)
  case (2 A preds pp pps)
  let ?E = "widen E (own_schema (planned pp))" and ?A = "A \<union> introduced (planned pp)"
  have pp: "streams (planned pp)" "plan_predicates pp = []" using "2.prems"(2) [of pp] by simp_all
  have bound: "?E n \<noteq> {}" if "n \<in> ?A" for n
    using that widen_introduced [of n "planned pp" E] "2.prems"(4) widen_mono [of E n] streams_schema [OF pp(1)] by fastforce
  have coh: "coherent_env (env_after ?E pps)" using "2.prems"(1) by (intro env_after_coherent) simp
  have "predicate_typed ?E p" if "p \<in> set preds" "predicate_ready ?A p" for p
    using "2.prems"(3) [OF that(1)]
    by (intro predicate_typed_below [OF coh env_after_mono _ that(2) bound]) simp_all
  moreover have "branch_typed ?E (push_predicates ?A (filter (\<lambda>p. \<not> predicate_ready ?A p) preds) pps)
      \<and> env_after ?E (push_predicates ?A (filter (\<lambda>p. \<not> predicate_ready ?A p) preds) pps) = env_after ?E pps"
    using "2.prems" bound by (intro "2.IH" [OF refl]) auto
  ultimately show ?case using "2.prems"(1) pp(2) by (auto simp: Let_def)
qed simp

lemma push_all:
  assumes "\<And>pp. pp \<in> set pps \<Longrightarrow> plan_predicates pp = []" and "\<And>p. p \<in> set preds \<Longrightarrow> \<not> predicate_ready A p"
  shows "set (branch_predicates (push_predicates A preds pps))
    = {p \<in> set preds. predicate_ready (A \<union> \<Union> (introduced ` planned ` set pps)) p}"
  using assms
proof (induction A preds pps rule: push_predicates.induct)
  case (2 A preds pp pps)
  let ?A = "A \<union> introduced (planned pp)"
  let ?all = "?A \<union> \<Union> (introduced ` planned ` set pps)"
  have "set (branch_predicates (push_predicates ?A (filter (\<lambda>p. \<not> predicate_ready ?A p) preds) pps))
      = {p \<in> set preds. \<not> predicate_ready ?A p \<and> predicate_ready ?all p}"
    using "2.IH" [OF refl] "2.prems"(1) by auto
  then have "set (branch_predicates (push_predicates A preds (pp # pps)))
      = {p \<in> set preds. predicate_ready ?A p} \<union> {p \<in> set preds. \<not> predicate_ready ?A p \<and> predicate_ready ?all p}"
    using "2.prems"(1) [of pp] by (simp add: Let_def)
  moreover have "predicate_ready ?all p" if "predicate_ready ?A p" for p
    using that by (rule predicate_ready_mono) blast
  ultimately show ?case by (auto simp: Un_assoc)
qed auto

section \<open>Validated queries\<close>

lemma try_fold_unit_pairs:
  "try_fold (\<lambda>(a, b) _. f a b) xs () = Inr () \<longleftrightarrow> (\<forall>(a, b) \<in> set xs. f a b = Inr ())"
  by (induction xs) (auto simp: attempt_eq_Inr)

lemma validated_parts:
  assumes "validate_domains q = Inr D"
  obtains Ds where "try_map validate_branch (q_branches q) = Inr Ds"
    and "\<And>B n d. B \<in> set Ds \<Longrightarrow> map_of D n = Some d \<Longrightarrow> map_of B n = Some d"
    and "\<And>block. block \<in> set (q_not_exists q) \<Longrightarrow> \<exists>vars. validate_block vars D block = Inr ()"
    and "\<And>p. p \<in> set (q_predicates q) \<Longrightarrow> validate_predicate D p = Inr ()"
    and "\<And>n. n \<in> set (q_returns q) \<Longrightarrow> map_of D n \<noteq> None"
proof -
  from assms obtain Ds where Ds: "try_map validate_branch (q_branches q) = Inr Ds" "validate_common Ds D = Inr ()"
    "\<forall>block \<in> set (q_not_exists q). \<exists>vars. validate_block vars D block = Inr ()"
    "\<forall>p \<in> set (q_predicates q). validate_predicate D p = Inr ()"
    "\<forall>n \<in> set (q_returns q). require_variable D n = Inr ()"
    unfolding validate_domains_def Let_def by (auto simp: attempt_eq_Inr try_fold_unit)
  show thesis
  proof (rule that [OF Ds(1)])
    fix B n d assume "B \<in> set Ds" "map_of D n = Some d"
    moreover from this have "(n, d) \<in> set D" by (simp add: map_of_SomeD)
    ultimately show "map_of B n = Some d"
      using Ds(2) unfolding validate_common_def try_fold_unit try_fold_unit_pairs by auto
  qed (use Ds in \<open>auto simp: require_variable_def\<close>)
qed

lemma validated_branch_parts:
  assumes "validate_branch patterns = Inr B"
  shows "register_all (schemas patterns) [] = Inr B \<and> resolve_dependencies patterns {} = Inr ()
    \<and> (\<forall>p \<in> set patterns. validate_dependency_domains p B = Inr ())"
  using assms
  by (auto simp: validate_branch_def register_patterns_all validate_pattern_dependencies_def attempt_eq_Inr try_fold_unit)

lemma validated_block_parts:
  assumes "validate_block vars D patterns = Inr ()"
  shows "\<exists>D'. register_all (schemas patterns) D = Inr D' \<and> resolve_dependencies patterns (set (map fst D)) = Inr ()
    \<and> (\<forall>p \<in> set patterns. validate_dependency_domains p D' = Inr ())"
proof -
  have "try_fold (\<lambda>p local. if f p then Inl e else register_pattern p local) ps D = Inr D'
      \<Longrightarrow> register_all (schemas ps) D = Inr D'" for f e ps D D'
    by (induction ps arbitrary: D) (auto simp: register_pattern_all attempt_eq_Inr split: if_splits)
  with assms show ?thesis
    unfolding validate_block_def validate_pattern_dependencies_def
    by (fastforce simp: attempt_eq_Inr try_fold_unit)
qed

lemma validated_predicate:
  assumes "validate_predicate D p = Inr ()" and "pred_operator p \<in> set comparators"
    and "the (map_of D (pred_left p)) = LiteralDomain \<Longrightarrow> pred_operator p = ''===''"
  shows "predicate_typed (env_of D) p \<and> predicate_ready (dom (map_of D)) p"
proof -
  obtain d where d: "map_of D (pred_left p) = Some d"
    using assms(1) by (auto simp: validate_predicate_def require_variable_def attempt_eq_Inr)
  obtain e where e: "e \<in> operand_domains (env_of D) (pred_right p)"
    and right: "(case pred_right p of OperandVariable name \<Rightarrow> the (map_of D name)
        | OperandLiteral _ \<Rightarrow> LiteralDomain | OperandTime _ \<Rightarrow> TimeDomain) = e"
    and ready: "predicate_ready (dom (map_of D)) p"
    using assms(1) d
    by (cases "pred_right p")
      (auto simp: validate_predicate_def require_variable_def attempt_eq_Inr env_of_def predicate_ready_def domIff)
  have v: "(d = e \<or> is_identity d \<and> is_identity e)
      \<and> (pred_operator p \<in> {''='', ''==='', ''?=''} \<or> d = LiteralDomain \<or> d = TimeDomain)"
    using assms(1) d right
    by (auto simp: validate_predicate_def validate_predicate_domains_def attempt_eq_Inr Let_def)
  then have "domain_kind d = domain_kind e" by (auto simp: is_identity_def)
  moreover have "decidable d (pred_operator p)"
    using v assms(2,3) d by (auto simp: decidable_def equality_operators_def)
  ultimately show ?thesis using e ready d unfolding predicate_typed_def by (auto simp: env_of_def)
qed

lemma exports_env_of: "exports D F \<Longrightarrow> coherent_env F \<Longrightarrow> env_of D n \<subseteq> F n"
  unfolding exports_def env_of_def using resolved_member [OF coherent_envD] by fastforce

section \<open>Compiled queries are typed\<close>

lemma try_map_member: "try_map f xs = Inr ys \<Longrightarrow> y \<in> set ys \<Longrightarrow> \<exists>x \<in> set xs. f x = Inr y"
  by (induction xs arbitrary: ys) (auto simp: attempt_eq_Inr)

lemma compiled_branch_member:
  assumes "try_map (\<lambda>(i, ps). compile_branch nfc db ps D (scope i)) (enumerate n branches) = Inr bs" and "b \<in> set bs"
  shows "\<exists>ps \<in> set branches. \<exists>name. compile_branch nfc db ps D name = Inr b"
proof -
  obtain i ps where ps: "(i, ps) \<in> set (enumerate n branches)" "compile_branch nfc db ps D (scope i) = Inr b"
    using try_map_member [OF assms] by auto
  have "snd (i, ps) \<in> set (map snd (enumerate n branches))" using ps(1) unfolding set_map by (rule imageI)
  then have "ps \<in> set branches" by simp
  with ps(2) show ?thesis by auto
qed

lemma set_schemas_introduced: "fst ` set (schemas ps) = \<Union> (introduced ` set ps)"
  by (simp add: set_schemas introduced_schema image_UN)

lemma pushed_branch_typed:
  assumes "validate_branch patterns = Inr B" and "\<And>n d. map_of D n = Some d \<Longrightarrow> map_of B n = Some d"
    and "\<And>p. p \<in> set patterns \<Longrightarrow> streams p" and "compile_branch nfc db patterns [] scope = Inr b"
    and "\<And>p. p \<in> set preds \<Longrightarrow> predicate_typed (env_of D) p \<and> predicate_ready (dom (map_of D)) p"
  defines "pps \<equiv> push_predicates {} preds (branch_patterns b)"
  shows "branch_typed (\<lambda>_. {}) pps \<and> exports D (env_after (\<lambda>_. {}) pps) \<and> set (branch_predicates pps) = set preds"
proof -
  note parts = validated_branch_parts [OF assms(1)]
  have empty: "env_of [] = (\<lambda>_. {})" by (simp add: env_of_def fun_eq_iff)
  have "branch_typed (env_of []) (branch_patterns b) \<and> strip (branch_patterns b) = branch_patterns b
    \<and> (\<forall>n. map_of B n = resolved (env_after (env_of []) (branch_patterns b) n))
    \<and> set (map planned (branch_patterns b)) = set patterns"
    by (rule compile_branch_typed [OF _ _ _ assms(3,4)]) (use parts in auto)
  then have b: "branch_typed (\<lambda>_. {}) (branch_patterns b)" "strip (branch_patterns b) = branch_patterns b"
    and B: "\<And>n. map_of B n = resolved (env_after (\<lambda>_. {}) (branch_patterns b) n)"
    and same: "set (map planned (branch_patterns b)) = set patterns" unfolding empty by auto
  let ?F = "env_after (\<lambda>_. {}) (branch_patterns b)"
  have coh: "coherent_env ?F" by (rule env_after_coherent [OF b(1)])
  have exp: "exports D ?F" unfolding exports_def using assms(2) B by simp
  have typed: "predicate_typed ?F p" if "p \<in> set preds" for p
    using assms(5) [OF that] exports_env_of [OF exp coh] by (blast intro: predicate_typed_mono)
  have no_preds: "plan_predicates pp = []" if "pp \<in> set (branch_patterns b)" for pp
  proof -
    have "pp\<lparr>plan_predicates := []\<rparr> = pp" using b(2) that unfolding strip_def by (metis map_eq_conv map_ident)
    then show ?thesis by (metis planned_pattern.select_convs(6) planned_pattern.surjective planned_pattern.update_convs(6))
  qed
  have pushed: "branch_typed (\<lambda>_. {}) pps \<and> env_after (\<lambda>_. {}) pps = ?F"
    unfolding pps_def using assms(3) same no_preds
    by (intro push_typed [OF b(1) _ typed]) auto
  have "set (branch_predicates pps) = {p \<in> set preds. predicate_ready ({} \<union> \<Union> (introduced ` planned ` set (branch_patterns b))) p}"
    unfolding pps_def by (rule push_all [OF no_preds]) (simp_all add: predicate_ready_def)
  moreover have "predicate_ready ({} \<union> \<Union> (introduced ` planned ` set (branch_patterns b))) p" if "p \<in> set preds" for p
  proof (rule predicate_ready_mono)
    show "predicate_ready (dom (map_of D)) p" using assms(5) [OF that] by blast
    have "dom (map_of D) \<subseteq> set (map fst B)" using assms(2) by (force dest: map_of_SomeD)
    also have "\<dots> = \<Union> (introduced ` set patterns)"
      using register_all_dom [OF conjunct1 [OF parts]] by (simp add: set_schemas_introduced)
    finally show "dom (map_of D) \<subseteq> {} \<union> \<Union> (introduced ` planned ` set (branch_patterns b))"
      using same by simp
  qed
  ultimately show ?thesis using pushed exp by auto
qed

lemma compiled_query_typed:
  assumes "prepare_query q = Inr pq" and "compile_query nfc db maximum pq = Inr ph"
    and "ph_materialization ph = None" and "grammatical q"
  shows "query_typed ph \<and> ph_order ph = q_order q"
proof -
  obtain D where D: "validate_domains q = Inr D" "pq = \<lparr>prepared = q, prepared_domains = D\<rparr>"
    using assms(1) by (auto simp: prepare_query_def attempt_eq_Inr)
  obtain Ds where Ds: "try_map validate_branch (q_branches q) = Inr Ds"
    "\<And>B n d. B \<in> set Ds \<Longrightarrow> map_of D n = Some d \<Longrightarrow> map_of B n = Some d"
    "\<And>block. block \<in> set (q_not_exists q) \<Longrightarrow> \<exists>vars. validate_block vars D block = Inr ()"
    "\<And>p. p \<in> set (q_predicates q) \<Longrightarrow> validate_predicate D p = Inr ()"
    "\<And>n. n \<in> set (q_returns q) \<Longrightarrow> map_of D n \<noteq> None"
    using validated_parts [OF D(1)] by blast
  obtain bs blocks where
    bs: "try_map (\<lambda>(i, ps). compile_branch nfc db ps [] (scope_name ''branch_'' i)) (enumerate 0 (q_branches q)) = Inr bs"
    and blocks: "try_map (\<lambda>(i, ps). compile_branch nfc db ps D (scope_name ''not_exists_'' i))
      (enumerate 0 (q_not_exists q)) = Inr blocks"
    and ph: "ph_materialization ph = materialization_reason q D" "ph_not_exists ph = blocks"
      "ph_predicates ph = q_predicates q" "ph_returns ph = q_returns q" "ph_order ph = q_order q" "ph_domains ph = D"
      "materialization_reason q D = None \<Longrightarrow> ph_branches ph
        = map (\<lambda>b. b\<lparr>branch_patterns := push_predicates {} (q_predicates q) (branch_patterns b)\<rparr>) bs"
    using assms(2) unfolding D(2) compile_query_def Let_def by (auto simp: attempt_eq_Inr)
  have none: "materialization_reason q D = None" using ph(1) assms(3) by simp
  note streams = materialization_None [OF none assms(4)]
  have preds: "predicate_typed (env_of D) p \<and> predicate_ready (dom (map_of D)) p" if "p \<in> set (q_predicates q)" for p
    using assms(4) that unfolding grammatical_def
    by (intro validated_predicate [OF Ds(4) [OF that] _ streams(2) [OF that]]) blast
  have branches: "branch_typed (\<lambda>_. {}) (branch_patterns b) \<and> exports D (env_after (\<lambda>_. {}) (branch_patterns b))
      \<and> set (branch_predicates (branch_patterns b)) = set (q_predicates q)" if b: "b \<in> set (ph_branches ph)" for b
  proof -
    obtain b0 where b0: "b0 \<in> set bs" "branch_patterns b = push_predicates {} (q_predicates q) (branch_patterns b0)"
      using b ph(7) [OF none] by auto
    obtain ps name where ps: "ps \<in> set (q_branches q)" "compile_branch nfc db ps [] name = Inr b0"
      using compiled_branch_member [OF bs b0(1)] by blast
    obtain B where B: "B \<in> set Ds" "validate_branch ps = Inr B" using try_map_set [OF Ds(1) ps(1)] by blast
    show ?thesis unfolding b0(2)
      using ps(1) by (intro pushed_branch_typed [OF B(2) Ds(2) [OF B(1)] _ ps(2) preds] streams(1)) auto
  qed
  have absent: "branch_typed (env_of D) (branch_patterns b) \<and> strip (branch_patterns b) = branch_patterns b"
    if b: "b \<in> set (ph_not_exists ph)" for b
  proof -
    obtain ps name where ps: "ps \<in> set (q_not_exists q)" "compile_branch nfc db ps D name = Inr b"
      using compiled_branch_member [OF blocks] b ph(2) by blast
    then obtain D' where D': "register_all (schemas ps) D = Inr D'"
      "resolve_dependencies ps (set (map fst D)) = Inr ()" "\<forall>p \<in> set ps. validate_dependency_domains p D' = Inr ()"
      using Ds(3) validated_block_parts by blast
    have "\<And>p. p \<in> set ps \<Longrightarrow> streams p" using streams(1) ps(1) by auto
    from compile_branch_typed [OF D'(1,2) _ this ps(2)] D'(3) show ?thesis by blast
  qed
  show ?thesis
    using branches absent preds Ds(5) ph(3-6) unfolding query_typed_def by simp
qed

section \<open>Streaming queries\<close>

text \<open>A query that a caller may run and the planner lets stream.\<close>

definition streaming :: "query \<Rightarrow> prepared_query \<Rightarrow> bool" where
  "streaming q pq \<longleftrightarrow> prepare_query q = Inr pq \<and> grammatical q
     \<and> materialization_reason q (prepared_domains pq) = None \<and> q_order q = []"

lemma streaming_compiles:
  assumes "streaming q pq"
  obtains ph where "compile_query nfc db maximum pq = Inr ph" and "query_typed ph" and "ph_order ph = []"
    and "ph_materialization ph = None" and "ph_returns ph = q_returns q" and "ph_domains ph = prepared_domains pq"
proof -
  have pq: "prepare_query q = Inr pq" "prepared pq = q" "materialization_reason q (prepared_domains pq) = None"
    using assms by (auto simp: streaming_def prepare_query_def attempt_eq_Inr)
  obtain ph where ph: "compile_query nfc db maximum pq = Inr ph" using prepared_plan [OF pq(1)] by blast
  then have fields: "ph_materialization ph = None" "ph_returns ph = q_returns q" "ph_domains ph = prepared_domains pq"
    using pq unfolding compile_query_def Let_def by (auto simp: attempt_eq_Inr)
  have "query_typed ph \<and> ph_order ph = q_order q"
    using assms by (intro compiled_query_typed [OF pq(1) ph fields(1)]) (simp add: streaming_def)
  with ph fields assms that show thesis by (simp add: streaming_def)
qed


definition sample_role :: role where
  "sample_role = new_role (\<lambda>s. s) 9 ''name'' False"

definition one_posit :: posit where
  "one_posit = \<lparr>pthing = 7, pset = [\<lparr>app_thing = 8, app_role = sample_role\<rparr>],
     pvalue = \<lparr>token = ''42'', family = IntegerFamily\<rparr>, ptime = Time (Year 2020)\<rparr>"

definition one_posit_database :: database where
  "one_posit_database = snd (keep_posit one_posit (snd (db_keep_role sample_role (empty_database None))))"

definition streaming_query :: query where
  "streaming_query =
     \<lparr>q_branches = [[PositPattern (Some ''p'')
        \<lparr>set_binding = None, set_members = [\<lparr>thing_pattern = ThingVariable ''x'', role_pattern = NamedRole ''name''\<rparr>],
         open_set = False, any_set = False\<rparr>
        (ValueVariable ''v'') (TimeVariable ''t'') None False None]],
      q_not_exists = [],
      q_predicates = [\<lparr>pred_left = ''t'', pred_operator = ''<'', pred_right = OperandTime (Time (Year 2021))\<rparr>],
      q_returns = [''x'', ''p'', ''v''], q_distinct = True, q_order = [], q_limit = None, q_has_fallback = False\<rparr>"

definition list_sink :: "row list row_sink" where
  "list_sink = \<lparr>on_meta = (\<lambda>_ s. (Continue, s)), push_row = (\<lambda>r s. (Continue, s @ [r]))\<rparr>"

lemma sample_streams: "\<exists>pq. streaming streaming_query pq"
proof -
  have "case prepare_query streaming_query of Inl _ \<Rightarrow> False
    | Inr pq \<Rightarrow> materialization_reason streaming_query (prepared_domains pq) = None" by code_simp
  moreover have "grammatical streaming_query" "q_order streaming_query = []" by code_simp+
  ultimately show ?thesis unfolding streaming_def by (cases "prepare_query streaming_query") auto
qed




section \<open>A thing where a posit is expected\<close>

text \<open>The error that remains: a variable that an earlier pattern bound to a thing, used as the posit variable
  of a pattern that nothing else constrains, makes its value the only candidate, whether or not it is the
  identity of a posit; the query then fails instead of finding no match.\<close>

lemma thing_is_no_posit:
  assumes "pat_posit p = Some name" and "pat_cutoff p = None" and "set_binding (pat_appearances p) = None"
    and "set_members (pat_appearances p) = []" and "binding_get name input = Some (BoundThing t)"
    and "posit_of_thing t (posit_keeper db) = None"
  shows "candidate_posits nfc db p input (Bitmap roles names) = Inl foreign_identity"
  using assms
  by (simp add: candidate_posits_def candidate_identities_def indexed_candidate_identities_def posit_postings_def
      set_postings_def identity_of_def)

end
