(* ===== verification/Terrain.thy ===== *)
theory Terrain
  imports Effect "HOL-Library.Option_ord"
begin

text \<open>
  The structural reports of \<open>src/terrain.rs\<close>: one walk over the posits of a database, taken while the
  execution owner keeps writers out, and an aggregation of what it captured into two frames, one over
  every posit and one over the posits in effect at a cutoff.  A frame counts the things that have each
  combination of the projected attribute roles, the things that have at least each combination, and
  for the relationships of selected signatures how they distribute over these combinations.

  The clocks, the cancellation token, the owner lock and the iteration order of hash maps are
  arguments (\<open>terrain_env\<close>); what they are read from is the state \<open>'w\<close>.  A \<open>BTreeMap\<close> is a map whose
  keys are visited in ascending order, a \<open>RoaringTreemap\<close> a set whose length is counted in 64 bits.
  The compilation for \<open>wasm32\<close> is left out.  Fields carry a prefix for the type they belong to.
\<close>

unbundle bit_operations_syntax

section \<open>Limits and options\<close>

definition max_projected_role_limit :: nat where
  "max_projected_role_limit = 8"

definition max_relationship_signature_limit :: nat where
  "max_relationship_signature_limit = 128"

record terrain_limits =
  lim_posits_scanned :: u64
  lim_active_appearance_sets :: u64
  lim_endpoint_things :: u64
  lim_temporal_comparisons :: u64
  lim_relationship_arity :: u64
  lim_allocations :: u64

definition default_terrain_limits :: terrain_limits where
  "default_terrain_limits =
     \<lparr>lim_posits_scanned = 1000000, lim_active_appearance_sets = 250000,
      lim_endpoint_things = 1000000, lim_temporal_comparisons = 5000000,
      lim_relationship_arity = 256, lim_allocations = 4096\<rparr>"

text \<open>A cancellation token is read from the state; a fresh one is never cancelled.\<close>

type_synonym 'w cancellation_token = "'w \<Rightarrow> bool \<times> 'w"

definition new_cancellation_token :: "'w cancellation_token" where
  "new_cancellation_token w = (False, w)"

record 'w terrain_options =
  opt_as_of :: "time option"
  opt_timeout :: "nat option"
  opt_cancellation :: "'w cancellation_token option"
  opt_projected_role_limit :: nat
  opt_max_relationship_signatures :: nat
  opt_limits :: terrain_limits

definition default_terrain_options :: "'w terrain_options" where
  "default_terrain_options =
     \<lparr>opt_as_of = None, opt_timeout = None, opt_cancellation = None,
      opt_projected_role_limit = 8, opt_max_relationship_signatures = 16,
      opt_limits = default_terrain_limits\<rparr>"

section \<open>Reports\<close>

record terrain_database_totals =
  tot_referenced_things :: u64
  tot_roles :: u64
  tot_appearances :: u64
  tot_appearance_sets :: u64
  tot_posits :: u64

record terrain_projected_role =
  pr_id :: string
  pr_name :: string
  pr_bit :: u8
  pr_history_support :: u64
  pr_current_support :: u64

record terrain_projection =
  proj_complete :: bool
  proj_total_attribute_roles :: u64
  proj_roles :: "terrain_projected_role list"

record terrain_role_ref =
  ref_id :: string
  ref_name :: string

record terrain_relationship_signature =
  sig_id :: string
  sig_roles :: "terrain_role_ref list"

record terrain_relationship_catalog =
  cat_complete :: bool
  cat_total_signatures :: u64
  cat_default_signature_id :: "string option"
  cat_signatures :: "terrain_relationship_signature list"

datatype terrain_scope = History | Current

record terrain_frame_stats =
  stat_endpoint_things :: u64
  stat_roles :: u64
  stat_appearance_sets :: u64
  stat_posits :: u64
  stat_incidences :: u64

record terrain_role_support =
  sup_role_id :: string
  sup_distinct_things :: u64

record terrain_profile =
  prof_id :: string
  prof_mask :: u16
  prof_present_role_ids :: "string list"
  prof_absent_role_ids :: "string list"
  prof_things :: u64
  prof_isopleth_id :: "string option"

record terrain_isopleth =
  iso_id :: string
  iso_mask :: u16
  iso_included_role_ids :: "string list"
  iso_support :: u64

record terrain_role_total =
  rt_role_id :: string
  rt_distinct_things :: u64
  rt_participations :: u64

record terrain_allocation =
  al_id :: string
  al_role_id :: string
  al_profile_id :: string
  al_profile_mask :: u16
  al_isopleth_id :: "string option"
  al_distinct_things :: u64
  al_participations :: u64

record terrain_relationship =
  rel_signature_id :: string
  rel_appearance_sets :: u64
  rel_posits :: u64
  rel_role_totals :: "terrain_role_total list"
  rel_allocations :: "terrain_allocation list"

record terrain_frame =
  frame_scope :: terrain_scope
  frame_stats :: terrain_frame_stats
  frame_role_supports :: "terrain_role_support list"
  frame_profiles :: "terrain_profile list"
  frame_isopleths :: "terrain_isopleth list"
  frame_relationships :: "terrain_relationship list"

record terrain_report =
  rep_terrain_version :: u16
  rep_resolved_as_of :: string
  rep_database :: terrain_database_totals
  rep_projection :: terrain_projection
  rep_relationship_catalog :: terrain_relationship_catalog
  rep_history :: terrain_frame
  rep_current :: terrain_frame

section \<open>Execution\<close>

datatype owner_attempt = OwnerAcquired | OwnerPoisoned | OwnerWouldBlock

text \<open>What surrounds an execution: the monotonic clock and the addition of a duration to one of its
  readings, the wall clock, one attempt at the owner lock, its release and the sleep between attempts,
  and the order in which a hash map with the given keys is iterated.\<close>

record 'w terrain_env =
  instant_now :: "'w \<Rightarrow> nat \<times> 'w"
  instant_add :: "nat \<Rightarrow> nat \<Rightarrow> nat option"
  time_now :: "'w \<Rightarrow> time \<times> 'w"
  try_owner :: "'w \<Rightarrow> owner_attempt \<times> 'w"
  drop_owner :: "'w \<Rightarrow> 'w"
  sleep_1ms :: "'w \<Rightarrow> 'w"
  hash_order :: "thing set \<Rightarrow> thing list"

record 'w terrain_execution =
  ex_deadline :: "nat option"
  ex_cancellation :: "'w cancellation_token"
  ex_limits :: terrain_limits
  ex_temporal_comparisons :: u64

definition resource_limit :: "string \<Rightarrow> u64 \<Rightarrow> database_error" where
  "resource_limit resource limit = ResourceLimit resource limit"

definition validate_limit :: "string \<Rightarrow> u64 \<Rightarrow> u64 \<Rightarrow> unit result" where
  "validate_limit resource v maximum =
     (if v > maximum then Inl (resource_limit resource maximum) else Inr ())"

definition checked_add :: "u64 \<Rightarrow> u64 \<Rightarrow> string \<Rightarrow> u64 result" where
  "checked_add left right resource =
     ok_or (resource_limit resource (- 1)) (checked_add_u64 left right)"

definition checked_mul :: "u64 \<Rightarrow> u64 \<Rightarrow> string \<Rightarrow> u64 result" where
  "checked_mul left right resource =
     (if unat left * unat right < 2 ^ 64 then Inr (left * right)
      else Inl (resource_limit resource (- 1)))"

definition usize_count :: "nat \<Rightarrow> string \<Rightarrow> u64 result" where
  "usize_count n resource =
     (if n < 2 ^ 64 then Inr (word_of_nat n) else Inl (resource_limit resource (- 1)))"

definition check_count_limit :: "u64 \<Rightarrow> u64 \<Rightarrow> string \<Rightarrow> unit result" where
  "check_count_limit count limit resource =
     (if count > limit then Inl (resource_limit resource limit) else Inr ())"

definition new_terrain_execution ::
    "'w terrain_env \<Rightarrow> 'w terrain_options \<Rightarrow> 'w \<Rightarrow> 'w terrain_execution result \<times> 'w" where
  "new_terrain_execution E options w =
     (let l = opt_limits options; m = default_terrain_limits in
      attempt_st (validate_limit ''posits scanned'' (lim_posits_scanned l) (lim_posits_scanned m), w) (\<lambda>_ w.
      attempt_st (validate_limit ''active appearance sets'' (lim_active_appearance_sets l)
        (lim_active_appearance_sets m), w) (\<lambda>_ w.
      attempt_st (validate_limit ''endpoint Things'' (lim_endpoint_things l) (lim_endpoint_things m), w) (\<lambda>_ w.
      attempt_st (validate_limit ''temporal comparisons'' (lim_temporal_comparisons l)
        (lim_temporal_comparisons m), w) (\<lambda>_ w.
      attempt_st (validate_limit ''relationship arity'' (lim_relationship_arity l)
        (lim_relationship_arity m), w) (\<lambda>_ w.
      attempt_st (validate_limit ''allocations'' (lim_allocations l) (lim_allocations m), w) (\<lambda>_ w.
      if opt_projected_role_limit options > max_projected_role_limit
      then (Inl (resource_limit ''projected attribute Roles'' (word_of_nat max_projected_role_limit)), w)
      else if opt_max_relationship_signatures options > max_relationship_signature_limit
      then (Inl (resource_limit ''relationship signatures''
        (word_of_nat max_relationship_signature_limit)), w)
      else
      attempt_st
        (case opt_timeout options of
           None \<Rightarrow> (Inr None, w)
         | Some timeout \<Rightarrow>
             let (now, w) = instant_now E w
             in (ok_or (Execution ''Terrain timeout is too large'')
                   (map_option Some (instant_add E now timeout)), w)) (\<lambda>dl w.
      (Inr \<lparr>ex_deadline = dl,
         ex_cancellation = (case opt_cancellation options of
           None \<Rightarrow> new_cancellation_token | Some t \<Rightarrow> t),
         ex_limits = l, ex_temporal_comparisons = 0\<rparr>, w)))))))))"

definition check_execution ::
    "'w terrain_env \<Rightarrow> 'w terrain_execution \<Rightarrow> 'w \<Rightarrow> unit result \<times> 'w" where
  "check_execution E ex w =
     (let (cancelled, w) = ex_cancellation ex w
      in if cancelled then (Inl Cancelled, w)
         else case ex_deadline ex of
           None \<Rightarrow> (Inr (), w)
         | Some dl \<Rightarrow>
             let (now, w) = instant_now E w
             in if now \<ge> dl then (Inl Timeout, w) else (Inr (), w))"

definition checkpoint ::
    "'w terrain_env \<Rightarrow> 'w terrain_execution \<Rightarrow> nat \<Rightarrow> 'w \<Rightarrow> unit result \<times> 'w" where
  "checkpoint E ex index w = (if index mod 1024 = 0 then check_execution E ex w else (Inr (), w))"

text \<open>A function that borrows the execution, called where it is borrowed mutably.\<close>

definition borrowing ::
    "('x \<Rightarrow> 'w \<Rightarrow> 'a result \<times> 'w) \<Rightarrow> 'x \<times> 'w \<Rightarrow> 'a result \<times> ('x \<times> 'w)" where
  "borrowing f = (\<lambda>(x, w). let (r, w) = f x w in (r, (x, w)))"

definition temporal_comparison ::
    "'w terrain_env \<Rightarrow> 'w terrain_execution \<times> 'w \<Rightarrow> unit result \<times> ('w terrain_execution \<times> 'w)" where
  "temporal_comparison E = (\<lambda>(ex, w).
     attempt_st (checked_add (ex_temporal_comparisons ex) 1 ''temporal comparisons'', (ex, w))
       (\<lambda>n (ex, w).
     let ex = ex\<lparr>ex_temporal_comparisons := n\<rparr>
     in if n > lim_temporal_comparisons (ex_limits ex)
        then (Inl (resource_limit ''temporal comparisons'' (lim_temporal_comparisons (ex_limits ex))),
              (ex, w))
        else if n mod 1024 = 0 then borrowing (check_execution E) (ex, w)
        else (Inr (), (ex, w))))"

section \<open>Identities\<close>

definition role_id :: "thing \<Rightarrow> string" where
  "role_id r = show_nat (unat r)"

definition parse_thing :: "string \<Rightarrow> thing option" where
  "parse_thing s = map_option word_of_int (parse_int 0 (2 ^ 64 - 1) s)"

definition hex_digit :: "nat \<Rightarrow> char" where
  "hex_digit d = (if d < 10 then digit_char d else char_of (87 + d))"

fun show_hex :: "nat \<Rightarrow> string" where
  "show_hex n = (if n < 16 then [hex_digit n] else show_hex (n div 16) @ [hex_digit (n mod 16)])"

declare show_hex.simps [simp del]

text \<open>The format \<open>{:03x}\<close>.\<close>

definition show_hex_03 :: "nat \<Rightarrow> string" where
  "show_hex_03 n = (let s = show_hex n in replicate (3 - length s) CHR ''0'' @ s)"

definition profile_id :: "u16 \<Rightarrow> string" where
  "profile_id m = ''terrain-v1-profile-'' @ show_hex_03 (unat m)"

definition isopleth_id :: "u16 \<Rightarrow> string" where
  "isopleth_id m = ''terrain-v1-isopleth-'' @ show_hex_03 (unat m)"

fun join_strings :: "string \<Rightarrow> string list \<Rightarrow> string" where
  "join_strings separator [] = []"
| "join_strings separator [s] = s"
| "join_strings separator (s # t # ss) = s @ separator @ join_strings separator (t # ss)"

definition signature_id :: "thing list \<Rightarrow> string" where
  "signature_id signature =
     ''terrain-v1-signature-'' @ join_strings ''-'' (map (\<lambda>r. show_nat (unat r)) signature)"

definition allocation_id :: "thing list \<Rightarrow> thing \<Rightarrow> u16 \<Rightarrow> string" where
  "allocation_id signature r m =
     ''terrain-v1-allocation-'' @ join_strings ''-'' (map (\<lambda>r. show_nat (unat r)) signature)
       @ ''-'' @ show_nat (unat r) @ ''-'' @ show_hex_03 (unat m)"

definition terrain_time_token :: "chrono \<Rightarrow> time \<Rightarrow> string" where
  "terrain_time_token C t =
     (let v = show_time C t
      in if v = ''BOT'' then ''@BOT'' else if v = ''EOT'' then ''@EOT''
         else CHR 0x27 # v @ [CHR 0x27])"

section \<open>Capture\<close>

record captured_posit =
  cap_posit :: thing
  cap_set :: appearance_set
  cap_time :: time

record captured_database =
  cap_totals :: terrain_database_totals
  cap_role_names :: "thing \<rightharpoonup> string"
  cap_posits :: "captured_posit list"

definition snapshot :: "(thing set \<Rightarrow> thing list) \<Rightarrow> role_keeper \<Rightarrow> role list" where
  "snapshot order k = map (\<lambda>t. the (role_lookup k t)) (order (dom (role_lookup k)))"

fun capture_posits ::
    "'w terrain_env \<Rightarrow> 'w terrain_execution \<Rightarrow> (thing \<rightharpoonup> time) \<Rightarrow> nat \<Rightarrow> (thing \<times> appearance_set) list
       \<Rightarrow> captured_posit list \<Rightarrow> 'w \<Rightarrow> captured_posit list result \<times> 'w" where
  "capture_posits E ex moments index [] posits w = (Inr posits, w)"
| "capture_posits E ex moments index ((p, s) # entries) posits w =
     attempt_st (checkpoint E ex index w) (\<lambda>_ w.
     attempt_st (ok_or (Invariant ''Terrain capture has no time for posit'') (moments p), w) (\<lambda>t w.
     capture_posits E ex moments (Suc index) entries
       (posits @ [\<lparr>cap_posit = p, cap_set = s, cap_time = t\<rparr>]) w))"

definition capture_terrain ::
    "'w terrain_env \<Rightarrow> 'w terrain_execution \<Rightarrow> database \<Rightarrow> 'w \<Rightarrow> captured_database result \<times> 'w" where
  "capture_terrain E ex db w =
     attempt_st (usize_count (card (retained (generator db))) ''referenced Things'', w)
       (\<lambda>referenced_things w.
     attempt_st (check_execution E ex w) (\<lambda>_ w.
     let roles = snapshot (hash_order E) (role_keeper db) in
     attempt_st (usize_count (length roles) ''Roles'', w) (\<lambda>role_count w.
     attempt_st (check_execution E ex w) (\<lambda>_ w.
     attempt_st (usize_count (card (dom (appearance_keeper db))) ''Appearances'', w) (\<lambda>appearances w.
     attempt_st (check_execution E ex w) (\<lambda>_ w.
     attempt_st (usize_count (card (dom (appearance_set_keeper db))) ''AppearanceSets'', w)
       (\<lambda>appearance_sets w.
     attempt_st (check_execution E ex w) (\<lambda>_ w.
     attempt_st (usize_count (keeper_length (posit_keeper db)) ''Posits'', w) (\<lambda>posit_count w.
     if posit_count > lim_posits_scanned (ex_limits ex)
     then (Inl (resource_limit ''posits scanned'' (lim_posits_scanned (ex_limits ex))), w)
     else
     attempt_st (check_execution E ex w) (\<lambda>_ w.
     let sets_by_posit = posit_thing_to_appearance_set db; times_by_posit = posit_time_lookup db
     in if card (dom sets_by_posit) \<noteq> card (dom times_by_posit)
           \<or> card (dom sets_by_posit) \<noteq> unat posit_count
           \<or> \<not> dom sets_by_posit \<subseteq> dom times_by_posit
        then (Inl (Invariant ''Terrain capture found mismatched posit reverse indexes''), w)
        else
     attempt_st (capture_posits E ex times_by_posit 0
         (map (\<lambda>p. (p, the (sets_by_posit p))) (hash_order E (dom sets_by_posit))) [] w) (\<lambda>posits w.
     let posits = sort_key cap_posit posits in
     attempt_st (check_execution E ex w) (\<lambda>_ w.
     (Inr \<lparr>cap_totals = \<lparr>tot_referenced_things = referenced_things, tot_roles = role_count,
             tot_appearances = appearances, tot_appearance_sets = appearance_sets,
             tot_posits = posit_count\<rparr>,
           cap_role_names = map_of (rev (map (\<lambda>r. (role_thing r, label r)) roles)),
           cap_posits = posits\<rparr>, w)))))))))))))"

text \<open>The wait for the owner ends when the lock is free, or when the execution is cancelled or times
  out; while neither happens it goes on.\<close>

partial_function (option) acquire_owner ::
    "'w terrain_env \<Rightarrow> 'w terrain_execution \<Rightarrow> 'w \<Rightarrow> (unit result \<times> 'w) option" where
  "acquire_owner E ex w =
     (case fst (try_owner E w) of
        OwnerAcquired \<Rightarrow> Some (Inr (), snd (try_owner E w))
      | OwnerPoisoned \<Rightarrow> Some (Inl (Lock ''poisoned lock: another task failed inside''), snd (try_owner E w))
      | OwnerWouldBlock \<Rightarrow>
          (case fst (check_execution E ex (snd (try_owner E w))) of
             Inl e \<Rightarrow> Some (Inl e, snd (check_execution E ex (snd (try_owner E w))))
           | Inr _ \<Rightarrow> acquire_owner E ex (sleep_1ms E (snd (check_execution E ex (snd (try_owner E w)))))))"

section \<open>Frames at work\<close>

text \<open>The entries of an ordered map, in ascending order of their keys.\<close>

definition entries :: "('k :: linorder \<rightharpoonup> 'v) \<Rightarrow> ('k \<times> 'v) list" where
  "entries m = map (\<lambda>k. (k, the (m k))) (sorted_list_of_set (dom m))"

definition treemap_count :: "thing set \<Rightarrow> u64" where
  "treemap_count ts = word_of_nat (card ts)"

record signature_work =
  sw_posits :: u64
  sw_sets :: "appearance_set list"

record frame_work =
  fw_stats :: terrain_frame_stats
  fw_endpoint_things :: "thing set"
  fw_attribute_things :: "thing \<rightharpoonup> thing set"
  fw_signatures :: "thing list \<rightharpoonup> signature_work"
  fw_profile_masks :: "thing \<rightharpoonup> u16"

type_synonym active_sets = "appearance_key list \<rightharpoonup> appearance_set \<times> u64"

fun count_active_sets ::
    "'w terrain_env \<Rightarrow> 'w terrain_execution \<Rightarrow> nat \<Rightarrow> captured_posit list \<Rightarrow> active_sets \<Rightarrow> 'w
       \<Rightarrow> active_sets result \<times> 'w" where
  "count_active_sets E ex index [] active w = (Inr active, w)"
| "count_active_sets E ex index (r # records) active w =
     attempt_st (checkpoint E ex index w) (\<lambda>_ w.
     let (s, count) = (case active (set_key (cap_set r)) of None \<Rightarrow> (cap_set r, 0) | Some e \<Rightarrow> e) in
     attempt_st (checked_add count 1 ''frame posits'', w) (\<lambda>count w.
     count_active_sets E ex (Suc index) records (active(set_key (cap_set r) \<mapsto> (s, count))) w))"

text \<open>What the loop over the active sets collects.\<close>

record frame_progress =
  fp_endpoints :: "thing set"
  fp_roles :: "thing set"
  fp_attributes :: "thing \<rightharpoonup> thing set"
  fp_signatures :: "thing list \<rightharpoonup> signature_work"
  fp_incidences :: u64

definition frame_set ::
    "'w terrain_execution \<Rightarrow> appearance_set \<Rightarrow> u64 \<Rightarrow> frame_progress \<Rightarrow> frame_progress result" where
  "frame_set ex s posit_count fp =
     attempt (usize_count (length s) ''relationship arity'') (\<lambda>arity.
     if length s \<ge> 2 \<and> arity > lim_relationship_arity (ex_limits ex)
     then Inl (resource_limit ''relationship arity'' (lim_relationship_arity (ex_limits ex)))
     else
     attempt (checked_mul arity posit_count ''frame incidences'') (\<lambda>n.
     attempt (checked_add (fp_incidences fp) n ''frame incidences'') (\<lambda>incidences.
     let endpoints = fp_endpoints fp \<union> app_thing ` set s; roles = fp_roles fp \<union> set (set_roles s);
         fp = fp\<lparr>fp_endpoints := endpoints, fp_roles := roles, fp_incidences := incidences\<rparr>
     in
     attempt (check_count_limit (treemap_count endpoints) (lim_endpoint_things (ex_limits ex))
       ''endpoint Things'') (\<lambda>_.
     if length s = 1
     then let a = hd s; r = role_thing (app_role a) in
       Inr (fp\<lparr>fp_attributes := (fp_attributes fp)(r \<mapsto>
         insert (app_thing a) (case fp_attributes fp r of None \<Rightarrow> {} | Some ts \<Rightarrow> ts))\<rparr>)
     else if length s \<ge> 2
     then
       let work = (case fp_signatures fp (set_roles s) of
             None \<Rightarrow> \<lparr>sw_posits = 0, sw_sets = []\<rparr> | Some sw \<Rightarrow> sw) in
       attempt (checked_add (sw_posits work) posit_count ''relationship posits'') (\<lambda>posits.
       Inr (fp\<lparr>fp_signatures := (fp_signatures fp)(set_roles s \<mapsto>
         \<lparr>sw_posits = posits, sw_sets = sw_sets work @ [s]\<rparr>)\<rparr>))
     else Inr fp))))"

fun frame_sets ::
    "'w terrain_env \<Rightarrow> 'w terrain_execution \<Rightarrow> nat \<Rightarrow> (appearance_set \<times> u64) list \<Rightarrow> frame_progress \<Rightarrow> 'w
       \<Rightarrow> frame_progress result \<times> 'w" where
  "frame_sets E ex index [] fp w = (Inr fp, w)"
| "frame_sets E ex index ((s, posit_count) # active) fp w =
     attempt_st (checkpoint E ex index w) (\<lambda>_ w.
     attempt_st (frame_set ex s posit_count fp, w) (\<lambda>fp w.
     frame_sets E ex (Suc index) active fp w))"

definition build_frame_work ::
    "'w terrain_env \<Rightarrow> captured_posit list \<Rightarrow> 'w terrain_execution \<Rightarrow> 'w \<Rightarrow> frame_work result \<times> 'w" where
  "build_frame_work E records ex w =
     attempt_st (count_active_sets E ex 0 records Map.empty w) (\<lambda>active w.
     attempt_st (usize_count (card (dom active)) ''active appearance sets'', w) (\<lambda>n w.
     attempt_st (check_count_limit n (lim_active_appearance_sets (ex_limits ex))
       ''active appearance sets'', w) (\<lambda>_ w.
     attempt_st (frame_sets E ex 0 (map snd (entries active))
         \<lparr>fp_endpoints = {}, fp_roles = {}, fp_attributes = Map.empty, fp_signatures = Map.empty,
          fp_incidences = 0\<rparr> w) (\<lambda>fp w.
     attempt_st (usize_count (card (dom active)) ''active appearance sets'', w) (\<lambda>set_count w.
     attempt_st (usize_count (length records) ''frame posits'', w) (\<lambda>posit_count w.
     (Inr \<lparr>fw_stats = \<lparr>stat_endpoint_things = treemap_count (fp_endpoints fp),
             stat_roles = treemap_count (fp_roles fp), stat_appearance_sets = set_count,
             stat_posits = posit_count, stat_incidences = fp_incidences fp\<rparr>,
           fw_endpoint_things = fp_endpoints fp, fw_attribute_things = fp_attributes fp,
           fw_signatures = fp_signatures fp, fw_profile_masks = Map.empty\<rparr>, w)))))))"

section \<open>Projection and catalogue\<close>

definition support :: "frame_work \<Rightarrow> thing \<Rightarrow> u64" where
  "support frame r = (case fw_attribute_things frame r of None \<Rightarrow> 0 | Some ts \<Rightarrow> treemap_count ts)"

definition role_name_of :: "(thing \<rightharpoonup> string) \<Rightarrow> thing \<Rightarrow> string result" where
  "role_name_of names r = ok_or (Invariant ''Terrain references unknown Role'') (names r)"

definition build_projection ::
    "frame_work \<Rightarrow> frame_work \<Rightarrow> (thing \<rightharpoonup> string) \<Rightarrow> nat \<Rightarrow> terrain_projection result" where
  "build_projection history current names limit =
     (let candidates = sort_key
            (\<lambda>r. (- uint (support current r), - uint (support history r), names r, r))
            (sorted_list_of_set (dom (fw_attribute_things history) \<union> dom (fw_attribute_things current)))
      in attempt (usize_count (length candidates) ''attribute Roles'') (\<lambda>n.
         attempt (try_map (\<lambda>(bit, r).
             attempt (role_name_of names r) (\<lambda>name.
             if bit < 256
             then Inr \<lparr>pr_id = role_id r, pr_name = name, pr_bit = word_of_nat bit,
                pr_history_support = support history r, pr_current_support = support current r\<rparr>
             else Inl (resource_limit ''projected attribute Roles''
               (word_of_nat max_projected_role_limit))))
           (enumerate 0 (take limit candidates))) (\<lambda>roles.
         Inr \<lparr>proj_complete = (length candidates \<le> limit), proj_total_attribute_roles = n,
           proj_roles = roles\<rparr>)))"

definition profile_bit :: "u8 \<Rightarrow> u16" where
  "profile_bit b = push_bit (unat b) 1"

definition profile_mask :: "frame_work \<Rightarrow> terrain_projected_role list \<Rightarrow> thing \<Rightarrow> u16 result" where
  "profile_mask frame roles t =
     try_fold (\<lambda>r m.
       attempt (ok_or (Invariant ''invalid projected Role id'') (parse_thing (pr_id r))) (\<lambda>ident.
       Inr (case fw_attribute_things frame ident of
              None \<Rightarrow> m
            | Some ts \<Rightarrow> if t \<in> ts then m OR profile_bit (pr_bit r) else m))) roles 0"

fun profile_masks ::
    "'w terrain_env \<Rightarrow> 'w terrain_execution \<Rightarrow> frame_work \<Rightarrow> terrain_projected_role list \<Rightarrow> nat
       \<Rightarrow> thing list \<Rightarrow> (thing \<rightharpoonup> u16) \<Rightarrow> 'w \<Rightarrow> (thing \<rightharpoonup> u16) result \<times> 'w" where
  "profile_masks E ex frame roles index [] masks w = (Inr masks, w)"
| "profile_masks E ex frame roles index (t # ts) masks w =
     attempt_st (checkpoint E ex index w) (\<lambda>_ w.
     attempt_st (profile_mask frame roles t, w) (\<lambda>m w.
     profile_masks E ex frame roles (Suc index) ts (masks(t \<mapsto> m)) w))"

definition assign_profiles ::
    "'w terrain_env \<Rightarrow> frame_work \<Rightarrow> terrain_projection \<Rightarrow> 'w terrain_execution \<Rightarrow> 'w
       \<Rightarrow> frame_work result \<times> 'w" where
  "assign_profiles E frame projection ex w =
     attempt_st (profile_masks E ex frame (proj_roles projection) 0
         (sorted_list_of_set (fw_endpoint_things frame)) (fw_profile_masks frame) w) (\<lambda>masks w.
     (Inr (frame\<lparr>fw_profile_masks := masks\<rparr>), w))"

definition signature_set_count :: "frame_work \<Rightarrow> thing list \<Rightarrow> nat" where
  "signature_set_count frame signature =
     (case fw_signatures frame signature of None \<Rightarrow> 0 | Some work \<Rightarrow> length (sw_sets work))"

definition build_catalog ::
    "frame_work \<Rightarrow> frame_work \<Rightarrow> (thing \<rightharpoonup> string) \<Rightarrow> nat
       \<Rightarrow> (terrain_relationship_catalog \<times> thing list list) result" where
  "build_catalog history current names limit =
     (let signatures = sort_key
            (\<lambda>s. (- int (signature_set_count current s), - int (signature_set_count history s),
                  - int (length s), map names s, s))
            (sorted_list_of_set (dom (fw_signatures history) \<union> dom (fw_signatures current)))
      in attempt (usize_count (length signatures) ''relationship signatures'') (\<lambda>n.
         let selected = take limit signatures in
         attempt (try_map (\<lambda>signature.
             attempt (try_map (\<lambda>r. attempt (role_name_of names r) (\<lambda>name.
                 Inr \<lparr>ref_id = role_id r, ref_name = name\<rparr>)) signature) (\<lambda>roles.
             Inr \<lparr>sig_id = signature_id signature, sig_roles = roles\<rparr>)) selected) (\<lambda>returned.
         Inr (\<lparr>cat_complete = (length signatures \<le> limit), cat_total_signatures = n,
                cat_default_signature_id = (case returned of [] \<Rightarrow> None | s # _ \<Rightarrow> Some (sig_id s)),
                cat_signatures = returned\<rparr>, selected))))"

section \<open>Frames\<close>

definition count_population :: "u16 \<Rightarrow> u64 list \<Rightarrow> u64 list result" where
  "count_population m populations =
     (if unat m < length populations
      then attempt (checked_add (populations ! unat m) 1 ''profile population'') (\<lambda>n.
           Inr (populations[unat m := n]))
      else Inl (Invariant ''profile mask is outside projection''))"

definition superset_step :: "nat \<Rightarrow> nat \<Rightarrow> u64 list \<Rightarrow> u64 list result" where
  "superset_step b m sums =
     (if m AND push_bit b 1 = 0
      then attempt (checked_add (sums ! m) (sums ! (m OR push_bit b 1)) ''isopleth support'') (\<lambda>n.
           Inr (sums[m := n]))
      else Inr sums)"

definition superset_sums :: "nat \<Rightarrow> u64 list \<Rightarrow> u64 list result" where
  "superset_sums bits populations =
     try_fold (\<lambda>b. try_fold (superset_step b) [0..<2 ^ bits]) [0..<bits] populations"

definition present_role_ids :: "terrain_projected_role list \<Rightarrow> u16 \<Rightarrow> string list" where
  "present_role_ids roles m = map pr_id (filter (\<lambda>r. m AND profile_bit (pr_bit r) \<noteq> 0) roles)"

definition absent_role_ids :: "terrain_projected_role list \<Rightarrow> u16 \<Rightarrow> string list" where
  "absent_role_ids roles m = map pr_id (filter (\<lambda>r. m AND profile_bit (pr_bit r) = 0) roles)"

fun profiles_and_isopleths ::
    "terrain_projected_role list \<Rightarrow> u64 list \<Rightarrow> (nat \<times> u64) list
       \<Rightarrow> terrain_profile list \<times> terrain_isopleth list
       \<Rightarrow> (terrain_profile list \<times> terrain_isopleth list) result" where
  "profiles_and_isopleths roles sums [] (profiles, isopleths) = Inr (profiles, isopleths)"
| "profiles_and_isopleths roles sums ((m, population) # populations) (profiles, isopleths) =
     (if population = 0 then profiles_and_isopleths roles sums populations (profiles, isopleths)
      else if m \<ge> 2 ^ 16 then Inl (resource_limit ''profile mask'' 65535)
      else
        let m = word_of_nat m; present = present_role_ids roles m
        in profiles_and_isopleths roles sums populations
             (profiles @ [\<lparr>prof_id = profile_id m, prof_mask = m, prof_present_role_ids = present,
                prof_absent_role_ids = absent_role_ids roles m, prof_things = population,
                prof_isopleth_id = (if m \<noteq> 0 then Some (isopleth_id m) else None)\<rparr>],
              if m \<noteq> 0
              then isopleths @ [\<lparr>iso_id = isopleth_id m, iso_mask = m, iso_included_role_ids = present,
                iso_support = sums ! unat m\<rparr>]
              else isopleths))"

definition count_ones :: "u16 \<Rightarrow> nat" where
  "count_ones m = length (filter (bit m) [0..<16])"

record participation_counts =
  count_things :: "thing set"
  count_participations :: u64

definition no_participations :: participation_counts where
  "no_participations = \<lparr>count_things = {}, count_participations = 0\<rparr>"

definition participate ::
    "thing \<Rightarrow> string \<Rightarrow> participation_counts \<Rightarrow> participation_counts result" where
  "participate t resource c =
     attempt (checked_add (count_participations c) 1 resource) (\<lambda>n.
     Inr \<lparr>count_things = insert t (count_things c), count_participations = n\<rparr>)"

type_synonym allocation_state =
  "(thing \<rightharpoonup> participation_counts) \<times> (thing \<times> u16 \<rightharpoonup> participation_counts)"

definition allocate :: "(thing \<rightharpoonup> u16) \<Rightarrow> appearance \<Rightarrow> allocation_state \<Rightarrow> allocation_state result" where
  "allocate masks a = (\<lambda>(role_counts, allocations).
     let r = role_thing (app_role a); t = app_thing a in
     attempt (ok_or (Invariant ''relationship signature omits Role'') (role_counts r)) (\<lambda>counts.
     attempt (participate t ''relationship participations'' counts) (\<lambda>counts.
     attempt (ok_or (Invariant ''relationship endpoint has no profile'') (masks t)) (\<lambda>m.
     attempt (participate t ''allocation participations''
         (case allocations (r, m) of None \<Rightarrow> no_participations | Some c \<Rightarrow> c)) (\<lambda>allocation.
     Inr (role_counts(r \<mapsto> counts), allocations((r, m) \<mapsto> allocation)))))))"

fun allocate_sets ::
    "'w terrain_env \<Rightarrow> 'w terrain_execution \<Rightarrow> (thing \<rightharpoonup> u16) \<Rightarrow> nat \<Rightarrow> appearance_set list
       \<Rightarrow> allocation_state \<Rightarrow> 'w \<Rightarrow> allocation_state result \<times> 'w" where
  "allocate_sets E ex masks index [] st w = (Inr st, w)"
| "allocate_sets E ex masks index (s # sets) st w =
     attempt_st (checkpoint E ex index w) (\<lambda>_ w.
     attempt_st (try_fold (allocate masks) s st, w) (\<lambda>st w.
     allocate_sets E ex masks (Suc index) sets st w))"

definition role_total :: "thing \<times> participation_counts \<Rightarrow> terrain_role_total" where
  "role_total = (\<lambda>(r, c). \<lparr>rt_role_id = role_id r, rt_distinct_things = treemap_count (count_things c),
     rt_participations = count_participations c\<rparr>)"

definition allocation_dto :: "thing list \<Rightarrow> (thing \<times> u16) \<times> participation_counts \<Rightarrow> terrain_allocation" where
  "allocation_dto signature = (\<lambda>((r, m), c).
     \<lparr>al_id = allocation_id signature r m, al_role_id = role_id r, al_profile_id = profile_id m,
      al_profile_mask = m, al_isopleth_id = (if m \<noteq> 0 then Some (isopleth_id m) else None),
      al_distinct_things = treemap_count (count_things c), al_participations = count_participations c\<rparr>)"

definition reconcile :: "terrain_allocation list \<Rightarrow> terrain_role_total \<Rightarrow> unit result" where
  "reconcile allocations rt =
     attempt (try_fold (\<lambda>a (d, p).
         attempt (checked_add d (al_distinct_things a) ''allocation distinct Things'') (\<lambda>d.
         attempt (checked_add p (al_participations a) ''allocation participations'') (\<lambda>p.
         Inr (d, p))))
       (filter (\<lambda>a. al_role_id a = rt_role_id rt) allocations) (0, 0)) (\<lambda>(d, p).
     guard (\<not> (d \<noteq> rt_distinct_things rt \<or> p \<noteq> rt_participations rt))
       (Invariant ''allocations do not reconcile for relationship Role''))"

definition build_relationship ::
    "'w terrain_env \<Rightarrow> 'w terrain_execution \<Rightarrow> frame_work \<Rightarrow> thing list \<Rightarrow> u64 \<Rightarrow> 'w
       \<Rightarrow> (terrain_relationship \<times> u64) result \<times> 'w" where
  "build_relationship E ex frame signature allocation_count w =
     (let role_counts = map_of (map (\<lambda>r. (r, no_participations)) signature);
          work = fw_signatures frame signature
      in
      attempt_st
        (case work of
           None \<Rightarrow> (Inr (role_counts, Map.empty), w)
         | Some work \<Rightarrow>
             allocate_sets E ex (fw_profile_masks frame) 0 (sw_sets work) (role_counts, Map.empty) w)
        (\<lambda>(role_counts, allocations) w.
      attempt_st (usize_count (card (dom allocations)) ''allocations'', w) (\<lambda>n w.
      attempt_st (checked_add allocation_count n ''allocations'', w) (\<lambda>allocation_count w.
      attempt_st (check_count_limit allocation_count (lim_allocations (ex_limits ex)) ''allocations'', w)
        (\<lambda>_ w.
      let role_totals = map role_total (entries role_counts);
          allocation_dtos = map (allocation_dto signature) (entries allocations)
      in
      attempt_st (try_map (reconcile allocation_dtos) role_totals, w) (\<lambda>_ w.
      attempt_st (case work of
           None \<Rightarrow> (Inr 0, w)
         | Some work \<Rightarrow> (usize_count (length (sw_sets work)) ''relationship appearance sets'', w))
        (\<lambda>sets w.
      (Inr (\<lparr>rel_signature_id = signature_id signature, rel_appearance_sets = sets,
              rel_posits = (case work of None \<Rightarrow> 0 | Some work \<Rightarrow> sw_posits work),
              rel_role_totals = role_totals, rel_allocations = allocation_dtos\<rparr>,
            allocation_count), w))))))))"

fun build_relationships ::
    "'w terrain_env \<Rightarrow> 'w terrain_execution \<Rightarrow> frame_work \<Rightarrow> nat \<Rightarrow> thing list list
       \<Rightarrow> terrain_relationship list \<Rightarrow> u64 \<Rightarrow> 'w \<Rightarrow> (terrain_relationship list \<times> u64) result \<times> 'w" where
  "build_relationships E ex frame index [] relationships allocation_count w =
     (Inr (relationships, allocation_count), w)"
| "build_relationships E ex frame index (s # signatures) relationships allocation_count w =
     attempt_st (checkpoint E ex index w) (\<lambda>_ w.
     attempt_st (build_relationship E ex frame s allocation_count w) (\<lambda>(relationship, allocation_count) w.
     build_relationships E ex frame (Suc index) signatures (relationships @ [relationship])
       allocation_count w))"

definition role_support :: "frame_work \<Rightarrow> terrain_projected_role \<Rightarrow> terrain_role_support result" where
  "role_support frame r =
     attempt (ok_or (Invariant ''invalid projected Role id'') (parse_thing (pr_id r))) (\<lambda>ident.
     Inr \<lparr>sup_role_id = pr_id r, sup_distinct_things = support frame ident\<rparr>)"

text \<open>The part of \<open>finish_frame\<close> before the relationships.\<close>

definition frame_profiles_of ::
    "'w terrain_env \<Rightarrow> frame_work \<Rightarrow> terrain_projected_role list
       \<Rightarrow> (terrain_role_support list \<times> terrain_profile list \<times> terrain_isopleth list) result" where
  "frame_profiles_of E frame roles =
     attempt (try_map (role_support frame) roles) (\<lambda>role_supports.
     attempt (try_fold count_population
         (map (\<lambda>t. the (fw_profile_masks frame t)) (hash_order E (dom (fw_profile_masks frame))))
         (replicate (2 ^ length roles) 0)) (\<lambda>populations.
     attempt (superset_sums (length roles) populations) (\<lambda>support_sums.
     attempt (profiles_and_isopleths roles support_sums (enumerate 0 populations) ([], []))
       (\<lambda>(profiles, isopleths).
     attempt (try_fold (\<lambda>p n. checked_add n (prof_things p) ''profile population'') profiles 0)
       (\<lambda>population_total.
     attempt (guard (population_total = stat_endpoint_things (fw_stats frame))
       (Invariant ''profile population does not equal endpoint Things'')) (\<lambda>_.
     Inr (role_supports, profiles,
       sort_key (\<lambda>i. (count_ones (iso_mask i), - uint (iso_support i), iso_mask i)) isopleths)))))))"

definition finish_frame ::
    "'w terrain_env \<Rightarrow> terrain_scope \<Rightarrow> frame_work \<Rightarrow> terrain_projection \<Rightarrow> thing list list \<Rightarrow> u64
       \<Rightarrow> 'w terrain_execution \<Rightarrow> 'w \<Rightarrow> (terrain_frame \<times> u64) result \<times> 'w" where
  "finish_frame E scope frame projection signatures allocation_count ex w =
     attempt_st (frame_profiles_of E frame (proj_roles projection), w)
       (\<lambda>(role_supports, profiles, isopleths) w.
     attempt_st (build_relationships E ex frame 0 signatures [] allocation_count w)
       (\<lambda>(relationships, allocation_count) w.
     (Inr (\<lparr>frame_scope = scope, frame_stats = fw_stats frame, frame_role_supports = role_supports,
             frame_profiles = profiles, frame_isopleths = isopleths,
             frame_relationships = relationships\<rparr>, allocation_count), w)))"

section \<open>Aggregation\<close>

fun group_posits ::
    "'w terrain_env \<Rightarrow> nat \<Rightarrow> captured_posit list \<Rightarrow> (appearance_key list \<rightharpoonup> captured_posit list)
       \<Rightarrow> 'w terrain_execution \<Rightarrow> 'w \<Rightarrow> (appearance_key list \<rightharpoonup> captured_posit list) result \<times> 'w" where
  "group_posits E index [] groups ex w = (Inr groups, w)"
| "group_posits E index (p # posits) groups ex w =
     attempt_st (checkpoint E ex index w) (\<lambda>_ w.
     group_posits E (Suc index) posits (groups(set_key (cap_set p) \<mapsto>
       (case groups (set_key (cap_set p)) of None \<Rightarrow> [] | Some ps \<Rightarrow> ps) @ [p])) ex w)"

fun eligible_records ::
    "'w terrain_env \<Rightarrow> chrono \<Rightarrow> time \<Rightarrow> captured_posit list \<Rightarrow> captured_posit list
       \<Rightarrow> 'w terrain_execution \<times> 'w \<Rightarrow> captured_posit list result \<times> ('w terrain_execution \<times> 'w)" where
  "eligible_records E C cutoff [] eligible st = (Inr eligible, st)"
| "eligible_records E C cutoff (r # records) eligible st =
     attempt_st (temporal_comparison E st) (\<lambda>_ st.
     eligible_records E C cutoff records
       (if definitely_at_or_before C (cap_time r) cutoff then eligible @ [r] else eligible) st)"

definition terrain_work :: "'w terrain_env \<Rightarrow> ('w terrain_execution \<times> 'w) work_fn" where
  "terrain_work E work = (case work of
     WorkRow \<Rightarrow> borrowing (check_execution E)
   | WorkComparison \<Rightarrow> temporal_comparison E)"

fun current_records ::
    "'w terrain_env \<Rightarrow> chrono \<Rightarrow> time \<Rightarrow> captured_posit list list \<Rightarrow> captured_posit list
       \<Rightarrow> 'w terrain_execution \<times> 'w \<Rightarrow> captured_posit list result \<times> ('w terrain_execution \<times> 'w)" where
  "current_records E C cutoff [] current st = (Inr current, st)"
| "current_records E C cutoff (records # groups) current st =
     attempt_st (borrowing (check_execution E) st) (\<lambda>_ st.
     attempt_st (eligible_records E C cutoff records [] st) (\<lambda>eligible st.
     attempt_st (retain_maximal C cap_time (terrain_work E) eligible st) (\<lambda>maxima st.
     current_records E C cutoff groups (current @ maxima) st)))"

definition aggregate ::
    "'w terrain_env \<Rightarrow> chrono \<Rightarrow> captured_database \<Rightarrow> time \<Rightarrow> nat \<Rightarrow> nat
       \<Rightarrow> 'w terrain_execution \<times> 'w \<Rightarrow> terrain_report result \<times> ('w terrain_execution \<times> 'w)" where
  "aggregate E C captured cutoff role_limit signature_limit st =
     attempt_st (borrowing (group_posits E 0 (cap_posits captured) Map.empty) st) (\<lambda>groups st.
     attempt_st (usize_count (card (dom groups)) ''active appearance sets'', st) (\<lambda>n st.
     attempt_st (check_count_limit n (lim_active_appearance_sets (ex_limits (fst st)))
       ''active appearance sets'', st) (\<lambda>_ st.
     attempt_st (current_records E C cutoff (map snd (entries groups)) [] st) (\<lambda>current st.
     attempt_st (borrowing (build_frame_work E (cap_posits captured)) st) (\<lambda>history st.
     attempt_st (borrowing (build_frame_work E (sort_key cap_posit current)) st) (\<lambda>current st.
     attempt_st (build_projection history current (cap_role_names captured) role_limit, st)
       (\<lambda>projection st.
     attempt_st (borrowing (assign_profiles E history projection) st) (\<lambda>history st.
     attempt_st (borrowing (assign_profiles E current projection) st) (\<lambda>current st.
     attempt_st (build_catalog history current (cap_role_names captured) signature_limit, st)
       (\<lambda>(catalog, selected) st.
     attempt_st (borrowing (finish_frame E History history projection selected 0) st)
       (\<lambda>(history_frame, allocation_count) st.
     attempt_st (borrowing (finish_frame E Current current projection selected allocation_count) st)
       (\<lambda>(current_frame, allocation_count) st.
     attempt_st (borrowing (check_execution E) st) (\<lambda>_ st.
     (Inr \<lparr>rep_terrain_version = 1, rep_resolved_as_of = terrain_time_token C cutoff,
        rep_database = cap_totals captured, rep_projection = projection,
        rep_relationship_catalog = catalog, rep_history = history_frame,
        rep_current = current_frame\<rparr>, st))))))))))))))"

text \<open>The owner is released when the capture is done, and when it fails.\<close>

definition terrain_with_options ::
    "'w terrain_env \<Rightarrow> chrono \<Rightarrow> 'w terrain_options \<Rightarrow> database \<Rightarrow> 'w \<Rightarrow> (terrain_report result \<times> 'w) option" where
  "terrain_with_options E C options db w =
     (case new_terrain_execution E options w of
        (Inl e, w) \<Rightarrow> Some (Inl e, w)
      | (Inr ex, w) \<Rightarrow>
          let (cutoff, w) = (case opt_as_of options of None \<Rightarrow> time_now E w | Some t \<Rightarrow> (t, w))
          in case check_execution E ex w of
               (Inl e, w) \<Rightarrow> Some (Inl e, w)
             | (Inr _, w) \<Rightarrow>
                 (case acquire_owner E ex w of
                    None \<Rightarrow> None
                  | Some (Inl e, w) \<Rightarrow> Some (Inl e, w)
                  | Some (Inr _, w) \<Rightarrow> Some (
                      let (captured, w) = capture_terrain E ex db w; w = drop_owner E w
                      in attempt_st (captured, w) (\<lambda>captured w.
                         attempt_st (check_execution E ex w) (\<lambda>_ w.
                         let (r, (ex, w)) = aggregate E C captured cutoff
                               (opt_projected_role_limit options)
                               (opt_max_relationship_signatures options) (ex, w)
                         in (r, w))))))"

definition terrain ::
    "'w terrain_env \<Rightarrow> chrono \<Rightarrow> database \<Rightarrow> 'w \<Rightarrow> (terrain_report result \<times> 'w) option" where
  "terrain E C db w = terrain_with_options E C default_terrain_options db w"

end
