(* ===== verification/Terrain_Outcomes.thy ===== *)
theory Terrain_Outcomes
  imports Terrain Database_Operations
begin

text \<open>
  What a terrain computation may end with: the value it promises, or an interruption, which is a
  cancellation, the end of its time, or a limit.  The rules below take a computation apart at its
  question marks, so that what it promises and that it raises nothing else are shown together; they
  are applied here to the capture, the grouping and the selection of current posits.
\<close>

section \<open>Outcomes\<close>

fun interruption :: "database_error \<Rightarrow> bool" where
  "interruption Cancelled = True"
| "interruption Timeout = True"
| "interruption (ResourceLimit resource limit) = True"
| "interruption e = False"

definition outcome :: "('a \<Rightarrow> bool) \<Rightarrow> 'a result \<Rightarrow> bool" where
  "outcome Q r = (case r of Inl e \<Rightarrow> interruption e | Inr a \<Rightarrow> Q a)"

lemma outcome_simps [simp]: "outcome Q (Inl e) = interruption e" "outcome Q (Inr a) = Q a"
  by (simp_all add: outcome_def)

lemma outcome_mono: "outcome P r \<Longrightarrow> (\<And>a. P a \<Longrightarrow> Q a) \<Longrightarrow> outcome Q r"
  by (cases r) simp_all

lemma outcome_attempt:
  "outcome P r \<Longrightarrow> (\<And>a. P a \<Longrightarrow> outcome Q (f a)) \<Longrightarrow> outcome Q (attempt r f)"
  by (cases r) simp_all

lemma outcome_attempt_st:
  "outcome P (fst r) \<Longrightarrow> (\<And>a s. r = (Inr a, s) \<Longrightarrow> P a \<Longrightarrow> outcome Q (fst (f a s))) \<Longrightarrow>
     outcome Q (fst (attempt_st r f))"
  by (cases r; cases "fst r") simp_all

lemma outcome_attempt_pure:
  "outcome P r \<Longrightarrow> (\<And>a. P a \<Longrightarrow> outcome Q (fst (f a w))) \<Longrightarrow> outcome Q (fst (attempt_st (r, w) f))"
  by (cases r) simp_all

lemma outcome_try_fold:
  assumes "\<And>x s. x \<in> set xs \<Longrightarrow> P s \<Longrightarrow> outcome P (f x s)" and "P s"
  shows "outcome P (try_fold f xs s)"
  using assms by (induction xs arbitrary: s) (auto intro!: outcome_attempt [where P = P])

text \<open>A fold whose promise depends on what has been consumed.\<close>

lemma outcome_try_fold_prefix:
  assumes "\<And>ys x zs s. xs = ys @ x # zs \<Longrightarrow> P ys s \<Longrightarrow> outcome (P (ys @ [x])) (f x s)" and "P [] s"
  shows "outcome (P xs) (try_fold f xs s)"
proof -
  have "outcome (P xs) (try_fold f zs s)" if "xs = ys @ zs" and "P ys s" for ys zs s
    using that
  proof (induction zs arbitrary: ys s)
    case (Cons x zs)
    have "outcome (P (ys @ [x])) (f x s)" by (rule assms(1)) (use Cons.prems in auto)
    then show ?case
      using Cons.IH [of "ys @ [x]"] Cons.prems(1) by (auto intro!: outcome_attempt)
  qed simp
  from this [of "[]"] assms(2) show ?thesis by simp
qed

lemma outcome_try_map:
  "(\<And>x. x \<in> set xs \<Longrightarrow> outcome (\<lambda>y. y = g x) (f x)) \<Longrightarrow> outcome (\<lambda>ys. ys = map g xs) (try_map f xs)"
  by (induction xs) (auto intro!: outcome_attempt)

lemma outcome_ok_or: "x = Some a \<Longrightarrow> P a \<Longrightarrow> outcome P (ok_or e x)"
  by simp

named_theorems outcomes \<open>what the operations of an execution may end with\<close>

lemma outcome_check [outcomes]: "outcome (\<lambda>_. True) (fst (check_execution E ex w))"
  by (auto simp: check_execution_def Let_def split: prod.splits option.splits)

lemma outcome_checkpoint [outcomes]: "outcome (\<lambda>_. True) (fst (checkpoint E ex i w))"
  by (simp add: checkpoint_def outcome_check)

lemma outcome_borrowing: "outcome P (fst (f (fst st) (snd st))) \<Longrightarrow> outcome P (fst (borrowing f st))"
  by (cases st; cases "f (fst st) (snd st)") (simp add: borrowing_def)

lemma unat_checked_add [outcomes]: "outcome (\<lambda>c. unat c = unat a + unat b) (checked_add a b resource)"
  by (cases "checked_add_u64 a b") (simp_all add: checked_add_def resource_limit_def unat_checked_add_u64)

lemma unat_checked_mul [outcomes]: "outcome (\<lambda>c. unat c = unat a * unat b) (checked_mul a b resource)"
  by (auto simp: checked_mul_def resource_limit_def unat_word_ariths)

lemma unat_usize_count [outcomes]: "outcome (\<lambda>c. unat c = n) (usize_count n resource)"
  by (auto simp: usize_count_def resource_limit_def)

lemma outcome_check_count_limit [outcomes]: "outcome (\<lambda>_. True) (check_count_limit c l resource)"
  by (simp add: check_count_limit_def resource_limit_def)

lemma outcome_temporal_comparison [outcomes]: "outcome (\<lambda>_. True) (fst (temporal_comparison E st))"
proof (cases st)
  case (Pair ex w)
  have "outcome (\<lambda>_. True) (checked_add (ex_temporal_comparisons ex) 1 ''temporal comparisons'')"
    by (rule outcome_mono [OF unat_checked_add]) simp
  then show ?thesis
    unfolding Pair temporal_comparison_def
    by (auto intro!: outcome_attempt_st outcome_borrowing outcome_check simp: resource_limit_def Let_def)
qed

lemma outcome_work [outcomes]: "outcome (\<lambda>_. True) (fst (terrain_work E work st))"
  by (cases work) (auto simp: terrain_work_def intro!: outcome_borrowing outcomes)

text \<open>Everything that only interrupts may do, the temporal reduction does.\<close>

lemma outcome_observe:
  assumes "\<And>kind w. outcome (\<lambda>_. True) (fst (work kind w))"
  shows "outcome (\<lambda>_. True) (fst (observe C fr t work w))"
  by (auto simp: observe_def Let_def intro!: outcome_attempt_st [OF assms])

lemma outcome_dominates:
  assumes "\<And>kind w. outcome (\<lambda>_. True) (fst (work kind w))"
  shows "outcome (\<lambda>_. True) (fst (dominates C fr t work w))"
  by (auto simp: dominates_def Let_def intro!: outcome_attempt_st [OF assms])

lemma outcome_find_frontier:
  assumes "\<And>kind w. outcome (\<lambda>_. True) (fst (work kind w))"
  shows "outcome (\<lambda>_. True) (fst (find_frontier C tm work i rows fw w))"
proof (induction rows arbitrary: i fw w)
  case (Cons row rows)
  then show ?case
    by (cases fw) (auto intro!: outcome_attempt_st [OF assms] outcome_attempt_st [OF outcome_observe [OF assms]])
next
  case Nil
  show ?case by (cases fw) simp
qed

lemma outcome_keep_maximal:
  assumes work: "\<And>kind w. outcome (\<lambda>_. True) (fst (work kind w))"
  shows "outcome (\<lambda>_. True) (fst (keep_maximal C tm work fw i rows kept w))"
proof (induction rows arbitrary: i kept w)
  case (Cons row rows)
  obtain fr witness where fw: "fw = (fr, witness)" by (cases fw)
  show ?case unfolding fw keep_maximal.simps
    by (intro outcome_attempt_st [OF work] outcome_attempt_st [where P = "\<lambda>_. True"])
      (auto intro!: outcome_attempt_st [OF outcome_dominates [OF work]] Cons.IH [unfolded fw])
next
  case Nil
  show ?case by (cases fw) simp
qed

lemma outcome_retain_maximal:
  assumes C: "calendar C" and work: "\<And>kind w. outcome (\<lambda>_. True) (fst (work kind w))"
  shows "outcome (\<lambda>out. out = filter (maximal_in C tm rows) rows) (fst (retain_maximal C tm work rows w))"
proof -
  have "outcome (\<lambda>_. True) (fst (retain_maximal C tm work rows w))"
    unfolding retain_maximal_def
    by (auto intro!: outcome_attempt_st [OF work] outcome_attempt_st [OF outcome_find_frontier [OF work]]
        outcome_keep_maximal [OF work] split: list.split)
  then show ?thesis
    using calendar.retain_maximal_reference [OF C]
    by (cases "fst (retain_maximal C tm work rows w)") auto
qed

section \<open>Capture\<close>

text \<open>What the standard library says of a hash map: it visits every key once.\<close>

definition hash_order_law :: "'w terrain_env \<Rightarrow> bool" where
  "hash_order_law E \<longleftrightarrow> (\<forall>ts. distinct (hash_order E ts) \<and> set (hash_order E ts) = ts)"

lemma hash_order_lawD: "hash_order_law E \<Longrightarrow> distinct (hash_order E ts)"
    "hash_order_law E \<Longrightarrow> set (hash_order E ts) = ts"
  by (simp_all add: hash_order_law_def)

definition captured :: "posit \<Rightarrow> captured_posit" where
  "captured p = \<lparr>cap_posit = pthing p, cap_set = pset p, cap_time = ptime p\<rparr>"

lemma captured_simps [simp]:
  "cap_posit (captured p) = pthing p" "cap_set (captured p) = pset p" "cap_time (captured p) = ptime p"
  by (simp_all add: captured_def)

lemma outcome_capture_posits:
  assumes "\<forall>(p, s) \<in> set es. moments p \<noteq> None"
  shows "outcome (\<lambda>out. out = acc @ map (\<lambda>(p, s). \<lparr>cap_posit = p, cap_set = s, cap_time = the (moments p)\<rparr>) es)
    (fst (capture_posits E ex moments i es acc w))"
  using assms
proof (induction es arbitrary: i acc w)
  case (Cons e es)
  obtain p s t where e: "e = (p, s)" "moments p = Some t" using Cons.prems by (cases e) auto
  show ?case
    unfolding e(1) capture_posits.simps
    using Cons.prems e(2)
    by (auto intro!: outcome_attempt_st [OF outcome_checkpoint] outcome_mono [OF Cons.IH])
qed simp

lemma names_of_snapshot:
  assumes "roles_are rs k" and "distinct (map role_thing rs)" and "hash_order_law E"
  shows "map_of (rev (map (\<lambda>r. (role_thing r, label r)) (snapshot (hash_order E) k))) t =
    map_option label (role_lookup k t)"
proof -
  have lookup: "role_thing r = u" if "role_lookup k u = Some r" for u r
    using that assms(1) by (auto simp: roles_are_def dest: map_of_SomeD)
  have keys: "map role_thing (snapshot (hash_order E) k) = hash_order E (dom (role_lookup k))"
    unfolding snapshot_def map_map o_def
    by (rule map_idI) (auto simp: hash_order_lawD [OF assms(3)] lookup)
  then have "distinct (map fst (map (\<lambda>r. (role_thing r, label r)) (snapshot (hash_order E) k)))"
    by (simp add: o_def hash_order_lawD [OF assms(3)])
  then have rev: "map_of (rev (map (\<lambda>r. (role_thing r, label r)) (snapshot (hash_order E) k))) =
      map_of (map (\<lambda>r. (role_thing r, label r)) (snapshot (hash_order E) k))"
    by (subst map_of_inject_set) (simp_all add: rev_map [symmetric])
  have "map_of (map (\<lambda>r. (role_thing r, label r)) (snapshot (hash_order E) k)) t =
      map_option label (role_lookup k t)"
  proof (cases "role_lookup k t")
    case None
    then have "t \<notin> role_thing ` set (snapshot (hash_order E) k)"
      using arg_cong [OF keys, of set] by (auto simp: hash_order_lawD [OF assms(3)])
    then show ?thesis by (simp add: map_of_key_None None)
  next
    case (Some r)
    then have "r \<in> set (snapshot (hash_order E) k)"
      by (force simp: snapshot_def hash_order_lawD [OF assms(3)])
    moreover have "distinct (map role_thing (snapshot (hash_order E) k))"
      by (simp add: keys hash_order_lawD [OF assms(3)])
    ultimately show ?thesis using map_of_key_member [of role_thing _ r label] lookup [OF Some] Some by simp
  qed
  then show ?thesis by (simp add: rev)
qed

text \<open>The capture of a database with the given roles and posits.\<close>

definition capture_of :: "role list \<Rightarrow> posit list \<Rightarrow> captured_database \<Rightarrow> bool" where
  "capture_of rs ps cap \<longleftrightarrow>
     set (cap_posits cap) = captured ` set ps \<and> distinct (map cap_posit (cap_posits cap))
     \<and> cap_role_names cap = map_of (map (\<lambda>r. (role_thing r, label r)) rs)
     \<and> unat (tot_posits (cap_totals cap)) = length ps"

lemma distinct_map_sort_key: "distinct (map f (sort_key g xs)) \<longleftrightarrow> distinct (map f xs)"
  by (simp add: distinct_map)

lemma outcome_capture:
  assumes rs: "roles_are rs (role_keeper db)" "distinct (map role_thing rs)"
    and ps: "posits_are ps db" "distinct (map pthing ps)" and E: "hash_order_law E"
  shows "outcome (capture_of rs ps) (fst (capture_terrain E ex db w))"
proof -
  let ?S = "posit_thing_to_appearance_set db" and ?T = "posit_time_lookup db"
  have S: "?S = map_of (map (\<lambda>p. (pthing p, pset p)) ps)" and T: "?T = map_of (map (\<lambda>p. (pthing p, ptime p)) ps)"
    using ps(1) by (simp_all add: posits_are_def)
  have dom: "dom ?S = pthing ` set ps" "dom ?T = pthing ` set ps"
    by (simp_all add: S T dom_map_of_conv_image_fst image_image)
  have card: "card (pthing ` set ps) = length ps"
    using distinct_card [OF ps(2)] by simp
  have len: "keeper_length (posit_keeper db) = length ps"
    using ps(1) by (simp add: posits_are_def)
  let ?row = "\<lambda>(p, s). \<lparr>cap_posit = p, cap_set = s, cap_time = the (?T p)\<rparr>"
  let ?es = "map (\<lambda>p. (p, the (?S p))) (hash_order E (dom ?S))"
  have row: "?row (pthing p, the (?S (pthing p))) = captured p" if "p \<in> set ps" for p
    using that ps(2) by (simp add: S T map_of_key_member captured_def)
  have "set (map ?row ?es) = (\<lambda>p. ?row (pthing p, the (?S (pthing p)))) ` set ps"
    by (simp add: hash_order_lawD [OF E] dom image_image)
  also have "\<dots> = captured ` set ps" by (rule image_cong [OF refl row])
  finally have rows: "set (map ?row ?es) = captured ` set ps" .
  have distinct: "distinct (map cap_posit (map ?row ?es))"
    by (simp add: o_def hash_order_lawD [OF E])
  have names: "map_of (rev (map (\<lambda>r. (role_thing r, label r)) (snapshot (hash_order E) (role_keeper db)))) =
      map_of (map (\<lambda>r. (role_thing r, label r)) rs)"
  proof
    fix t
    have "map_option label (map_of (map (\<lambda>r. (role_thing r, r)) rs) t) =
        map_of (map (\<lambda>r. (role_thing r, label r)) rs) t"
      by (induction rs) auto
    then show "map_of (rev (map (\<lambda>r. (role_thing r, label r)) (snapshot (hash_order E) (role_keeper db)))) t =
        map_of (map (\<lambda>r. (role_thing r, label r)) rs) t"
      using rs(1) by (simp add: names_of_snapshot [OF rs E] roles_are_def)
  qed
  have known: "\<forall>(p, s) \<in> set ?es. ?T p \<noteq> None"
    using dom by (auto simp: hash_order_lawD [OF E] domIff)
  have "outcome (\<lambda>out. set out = captured ` set ps \<and> distinct (map cap_posit out))
      (fst (capture_posits E ex ?T 0 ?es [] w'))" for w'
    by (rule outcome_mono [OF outcome_capture_posits [OF known, of "[]"]])
      (use rows distinct in \<open>simp only: append_Nil\<close>)
  note posits = this [unfolded dom]
  show ?thesis
    unfolding capture_terrain_def Let_def
    by (intro outcome_attempt_pure [OF unat_usize_count] outcome_attempt_st [OF outcome_check])
      (auto simp: len dom card distinct_map_sort_key resource_limit_def capture_of_def names
        intro!: outcome_attempt_st [OF outcome_check] outcome_attempt_st [OF posits])
qed

section \<open>Posits in effect at the cutoff\<close>

abbreviation cap_key :: "captured_posit \<Rightarrow> appearance_key list" where
  "cap_key p \<equiv> set_key (cap_set p)"

definition grouped :: "captured_posit list \<Rightarrow> appearance_key list \<rightharpoonup> captured_posit list" where
  "grouped posits k = (if k \<in> cap_key ` set posits then Some (filter (\<lambda>p. cap_key p = k) posits) else None)"

lemma dom_grouped [simp]: "dom (grouped posits) = cap_key ` set posits"
  by (auto simp: grouped_def split: if_splits)

lemma grouped_snoc:
  "(grouped seen)(cap_key p \<mapsto> (case grouped seen (cap_key p) of None \<Rightarrow> [] | Some ps \<Rightarrow> ps) @ [p]) =
     grouped (seen @ [p])"
  by (rule ext) (auto simp: grouped_def filter_empty_conv image_iff intro!: filter_False [symmetric])

lemma outcome_group_posits:
  "outcome (\<lambda>g. g = grouped (seen @ posits)) (fst (group_posits E i posits (grouped seen) ex w))"
proof (induction posits arbitrary: seen i w)
  case (Cons p posits)
  show ?case
    unfolding group_posits.simps grouped_snoc
    using Cons.IH [of "seen @ [p]"] by (intro outcome_attempt_st [OF outcome_checkpoint]) simp
qed simp

lemma outcome_eligible:
  "outcome (\<lambda>out. out = seen @ filter (\<lambda>r. definitely_at_or_before C (cap_time r) cutoff) records)
     (fst (eligible_records E C cutoff records seen st))"
proof (induction records arbitrary: seen st)
  case (Cons r records)
  show ?case
    unfolding eligible_records.simps
    by (intro outcome_attempt_st [OF outcome_temporal_comparison] outcome_mono [OF Cons.IH]) simp
qed simp

definition current_of :: "chrono \<Rightarrow> time \<Rightarrow> captured_posit list \<Rightarrow> captured_posit list" where
  "current_of C cutoff records =
     (let eligible = filter (\<lambda>r. definitely_at_or_before C (cap_time r) cutoff) records
      in filter (maximal_in C cap_time eligible) eligible)"

lemma outcome_current_records:
  assumes "calendar C"
  shows "outcome (\<lambda>out. out = seen @ concat (map (current_of C cutoff) groups))
    (fst (current_records E C cutoff groups seen st))"
proof (induction groups arbitrary: seen st)
  case (Cons records groups)
  show ?case
    unfolding current_records.simps
    by (intro outcome_attempt_st [OF outcome_borrowing [OF outcome_check]]
        outcome_attempt_st [OF outcome_eligible]
        outcome_attempt_st [OF outcome_retain_maximal [OF assms outcome_work]] outcome_mono [OF Cons.IH])
      (simp add: current_of_def Let_def)
qed simp

text \<open>The posits in effect: those not after the cutoff, without the ones that a later posit of the same
  appearance set replaces.\<close>

definition current_posits :: "chrono \<Rightarrow> time \<Rightarrow> posit set \<Rightarrow> posit set" where
  "current_posits C cutoff ps =
     {p \<in> ps. definitely_at_or_before C (ptime p) cutoff \<and>
        \<not> (\<exists>q \<in> ps. set_key (pset q) = set_key (pset p) \<and> definitely_at_or_before C (ptime q) cutoff
          \<and> definitely_before C (ptime p) (ptime q))}"

lemma distinct_concat_by_key:
  assumes "distinct ks" and "\<And>k. k \<in> set ks \<Longrightarrow> distinct (map h (f k))"
    and "\<And>k x. k \<in> set ks \<Longrightarrow> x \<in> set (f k) \<Longrightarrow> key (h x) = k"
  shows "distinct (map h (concat (map f ks)))"
  using assms
proof (induction ks)
  case (Cons k ks)
  have "h x \<noteq> h y" if "x \<in> set (f k)" "l \<in> set ks" "y \<in> set (f l)" for x l y
  proof
    assume "h x = h y"
    then have "k = l" using Cons.prems(3) [of k x] Cons.prems(3) [of l y] that by simp
    then show False using that(2) Cons.prems(1) by simp
  qed
  then have "set (map h (f k)) \<inter> set (map h (concat (map f ks))) = {}" by fastforce
  with Cons show ?case by simp
qed simp

text \<open>A list of records that stands for a set of posits.\<close>

definition records_of :: "posit set \<Rightarrow> captured_posit list \<Rightarrow> bool" where
  "records_of ps records \<longleftrightarrow> set records = captured ` ps \<and> distinct (map cap_posit records)"

lemma set_current_of_group:
  assumes "set records = captured ` ps" and "k \<in> cap_key ` set records"
  shows "set (current_of C cutoff (the (grouped records k))) =
    captured ` {p \<in> current_posits C cutoff ps. set_key (pset p) = k}"
  using assms by (auto simp: current_of_def grouped_def maximal_in_def current_posits_def Let_def)

lemma current_records_of:
  assumes "records_of ps records" and "finite ps"
  shows "records_of (current_posits C cutoff ps) (sort_key cap_posit
    (concat (map (current_of C cutoff) (map snd (entries (grouped records))))))"
proof -
  let ?f = "\<lambda>k. current_of C cutoff (the (grouped records k))"
  let ?ks = "sorted_list_of_set (cap_key ` set records)"
  have records: "set records = captured ` ps" "distinct (map cap_posit records)"
    using assms(1) by (simp_all add: records_of_def)
  have list: "concat (map (current_of C cutoff) (map snd (entries (grouped records)))) = concat (map ?f ?ks)"
    by (simp add: entries_def o_def)
  have "set (concat (map ?f ?ks)) = (\<Union>k \<in> cap_key ` set records.
      captured ` {p \<in> current_posits C cutoff ps. set_key (pset p) = k})"
    using set_current_of_group [OF records(1)] by simp
  also have "\<dots> = captured ` current_posits C cutoff ps"
    by (auto simp: records(1) current_posits_def)
  finally have set: "set (concat (map ?f ?ks)) = captured ` current_posits C cutoff ps" .
  have sub: "set (?f k) \<subseteq> {r \<in> set records. cap_key r = k}" if "k \<in> cap_key ` set records" for k
    using that by (auto simp: current_of_def grouped_def Let_def)
  have inj: "inj_on cap_posit (set records)" using records(2) by (simp add: distinct_map)
  have "distinct (map cap_posit (concat (map ?f ?ks)))"
  proof (rule distinct_concat_by_key)
    fix k assume "k \<in> set ?ks"
    then have k: "k \<in> cap_key ` set records" by simp
    have "distinct (?f k)"
      using records(2) k by (auto simp: current_of_def grouped_def Let_def distinct_map)
    then show "distinct (map cap_posit (?f k))"
      using sub [OF k] by (auto simp: distinct_map intro: inj_on_subset [OF inj])
    fix x assume "x \<in> set (?f k)"
    then show "cap_key (the_inv_into (set records) cap_posit (cap_posit x)) = k"
      using sub [OF k] by (auto simp: the_inv_into_f_f [OF inj])
  qed simp
  with set show ?thesis unfolding list by (simp add: records_of_def distinct_map_sort_key)
qed

end
