(* ===== verification/Terrain_Frames.thy ===== *)
theory Terrain_Frames
  imports Terrain_Outcomes
begin

text \<open>
  What a frame of a set of posits is to say, as cardinalities of sets of things and appearance sets,
  and the proof that the frame at work holds it.
\<close>

section \<open>The reference\<close>

text \<open>The appearance sets of a set of posits; an appearance set is its list of roles and things.\<close>

definition sets_of :: "posit set \<Rightarrow> appearance_key list set" where
  "sets_of ps = (\<lambda>p. set_key (pset p)) ` ps"

definition endpoints_of :: "posit set \<Rightarrow> thing set" where
  "endpoints_of ps = (\<Union>k \<in> sets_of ps. snd ` set k)"

definition roles_in :: "posit set \<Rightarrow> thing set" where
  "roles_in ps = (\<Union>k \<in> sets_of ps. fst ` set k)"

text \<open>The things that have an attribute: those alone in an appearance set, in this role.\<close>

definition attribute_things :: "posit set \<Rightarrow> thing \<Rightarrow> thing set" where
  "attribute_things ps r = {t. [(r, t)] \<in> sets_of ps}"

definition sets_with :: "posit set \<Rightarrow> thing list \<Rightarrow> appearance_key list set" where
  "sets_with ps s = {k \<in> sets_of ps. map fst k = s}"

definition posits_with :: "posit set \<Rightarrow> thing list \<Rightarrow> posit set" where
  "posits_with ps s = {p \<in> ps. map fst (set_key (pset p)) = s}"

definition wf_posits :: "posit set \<Rightarrow> bool" where
  "wf_posits ps \<longleftrightarrow> finite ps \<and> inj_on pthing ps \<and> (\<forall>k \<in> sets_of ps. canonical_appearances k)"

lemma finite_sets_of [simp]: "finite ps \<Longrightarrow> finite (sets_of ps)"
  by (simp add: sets_of_def)

lemma finite_endpoints_of [simp]: "finite ps \<Longrightarrow> finite (endpoints_of ps)"
  by (simp add: endpoints_of_def)

lemma endpoints_not_genesis: "wf_posits ps \<Longrightarrow> 0 \<notin> endpoints_of ps"
  by (force simp: wf_posits_def endpoints_of_def canonical_appearances_def)

lemma roles_not_genesis: "wf_posits ps \<Longrightarrow> 0 \<notin> roles_in ps"
  by (force simp: wf_posits_def roles_in_def canonical_appearances_def)

lemma attribute_things_sub: "attribute_things ps r \<subseteq> endpoints_of ps"
  by (force simp: attribute_things_def endpoints_of_def)

lemma unat_treemap_count: "0 \<notin> ts \<Longrightarrow> unat (treemap_count ts) = card ts"
proof -
  assume "0 \<notin> ts"
  then have "ts \<subset> UNIV" by auto
  then have "card ts < card (UNIV :: thing set)" by (rule psubset_card_mono [rotated]) simp
  then have "card ts < 2 ^ 64" by (simp add: card_word)
  then show ?thesis by (simp add: treemap_count_def)
qed

section \<open>Active appearance sets\<close>

definition active_of :: "captured_posit list \<Rightarrow> active_sets \<Rightarrow> bool" where
  "active_of seen active \<longleftrightarrow> (\<forall>k. case active k of
     None \<Rightarrow> k \<notin> cap_key ` set seen
   | Some (s, c) \<Rightarrow> k \<in> cap_key ` set seen \<and> set_key s = k
       \<and> unat c = length (filter (\<lambda>r. cap_key r = k) seen))"

lemma active_of_empty: "active_of [] Map.empty"
  by (simp add: active_of_def)

lemma active_of_None: "active_of seen active \<Longrightarrow> active k = None \<Longrightarrow> k \<notin> cap_key ` set seen"
  by (auto simp: active_of_def dest!: spec [where x = k])

lemma active_of_Some:
  assumes "active_of seen active" and "active k = Some (s, c)"
  shows "k \<in> cap_key ` set seen" and "set_key s = k"
    and "unat c = length (filter (\<lambda>r. cap_key r = k) seen)"
  using spec [OF assms(1) [unfolded active_of_def], of k] assms(2) by simp_all

lemma dom_active: "active_of seen active \<Longrightarrow> dom active = cap_key ` set seen"
proof (rule set_eqI)
  fix k assume "active_of seen active"
  then show "k \<in> dom active \<longleftrightarrow> k \<in> cap_key ` set seen"
    using active_of_None active_of_Some(1) by (cases "active k") (auto simp: domIff)
qed

lemma active_of_snoc:
  assumes "active_of seen active"
    and "(case active (cap_key r) of None \<Rightarrow> (cap_set r, 0) | Some e \<Rightarrow> e) = (s, c)"
    and "unat c' = unat c + 1"
  shows "active_of (seen @ [r]) (active(cap_key r \<mapsto> (s, c')))"
proof -
  have key: "set_key s = cap_key r \<and> unat c = length (filter (\<lambda>q. cap_key q = cap_key r) seen)"
  proof (cases "active (cap_key r)")
    case None
    then have "filter (\<lambda>q. cap_key q = cap_key r) seen = []"
      using active_of_None [OF assms(1) None] by (auto simp: filter_empty_conv image_iff)
    with None assms(2) show ?thesis by auto
  next
    case (Some e)
    with assms(2) active_of_Some [OF assms(1)] show ?thesis by auto
  qed
  show ?thesis
    unfolding active_of_def
  proof
    fix k
    show "case (active(cap_key r \<mapsto> (s, c'))) k of None \<Rightarrow> k \<notin> cap_key ` set (seen @ [r])
        | Some (s, c) \<Rightarrow> k \<in> cap_key ` set (seen @ [r]) \<and> set_key s = k
            \<and> unat c = length (filter (\<lambda>q. cap_key q = k) (seen @ [r]))"
      using key assms(3) spec [OF assms(1) [unfolded active_of_def], of k]
      by (cases "k = cap_key r") (auto split: option.splits)
  qed
qed

lemma outcome_count_active:
  "active_of seen active \<Longrightarrow>
     outcome (active_of (seen @ records)) (fst (count_active_sets E ex i records active w))"
proof (induction records arbitrary: seen active i w)
  case (Cons r records)
  obtain s c where e: "(case active (cap_key r) of None \<Rightarrow> (cap_set r, 0) | Some e \<Rightarrow> e) = (s, c)"
    by fastforce
  show ?case
    unfolding count_active_sets.simps e Let_def prod.case
  proof (intro outcome_attempt_st [OF outcome_checkpoint] outcome_attempt_pure [OF unat_checked_add])
    fix c' :: u64 and w
    assume "unat c' = unat c + unat (1 :: u64)"
    then have "active_of (seen @ [r]) (active(cap_key r \<mapsto> (s, c')))"
      by (intro active_of_snoc [OF Cons.prems e]) simp
    from Cons.IH [OF this, of "Suc i" w] show "outcome (active_of (seen @ r # records))
        (fst (count_active_sets E ex (Suc i) records (active(cap_key r \<mapsto> (s, c'))) w))"
      by (simp only: append_assoc append.simps)
  qed
qed simp

section \<open>The walk over the active sets\<close>

type_synonym active_entry = "appearance_set \<times> u64"

definition seen_attribute :: "active_entry list \<Rightarrow> thing \<Rightarrow> thing set" where
  "seen_attribute seen r = {t. [(r, t)] \<in> (\<lambda>e. set_key (fst e)) ` set seen}"

definition seen_with :: "active_entry list \<Rightarrow> thing list \<Rightarrow> active_entry list" where
  "seen_with seen s = filter (\<lambda>e. set_roles (fst e) = s) seen"

definition progress_of :: "active_entry list \<Rightarrow> frame_progress \<Rightarrow> bool" where
  "progress_of seen fp \<longleftrightarrow>
     fp_endpoints fp = (\<Union>e \<in> set seen. app_thing ` set (fst e))
     \<and> fp_roles fp = (\<Union>e \<in> set seen. set (set_roles (fst e)))
     \<and> fp_attributes fp = (\<lambda>r. if seen_attribute seen r = {} then None else Some (seen_attribute seen r))
     \<and> (\<forall>s. case fp_signatures fp s of
          None \<Rightarrow> length s < 2 \<or> seen_with seen s = []
        | Some sw \<Rightarrow> 2 \<le> length s \<and> seen_with seen s \<noteq> [] \<and> sw_sets sw = map fst (seen_with seen s)
            \<and> unat (sw_posits sw) = sum_list (map (\<lambda>e. unat (snd e)) (seen_with seen s)))
     \<and> unat (fp_incidences fp) = sum_list (map (\<lambda>e. length (fst e) * unat (snd e)) seen)"

lemma seen_attribute_snoc:
  "seen_attribute (seen @ [(s, c)]) r =
     (if length s = 1 \<and> role_thing (app_role (hd s)) = r
      then insert (app_thing (hd s)) (seen_attribute seen r) else seen_attribute seen r)"
  by (cases s; cases "tl s") (auto simp: seen_attribute_def set_key_def akey_def)

lemma seen_with_snoc:
  "seen_with (seen @ [(s, c)]) s' =
     (if s' = set_roles s then seen_with seen s' @ [(s, c)] else seen_with seen s')"
  by (auto simp: seen_with_def)

lemma length_set_roles [simp]: "length (set_roles s) = length s"
  by (simp add: set_roles_def)

lemma progress_of_snoc:
  assumes "progress_of seen fp"
    and "fp_endpoints fp' = fp_endpoints fp \<union> app_thing ` set s"
    and "fp_roles fp' = fp_roles fp \<union> set (set_roles s)"
    and "unat (fp_incidences fp') = unat (fp_incidences fp) + length s * unat c"
    and "fp_attributes fp' = (if length s = 1
      then (fp_attributes fp)(role_thing (app_role (hd s)) \<mapsto> insert (app_thing (hd s))
        (case fp_attributes fp (role_thing (app_role (hd s))) of None \<Rightarrow> {} | Some ts \<Rightarrow> ts))
      else fp_attributes fp)"
    and "2 \<le> length s \<Longrightarrow> unat posits = unat (sw_posits work) + unat c"
    and "work = (case fp_signatures fp (set_roles s) of
           None \<Rightarrow> \<lparr>sw_posits = 0, sw_sets = []\<rparr> | Some sw \<Rightarrow> sw)"
    and "fp_signatures fp' = (if 2 \<le> length s
      then (fp_signatures fp)(set_roles s \<mapsto> \<lparr>sw_posits = posits, sw_sets = sw_sets work @ [s]\<rparr>)
      else fp_signatures fp)"
  shows "progress_of (seen @ [(s, c)]) fp'"
proof -
  have attributes: "fp_attributes fp' = (\<lambda>r. if seen_attribute (seen @ [(s, c)]) r = {} then None
      else Some (seen_attribute (seen @ [(s, c)]) r))"
    using assms(1) unfolding assms(5)
    by (intro ext) (auto simp: progress_of_def seen_attribute_snoc)
  have old: "case fp_signatures fp s' of None \<Rightarrow> length s' < 2 \<or> seen_with seen s' = []
      | Some sw \<Rightarrow> 2 \<le> length s' \<and> seen_with seen s' \<noteq> [] \<and> sw_sets sw = map fst (seen_with seen s')
        \<and> unat (sw_posits sw) = sum_list (map (\<lambda>e. unat (snd e)) (seen_with seen s'))" for s'
    using assms(1) by (simp add: progress_of_def)
  have "case fp_signatures fp' s' of None \<Rightarrow> length s' < 2 \<or> seen_with (seen @ [(s, c)]) s' = []
      | Some sw \<Rightarrow> 2 \<le> length s' \<and> seen_with (seen @ [(s, c)]) s' \<noteq> []
        \<and> sw_sets sw = map fst (seen_with (seen @ [(s, c)]) s')
        \<and> unat (sw_posits sw) = sum_list (map (\<lambda>e. unat (snd e)) (seen_with (seen @ [(s, c)]) s'))" for s'
  proof (cases "2 \<le> length s \<and> s' = set_roles s")
    case True
    then show ?thesis
      using old [of s'] assms(6) unfolding assms(7,8)
      by (cases "fp_signatures fp (set_roles s)") (auto simp: seen_with_snoc)
  next
    case False
    then show ?thesis
      using old [of s'] unfolding assms(8) by (auto simp: seen_with_snoc split: option.splits)
  qed
  then show ?thesis
    using assms(1-4) attributes by (auto simp: progress_of_def)
qed

lemma outcome_frame_set:
  assumes "progress_of seen fp"
  shows "outcome (progress_of (seen @ [(s, c)])) (frame_set ex s c fp)"
proof -
  let ?work = "case fp_signatures fp (set_roles s) of
      None \<Rightarrow> \<lparr>sw_posits = 0, sw_sets = []\<rparr> | Some sw \<Rightarrow> sw"
  have rest: "outcome (progress_of (seen @ [(s, c)]))
      (attempt (checked_mul arity c ''frame incidences'') (\<lambda>n.
       attempt (checked_add (fp_incidences fp) n ''frame incidences'') (\<lambda>incidences. f incidences)))"
    if arity: "unat arity = length s"
      and f: "\<And>incidences. unat incidences = unat (fp_incidences fp) + length s * unat c \<Longrightarrow>
        outcome (progress_of (seen @ [(s, c)])) (f incidences)"
    for arity f
    by (intro outcome_attempt [OF unat_checked_mul] outcome_attempt [OF unat_checked_add] f)
      (simp add: arity)
  show ?thesis
    unfolding frame_set_def Let_def
    apply (rule outcome_attempt [OF unat_usize_count])
    apply (subst if_split, intro conjI impI)
     apply (simp add: resource_limit_def)
    apply (rule rest, assumption)
    apply (rule outcome_attempt [OF outcome_check_count_limit])
    apply (auto intro!: progress_of_snoc [OF assms, where work = ?work] outcome_attempt [OF unat_checked_add])
    done
qed

lemma outcome_frame_sets:
  "progress_of seen fp \<Longrightarrow>
     outcome (progress_of (seen @ active)) (fst (frame_sets E ex i active fp w))"
proof (induction active arbitrary: seen i fp w)
  case (Cons e active)
  obtain s c where e: "e = (s, c)" by (cases e)
  show ?case
    unfolding e frame_sets.simps
  proof (intro outcome_attempt_st [OF outcome_checkpoint] outcome_attempt_pure [OF outcome_frame_set [OF Cons.prems]])
    fix fp w assume "progress_of (seen @ [(s, c)]) fp"
    from Cons.IH [OF this, of "Suc i" w] show "outcome (progress_of (seen @ (s, c) # active))
        (fst (frame_sets E ex (Suc i) active fp w))"
      by (simp only: append_assoc append.simps)
  qed
qed simp

section \<open>The frame of a set of posits\<close>

definition signatures_of :: "posit set \<Rightarrow> (thing list \<rightharpoonup> signature_work) \<Rightarrow> bool" where
  "signatures_of ps sigs \<longleftrightarrow> (\<forall>s. case sigs s of
     None \<Rightarrow> length s < 2 \<or> sets_with ps s = {}
   | Some sw \<Rightarrow> 2 \<le> length s \<and> sets_with ps s \<noteq> {}
       \<and> set (map set_key (sw_sets sw)) = sets_with ps s \<and> distinct (map set_key (sw_sets sw))
       \<and> unat (sw_posits sw) = card (posits_with ps s))"

definition stats_of :: "posit set \<Rightarrow> terrain_frame_stats \<Rightarrow> bool" where
  "stats_of ps stats \<longleftrightarrow>
     unat (stat_endpoint_things stats) = card (endpoints_of ps)
     \<and> unat (stat_roles stats) = card (roles_in ps)
     \<and> unat (stat_appearance_sets stats) = card (sets_of ps)
     \<and> unat (stat_posits stats) = card ps
     \<and> unat (stat_incidences stats) = (\<Sum>p \<in> ps. length (pset p))"

definition frame_of :: "posit set \<Rightarrow> frame_work \<Rightarrow> bool" where
  "frame_of ps fw \<longleftrightarrow> stats_of ps (fw_stats fw) \<and> fw_endpoint_things fw = endpoints_of ps
     \<and> fw_attribute_things fw =
         (\<lambda>r. if attribute_things ps r = {} then None else Some (attribute_things ps r))
     \<and> signatures_of ps (fw_signatures fw)"

lemma sum_by_key:
  fixes f :: "'k \<Rightarrow> nat"
  assumes "finite A"
  shows "(\<Sum>k \<in> g ` A. f k * card {a \<in> A. g a = k}) = (\<Sum>a \<in> A. f (g a))"
proof -
  have "(\<Sum>k \<in> g ` A. f k * card {a \<in> A. g a = k}) = (\<Sum>k \<in> g ` A. \<Sum>a \<in> {a \<in> A. g a = k}. f (g a))"
    by (intro sum.cong) simp_all
  also have "\<dots> = (\<Sum>a \<in> A. f (g a))" using sum.image_gen [OF assms, of "\<lambda>a. f (g a)" g] by simp
  finally show ?thesis .
qed

text \<open>The entries the walk goes over, for the records of a set of posits.\<close>

lemma length_filter_records:
  assumes records: "records_of ps records" and wf: "wf_posits ps"
  shows "length (filter (\<lambda>r. P (cap_key r)) records) = card {p \<in> ps. P (set_key (pset p))}"
proof -
  have distinct: "distinct records" and set: "set records = captured ` ps"
    using records by (auto simp: records_of_def distinct_map)
  have "inj_on captured {p \<in> ps. P (set_key (pset p))}"
    using wf by (auto simp: wf_posits_def inj_on_def captured_def)
  then have "card {p \<in> ps. P (set_key (pset p))} = card (captured ` {p \<in> ps. P (set_key (pset p))})"
    by (simp add: card_image)
  also have "captured ` {p \<in> ps. P (set_key (pset p))} = set (filter (\<lambda>r. P (cap_key r)) records)"
    by (auto simp: set)
  also have "card \<dots> = length (filter (\<lambda>r. P (cap_key r)) records)"
    by (rule distinct_card) (simp add: distinct)
  finally show ?thesis by simp
qed

lemma length_records: "records_of ps records \<Longrightarrow> wf_posits ps \<Longrightarrow> length records = card ps"
  using length_filter_records [of ps records "\<lambda>_. True"] by simp

lemma cap_keys_records: "records_of ps records \<Longrightarrow> cap_key ` set records = sets_of ps"
  by (simp add: records_of_def sets_of_def image_image)

definition entries_of :: "posit set \<Rightarrow> active_entry list \<Rightarrow> bool" where
  "entries_of ps es \<longleftrightarrow> map (\<lambda>e. set_key (fst e)) es = sorted_list_of_set (sets_of ps)
     \<and> (\<forall>e \<in> set es. unat (snd e) = card {p \<in> ps. set_key (pset p) = set_key (fst e)})"

lemma entries_of_active:
  assumes "active_of records active" and records: "records_of ps records" and wf: "wf_posits ps"
  shows "entries_of ps (map snd (entries active))"
proof -
  let ?ks = "sorted_list_of_set (sets_of ps)"
  have dom: "dom active = sets_of ps"
    using dom_active [OF assms(1)] cap_keys_records [OF records] by simp
  have entry: "set_key (fst (the (active k))) = k \<and>
      unat (snd (the (active k))) = card {p \<in> ps. set_key (pset p) = k}" if "k \<in> sets_of ps" for k
  proof -
    have "k \<in> dom active" using that dom by simp
    then obtain s c where k: "active k = Some (s, c)" by (auto simp: dom_def)
    show ?thesis
      using active_of_Some [OF assms(1) k] length_filter_records [OF records wf, of "\<lambda>q. q = k"] by (simp add: k)
  qed
  have fin: "finite (sets_of ps)" using wf by (simp add: wf_posits_def)
  have "map (\<lambda>k. set_key (fst (the (active k)))) ?ks = ?ks"
    by (rule map_idI) (use entry fin in simp)
  then show ?thesis
    using entry fin by (simp add: entries_of_def entries_def dom o_def)
qed

lemma set_key_projections [simp]:
  "map fst (set_key s) = set_roles s" "snd ` set (set_key s) = app_thing ` set s"
  "fst ` set (set_key s) = set (set_roles s)" "length (set_key s) = length s"
  by (simp_all add: set_key_def set_roles_def akey_def image_image o_def)

lemma entries_of_signature:
  assumes "entries_of ps es" and wf: "wf_posits ps"
  shows "map (\<lambda>e. set_key (fst e)) (seen_with es s) = filter (\<lambda>k. map fst k = s) (sorted_list_of_set (sets_of ps))"
    and "sum_list (map (\<lambda>e. unat (snd e)) (seen_with es s)) = card (posits_with ps s)"
proof -
  let ?ks = "sorted_list_of_set (sets_of ps)"
  have fin: "finite ps" using wf by (simp add: wf_posits_def)
  show keys: "map (\<lambda>e. set_key (fst e)) (seen_with es s) = filter (\<lambda>k. map fst k = s) ?ks"
    unfolding conjunct1 [OF assms(1) [unfolded entries_of_def], symmetric]
    by (simp add: seen_with_def filter_map o_def)
  have "sum_list (map (\<lambda>e. unat (snd e)) (seen_with es s)) =
      sum_list (map (\<lambda>k. card {p \<in> ps. set_key (pset p) = k}) (map (\<lambda>e. set_key (fst e)) (seen_with es s)))"
    unfolding map_map by (rule arg_cong [where f = sum_list], rule map_cong)
      (use assms(1) in \<open>auto simp: entries_of_def seen_with_def\<close>)
  also have "\<dots> = (\<Sum>k \<in> sets_with ps s. card {p \<in> ps. set_key (pset p) = k})"
    unfolding keys by (subst sum_list_distinct_conv_sum_set) (simp_all add: fin sets_with_def)
  also have "\<dots> = (\<Sum>k \<in> (\<lambda>p. set_key (pset p)) ` posits_with ps s.
      1 * card {p \<in> posits_with ps s. set_key (pset p) = k})"
    by (rule sum.cong)
      (auto simp: sets_with_def sets_of_def posits_with_def simp del: set_key_projections intro!: arg_cong [where f = card])
  also have "\<dots> = card (posits_with ps s)"
    using sum_by_key [of "posits_with ps s" "\<lambda>_. 1" "\<lambda>p. set_key (pset p)"] fin
    by (simp add: posits_with_def)
  finally show "sum_list (map (\<lambda>e. unat (snd e)) (seen_with es s)) = card (posits_with ps s)" .
qed

lemma entries_of_incidences:
  assumes "entries_of ps es" and wf: "wf_posits ps"
  shows "sum_list (map (\<lambda>e. length (fst e) * unat (snd e)) es) = (\<Sum>p \<in> ps. length (pset p))"
proof -
  have fin: "finite ps" using wf by (simp add: wf_posits_def)
  have "sum_list (map (\<lambda>e. length (fst e) * unat (snd e)) es) =
      sum_list (map (\<lambda>k. length k * card {p \<in> ps. set_key (pset p) = k}) (map (\<lambda>e. set_key (fst e)) es))"
    unfolding map_map by (rule arg_cong [where f = sum_list], rule map_cong)
      (use assms(1) in \<open>auto simp: entries_of_def\<close>)
  also have "\<dots> = (\<Sum>k \<in> sets_of ps. length k * card {p \<in> ps. set_key (pset p) = k})"
    using assms(1) fin by (simp add: entries_of_def sum_list_distinct_conv_sum_set)
  also have "\<dots> = (\<Sum>p \<in> ps. length (pset p))"
    unfolding sets_of_def using sum_by_key [OF fin, of length "\<lambda>p. set_key (pset p)"] by simp
  finally show ?thesis .
qed

lemma frame_of_progress:
  assumes es: "entries_of ps es" and wf: "wf_posits ps" and progress: "progress_of es fp"
  shows "fp_endpoints fp = endpoints_of ps" and "fp_roles fp = roles_in ps"
    and "fp_attributes fp = (\<lambda>r. if attribute_things ps r = {} then None else Some (attribute_things ps r))"
    and "signatures_of ps (fp_signatures fp)"
    and "unat (fp_incidences fp) = (\<Sum>p \<in> ps. length (pset p))"
proof -
  have fin: "finite ps" using wf by (simp add: wf_posits_def)
  have keys: "(\<lambda>e. set_key (fst e)) ` set es = sets_of ps"
    using arg_cong [OF conjunct1 [OF es [unfolded entries_of_def]], of set] fin by simp
  show "fp_endpoints fp = endpoints_of ps" "fp_roles fp = roles_in ps"
    using progress by (simp_all add: progress_of_def endpoints_of_def roles_in_def flip: keys)
  have attributes: "seen_attribute es = attribute_things ps"
    by (intro ext) (simp add: seen_attribute_def attribute_things_def keys)
  show "fp_attributes fp = (\<lambda>r. if attribute_things ps r = {} then None else Some (attribute_things ps r))"
    using progress unfolding progress_of_def attributes by blast
  show "unat (fp_incidences fp) = (\<Sum>p \<in> ps. length (pset p))"
    using progress entries_of_incidences [OF es wf] by (simp add: progress_of_def)
  have sw: "set (map set_key (map fst (seen_with es s))) = sets_with ps s"
      "distinct (map set_key (map fst (seen_with es s)))" for s
    unfolding map_map o_def entries_of_signature(1) [OF es wf]
    by (auto simp: fin sets_with_def)
  have none: "seen_with es s = [] \<longleftrightarrow> sets_with ps s = {}" for s
    using sw(1) [of s] by auto
  show "signatures_of ps (fp_signatures fp)"
    unfolding signatures_of_def
  proof
    fix s
    have "case fp_signatures fp s of None \<Rightarrow> length s < 2 \<or> seen_with es s = []
        | Some sw \<Rightarrow> 2 \<le> length s \<and> seen_with es s \<noteq> [] \<and> sw_sets sw = map fst (seen_with es s)
            \<and> unat (sw_posits sw) = sum_list (map (\<lambda>e. unat (snd e)) (seen_with es s))"
      using progress by (simp add: progress_of_def)
    then show "case fp_signatures fp s of None \<Rightarrow> length s < 2 \<or> sets_with ps s = {}
        | Some sw \<Rightarrow> 2 \<le> length s \<and> sets_with ps s \<noteq> {} \<and> set (map set_key (sw_sets sw)) = sets_with ps s
            \<and> distinct (map set_key (sw_sets sw)) \<and> unat (sw_posits sw) = card (posits_with ps s)"
      using sw [of s] none [of s] entries_of_signature(2) [OF es wf, of s] by (simp add: image_image split: option.splits)
  qed
qed

lemma outcome_build_frame_work:
  assumes records: "records_of ps records" and wf: "wf_posits ps"
  shows "outcome (\<lambda>fw. frame_of ps fw \<and> fw_profile_masks fw = Map.empty)
    (fst (build_frame_work E records ex w))"
proof -
  have start: "progress_of [] \<lparr>fp_endpoints = {}, fp_roles = {}, fp_attributes = Map.empty,
      fp_signatures = Map.empty, fp_incidences = 0\<rparr>"
    by (auto simp: progress_of_def seen_attribute_def seen_with_def)
  have count: "outcome (\<lambda>active. entries_of ps (map snd (entries active)) \<and> dom active = sets_of ps)
      (fst (count_active_sets E ex 0 records Map.empty w))" for w
    using outcome_mono [OF outcome_count_active [OF active_of_empty, of records E ex 0 w]]
      entries_of_active [OF _ records wf] dom_active cap_keys_records [OF records] by auto
  show ?thesis
    unfolding build_frame_work_def
    by (rule outcome_attempt_st [OF count], elim conjE, intro outcome_attempt_pure [OF unat_usize_count]
        outcome_attempt_pure [OF outcome_check_count_limit] outcome_attempt_st [OF outcome_frame_sets [OF start]])
      (simp add: frame_of_def stats_of_def frame_of_progress [OF _ wf] length_records [OF records wf]
        unat_treemap_count endpoints_not_genesis [OF wf] roles_not_genesis [OF wf])
qed

end
