(* ===== verification/Terrain_Profiles.thy ===== *)
theory Terrain_Profiles
  imports Terrain_Frames
begin

text \<open>
  The projection of a report, the profile of a thing as the set of projected attributes it has, and
  the populations of a frame: how many things have exactly, and how many have at least, each
  combination.  The supports are computed by one pass per bit over the populations; the reference
  counts the things whose profile contains the combination.
\<close>

section \<open>Identities\<close>

lemma parse_thing_role_id [simp]: "parse_thing (role_id r) = Some r"
proof -
  have "parse_int 0 (2 ^ 64 - 1) (show_int (int (unat r))) = Some (int (unat r))"
    by (rule parse_int_show_int) (use uint_bounded [of r] in simp_all)
  then show ?thesis by (simp add: parse_thing_def role_id_def show_int_def)
qed

lemma role_id_inject [simp]: "role_id r = role_id r' \<longleftrightarrow> r = r'"
  using parse_thing_role_id [of r] parse_thing_role_id [of r'] by (metis option.inject)

section \<open>The projection\<close>

definition candidates :: "frame_work \<Rightarrow> frame_work \<Rightarrow> (thing \<rightharpoonup> string) \<Rightarrow> thing list" where
  "candidates history current names = sort_key
     (\<lambda>r. (- uint (support current r), - uint (support history r), names r, r))
     (sorted_list_of_set (dom (fw_attribute_things history) \<union> dom (fw_attribute_things current)))"

definition projected_role ::
    "frame_work \<Rightarrow> frame_work \<Rightarrow> (thing \<rightharpoonup> string) \<Rightarrow> nat \<times> thing \<Rightarrow> terrain_projected_role" where
  "projected_role history current names = (\<lambda>(i, r).
     \<lparr>pr_id = role_id r, pr_name = the (names r), pr_bit = word_of_nat i,
      pr_history_support = support history r, pr_current_support = support current r\<rparr>)"

definition projection_of ::
    "frame_work \<Rightarrow> frame_work \<Rightarrow> (thing \<rightharpoonup> string) \<Rightarrow> nat \<Rightarrow> terrain_projection \<Rightarrow> bool" where
  "projection_of history current names limit projection \<longleftrightarrow>
     (let rs = candidates history current names
      in proj_roles projection = map (projected_role history current names) (enumerate 0 (take limit rs))
         \<and> (proj_complete projection \<longleftrightarrow> length rs \<le> limit)
         \<and> unat (proj_total_attribute_roles projection) = length rs)"

lemma outcome_build_projection:
  assumes "finite (dom (fw_attribute_things history) \<union> dom (fw_attribute_things current))"
    and "dom (fw_attribute_things history) \<union> dom (fw_attribute_things current) \<subseteq> dom names"
    and "limit \<le> max_projected_role_limit"
  shows "outcome (projection_of history current names limit)
    (build_projection history current names limit)"
proof -
  let ?rs = "candidates history current names"
  have names: "names r = Some (the (names r))" if "r \<in> set ?rs" for r
    using that assms(1,2) by (auto simp: candidates_def)
  let ?f = "\<lambda>(bit, r). attempt (role_name_of names r) (\<lambda>name.
     if bit < 256
     then Inr \<lparr>pr_id = role_id r, pr_name = name, pr_bit = word_of_nat bit,
        pr_history_support = support history r, pr_current_support = support current r\<rparr>
     else Inl (resource_limit ''projected attribute Roles'' (word_of_nat max_projected_role_limit)))"
  have "outcome (\<lambda>p. p = projected_role history current names e) (?f e)"
    if "e \<in> set (enumerate 0 (take limit ?rs))" for e
  proof -
    obtain i r where e: "e = (i, r)" by (cases e)
    with that have "i < 8" "r \<in> set ?rs"
      using assms(3) by (auto simp: in_set_enumerate_eq max_projected_role_limit_def dest: in_set_takeD)
    then show ?thesis using names [of r]
      by (cases "names r") (simp_all add: e role_name_of_def projected_role_def)
  qed
  then have "outcome (\<lambda>roles. roles = map (projected_role history current names) (enumerate 0 (take limit ?rs)))
      (try_map ?f (enumerate 0 (take limit ?rs)))"
    by (rule outcome_try_map)
  then show ?thesis
    unfolding build_projection_def Let_def candidates_def [symmetric]
    by (intro outcome_attempt [OF unat_usize_count] outcome_attempt)
      (auto simp: projection_of_def Let_def)
qed

section \<open>Profiles of things\<close>

definition mask_of :: "posit set \<Rightarrow> thing list \<Rightarrow> thing \<Rightarrow> u16" where
  "mask_of ps roles t = horner_sum of_bool 2 (map (\<lambda>r. t \<in> attribute_things ps r) roles)"

lemma bit_mask_of:
  "length roles \<le> 8 \<Longrightarrow>
     bit (mask_of ps roles t) i \<longleftrightarrow> i < length roles \<and> t \<in> attribute_things ps (roles ! i)"
  by (auto simp: mask_of_def bit_horner_sum_bit_word_iff)

lemma bit_profile_bit: "i < 8 \<Longrightarrow> bit (profile_bit (word_of_nat i)) j \<longleftrightarrow> j = i"
  by (auto simp: profile_bit_def unat_of_nat bit_exp_iff possible_bit_def)

lemma outcome_profile_mask:
  assumes attributes: "fw_attribute_things frame =
      (\<lambda>r. if attribute_things ps r = {} then None else Some (attribute_things ps r))"
    and len: "length roles \<le> 8"
  shows "outcome (\<lambda>m. m = mask_of ps roles t)
    (profile_mask frame (map (projected_role history current names) (enumerate 0 roles)) t)"
proof -
  let ?prs = "map (projected_role history current names) (enumerate 0 roles)"
  let ?P = "\<lambda>ys m. \<forall>i. bit m i \<longleftrightarrow> i < length ys \<and> t \<in> attribute_things ps (roles ! i)"
  have "outcome (?P ?prs) (profile_mask frame ?prs t)"
    unfolding profile_mask_def
  proof (rule outcome_try_fold_prefix)
    fix ys x zs and m :: u16
    assume split: "?prs = ys @ x # zs" and m: "?P ys m"
    have k: "length ys < length roles" using arg_cong [OF split, of length] by simp
    have "x = ?prs ! length ys" by (simp add: split)
    then have x: "pr_id x = role_id (roles ! length ys)" "pr_bit x = word_of_nat (length ys)"
      using k by (simp_all add: projected_role_def nth_enumerate_eq)
    show "outcome (?P (ys @ [x])) (attempt (ok_or (Invariant ''invalid projected Role id'')
        (parse_thing (pr_id x))) (\<lambda>ident. Inr (case fw_attribute_things frame ident of None \<Rightarrow> m
          | Some ts \<Rightarrow> if t \<in> ts then m OR profile_bit (pr_bit x) else m)))"
      using m k len by (auto simp: x attributes bit_or_iff bit_profile_bit less_Suc_eq)
  qed simp
  then show ?thesis
    by (rule outcome_mono) (rule bit_eqI, use len in \<open>simp add: bit_mask_of\<close>)
qed

lemma outcome_profile_masks:
  assumes attributes: "fw_attribute_things frame =
      (\<lambda>r. if attribute_things ps r = {} then None else Some (attribute_things ps r))"
    and len: "length roles \<le> 8"
  shows "outcome (\<lambda>out. out = (\<lambda>t. if t \<in> set ts then Some (mask_of ps roles t) else masks t))
    (fst (profile_masks E ex frame (map (projected_role history current names) (enumerate 0 roles))
      i ts masks w))"
proof (induction ts arbitrary: i masks w)
  case (Cons t ts)
  show ?case
    unfolding profile_masks.simps
    by (intro outcome_attempt_st [OF outcome_checkpoint]
        outcome_attempt_pure [OF outcome_profile_mask [OF assms]] outcome_mono [OF Cons.IH])
      (auto simp: fun_eq_iff)
qed simp

text \<open>A frame whose things have their profiles.\<close>

definition profiled :: "posit set \<Rightarrow> thing list \<Rightarrow> frame_work \<Rightarrow> bool" where
  "profiled ps roles fw \<longleftrightarrow> frame_of ps fw
     \<and> fw_profile_masks fw = (\<lambda>t. if t \<in> endpoints_of ps then Some (mask_of ps roles t) else None)"

lemma outcome_assign_profiles:
  assumes "frame_of ps fw" and "fw_profile_masks fw = Map.empty" and "finite ps" and "length roles \<le> 8"
    and "proj_roles projection = map (projected_role history current names) (enumerate 0 roles)"
  shows "outcome (\<lambda>fw'. profiled ps roles fw' \<and> fw' = fw\<lparr>fw_profile_masks := fw_profile_masks fw'\<rparr>)
    (fst (assign_profiles E fw projection ex w))"
proof -
  have attributes: "fw_attribute_things fw =
      (\<lambda>r. if attribute_things ps r = {} then None else Some (attribute_things ps r))"
    and endpoints: "fw_endpoint_things fw = endpoints_of ps"
    using assms(1) by (simp_all add: frame_of_def)
  show ?thesis
    unfolding assign_profiles_def assms(5)
    by (rule outcome_attempt_st [OF outcome_profile_masks [OF attributes assms(4)]])
      (use assms(1-3) in \<open>auto simp: profiled_def frame_of_def endpoints fun_eq_iff\<close>)
qed

end
