(* ===== verification/Terrain_Populations.thy ===== *)
theory Terrain_Populations
  imports Terrain_Profiles
begin

text \<open>
  The populations of a frame and their sums over supersets.  The sums are taken in place, one bit
  after the other; after the first \<open>b\<close> bits the entry of a mask counts the things whose profile
  contains the mask below bit \<open>b\<close> and equals it from there on.
\<close>

section \<open>Populations\<close>

definition counts_of :: "nat \<Rightarrow> (nat \<Rightarrow> nat) \<Rightarrow> u64 list \<Rightarrow> bool" where
  "counts_of n c xs \<longleftrightarrow> length xs = 2 ^ n \<and> (\<forall>m < 2 ^ n. unat (xs ! m) = c m)"

lemma outcome_populations:
  assumes "\<forall>m \<in> set ms. unat m < 2 ^ n"
  shows "outcome (counts_of n (\<lambda>j. length (filter (\<lambda>m. unat m = j) ms)))
    (try_fold count_population ms (replicate (2 ^ n) 0))"
proof (rule outcome_try_fold_prefix)
  fix seen m rest xs
  assume ms: "ms = seen @ m # rest" and xs: "counts_of n (\<lambda>j. length (filter (\<lambda>m. unat m = j) seen)) xs"
  have m: "unat m < length xs" using assms xs by (simp add: ms counts_of_def)
  show "outcome (counts_of n (\<lambda>j. length (filter (\<lambda>m. unat m = j) (seen @ [m])))) (count_population m xs)"
    unfolding count_population_def if_P [OF m]
    by (rule outcome_attempt [OF unat_checked_add]) (use m xs in \<open>auto simp: counts_of_def nth_list_update\<close>)
qed (simp add: counts_of_def)

section \<open>Sums over supersets\<close>

definition agree :: "nat \<Rightarrow> nat \<Rightarrow> nat \<Rightarrow> bool" where
  "agree b x m \<longleftrightarrow> (\<forall>i. if i < b then bit m i \<longrightarrow> bit x i else bit x i = bit m i)"

lemma agree_0: "agree 0 x m \<longleftrightarrow> x = m"
  by (auto simp: agree_def bit_eq_iff)

lemma agree_Suc_set: "bit m b \<Longrightarrow> agree (Suc b) x m \<longleftrightarrow> agree b x m"
  by (auto simp: agree_def less_Suc_eq)

lemma agree_Suc_unset:
  assumes "\<not> bit m b"
  shows "agree (Suc b) x m \<longleftrightarrow> agree b x m \<or> agree b x (m OR 2 ^ b)"
    and "\<not> (agree b x m \<and> agree b x (m OR 2 ^ b))"
proof -
  have b: "bit (m OR 2 ^ b) i \<longleftrightarrow> bit m i \<or> i = b" for i
    by (auto simp: bit_or_iff bit_exp_iff)
  have split: "agree b x m' \<longleftrightarrow> (\<forall>i < b. bit m' i \<longrightarrow> bit x i) \<and> bit x b = bit m' b \<and> (\<forall>i > b. bit x i = bit m' i)"
    for m'
    by (auto simp: agree_def not_less le_less)
  have suc: "agree (Suc b) x m \<longleftrightarrow> (\<forall>i < b. bit m i \<longrightarrow> bit x i) \<and> (\<forall>i > b. bit x i = bit m i)"
    using assms by (auto simp: agree_def not_less less_Suc_eq Suc_le_eq)
  show "agree (Suc b) x m \<longleftrightarrow> agree b x m \<or> agree b x (m OR 2 ^ b)"
    unfolding suc split b using assms by auto
  show "\<not> (agree b x m \<and> agree b x (m OR 2 ^ b))"
    unfolding split b using assms by auto
qed

lemma card_agree_Suc:
  assumes "finite T" and "\<not> bit m b"
  shows "card {t \<in> T. agree (Suc b) (f t) m} =
    card {t \<in> T. agree b (f t) m} + card {t \<in> T. agree b (f t) (m OR 2 ^ b)}"
proof -
  have "{t \<in> T. agree (Suc b) (f t) m} =
      {t \<in> T. agree b (f t) m} \<union> {t \<in> T. agree b (f t) (m OR 2 ^ b)}"
    using agree_Suc_unset(1) [OF assms(2)] by auto
  moreover have "{t \<in> T. agree b (f t) m} \<inter> {t \<in> T. agree b (f t) (m OR 2 ^ b)} = {}"
    using agree_Suc_unset(2) [OF assms(2)] by auto
  ultimately show ?thesis using assms(1) by (simp add: card_Un_disjoint)
qed

lemma and_push_bit_0: "m AND 2 ^ b = 0 \<longleftrightarrow> \<not> bit m b" for m :: nat
  by (rule and_exp_eq_0_iff_not_bit)

lemma or_push_bit_less:
  assumes "m < 2 ^ n" and "b < n"
  shows "m OR 2 ^ b < (2 :: nat) ^ n"
proof -
  have "take_bit n (m OR 2 ^ b) = m OR 2 ^ b"
    using assms by (simp add: take_bit_or take_bit_nat_eq_self)
  then show ?thesis by (metis take_bit_nat_less_exp)
qed

lemma or_push_bit_greater:
  assumes "\<not> bit m b"
  shows "m < m OR (2 :: nat) ^ b"
proof -
  have "m AND 2 ^ b = 0" using assms by (simp add: and_push_bit_0)
  from disjunctive_add_eq_or [OF this] have "m OR 2 ^ b = m + 2 ^ b" by simp
  then show ?thesis by simp
qed

text \<open>The counts while bit \<open>b\<close> is summed, when the masks below \<open>j\<close> are done.\<close>

definition partial_counts :: "'t set \<Rightarrow> ('t \<Rightarrow> nat) \<Rightarrow> nat \<Rightarrow> nat \<Rightarrow> nat \<Rightarrow> nat" where
  "partial_counts T f b j m = card {t \<in> T. agree (if m < j then Suc b else b) (f t) m}"

lemma outcome_superset_pass:
  assumes "finite T" and "b < n" and "counts_of n (partial_counts T f b 0) xs"
  shows "outcome (counts_of n (partial_counts T f b (2 ^ n))) (try_fold (superset_step b) [0..<2 ^ n] xs)"
proof -
  have "outcome (counts_of n (partial_counts T f b (length [0..<2 ^ n])))
      (try_fold (superset_step b) [0..<2 ^ n] xs)"
  proof (rule outcome_try_fold_prefix)
    fix seen m rest xs
    assume split: "[0..<2 ^ n] = seen @ m # rest"
      and xs: "counts_of n (partial_counts T f b (length seen)) xs"
    have len: "length seen < 2 ^ n" using arg_cong [OF split, of length] by simp
    have "[0..<2 ^ n] ! length seen = m" by (simp add: split)
    then have m: "length seen = m" using len by simp
    show "outcome (counts_of n (partial_counts T f b (length (seen @ [m])))) (superset_step b m xs)"
    proof (cases "bit m b")
      case True
      have "partial_counts T f b (Suc m) = partial_counts T f b m"
        by (auto simp: partial_counts_def fun_eq_iff less_Suc_eq agree_Suc_set [OF True])
      then show ?thesis
        using True xs by (simp add: superset_step_def and_push_bit_0 m)
    next
      case False
      have j: "m OR 2 ^ b < 2 ^ n" using or_push_bit_less [OF _ assms(2)] len m by simp
      have "partial_counts T f b m m + partial_counts T f b m (m OR 2 ^ b) =
          partial_counts T f b (Suc m) m"
        using or_push_bit_greater [OF False] card_agree_Suc [OF assms(1) False]
        by (simp add: partial_counts_def)
      moreover have "partial_counts T f b (Suc m) k = partial_counts T f b m k" if "k \<noteq> m" for k
        using that by (simp add: partial_counts_def less_Suc_eq)
      moreover have "unat (xs ! m) = partial_counts T f b m m"
          "unat (xs ! (m OR 2 ^ b)) = partial_counts T f b m (m OR 2 ^ b)"
        using xs len j by (simp_all add: counts_of_def m)
      ultimately have "counts_of n (partial_counts T f b (Suc m)) (xs[m := k])"
        if "unat k = unat (xs ! m) + unat (xs ! (m OR 2 ^ b))" for k
        using that xs len by (auto simp: counts_of_def m nth_list_update)
      then show ?thesis
        using False by (simp add: superset_step_def and_push_bit_0 m outcome_attempt [OF unat_checked_add])
    qed
  qed (use assms in simp)
  then show ?thesis by simp
qed

lemma outcome_superset_sums:
  assumes "finite T" and "\<forall>t \<in> T. f t < 2 ^ n" and "counts_of n (\<lambda>m. card {t \<in> T. f t = m}) xs"
  shows "outcome (counts_of n (\<lambda>m. card {t \<in> T. m AND f t = m})) (superset_sums n xs)"
proof -
  have "outcome (counts_of n (partial_counts T f (length [0..<n]) 0)) (superset_sums n xs)"
    unfolding superset_sums_def
  proof (rule outcome_try_fold_prefix)
    fix seen b rest xs
    assume split: "[0..<n] = seen @ b # rest" and xs: "counts_of n (partial_counts T f (length seen) 0) xs"
    have len: "length seen < n" using arg_cong [OF split, of length] by simp
    have "[0..<n] ! length seen = b" by (simp add: split)
    then have b: "length seen = b" using len by simp
    have "counts_of n (partial_counts T f (Suc b) 0) ys" if "counts_of n (partial_counts T f b (2 ^ n)) ys" for ys
      using that by (simp add: counts_of_def partial_counts_def)
    then show "outcome (counts_of n (partial_counts T f (length (seen @ [b])) 0))
        (try_fold (superset_step b) [0..<2 ^ n] xs)"
      using outcome_superset_pass [OF assms(1), of b n f xs] xs len by (simp add: b outcome_mono)
  qed (use assms(3) in \<open>simp add: partial_counts_def agree_0\<close>)
  moreover have "partial_counts T f n 0 m = card {t \<in> T. m AND f t = m}" if "m < 2 ^ n" for m
  proof -
    have "\<not> bit x i" if "x < 2 ^ n" "n \<le> i" for x i :: nat
      using that by (metis bit_take_bit_iff not_le take_bit_nat_eq_self)
    then have "agree n (f t) m \<longleftrightarrow> m AND f t = m" if "t \<in> T" for t
      using that assms(2) \<open>m < 2 ^ n\<close> by (auto simp: agree_def bit_eq_iff bit_and_iff not_less) (meson not_le)
    then show ?thesis unfolding partial_counts_def by (auto intro: arg_cong [where f = card])
  qed
  ultimately show ?thesis by (auto elim!: outcome_mono simp: counts_of_def)
qed

section \<open>Profiles and isopleths\<close>

text \<open>The things with all the projected attributes of a mask, and those with exactly them.\<close>

definition has_all :: "posit set \<Rightarrow> thing list \<Rightarrow> u16 \<Rightarrow> thing \<Rightarrow> bool" where
  "has_all ps roles m t \<longleftrightarrow> (\<forall>i < length roles. bit m i \<longrightarrow> t \<in> attribute_things ps (roles ! i))"

definition has_exactly :: "posit set \<Rightarrow> thing list \<Rightarrow> u16 \<Rightarrow> thing \<Rightarrow> bool" where
  "has_exactly ps roles m t \<longleftrightarrow> (\<forall>i < length roles. bit m i \<longleftrightarrow> t \<in> attribute_things ps (roles ! i))"

definition ids_where :: "thing list \<Rightarrow> (nat \<Rightarrow> bool) \<Rightarrow> string list" where
  "ids_where roles P = map (\<lambda>i. role_id (roles ! i)) (filter P [0..<length roles])"

definition profiles_of :: "posit set \<Rightarrow> thing list \<Rightarrow> terrain_profile list \<Rightarrow> bool" where
  "profiles_of ps roles profiles \<longleftrightarrow>
     map prof_mask profiles = sorted_list_of_set (mask_of ps roles ` endpoints_of ps)
     \<and> (\<forall>p \<in> set profiles.
          unat (prof_things p) = card {t \<in> endpoints_of ps. has_exactly ps roles (prof_mask p) t}
          \<and> prof_id p = profile_id (prof_mask p)
          \<and> prof_present_role_ids p = ids_where roles (bit (prof_mask p))
          \<and> prof_absent_role_ids p = ids_where roles (\<lambda>i. \<not> bit (prof_mask p) i)
          \<and> prof_isopleth_id p = (if prof_mask p = 0 then None else Some (isopleth_id (prof_mask p))))"

definition iso_rank :: "terrain_isopleth \<Rightarrow> nat \<times> int \<times> u16" where
  "iso_rank i = (count_ones (iso_mask i), - uint (iso_support i), iso_mask i)"

definition isopleths_of :: "posit set \<Rightarrow> thing list \<Rightarrow> terrain_isopleth list \<Rightarrow> bool" where
  "isopleths_of ps roles isopleths \<longleftrightarrow>
     set (map iso_mask isopleths) = mask_of ps roles ` endpoints_of ps - {0}
     \<and> distinct (map iso_mask isopleths) \<and> sorted (map iso_rank isopleths)
     \<and> (\<forall>i \<in> set isopleths.
          unat (iso_support i) = card {t \<in> endpoints_of ps. has_all ps roles (iso_mask i) t}
          \<and> iso_id i = isopleth_id (iso_mask i)
          \<and> iso_included_role_ids i = ids_where roles (bit (iso_mask i)))"

lemma enumerate_as_map: "enumerate 0 xs = map (\<lambda>i. (i, xs ! i)) [0..<length xs]"
  by (rule nth_equalityI) (simp_all add: nth_enumerate_eq)

lemma and_profile_bit: "i < 8 \<Longrightarrow> m AND profile_bit (word_of_nat i) = 0 \<longleftrightarrow> \<not> bit m i"
  by (simp add: profile_bit_def unat_of_nat and_exp_eq_0_iff_not_bit)

lemma role_ids_where:
  assumes "length roles \<le> 8"
  shows "present_role_ids (map (projected_role h c n) (enumerate 0 roles)) m = ids_where roles (bit m)"
    and "absent_role_ids (map (projected_role h c n) (enumerate 0 roles)) m = ids_where roles (\<lambda>i. \<not> bit m i)"
  using assms
  by (auto simp: present_role_ids_def absent_role_ids_def ids_where_def enumerate_as_map filter_map
      projected_role_def o_def and_profile_bit intro!: arg_cong2 [where f = map] filter_cong)

text \<open>The loop over the populations, as two maps.\<close>

definition the_profile :: "terrain_projected_role list \<Rightarrow> nat \<times> u64 \<Rightarrow> terrain_profile" where
  "the_profile prs = (\<lambda>(m, population).
     \<lparr>prof_id = profile_id (word_of_nat m), prof_mask = word_of_nat m,
      prof_present_role_ids = present_role_ids prs (word_of_nat m),
      prof_absent_role_ids = absent_role_ids prs (word_of_nat m), prof_things = population,
      prof_isopleth_id = (if word_of_nat m \<noteq> (0 :: u16) then Some (isopleth_id (word_of_nat m)) else None)\<rparr>)"

definition the_isopleth :: "terrain_projected_role list \<Rightarrow> u64 list \<Rightarrow> nat \<Rightarrow> terrain_isopleth" where
  "the_isopleth prs sums m =
     \<lparr>iso_id = isopleth_id (word_of_nat m), iso_mask = word_of_nat m,
      iso_included_role_ids = present_role_ids prs (word_of_nat m),
      iso_support = sums ! unat (word_of_nat m :: u16)\<rparr>"

lemma profiles_and_isopleths_maps:
  assumes "\<forall>e \<in> set es. fst e < 2 ^ 16"
  shows "profiles_and_isopleths prs sums es (profiles, isopleths) =
    Inr (profiles @ map (the_profile prs) (filter (\<lambda>e. snd e \<noteq> 0) es),
      isopleths @ map (the_isopleth prs sums)
        (filter (\<lambda>m. word_of_nat m \<noteq> (0 :: u16)) (map fst (filter (\<lambda>e. snd e \<noteq> 0) es))))"
  using assms
proof (induction es arbitrary: profiles isopleths)
  case (Cons e es)
  then show ?case by (cases e) (simp add: Let_def the_profile_def the_isopleth_def)
qed simp

section \<open>The populations of a frame\<close>

lemma small_mask: "unat (m :: u16) < 2 ^ n \<Longrightarrow> bit m i \<Longrightarrow> i < n"
proof -
  assume "unat m < 2 ^ n" and i: "bit m i"
  then have "take_bit n (unat m) = unat m" by (simp add: take_bit_nat_eq_self)
  then have "take_bit n m = m" by (metis unsigned_take_bit_eq unsigned_word_eqI)
  with i show "i < n" by (metis bit_take_bit_iff)
qed

lemma mask_of_less: "length roles \<le> 8 \<Longrightarrow> unat (mask_of ps roles t) < 2 ^ length roles"
proof -
  assume len: "length roles \<le> 8"
  have "take_bit (length roles) (mask_of ps roles t) = mask_of ps roles t"
    by (rule bit_eqI) (auto simp: bit_take_bit_iff bit_mask_of [OF len])
  then have "take_bit (length roles) (unat (mask_of ps roles t)) = unat (mask_of ps roles t)"
    by (metis unsigned_take_bit_eq)
  then show ?thesis by (metis take_bit_nat_less_exp)
qed

lemma mask_of_exactly:
  assumes "length roles \<le> 8" and "unat m < 2 ^ length roles"
  shows "mask_of ps roles t = m \<longleftrightarrow> has_exactly ps roles m t"
proof
  assume "has_exactly ps roles m t"
  then show "mask_of ps roles t = m"
    using small_mask [OF assms(2)]
    by (intro bit_eqI) (auto simp: bit_mask_of [OF assms(1)] has_exactly_def)
qed (auto simp: has_exactly_def bit_mask_of [OF assms(1)])

lemma mask_of_all:
  assumes "length roles \<le> 8" and "unat m < 2 ^ length roles"
  shows "unat m AND unat (mask_of ps roles t) = unat m \<longleftrightarrow> has_all ps roles m t"
proof -
  have "unat m AND unat (mask_of ps roles t) = unat m \<longleftrightarrow> m AND mask_of ps roles t = m"
    by (metis unsigned_and_eq unsigned_word_eqI)
  also have "\<dots> \<longleftrightarrow> has_all ps roles m t"
  proof
    assume "m AND mask_of ps roles t = m"
    then have "bit m i \<Longrightarrow> bit (mask_of ps roles t) i" for i by (metis bit_and_iff)
    then show "has_all ps roles m t" by (auto simp: has_all_def bit_mask_of [OF assms(1)])
  next
    assume all: "has_all ps roles m t"
    have "bit (mask_of ps roles t) i" if "bit m i" for i
    proof -
      have "i < length roles" by (rule small_mask [OF assms(2) that])
      with that all show ?thesis by (simp add: has_all_def bit_mask_of [OF assms(1)])
    qed
    then show "m AND mask_of ps roles t = m" by (intro bit_eqI) (auto simp: bit_and_iff)
  qed
  finally show ?thesis .
qed

text \<open>The nonempty masks in ascending order, as the loop meets them.\<close>

lemma nonempty_masks:
  assumes "length roles \<le> 8" and "finite T"
    and "counts_of (length roles) (\<lambda>j. card {t \<in> T. unat (mask_of ps roles t) = j}) pops"
  shows "map word_of_nat (map fst (filter (\<lambda>e. snd e \<noteq> 0) (enumerate 0 pops))) =
    sorted_list_of_set (mask_of ps roles ` T)"
proof -
  let ?n = "length roles"
  let ?ms = "filter (\<lambda>m. pops ! m \<noteq> 0) [0..<2 ^ ?n]"
  have len: "length pops = 2 ^ ?n" using assms(3) by (simp add: counts_of_def)
  have ms: "map fst (filter (\<lambda>e. snd e \<noteq> 0) (enumerate 0 pops)) = ?ms"
    by (simp add: enumerate_as_map filter_map o_def len)
  have small: "m < 2 ^ 16" if "m < 2 ^ ?n" for m :: nat
    using power_increasing [OF assms(1), of "2 :: nat"] that by simp
  have mem: "m \<in> set ?ms \<longleftrightarrow> m \<in> (\<lambda>t. unat (mask_of ps roles t)) ` T" if "m < 2 ^ ?n" for m
  proof -
    have "unat (pops ! m) = card {t \<in> T. unat (mask_of ps roles t) = m}"
      using assms(3) that by (simp add: counts_of_def)
    then have "pops ! m \<noteq> 0 \<longleftrightarrow> {t \<in> T. unat (mask_of ps roles t) = m} \<noteq> {}"
      using assms(2) unat_eq_zero [of "pops ! m"] by auto
    with that show ?thesis by auto
  qed
  have "set ?ms = (\<lambda>t. unat (mask_of ps roles t)) ` T"
    using mem mask_of_less [OF assms(1)] by auto
  then have set: "set (map word_of_nat ?ms) = mask_of ps roles ` T"
    unfolding set_map by (simp only: image_image of_nat_unat unsigned_ucast_eq ucast_id image_ident)
  have unat: "unat (word_of_nat m :: u16) = m" if "m < 2 ^ ?n" for m
    using small [OF that] by (simp add: unat_of_nat)
  have "sorted_wrt (<) ?ms" by (simp add: sorted_wrt_filter)
  then have "sorted_wrt (\<lambda>x y. (word_of_nat x :: u16) < word_of_nat y) ?ms"
    by (rule sorted_wrt_mono_rel [rotated]) (simp add: word_less_nat_alt unat)
  then have "sorted_wrt (<) (map word_of_nat ?ms :: u16 list)" by (simp add: sorted_wrt_map)
  then show ?thesis
    unfolding ms set [symmetric]
    by (metis strict_sorted_iff sorted_list_of_set.idem_if_sorted_distinct)
qed

definition supports_of :: "posit set \<Rightarrow> thing list \<Rightarrow> terrain_role_support list \<Rightarrow> bool" where
  "supports_of ps roles supports \<longleftrightarrow>
     map sup_role_id supports = map role_id roles
     \<and> map (\<lambda>s. unat (sup_distinct_things s)) supports = map (\<lambda>r. card (attribute_things ps r)) roles"

lemma unat_support:
  assumes "frame_of ps fw" and "wf_posits ps"
  shows "unat (support fw r) = card (attribute_things ps r)"
proof -
  have "0 \<notin> attribute_things ps r"
    using attribute_things_sub [of ps r] endpoints_not_genesis [OF assms(2)] by auto
  then show ?thesis using assms(1) by (simp add: support_def frame_of_def unat_treemap_count)
qed

lemma outcome_role_supports:
  assumes "frame_of ps fw" and "wf_posits ps"
  shows "outcome (supports_of ps roles)
    (try_map (role_support fw) (map (projected_role h c n) (enumerate 0 roles)))"
proof -
  let ?g = "\<lambda>p. \<lparr>sup_role_id = pr_id p, sup_distinct_things = support fw (the (parse_thing (pr_id p)))\<rparr>"
  have "outcome (\<lambda>s. s = ?g p) (role_support fw p)"
    if "p \<in> set (map (projected_role h c n) (enumerate 0 roles))" for p
    using that by (auto simp: role_support_def projected_role_def)
  from outcome_try_map [OF this] show ?thesis
    by (rule outcome_mono)
      (auto simp: supports_of_def enumerate_as_map projected_role_def unat_support [OF assms] intro: nth_equalityI)
qed

lemma counts_of_cong:
  "counts_of n c xs \<Longrightarrow> (\<And>m. m < 2 ^ n \<Longrightarrow> c m = c' m) \<Longrightarrow> counts_of n c' xs"
  by (simp add: counts_of_def)

lemma profiles_of_maps:
  assumes len: "length roles \<le> 8" and fin: "finite (endpoints_of ps)"
    and pops: "counts_of (length roles) (\<lambda>j. card {t \<in> endpoints_of ps. unat (mask_of ps roles t) = j}) pops"
  shows "profiles_of ps roles (map (the_profile (map (projected_role h c n) (enumerate 0 roles)))
    (filter (\<lambda>e. snd e \<noteq> 0) (enumerate 0 pops)))"
proof -
  let ?prs = "map (projected_role h c n) (enumerate 0 roles)"
  let ?es = "filter (\<lambda>e. snd e \<noteq> 0) (enumerate 0 pops)"
  have "map prof_mask (map (the_profile ?prs) ?es) = map word_of_nat (map fst ?es)"
    by (simp add: the_profile_def split_def)
  also have "\<dots> = sorted_list_of_set (mask_of ps roles ` endpoints_of ps)"
    by (rule nonempty_masks [OF len fin pops])
  finally have masks: "map prof_mask (map (the_profile ?prs) ?es) =
    sorted_list_of_set (mask_of ps roles ` endpoints_of ps)" .
  have each: "unat x = card {t \<in> endpoints_of ps. has_exactly ps roles (word_of_nat m) t}"
    if "(m, x) \<in> set ?es" for m x
  proof -
    have m: "m < 2 ^ length roles" and x: "x = pops ! m"
      using that pops by (auto simp: enumerate_as_map counts_of_def)
    have "m < 2 ^ 16" using power_increasing [OF len, of "2 :: nat"] m by simp
    then have u: "unat (word_of_nat m :: u16) = m" by (simp add: unat_of_nat)
    have "unat (mask_of ps roles t) = m \<longleftrightarrow> mask_of ps roles t = word_of_nat m" for t
      using u by (metis word_unat_eq_iff)
    then have "unat (mask_of ps roles t) = m \<longleftrightarrow> has_exactly ps roles (word_of_nat m) t" for t
      using mask_of_exactly [OF len, of "word_of_nat m" ps t] m u by simp
    then show ?thesis using pops m by (simp add: counts_of_def x)
  qed
  show ?thesis
    unfolding profiles_of_def masks
    using each by (auto simp: the_profile_def role_ids_where [OF len])
qed

lemma isopleths_of_maps:
  assumes len: "length roles \<le> 8" and fin: "finite (endpoints_of ps)"
    and pops: "counts_of (length roles) (\<lambda>j. card {t \<in> endpoints_of ps. unat (mask_of ps roles t) = j}) pops"
    and sums: "counts_of (length roles)
      (\<lambda>j. card {t \<in> endpoints_of ps. j AND unat (mask_of ps roles t) = j}) sums"
  shows "isopleths_of ps roles (sort_key (\<lambda>i. (count_ones (iso_mask i), - uint (iso_support i), iso_mask i))
    (map (the_isopleth (map (projected_role h c n) (enumerate 0 roles)) sums)
      (filter (\<lambda>m. word_of_nat m \<noteq> (0 :: u16)) (map fst (filter (\<lambda>e. snd e \<noteq> 0) (enumerate 0 pops))))))"
proof -
  let ?prs = "map (projected_role h c n) (enumerate 0 roles)"
  let ?ms = "map fst (filter (\<lambda>e. snd e \<noteq> 0) (enumerate 0 pops))"
  let ?is = "map (the_isopleth ?prs sums) (filter (\<lambda>m. word_of_nat m \<noteq> (0 :: u16)) ?ms)"
  have masks: "map iso_mask ?is = filter (\<lambda>m. m \<noteq> 0) (map word_of_nat ?ms)"
    by (simp add: the_isopleth_def filter_map o_def)
  have nonempty: "map word_of_nat ?ms = sorted_list_of_set (mask_of ps roles ` endpoints_of ps)"
    by (rule nonempty_masks [OF len fin pops])
  have set: "distinct (map iso_mask ?is)" "set (map iso_mask ?is) = mask_of ps roles ` endpoints_of ps - {0}"
    unfolding masks nonempty using fin by auto
  have each: "unat (iso_support i) = card {t \<in> endpoints_of ps. has_all ps roles (iso_mask i) t}
      \<and> iso_id i = isopleth_id (iso_mask i) \<and> iso_included_role_ids i = ids_where roles (bit (iso_mask i))"
    if mem: "i \<in> set ?is" for i
  proof -
    obtain m where i: "i = the_isopleth ?prs sums m" and "m \<in> set ?ms" using mem by auto
    then have m: "m < 2 ^ length roles"
      using pops by (auto simp: enumerate_as_map counts_of_def)
    have "m < 2 ^ 16" using power_increasing [OF len, of "2 :: nat"] m by simp
    then have u: "unat (word_of_nat m :: u16) = m" by (simp add: unat_of_nat)
    have "m AND unat (mask_of ps roles t) = m \<longleftrightarrow> has_all ps roles (word_of_nat m) t" for t
      using mask_of_all [OF len, of "word_of_nat m" ps t] m by (simp add: u)
    then have "unat (sums ! m) = card {t \<in> endpoints_of ps. has_all ps roles (word_of_nat m) t}"
      using sums m by (simp add: counts_of_def)
    then show ?thesis by (simp add: i the_isopleth_def u role_ids_where [OF len])
  qed
  show ?thesis
    unfolding isopleths_of_def
  proof (intro conjI ballI)
    let ?sorted = "sort_key (\<lambda>i. (count_ones (iso_mask i), - uint (iso_support i), iso_mask i)) ?is"
    show "set (map iso_mask ?sorted) = mask_of ps roles ` endpoints_of ps - {0}"
      using set(2) by (simp only: set_map set_sort)
    show "distinct (map iso_mask ?sorted)" using set(1) by (simp only: distinct_map_sort_key)
    show "sorted (map iso_rank ?sorted)"
      unfolding iso_rank_def [abs_def] by (rule sorted_sort_key)
  qed (use each in \<open>simp_all only: set_sort\<close>)
qed

lemma outcome_population_total:
  "outcome (\<lambda>n. unat n = unat n0 + sum_list (map (\<lambda>p. unat (prof_things p)) profiles))
     (try_fold (\<lambda>p n. checked_add n (prof_things p) resource) profiles n0)"
proof (induction profiles arbitrary: n0)
  case (Cons p profiles)
  then show ?case by (auto intro!: outcome_attempt [OF unat_checked_add] outcome_mono [OF Cons.IH])
qed simp

text \<open>Every endpoint has exactly one profile.\<close>

lemma profiles_of_total:
  assumes "profiles_of ps roles profiles" and "finite (endpoints_of ps)" and "length roles \<le> 8"
  shows "sum_list (map (\<lambda>p. unat (prof_things p)) profiles) = card (endpoints_of ps)"
proof -
  let ?M = "mask_of ps roles ` endpoints_of ps"
  have masks: "map prof_mask profiles = sorted_list_of_set ?M"
    using assms(1) by (simp add: profiles_of_def)
  have "prof_mask p \<in> ?M" if "p \<in> set profiles" for p
    using arg_cong [OF masks, of set] assms(2) that by auto
  then have "unat (prof_things p) = card {t \<in> endpoints_of ps. mask_of ps roles t = prof_mask p}"
    if p: "p \<in> set profiles" for p
  proof -
    have "unat (prof_mask p) < 2 ^ length roles"
      using \<open>\<And>p. p \<in> set profiles \<Longrightarrow> prof_mask p \<in> ?M\<close> [OF p] mask_of_less [OF assms(3)] by auto
    then show ?thesis
      using assms(1) p by (simp add: profiles_of_def mask_of_exactly [OF assms(3)])
  qed
  then have "map (\<lambda>p. unat (prof_things p)) profiles =
      map (\<lambda>m. card {t \<in> endpoints_of ps. mask_of ps roles t = m}) (map prof_mask profiles)"
    by simp
  then have "sum_list (map (\<lambda>p. unat (prof_things p)) profiles) =
      (\<Sum>m \<in> ?M. 1 * card {t \<in> endpoints_of ps. mask_of ps roles t = m})"
    using assms(2) by (simp add: masks sum_list_distinct_conv_sum_set)
  also have "\<dots> = card (endpoints_of ps)"
    using sum_by_key [OF assms(2), of "\<lambda>_. 1" "mask_of ps roles"] by simp
  finally show ?thesis .
qed

lemma outcome_frame_profiles:
  assumes fw: "profiled ps roles fw" and wf: "wf_posits ps" and len: "length roles \<le> 8"
    and E: "hash_order_law E"
  shows "outcome (\<lambda>(supports, profiles, isopleths). supports_of ps roles supports
      \<and> profiles_of ps roles profiles \<and> isopleths_of ps roles isopleths)
    (frame_profiles_of E fw (map (projected_role h c n) (enumerate 0 roles)))"
proof -
  let ?T = "endpoints_of ps" and ?f = "\<lambda>t. unat (mask_of ps roles t)"
  let ?prs = "map (projected_role h c n) (enumerate 0 roles)"
  have frame: "frame_of ps fw" and masks: "fw_profile_masks fw = (\<lambda>t. if t \<in> ?T then Some (mask_of ps roles t) else None)"
    using fw by (simp_all add: profiled_def)
  have fin: "finite ?T" using wf by (simp add: wf_posits_def)
  have dom: "dom (fw_profile_masks fw) = ?T" by (auto simp: masks split: if_splits)
  let ?ms = "map (\<lambda>t. the (fw_profile_masks fw t)) (hash_order E (dom (fw_profile_masks fw)))"
  have ms: "?ms = map (mask_of ps roles) (hash_order E ?T)"
    unfolding dom by (rule map_cong [OF refl]) (simp add: masks hash_order_lawD [OF E])
  have "length (filter (\<lambda>m. unat m = j) ?ms) = card {t \<in> ?T. ?f t = j}" for j
  proof -
    have "length (filter (\<lambda>m. unat m = j) ?ms) = length (filter (\<lambda>t. ?f t = j) (hash_order E ?T))"
      unfolding ms by (simp add: filter_map o_def)
    also have "\<dots> = card (set (filter (\<lambda>t. ?f t = j) (hash_order E ?T)))"
      by (rule distinct_card [symmetric]) (simp add: hash_order_lawD [OF E])
    finally show ?thesis by (simp add: hash_order_lawD [OF E])
  qed
  then have populations: "outcome (counts_of (length roles) (\<lambda>j. card {t \<in> ?T. ?f t = j}))
      (try_fold count_population ?ms (replicate (2 ^ length ?prs) 0))"
    using outcome_populations [of ?ms "length roles"] mask_of_less [OF len] by (simp add: ms)
  have sums: "outcome (counts_of (length roles) (\<lambda>j. card {t \<in> ?T. j AND ?f t = j}))
      (superset_sums (length ?prs) pops)"
    if "counts_of (length roles) (\<lambda>j. card {t \<in> ?T. ?f t = j}) pops" for pops
    using outcome_superset_sums [OF fin _ that] mask_of_less [OF len] by simp
  have small: "\<forall>e \<in> set (enumerate 0 pops). fst e < 2 ^ 16"
    if "counts_of (length roles) cs pops" for cs and pops :: "u64 list"
    using that power_increasing [OF len, of "2 :: nat"] by (auto simp: counts_of_def enumerate_as_map)
  have total: "outcome (\<lambda>n. n = stat_endpoint_things (fw_stats fw))
      (try_fold (\<lambda>p n. checked_add n (prof_things p) ''profile population'') profiles 0)"
    if "profiles_of ps roles profiles" for profiles
    by (rule outcome_mono [OF outcome_population_total])
      (use frame profiles_of_total [OF that fin len] in \<open>simp add: frame_of_def stats_of_def word_unat_eq_iff\<close>)
  show ?thesis
    unfolding frame_profiles_of_def
    apply (rule outcome_attempt [OF outcome_role_supports [OF frame wf]])
    apply (rule outcome_attempt [OF populations])
    apply (rule outcome_attempt [OF sums], assumption)
    apply (subst profiles_and_isopleths_maps, erule small)
    apply (simp only: attempt_Inr prod.case append_Nil)
    apply (rule outcome_attempt [OF total [OF profiles_of_maps [OF len fin]]], assumption)
    apply (simp add: profiles_of_maps [OF len fin] isopleths_of_maps [OF len fin])
    done
qed

end
