(* ===== verification/Terrain_Relationships.thy ===== *)
theory Terrain_Relationships
  imports Terrain_Populations
begin

text \<open>
  The relationships of a frame: for a signature, how often each role is filled and by how many things,
  split by the profiles of the things.  The tallies are kept per role and per role and profile while
  one walk goes over the appearances; that they agree, which the code checks before it reports them,
  is shown here to be always the case.
\<close>

section \<open>Tallies\<close>

text \<open>A tally of the things and the number of the keys that satisfy a condition.\<close>

definition tallied :: "(appearance_key \<Rightarrow> bool) \<Rightarrow> appearance_key list \<Rightarrow> participation_counts \<Rightarrow> bool" where
  "tallied P keys c \<longleftrightarrow> count_things c = snd ` set (filter P keys)
     \<and> unat (count_participations c) = length (filter P keys)"

lemma tallied_none: "(\<forall>k \<in> set keys. \<not> P k) \<Longrightarrow> tallied P keys no_participations"
  by (auto simp: tallied_def no_participations_def filter_empty_conv)

lemma tallied_other: "tallied P keys c \<Longrightarrow> \<not> P k \<Longrightarrow> tallied P (keys @ [k]) c"
  by (simp add: tallied_def)

lemma outcome_participate:
  "tallied P keys c \<Longrightarrow> P k \<Longrightarrow> outcome (tallied P (keys @ [k])) (participate (snd k) resource c)"
  unfolding participate_def
  by (rule outcome_attempt [OF unat_checked_add]) (auto simp: tallied_def)

definition in_role :: "thing \<Rightarrow> appearance_key \<Rightarrow> bool" where
  "in_role r k \<longleftrightarrow> fst k = r"

definition in_cell :: "(thing \<Rightarrow> u16) \<Rightarrow> thing \<times> u16 \<Rightarrow> appearance_key \<Rightarrow> bool" where
  "in_cell f cell k \<longleftrightarrow> fst k = fst cell \<and> f (snd k) = snd cell"

definition allocated :: "thing list \<Rightarrow> (thing \<Rightarrow> u16) \<Rightarrow> appearance_key list \<Rightarrow> allocation_state \<Rightarrow> bool" where
  "allocated signature f keys st \<longleftrightarrow>
     (\<forall>r. case fst st r of None \<Rightarrow> r \<notin> set signature
       | Some c \<Rightarrow> r \<in> set signature \<and> tallied (in_role r) keys c)
     \<and> (\<forall>cell. case snd st cell of None \<Rightarrow> \<forall>k \<in> set keys. \<not> in_cell f cell k
       | Some c \<Rightarrow> (\<exists>k \<in> set keys. in_cell f cell k) \<and> tallied (in_cell f cell) keys c)"

lemma allocated_start:
  "allocated signature f [] (map_of (map (\<lambda>r. (r, no_participations)) signature), Map.empty)"
proof -
  have "map_of (map (\<lambda>r. (r, no_participations)) signature) r =
      (if r \<in> set signature then Some no_participations else None)" for r
    by (induction signature) auto
  then show ?thesis by (auto simp: allocated_def tallied_none split: if_splits)
qed

lemma allocated_role:
  assumes "allocated signature f keys st" and "r \<in> set signature"
  obtains c where "fst st r = Some c" and "tallied (in_role r) keys c"
  using spec [OF conjunct1 [OF assms(1) [unfolded allocated_def]], of r] assms(2)
  by (cases "fst st r") auto

lemma allocated_cell:
  assumes "allocated signature f keys st"
  shows "tallied (in_cell f cell) keys
    (case snd st cell of None \<Rightarrow> no_participations | Some c \<Rightarrow> c)"
  using spec [OF conjunct2 [OF assms [unfolded allocated_def]], of cell]
  by (cases "snd st cell") (simp_all add: tallied_none)

lemma allocated_snoc:
  assumes st: "allocated signature f keys (roles, cells)" and r: "fst k \<in> set signature"
    and c: "tallied (in_role (fst k)) (keys @ [k]) c"
    and d: "tallied (in_cell f (fst k, f (snd k))) (keys @ [k]) d"
  shows "allocated signature f (keys @ [k]) (roles(fst k \<mapsto> c), cells((fst k, f (snd k)) \<mapsto> d))"
proof -
  have roles: "case (roles(fst k \<mapsto> c)) r of None \<Rightarrow> r \<notin> set signature
      | Some c \<Rightarrow> r \<in> set signature \<and> tallied (in_role r) (keys @ [k]) c" for r
  proof (cases "r = fst k")
    case False
    then show ?thesis
      using spec [OF conjunct1 [OF st [unfolded allocated_def]], of r]
      by (auto simp: in_role_def intro: tallied_other split: option.splits)
  qed (use r c in simp)
  have cells: "case (cells((fst k, f (snd k)) \<mapsto> d)) cell of None \<Rightarrow> \<forall>k \<in> set (keys @ [k]). \<not> in_cell f cell k
      | Some c \<Rightarrow> (\<exists>k \<in> set (keys @ [k]). in_cell f cell k) \<and> tallied (in_cell f cell) (keys @ [k]) c" for cell
  proof (cases "cell = (fst k, f (snd k))")
    case True
    then show ?thesis using d by (simp add: in_cell_def)
  next
    case False
    then have "\<not> in_cell f cell k" by (auto simp: in_cell_def prod_eq_iff)
    with False show ?thesis
      using spec [OF conjunct2 [OF st [unfolded allocated_def]], of cell]
      by (auto intro: tallied_other split: option.splits)
  qed
  show ?thesis unfolding allocated_def using roles cells by simp
qed

lemma outcome_allocate:
  assumes st: "allocated signature f keys st" and r: "role_thing (app_role a) \<in> set signature"
    and m: "masks (app_thing a) = Some (f (app_thing a))"
  shows "outcome (allocated signature f (keys @ [akey a])) (allocate masks a st)"
proof -
  obtain roles cells where s: "st = (roles, cells)" by (cases st)
  obtain c where c: "roles (role_thing (app_role a)) = Some c" "tallied (in_role (role_thing (app_role a))) keys c"
    by (rule allocated_role [OF st r]) (simp add: s)
  let ?k = "akey a"
  have k: "fst ?k = role_thing (app_role a)" "snd ?k = app_thing a" by (simp_all add: akey_def)
  have p: "outcome (tallied (in_role (fst ?k)) (keys @ [?k])) (participate (app_thing a) resource c)" for resource
    using outcome_participate [OF c(2), of ?k] by (simp add: k in_role_def)
  have q: "outcome (tallied (in_cell f (fst ?k, f (snd ?k))) (keys @ [?k]))
      (participate (app_thing a) resource
        (case cells (role_thing (app_role a), f (app_thing a)) of None \<Rightarrow> no_participations | Some c \<Rightarrow> c))" for resource
    using outcome_participate [OF allocated_cell [OF st, of "(fst ?k, f (snd ?k))"], of ?k]
    by (simp add: k in_cell_def s)
  show ?thesis
    unfolding allocate_def s prod.case Let_def c(1) m ok_or_simps attempt_Inr
    using allocated_snoc [of signature f keys roles cells ?k] st r
    by (intro outcome_attempt [OF p] outcome_attempt [OF q]) (simp add: s k)
qed

lemma outcome_allocate_set:
  assumes "allocated signature f keys st" and "set_roles s = signature"
    and "\<And>a. a \<in> set s \<Longrightarrow> masks (app_thing a) = Some (f (app_thing a))"
  shows "outcome (allocated signature f (keys @ set_key s)) (try_fold (allocate masks) s st)"
proof -
  have "outcome (\<lambda>st. allocated signature f (keys @ set_key s) st) (try_fold (allocate masks) s st)"
  proof (rule outcome_try_fold_prefix [where P = "\<lambda>seen. allocated signature f (keys @ set_key seen)"])
    fix ys a zs st
    assume s: "s = ys @ a # zs" and st: "allocated signature f (keys @ set_key ys) st"
    have "role_thing (app_role a) \<in> set signature" "a \<in> set s"
      using assms(2) by (auto simp: s set_roles_def)
    from outcome_allocate [where masks = masks, OF st this(1) assms(3) [OF this(2)]]
    show "outcome (allocated signature f (keys @ set_key (ys @ [a]))) (allocate masks a st)"
      by (simp add: set_key_def)
  qed (use assms(1) in \<open>simp add: set_key_def\<close>)
  then show ?thesis .
qed

lemma outcome_allocate_sets:
  assumes "allocated signature f keys st" and "\<And>s. s \<in> set ss \<Longrightarrow> set_roles s = signature"
    and "\<And>s a. s \<in> set ss \<Longrightarrow> a \<in> set s \<Longrightarrow> masks (app_thing a) = Some (f (app_thing a))"
  shows "outcome (allocated signature f (keys @ concat (map set_key ss))) (fst (allocate_sets E ex masks i ss st w))"
  using assms
proof (induction ss arbitrary: keys i st w)
  case (Cons s ss)
  show ?case
    unfolding allocate_sets.simps
  proof (intro outcome_attempt_st [OF outcome_checkpoint] outcome_attempt_pure [OF outcome_allocate_set])
    show "allocated signature f keys st" by (rule Cons.prems(1))
    fix st w assume st: "allocated signature f (keys @ set_key s) st"
    have "outcome (allocated signature f ((keys @ set_key s) @ concat (map set_key ss)))
        (fst (allocate_sets E ex masks (Suc i) ss st w))"
      by (rule Cons.IH [OF st]) (use Cons.prems(2,3) in auto)
    then show "outcome (allocated signature f (keys @ concat (map set_key (s # ss))))
        (fst (allocate_sets E ex masks (Suc i) ss st w))" by simp
  qed (auto intro: Cons.prems)
qed simp

section \<open>Reconciliation\<close>

lemma sum_filter_by:
  assumes "finite M" and "\<forall>x \<in> set xs. P x \<longrightarrow> g x \<in> M"
  shows "(\<Sum>m \<in> M. length (filter (\<lambda>x. P x \<and> g x = m) xs)) = length (filter P xs)"
  using assms(2)
proof (induction xs)
  case (Cons x xs)
  have "(\<Sum>m \<in> M. length (filter (\<lambda>x. P x \<and> g x = m) (x # xs))) =
      (\<Sum>m \<in> M. (if P x \<and> g x = m then 1 else 0) + length (filter (\<lambda>x. P x \<and> g x = m) xs))"
    by (rule sum.cong) auto
  also have "\<dots> = (\<Sum>m \<in> M. if P x \<and> g x = m then 1 else 0) + length (filter P xs)"
    using Cons by (simp add: sum.distrib)
  also have "(\<Sum>m \<in> M. if P x \<and> g x = m then 1 else 0) = (if P x then 1 else (0 :: nat))"
    using Cons.prems assms(1) by (cases "P x") (simp_all add: sum.delta')
  finally show ?case by simp
qed simp

lemma outcome_allocation_sums:
  "outcome (\<lambda>(d, p). unat d = unat d0 + sum_list (map (\<lambda>a. unat (al_distinct_things a)) as)
       \<and> unat p = unat p0 + sum_list (map (\<lambda>a. unat (al_participations a)) as))
     (try_fold (\<lambda>a (d, p).
        attempt (checked_add d (al_distinct_things a) x) (\<lambda>d.
        attempt (checked_add p (al_participations a) y) (\<lambda>p. Inr (d, p)))) as (d0, p0))"
proof (induction as arbitrary: d0 p0)
  case (Cons a as)
  show ?case
    unfolding try_fold.simps prod.case
    by (rule outcome_attempt [where P = "\<lambda>(d, p). unat d = unat d0 + unat (al_distinct_things a)
          \<and> unat p = unat p0 + unat (al_participations a)"])
      (auto intro!: outcome_attempt [OF unat_checked_add] outcome_mono [OF Cons.IH])
qed simp

lemma outcome_reconcile:
  assumes "sum_list (map (\<lambda>a. unat (al_distinct_things a)) (filter (\<lambda>a. al_role_id a = rt_role_id rt) as)) =
      unat (rt_distinct_things rt)"
    and "sum_list (map (\<lambda>a. unat (al_participations a)) (filter (\<lambda>a. al_role_id a = rt_role_id rt) as)) =
      unat (rt_participations rt)"
  shows "outcome (\<lambda>u. u = ()) (reconcile as rt)"
  unfolding reconcile_def
  by (rule outcome_attempt [OF outcome_allocation_sums]) (use assms in \<open>auto simp: word_unat_eq_iff\<close>)

section \<open>The relationships of a set of posits\<close>

definition participants :: "posit set \<Rightarrow> thing list \<Rightarrow> thing \<Rightarrow> thing set" where
  "participants ps signature r = {t. \<exists>k \<in> sets_with ps signature. (r, t) \<in> set k}"

text \<open>The cells of the allocation: a role of the signature and a profile that occurs in it.\<close>

definition cells_of :: "posit set \<Rightarrow> thing list \<Rightarrow> thing list \<Rightarrow> (thing \<times> u16) set" where
  "cells_of ps roles signature =
     (\<Union>r \<in> set signature. (\<lambda>t. (r, mask_of ps roles t)) ` participants ps signature r)"

definition role_totals_of :: "posit set \<Rightarrow> thing list \<Rightarrow> terrain_role_total list \<Rightarrow> bool" where
  "role_totals_of ps signature totals \<longleftrightarrow>
     map (\<lambda>t. (rt_role_id t, unat (rt_distinct_things t), unat (rt_participations t))) totals =
     map (\<lambda>r. (role_id r, card (participants ps signature r), card (sets_with ps signature))) signature"

definition allocations_of :: "posit set \<Rightarrow> thing list \<Rightarrow> thing list \<Rightarrow> terrain_allocation list \<Rightarrow> bool" where
  "allocations_of ps roles signature allocations \<longleftrightarrow>
     map (\<lambda>a. (al_id a, al_role_id a, al_profile_id a, al_profile_mask a, al_isopleth_id a,
          unat (al_distinct_things a), unat (al_participations a))) allocations =
     map (\<lambda>(r, m). (allocation_id signature r m, role_id r, profile_id m, m,
          if m = 0 then None else Some (isopleth_id m),
          card {t \<in> participants ps signature r. mask_of ps roles t = m},
          card {k \<in> sets_with ps signature. \<exists>t. (r, t) \<in> set k \<and> mask_of ps roles t = m}))
       (sorted_list_of_set (cells_of ps roles signature))"

definition relationship_of :: "posit set \<Rightarrow> thing list \<Rightarrow> thing list \<Rightarrow> terrain_relationship \<Rightarrow> bool" where
  "relationship_of ps roles signature rel \<longleftrightarrow>
     rel_signature_id rel = signature_id signature
     \<and> unat (rel_appearance_sets rel) = card (sets_with ps signature)
     \<and> unat (rel_posits rel) = card (posits_with ps signature)
     \<and> role_totals_of ps signature (rel_role_totals rel)
     \<and> allocations_of ps roles signature (rel_allocations rel)"

text \<open>An appearance set has at most one key of a role, so a tally over all keys counts sets.\<close>

lemma length_filter_one:
  assumes "distinct (map fst k)" and "\<And>x. P x \<Longrightarrow> fst x = r"
  shows "length (filter P k) = of_bool (\<exists>x \<in> set k. P x)"
  using assms(1)
proof (induction k)
  case (Cons x k)
  show ?case
  proof (cases "P x")
    case True
    have "filter P k = []"
      using Cons.prems assms(2) [OF True] by (auto simp: filter_empty_conv image_iff dest!: assms(2))
    with True show ?thesis by simp
  qed (use Cons in simp)
qed simp

lemma length_filter_keys:
  assumes "distinct ks" and "set ks = K" and "\<And>k. k \<in> K \<Longrightarrow> distinct (map fst k)" and "\<And>x. P x \<Longrightarrow> fst x = r"
  shows "length (filter P (concat ks)) = card {k \<in> K. \<exists>x \<in> set k. P x}"
proof -
  have fin: "finite K" using assms(2) by (metis List.finite_set)
  have "length (filter P (concat ks)) = sum_list (map (\<lambda>k. length (filter P k)) ks)"
    by (simp add: filter_concat length_concat o_def)
  also have "\<dots> = (\<Sum>k \<in> K. length (filter P k))"
    using assms(1,2) by (simp add: sum_list_distinct_conv_sum_set)
  also have "\<dots> = (\<Sum>k \<in> K. of_bool (\<exists>x \<in> set k. P x))"
    by (rule sum.cong) (simp_all add: length_filter_one [OF assms(3,4)])
  also have "\<dots> = card {k \<in> K. \<exists>x \<in> set k. P x}"
    using fin by (simp add: Int_def sum_of_bool_eq)
  finally show ?thesis .
qed

lemma entries_sorted: "dom m = set ks \<Longrightarrow> sorted_wrt (<) ks \<Longrightarrow> entries m = map (\<lambda>k. (k, the (m k))) ks"
  by (simp add: entries_def strict_sorted_iff sorted_list_of_set.idem_if_sorted_distinct)

text \<open>The end of the walk over the sets of a signature.\<close>

lemma allocated_end:
  assumes st: "allocated signature (mask_of ps roles) (concat ks) (counts, cells)"
    and ks: "distinct ks" "set ks = sets_with ps signature"
    and wf: "wf_posits ps" and sorted: "sorted_wrt (<) signature"
  shows "role_totals_of ps signature (map role_total (entries counts))"
    and "allocations_of ps roles signature (map (allocation_dto signature) (entries cells))"
    and "rt \<in> set (map role_total (entries counts)) \<Longrightarrow>
      outcome (\<lambda>u. u = ()) (reconcile (map (allocation_dto signature) (entries cells)) rt)"
proof -
  let ?f = "mask_of ps roles" and ?keys = "concat ks" and ?K = "sets_with ps signature"
  have sign: "map fst k = signature" if "k \<in> ?K" for k using that by (simp add: sets_with_def)
  have dist: "distinct (map fst k)" if "k \<in> ?K" for k
    using sign [OF that] sorted by (simp add: strict_sorted_iff)
  have keys: "set ?keys = (\<Union>k \<in> ?K. set k)" using ks(2) by simp
  have role: "fst x \<in> set signature" if "x \<in> set ?keys" for x
    using that sign unfolding keys by force
  have part: "snd ` set (filter (in_role r) ?keys) = participants ps signature r" for r
    unfolding set_filter keys
    by (rule set_eqI) (auto simp add: image_iff Bex_def split_paired_Ex in_role_def participants_def)
  have cell: "snd ` set (filter (in_cell ?f (r, m)) ?keys) = {t \<in> participants ps signature r. ?f t = m}" for r m
    unfolding set_filter keys
    by (rule set_eqI) (auto simp add: image_iff Bex_def split_paired_Ex in_cell_def participants_def)
  have nz: "0 \<notin> participants ps signature r" for r
    using endpoints_not_genesis [OF wf] by (force simp: participants_def endpoints_of_def sets_with_def)
  have fin: "finite (participants ps signature r)" for r
    unfolding part [symmetric] by simp
  have n_role: "length (filter (in_role r) ?keys) = card ?K" if "r \<in> set signature" for r
  proof -
    have "\<exists>x \<in> set k. in_role r x" if "k \<in> ?K" for k
      using \<open>r \<in> set signature\<close> sign [OF that] by (auto simp: in_role_def)
    then have "{k \<in> ?K. \<exists>x \<in> set k. in_role r x} = ?K" by auto
    then show ?thesis using length_filter_keys [OF ks dist, of "in_role r" r] by (simp add: in_role_def)
  qed
  have n_cell: "length (filter (in_cell ?f (r, m)) ?keys) = card {k \<in> ?K. \<exists>t. (r, t) \<in> set k \<and> ?f t = m}" for r m
  proof -
    have "(\<exists>x \<in> set k. in_cell ?f (r, m) x) \<longleftrightarrow> (\<exists>t. (r, t) \<in> set k \<and> ?f t = m)" for k
      by (force simp: in_cell_def)
    then show ?thesis using length_filter_keys [OF ks dist, of "in_cell ?f (r, m)" r] by (simp add: in_cell_def)
  qed
  have dom_counts: "dom counts = set signature"
    using st by (auto simp: allocated_def dom_def split: option.splits)
  have count: "tallied (in_role r) ?keys (the (counts r))" if "r \<in> set signature" for r
    using allocated_role [OF st that] by fastforce
  have "c \<in> dom cells \<longleftrightarrow> (\<exists>x \<in> set ?keys. in_cell ?f c x)" for c
    using spec [OF conjunct2 [OF st [unfolded allocated_def]], of c] by (cases "cells c") auto
  then have "dom cells = {c. \<exists>x \<in> set ?keys. in_cell ?f c x}" by blast
  also have "\<dots> = (\<lambda>x. (fst x, ?f (snd x))) ` set ?keys"
    by (force simp: in_cell_def)
  also have "\<dots> = cells_of ps roles signature"
  proof (rule set_eqI, rule iffI)
    fix c assume "c \<in> (\<lambda>x. (fst x, ?f (snd x))) ` set ?keys"
    then obtain x where "x \<in> set ?keys" "c = (fst x, ?f (snd x))" by (elim imageE)
    moreover obtain r t where "x = (r, t)" by (cases x)
    ultimately have "(r, t) \<in> set ?keys" "c = (r, ?f t)" by simp_all
    moreover from this have "t \<in> participants ps signature r"
      unfolding participants_def ks(2) [symmetric] by auto
    ultimately show "c \<in> cells_of ps roles signature"
      using role [of "(r, t)"] by (auto simp: cells_of_def)
  next
    fix c assume "c \<in> cells_of ps roles signature"
    then obtain r t where "(r, t) \<in> set ?keys" "c = (r, ?f t)"
      unfolding cells_of_def participants_def ks(2) [symmetric] by auto
    then show "c \<in> (\<lambda>x. (fst x, ?f (snd x))) ` set ?keys" by (intro image_eqI [of _ _ "(r, t)"]) simp_all
  qed
  finally have dom_cells: "dom cells = cells_of ps roles signature" .
  have tally: "tallied (in_cell ?f c) ?keys (the (cells c))" if "c \<in> dom cells" for c
    using allocated_cell [OF st, of c] that by auto
  show totals: "role_totals_of ps signature (map role_total (entries counts))"
    unfolding role_totals_of_def entries_sorted [OF dom_counts sorted]
    using count [unfolded tallied_def part] by (simp add: role_total_def n_role unat_treemap_count nz)
  let ?cs = "sorted_list_of_set (cells_of ps roles signature)"
  have fin_cells: "finite (cells_of ps roles signature)" using fin by (simp add: cells_of_def)
  have es: "map (allocation_dto signature) (entries cells) = map (\<lambda>c. allocation_dto signature (c, the (cells c))) ?cs"
    by (simp add: entries_def dom_cells)
  have entry: "unat (al_distinct_things (allocation_dto signature (c, the (cells c)))) =
        card {t \<in> participants ps signature (fst c). ?f t = snd c}"
      "unat (al_participations (allocation_dto signature (c, the (cells c)))) =
        length (filter (in_cell ?f c) ?keys)"
    if "c \<in> set ?cs" for c
  proof -
    obtain r m where c: "c = (r, m)" by (cases c)
    have "tallied (in_cell ?f (r, m)) ?keys (the (cells (r, m)))"
      using tally that fin_cells dom_cells c by simp
    note this [unfolded tallied_def cell]
    then show "unat (al_distinct_things (allocation_dto signature (c, the (cells c)))) =
        card {t \<in> participants ps signature (fst c). ?f t = snd c}"
      "unat (al_participations (allocation_dto signature (c, the (cells c)))) =
        length (filter (in_cell ?f c) ?keys)"
      using nz by (simp_all add: allocation_dto_def c unat_treemap_count)
  qed
  show "allocations_of ps roles signature (map (allocation_dto signature) (entries cells))"
    unfolding allocations_of_def es map_map
  proof (rule map_cong [OF refl])
    fix c assume c: "c \<in> set ?cs"
    obtain r m where rm: "c = (r, m)" by (cases c)
    show "((\<lambda>a. (al_id a, al_role_id a, al_profile_id a, al_profile_mask a, al_isopleth_id a,
          unat (al_distinct_things a), unat (al_participations a)))
        \<circ> (\<lambda>c. allocation_dto signature (c, the (cells c)))) c =
      (case c of (r, m) \<Rightarrow> (allocation_id signature r m, role_id r, profile_id m, m,
          if m = 0 then None else Some (isopleth_id m),
          card {t \<in> participants ps signature r. ?f t = m},
          card {k \<in> ?K. \<exists>t. (r, t) \<in> set k \<and> ?f t = m}))"
      using entry [OF c] n_cell [of r m] by (simp add: rm allocation_dto_def)
  qed
  show "outcome (\<lambda>u. u = ()) (reconcile (map (allocation_dto signature) (entries cells)) rt)"
    if mem: "rt \<in> set (map role_total (entries counts))"
  proof -
    obtain r where r: "r \<in> set signature" and rt: "rt = role_total (r, the (counts r))"
      using mem by (auto simp: entries_sorted [OF dom_counts sorted])
    have things: "unat (rt_distinct_things rt) = card (participants ps signature r)"
      and parts: "unat (rt_participations rt) = length (filter (in_role r) ?keys)"
      using count [OF r, unfolded tallied_def part] nz
      by (simp_all add: rt role_total_def unat_treemap_count)
    let ?rs = "filter (\<lambda>c. fst c = r) ?cs"
    have sel: "filter (\<lambda>a. al_role_id a = rt_role_id rt) (map (allocation_dto signature) (entries cells)) =
        map (\<lambda>c. allocation_dto signature (c, the (cells c))) ?rs"
      unfolding es filter_map o_def
      by (intro arg_cong [where f = "map _"] filter_cong) (simp_all add: allocation_dto_def rt role_total_def split_def)
    have over: "sum_list (map g ?rs) = (\<Sum>m \<in> ?f ` participants ps signature r. g (r, m))" for g :: "thing \<times> u16 \<Rightarrow> nat"
    proof -
      have "set ?rs = Pair r ` ?f ` participants ps signature r"
        using r fin_cells by (auto simp: cells_of_def)
      moreover have "sum_list (map g ?rs) = (\<Sum>c \<in> set ?rs. g c)"
        by (rule sum_list_distinct_conv_sum_set) simp
      ultimately show ?thesis by (simp add: sum.reindex inj_on_def)
    qed
    show ?thesis
    proof (rule outcome_reconcile)
      show "sum_list (map (\<lambda>a. unat (al_distinct_things a))
          (filter (\<lambda>a. al_role_id a = rt_role_id rt) (map (allocation_dto signature) (entries cells)))) =
        unat (rt_distinct_things rt)"
      proof -
        have "sum_list (map (\<lambda>a. unat (al_distinct_things a)) (map (\<lambda>c. allocation_dto signature (c, the (cells c))) ?rs)) =
            sum_list (map (\<lambda>c. card {t \<in> participants ps signature (fst c). ?f t = snd c}) ?rs)"
          unfolding map_map by (intro arg_cong [where f = sum_list] map_cong refl) (simp add: entry)
        also have "\<dots> = (\<Sum>m \<in> ?f ` participants ps signature r. 1 * card {t \<in> participants ps signature r. ?f t = m})"
          by (simp add: over)
        also have "\<dots> = card (participants ps signature r)"
          using sum_by_key [OF fin [of r], of "\<lambda>_. 1" ?f] by simp
        finally show ?thesis unfolding sel things .
      qed
      show "sum_list (map (\<lambda>a. unat (al_participations a))
          (filter (\<lambda>a. al_role_id a = rt_role_id rt) (map (allocation_dto signature) (entries cells)))) =
        unat (rt_participations rt)"
      proof -
        have "sum_list (map (\<lambda>a. unat (al_participations a)) (map (\<lambda>c. allocation_dto signature (c, the (cells c))) ?rs)) =
            sum_list (map (\<lambda>c. length (filter (in_cell ?f c) ?keys)) ?rs)"
          unfolding map_map by (intro arg_cong [where f = sum_list] map_cong refl) (simp add: entry)
        also have "\<dots> = (\<Sum>m \<in> ?f ` participants ps signature r. length (filter (\<lambda>x. in_role r x \<and> ?f (snd x) = m) ?keys))"
          by (simp add: over in_cell_def [abs_def] in_role_def)
        also have "\<dots> = length (filter (in_role r) ?keys)"
          by (rule sum_filter_by) (use fin part [of r, symmetric] in auto)
        finally show ?thesis unfolding sel parts .
      qed
    qed
  qed
qed

lemma outcome_build_relationship:
  assumes fw: "profiled ps roles fw" and wf: "wf_posits ps"
    and sorted: "sorted_wrt (<) signature" and two: "2 \<le> length signature"
  shows "outcome (\<lambda>(rel, _). relationship_of ps roles signature rel)
    (fst (build_relationship E ex fw signature n w))"
proof -
  let ?f = "mask_of ps roles" and ?K = "sets_with ps signature" and ?work = "fw_signatures fw signature"
  have masks: "fw_profile_masks fw = (\<lambda>t. if t \<in> endpoints_of ps then Some (?f t) else None)"
    using fw by (simp add: profiled_def)
  have work: "case ?work of None \<Rightarrow> ?K = {} | Some sw \<Rightarrow> set (map set_key (sw_sets sw)) = ?K
      \<and> distinct (map set_key (sw_sets sw)) \<and> unat (sw_posits sw) = card (posits_with ps signature)"
    using fw two by (auto simp: profiled_def frame_of_def signatures_of_def split: option.splits dest: spec [where x = signature])
  let ?ks = "case ?work of None \<Rightarrow> [] | Some sw \<Rightarrow> map set_key (sw_sets sw)"
  have ks: "distinct ?ks" "set ?ks = ?K" using work by (auto split: option.splits)
  have walk: "outcome (allocated signature ?f (concat ?ks))
      (fst (case ?work of
           None \<Rightarrow> (Inr (map_of (map (\<lambda>r. (r, no_participations)) signature), Map.empty), w)
         | Some work \<Rightarrow> allocate_sets E ex (fw_profile_masks fw) 0 (sw_sets work)
             (map_of (map (\<lambda>r. (r, no_participations)) signature), Map.empty) w))" for w
  proof (cases ?work)
    case None
    then show ?thesis by (simp add: allocated_start)
  next
    case (Some sw)
    have K: "set_key ` set (sw_sets sw) = ?K" using work Some by simp
    have "set_roles s = signature" if "s \<in> set (sw_sets sw)" for s
      using that K by (auto simp: sets_with_def simp flip: set_key_projections(1))
    moreover have "fw_profile_masks fw (app_thing a) = Some (?f (app_thing a))"
      if "s \<in> set (sw_sets sw)" and "a \<in> set s" for s a
    proof -
      have "set_key s \<in> sets_of ps" using that(1) K by (auto simp: sets_with_def)
      then have "app_thing a \<in> endpoints_of ps"
        using that(2) set_key_projections(2) [of s] unfolding endpoints_of_def by blast
      then show ?thesis by (simp add: masks)
    qed
    ultimately show ?thesis
      using outcome_allocate_sets [OF allocated_start, of "sw_sets sw" signature "fw_profile_masks fw" ?f E ex 0 w]
      by (simp add: Some)
  qed
  have posits: "?work = None \<Longrightarrow> card (posits_with ps signature) = 0"
  proof -
    assume "?work = None"
    then have "?K = {}" using work by simp
    then have "posits_with ps signature = {}" by (auto simp: sets_with_def sets_of_def posits_with_def)
    then show ?thesis by simp
  qed
  have card_K: "card ?K = length ?ks" using distinct_card [OF ks(1)] ks(2) by simp
  have sets: "outcome (\<lambda>c. unat c = card ?K) (fst (case ?work of None \<Rightarrow> (Inr 0, w)
      | Some work \<Rightarrow> (usize_count (length (sw_sets work)) ''relationship appearance sets'', w)))" for w
    unfolding card_K by (cases ?work) (simp_all add: unat_usize_count)
  show ?thesis
    unfolding build_relationship_def Let_def
  proof (rule outcome_attempt_st [OF walk], unfold split_paired_all prod.case)
    fix counts cells w
    assume "allocated signature ?f (concat ?ks) (counts, cells)"
    note ends = allocated_end [OF this ks wf sorted]
    have checks: "outcome (\<lambda>us. us = map (\<lambda>_. ()) (map role_total (entries counts)))
        (try_map (reconcile (map (allocation_dto signature) (entries cells))) (map role_total (entries counts)))"
      by (rule outcome_try_map) (rule ends(3))
    show "outcome (\<lambda>(rel, _). relationship_of ps roles signature rel)
      (fst (attempt_st (usize_count (card (dom cells)) ''allocations'', w) (\<lambda>m w.
       attempt_st (checked_add n m ''allocations'', w) (\<lambda>n w.
       attempt_st (check_count_limit n (lim_allocations (ex_limits ex)) ''allocations'', w) (\<lambda>_ w.
       attempt_st (try_map (reconcile (map (allocation_dto signature) (entries cells)))
         (map role_total (entries counts)), w) (\<lambda>_ w.
       attempt_st (case ?work of None \<Rightarrow> (Inr 0, w)
           | Some work \<Rightarrow> (usize_count (length (sw_sets work)) ''relationship appearance sets'', w)) (\<lambda>sets w.
       (Inr (\<lparr>rel_signature_id = signature_id signature, rel_appearance_sets = sets,
          rel_posits = (case ?work of None \<Rightarrow> 0 | Some work \<Rightarrow> sw_posits work),
          rel_role_totals = map role_total (entries counts),
          rel_allocations = map (allocation_dto signature) (entries cells)\<rparr>, n), w))))))))"
      by (intro outcome_attempt_pure [OF unat_usize_count] outcome_attempt_pure [OF unat_checked_add]
          outcome_attempt_pure [OF outcome_check_count_limit] outcome_attempt_pure [OF checks]
          outcome_attempt_st [OF sets])
        (use ends(1,2) work posits in \<open>auto simp: relationship_of_def split: option.splits\<close>)
  qed
qed

definition relationships_of :: "posit set \<Rightarrow> thing list \<Rightarrow> thing list list \<Rightarrow> terrain_relationship list \<Rightarrow> bool" where
  "relationships_of ps roles signatures rels \<longleftrightarrow> list_all2 (relationship_of ps roles) signatures rels"

lemma outcome_build_relationships:
  assumes "profiled ps roles fw" and "wf_posits ps"
    and "\<forall>s \<in> set signatures. sorted_wrt (<) s \<and> 2 \<le> length s" and "relationships_of ps roles seen rels"
  shows "outcome (\<lambda>(rels, _). relationships_of ps roles (seen @ signatures) rels)
    (fst (build_relationships E ex fw i signatures rels n w))"
  using assms(3,4)
proof (induction signatures arbitrary: seen i rels n w)
  case (Cons s signatures)
  show ?case
    unfolding build_relationships.simps
  proof (rule outcome_attempt_st [OF outcome_checkpoint], rule outcome_attempt_st [OF outcome_build_relationship [OF assms(1,2)]])
    fix res :: "terrain_relationship \<times> u64" and w
    assume "case res of (rel, _) \<Rightarrow> relationship_of ps roles s rel"
    then obtain rel n where res: "res = (rel, n)" and rel: "relationship_of ps roles s rel" by (cases res) simp
    have "relationships_of ps roles (seen @ [s]) (rels @ [rel])"
      using Cons.prems(2) rel by (simp add: relationships_of_def list_all2_appendI)
    from Cons.IH [OF _ this, of "Suc i" n w] Cons.prems(1)
    show "outcome (\<lambda>(rels, _). relationships_of ps roles (seen @ s # signatures) rels)
        (fst ((case res of (rel, n) \<Rightarrow> \<lambda>w. build_relationships E ex fw (Suc i) signatures (rels @ [rel]) n w) w))"
      by (simp add: res)
  qed (use Cons.prems in simp_all)
qed simp

end
