(* ===== verification/Terrain_Sample.thy ===== *)
theory Terrain_Sample
  imports Terrain_Relationships Database_Properties
begin

text \<open>
  A database with one posit and an ascertainment of it, and the run of a terrain report over it step by
  step: the capture, the grouping, the two frames, their profiles and their relationships.
\<close>

section \<open>The database\<close>

definition survey_replayed :: "replayed_posit list" where
  "survey_replayed =
     [\<lparr>posit_identity = 6, posit_appearances = [(3, 1)],
        posit_value = \<lparr>token = ''7'', family = IntegerFamily\<rparr>, posit_time = Time (Year 2024)\<rparr>,
      \<lparr>posit_identity = 7, posit_appearances = [(1, 6), (2, 1)],
        posit_value = \<lparr>token = ''7'', family = IntegerFamily\<rparr>, posit_time = Time (Year 2024)\<rparr>]"

definition survey_database_of :: "replayed_posit list \<Rightarrow> database" where
  "survey_database_of posits =
     (let ps = map (object_of builtin_catalogue) posits; rs = map role_of builtin_catalogue
      in (empty_database None)
        \<lparr>generator := \<lparr>lower_bound = 7, retained = {1, 2, 3, 4, 5, 6, 7}\<rparr>,
         role_keeper := \<lparr>kept_roles = map_of (map (\<lambda>r. (label r, r)) rs),
           role_lookup = map_of (map (\<lambda>r. (role_thing r, r)) rs)\<rparr>,
         posit_keeper := \<lparr>by_posit = map_of (map (\<lambda>p. (pkey p, pthing p)) ps),
           by_thing = map_of (map (\<lambda>p. (pthing p, p)) ps), keeper_length = length ps\<rparr>,
         posit_time_lookup := map_of (map (\<lambda>p. (pthing p, ptime p)) ps),
         posit_thing_to_appearance_set := map_of (map (\<lambda>p. (pthing p, pset p)) ps),
         appearance_set_to_posit_thing := filed (\<lambda>p. [set_key (pset p)]) ps,
         role_to_posit_thing := filed (\<lambda>p. set_roles (pset p)) ps\<rparr>)"

lemma survey_replayed_ok: "catalogue (\<lambda>s. s) plain_lib gregorian builtin_catalogue survey_replayed"
proof -
  have "wf_literal plain_lib \<lparr>token = ''7'', family = IntegerFamily\<rparr>" "wf_string ''7''"
    by code_simp+
  moreover have "\<forall>p \<in> set survey_replayed. canonical_appearances (posit_appearances p)
      \<and> known_roles builtin_catalogue p \<and> posit_identity p \<noteq> 0"
    by code_simp
  moreover have "distinct (map role_identity builtin_catalogue @ map posit_identity survey_replayed)"
      "distinct (map proposition_of survey_replayed)"
    by code_simp+
  ultimately show ?thesis
    using builtin_catalogue_ok(1) [OF id_nfc_laws, where L = plain_lib and C = gregorian]
    by (auto simp: catalogue_def wf_posit_def wf_time_def survey_replayed_def)
qed

lemma survey_database_ok:
  "db_ok (\<lambda>s. s) plain_lib gregorian builtin_catalogue survey_replayed (survey_database_of survey_replayed)"
proof -
  have "\<forall>t \<in> things_of builtin_catalogue survey_replayed. t \<le> 7"
    by code_simp
  then show ?thesis
    using survey_replayed_ok builtin_catalogue_ok(2) [OF id_nfc_laws]
    by (simp add: db_ok_def roles_are_def posits_are_def appearances_ok_def survey_database_of_def Let_def
        empty_database_def)
qed

definition survey_env :: "nat terrain_env" where
  "survey_env = \<lparr>instant_now = (\<lambda>w. (w, w)), instant_add = (\<lambda>a b. Some (a + b)),
     time_now = (\<lambda>w. (Time (Year 2025), w)), try_owner = (\<lambda>w. (OwnerAcquired, w)), drop_owner = (\<lambda>w. w),
     sleep_1ms = (\<lambda>w. w + 1), hash_order = sorted_list_of_set\<rparr>"

lemma survey_env_law: "hash_order_law survey_env"
  by (simp add: hash_order_law_def survey_env_def)

lemma survey_roles:
  "map role_of builtin_catalogue =
     map (\<lambda>(t, name). \<lparr>role_thing = t, label = name, reserved = True\<rparr>)
       [(1, ''posit''), (2, ''ascertains''), (3, ''thing''), (4, ''class''), (5, ''subclass'')]"
  by code_simp

definition survey_posits :: "posit list" where
  "survey_posits =
     [\<lparr>pthing = 6, pset = [\<lparr>app_thing = 1, app_role = \<lparr>role_thing = 3, label = ''thing'', reserved = True\<rparr>\<rparr>],
        pvalue = \<lparr>token = ''7'', family = IntegerFamily\<rparr>, ptime = Time (Year 2024)\<rparr>,
      \<lparr>pthing = 7, pset =
          [\<lparr>app_thing = 6, app_role = \<lparr>role_thing = 1, label = ''posit'', reserved = True\<rparr>\<rparr>,
           \<lparr>app_thing = 1, app_role = \<lparr>role_thing = 2, label = ''ascertains'', reserved = True\<rparr>\<rparr>],
        pvalue = \<lparr>token = ''7'', family = IntegerFamily\<rparr>, ptime = Time (Year 2024)\<rparr>]"

lemma survey_objects: "map (object_of builtin_catalogue) survey_replayed = survey_posits"
  by code_simp

definition survey_options :: "nat terrain_options" where
  "survey_options = \<lparr>opt_as_of = Some (Time (Year 2025)), opt_timeout = None, opt_cancellation = None,
     opt_projected_role_limit = 8, opt_max_relationship_signatures = 16, opt_limits = default_terrain_limits\<rparr>"

section \<open>The run\<close>

definition survey_execution :: "u64 \<Rightarrow> nat terrain_execution" where
  "survey_execution n = \<lparr>ex_deadline = None, ex_cancellation = new_cancellation_token,
     ex_limits = default_terrain_limits, ex_temporal_comparisons = n\<rparr>"

lemma survey_check: "check_execution survey_env (survey_execution n) w = (Inr (), w)"
  by (simp add: check_execution_def survey_execution_def new_cancellation_token_def)

lemma survey_checkpoint: "checkpoint survey_env (survey_execution n) i w = (Inr (), w)"
  by (simp add: checkpoint_def survey_check)

lemma survey_limits: "ex_limits (survey_execution n) = default_terrain_limits"
  by (simp add: survey_execution_def)

definition survey_captured :: captured_database where
  "survey_captured =
     \<lparr>cap_totals = \<lparr>tot_referenced_things = 7, tot_roles = 5, tot_appearances = 0, tot_appearance_sets = 0,
        tot_posits = 2\<rparr>,
      cap_role_names = map_of (rev [(1, ''posit''), (2, ''ascertains''), (3, ''thing''), (4, ''class''), (5, ''subclass'')]),
      cap_posits = map captured survey_posits\<rparr>"

lemma survey_capture:
  "capture_terrain survey_env (survey_execution n) (survey_database_of survey_replayed) w = (Inr survey_captured, w)"
  unfolding survey_database_of_def survey_objects survey_roles capture_terrain_def
  by (simp add: survey_check survey_checkpoint survey_limits survey_posits_def Let_def usize_count_def snapshot_def
      survey_env_def [THEN arg_cong [where f = hash_order]]
      empty_database_def default_terrain_limits_def captured_def survey_captured_def)

lemma survey_shared_check: "borrowing (check_execution survey_env) (survey_execution n, w) = (Inr (), (survey_execution n, w))"
  by (simp add: borrowing_def survey_check)

lemma survey_comparison:
  "n < 1000 \<Longrightarrow> temporal_comparison survey_env (survey_execution n, w) = (Inr (), (survey_execution (n + 1), w))"
proof -
  assume n: "n < 1000"
  have "unat n + 1 < 2 ^ 64" using n by (simp add: word_less_nat_alt)
  then have add: "checked_add n 1 ''temporal comparisons'' = Inr (n + 1)"
    by (simp add: checked_add_def checked_add_u64_def)
  have "unat (n + 1) = unat n + 1" using n by (simp add: word_less_nat_alt unat_word_ariths)
  then have "\<not> n + 1 > 5000000" using n by (simp add: word_less_nat_alt)
  moreover have "lim_temporal_comparisons default_terrain_limits = 5000000"
    by (simp add: default_terrain_limits_def)
  ultimately show ?thesis
    by (simp add: temporal_comparison_def add survey_execution_def Let_def
        survey_shared_check [unfolded survey_execution_def])
qed

lemma survey_before: "definitely_at_or_before gregorian (Time (Year 2024)) (Time (Year 2025))"
  by (simp add: definitely_at_or_before_def definitely_before_def interval_def checked_add_i32_def)

definition survey_groups_map :: "appearance_key list \<rightharpoonup> captured_posit list" where
  "survey_groups_map = [[(3, 1)] \<mapsto> [captured (survey_posits ! 0)],
     [(1, 6), (2, 1)] \<mapsto> [captured (survey_posits ! 1)]]"

lemma survey_groups:
  "borrowing (group_posits survey_env 0 (cap_posits survey_captured) Map.empty) (survey_execution n, w) =
     (Inr survey_groups_map, (survey_execution n, w))"
  by (simp add: borrowing_def survey_captured_def survey_posits_def survey_checkpoint set_key_def akey_def captured_def
      survey_groups_map_def)

lemma survey_current:
  "current_records survey_env gregorian (Time (Year 2025)) (map snd (entries survey_groups_map)) []
     (survey_execution 0, w) =
     (Inr [captured (survey_posits ! 1), captured (survey_posits ! 0)], (survey_execution 2, w))"
  by (simp add: entries_def survey_posits_def captured_def survey_shared_check survey_comparison survey_before
      retain_maximal_def terrain_work_def word_le_nat_alt survey_groups_map_def)

definition survey_frame :: frame_work where
  "survey_frame =
     \<lparr>fw_stats = \<lparr>stat_endpoint_things = 2, stat_roles = 3, stat_appearance_sets = 2, stat_posits = 2,
        stat_incidences = 3\<rparr>,
      fw_endpoint_things = {1, 6}, fw_attribute_things = [3 \<mapsto> {1}],
      fw_signatures = [[1, 2] \<mapsto> \<lparr>sw_posits = 1, sw_sets = [pset (survey_posits ! 1)]\<rparr>],
      fw_profile_masks = Map.empty\<rparr>"

lemma survey_build:
  "borrowing (build_frame_work survey_env (map captured survey_posits)) (survey_execution n, w) =
     (Inr survey_frame, (survey_execution n, w))"
  by (simp add: borrowing_def build_frame_work_def survey_posits_def captured_def survey_checkpoint survey_limits entries_def
      set_key_def akey_def checked_add_def checked_add_u64_def checked_mul_def usize_count_def check_count_limit_def
      default_terrain_limits_def frame_set_def treemap_count_def set_roles_def word_le_nat_alt Let_def survey_frame_def
      insert_commute)

definition survey_names :: "thing \<rightharpoonup> string" where
  "survey_names = map_of (rev [(1, ''posit''), (2, ''ascertains''), (3, ''thing''), (4, ''class''), (5, ''subclass'')])"

definition survey_projection :: terrain_projection where
  "survey_projection = \<lparr>proj_complete = True, proj_total_attribute_roles = 1,
     proj_roles = [\<lparr>pr_id = role_id 3, pr_name = ''thing'', pr_bit = 0, pr_history_support = 1,
       pr_current_support = 1\<rparr>]\<rparr>"

lemma survey_projected: "build_projection survey_frame survey_frame survey_names 8 = Inr survey_projection"
  by (simp add: build_projection_def survey_frame_def survey_names_def usize_count_def role_name_of_def support_def
      treemap_count_def survey_projection_def Let_def)

definition survey_profiled :: frame_work where
  "survey_profiled = survey_frame\<lparr>fw_profile_masks := [1 \<mapsto> 1, 6 \<mapsto> 0]\<rparr>"

lemma survey_assigned:
  "borrowing (assign_profiles survey_env survey_frame survey_projection) (survey_execution n, w) =
     (Inr survey_profiled, (survey_execution n, w))"
  by (simp add: borrowing_def assign_profiles_def survey_frame_def survey_projection_def survey_checkpoint
      profile_mask_def profile_bit_def survey_profiled_def word_le_nat_alt)

lemma survey_catalog: "\<exists>catalog. build_catalog survey_profiled survey_profiled survey_names 16 = Inr (catalog, [[1, 2]])"
  by (simp add: build_catalog_def survey_profiled_def survey_frame_def usize_count_def role_name_of_def survey_names_def Let_def)

lemma survey_frame_profiles:
  "\<exists>x. frame_profiles_of survey_env survey_profiled (proj_roles survey_projection) = Inr x"
proof -
  have two: "[0..<2] = [0, 1]" "replicate 2 (0 :: u64) = [0, 0]"
    by (simp_all add: upt_rec numeral_2_eq_2)
  show ?thesis
    by (simp add: survey_profiled_def survey_frame_def survey_projection_def frame_profiles_of_def role_support_def
        survey_env_def [THEN arg_cong [where f = hash_order]] count_population_def checked_add_def checked_add_u64_def
        superset_sums_def superset_step_def two word_le_nat_alt Let_def)
qed

lemma survey_relationship:
  "\<exists>rels. build_relationships survey_env (survey_execution n) survey_profiled 0 [[1, 2]] [] 0 w = (Inr (rels, 2), w)"
  "\<exists>rels. build_relationships survey_env (survey_execution n) survey_profiled 0 [[1, 2]] [] 2 w = (Inr (rels, 4), w)"
  by (simp_all add: build_relationship_def survey_profiled_def survey_frame_def survey_checkpoint survey_posits_def
     allocate_def participate_def no_participations_def checked_add_def checked_add_u64_def usize_count_def check_count_limit_def
     survey_limits default_terrain_limits_def entries_def word_le_nat_alt role_total_def allocation_dto_def reconcile_def treemap_count_def Let_def)

lemma survey_finished:
  "\<exists>frame. borrowing (finish_frame survey_env scope survey_profiled survey_projection [[1, 2]] 0) (survey_execution n, w)
     = (Inr (frame, 2), (survey_execution n, w))"
  "\<exists>frame. borrowing (finish_frame survey_env scope survey_profiled survey_projection [[1, 2]] 2) (survey_execution n, w)
     = (Inr (frame, 4), (survey_execution n, w))"
  using survey_frame_profiles survey_relationship [where n = n and w = w]
  by (auto simp: borrowing_def finish_frame_def)

lemma survey_sorted: "sort_key cap_posit [captured (survey_posits ! 1), captured (survey_posits ! 0)] = map captured survey_posits"
  by (simp add: survey_posits_def captured_def)

lemma survey_aggregate:
  "\<exists>report st. aggregate survey_env gregorian survey_captured (Time (Year 2025)) 8 16 (survey_execution 0, w) = (Inr report, st)"
proof -
  obtain catalog where c: "build_catalog survey_profiled survey_profiled survey_names 16 = Inr (catalog, [[1, 2]])"
    using survey_catalog by blast
  obtain h where h: "borrowing (finish_frame survey_env History survey_profiled survey_projection [[1, 2]] 0)
      (survey_execution 2, w) = (Inr (h, 2), (survey_execution 2, w))"
    using survey_finished(1) by blast
  obtain f where f: "borrowing (finish_frame survey_env Current survey_profiled survey_projection [[1, 2]] 2)
      (survey_execution 2, w) = (Inr (f, 4), (survey_execution 2, w))"
    using survey_finished(2) by blast
  have names: "cap_role_names survey_captured = survey_names" and posits: "cap_posits survey_captured = map captured survey_posits"
    by (simp_all add: survey_captured_def survey_names_def)
  have count: "usize_count (card (dom survey_groups_map)) ''active appearance sets'' = Inr 2"
    by (simp add: usize_count_def survey_groups_map_def)
  have limit: "check_count_limit 2 (lim_active_appearance_sets (ex_limits (survey_execution 0))) ''active appearance sets'' = Inr ()"
    by (simp add: check_count_limit_def survey_limits default_terrain_limits_def)
  show ?thesis
    by (simp add: aggregate_def survey_groups count limit survey_current survey_sorted names survey_build survey_projected
      survey_assigned c h f survey_shared_check posits [THEN arg_cong, of "build_frame_work survey_env"]
      del: One_nat_def sort_key_simps)
qed

lemma survey_run:
  "\<exists>report w. terrain_with_options survey_env gregorian survey_options (survey_database_of survey_replayed) 0 = Some (Inr report, w)"
proof -
  have new: "new_terrain_execution survey_env survey_options 0 = (Inr (survey_execution 0), 0)"
    by (simp add: new_terrain_execution_def survey_options_def validate_limit_def survey_execution_def Let_def
      max_projected_role_limit_def max_relationship_signature_limit_def)
  have owner: "acquire_owner survey_env (survey_execution 0) 0 = Some (Inr (), 0)"
    by (subst acquire_owner.simps) (simp add: survey_env_def)
  have options: "opt_as_of survey_options = Some (Time (Year 2025))" "opt_projected_role_limit survey_options = 8"
      "opt_max_relationship_signatures survey_options = 16" and drop: "drop_owner survey_env w = w" for w
    by (simp_all add: survey_options_def survey_env_def)
  show ?thesis
    using survey_aggregate [of 0]
    by (auto simp: terrain_with_options_def new options survey_check owner survey_capture drop Let_def)
qed

end
