(* ===== verification/Terrain_Properties.thy ===== *)
theory Terrain_Properties
  imports Terrain_Sample
begin

text \<open>
  The report as a whole: what it says is what a reference over sets of posits says, for the posits of
  the database and for those in effect at the cutoff, and nothing but an interruption, a poisoned lock
  or a timeout that is too large keeps it from saying it.
\<close>

section \<open>The reference report\<close>

definition attribute_roles :: "posit set \<Rightarrow> thing set" where
  "attribute_roles ps = {r. attribute_things ps r \<noteq> {}}"

definition signature_set :: "posit set \<Rightarrow> thing list set" where
  "signature_set ps = {s. 2 \<le> length s \<and> sets_with ps s \<noteq> {}}"

text \<open>Roles by their supports, now and ever, then by name and identity; signatures by the numbers of
  their appearance sets, now and ever, then the longer first, then by names and identities.\<close>

definition ranked_roles :: "(thing \<rightharpoonup> string) \<Rightarrow> posit set \<Rightarrow> posit set \<Rightarrow> thing list" where
  "ranked_roles names ps current = sort_key
     (\<lambda>r. (- int (card (attribute_things current r)), - int (card (attribute_things ps r)), names r, r))
     (sorted_list_of_set (attribute_roles ps))"

definition ranked_signatures :: "(thing \<rightharpoonup> string) \<Rightarrow> posit set \<Rightarrow> posit set \<Rightarrow> thing list list" where
  "ranked_signatures names ps current = sort_key
     (\<lambda>s. (- int (card (sets_with current s)), - int (card (sets_with ps s)), - int (length s), map names s, s))
     (sorted_list_of_set (signature_set ps))"

definition frame_report ::
    "terrain_scope \<Rightarrow> posit set \<Rightarrow> thing list \<Rightarrow> thing list list \<Rightarrow> terrain_frame \<Rightarrow> bool" where
  "frame_report scope ps roles signatures frame \<longleftrightarrow>
     frame_scope frame = scope \<and> stats_of ps (frame_stats frame)
     \<and> supports_of ps roles (frame_role_supports frame)
     \<and> profiles_of ps roles (frame_profiles frame)
     \<and> isopleths_of ps roles (frame_isopleths frame)
     \<and> relationships_of ps roles signatures (frame_relationships frame)"

definition projection_report ::
    "(thing \<rightharpoonup> string) \<Rightarrow> posit set \<Rightarrow> posit set \<Rightarrow> nat \<Rightarrow> terrain_projection \<Rightarrow> bool" where
  "projection_report names ps current limit projection \<longleftrightarrow>
     (let ranked = ranked_roles names ps current
      in unat (proj_total_attribute_roles projection) = card (attribute_roles ps)
         \<and> (proj_complete projection \<longleftrightarrow> card (attribute_roles ps) \<le> limit)
         \<and> map (\<lambda>p. (pr_id p, Some (pr_name p), unat (pr_bit p), unat (pr_history_support p),
               unat (pr_current_support p))) (proj_roles projection) =
           map (\<lambda>(i, r). (role_id r, names r, i, card (attribute_things ps r),
               card (attribute_things current r))) (enumerate 0 (take limit ranked)))"

definition catalog_report ::
    "(thing \<rightharpoonup> string) \<Rightarrow> posit set \<Rightarrow> posit set \<Rightarrow> nat \<Rightarrow> terrain_relationship_catalog \<Rightarrow> bool" where
  "catalog_report names ps current limit catalog \<longleftrightarrow>
     (let selected = take limit (ranked_signatures names ps current)
      in unat (cat_total_signatures catalog) = card (signature_set ps)
         \<and> (cat_complete catalog \<longleftrightarrow> card (signature_set ps) \<le> limit)
         \<and> cat_default_signature_id catalog =
             (case selected of [] \<Rightarrow> None | s # _ \<Rightarrow> Some (signature_id s))
         \<and> map (\<lambda>s. (sig_id s, map (\<lambda>r. (ref_id r, Some (ref_name r))) (sig_roles s))) (cat_signatures catalog) =
           map (\<lambda>s. (signature_id s, map (\<lambda>r. (role_id r, names r)) s)) selected)"

definition report_of ::
    "chrono \<Rightarrow> time \<Rightarrow> (thing \<rightharpoonup> string) \<Rightarrow> posit set \<Rightarrow> nat \<Rightarrow> nat \<Rightarrow> terrain_report \<Rightarrow> bool" where
  "report_of C cutoff names ps role_limit signature_limit report \<longleftrightarrow>
     (let current = current_posits C cutoff ps;
          roles = take role_limit (ranked_roles names ps current);
          signatures = take signature_limit (ranked_signatures names ps current)
      in rep_resolved_as_of report = terrain_time_token C cutoff
         \<and> unat (tot_posits (rep_database report)) = card ps
         \<and> projection_report names ps current role_limit (rep_projection report)
         \<and> catalog_report names ps current signature_limit (rep_relationship_catalog report)
         \<and> frame_report History ps roles signatures (rep_history report)
         \<and> frame_report Current current roles signatures (rep_current report))"

section \<open>Rankings\<close>

lemma finite_attribute_roles: "finite ps \<Longrightarrow> finite (attribute_roles ps)"
proof -
  assume "finite ps"
  moreover have "attribute_roles ps \<subseteq> (\<Union>k \<in> sets_of ps. fst ` set k)"
    by (force simp: attribute_roles_def attribute_things_def)
  ultimately show ?thesis by (meson List.finite_set finite_UN_I finite_imageI finite_sets_of finite_subset)
qed

lemma finite_signature_set: "finite ps \<Longrightarrow> finite (signature_set ps)"
proof -
  assume "finite ps"
  moreover have "signature_set ps \<subseteq> map fst ` sets_of ps" by (auto simp: signature_set_def sets_with_def)
  ultimately show ?thesis by (meson finite_imageI finite_sets_of finite_subset)
qed

lemma dom_attributes: "frame_of ps fw \<Longrightarrow> dom (fw_attribute_things fw) = attribute_roles ps"
  by (auto simp: frame_of_def attribute_roles_def split: if_splits)

lemma signature_entry:
  assumes "frame_of ps fw"
  shows "case fw_signatures fw s of None \<Rightarrow> length s < 2 \<or> sets_with ps s = {}
    | Some sw \<Rightarrow> 2 \<le> length s \<and> sets_with ps s \<noteq> {}
        \<and> set (map set_key (sw_sets sw)) = sets_with ps s \<and> distinct (map set_key (sw_sets sw))
        \<and> unat (sw_posits sw) = card (posits_with ps s)"
  using assms unfolding frame_of_def signatures_of_def by blast

lemma dom_signatures: "frame_of ps fw \<Longrightarrow> dom (fw_signatures fw) = signature_set ps"
proof (rule set_eqI)
  fix s assume "frame_of ps fw"
  from signature_entry [OF this, of s] show "s \<in> dom (fw_signatures fw) \<longleftrightarrow> s \<in> signature_set ps"
    by (cases "fw_signatures fw s") (auto simp: signature_set_def)
qed

lemma signature_count: "frame_of ps fw \<Longrightarrow> 2 \<le> length s \<Longrightarrow> signature_set_count fw s = card (sets_with ps s)"
proof -
  assume fw: "frame_of ps fw" and s: "2 \<le> length s"
  from signature_entry [OF fw, of s] s show ?thesis
    using distinct_card [of "map set_key (sw_sets (the (fw_signatures fw s)))"]
    by (auto simp: signature_set_count_def split: option.splits)
qed

lemma uint_support: "frame_of ps fw \<Longrightarrow> wf_posits ps \<Longrightarrow> uint (support fw r) = int (card (attribute_things ps r))"
  using unat_support [of ps fw r] by (metis int_nat_eq unat_eq_nat_uint uint_nat)

text \<open>A later part of a set of posits.\<close>

lemma part_of:
  assumes "current \<subseteq> ps" and "wf_posits ps"
  shows "wf_posits current" and "attribute_roles current \<subseteq> attribute_roles ps"
    and "signature_set current \<subseteq> signature_set ps"
proof -
  have "sets_of current \<subseteq> sets_of ps" using assms(1) by (auto simp: sets_of_def)
  then show "wf_posits current" "attribute_roles current \<subseteq> attribute_roles ps"
      "signature_set current \<subseteq> signature_set ps"
    using assms by (auto simp: wf_posits_def attribute_roles_def attribute_things_def signature_set_def
        sets_with_def intro: finite_subset inj_on_subset)
qed

lemma candidates_ranked:
  assumes "frame_of ps history" and "frame_of current_ps current" and "current_ps \<subseteq> ps" and "wf_posits ps"
  shows "candidates history current names = ranked_roles names ps current_ps"
  using part_of [OF assms(3,4)] assms
  by (simp add: candidates_def ranked_roles_def dom_attributes uint_support Un_absorb2)

lemma insort_key_cong:
  "(\<And>y. y \<in> insert x (set xs) \<Longrightarrow> f y = g y) \<Longrightarrow> insort_key f x xs = insort_key g x xs"
  by (induction xs) auto

lemma sort_key_cong: "(\<And>x. x \<in> set xs \<Longrightarrow> f x = g x) \<Longrightarrow> sort_key f xs = sort_key g xs"
proof (induction xs)
  case (Cons x xs)
  have "sort_key f xs = sort_key g xs" by (rule Cons.IH) (use Cons.prems in simp)
  moreover have "insort_key f x (sort_key g xs) = insort_key g x (sort_key g xs)"
    by (rule insort_key_cong) (use Cons.prems in auto)
  ultimately show ?case by simp
qed simp

lemma signatures_ranked:
  assumes h: "frame_of ps history" and c: "frame_of current_ps current" and "current_ps \<subseteq> ps" and wf: "wf_posits ps"
  shows "sort_key (\<lambda>s. (- int (signature_set_count current s), - int (signature_set_count history s),
      - int (length s), map names s, s))
    (sorted_list_of_set (dom (fw_signatures history) \<union> dom (fw_signatures current))) =
    ranked_signatures names ps current_ps"
proof -
  have dom: "dom (fw_signatures history) \<union> dom (fw_signatures current) = signature_set ps"
    using part_of(3) [OF assms(3) wf] by (auto simp: dom_signatures [OF h] dom_signatures [OF c])
  have fin: "finite (signature_set ps)" using wf by (simp add: finite_signature_set wf_posits_def)
  show ?thesis
    unfolding dom ranked_signatures_def
    by (rule sort_key_cong) (use fin in \<open>simp_all add: signature_set_def signature_count [OF h] signature_count [OF c]\<close>)
qed

definition catalog_entry :: "(thing \<rightharpoonup> string) \<Rightarrow> thing list \<Rightarrow> terrain_relationship_signature" where
  "catalog_entry names s = \<lparr>sig_id = signature_id s,
     sig_roles = map (\<lambda>r. \<lparr>ref_id = role_id r, ref_name = the (names r)\<rparr>) s\<rparr>"

lemma outcome_build_catalog:
  assumes h: "frame_of ps history" and c: "frame_of current_ps current" and sub: "current_ps \<subseteq> ps" and wf: "wf_posits ps"
    and names: "roles_in ps \<subseteq> dom names"
  shows "outcome (\<lambda>(catalog, selected). catalog_report names ps current_ps limit catalog
      \<and> selected = take limit (ranked_signatures names ps current_ps))
    (build_catalog history current names limit)"
proof -
  let ?ss = "ranked_signatures names ps current_ps"
  have fin: "finite (signature_set ps)" using wf by (simp add: finite_signature_set wf_posits_def)
  have known: "names r = Some (the (names r))" if "s \<in> set ?ss" and "r \<in> set s" for s r
  proof -
    have "s \<in> signature_set ps" using that(1) fin by (simp add: ranked_signatures_def)
    then obtain k where "k \<in> sets_of ps" "map fst k = s" by (auto simp: signature_set_def sets_with_def)
    then have "r \<in> roles_in ps" using that(2) by (auto simp: roles_in_def)
    then show ?thesis using names by auto
  qed
  let ?f = "\<lambda>s. attempt (try_map (\<lambda>r. attempt (role_name_of names r) (\<lambda>name.
      Inr \<lparr>ref_id = role_id r, ref_name = name\<rparr>)) s) (\<lambda>roles. Inr \<lparr>sig_id = signature_id s, sig_roles = roles\<rparr>)"
  have "outcome (\<lambda>e. e = catalog_entry names s) (?f s)" if "s \<in> set (take limit ?ss)" for s
  proof (rule outcome_attempt)
    show "outcome (\<lambda>roles. roles = map (\<lambda>r. \<lparr>ref_id = role_id r, ref_name = the (names r)\<rparr>) s)
        (try_map (\<lambda>r. attempt (role_name_of names r) (\<lambda>name. Inr \<lparr>ref_id = role_id r, ref_name = name\<rparr>)) s)"
    proof (rule outcome_try_map)
      fix r assume "r \<in> set s"
      with known [OF in_set_takeD [OF that]] have "names r = Some (the (names r))" by blast
      then show "outcome (\<lambda>y. y = \<lparr>ref_id = role_id r, ref_name = the (names r)\<rparr>)
          (attempt (role_name_of names r) (\<lambda>name. Inr \<lparr>ref_id = role_id r, ref_name = name\<rparr>))"
        by (cases "names r") (simp_all add: role_name_of_def)
    qed
  qed (simp add: catalog_entry_def)
  then have entries: "outcome (\<lambda>es. es = map (catalog_entry names) (take limit ?ss)) (try_map ?f (take limit ?ss))"
    by (rule outcome_try_map)
  have len: "length ?ss = card (signature_set ps)" by (simp add: ranked_signatures_def)
  have report: "map (\<lambda>s. (sig_id s, map (\<lambda>r. (ref_id r, Some (ref_name r))) (sig_roles s)))
      (map (catalog_entry names) (take limit ?ss)) =
    map (\<lambda>s. (signature_id s, map (\<lambda>r. (role_id r, names r)) s)) (take limit ?ss)"
    using known by (auto simp: catalog_entry_def dest: in_set_takeD)
  show ?thesis
    unfolding build_catalog_def signatures_ranked [OF h c sub wf] Let_def
    by (intro outcome_attempt [OF unat_usize_count] outcome_attempt [OF entries])
      (simp add: catalog_report_def Let_def len report catalog_entry_def split: list.split del: map_map)
qed

lemma projection_report_of:
  assumes h: "frame_of ps history" and c: "frame_of current_ps current" and sub: "current_ps \<subseteq> ps" and wf: "wf_posits ps"
    and names: "roles_in ps \<subseteq> dom names" and limit: "limit \<le> max_projected_role_limit"
    and projection: "projection_of history current names limit projection"
  shows "projection_report names ps current_ps limit projection"
proof -
  let ?rs = "ranked_roles names ps current_ps"
  have fin: "finite (attribute_roles ps)" using wf by (simp add: finite_attribute_roles wf_posits_def)
  have cands: "candidates history current names = ?rs" by (rule candidates_ranked [OF h c sub wf])
  have len: "length ?rs = card (attribute_roles ps)" by (simp add: ranked_roles_def)
  have each: "(pr_id p, Some (pr_name p), unat (pr_bit p), unat (pr_history_support p), unat (pr_current_support p)) =
      (role_id r, names r, i, card (attribute_things ps r), card (attribute_things current_ps r))"
    if "(i, r) \<in> set (enumerate 0 (take limit ?rs))" and p: "p = projected_role history current names (i, r)" for i r p
  proof -
    have i: "i < 8" and r: "r \<in> set ?rs"
      using that(1) limit by (auto simp: in_set_enumerate_eq max_projected_role_limit_def dest: in_set_takeD)
    have "r \<in> attribute_roles ps" using r fin by (simp add: ranked_roles_def)
    then have "r \<in> roles_in ps" by (force simp: attribute_roles_def attribute_things_def roles_in_def)
    then have "names r = Some (the (names r))" using names by auto
    moreover have "unat (word_of_nat i :: u8) = i" using i by (simp add: unat_of_nat)
    ultimately show ?thesis
      using unat_support [OF h wf] unat_support [OF c part_of(1) [OF sub wf]] by (simp add: p projected_role_def)
  qed
  show ?thesis
    using projection each unfolding projection_of_def projection_report_def cands Let_def len
    by (auto simp: split_def)
qed

section \<open>Aggregation\<close>

lemma outcome_attempt_pure_pair:
  "outcome (\<lambda>(a, b). P a b) r \<Longrightarrow> (\<And>a b. P a b \<Longrightarrow> outcome Q (fst (f a b w))) \<Longrightarrow>
     outcome Q (fst (attempt_st (r, w) (\<lambda>(a, b). f a b)))"
  by (cases r) auto

lemma outcome_attempt_st_pair:
  "outcome (\<lambda>(a, b). P a b) (fst r) \<Longrightarrow> (\<And>a b s. P a b \<Longrightarrow> outcome Q (fst (f a b s))) \<Longrightarrow>
     outcome Q (fst (attempt_st r (\<lambda>(a, b). f a b)))"
  by (cases r; cases "fst r") auto

lemma outcome_finish_frame:
  assumes fw: "profiled ps roles fw" and wf: "wf_posits ps" and len: "length roles \<le> 8" and E: "hash_order_law E"
    and prs: "proj_roles projection = map (projected_role h c names) (enumerate 0 roles)"
    and sigs: "\<forall>s \<in> set signatures. sorted_wrt (<) s \<and> 2 \<le> length s"
  shows "outcome (\<lambda>(frame, _). frame_report scope ps roles signatures frame)
    (fst (finish_frame E scope fw projection signatures n ex w))"
proof -
  have stats: "stats_of ps (fw_stats fw)" using fw by (simp add: profiled_def frame_of_def)
  have rels: "outcome (\<lambda>(rels, _). relationships_of ps roles signatures rels)
      (fst (build_relationships E ex fw 0 signatures [] n w))" for w
    using outcome_build_relationships [OF fw wf sigs, of "[]" "[]" E ex 0 n w] by (simp add: relationships_of_def)
  show ?thesis
    unfolding finish_frame_def prs
    by (rule outcome_attempt_pure [OF outcome_frame_profiles [OF fw wf len E]], clarsimp,
        rule outcome_attempt_st [OF rels]) (auto simp: frame_report_def stats)
qed

text \<open>The signatures that are selected are those of appearance sets, sorted and of two roles or more.\<close>

lemma ranked_signatures_sorted:
  assumes "wf_posits ps" and "s \<in> set (take n (ranked_signatures names ps current))"
  shows "sorted_wrt (<) s \<and> 2 \<le> length s"
proof -
  have "s \<in> signature_set ps"
    using in_set_takeD [OF assms(2)] assms(1) by (simp add: ranked_signatures_def finite_signature_set wf_posits_def)
  then obtain k where "k \<in> sets_of ps" "map fst k = s" "2 \<le> length s"
    by (auto simp: signature_set_def sets_with_def)
  then show ?thesis using assms(1) by (auto simp: wf_posits_def canonical_appearances_def)
qed

lemma outcome_current:
  assumes "calendar C" and "records_of ps records" and "finite ps"
  shows "outcome (\<lambda>out. records_of (current_posits C cutoff ps) (sort_key cap_posit out))
    (fst (current_records E C cutoff (map snd (entries (grouped records))) [] st))"
  by (rule outcome_mono [OF outcome_current_records [OF assms(1)]])
    (simp add: current_records_of [OF assms(2,3)] del: map_map)

lemma outcome_groups:
  "outcome (\<lambda>g. g = grouped records) (fst (group_posits E 0 records Map.empty ex w))"
proof -
  have "grouped [] = Map.empty" by (simp add: grouped_def fun_eq_iff)
  then show ?thesis using outcome_group_posits [of "[]" records E 0 ex w] by simp
qed

lemma current_part: "current_posits C cutoff ps \<subseteq> ps"
  by (auto simp: current_posits_def)

lemma outcome_aggregate:
  assumes C: "calendar C" and E: "hash_order_law E" and cap: "capture_of rs psl cap"
    and wf: "wf_posits (set psl)" and known: "roles_in (set psl) \<subseteq> role_thing ` set rs"
    and limit: "role_limit \<le> max_projected_role_limit" and len: "length psl = card (set psl)"
  shows "outcome (report_of C cutoff (map_of (map (\<lambda>r. (role_thing r, label r)) rs)) (set psl)
      role_limit signature_limit)
    (fst (aggregate E C cap cutoff role_limit signature_limit st))"
proof -
  let ?ps = "set psl" and ?cur = "current_posits C cutoff (set psl)"
  let ?names = "map_of (map (\<lambda>r. (role_thing r, label r)) rs)"
  let ?roles = "take role_limit (ranked_roles ?names ?ps ?cur)"
  let ?sigs = "take signature_limit (ranked_signatures ?names ?ps ?cur)"
  have fin: "finite ?ps" by simp
  have sub: "?cur \<subseteq> ?ps" by (rule current_part)
  have wfc: "wf_posits ?cur" by (rule part_of(1) [OF sub wf])
  have records: "records_of ?ps (cap_posits cap)" and names: "cap_role_names cap = ?names"
    and total: "unat (tot_posits (cap_totals cap)) = card ?ps"
    using cap len by (simp_all add: capture_of_def records_of_def)
  have dom_names: "roles_in ?ps \<subseteq> dom ?names"
    using known by (simp add: dom_map_of_conv_image_fst image_image)
  have len8: "length ?roles \<le> 8" using limit by (simp add: max_projected_role_limit_def)
  have sigs: "\<forall>s \<in> set ?sigs. sorted_wrt (<) s \<and> 2 \<le> length s"
    using ranked_signatures_sorted [OF wf] by blast
  have attribute: "attribute_roles ?ps \<subseteq> roles_in ?ps"
    by (force simp: attribute_roles_def attribute_things_def roles_in_def)
  have projection: "outcome (\<lambda>projection. projection_report ?names ?ps ?cur role_limit projection
        \<and> proj_roles projection = map (projected_role history current ?names) (enumerate 0 ?roles))
      (build_projection history current ?names role_limit)"
    if h: "frame_of ?ps history" and c: "frame_of ?cur current" for history current
  proof -
    have "finite (dom (fw_attribute_things history) \<union> dom (fw_attribute_things current))"
      "dom (fw_attribute_things history) \<union> dom (fw_attribute_things current) \<subseteq> dom ?names"
      unfolding dom_attributes [OF h] dom_attributes [OF c]
      using attribute dom_names part_of(2) [OF sub wf] finite_attribute_roles [OF fin]
      by (auto intro: finite_subset)
    from outcome_build_projection [OF this limit] show ?thesis
      by (rule outcome_mono)
        (use projection_report_of [OF h c sub wf dom_names limit] candidates_ranked [OF h c sub wf]
          in \<open>simp add: projection_of_def Let_def\<close>)
  qed
  note history = outcome_borrowing [OF outcome_build_frame_work [OF records wf]]
  show ?thesis
    unfolding aggregate_def names
    apply (rule outcome_attempt_st [OF outcome_borrowing [OF outcome_groups]], simp only:)
    apply (rule outcome_attempt_pure [OF unat_usize_count])
    apply (rule outcome_attempt_pure [OF outcome_check_count_limit])
    apply (rule outcome_attempt_st [OF outcome_current [OF C records fin, of cutoff]])
    apply (rule outcome_attempt_st [OF history])
    apply (rule outcome_attempt_st [OF outcome_borrowing [OF outcome_build_frame_work [OF _ wfc]]], assumption)
    apply (elim conjE)
    apply (rule outcome_attempt_pure [OF projection], assumption, assumption)
    apply (elim conjE)
    apply (rule outcome_attempt_st [OF outcome_borrowing [OF outcome_assign_profiles [OF _ _ fin len8]]], assumption+)
    apply (rule outcome_attempt_st [OF outcome_borrowing [OF outcome_assign_profiles [OF _ _ finite_subset [OF sub fin] len8]]], assumption+)
    apply (elim conjE)
    apply (rule outcome_attempt_pure_pair [OF outcome_build_catalog [OF _ _ sub wf dom_names]])
      apply (simp add: profiled_def)
     apply (simp add: profiled_def)
    apply (elim conjE, hypsubst_thin)
    apply (rule outcome_attempt_st_pair [OF outcome_borrowing [OF outcome_finish_frame [OF _ wf len8 E _ sigs]]], assumption, assumption)
    apply (rule outcome_attempt_st_pair [OF outcome_borrowing [OF outcome_finish_frame [OF _ wfc len8 E _ sigs]]], assumption, assumption)
    apply (rule outcome_attempt_st [OF outcome_borrowing [OF outcome_check]])
    apply (simp add: report_of_def Let_def total)
    done
qed

section \<open>The report of a database\<close>

definition kept_posits :: "database \<Rightarrow> posit set" where
  "kept_posits db = ran (by_thing (posit_keeper db))"

definition kept_names :: "database \<Rightarrow> thing \<rightharpoonup> string" where
  "kept_names db r = map_option label (role_lookup (role_keeper db) r)"

text \<open>What may keep a report from being made.\<close>

definition terrain_refusal :: "database_error \<Rightarrow> bool" where
  "terrain_refusal e \<longleftrightarrow> interruption e \<or> e = Lock ''poisoned lock: another task failed inside''
     \<or> e = Execution ''Terrain timeout is too large''"

lemma new_terrain_execution_result:
  "case fst (new_terrain_execution E options w) of
     Inl e \<Rightarrow> terrain_refusal e
   | Inr ex \<Rightarrow> opt_projected_role_limit options \<le> max_projected_role_limit"
proof -
  have limit: "case validate_limit resource v m of Inl e \<Rightarrow> interruption e | Inr _ \<Rightarrow> True" for resource v m
    by (simp add: validate_limit_def resource_limit_def)
  have step: "case fst (attempt_st (validate_limit resource v m, w) f) of Inl e \<Rightarrow> terrain_refusal e | Inr ex \<Rightarrow> P ex"
    if "case fst (f () w) of Inl e \<Rightarrow> terrain_refusal e | Inr ex \<Rightarrow> P ex" for resource v m f P and w :: 'a
    using that limit [of resource v m] by (cases "validate_limit resource v m") (auto simp: terrain_refusal_def)
  show ?thesis
    unfolding new_terrain_execution_def Let_def
    by (intro step) (auto simp: terrain_refusal_def resource_limit_def ok_or_def split: option.splits prod.splits)
qed

lemma acquire_owner_result:
  assumes "acquire_owner E ex w = Some y"
  shows "case fst y of Inl e \<Rightarrow> terrain_refusal e | Inr _ \<Rightarrow> True"
proof (rule acquire_owner.raw_induct
    [where P = "\<lambda>_ _ _ y. case fst y of Inl e \<Rightarrow> terrain_refusal e | Inr _ \<Rightarrow> True", OF _ assms],
    goal_cases)
  case (1 f E ex w y)
  note body = 1(2) and rec = 1(1)
  show ?case
  proof (cases "fst (try_owner E w)")
    case OwnerWouldBlock
    let ?c = "check_execution E ex (snd (try_owner E w))"
    have "outcome (\<lambda>_. True) (fst ?c)" by (rule outcome_check)
    then show ?thesis
      using rec body OwnerWouldBlock by (cases "fst ?c") (auto simp: terrain_refusal_def)
  qed (use body in \<open>auto simp: terrain_refusal_def\<close>)
qed

lemma kept_of_lists:
  assumes "posits_are ps db" and "distinct (map pthing ps)" and "roles_are rs (role_keeper db)"
  shows "kept_posits db = set ps" and "kept_names db = map_of (map (\<lambda>r. (role_thing r, label r)) rs)"
proof -
  have "ran (map_of (map (\<lambda>p. (pthing p, p)) ps)) = snd ` set (map (\<lambda>p. (pthing p, p)) ps)"
    by (rule ran_distinct) (use assms(2) in \<open>simp add: o_def\<close>)
  then show "kept_posits db = set ps" using assms(1) by (simp add: kept_posits_def posits_are_def image_image)
  have "map_option label (map_of (map (\<lambda>r. (role_thing r, r)) rs) t) = map_of (map (\<lambda>r. (role_thing r, label r)) rs) t" for t
    by (induction rs) auto
  then show "kept_names db = map_of (map (\<lambda>r. (role_thing r, label r)) rs)"
    using assms(3) by (simp add: kept_names_def roles_are_def fun_eq_iff)
qed

lemma db_ok_lists:
  assumes "db_ok nfc L C roles posits db"
  defines "ps \<equiv> map (object_of roles) posits"
  shows "posits_are ps db" and "distinct (map pthing ps)" and "roles_are (map role_of roles) (role_keeper db)"
    and "distinct (map role_thing (map role_of roles))" and "wf_posits (set ps)"
    and "roles_in (set ps) \<subseteq> role_thing ` set (map role_of roles)"
proof -
  have cat: "catalogue nfc L C roles posits" and k: "roles_are (map role_of roles) (role_keeper db)"
    and "posits_are ps db"
    using assms by (simp_all add: db_ok_def)
  then show "posits_are ps db" "roles_are (map role_of roles) (role_keeper db)" by simp_all
  show distinct: "distinct (map pthing ps)" and "distinct (map role_thing (map role_of roles))"
    using cat by (simp_all add: ps_def catalogue_def o_def)
  have known: "known_roles roles p" "canonical_appearances (posit_appearances p)" if "p \<in> set posits" for p
    using cat that by (simp_all add: catalogue_def wf_posit_def)
  have keys: "sets_of (set ps) = posit_appearances ` set posits"
    using known_object [OF k known(1)] by (simp add: sets_of_def ps_def image_image)
  show "wf_posits (set ps)"
    using distinct known(2) by (auto simp: wf_posits_def keys distinct_map)
  show "roles_in (set ps) \<subseteq> role_thing ` set (map role_of roles)"
    using known(1) by (force simp: roles_in_def keys known_roles_def image_image)
qed

lemma interruption_refusal: "interruption e \<Longrightarrow> terrain_refusal e"
  by (simp add: terrain_refusal_def)

lemma outcome_refusal: "outcome P r \<Longrightarrow> case r of Inl e \<Rightarrow> terrain_refusal e | Inr a \<Rightarrow> P a"
  by (cases r) (simp_all add: interruption_refusal)

text \<open>The part of a run that holds the owner and what comes after.\<close>

lemma outcome_owned:
  assumes C: "calendar C" and E: "hash_order_law E" and ok: "db_ok nfc L C' roles posits db"
    and limit: "role_limit \<le> max_projected_role_limit"
  shows "outcome (report_of C cutoff (kept_names db) (kept_posits db) role_limit signature_limit)
    (fst (let (captured, w) = capture_terrain E ex db w; w = drop_owner E w
      in attempt_st (captured, w) (\<lambda>captured w.
         attempt_st (check_execution E ex w) (\<lambda>_ w.
         let (r, (ex, w)) = aggregate E C captured cutoff role_limit signature_limit (ex, w)
         in (r, w)))))"
proof -
  let ?rs = "map role_of roles" and ?ps = "map (object_of roles) posits"
  note lists = db_ok_lists [OF ok]
  obtain r w' where run: "capture_terrain E ex db w = (r, w')" by fastforce
  have captured: "outcome (capture_of ?rs ?ps) r"
    using outcome_capture [OF lists(3,4,1,2) E, of ex w] by (simp add: run)
  have len: "length ?ps = card (set ?ps)"
    using lists(2) by (metis distinct_card distinct_map)
  have rest: "outcome (report_of C cutoff (kept_names db) (kept_posits db) role_limit signature_limit)
      (fst (let (r, (ex, w)) = aggregate E C cap cutoff role_limit signature_limit (ex, w) in (r, w)))"
    if "capture_of ?rs ?ps cap" for cap ex w
    using outcome_aggregate [OF C E that lists(5,6) limit len, of cutoff signature_limit "(ex, w)"]
    by (cases "aggregate E C cap cutoff role_limit signature_limit (ex, w)")
      (simp add: kept_of_lists [OF lists(1,2,3)] split_beta)
  show ?thesis
    unfolding run prod.case Let_def [of "(r, w')"] Let_def [of "drop_owner E w'"]
    by (intro outcome_attempt_pure [OF captured] outcome_attempt_st [OF outcome_check] rest)
qed

lemma terrain_result:
  assumes "calendar C" and "hash_order_law E" and "db_ok nfc L C' roles posits db"
    and "terrain_with_options E C options db w = Some (r, w')"
  shows "case r of Inl e \<Rightarrow> terrain_refusal e
    | Inr report \<Rightarrow> \<exists>cutoff. (opt_as_of options = None \<or> opt_as_of options = Some cutoff)
        \<and> report_of C cutoff (kept_names db) (kept_posits db) (opt_projected_role_limit options)
            (opt_max_relationship_signatures options) report"
proof -
  obtain e0 w0 where new: "new_terrain_execution E options w = (e0, w0)" by fastforce
  show ?thesis
  proof (cases e0)
    case (Inl e)
    then show ?thesis
      using assms(4) new_terrain_execution_result [where E = E and options = options and w = w] by (auto simp: terrain_with_options_def new)
  next
    case (Inr ex)
    have limit: "opt_projected_role_limit options \<le> max_projected_role_limit"
      using new_terrain_execution_result [where E = E and options = options and w = w] by (simp add: new Inr)
    obtain cutoff w1 where cutoff: "(case opt_as_of options of None \<Rightarrow> time_now E w0 | Some t \<Rightarrow> (t, w0)) = (cutoff, w1)"
      by fastforce
    obtain c w2 where check: "check_execution E ex w1 = (c, w2)" by fastforce
    have c: "outcome (\<lambda>_. True) c" using outcome_check [of E ex w1] by (simp add: check)
    show ?thesis
    proof (cases c)
      case (Inl e)
      then show ?thesis
        using assms(4) c \<open>e0 = Inr ex\<close> by (auto simp: terrain_with_options_def new cutoff check interruption_refusal)
    next
      case (Inr u)
      show ?thesis
      proof (cases "acquire_owner E ex w2")
        case None
        then show ?thesis using assms(4) Inr \<open>e0 = Inr ex\<close> by (simp add: terrain_with_options_def new cutoff check)
      next
        case (Some y)
        obtain o1 w3 where y: "y = (o1, w3)" by (cases y)
        note owned = outcome_refusal [OF outcome_owned [OF assms(1-3) limit, where ex = ex and w = w3 and cutoff = cutoff
              and signature_limit = "opt_max_relationship_signatures options"]]
        have "opt_as_of options = None \<or> opt_as_of options = Some cutoff"
          using cutoff by (cases "opt_as_of options") auto
        then show ?thesis
          using assms(4) Inr \<open>e0 = Inr ex\<close> acquire_owner_result [OF Some] owned
          by (cases o1) (auto simp: terrain_with_options_def new cutoff check Some y split: sum.splits)
      qed
    qed
  qed
qed

section \<open>The wait for the owner\<close>

text \<open>The monotonic clock: every reading is the time elapsed, which never goes back, and a sleep lets some
  pass.  A cancellation token that is consulted does not turn it back either.\<close>

definition clock_law :: "'w terrain_env \<Rightarrow> ('w \<Rightarrow> nat) \<Rightarrow> bool" where
  "clock_law E elapsed \<longleftrightarrow>
     (\<forall>w. fst (instant_now E w) = elapsed w \<and> elapsed w \<le> elapsed (snd (instant_now E w))
        \<and> elapsed w \<le> elapsed (snd (try_owner E w)) \<and> elapsed w < elapsed (sleep_1ms E w))"

definition token_law :: "('w \<Rightarrow> nat) \<Rightarrow> 'w cancellation_token \<Rightarrow> bool" where
  "token_law elapsed cancelled \<longleftrightarrow> (\<forall>w. elapsed w \<le> elapsed (snd (cancelled w)))"

lemma check_execution_time:
  assumes "clock_law E elapsed" and "token_law elapsed (ex_cancellation ex)" and "ex_deadline ex = Some end_time"
    and "check_execution E ex w = (Inr (), w')"
  shows "elapsed w \<le> elapsed w'" and "elapsed w < end_time"
proof -
  obtain c w1 where token: "ex_cancellation ex w = (c, w1)" by fastforce
  obtain now w2 where clock: "instant_now E w1 = (now, w2)" by fastforce
  have "elapsed w \<le> elapsed w1" using assms(2) by (metis token token_law_def snd_conv)
  moreover have "now = elapsed w1" "elapsed w1 \<le> elapsed w2"
    using assms(1) clock by (metis clock_law_def fst_conv, metis clock_law_def snd_conv)
  ultimately show "elapsed w \<le> elapsed w'" "elapsed w < end_time"
    using assms(3,4) by (auto simp: check_execution_def token clock split: if_splits)
qed

lemma acquire_owner_returns:
  assumes clock: "clock_law E elapsed" and token: "token_law elapsed (ex_cancellation ex)"
    and timed: "ex_deadline ex = Some end_time"
  shows "acquire_owner E ex w \<noteq> None"
proof (induction "end_time - elapsed w" arbitrary: w rule: less_induct)
  case less
  show ?case
  proof (cases "fst (try_owner E w)")
    case OwnerWouldBlock
    obtain c w2 where check: "check_execution E ex (snd (try_owner E w)) = (c, w2)" by fastforce
    show ?thesis
    proof (cases c)
      case (Inr u)
      then have run: "check_execution E ex (snd (try_owner E w)) = (Inr (), w2)" using check by simp
      have "elapsed w \<le> elapsed (snd (try_owner E w))" "elapsed w2 < elapsed (sleep_1ms E w2)"
        using clock by (simp_all add: clock_law_def)
      then have "end_time - elapsed (sleep_1ms E w2) < end_time - elapsed w"
        using check_execution_time [OF clock token timed run] by linarith
      then show ?thesis
        using less by (subst acquire_owner.simps) (simp add: OwnerWouldBlock run)
    qed (subst acquire_owner.simps, simp add: OwnerWouldBlock check)
  qed (subst acquire_owner.simps, simp)+
qed

lemma new_terrain_execution_timed:
  assumes "new_terrain_execution E options w = (Inr ex, w')" and "opt_timeout options = Some timeout"
  shows "\<exists>end_time. ex_deadline ex = Some end_time"
    and "ex_cancellation ex = (case opt_cancellation options of None \<Rightarrow> new_cancellation_token | Some t \<Rightarrow> t)"
proof -
  have step: "attempt_st (r, v) f = (Inr ex, w') \<Longrightarrow> \<exists>a. f a v = (Inr ex, w')" for r :: "'b result" and v f
    by (cases r) auto
  have "(\<exists>end_time. ex_deadline ex = Some end_time)
      \<and> ex_cancellation ex = (case opt_cancellation options of None \<Rightarrow> new_cancellation_token | Some t \<Rightarrow> t)"
    using assms
    by (auto simp: new_terrain_execution_def Let_def ok_or_def split: if_splits option.splits prod.splits
        dest!: step)
  then show "\<exists>end_time. ex_deadline ex = Some end_time"
    "ex_cancellation ex = (case opt_cancellation options of None \<Rightarrow> new_cancellation_token | Some t \<Rightarrow> t)" by auto
qed

section \<open>Properties\<close>

text \<open>C1: a terrain report says exactly what its reference says: for all posits of the database and for
  those in effect at the cutoff, the numbers of things, roles, appearance sets, posits and incidences;
  for the best-supported attribute roles, how many things have exactly and how many have at least each
  combination of them; and for the most frequent signatures of relationships, how many things take
  part in each role and with which profiles.  Counts computed in machine words, in place and in one
  pass, are the cardinalities of the sets they stand for.\<close>

theorem terrain_report_is_reference:
  assumes "calendar C" and "hash_order_law E" and "db_ok nfc L C' roles posits db"
    and "terrain_with_options E C options db w = Some (Inr report, w')"
  shows "\<exists>cutoff. (opt_as_of options = None \<or> opt_as_of options = Some cutoff)
    \<and> report_of C cutoff (kept_names db) (kept_posits db) (opt_projected_role_limit options)
        (opt_max_relationship_signatures options) report"
  using terrain_result [OF assms] by simp

theorem terrain_report_is_reference_witness:
  "\<exists>report. report_of gregorian (Time (Year 2025)) (kept_names (survey_database_of survey_replayed))
     (kept_posits (survey_database_of survey_replayed)) 8 16 report"
proof -
  obtain report w where run: "terrain_with_options survey_env gregorian survey_options
      (survey_database_of survey_replayed) 0 = Some (Inr report, w)"
    using survey_run by blast
  show ?thesis
    using terrain_report_is_reference [OF gregorian.calendar_axioms survey_env_law survey_database_ok run]
    by (auto simp: survey_options_def)
qed

text \<open>C2: on a sound database the consistency checks of a terrain run never fail: no mismatched index,
  unknown role, mask outside the projection, lost endpoint or unreconciled allocation is ever reported.
  A run without a report was cancelled, timed out or met a limit, found the owner lock poisoned, or was
  given a timeout beyond the clock.\<close>

theorem terrain_never_inconsistent:
  assumes "calendar C" and "hash_order_law E" and "db_ok nfc L C' roles posits db"
    and "terrain_with_options E C options db w = Some (Inl e, w')"
  shows "e = Cancelled \<or> e = Timeout \<or> (\<exists>resource limit. e = ResourceLimit resource limit)
    \<or> e = Lock ''poisoned lock: another task failed inside'' \<or> e = Execution ''Terrain timeout is too large''"
  using terrain_result [OF assms] by (cases e) (simp_all add: terrain_refusal_def)


theorem terrain_never_inconsistent_witness:
  "\<exists>e w. terrain_with_options survey_env gregorian (survey_options\<lparr>opt_projected_role_limit := 9\<rparr>)
       (survey_database_of survey_replayed) 0 = Some (Inl e, w)
     \<and> (e = Cancelled \<or> e = Timeout \<or> (\<exists>resource limit. e = ResourceLimit resource limit)
        \<or> e = Lock ''poisoned lock: another task failed inside'' \<or> e = Execution ''Terrain timeout is too large'')"
proof -
  have run: "terrain_with_options survey_env gregorian (survey_options\<lparr>opt_projected_role_limit := 9\<rparr>)
      (survey_database_of survey_replayed) 0 = Some (Inl (ResourceLimit ''projected attribute Roles'' 8), 0)"
    by (simp add: terrain_with_options_def new_terrain_execution_def survey_options_def validate_limit_def Let_def
        max_projected_role_limit_def resource_limit_def)
  show ?thesis
    using terrain_never_inconsistent [OF gregorian.calendar_axioms survey_env_law survey_database_ok run] run by blast
qed

text \<open>C3: a terrain run with a timeout always comes back: the owner lock is polled at intervals with the
  deadline read between two attempts, so even an owner that never lets go cannot keep the caller waiting.\<close>

theorem terrain_returns:
  assumes "clock_law E elapsed" and "opt_timeout options = Some timeout"
    and "\<And>token. opt_cancellation options = Some token \<Longrightarrow> token_law elapsed token"
  shows "\<exists>r w'. terrain_with_options E C options db w = Some (r, w')"
proof -
  obtain e0 w0 where new: "new_terrain_execution E options w = (e0, w0)" by fastforce
  show ?thesis
  proof (cases e0)
    case (Inr ex)
    obtain end_time where "ex_deadline ex = Some end_time" and
        "ex_cancellation ex = (case opt_cancellation options of None \<Rightarrow> new_cancellation_token | Some t \<Rightarrow> t)"
      using new_terrain_execution_timed [OF new [unfolded Inr] assms(2)] by blast
    moreover have "token_law elapsed (case opt_cancellation options of None \<Rightarrow> new_cancellation_token | Some t \<Rightarrow> t)"
      using assms(3) by (simp add: token_law_def new_cancellation_token_def split: option.split)
    ultimately have owner: "acquire_owner E ex w \<noteq> None" for w by (intro acquire_owner_returns [OF assms(1)]) simp_all
    show ?thesis
      by (simp add: terrain_with_options_def new Inr Let_def owner split: prod.split sum.split option.split)
  qed (simp add: terrain_with_options_def new)
qed

definition busy_env :: "nat terrain_env" where
  "busy_env = survey_env\<lparr>try_owner := (\<lambda>w. (OwnerWouldBlock, w))\<rparr>"

theorem terrain_returns_witness:
  "\<exists>r w'. terrain_with_options busy_env gregorian (survey_options\<lparr>opt_timeout := Some 5\<rparr>)
     (survey_database_of survey_replayed) 0 = Some (r, w')"
  by (rule terrain_returns [where elapsed = "\<lambda>w. w" and timeout = 5])
    (simp_all add: clock_law_def busy_env_def survey_env_def survey_options_def)

end
