(* ===== verification/Snapshot.thy ===== *)
theory Snapshot
  imports Replay Store_Properties
begin

text \<open>
  Read-only snapshots of a store (\<open>StoreSnapshot\<close> of \<open>src/storage.rs\<close>): opening one under a shared
  lock, its replay, and the physical copy of the committed store it makes.

  A directory that does not exist is None.  The lock is an argument: whether no writer holds it.
\<close>

record store_snapshot =
  snap_log :: bytes
  snap_manifest :: manifest
  snap_batch_count :: nat
  snap_file_length :: nat

text \<open>\<open>open_internal\<close>, for any consumer of the batches.  The log is not truncated.\<close>

definition open_snapshot ::
    "bool \<Rightarrow> 's on_batch \<Rightarrow> 's \<Rightarrow> disk option \<Rightarrow> (store_snapshot \<times> 's) result" where
  "open_snapshot shareable on_batch st directory =
     (case directory of
        None \<Rightarrow> Inl (Persistence ''store is not a directory'')
      | Some d \<Rightarrow>
     if \<not> shareable then Inl (Persistence ''store is currently owned by a writer'')
     else
     attempt (case manifest_file d of None \<Rightarrow> Inl io_error | Some bs \<Rightarrow> read_manifest bs) (\<lambda>m.
     case log_file d of
       None \<Rightarrow> Inl io_error
     | Some log \<Rightarrow>
     attempt (verify_log_header log (store_uuid m)) (\<lambda>_.
     if unat (committed_length m) < log_header_len \<or> unat (committed_length m) > length log
     then corruption ''manifest committed length is invalid for log length''
     else
     attempt (scan_committed log (unat (committed_length m)) on_batch st) (\<lambda>(meta, st).
     Inr (\<lparr>snap_log = log, snap_manifest = m, snap_batch_count = meta_batch_count meta,
        snap_file_length = length log\<rparr>, st)))))"

definition open_snapshot_replayed ::
    "(string \<Rightarrow> string) \<Rightarrow> 'n literal_lib \<Rightarrow> chrono \<Rightarrow> bool \<Rightarrow> disk option
       \<Rightarrow> (store_snapshot \<times> replayed_store) result" where
  "open_snapshot_replayed nfc L C shareable directory =
     attempt (open_snapshot shareable (apply_batch nfc L C) (new_replay []) directory) (\<lambda>(s, st).
     attempt (finish_replay (st\<lparr>replay_uuid := store_uuid (snap_manifest s)\<rparr>)) (\<lambda>replayed.
     Inr (s, replayed)))"

text \<open>The replay of the log a writer holds open, \<open>LogStore::replay_logical\<close>.\<close>

definition store_replay_logical ::
    "(string \<Rightarrow> string) \<Rightarrow> 'n literal_lib \<Rightarrow> chrono \<Rightarrow> log_store \<Rightarrow> replayed_store result" where
  "store_replay_logical nfc L C s =
     attempt (scan_committed (case log_file (store_disk s) of Some log \<Rightarrow> log | None \<Rightarrow> [])
         (unat (committed_length (store_manifest s))) (apply_batch nfc L C) (new_replay []))
       (\<lambda>(meta, st). finish_replay (st\<lparr>replay_uuid := store_uuid (store_manifest s)\<rparr>))"

section \<open>Backup\<close>

text \<open>Where a backup fails: at creating its directory or its lock file, while the log is copied, while
  the manifest is written (and what these files then hold), or at the sync of the directories.\<close>

datatype backup_fault =
    No_backup_fault
  | Backup_directory_fault "disk option"
  | Backup_log_fault "bytes option"
  | Backup_manifest_fault "bytes option"
  | Backup_sync_fault

definition backup_to ::
    "backup_fault \<Rightarrow> disk \<Rightarrow> store_snapshot \<Rightarrow> disk option \<Rightarrow> unit result \<times> disk option" where
  "backup_to fault source s destination =
     (if destination \<noteq> None
      then (Inl (Persistence ''backup destination already exists''), destination)
      else
      case fault of
        Backup_directory_fault d \<Rightarrow> (Inl io_error, d)
      | Backup_log_fault left \<Rightarrow>
          (Inl io_error, Some \<lparr>log_file = left, manifest_file = None, next_file = None\<rparr>)
      | _ \<Rightarrow>
      let copied = take (unat (committed_length (snap_manifest s))) (snap_log s);
          d = \<lparr>log_file = Some copied, manifest_file = None, next_file = None\<rparr>
      in if length copied \<noteq> unat (committed_length (snap_manifest s))
         then (Inl (Persistence ''backup copied too few log bytes''), Some d)
         else case manifest_file source of
           None \<Rightarrow> (Inl io_error, Some d)
         | Some manifest_bytes \<Rightarrow>
             (case fault of
                Backup_manifest_fault left \<Rightarrow> (Inl io_error, Some (d\<lparr>manifest_file := left\<rparr>))
              | Backup_sync_fault \<Rightarrow>
                  (Inl io_error, Some (d\<lparr>manifest_file := Some manifest_bytes\<rparr>))
              | _ \<Rightarrow> (Inr (), Some (d\<lparr>manifest_file := Some manifest_bytes\<rparr>))))"

section \<open>Snapshots of what a disk holds\<close>

text \<open>The copy of a store ends where its committed log ends.\<close>

definition committed_copy :: "disk \<Rightarrow> bytes \<Rightarrow> stored_record list list \<Rightarrow> bool" where
  "committed_copy d uuid bss \<longleftrightarrow> disk_holds d uuid bss
     \<and> (\<exists>log m. log_file d = Some log \<and> manifest_file d = Some (encode_manifest m)
        \<and> length (store_uuid m) = 16 \<and> length log = unat (committed_length m))"

lemma open_snapshot_holds:
  assumes "disk_holds d uuid bss" and "log_fits d"
  obtains s where "open_snapshot True ob st (Some d) = attempt (try_fold ob bss st) (\<lambda>st. Inr (s, st))"
    and "store_uuid (snap_manifest s) = uuid" and "snap_batch_count s = length bss"
    and "log_file d = Some (snap_log s)" and "snap_file_length s = length (snap_log s)"
    and "manifest_file d = Some (encode_manifest (snap_manifest s))"
    and "unat (committed_length (snap_manifest s)) \<le> length (snap_log s)"
    and "\<And>n. committed_copy \<lparr>log_file = Some (take (unat (committed_length (snap_manifest s))) (snap_log s)),
        manifest_file = Some (encode_manifest (snap_manifest s)), next_file = n\<rparr> uuid bss"
proof -
  obtain bs tail seq b where u: "length uuid = 16"
    and log: "log_file d = Some (encode_log_header uuid @ bs @ tail)"
    and len: "log_header_len + length bs < 2 ^ 64"
    and man: "manifest_file d = Some (encode_manifest
      \<lparr>store_uuid = uuid, committed_length = word_of_nat (log_header_len + length bs)\<rparr>)"
    and bss: "logged 1 1 bss bs seq b"
    using assms(1) unfolding disk_holds_def by blast
  let ?n = "log_header_len + length bs" and ?log = "encode_log_header uuid @ bs @ tail"
  let ?m = "\<lparr>store_uuid = uuid, committed_length = word_of_nat ?n\<rparr>"
  let ?s = "\<lparr>snap_log = ?log, snap_manifest = ?m, snap_batch_count = length bss, snap_file_length = length ?log\<rparr>"
  have n: "unat (word_of_nat ?n :: u64) = ?n" using len by (rule unat_of_nat_u64)
  have hl: "length (encode_log_header uuid) = log_header_len" by (rule encode_log_header_length [OF u])
  have count: "length bss < 2 ^ 64" using logged_numbers [OF bss] len by linarith
  have fits: "length ?log < 2 ^ 64" using assms(2) log by (simp add: log_fits_def)
  have scan: "scan_committed ?log ?n ob st = attempt (try_fold ob bss st) (\<lambda>st.
      Inr (\<lparr>meta_next_sequence = seq, meta_next_batch = b, meta_batch_count = length bss\<rparr>, st))"
    by (rule scan_committed_logged [OF bss refl hl refl fits count])
  have run: "open_snapshot True ob st (Some d) = attempt (try_fold ob bss st) (\<lambda>st. Inr (?s, st))"
    using read_encode_manifest [of ?m] u n scan verify_encoded_header [OF u, of "bs @ tail"] hl man log
    by (cases "try_fold ob bss st") (simp_all add: open_snapshot_def)
  have copy: "committed_copy \<lparr>log_file = Some (take ?n ?log), manifest_file = Some (encode_manifest ?m), next_file = x\<rparr>
      uuid bss" for x
  proof -
    have cut: "take ?n ?log = encode_log_header uuid @ bs" using hl by simp
    show ?thesis
      unfolding committed_copy_def disk_holds_def cut
      by (intro conjI exI [of _ bs] exI [of _ "[]"] exI [of _ seq] exI [of _ b] exI [of _ ?m]
          exI [of _ "encode_log_header uuid @ bs"]) (use u len bss hl n in simp_all)
  qed
  show thesis
    by (rule that [OF run]) (use copy log man n hl in simp_all)
qed

text \<open>What opens as a snapshot is what a disk holds.\<close>

lemma open_snapshot_Inr:
  assumes run: "open_snapshot shareable ob st (Some d) = Inr (s, st')"
    and fits: "log_fits d" and small: "\<And>bs. manifest_file d = Some bs \<Longrightarrow> length bs < 2 ^ 64"
  obtains bss where "shareable" and "disk_holds d (store_uuid (snap_manifest s)) bss"
    and "try_fold ob bss st = Inr st'"
proof -
  obtain bs m log meta where man: "manifest_file d = Some bs" and m: "read_manifest bs = Inr m"
    and log: "log_file d = Some log" and v: "verify_log_header log (store_uuid m) = Inr ()"
    and bounds: "log_header_len \<le> unat (committed_length m)" "unat (committed_length m) \<le> length log"
    and scan: "scan_committed log (unat (committed_length m)) ob st = Inr (meta, st')"
    and s: "snap_manifest s = m" and sh: shareable
    using run unfolding open_snapshot_def
    by (auto simp: attempt_eq_Inr split: option.splits if_splits)
  let ?c = "unat (committed_length m)"
  have u: "length (store_uuid m) = 16" and bs: "bs = encode_manifest m"
    using read_manifest_Inr [OF m small [OF man]] by auto
  have head: "take log_header_len log = encode_log_header (store_uuid m)"
    using verify_log_header_Inr [OF v] by simp
  have len: "length log < 2 ^ 64" using fits log by (simp add: log_fits_def)
  obtain body bss rest where body: "log = take log_header_len log @ body @ rest"
      "?c = log_header_len + length body"
      "logged 1 1 bss body (meta_next_sequence meta) (meta_next_batch meta)"
      "meta_batch_count meta = length bss" "try_fold ob bss st = Inr st'"
    by (rule scan_committed_Inr [OF scan len]) (use bounds in auto)
  have "committed_length m = word_of_nat (log_header_len + length body)"
    by (simp add: body(2) [symmetric])
  then have m_eq: "m = \<lparr>store_uuid = store_uuid m, committed_length = word_of_nat (log_header_len + length body)\<rparr>"
    by (cases m) simp
  have "disk_holds d (store_uuid m) bss"
    unfolding disk_holds_def
    using u log body(1) head man bs m_eq body(2,3) unat_u64_less [of "committed_length m"]
    by (intro exI [of _ body] exI [of _ rest]) auto
  with sh s body(5) show thesis using that by blast
qed

lemma open_snapshot_replayed_holds:
  assumes "disk_holds d uuid bss" and "log_fits d" and "replays_to nfc L C bss roles posits codecs"
    and "finish_replay (replay_state uuid roles posits codecs) = Inr rs"
  obtains s where "open_snapshot_replayed nfc L C True (Some d) = Inr (s, rs)"
    and "store_uuid (snap_manifest s) = uuid" and "snap_batch_count s = length bss"
    and "log_file d = Some (snap_log s)" and "snap_file_length s = length (snap_log s)"
    and "manifest_file d = Some (encode_manifest (snap_manifest s))"
    and "unat (committed_length (snap_manifest s)) \<le> length (snap_log s)"
    and "\<And>n. committed_copy \<lparr>log_file = Some (take (unat (committed_length (snap_manifest s))) (snap_log s)),
        manifest_file = Some (encode_manifest (snap_manifest s)), next_file = n\<rparr> uuid bss"
proof (rule open_snapshot_holds [OF assms(1,2), of "apply_batch nfc L C" "new_replay []"])
  fix s
  assume run: "open_snapshot True (apply_batch nfc L C) (new_replay []) (Some d) =
      attempt (try_fold (apply_batch nfc L C) bss (new_replay [])) (\<lambda>st. Inr (s, st))"
    and uuid: "store_uuid (snap_manifest s) = uuid"
  have "open_snapshot_replayed nfc L C True (Some d) = Inr (s, rs)"
    using run assms(3,4) uuid by (simp add: open_snapshot_replayed_def replays_to_def replay_state_uuid)
  moreover assume "snap_batch_count s = length bss" "log_file d = Some (snap_log s)"
    "snap_file_length s = length (snap_log s)" "manifest_file d = Some (encode_manifest (snap_manifest s))"
    "unat (committed_length (snap_manifest s)) \<le> length (snap_log s)"
    "\<And>n. committed_copy \<lparr>log_file = Some (take (unat (committed_length (snap_manifest s))) (snap_log s)),
        manifest_file = Some (encode_manifest (snap_manifest s)), next_file = n\<rparr> uuid bss"
  ultimately show thesis using that uuid by blast
qed

text \<open>A snapshot and a writer open the same disk alike.\<close>

lemma open_snapshot_replayed_Inr:
  assumes C: "calendar_codec C" and run: "open_snapshot_replayed nfc L C shareable (Some d) = Inr (s, rs)"
    and "log_fits d" and "\<And>bs. manifest_file d = Some bs \<Longrightarrow> length bs < 2 ^ 64"
  obtains bss codecs where "shareable" and "disk_holds d (store_uuid (snap_manifest s)) bss"
    and "replays_to nfc L C bss (replayed_roles rs) (replayed_posits rs) codecs"
    and "catalogue nfc L C (replayed_roles rs) (replayed_posits rs)"
    and "finish_replay (replay_state (store_uuid (snap_manifest s)) (replayed_roles rs) (replayed_posits rs) codecs) = Inr rs"
    and "replayed_uuid rs = store_uuid (snap_manifest s)"
proof -
  obtain st where snap: "open_snapshot shareable (apply_batch nfc L C) (new_replay []) (Some d) = Inr (s, st)"
    and fin: "finish_replay (st\<lparr>replay_uuid := store_uuid (snap_manifest s)\<rparr>) = Inr rs"
    using run by (auto simp: open_snapshot_replayed_def attempt_eq_Inr)
  obtain bss where sh: shareable and d: "disk_holds d (store_uuid (snap_manifest s)) bss"
    and st: "try_fold (apply_batch nfc L C) bss (new_replay []) = Inr st"
    by (rule open_snapshot_Inr [OF snap assms(3,4)])
  obtain t where opened: "store_holds t (store_uuid (snap_manifest s)) bss"
      "open_store True No_fault None (apply_batch nfc L C) (new_replay []) d = (Inr (t, st), store_disk t)"
    using open_disk_holds [OF d assms(3), of No_fault None "apply_batch nfc L C" "new_replay []"] st by auto
  have uuid: "store_uuid (store_manifest t) = store_uuid (snap_manifest s)"
    using opened(1) by (auto simp: store_holds_def)
  have replayed: "open_replayed nfc L C True No_fault None d = (Inr (t, rs), store_disk t)"
    using opened(2) fin uuid by (simp add: open_replayed_def)
  obtain bs where man: "manifest_file d = Some bs" using d by (auto simp: disk_holds_def)
  show thesis
  proof (rule open_replayed_Inr [OF C replayed man assms(3) assms(4) [OF man]])
    fix uuid' bss' codecs
    assume a: "store_holds t uuid' bss'"
      "replays_to nfc L C bss' (replayed_roles rs) (replayed_posits rs) codecs"
      "catalogue nfc L C (replayed_roles rs) (replayed_posits rs)"
      "finish_replay (replay_state uuid' (replayed_roles rs) (replayed_posits rs) codecs) = Inr rs"
    have "uuid' = store_uuid (snap_manifest s)" using a(1) uuid by (auto simp: store_holds_def)
    moreover have "bss' = bss" using log_batches_holds [OF a(1)] log_batches_holds [OF opened(1)] by simp
    moreover have "replayed_uuid rs = uuid'"
      using finish_replay_state [OF a(4)] by (metis replayed_store.select_convs(1))
    ultimately show thesis using that [OF sh d] a by simp
  qed
qed

lemma store_replay_holds:
  assumes "store_holds s uuid bss" and "replays_to nfc L C bss roles posits codecs"
    and "finish_replay (replay_state uuid roles posits codecs) = Inr rs"
  shows "store_replay_logical nfc L C s = Inr rs"
proof -
  obtain bs where u: "length uuid = 16" and log: "log_file (store_disk s) = Some (encode_log_header uuid @ bs)"
    and len: "log_header_len + length bs < 2 ^ 64"
    and m: "store_manifest s = \<lparr>store_uuid = uuid, committed_length = word_of_nat (log_header_len + length bs)\<rparr>"
    and bss: "logged 1 1 bss bs (next_sequence s) (next_batch s)"
    using assms(1) unfolding store_holds_def by blast
  let ?log = "encode_log_header uuid @ bs"
  have hl: "length (encode_log_header uuid) = log_header_len" by (rule encode_log_header_length [OF u])
  have count: "length bss < 2 ^ 64" using logged_numbers [OF bss] len by linarith
  have n: "unat (committed_length (store_manifest s)) = log_header_len + length bs"
    unfolding m manifest.simps by (rule unat_of_nat_u64 [OF len])
  have "scan_committed ?log (log_header_len + length bs) (apply_batch nfc L C) (new_replay []) =
      attempt (try_fold (apply_batch nfc L C) bss (new_replay [])) (\<lambda>st. Inr (\<lparr>meta_next_sequence = next_sequence s,
        meta_next_batch = next_batch s, meta_batch_count = length bss\<rparr>, st))"
    using scan_committed_logged [OF bss _ hl refl _ count, of ?log "[]"] hl len by simp
  moreover have "store_uuid (store_manifest s) = uuid" by (simp add: m)
  ultimately show ?thesis
    using assms(2,3) log n by (simp add: store_replay_logical_def replays_to_def replay_state_uuid)
qed

end
