(* ===== verification/Logical_Transfer.thy ===== *)
theory Logical_Transfer
  imports Snapshot
begin

text \<open>
  The logical records of \<open>src/maintenance.rs\<close>: what an export writes line by line and an import reads
  back, with the textual identity of a store, the names of literal families, the broken-down times and
  the reader of bounded lines.

  The serialisation of a record and of the identity remap as JSON is the \<open>serde_json\<close> library's,
  the argument \<open>transfer_json\<close>.  A buffered reader is the list of the buffers it will be filled with,
  None for a failing read.
\<close>

section \<open>Records\<close>

definition logical_export_format :: string where
  "logical_export_format = ''positorium.logical-export''"

definition logical_export_version :: u16 where
  "logical_export_version = 1"

definition identity_remap_format :: string where
  "identity_remap_format = ''positorium.identity-remap''"

definition identity_remap_version :: u16 where
  "identity_remap_version = 1"

definition max_logical_record_size :: nat where
  "max_logical_record_size = 16 * 1024 * 1024"

definition import_batch_size :: nat where
  "import_batch_size = 1024"

record external_identity =
  ext_store_uuid :: string
  ext_local :: thing

record logical_appearance =
  la_role :: external_identity
  la_thing :: external_identity

record logical_literal =
  ll_family :: string
  ll_token :: string

datatype logical_time =
    LogicalBeginningOfTime
  | LogicalEndOfTime
  | LogicalYear int
  | LogicalYearMonth int nat
  | LogicalDate int nat nat
  | LogicalDateTimeUtc int nat nat nat nat nat nat

datatype logical_record =
    HeaderRecord string u16 string
  | RoleRecord external_identity string bool
  | PositRecord external_identity "logical_appearance list" logical_literal logical_time

record identity_remap =
  remap_source :: external_identity
  remap_destination :: external_identity

record remap_document =
  doc_format :: string
  doc_version :: u16
  doc_source_store_uuid :: string
  doc_destination_store_uuid :: string
  doc_mappings :: "identity_remap list"

record transfer_json =
  record_to_vec :: "logical_record \<Rightarrow> bytes option"
  record_from_slice :: "bytes \<Rightarrow> logical_record option"
  remap_to_vec :: "remap_document \<Rightarrow> bytes option"

definition external_identity_of :: "string \<Rightarrow> thing \<Rightarrow> external_identity" where
  "external_identity_of uuid local_thing = \<lparr>ext_store_uuid = uuid, ext_local = local_thing\<rparr>"

definition validate_external :: "external_identity \<Rightarrow> string \<Rightarrow> thing result" where
  "validate_external ident expected_uuid =
     (if ext_store_uuid ident \<noteq> expected_uuid
      then corruption ''external identity belongs to another store''
      else Inr (ext_local ident))"

section \<open>Families and times\<close>

definition family_name :: "literal_family \<Rightarrow> string" where
  "family_name f = (case f of
     StringFamily \<Rightarrow> ''string'' | IntegerFamily \<Rightarrow> ''integer'' | DecimalFamily \<Rightarrow> ''decimal''
   | CertaintyFamily \<Rightarrow> ''certainty'' | JsonFamily \<Rightarrow> ''json'' | TimeFamily \<Rightarrow> ''time'')"

definition parse_family :: "string \<Rightarrow> literal_family result" where
  "parse_family name =
     (if name = ''string'' then Inr StringFamily
      else if name = ''integer'' then Inr IntegerFamily
      else if name = ''decimal'' then Inr DecimalFamily
      else if name = ''certainty'' then Inr CertaintyFamily
      else if name = ''json'' then Inr JsonFamily
      else if name = ''time'' then Inr TimeFamily
      else corruption ''unknown logical literal family'')"

lemma parse_family_name [simp]: "parse_family (family_name f) = Inr f"
  by (cases f) (simp_all add: parse_family_def family_name_def)

text \<open>The casts \<open>as u8\<close> keep the low byte.\<close>

definition from_time :: "time \<Rightarrow> logical_time" where
  "from_time t = (case moment t of
     BeginningOfTime \<Rightarrow> LogicalBeginningOfTime
   | EndOfTime \<Rightarrow> LogicalEndOfTime
   | Year y \<Rightarrow> LogicalYear y
   | YearMonth y m \<Rightarrow> LogicalYearMonth y m
   | Date d \<Rightarrow> LogicalDate (date_year d) (date_month d mod 256) (date_day d mod 256)
   | DateTime t \<Rightarrow>
       (let d = datetime_date t
        in LogicalDateTimeUtc (date_year d) (date_month d mod 256) (date_day d mod 256)
             (datetime_hour t mod 256) (datetime_minute t mod 256) (datetime_second t mod 256)
             (datetime_nanosecond t)))"

definition into_time :: "chrono \<Rightarrow> logical_time \<Rightarrow> time result" where
  "into_time C t = attempt
     (case t of
        LogicalBeginningOfTime \<Rightarrow> Inr BeginningOfTime
      | LogicalEndOfTime \<Rightarrow> Inr EndOfTime
      | LogicalYear y \<Rightarrow> Inr (Year y)
      | LogicalYearMonth y m \<Rightarrow>
          if 1 \<le> m \<and> m \<le> 12 then Inr (YearMonth y m) else corruption ''invalid logical year-month''
      | LogicalDate y m d \<Rightarrow>
          attempt (ok_or (DataCorruption ''invalid logical date'') (from_ymd_opt C y m d)) (\<lambda>x.
          Inr (Date x))
      | LogicalDateTimeUtc y m d h mi s ns \<Rightarrow>
          attempt (ok_or (DataCorruption ''invalid logical datetime date'') (from_ymd_opt C y m d)) (\<lambda>x.
          attempt (ok_or (DataCorruption ''invalid logical UTC datetime'')
            (and_hms_nano_opt C x h mi s ns)) (\<lambda>x. Inr (DateTime x))))
     (\<lambda>moment. Inr (Time moment))"

context calendar_codec
begin

lemma into_from_time: "wf_time C t \<Longrightarrow> into_time C (from_time t) = Inr t"
proof (cases "moment t")
  case (Date d)
  assume "wf_time C t"
  with Date have d: "from_ymd_opt C (date_year d) (date_month d) (date_day d) = Some d"
    by (simp add: wf_time_def valid_date_def)
  with from_ymd_components [OF d] Date show ?thesis by (simp add: from_time_def into_time_def time.expand)
next
  case (DateTime x)
  assume "wf_time C t"
  with DateTime have d: "from_ymd_opt C (date_year (datetime_date x)) (date_month (datetime_date x))
        (date_day (datetime_date x)) = Some (datetime_date x)"
      "and_hms_nano_opt C (datetime_date x) (datetime_hour x) (datetime_minute x) (datetime_second x)
        (datetime_nanosecond x) = Some x"
    by (simp_all add: wf_time_def valid_datetime_def valid_date_def)
  with from_ymd_components [OF d(1)] from_hms_components [OF d(2)] DateTime
  show ?thesis by (simp add: from_time_def into_time_def Let_def time.expand)
qed (simp_all add: from_time_def into_time_def wf_time_def time.expand)

end

section \<open>The identity of a store as text\<close>

definition hex_nibble :: "nat \<Rightarrow> char" where
  "hex_nibble d = (if d < 10 then char_of (48 + d) else char_of (87 + d))"

definition show_hex_02 :: "u8 \<Rightarrow> string" where
  "show_hex_02 b = [hex_nibble (unat b div 16), hex_nibble (unat b mod 16)]"

definition format_uuid :: "bytes \<Rightarrow> string" where
  "format_uuid uuid =
     (let hex = concat (map show_hex_02 uuid)
      in take 8 hex @ ''-'' @ take 4 (drop 8 hex) @ ''-'' @ take 4 (drop 12 hex) @ ''-''
           @ take 4 (drop 16 hex) @ ''-'' @ take 12 (drop 20 hex))"

definition hex_value :: "char \<Rightarrow> nat option" where
  "hex_value c =
     (let n = of_char c
      in if 48 \<le> n \<and> n \<le> 57 then Some (n - 48)
         else if 97 \<le> n \<and> n \<le> 102 then Some (n - 87)
         else if 65 \<le> n \<and> n \<le> 70 then Some (n - 55)
         else None)"

text \<open>\<open>u8::from_str_radix\<close> of two bytes: a plus sign may stand before a digit.\<close>

definition parse_hex_u8 :: "char \<Rightarrow> char \<Rightarrow> u8 option" where
  "parse_hex_u8 c d =
     (case hex_value d of
        None \<Rightarrow> None
      | Some low \<Rightarrow>
          if c = CHR ''+'' then Some (word_of_nat low)
          else map_option (\<lambda>high. word_of_nat (16 * high + low)) (hex_value c))"

text \<open>A slice of a string that does not end between two characters panics: the result is None.\<close>

definition char_continues :: "char \<Rightarrow> bool" where
  "char_continues c \<longleftrightarrow> (of_char c :: nat) div 64 = 2"

fun parse_hex_pairs :: "string \<Rightarrow> bytes result option" where
  "parse_hex_pairs [] = Some (Inr [])"
| "parse_hex_pairs [c] = None"
| "parse_hex_pairs (c # d # rest) =
     (if rest \<noteq> [] \<and> char_continues (hd rest) then None
      else case parse_hex_u8 c d of
        None \<Rightarrow> Some (corruption ''invalid store UUID'')
      | Some b \<Rightarrow> map_option (\<lambda>r. attempt r (\<lambda>bs. Inr (b # bs))) (parse_hex_pairs rest))"

definition parse_uuid :: "string \<Rightarrow> bytes result option" where
  "parse_uuid v =
     (let compact = filter (\<lambda>c. c \<noteq> CHR ''-'') v
      in if length compact \<noteq> 32 \<or> length v \<noteq> 36 \<or> list_ex (\<lambda>i. v ! i \<noteq> CHR ''-'') [8, 13, 18, 23]
         then Some (corruption ''invalid store UUID'')
         else parse_hex_pairs compact)"

section \<open>Bounded lines\<close>

type_synonym reader = "bytes option list"

definition consume_buffer :: "nat \<Rightarrow> bytes \<Rightarrow> reader \<Rightarrow> reader" where
  "consume_buffer n chunk rest = (if drop n chunk = [] then rest else Some (drop n chunk) # rest)"

fun read_bounded_line :: "reader \<Rightarrow> bytes \<Rightarrow> bytes option result \<times> reader" where
  "read_bounded_line [] line = (Inr (if line = [] then None else Some line), [])"
| "read_bounded_line (None # rest) line = (Inl io_error, rest)"
| "read_bounded_line (Some available # rest) line =
     (if available = [] then (Inr (if line = [] then None else Some line), Some available # rest)
      else
        let (chunk, consumed, complete) = (case position (\<lambda>b. b = 10) available of
              Some i \<Rightarrow> (take i available, i + 1, True)
            | None \<Rightarrow> (available, length available, False))
        in attempt_st (ok_or (DataCorruption ''logical export line length overflow'')
               (checked_add_usize (length line) (length chunk)), Some available # rest) (\<lambda>n reader.
           if n > max_logical_record_size
           then (corruption ''logical export line exceeds the maximum'', reader)
           else if complete then (Inr (Some (line @ chunk)), consume_buffer consumed available rest)
           else read_bounded_line rest (line @ chunk)))"

section \<open>Round trips\<close>

lemma hex_value_nibble [simp]: "d < 16 \<Longrightarrow> hex_value (hex_nibble d) = Some d"
  by (auto simp: hex_value_def hex_nibble_def Let_def)

lemma hex_nibble_plain:
  assumes "d < 16"
  shows "hex_nibble d \<noteq> CHR ''-''" "hex_nibble d \<noteq> CHR ''+''" "\<not> char_continues (hex_nibble d)"
proof -
  have "\<forall>d \<in> set [0..<16]. hex_nibble d \<noteq> CHR ''-'' \<and> hex_nibble d \<noteq> CHR ''+'' \<and> \<not> char_continues (hex_nibble d)"
    by code_simp
  with assms show "hex_nibble d \<noteq> CHR ''-''" "hex_nibble d \<noteq> CHR ''+''" "\<not> char_continues (hex_nibble d)" by auto
qed

lemma nibbles: "unat (b :: u8) div 16 < 16" "unat b mod 16 < 16" "16 * (unat b div 16) + unat b mod 16 = unat b"
  using unat_u8_less [of b] by (simp_all add: less_mult_imp_div_less)

lemma parse_hex_pairs_show: "parse_hex_pairs (concat (map show_hex_02 bs)) = Some (Inr bs)"
proof (induction bs)
  case (Cons b bs)
  have "concat (map show_hex_02 bs) = [] \<or> \<not> char_continues (hd (concat (map show_hex_02 bs)))"
    by (cases bs) (simp_all add: show_hex_02_def hex_nibble_plain nibbles)
  moreover have "word_of_nat (16 * (unat b div 16) + unat b mod 16) = b"
    unfolding nibbles(3) by simp
  then have "16 * word_of_nat (unat b div 16) + word_of_nat (unat b mod 16) = b"
    unfolding of_nat_add of_nat_mult by simp
  then have "parse_hex_u8 (hex_nibble (unat b div 16)) (hex_nibble (unat b mod 16)) = Some b"
    using nibbles(1) [of b] hex_nibble_plain [of "unat b div 16"] by (simp add: parse_hex_u8_def)
  moreover have "concat (map show_hex_02 (b # bs)) =
      hex_nibble (unat b div 16) # hex_nibble (unat b mod 16) # concat (map show_hex_02 bs)"
    by (simp add: show_hex_02_def)
  ultimately show ?case using Cons by (auto simp del: list.map concat.simps)
qed simp

lemma length_hex: "length (concat (map show_hex_02 bs)) = 2 * length bs"
  by (induction bs) (simp_all add: show_hex_02_def)

lemma hex_without_dashes: "c \<in> set (concat (map show_hex_02 bs)) \<Longrightarrow> c \<noteq> CHR ''-''"
  by (auto simp: show_hex_02_def hex_nibble_plain hex_nibble_plain(1) [symmetric] nibbles)

lemma compact_format_uuid:
  assumes "length uuid = 16"
  shows "filter (\<lambda>c. c \<noteq> CHR ''-'') (format_uuid uuid) = concat (map show_hex_02 uuid)"
proof -
  let ?h = "concat (map show_hex_02 uuid)"
  have len: "length ?h = 32" using assms by (simp add: length_hex)
  have keep: "filter (\<lambda>c. c \<noteq> CHR ''-'') xs = xs" if "set xs \<subseteq> set ?h" for xs
    using that hex_without_dashes by (auto simp: filter_id_conv)
  have cut: "take (a + b) xs = take a xs @ take b (drop a xs)" for a b and xs :: string
    by (rule take_add)
  have "?h = take 8 ?h @ take 4 (drop 8 ?h) @ take 4 (drop 12 ?h) @ take 4 (drop 16 ?h) @ take 12 (drop 20 ?h)"
    using cut [of 8 24 ?h] cut [of 4 20 "drop 8 ?h"] cut [of 4 16 "drop 12 ?h"] cut [of 4 12 "drop 16 ?h"] len by simp
  moreover have "set (take n (drop m ?h)) \<subseteq> set ?h" "set (take n ?h) \<subseteq> set ?h" for n m
    by (meson set_drop_subset set_take_subset subset_trans)+
  ultimately show ?thesis by (simp add: format_uuid_def Let_def keep)
qed

lemma parse_format_uuid:
  assumes "length uuid = 16"
  shows "parse_uuid (format_uuid uuid) = Some (Inr uuid)"
proof -
  let ?h = "concat (map show_hex_02 uuid)"
  have len: "length ?h = 32" using assms by (simp add: length_hex)
  then have "length (format_uuid uuid) = 36"
      "\<forall>i \<in> set [8, 13, 18, 23]. format_uuid uuid ! i = CHR ''-''"
    by (simp_all add: format_uuid_def Let_def nth_append)
  with len compact_format_uuid [OF assms] parse_hex_pairs_show [of uuid]
  show ?thesis by (simp add: parse_uuid_def Let_def list_ex_iff)
qed

lemma format_uuid_inject:
  "length u = 16 \<Longrightarrow> length v = 16 \<Longrightarrow> format_uuid u = format_uuid v \<longleftrightarrow> u = v"
  by (metis parse_format_uuid option.inject sum.inject(2))

lemma format_uuid_ascii: "length u = 16 \<Longrightarrow> wf_string (format_uuid u)"
proof (rule wf_string_ascii, rule ballI)
  fix c assume u: "length u = 16" and c: "c \<in> set (format_uuid u)"
  have "c = CHR ''-'' \<or> c \<in> set (concat (map show_hex_02 u))"
    unfolding compact_format_uuid [OF u, symmetric] using c by auto
  then consider "c = CHR ''-''" | b where "c \<in> set (show_hex_02 b)" by auto
  then show "(of_char c :: nat) < 128"
  proof cases
    case (2 b)
    have low: "(of_char (hex_nibble d) :: nat) < 128" if "d < 16" for d
      using that by (simp add: hex_nibble_def)
    have "c = hex_nibble (unat b div 16) \<or> c = hex_nibble (unat b mod 16)"
      using 2 by (simp add: show_hex_02_def)
    then show ?thesis using low [OF nibbles(1)] low [OF nibbles(2)] by metis
  qed simp
qed

text \<open>Reading a line: whatever buffers the rest of the file arrives in.\<close>

definition buffers :: "bytes \<Rightarrow> reader \<Rightarrow> bool" where
  "buffers bs reader \<longleftrightarrow> (\<exists>chunks. reader = map Some chunks \<and> [] \<notin> set chunks \<and> concat chunks = bs)"

lemma buffers_Nil [simp]: "buffers [] reader \<longleftrightarrow> reader = []"
  by (auto simp: buffers_def) (metis concat_eq_Nil_conv list.set_intros(1) list.exhaust)

lemma buffers_Cons:
  "buffers bs (Some c # reader) \<longleftrightarrow> c \<noteq> [] \<and> (\<exists>rest. bs = c @ rest \<and> buffers rest reader)"
  by (auto simp: buffers_def Cons_eq_map_conv)

lemma position_newline:
  "position (\<lambda>b. b = n) xs = Some i \<Longrightarrow> xs = take i xs @ n # drop (Suc i) xs \<and> n \<notin> set (take i xs)"
  using position_Some [of "\<lambda>b. b = n" xs i] id_take_nth_drop [of i xs]
  by (auto simp: in_set_conv_nth)

lemma split_at_newline:
  "xs @ n # ys = zs @ n # ws \<Longrightarrow> n \<notin> set xs \<Longrightarrow> n \<notin> set zs \<Longrightarrow> xs = zs \<and> ys = ws"
proof (induction xs arbitrary: zs)
  case Nil then show ?case by (cases zs) auto
next
  case (Cons x xs) then show ?case by (cases zs) auto
qed

lemma read_line_buffers:
  assumes "buffers (tail @ 10 # rest) reader" and "10 \<notin> set tail"
    and "length (line @ tail) \<le> max_logical_record_size"
  shows "\<exists>reader'. read_bounded_line reader line = (Inr (Some (line @ tail)), reader') \<and> buffers rest reader'"
  using assms
proof (induction reader line arbitrary: tail rule: read_bounded_line.induct)
  case (3 available reader line)
  obtain later where ne: "available \<noteq> []" and eq: "tail @ 10 # rest = available @ later"
    and later: "buffers later reader"
    using 3(2) by (auto simp: buffers_Cons)
  have small: "checked_add_usize (length line) (length chunk) = Some (length (line @ chunk))"
    if "length chunk \<le> length tail" for chunk :: bytes
    using that 3(4) by (simp add: checked_add_usize_def max_logical_record_size_def)
  show ?case
  proof (cases "position (\<lambda>b. b = 10) available")
    case (Some i)
    from position_newline [OF Some] have a: "available = take i available @ 10 # drop (Suc i) available"
      "10 \<notin> set (take i available)" by auto
    then have "tail = take i available" "rest = drop (Suc i) available @ later"
      using split_at_newline [of tail 10 rest "take i available" "drop (Suc i) available @ later"] eq 3(3)
      by (metis append_Cons append_assoc)+
    moreover have "buffers (drop (Suc i) available @ later) (consume_buffer (i + 1) available reader)"
      using later by (auto simp: consume_buffer_def buffers_Cons)
    ultimately show ?thesis
      using ne Some small [of "take i available"] 3(4) by simp
  next
    case None
    then have none: "10 \<notin> set available" by (auto simp: position_None)
    have "length available \<le> length tail"
    proof (rule ccontr)
      assume long: "\<not> length available \<le> length tail"
      then have "(tail @ 10 # rest) ! length tail = available ! length tail" by (simp add: eq nth_append)
      then have "available ! length tail = 10" by simp
      then show False using none long by (metis not_le nth_mem)
    qed
    then obtain t where t: "tail = available @ t" "later = t @ 10 # rest"
      using eq by (metis append_eq_append_conv_if append_take_drop_id drop_all le_refl append_Nil2)
    have "\<exists>reader'. read_bounded_line reader (line @ available) = (Inr (Some ((line @ available) @ t)), reader')
        \<and> buffers rest reader'"
    proof (rule 3(1))
      show "buffers (t @ 10 # rest) reader" using later t by simp
    qed (use ne None 3(3,4) t small [of available] in \<open>auto\<close>)
    then show ?thesis
      using ne None t small [of available] 3(4) by simp
  qed
qed (auto simp: buffers_def)

lemma read_end: "read_bounded_line [] [] = (Inr None, [])"
  by simp

end
