(* ===== verification/Maintenance.thy ===== *)
theory Maintenance
  imports Logical_Transfer
begin

text \<open>
  Inspection, backup, logical export and import of a store, \<open>src/maintenance.rs\<close>.

  A directory is a disk or None, a file its bytes or None; every operation returns what it leaves.
  Paths are lists of components, and what the operating system makes of them (\<open>canonicalize\<close>) is an
  argument, as are the failures of its calls.  Appends to a store go through \<open>log_append\<close>: the operating
  system refuses a write beyond the address space.
\<close>

section \<open>Reports\<close>

record store_inspection =
  ins_store_uuid :: string
  ins_storage_format_major :: u16
  ins_storage_format_minor :: u16
  ins_committed_length :: u64
  ins_physical_log_length :: nat
  ins_ignored_tail_bytes :: nat
  ins_committed_batches :: nat
  ins_roles :: nat
  ins_posits :: nat
  ins_referenced_things :: nat

record export_report =
  exp_source_store_uuid :: string
  exp_roles :: nat
  exp_posits :: nat
  exp_bytes_written :: nat

record import_report =
  imp_source_store_uuid :: string
  imp_destination_store_uuid :: string
  imp_role_count :: nat
  imp_posit_count :: nat
  imp_remapped_identities :: nat

record backup_report =
  bak_store_uuid :: string
  bak_committed_length :: u64
  bak_roles :: nat
  bak_posits :: nat

section \<open>Paths\<close>

definition path_file_name :: "string list \<Rightarrow> string option" where
  "path_file_name p = (if p = [] \<or> last p \<in> {''/'', ''.'', ''..''} then None else Some (last p))"

text \<open>The parent of a path, or the current directory where that is empty.\<close>

definition path_parent :: "string list \<Rightarrow> string list" where
  "path_parent p = (if butlast p = [] then [''.''] else butlast p)"

definition reject_path_inside_store ::
    "(string list \<Rightarrow> string list result) \<Rightarrow> string list \<Rightarrow> string list \<Rightarrow> unit result" where
  "reject_path_inside_store canonicalize store_path target =
     attempt (canonicalize store_path) (\<lambda>canonical_store.
     attempt (canonicalize (path_parent target)) (\<lambda>canonical_parent.
     attempt (ok_or (Persistence ''target has no file name'') (path_file_name target)) (\<lambda>target_name.
     guard (take (length canonical_store) (canonical_parent @ [target_name]) \<noteq> canonical_store)
       (Persistence ''target cannot be inside store''))))"

section \<open>Inspection\<close>

definition identities_of :: "replayed_role list \<Rightarrow> replayed_posit list \<Rightarrow> thing set" where
  "identities_of roles posits = role_identity ` set roles
     \<union> (\<Union>p \<in> set posits. insert (posit_identity p) (\<Union>(r, t) \<in> set (posit_appearances p). {r, t}))"

definition inspect_store ::
    "(string \<Rightarrow> string) \<Rightarrow> 'n literal_lib \<Rightarrow> chrono \<Rightarrow> bool \<Rightarrow> disk option \<Rightarrow> store_inspection result" where
  "inspect_store nfc L C shareable directory =
     attempt (open_snapshot_replayed nfc L C shareable directory) (\<lambda>(snapshot, replayed).
     Inr \<lparr>ins_store_uuid = format_uuid (store_uuid (snap_manifest snapshot)),
       ins_storage_format_major = format_major, ins_storage_format_minor = format_minor,
       ins_committed_length = committed_length (snap_manifest snapshot),
       ins_physical_log_length = snap_file_length snapshot,
       ins_ignored_tail_bytes =
         snap_file_length snapshot - unat (committed_length (snap_manifest snapshot)),
       ins_committed_batches = snap_batch_count snapshot,
       ins_roles = length (replayed_roles replayed), ins_posits = length (replayed_posits replayed),
       ins_referenced_things =
         card (identities_of (replayed_roles replayed) (replayed_posits replayed))\<rparr>)"

section \<open>Export\<close>

text \<open>How writing a new file fails: at its creation, at the write with the given number, at the flush
  or the sync (and what the file then holds), or at the sync of its directory.\<close>

datatype file_fault =
    No_file_fault
  | Create_fault
  | Write_fault nat bytes
  | Flush_fault bytes
  | Directory_fault

definition write_record ::
    "transfer_json \<Rightarrow> file_fault \<Rightarrow> nat \<Rightarrow> logical_record \<Rightarrow> bytes \<Rightarrow> unit result \<times> bytes" where
  "write_record J fault k r out =
     (case record_to_vec J r of
        None \<Rightarrow> (Inl (Persistence ''serialization failed''), out)
      | Some encoded \<Rightarrow>
          if length encoded > max_logical_record_size
          then (Inl (Persistence ''logical export record is too long''), out)
          else case fault of
            Write_fault n left \<Rightarrow>
              if n = k then (Inl io_error, left) else (Inr (), out @ encoded @ [10])
          | _ \<Rightarrow> (Inr (), out @ encoded @ [10]))"

fun write_records ::
    "transfer_json \<Rightarrow> file_fault \<Rightarrow> nat \<Rightarrow> logical_record list \<Rightarrow> bytes \<Rightarrow> unit result \<times> bytes" where
  "write_records J fault k [] out = (Inr (), out)"
| "write_records J fault k (r # rs) out =
     attempt_st (write_record J fault k r out) (\<lambda>_ out. write_records J fault (Suc k) rs out)"

definition header_record :: "string \<Rightarrow> logical_record" where
  "header_record uuid = HeaderRecord logical_export_format logical_export_version uuid"

definition export_role :: "string \<Rightarrow> replayed_role \<Rightarrow> logical_record" where
  "export_role uuid r =
     RoleRecord (external_identity_of uuid (role_identity r)) (role_name r) (role_reserved r)"

definition export_posit :: "string \<Rightarrow> replayed_posit \<Rightarrow> logical_record" where
  "export_posit uuid p = PositRecord (external_identity_of uuid (posit_identity p))
     (map (\<lambda>(r, t). \<lparr>la_role = external_identity_of uuid r, la_thing = external_identity_of uuid t\<rparr>)
       (posit_appearances p))
     \<lparr>ll_family = family_name (family (posit_value p)), ll_token = token (posit_value p)\<rparr>
     (from_time (posit_time p))"

definition export_records ::
    "string \<Rightarrow> replayed_role list \<Rightarrow> replayed_posit list \<Rightarrow> logical_record list" where
  "export_records uuid roles posits =
     header_record uuid # map (export_role uuid) roles @ map (export_posit uuid) posits"

definition export_store ::
    "(string \<Rightarrow> string) \<Rightarrow> 'n literal_lib \<Rightarrow> chrono \<Rightarrow> transfer_json
       \<Rightarrow> (string list \<Rightarrow> string list result) \<Rightarrow> bool \<Rightarrow> file_fault
       \<Rightarrow> string list \<Rightarrow> disk option \<Rightarrow> string list \<Rightarrow> bytes option
       \<Rightarrow> export_report result \<times> bytes option" where
  "export_store nfc L C J canonicalize shareable fault store_path directory output_path output =
     attempt_st (reject_path_inside_store canonicalize store_path output_path, output) (\<lambda>_ output.
     attempt_st (open_snapshot_replayed nfc L C shareable directory, output) (\<lambda>(_, replayed) output.
     let roles = sort_key role_identity (replayed_roles replayed);
         posits = sort_key posit_identity (replayed_posits replayed);
         uuid = format_uuid (replayed_uuid replayed)
     in if output \<noteq> None \<or> fault = Create_fault then (Inl io_error, output)
        else
     let (r, out) = write_records J fault 0 (export_records uuid roles posits) []
     in attempt_st (r, Some out) (\<lambda>_ output.
     case fault of
       Flush_fault left \<Rightarrow> (Inl io_error, Some left)
     | Directory_fault \<Rightarrow> (Inl io_error, output)
     | _ \<Rightarrow>
         (Inr \<lparr>exp_source_store_uuid = uuid, exp_roles = length roles, exp_posits = length posits,
            exp_bytes_written = length out\<rparr>, output))))"

section \<open>Reading an export\<close>

record imported_store =
  imported_uuid :: string
  imported_roles :: "replayed_role list"
  imported_posits :: "replayed_posit list"

record import_progress =
  prog_line :: nat
  prog_uuid :: "string option"
  prog_roles :: "replayed_role list"
  prog_posits :: "replayed_posit list"
  prog_saw_posit :: bool

definition no_progress :: import_progress where
  "no_progress = \<lparr>prog_line = 0, prog_uuid = None, prog_roles = [], prog_posits = [],
     prog_saw_posit = False\<rparr>"

definition missing_header :: database_error where
  "missing_header = DataCorruption ''logical export is missing its Header''"

text \<open>The three arms of the loop.  Only the header can panic, in its UUID.\<close>

definition import_header ::
    "string \<Rightarrow> u16 \<Rightarrow> string \<Rightarrow> import_progress \<Rightarrow> import_progress result option" where
  "import_header format version uuid p =
     (if prog_line p \<noteq> 1 \<or> prog_uuid p \<noteq> None
      then Some (corruption ''logical export Header must be the first and only header'')
      else if format \<noteq> logical_export_format \<or> version \<noteq> logical_export_version
      then Some (corruption ''unsupported logical export format/version'')
      else map_option (\<lambda>r. attempt r (\<lambda>parsed.
          if format_uuid parsed \<noteq> uuid
          then corruption ''source store UUID is not in canonical lowercase form''
          else Inr (p\<lparr>prog_uuid := Some uuid\<rparr>))) (parse_uuid uuid))"

definition import_role ::
    "external_identity \<Rightarrow> string \<Rightarrow> bool \<Rightarrow> import_progress \<Rightarrow> import_progress result" where
  "import_role ident name reserved p =
     attempt (ok_or missing_header (prog_uuid p)) (\<lambda>source_uuid.
     if prog_saw_posit p then corruption ''Role records must precede Posit records''
     else
     attempt (validate_external ident source_uuid) (\<lambda>i.
     Inr (p\<lparr>prog_roles := prog_roles p
       @ [\<lparr>role_identity = i, role_name = name, role_reserved = reserved\<rparr>]\<rparr>)))"

definition import_posit ::
    "'n literal_lib \<Rightarrow> chrono \<Rightarrow> external_identity \<Rightarrow> logical_appearance list \<Rightarrow> logical_literal
       \<Rightarrow> logical_time \<Rightarrow> import_progress \<Rightarrow> import_progress result" where
  "import_posit L C ident appearances literal time p =
     attempt (ok_or missing_header (prog_uuid p)) (\<lambda>source_uuid.
     let p = p\<lparr>prog_saw_posit := True\<rparr> in
     attempt (try_map (\<lambda>a.
         attempt (validate_external (la_role a) source_uuid) (\<lambda>r.
         attempt (validate_external (la_thing a) source_uuid) (\<lambda>t. Inr (r, t)))) appearances)
       (\<lambda>decoded_appearances.
     let decoded_appearances = sort decoded_appearances in
     attempt (parse_family (ll_family literal)) (\<lambda>family.
     attempt (case new_literal L (ll_token literal) family of
         Inl e \<Rightarrow> corruption ''invalid logical export literal'' | Inr v \<Rightarrow> Inr v) (\<lambda>v.
     attempt (validate_external ident source_uuid) (\<lambda>i.
     attempt (into_time C time) (\<lambda>t.
     Inr (p\<lparr>prog_posits := prog_posits p
       @ [\<lparr>posit_identity = i, posit_appearances = decoded_appearances, posit_value = v,
           posit_time = t\<rparr>]\<rparr>)))))))"

definition is_ascii_whitespace :: "u8 \<Rightarrow> bool" where
  "is_ascii_whitespace b \<longleftrightarrow> b \<in> {9, 10, 12, 13, 32}"

definition import_line ::
    "transfer_json \<Rightarrow> 'n literal_lib \<Rightarrow> chrono \<Rightarrow> bytes \<Rightarrow> import_progress
       \<Rightarrow> import_progress result option" where
  "import_line J L C line p =
     (let p = p\<lparr>prog_line := prog_line p + 1\<rparr>
      in if list_all is_ascii_whitespace line
         then Some (corruption ''logical export line is empty'')
         else case record_from_slice J line of
           None \<Rightarrow> Some (corruption ''logical export line is not a record'')
         | Some (HeaderRecord format version uuid) \<Rightarrow> import_header format version uuid p
         | Some (RoleRecord ident name reserved) \<Rightarrow> Some (import_role ident name reserved p)
         | Some (PositRecord ident appearances literal time) \<Rightarrow>
             Some (import_posit L C ident appearances literal time p))"

definition reader_size :: "reader \<Rightarrow> nat" where
  "reader_size reader = sum_list (map (\<lambda>c. case c of None \<Rightarrow> 1 | Some bs \<Rightarrow> Suc (length bs)) reader)"

lemma reader_size_simps [simp]:
  "reader_size [] = 0" "reader_size (None # rest) = Suc (reader_size rest)"
  "reader_size (Some bs # rest) = Suc (length bs + reader_size rest)"
  by (simp_all add: reader_size_def)

lemma read_bounded_line_smaller:
  "read_bounded_line reader line = (Inr (Some l), reader') \<Longrightarrow>
     reader_size reader' < reader_size reader \<or> line \<noteq> [] \<and> reader_size reader' \<le> reader_size reader"
proof (induction reader arbitrary: line)
  case (Cons c reader)
  show ?case
  proof (cases c)
    case (Some available)
    have "reader_size (consume_buffer (i + 1) available reader) < Suc (length available + reader_size reader)"
      if "available \<noteq> []" for i
      using that by (cases available) (auto simp: consume_buffer_def)
    moreover have "reader_size reader' \<le> reader_size reader"
      if "read_bounded_line reader (line @ available) = (Inr (Some l), reader')"
      using Cons.IH [OF that] by auto
    ultimately show ?thesis
      using Cons.prems Some by (fastforce simp: attempt_st_eq_Inr split: option.splits if_splits)
  qed (use Cons.prems in simp)
qed (auto split: if_splits)

function read_lines ::
    "transfer_json \<Rightarrow> 'n literal_lib \<Rightarrow> chrono \<Rightarrow> reader \<Rightarrow> import_progress
       \<Rightarrow> import_progress result option" where
  "read_lines J L C reader p =
     (case read_bounded_line reader [] of
        (Inl e, reader) \<Rightarrow> Some (Inl e)
      | (Inr None, reader) \<Rightarrow> Some (Inr p)
      | (Inr (Some line), reader) \<Rightarrow>
          (case import_line J L C line p of
             None \<Rightarrow> None
           | Some (Inl e) \<Rightarrow> Some (Inl e)
           | Some (Inr p) \<Rightarrow> read_lines J L C reader p))"
  by pat_completeness auto
termination
  by (relation "measure (\<lambda>(J, L, C, reader, p). reader_size reader)")
    (auto dest: read_bounded_line_smaller [OF sym])

declare read_lines.simps [simp del]

section \<open>Validation\<close>

fun validate_roles :: "replayed_role list \<Rightarrow> thing set \<Rightarrow> string set \<Rightarrow> thing set result" where
  "validate_roles [] role_ids role_names = Inr role_ids"
| "validate_roles (r # roles) role_ids role_names =
     (if role_identity r = 0
      then corruption ''logical export uses genesis identity 0 for a Role''
      else if role_identity r \<in> role_ids \<or> role_name r \<in> role_names
      then corruption ''logical export contains duplicate Role identity or name''
      else validate_roles roles (insert (role_identity r) role_ids) (insert (role_name r) role_names))"

fun validate_posits ::
    "thing set \<Rightarrow> replayed_posit list \<Rightarrow> thing set \<Rightarrow> proposition_key set \<Rightarrow> unit result" where
  "validate_posits role_ids [] construct_ids props = Inr ()"
| "validate_posits role_ids (p # posits) construct_ids props =
     (if posit_identity p = 0
      then corruption ''logical export uses genesis identity 0 for a Posit''
      else if posit_identity p \<in> construct_ids
      then corruption ''logical export reuses a Role or Posit identity''
      else if posit_appearances p = [] \<or> any_adjacent (\<lambda>a b. fst a = fst b) (posit_appearances p)
        \<or> list_ex (\<lambda>(r, t). r = 0 \<or> t = 0) (posit_appearances p)
      then corruption ''logical export contains an invalid appearance set''
      else if list_ex (\<lambda>(r, _). r \<notin> role_ids) (posit_appearances p)
      then corruption ''logical export Posit references an unknown Role''
      else if proposition_of p \<in> props
      then corruption ''logical export contains a duplicate Posit proposition''
      else validate_posits role_ids posits (insert (posit_identity p) construct_ids)
        (insert (proposition_of p) props))"

definition validate_imported :: "replayed_role list \<Rightarrow> replayed_posit list \<Rightarrow> unit result" where
  "validate_imported roles posits =
     attempt (validate_roles roles {} {}) (\<lambda>role_ids.
     attempt (try_fold (\<lambda>(ident, name) _.
         if \<not> list_ex (\<lambda>r. role_identity r = ident \<and> role_name r = name \<and> role_reserved r) roles
         then corruption ''logical export lacks reserved built-in Role''
         else Inr ()) builtin_roles ()) (\<lambda>_.
     validate_posits role_ids posits role_ids {}))"

definition read_export ::
    "transfer_json \<Rightarrow> 'n literal_lib \<Rightarrow> chrono \<Rightarrow> reader option \<Rightarrow> imported_store result option" where
  "read_export J L C file =
     (case file of
        None \<Rightarrow> Some (Inl io_error)
      | Some reader \<Rightarrow> map_option (\<lambda>r.
          attempt r (\<lambda>p.
          attempt (ok_or (DataCorruption ''logical export has no Header'') (prog_uuid p)) (\<lambda>uuid.
          attempt (validate_imported (prog_roles p) (prog_posits p)) (\<lambda>_.
          Inr \<lparr>imported_uuid = uuid, imported_roles = prog_roles p, imported_posits = prog_posits p\<rparr>))))
          (read_lines J L C reader no_progress))"

section \<open>Fresh identities\<close>

definition foreign_identities :: "imported_store \<Rightarrow> thing set" where
  "foreign_identities imported = identities_of (imported_roles imported) (imported_posits imported)"

definition exhausted :: database_error where
  "exhausted = Invariant ''identity space exhausted during import''"

text \<open>The inner loop: the next identity that is neither used nor the one it replaces.\<close>

function next_identity :: "thing set \<Rightarrow> thing \<Rightarrow> thing \<Rightarrow> thing result" where
  "next_identity used source nxt =
     (if nxt \<in> used \<or> nxt = source
      then attempt (ok_or exhausted (checked_add_u64 nxt 1)) (\<lambda>n. next_identity used source n)
      else Inr nxt)"
  by pat_completeness auto
termination
proof (relation "measure (\<lambda>(used, source, nxt). 2 ^ 64 - unat nxt)")
  fix used source nxt n assume "ok_or exhausted (checked_add_u64 nxt 1) = Inr n"
  then have "unat n = unat nxt + 1" by (simp add: unat_checked_add_u64)
  then show "((used, source, n), (used, source, nxt)) \<in> measure (\<lambda>(used, source, nxt). 2 ^ 64 - unat nxt)"
    using unat_u64_less [of n] by simp
qed simp

declare next_identity.simps [simp del]

fun assign_identities ::
    "thing list \<Rightarrow> thing set \<Rightarrow> (thing \<rightharpoonup> thing) \<Rightarrow> thing \<Rightarrow> (thing \<rightharpoonup> thing) result" where
  "assign_identities [] used m nxt = Inr m"
| "assign_identities (source # sources) used m nxt =
     (if m source \<noteq> None then assign_identities sources used m nxt
      else
     attempt (next_identity used source nxt) (\<lambda>nxt.
     attempt (ok_or exhausted (checked_add_u64 nxt 1)) (\<lambda>after.
     assign_identities sources (insert nxt used) (m(source \<mapsto> nxt)) after)))"

definition mapped :: "(thing \<rightharpoonup> thing) \<Rightarrow> thing \<Rightarrow> thing result" where
  "mapped m source = ok_or (Invariant ''identity is absent from the import remap'') (m source)"

definition build_identity_remap ::
    "imported_store \<Rightarrow> string \<Rightarrow> ((thing \<rightharpoonup> thing) \<times> identity_remap list) result" where
  "build_identity_remap imported destination_uuid =
     (let foreign = sorted_list_of_set (foreign_identities imported);
          builtin = map fst builtin_roles
      in attempt (assign_identities foreign (set builtin) (map_of (map (\<lambda>i. (i, i)) builtin)) 6) (\<lambda>m.
         attempt (try_map (\<lambda>source.
             attempt (mapped m source) (\<lambda>destination.
             Inr \<lparr>remap_source = external_identity_of (imported_uuid imported) source,
               remap_destination = external_identity_of destination_uuid destination\<rparr>)) foreign)
           (\<lambda>mappings.
         Inr (m, mappings))))"

section \<open>Import\<close>

text \<open>What the operating system does during an import: the failure of opening the new store and its
  random bytes, of each append in turn, of the flush; whether the two locks are free; the failure of
  writing the remap.\<close>

record import_env =
  env_lock_free :: bool
  env_open_fault :: io_fault
  env_random :: "bytes option"
  env_append_fault :: "nat \<Rightarrow> io_fault"
  env_flushed :: bool
  env_shareable :: bool
  env_remap_fault :: file_fault

definition write_remap ::
    "transfer_json \<Rightarrow> file_fault \<Rightarrow> bytes option \<Rightarrow> string \<Rightarrow> string \<Rightarrow> identity_remap list
       \<Rightarrow> unit result \<times> bytes option" where
  "write_remap J fault file source_uuid destination_uuid mappings =
     (if file \<noteq> None \<or> fault = Create_fault then (Inl io_error, file)
      else case remap_to_vec J \<lparr>doc_format = identity_remap_format, doc_version = identity_remap_version,
             doc_source_store_uuid = source_uuid, doc_destination_store_uuid = destination_uuid,
             doc_mappings = mappings\<rparr> of
        None \<Rightarrow> (Inl (Persistence ''serialization failed''), Some [])
      | Some encoded \<Rightarrow>
          (case fault of
             Write_fault _ left \<Rightarrow> (Inl io_error, Some left)
           | Flush_fault left \<Rightarrow> (Inl io_error, Some left)
           | Directory_fault \<Rightarrow> (Inl io_error, Some (encoded @ [10]))
           | _ \<Rightarrow> (Inr (), Some (encoded @ [10]))))"

definition transform_role :: "(thing \<rightharpoonup> thing) \<Rightarrow> replayed_role \<Rightarrow> replayed_role result" where
  "transform_role m r = attempt (mapped m (role_identity r)) (\<lambda>i. Inr (r\<lparr>role_identity := i\<rparr>))"

text \<open>Building the record sorts the appearances in place.\<close>

definition transform_posit ::
    "(thing \<rightharpoonup> thing) \<Rightarrow> replayed_posit \<Rightarrow> (pending_record \<times> replayed_posit) result" where
  "transform_posit m p =
     attempt (mapped m (posit_identity p)) (\<lambda>i.
     attempt (try_map (\<lambda>(r, t). attempt (mapped m r) (\<lambda>r. attempt (mapped m t) (\<lambda>t. Inr (r, t))))
       (posit_appearances p)) (\<lambda>appearances.
     attempt (posit_record_logical i appearances (posit_value p) (posit_time p)) (\<lambda>record.
     Inr (record, p\<lparr>posit_identity := i, posit_appearances := sort appearances\<rparr>))))"

fun import_posits ::
    "import_env \<Rightarrow> (thing \<rightharpoonup> thing) \<Rightarrow> nat \<Rightarrow> replayed_posit list \<Rightarrow> pending_record list
       \<Rightarrow> replayed_posit list \<Rightarrow> log_store \<Rightarrow> replayed_posit list result \<times> log_store" where
  "import_posits E m k [] pending transformed store =
     (if pending = [] then (Inr transformed, store)
      else attempt_st (log_append (env_append_fault E k) pending store) (\<lambda>_ store.
        (Inr transformed, store)))"
| "import_posits E m k (p # posits) pending transformed store =
     attempt_st (transform_posit m p, store) (\<lambda>(record, q) store.
     let transformed = transformed @ [q]; pending = pending @ [record]
     in if length pending = import_batch_size
        then attempt_st (log_append (env_append_fault E k) pending store) (\<lambda>_ store.
          import_posits E m (Suc k) posits [] transformed store)
        else import_posits E m k posits pending transformed store)"

text \<open>The appends: one batch with the roles and the codecs, then the posits.\<close>

definition import_records ::
    "import_env \<Rightarrow> (thing \<rightharpoonup> thing) \<Rightarrow> imported_store \<Rightarrow> log_store
       \<Rightarrow> (replayed_role list \<times> replayed_posit list) result \<times> log_store" where
  "import_records E m imported store =
     attempt_st (try_map (transform_role m) (imported_roles imported), store) (\<lambda>roles store.
     let metadata =
           map (\<lambda>r. role_record_parts (role_identity r) (role_name r) (role_reserved r)) roles @ codec_records
     in attempt_st (log_append (env_append_fault E 0) metadata store) (\<lambda>_ store.
     attempt_st (import_posits E m 1 (imported_posits imported) [] [] store) (\<lambda>posits store.
     (Inr (roles, posits), store))))"

text \<open>Posits compare as their fields do, a literal by its token.\<close>

definition posit_fields :: "replayed_posit \<Rightarrow> thing \<times> proposition_key" where
  "posit_fields p = (posit_identity p, proposition_of p)"

definition import_into ::
    "(string \<Rightarrow> string) \<Rightarrow> 'n literal_lib \<Rightarrow> chrono \<Rightarrow> transfer_json \<Rightarrow> import_env \<Rightarrow> imported_store
       \<Rightarrow> log_store \<Rightarrow> bytes option \<Rightarrow> import_report result \<times> (disk option \<times> bytes option)" where
  "import_into nfc L C J E imported store remap =
     (let destination_uuid = format_uuid (store_uuid (store_manifest store))
      in if destination_uuid = imported_uuid imported
         then (Inl (Invariant ''new destination unexpectedly reused the source store UUID''),
           (Some (store_disk store), remap))
         else
      attempt_st (build_identity_remap imported destination_uuid, (Some (store_disk store), remap))
        (\<lambda>(m, mappings) _.
      let (r, store) = import_records E m imported store; w = (Some (store_disk store), remap)
      in attempt_st (r, w) (\<lambda>(transformed_roles, transformed_posits) w.
      attempt_st (flush_store (env_flushed E) store, w) (\<lambda>_ w.
      attempt_st (store_replay_logical nfc L C store, w) (\<lambda>replayed w.
      if sort_key role_identity (replayed_roles replayed) \<noteq> sort_key role_identity transformed_roles
        \<or> map posit_fields (sort_key posit_identity (replayed_posits replayed)) \<noteq>
            map posit_fields (sort_key posit_identity transformed_posits)
      then (Inl (Invariant ''import verification did not reproduce the transformed logical records''), w)
      else
      attempt_st (inspect_store nfc L C (env_shareable E) (fst w), w) (\<lambda>inspection w.
      if ins_roles inspection \<noteq> length (imported_roles imported)
        \<or> ins_posits inspection \<noteq> length (imported_posits imported)
      then (Inl (Invariant ''imported store count verification failed''), w)
      else
      let (r, remap) = write_remap J (env_remap_fault E) (snd w) (imported_uuid imported) destination_uuid
            mappings
      in attempt_st (r, (fst w, remap)) (\<lambda>_ w.
      (Inr \<lparr>imp_source_store_uuid = imported_uuid imported,
         imp_destination_store_uuid = destination_uuid, imp_role_count = ins_roles inspection,
         imp_posit_count = ins_posits inspection, imp_remapped_identities = length mappings\<rparr>, w))))))))"

definition import_store ::
    "(string \<Rightarrow> string) \<Rightarrow> 'n literal_lib \<Rightarrow> chrono \<Rightarrow> transfer_json \<Rightarrow> import_env \<Rightarrow> reader option
       \<Rightarrow> disk option \<Rightarrow> bytes option \<Rightarrow> (import_report result \<times> (disk option \<times> bytes option)) option" where
  "import_store nfc L C J E file destination remap =
     (if destination \<noteq> None
      then Some (Inl (Persistence ''import destination already exists''), (destination, remap))
      else if remap \<noteq> None
      then Some (Inl (Persistence ''identity-remap output already exists''), (destination, remap))
      else map_option (\<lambda>r.
        attempt_st (r, (destination, remap)) (\<lambda>imported _.
        case open_store (env_lock_free E) (env_open_fault E) (env_random E) (\<lambda>_ s. Inr s) () fresh_disk of
          (Inl e, d) \<Rightarrow> (Inl e, (Some d, remap))
        | (Inr (store, _), _) \<Rightarrow> import_into nfc L C J E imported store remap))
      (read_export J L C file))"

section \<open>Backup\<close>

definition backup_store ::
    "(string \<Rightarrow> string) \<Rightarrow> 'n literal_lib \<Rightarrow> chrono \<Rightarrow> (string list \<Rightarrow> string list result) \<Rightarrow> bool
       \<Rightarrow> backup_fault \<Rightarrow> bool \<Rightarrow> string list \<Rightarrow> disk option \<Rightarrow> string list \<Rightarrow> disk option
       \<Rightarrow> backup_report result \<times> disk option" where
  "backup_store nfc L C canonicalize shareable fault shareable' store_path directory destination_path
       destination =
     attempt_st (reject_path_inside_store canonicalize store_path destination_path, destination) (\<lambda>_ destination.
     attempt_st (open_snapshot_replayed nfc L C shareable directory, destination)
       (\<lambda>(snapshot, source) destination.
     attempt_st (backup_to fault (the directory) snapshot destination) (\<lambda>_ destination.
     attempt_st (inspect_store nfc L C shareable' destination, destination) (\<lambda>backup destination.
     if ins_store_uuid backup \<noteq> format_uuid (replayed_uuid source)
       \<or> ins_committed_length backup \<noteq> committed_length (snap_manifest snapshot)
       \<or> ins_physical_log_length backup \<noteq> unat (committed_length (snap_manifest snapshot))
       \<or> ins_roles backup \<noteq> length (replayed_roles source)
       \<or> ins_posits backup \<noteq> length (replayed_posits source)
     then (Inl (Invariant ''physical backup verification failed''), destination)
     else
     (Inr \<lparr>bak_store_uuid = ins_store_uuid backup,
        bak_committed_length = committed_length (snap_manifest snapshot),
        bak_roles = ins_roles backup, bak_posits = ins_posits backup\<rparr>, destination)))))"

end
