(* ===== verification/Maintenance_Reading.thy ===== *)
theory Maintenance_Reading
  imports Maintenance
begin

text \<open>
  Reading an export back: what the lines of an export decode to, and the validation of what was read.
\<close>

section \<open>The JSON of a record\<close>

text \<open>The values the types of a record admit.\<close>

definition wf_external :: "external_identity \<Rightarrow> bool" where
  "wf_external ident \<longleftrightarrow> wf_string (ext_store_uuid ident)"

definition wf_i32 :: "int \<Rightarrow> bool" where
  "wf_i32 y \<longleftrightarrow> - 2147483648 \<le> y \<and> y \<le> 2147483647"

fun wf_logical_time :: "logical_time \<Rightarrow> bool" where
  "wf_logical_time LogicalBeginningOfTime \<longleftrightarrow> True"
| "wf_logical_time LogicalEndOfTime \<longleftrightarrow> True"
| "wf_logical_time (LogicalYear y) \<longleftrightarrow> wf_i32 y"
| "wf_logical_time (LogicalYearMonth y m) \<longleftrightarrow> wf_i32 y \<and> m < 256"
| "wf_logical_time (LogicalDate y m d) \<longleftrightarrow> wf_i32 y \<and> m < 256 \<and> d < 256"
| "wf_logical_time (LogicalDateTimeUtc y m d h mi s ns) \<longleftrightarrow>
     wf_i32 y \<and> m < 256 \<and> d < 256 \<and> h < 256 \<and> mi < 256 \<and> s < 256 \<and> ns < 2 ^ 32"

fun wf_record :: "logical_record \<Rightarrow> bool" where
  "wf_record (HeaderRecord format version uuid) \<longleftrightarrow> wf_string format \<and> wf_string uuid"
| "wf_record (RoleRecord ident name reserved) \<longleftrightarrow> wf_external ident \<and> wf_string name"
| "wf_record (PositRecord ident appearances literal t) \<longleftrightarrow> wf_external ident
     \<and> (\<forall>a \<in> set appearances. wf_external (la_role a) \<and> wf_external (la_thing a))
     \<and> wf_string (ll_family literal) \<and> wf_string (ll_token literal) \<and> wf_logical_time t"

text \<open>Serialisation to one line of JSON: it never fails on these types, writes no newline, and is read back.\<close>

definition json_law :: "transfer_json \<Rightarrow> bool" where
  "json_law J \<longleftrightarrow>
     (\<forall>r. wf_record r \<longrightarrow> (\<exists>line. record_to_vec J r = Some line \<and> record_from_slice J line = Some r
        \<and> 10 \<notin> set line \<and> \<not> list_all is_ascii_whitespace line))
     \<and> (\<forall>doc. remap_to_vec J doc \<noteq> None)"

lemma json_lawD:
  assumes "json_law J" and "wf_record r" and "record_to_vec J r = Some line"
  shows "record_from_slice J line = Some r" and "10 \<notin> set line" and "\<not> list_all is_ascii_whitespace line"
  using assms unfolding json_law_def by fastforce+

lemma wf_header: "wf_string uuid \<Longrightarrow> wf_record (header_record uuid)"
proof -
  have "wf_string logical_export_format" by code_simp
  then show "wf_string uuid \<Longrightarrow> ?thesis" by (simp add: header_record_def)
qed

lemma wf_export_role: "wf_string uuid \<Longrightarrow> wf_role nfc r \<Longrightarrow> wf_record (export_role uuid r)"
  by (simp add: export_role_def external_identity_of_def wf_external_def wf_role_def)

lemma wf_family_name: "wf_string (family_name f)"
proof -
  have "wf_string ''string''" "wf_string ''integer''" "wf_string ''decimal''" "wf_string ''certainty''"
    "wf_string ''json''" "wf_string ''time''" by code_simp+
  then show ?thesis by (cases f) (simp_all add: family_name_def)
qed

context calendar_codec
begin

lemma wf_from_time: "wf_time C t \<Longrightarrow> wf_logical_time (from_time t)"
  using from_ymd_components from_hms_components
  by (auto simp: wf_time_def from_time_def valid_date_def valid_datetime_def wf_i32_def Let_def
      split: time_type.splits)

lemma wf_export_posit: "wf_string uuid \<Longrightarrow> wf_posit L C p \<Longrightarrow> wf_record (export_posit uuid p)"
  by (auto simp: export_posit_def external_identity_of_def wf_external_def wf_posit_def wf_from_time wf_family_name)

end

section \<open>Lines\<close>

definition lines_of :: "bytes list \<Rightarrow> bytes" where
  "lines_of ls = concat (map (\<lambda>l. l @ [10]) ls)"

lemma lines_of_simps [simp]: "lines_of [] = []" "lines_of (l # ls) = l @ 10 # lines_of ls"
  by (simp_all add: lines_of_def)

lemma write_records_lines:
  "write_records J fault k rs out = (Inr (), out') \<Longrightarrow> \<exists>ls. out' = out @ lines_of ls
     \<and> list_all2 (\<lambda>r l. record_to_vec J r = Some l \<and> length l \<le> max_logical_record_size) rs ls"
proof (induction rs arbitrary: k out)
  case (Cons r rs)
  obtain l where l: "record_to_vec J r = Some l" "length l \<le> max_logical_record_size"
    and rest: "write_records J fault (Suc k) rs (out @ l @ [10]) = (Inr (), out')"
    using Cons.prems by (auto simp: attempt_st_eq_Inr write_record_def split: option.splits if_splits file_fault.splits)
  from Cons.IH [OF rest] obtain ls where "out' = (out @ l @ [10]) @ lines_of ls"
      "list_all2 (\<lambda>r l. record_to_vec J r = Some l \<and> length l \<le> max_logical_record_size) rs ls" by blast
  with l show ?case by (intro exI [of _ "l # ls"]) simp
qed simp

lemma list_all2_right: "list_all2 P xs ys \<Longrightarrow> y \<in> set ys \<Longrightarrow> \<exists>x \<in> set xs. P x y"
  by (induction rule: list_all2_induct) auto

fun import_lines ::
    "transfer_json \<Rightarrow> 'n literal_lib \<Rightarrow> chrono \<Rightarrow> bytes list \<Rightarrow> import_progress
       \<Rightarrow> import_progress result option" where
  "import_lines J L C [] p = Some (Inr p)"
| "import_lines J L C (l # ls) p =
     (case import_line J L C l p of
        None \<Rightarrow> None | Some (Inl e) \<Rightarrow> Some (Inl e) | Some (Inr p) \<Rightarrow> import_lines J L C ls p)"

lemma read_lines_import:
  "buffers (lines_of ls) reader \<Longrightarrow> \<forall>l \<in> set ls. 10 \<notin> set l \<and> length l \<le> max_logical_record_size
     \<Longrightarrow> read_lines J L C reader p = import_lines J L C ls p"
proof (induction ls arbitrary: reader p)
  case Nil
  then show ?case by (simp add: read_lines.simps)
next
  case (Cons l ls)
  obtain reader' where "read_bounded_line reader [] = (Inr (Some l), reader')" "buffers (lines_of ls) reader'"
    using read_line_buffers [of l "lines_of ls" reader "[]"] Cons.prems by auto
  with Cons show ?case by (subst read_lines.simps) (simp split: option.split sum.split)
qed

lemma import_lines_append:
  "import_lines J L C ls p = Some (Inr q) \<Longrightarrow> import_lines J L C (ls @ ls') p = import_lines J L C ls' q"
  by (induction ls arbitrary: p) (auto split: option.splits sum.splits)

lemma validate_external_of [simp]: "validate_external (external_identity_of uuid i) uuid = Inr i"
  by (simp add: validate_external_def external_identity_of_def)

text \<open>The header, the roles and the posits in turn.\<close>

lemma import_header_line:
  assumes "json_law J" and "length uuid = 16" and "record_to_vec J (header_record (format_uuid uuid)) = Some l"
  shows "import_line J L C l no_progress = Some (Inr (no_progress\<lparr>prog_line := 1, prog_uuid := Some (format_uuid uuid)\<rparr>))"
proof -
  note json_lawD [OF assms(1) wf_header [OF format_uuid_ascii [OF assms(2)]] assms(3)]
  then show ?thesis
    by (simp add: import_line_def header_record_def import_header_def no_progress_def
        parse_format_uuid [OF assms(2)])
qed

lemma import_role_lines:
  assumes J: "json_law J" and uuid: "wf_string uuid"
  shows "list_all2 (\<lambda>r l. record_to_vec J r = Some l) (map (export_role uuid) roles) ls
    \<Longrightarrow> \<forall>r \<in> set roles. wf_role nfc r \<Longrightarrow> prog_uuid p = Some uuid \<Longrightarrow> \<not> prog_saw_posit p
    \<Longrightarrow> import_lines J L C ls p =
      Some (Inr (p\<lparr>prog_line := prog_line p + length roles, prog_roles := prog_roles p @ roles\<rparr>))"
proof (induction roles arbitrary: ls p)
  case (Cons r roles)
  obtain l ls' where ls: "ls = l # ls'" and l: "record_to_vec J (export_role uuid r) = Some l"
    and rest: "list_all2 (\<lambda>r l. record_to_vec J r = Some l) (map (export_role uuid) roles) ls'"
    using Cons.prems(1) by (auto simp: list_all2_Cons1)
  have "wf_record (export_role uuid r)"
    by (rule wf_export_role [OF uuid, of nfc]) (use Cons.prems(2) in simp)
  note json_lawD [OF J this l]
  then have "import_line J L C l p = Some (Inr (p\<lparr>prog_line := prog_line p + 1, prog_roles := prog_roles p @ [r]\<rparr>))"
    using Cons.prems(3,4) by (simp add: import_line_def export_role_def import_role_def)
  then show ?case using Cons.IH [OF rest] Cons.prems(2-4) ls by simp
qed simp

context calendar_codec
begin

lemma import_posit_line:
  assumes J: "json_law J" and uuid: "wf_string uuid" and l: "record_to_vec J (export_posit uuid p) = Some l"
    and wf: "wf_posit L C p" and prog: "prog_uuid q = Some uuid"
  shows "import_line J L C l q = Some (Inr (q\<lparr>prog_line := prog_line q + 1, prog_saw_posit := True,
    prog_posits := prog_posits q @ [p]\<rparr>))"
proof -
  note json = json_lawD [OF J wf_export_posit [OF uuid wf] l]
  let ?apps = "map (\<lambda>(r, t). \<lparr>la_role = external_identity_of uuid r, la_thing = external_identity_of uuid t\<rparr>)
    (posit_appearances p)"
  have "try_map (\<lambda>a. attempt (validate_external (la_role a) uuid) (\<lambda>r.
      attempt (validate_external (la_thing a) uuid) (\<lambda>t. Inr (r, t)))) (map (\<lambda>(r, t).
        \<lparr>la_role = external_identity_of uuid r, la_thing = external_identity_of uuid t\<rparr>) apps) =
      (Inr apps :: (thing \<times> thing) list result)" for apps
    by (induction apps) auto
  moreover have "sort (posit_appearances p) = posit_appearances p" "wf_literal L (posit_value p)" "wf_time C (posit_time p)"
    using wf canonical_sorted by (auto simp: wf_posit_def)
  ultimately show ?thesis
    using json prog by (simp add: import_line_def export_posit_def import_posit_def new_literal_parts into_from_time)
qed

lemma import_posit_lines:
  assumes J: "json_law J" and uuid: "wf_string uuid"
  shows "list_all2 (\<lambda>r l. record_to_vec J r = Some l) (map (export_posit uuid) posits) ls
    \<Longrightarrow> \<forall>p \<in> set posits. wf_posit L C p \<Longrightarrow> prog_uuid q = Some uuid
    \<Longrightarrow> \<exists>n seen. import_lines J L C ls q =
      Some (Inr (q\<lparr>prog_line := n, prog_saw_posit := seen, prog_posits := prog_posits q @ posits\<rparr>))"
proof (induction posits arbitrary: ls q)
  case Nil
  then show ?case by (intro exI [of _ "prog_line q"] exI [of _ "prog_saw_posit q"]) simp
next
  case (Cons p posits)
  obtain l ls' where ls: "ls = l # ls'" and l: "record_to_vec J (export_posit uuid p) = Some l"
    and rest: "list_all2 (\<lambda>r l. record_to_vec J r = Some l) (map (export_posit uuid) posits) ls'"
    using Cons.prems(1) by (auto simp: list_all2_Cons1)
  have "import_line J L C l q = Some (Inr (q\<lparr>prog_line := prog_line q + 1, prog_saw_posit := True,
      prog_posits := prog_posits q @ [p]\<rparr>))"
    by (rule import_posit_line [OF J uuid l]) (use Cons.prems in simp_all)
  then show ?case using Cons.IH [OF rest, of "q\<lparr>prog_line := prog_line q + 1, prog_saw_posit := True,
      prog_posits := prog_posits q @ [p]\<rparr>"] Cons.prems(2,3) ls by auto
qed

end

section \<open>Validation\<close>

lemma validate_roles_ok:
  "\<forall>r \<in> set roles. role_identity r \<noteq> 0 \<Longrightarrow> distinct (map role_identity roles) \<Longrightarrow> distinct (map role_name roles)
     \<Longrightarrow> role_identity ` set roles \<inter> ids = {} \<Longrightarrow> role_name ` set roles \<inter> names = {}
     \<Longrightarrow> validate_roles roles ids names = Inr (ids \<union> role_identity ` set roles)"
  by (induction roles arbitrary: ids names) auto

lemma validate_posits_ok:
  "\<forall>p \<in> set posits. posit_identity p \<noteq> 0 \<and> canonical_appearances (posit_appearances p)
       \<and> fst ` set (posit_appearances p) \<subseteq> role_ids
     \<Longrightarrow> distinct (map posit_identity posits) \<Longrightarrow> distinct (map proposition_of posits)
     \<Longrightarrow> posit_identity ` set posits \<inter> ids = {} \<Longrightarrow> proposition_of ` set posits \<inter> props = {}
     \<Longrightarrow> validate_posits role_ids posits ids props = Inr ()"
proof (induction posits arbitrary: ids props)
  case (Cons p posits)
  have apps: "canonical_appearances (posit_appearances p)" "fst ` set (posit_appearances p) \<subseteq> role_ids"
    using Cons.prems(1) by auto
  have "sorted (map fst (posit_appearances p))" "distinct (map fst (posit_appearances p))"
    using apps(1) by (auto simp: canonical_appearances_def strict_sorted_iff)
  then have "\<not> any_adjacent (\<lambda>a b. fst a = fst b) (posit_appearances p)"
    using any_adjacent_eq_sorted by blast
  then show ?case
    using Cons apps by (auto simp: canonical_appearances_def list_ex_iff)
qed simp

lemma validate_catalogue:
  assumes cat: "catalogue nfc L C roles posits" and builtins: "builtins_present roles"
  shows "validate_imported roles posits = Inr ()"
proof -
  have r: "validate_roles roles {} {} = Inr (role_identity ` set roles)"
    by (subst validate_roles_ok) (use cat in \<open>auto simp: catalogue_def wf_role_def\<close>)
  have p: "validate_posits (role_identity ` set roles) posits (role_identity ` set roles) {} = Inr ()"
    by (rule validate_posits_ok) (use cat in \<open>auto simp: catalogue_def wf_posit_def known_roles_def\<close>)
  have "list_ex (\<lambda>r. role_identity r = ident \<and> role_name r = name \<and> role_reserved r) roles"
    if "(ident, name) \<in> set builtin_roles" for ident name
    using builtins that unfolding builtins_present_def list_ex_iff by force
  then have "try_fold (\<lambda>(ident, name) _.
      if \<not> list_ex (\<lambda>r. role_identity r = ident \<and> role_name r = name \<and> role_reserved r) roles
      then corruption ''logical export lacks reserved built-in Role'' else Inr ()) builtin_roles () = Inr ()"
    using try_fold_checks [of "\<lambda>(ident, name). if \<not> list_ex (\<lambda>r. role_identity r = ident \<and> role_name r = name \<and> role_reserved r) roles
      then corruption ''logical export lacks reserved built-in Role'' else Inr ()" builtin_roles "()"]
    by (fastforce simp: case_prod_unfold)
  with r p show ?thesis by (simp add: validate_imported_def)
qed

lemma catalogue_sorted:
  assumes "catalogue nfc L C roles posits"
  shows "catalogue nfc L C (sort_key f roles) (sort_key g posits)"
  using assms by (auto simp: catalogue_def known_roles_def distinct_map)

lemma builtins_sorted: "builtins_present roles \<Longrightarrow> builtins_present (sort_key f roles)"
  by (simp add: builtins_present_def)

section \<open>An export is read back\<close>

definition imported_of :: "replayed_store \<Rightarrow> imported_store" where
  "imported_of rs = \<lparr>imported_uuid = format_uuid (replayed_uuid rs),
     imported_roles = sort_key role_identity (replayed_roles rs),
     imported_posits = sort_key posit_identity (replayed_posits rs)\<rparr>"

lemma export_store_Inr:
  assumes "export_store nfc L C J canonicalize shareable fault sp dir op out = (Inr report, out')"
  obtains s rs ls where "open_snapshot_replayed nfc L C shareable dir = Inr (s, rs)"
    and "out' = Some (lines_of ls)"
    and "list_all2 (\<lambda>r l. record_to_vec J r = Some l \<and> length l \<le> max_logical_record_size)
      (export_records (imported_uuid (imported_of rs)) (imported_roles (imported_of rs)) (imported_posits (imported_of rs))) ls"
proof -
  obtain s rs where snap: "open_snapshot_replayed nfc L C shareable dir = Inr (s, rs)"
    using assms by (auto simp: export_store_def attempt_st_eq_Inr)
  obtain r w where w: "write_records J fault 0 (export_records (imported_uuid (imported_of rs))
      (imported_roles (imported_of rs)) (imported_posits (imported_of rs))) [] = (r, w)" by fastforce
  have "r = Inr () \<and> out' = Some w"
    using assms snap w
    by (auto simp: export_store_def attempt_st_eq_Inr imported_of_def Let_def split: if_splits prod.splits file_fault.splits)
  with write_records_lines [of J fault 0 _ "[]" w] w snap that show thesis by force
qed

lemma export_reads_back:
  assumes C: "calendar_codec C" and J: "json_law J"
    and cat: "catalogue nfc L C (replayed_roles rs) (replayed_posits rs)"
    and builtins: "builtins_present (replayed_roles rs)" and uuid: "length (replayed_uuid rs) = 16"
    and lines: "list_all2 (\<lambda>r l. record_to_vec J r = Some l \<and> length l \<le> max_logical_record_size)
      (export_records (imported_uuid (imported_of rs)) (imported_roles (imported_of rs)) (imported_posits (imported_of rs))) ls"
    and reader: "buffers (lines_of ls) reader"
  shows "read_export J L C (Some reader) = Some (Inr (imported_of rs))"
proof -
  let ?u = "format_uuid (replayed_uuid rs)"
  let ?roles = "sort_key role_identity (replayed_roles rs)" and ?posits = "sort_key posit_identity (replayed_posits rs)"
  have wf_u: "wf_string ?u" by (rule format_uuid_ascii [OF uuid])
  have catalogue: "catalogue nfc L C ?roles ?posits" by (rule catalogue_sorted [OF cat])
  have wf: "\<forall>r \<in> set ?roles. wf_role nfc r" "\<forall>p \<in> set ?posits. wf_posit L C p"
    using catalogue by (auto simp: catalogue_def)
  obtain l ls1 ls2 where ls: "ls = l # ls1 @ ls2"
    and l: "record_to_vec J (header_record ?u) = Some l" "length l \<le> max_logical_record_size"
    and ls1: "list_all2 (\<lambda>r l. record_to_vec J r = Some l \<and> length l \<le> max_logical_record_size) (map (export_role ?u) ?roles) ls1"
    and ls2: "list_all2 (\<lambda>r l. record_to_vec J r = Some l \<and> length l \<le> max_logical_record_size) (map (export_posit ?u) ?posits) ls2"
    using lines by (auto simp: imported_of_def export_records_def list_all2_Cons1 list_all2_append1)
  have plain: "10 \<notin> set l' \<and> length l' \<le> max_logical_record_size" if member: "l' \<in> set ls" for l'
  proof -
    obtain r where "r \<in> set (export_records ?u ?roles ?posits)" "record_to_vec J r = Some l'"
        "length l' \<le> max_logical_record_size"
      using list_all2_right [OF lines member] by (auto simp: imported_of_def)
    moreover from this(1) have "wf_record r"
      using wf_header [OF wf_u] wf_export_role [OF wf_u, of nfc] calendar_codec.wf_export_posit [OF C wf_u, of L] wf
      by (auto simp: export_records_def)
    ultimately show ?thesis using json_lawD(2) [OF J] by blast
  qed
  let ?p1 = "no_progress\<lparr>prog_line := 1, prog_uuid := Some ?u\<rparr>"
  let ?p2 = "?p1\<lparr>prog_line := prog_line ?p1 + length ?roles, prog_roles := prog_roles ?p1 @ ?roles\<rparr>"
  have roles: "import_lines J L C ls1 ?p1 = Some (Inr ?p2)"
    by (rule import_role_lines [OF J wf_u _ wf(1)])
      (use ls1 in \<open>auto simp: no_progress_def elim: list_all2_mono\<close>)
  have "\<exists>n seen. import_lines J L C ls2 ?p2 =
      Some (Inr (?p2\<lparr>prog_line := n, prog_saw_posit := seen, prog_posits := prog_posits ?p2 @ ?posits\<rparr>))"
    by (rule calendar_codec.import_posit_lines [OF C J wf_u _ wf(2)])
      (use ls2 in \<open>auto elim: list_all2_mono\<close>)
  then have "\<exists>n seen. import_lines J L C (ls1 @ ls2) ?p1 =
      Some (Inr (?p2\<lparr>prog_line := n, prog_saw_posit := seen, prog_posits := prog_posits ?p2 @ ?posits\<rparr>))"
    unfolding import_lines_append [OF roles] .
  then have "\<exists>n seen. import_lines J L C ls no_progress =
      Some (Inr (?p2\<lparr>prog_line := n, prog_saw_posit := seen, prog_posits := prog_posits ?p2 @ ?posits\<rparr>))"
    unfolding ls import_lines.simps import_header_line [OF J uuid l(1)] by simp
  moreover have "read_lines J L C reader no_progress = import_lines J L C ls no_progress"
    by (rule read_lines_import [OF reader]) (use plain in blast)
  ultimately show ?thesis
    using validate_catalogue [OF catalogue builtins_sorted [OF builtins]]
    by (auto simp: read_export_def imported_of_def no_progress_def)
qed

end
