(* ===== verification/Maintenance_Import.thy ===== *)
theory Maintenance_Import
  imports Maintenance_Reading Database_Properties
begin

text \<open>
  Importing: the renaming of identities, the catalogue it makes of the one that was read, and the store
  the appends leave.
\<close>

section \<open>Fresh identities\<close>

definition builtin_identities :: "thing set" where
  "builtin_identities = fst ` set builtin_roles"

lemma builtin_identities_eq: "builtin_identities = {1, 2, 3, 4, 5}"
  by code_simp

definition fresh_renaming :: "thing set \<Rightarrow> (thing \<Rightarrow> thing) \<Rightarrow> bool" where
  "fresh_renaming ids f \<longleftrightarrow> inj_on f (ids \<union> builtin_identities) \<and> (\<forall>i \<in> builtin_identities. f i = i)
     \<and> (\<forall>i \<in> ids - builtin_identities. f i \<noteq> i \<and> 6 \<le> f i)"

lemma next_identity_eq:
  assumes "\<forall>u \<in> used. u < nxt"
  shows "next_identity used source nxt =
    (if nxt = source then ok_or exhausted (checked_add_u64 nxt 1) else Inr nxt)"
proof (cases "nxt = source")
  case True
  show ?thesis
  proof (cases "checked_add_u64 nxt 1")
    case None
    then show ?thesis using True by (subst next_identity.simps) simp
  next
    case (Some n)
    have "unat n = unat nxt + 1" using unat_checked_add_u64 [OF Some] by simp
    then have "nxt < n" by (simp add: word_less_nat_alt)
    then have "n \<notin> used" "n \<noteq> source" using assms True by force+
    then have "next_identity used source n = Inr n" by (subst next_identity.simps) simp
    then show ?thesis using True Some by (subst next_identity.simps) simp
  qed
next
  case False
  then show ?thesis using assms by (subst next_identity.simps) auto
qed

lemma next_identity_Inr:
  assumes "\<forall>u \<in> used. u < nxt" and "next_identity used source nxt = Inr n"
  shows "nxt \<le> n" and "n \<noteq> source" and "unat n \<le> unat nxt + 1"
  using assms(2) unfolding next_identity_eq [OF assms(1)]
  by (auto split: if_splits dest!: unat_checked_add_u64 simp: word_le_nat_alt)

lemma assign_identities_Inr:
  "assign_identities sources used m nxt = Inr m' \<Longrightarrow> \<forall>u \<in> used. u < nxt \<Longrightarrow> ran m \<subseteq> used
     \<Longrightarrow> inj_on m (dom m) \<Longrightarrow> dom m' = dom m \<union> set sources \<and> m \<subseteq>\<^sub>m m' \<and> inj_on m' (dom m')
       \<and> (\<forall>x y. m x = None \<longrightarrow> m' x = Some y \<longrightarrow> y \<noteq> x \<and> nxt \<le> y)"
proof (induction sources arbitrary: used m nxt)
  case Nil
  then show ?case by (simp add: map_le_def) force?
next
  case (Cons s sources)
  show ?case
  proof (cases "m s")
    case None
    obtain n after where n: "next_identity used s nxt = Inr n" and after: "checked_add_u64 n 1 = Some after"
      and rest: "assign_identities sources (insert n used) (m(s \<mapsto> n)) after = Inr m'"
      using Cons.prems(1) None by (auto simp: attempt_eq_Inr)
    note bounds = next_identity_Inr [OF Cons.prems(2) n]
    have "n < after" using unat_checked_add_u64 [OF after] by (simp add: word_less_nat_alt)
    have "n \<notin> used" using bounds(1) Cons.prems(2) by force
    have used: "\<forall>u \<in> insert n used. u < after" using Cons.prems(2) bounds(1) \<open>n < after\<close> by force
    have ran: "ran (m(s \<mapsto> n)) \<subseteq> insert n used" using Cons.prems(3) None by auto
    have inj: "inj_on (m(s \<mapsto> n)) (dom (m(s \<mapsto> n)))"
      using Cons.prems(3,4) None \<open>n \<notin> used\<close> by (auto simp: inj_on_def ran_def)
    note ih = Cons.IH [OF rest used ran inj]
    have "m \<subseteq>\<^sub>m m(s \<mapsto> n)" using None by (auto simp: map_le_def)
    then have le: "m \<subseteq>\<^sub>m m'" using ih map_le_trans by blast
    have "m(s \<mapsto> n) \<subseteq>\<^sub>m m'" using ih by blast
    then have s: "m' s = Some n" by (metis domI fun_upd_same map_le_def)
    have "y \<noteq> x \<and> nxt \<le> y" if "m x = None" "m' x = Some y" for x y
    proof (cases "x = s")
      case True
      then show ?thesis using s that bounds by simp
    next
      case False
      then have "y \<noteq> x \<and> after \<le> y" using ih that by (metis fun_upd_other)
      then show ?thesis using bounds(1) \<open>n < after\<close> by auto
    qed
    then show ?thesis using ih le by auto
  next
    case (Some y)
    then show ?thesis using Cons.IH [of used m nxt] Cons.prems by auto
  qed
qed

lemma assign_identities_ok:
  "\<forall>u \<in> used. u < nxt \<Longrightarrow> unat nxt + 2 * length sources < 2 ^ 64 \<Longrightarrow> \<exists>m'. assign_identities sources used m nxt = Inr m'"
proof (induction sources arbitrary: used m nxt)
  case (Cons s sources)
  show ?case
  proof (cases "m s")
    case None
    have "\<exists>n. next_identity used s nxt = Inr n"
      using Cons.prems(2) by (auto simp: next_identity_eq [OF Cons.prems(1)] checked_add_u64_def)
    then obtain n where n: "next_identity used s nxt = Inr n" by blast
    note bounds = next_identity_Inr [OF Cons.prems(1) n]
    have after: "checked_add_u64 n 1 = Some (n + 1)" using bounds(3) Cons.prems(2) by (simp add: checked_add_u64_def)
    have "unat (n + 1) = unat n + 1" using unat_checked_add_u64 [OF after] by simp
    then have "n < n + 1" and "unat (n + 1) + 2 * length sources < 2 ^ 64"
      using bounds(3) Cons.prems(2) by (simp_all add: word_less_nat_alt)
    moreover have "\<forall>u \<in> insert n used. u < n + 1" using Cons.prems(1) bounds(1) \<open>n < n + 1\<close> by force
    ultimately show ?thesis using Cons.IH None n after by simp
  qed (use Cons in simp)
qed simp

lemma remap_mappings:
  "\<forall>x \<in> set xs. m x \<noteq> None \<Longrightarrow> try_map (\<lambda>source. attempt (mapped m source) (\<lambda>destination. Inr (g source destination))) xs =
     Inr (map (\<lambda>x. g x (the (m x))) xs)"
  by (induction xs) (auto simp: mapped_def)

lemma builtin_map:
  fixes m :: "thing \<rightharpoonup> thing"
  defines "m \<equiv> map_of (map (\<lambda>i. (i, i)) (map fst builtin_roles))"
  shows "dom m = builtin_identities" and "ran m \<subseteq> builtin_identities" and "inj_on m (dom m)"
    and "\<And>i. i \<in> builtin_identities \<Longrightarrow> m i = Some i" and "\<forall>u \<in> set (map fst builtin_roles). u < (6 :: thing)"
proof -
  have same: "map_of (map (\<lambda>i. (i, i)) xs) x = (if x \<in> set xs then Some x else None)" for xs :: "thing list" and x
    by (induction xs) auto
  have m: "m = (\<lambda>i. if i \<in> builtin_identities then Some i else None)"
    by (simp add: m_def fun_eq_iff same builtin_identities_def del: map_map)
  show "dom m = builtin_identities" "ran m \<subseteq> builtin_identities" "inj_on m (dom m)"
    by (auto simp: m dom_def ran_def inj_on_def split: if_splits)
  show "m i = Some i" if "i \<in> builtin_identities" for i using that by (simp add: m)
  show "\<forall>u \<in> set (map fst builtin_roles). u < (6 :: thing)"
    using builtin_identities_eq by (auto simp: builtin_identities_def)
qed

definition renaming_of :: "(thing \<rightharpoonup> thing) \<Rightarrow> thing \<Rightarrow> thing" where
  "renaming_of m x = the (m x)"

definition remap_entries :: "string \<Rightarrow> string \<Rightarrow> (thing \<Rightarrow> thing) \<Rightarrow> thing list \<Rightarrow> identity_remap list" where
  "remap_entries source destination f ids = map (\<lambda>i. \<lparr>remap_source = external_identity_of source i,
     remap_destination = external_identity_of destination (f i)\<rparr>) ids"

lemma build_identity_remap_Inr:
  assumes "build_identity_remap imported uuid = Inr (m, mappings)"
    and "finite (foreign_identities imported)"
  shows "dom m = builtin_identities \<union> foreign_identities imported"
    and "fresh_renaming (foreign_identities imported) (renaming_of m)"
    and "mappings = remap_entries (imported_uuid imported) uuid (renaming_of m)
      (sorted_list_of_set (foreign_identities imported))"
proof -
  let ?b = "map_of (map (\<lambda>i. (i, i)) (map fst builtin_roles)) :: thing \<rightharpoonup> thing"
  let ?ids = "sorted_list_of_set (foreign_identities imported)"
  have run: "assign_identities ?ids (set (map fst builtin_roles)) ?b 6 = Inr m"
    using assms(1) by (auto simp: build_identity_remap_def Let_def attempt_eq_Inr)
  note b = builtin_map
  have r: "dom m = dom ?b \<union> set ?ids \<and> ?b \<subseteq>\<^sub>m m \<and> inj_on m (dom m)
      \<and> (\<forall>x y. ?b x = None \<longrightarrow> m x = Some y \<longrightarrow> y \<noteq> x \<and> 6 \<le> y)"
    by (rule assign_identities_Inr [OF run b(5) _ b(3)]) (use b(2) in \<open>simp add: builtin_identities_def\<close>)
  then show d: "dom m = builtin_identities \<union> foreign_identities imported"
    using assms(2) b(1) by simp
  have "inj_on (renaming_of m) (dom m)"
  proof (rule inj_onI)
    fix x y assume xy: "x \<in> dom m" "y \<in> dom m" "renaming_of m x = renaming_of m y"
    then have "m x = m y" by (auto simp: renaming_of_def)
    moreover have "inj_on m (dom m)" using r by blast
    ultimately show "x = y" using xy(1,2) by (metis inj_onD)
  qed
  moreover have "renaming_of m i = i" if "i \<in> builtin_identities" for i
  proof -
    have le: "?b \<subseteq>\<^sub>m m" using r by blast
    have "i \<in> dom ?b" using that b(1) by blast
    with le have "m i = ?b i" unfolding map_le_def by simp
    then have "m i = Some i" using b(4) [OF that] by simp
    then show ?thesis by (simp add: renaming_of_def)
  qed
  moreover have "renaming_of m i \<noteq> i \<and> 6 \<le> renaming_of m i"
    if "i \<in> foreign_identities imported - builtin_identities" for i
  proof -
    have "i \<notin> dom ?b" "i \<in> dom m" unfolding d b(1) using that by simp_all
    then obtain y where "?b i = None" and y: "m i = Some y" by (auto simp del: map_map)
    then have "y \<noteq> i \<and> 6 \<le> y" using r by blast
    then show ?thesis by (simp add: renaming_of_def y)
  qed
  ultimately show "fresh_renaming (foreign_identities imported) (renaming_of m)"
    unfolding fresh_renaming_def d by (simp add: Un_commute)
  have known: "\<forall>x \<in> set ?ids. m x \<noteq> None" using d assms(2) by auto
  have "mappings = map (\<lambda>x. \<lparr>remap_source = external_identity_of (imported_uuid imported) x,
      remap_destination = external_identity_of uuid (the (m x))\<rparr>) ?ids"
    using assms(1) run remap_mappings [OF known, of "\<lambda>source destination.
        \<lparr>remap_source = external_identity_of (imported_uuid imported) source,
         remap_destination = external_identity_of uuid destination\<rparr>"]
    by (simp add: build_identity_remap_def Let_def)
  then show "mappings = remap_entries (imported_uuid imported) uuid (renaming_of m) ?ids"
    by (simp add: remap_entries_def renaming_of_def)
qed

lemma build_identity_remap_ok:
  assumes "finite (foreign_identities imported)" and "6 + 2 * card (foreign_identities imported) < 2 ^ 64"
  shows "\<exists>m mappings. build_identity_remap imported uuid = Inr (m, mappings)"
proof -
  let ?b = "map_of (map (\<lambda>i. (i, i)) (map fst builtin_roles)) :: thing \<rightharpoonup> thing"
  let ?ids = "sorted_list_of_set (foreign_identities imported)"
  obtain m where m: "assign_identities ?ids (set (map fst builtin_roles)) ?b 6 = Inr m"
    using assign_identities_ok [OF builtin_map(5), of ?ids ?b] assms by auto
  have "dom m = dom ?b \<union> set ?ids"
    using assign_identities_Inr [OF m builtin_map(5) _ builtin_map(3)] builtin_map(2)
    by (simp add: builtin_identities_def)
  then have "\<forall>x \<in> set ?ids. m x \<noteq> None" by blast
  then show ?thesis
    using m remap_mappings [of ?ids m "\<lambda>source destination.
        \<lparr>remap_source = external_identity_of (imported_uuid imported) source,
         remap_destination = external_identity_of uuid destination\<rparr>"]
    by (simp add: build_identity_remap_def Let_def)
qed

section \<open>The renamed catalogue\<close>

definition rename_role :: "(thing \<Rightarrow> thing) \<Rightarrow> replayed_role \<Rightarrow> replayed_role" where
  "rename_role f r = r\<lparr>role_identity := f (role_identity r)\<rparr>"

definition rename_posit :: "(thing \<Rightarrow> thing) \<Rightarrow> replayed_posit \<Rightarrow> replayed_posit" where
  "rename_posit f p = p\<lparr>posit_identity := f (posit_identity p),
     posit_appearances := sort (map (map_prod f f) (posit_appearances p))\<rparr>"

lemma rename_role_simps [simp]:
  "role_identity (rename_role f r) = f (role_identity r)" "role_name (rename_role f r) = role_name r"
  "role_reserved (rename_role f r) = role_reserved r"
  by (simp_all add: rename_role_def)

lemma rename_posit_simps [simp]:
  "posit_identity (rename_posit f p) = f (posit_identity p)"
  "posit_appearances (rename_posit f p) = sort (map (map_prod f f) (posit_appearances p))"
  "posit_value (rename_posit f p) = posit_value p" "posit_time (rename_posit f p) = posit_time p"
  by (simp_all add: rename_posit_def)

lemma identities_member:
  "r \<in> set roles \<Longrightarrow> role_identity r \<in> identities_of roles posits"
  "p \<in> set posits \<Longrightarrow> posit_identity p \<in> identities_of roles posits"
  "p \<in> set posits \<Longrightarrow> (r', t) \<in> set (posit_appearances p) \<Longrightarrow> r' \<in> identities_of roles posits"
  "p \<in> set posits \<Longrightarrow> (r', t) \<in> set (posit_appearances p) \<Longrightarrow> t \<in> identities_of roles posits"
  unfolding identities_of_def by force+

lemma finite_identities [simp]: "finite (identities_of roles posits)"
  by (auto simp: identities_of_def)

lemma fresh_renaming_nonzero: "fresh_renaming ids f \<Longrightarrow> i \<in> ids \<Longrightarrow> f i \<noteq> 0"
proof -
  assume f: "fresh_renaming ids f" and i: "i \<in> ids"
  show ?thesis
  proof (cases "i \<in> builtin_identities")
    case True
    then show ?thesis using f by (auto simp: fresh_renaming_def builtin_identities_eq)
  next
    case False
    then have "6 \<le> f i" using f i by (simp add: fresh_renaming_def)
    then show ?thesis by (auto simp: word_le_nat_alt)
  qed
qed

lemma fresh_renaming_inj: "fresh_renaming ids f \<Longrightarrow> A \<subseteq> ids \<Longrightarrow> inj_on f A"
  by (auto simp: fresh_renaming_def intro: inj_on_subset)

text \<open>A canonical list of appearances is determined by its elements.\<close>

lemma canonical_unique:
  "canonical_appearances a \<Longrightarrow> canonical_appearances b \<Longrightarrow> set a = set b \<Longrightarrow> a = b"
proof (rule sorted_distinct_set_unique)
  have "sorted a \<and> distinct a" if "canonical_appearances a" for a
    using canonical_sorted [OF that] sorted_sort [of a] that
    by (auto simp: canonical_appearances_def strict_sorted_iff distinct_map)
  then show "canonical_appearances a \<Longrightarrow> sorted a" "canonical_appearances a \<Longrightarrow> distinct a"
    "canonical_appearances b \<Longrightarrow> sorted b" "canonical_appearances b \<Longrightarrow> distinct b" by blast+
qed

lemma rename_appearances:
  assumes "canonical_appearances a" and "inj_on f (fst ` set a)" and "\<forall>(r, t) \<in> set a. f r \<noteq> 0 \<and> f t \<noteq> 0"
  shows "distinct (map fst (map (map_prod f f) a))" and "canonical_appearances (sort (map (map_prod f f) a))"
proof -
  have "distinct (map fst a)" using assms(1) by (simp add: canonical_appearances_def strict_sorted_iff)
  then have "distinct (map f (map fst a))" using assms(2) by (simp add: distinct_map comp_inj_on)
  moreover have "map f (map fst a) = map fst (map (map_prod f f) a)" by (simp add: o_def)
  ultimately show d: "distinct (map fst (map (map_prod f f) a))" by simp
  show "canonical_appearances (sort (map (map_prod f f) a))"
    by (rule sort_canonical [OF _ d]) (use assms in \<open>auto simp: canonical_appearances_def\<close>)
qed

lemma rename_proposition_inj:
  assumes "canonical_appearances (posit_appearances p)" and "canonical_appearances (posit_appearances q)"
    and inj: "inj_on f A" and sub: "fst ` set (posit_appearances p) \<union> snd ` set (posit_appearances p) \<subseteq> A"
      "fst ` set (posit_appearances q) \<union> snd ` set (posit_appearances q) \<subseteq> A"
    and eq: "proposition_of (rename_posit f p) = proposition_of (rename_posit f q)"
  shows "proposition_of p = proposition_of q"
proof -
  have "set (sort (map (map_prod f f) (posit_appearances p))) = set (sort (map (map_prod f f) (posit_appearances q)))"
    using eq by (simp add: proposition_of_def)
  then have img: "map_prod f f ` set (posit_appearances p) = map_prod f f ` set (posit_appearances q)" by simp
  have "inj_on (map_prod f f) (A \<times> A)" using inj by (rule map_prod_inj_on [OF _ inj])
  moreover have "set (posit_appearances p) \<subseteq> A \<times> A" "set (posit_appearances q) \<subseteq> A \<times> A"
    using sub by (force simp: image_subset_iff)+
  ultimately have "set (posit_appearances p) = set (posit_appearances q)"
    using img by (metis inj_on_image_eq_iff)
  then show ?thesis
    using canonical_unique [OF assms(1,2)] eq by (simp add: proposition_of_def)
qed

lemma rename_catalogue:
  assumes cat: "catalogue nfc L C roles posits" and f: "fresh_renaming (identities_of roles posits) f"
  shows "catalogue nfc L C (map (rename_role f) roles) (map (rename_posit f) posits)"
proof -
  let ?ids = "identities_of roles posits"
  note member = identities_member [where roles = roles and posits = posits]
  have nz: "f i \<noteq> 0" if "i \<in> ?ids" for i using fresh_renaming_nonzero [OF f that] .
  have wf: "wf_posit L C p" "known_roles roles p" if "p \<in> set posits" for p
    using cat that by (auto simp: catalogue_def)
  have sub: "fst ` set (posit_appearances p) \<union> snd ` set (posit_appearances p) \<subseteq> ?ids" if "p \<in> set posits" for p
    using member(3,4) [OF that] by force
  have canonical: "canonical_appearances (posit_appearances p)" if "p \<in> set posits" for p
    using wf(1) [OF that] by (simp add: wf_posit_def)
  have renamed: "wf_posit L C (rename_posit f p)" if "p \<in> set posits" for p
  proof -
    have "inj_on f (fst ` set (posit_appearances p))"
      by (rule fresh_renaming_inj [OF f]) (use sub [OF that] in blast)
    moreover have "\<forall>(r, t) \<in> set (posit_appearances p). f r \<noteq> 0 \<and> f t \<noteq> 0"
      using member(3,4) [OF that] nz by blast
    ultimately show ?thesis
      using rename_appearances(2) [OF canonical [OF that]] wf(1) [OF that] nz [OF member(2) [OF that]]
      by (simp add: wf_posit_def)
  qed
  have known: "known_roles (map (rename_role f) roles) (rename_posit f p)" if "p \<in> set posits" for p
    using wf(2) [OF that] by (force simp: known_roles_def)
  have "distinct (map f (map role_identity roles @ map posit_identity posits))"
  proof -
    have "inj_on f (set (map role_identity roles @ map posit_identity posits))"
      by (rule fresh_renaming_inj [OF f]) (use member(1,2) in auto)
    then show ?thesis using cat by (simp only: distinct_map catalogue_def)
  qed
  then have ids: "distinct (map role_identity (map (rename_role f) roles) @ map posit_identity (map (rename_posit f) posits))"
    by (simp add: o_def)
  have "inj_on (proposition_of \<circ> rename_posit f) (set posits)"
  proof (rule inj_onI)
    fix p q assume pq: "p \<in> set posits" "q \<in> set posits"
      and "(proposition_of \<circ> rename_posit f) p = (proposition_of \<circ> rename_posit f) q"
    then have "proposition_of p = proposition_of q"
      using rename_proposition_inj [OF canonical [OF pq(1)] canonical [OF pq(2)] fresh_renaming_inj [OF f subset_refl]
          sub [OF pq(1)] sub [OF pq(2)]] by simp
    moreover have "inj_on proposition_of (set posits)" using cat by (simp add: catalogue_def distinct_map)
    ultimately show "p = q" using pq by (metis inj_onD)
  qed
  moreover have "distinct posits" using cat by (auto simp: catalogue_def distinct_map)
  ultimately have props: "distinct (map proposition_of (map (rename_posit f) posits))"
    by (simp add: distinct_map o_def)
  show ?thesis
    unfolding catalogue_def
  proof (intro conjI)
    show "\<forall>r \<in> set (map (rename_role f) roles). wf_role nfc r"
      using cat nz member(1) by (auto simp: catalogue_def wf_role_def)
    show "\<forall>p \<in> set (map (rename_posit f) posits). wf_posit L C p \<and> known_roles (map (rename_role f) roles) p"
      using renamed known by auto
    show "distinct (map role_name (map (rename_role f) roles))"
      using cat by (simp add: catalogue_def o_def)
    show "distinct (map role_identity (map (rename_role f) roles) @ map posit_identity (map (rename_posit f) posits))"
      by (rule ids)
    show "distinct (map proposition_of (map (rename_posit f) posits))" by (rule props)
  qed
qed

lemma rename_builtins:
  assumes "builtins_present roles" and "fresh_renaming ids f"
  shows "builtins_present (map (rename_role f) roles)"
proof -
  have "\<lparr>role_identity = ident, role_name = name, role_reserved = True\<rparr> \<in> set (map (rename_role f) roles)"
    if "(ident, name) \<in> set builtin_roles" for ident name
  proof -
    let ?r = "\<lparr>role_identity = ident, role_name = name, role_reserved = True\<rparr>"
    have "f ident = ident"
      using assms(2) that by (force simp: fresh_renaming_def builtin_identities_def)
    then have "rename_role f ?r = ?r" by (simp add: rename_role_def)
    moreover have "?r \<in> set roles" using assms(1) that by (auto simp: builtins_present_def)
    ultimately show ?thesis by (metis image_eqI set_map)
  qed
  then show ?thesis by (auto simp: builtins_present_def)
qed

end
