(* ===== verification/Maintenance_Stores.thy ===== *)
theory Maintenance_Stores
  imports Maintenance_Import
begin

text \<open>
  What the appends of an import leave: a store that replays to the renamed catalogue, and the bounds
  under which they succeed.
\<close>

section \<open>Transforming\<close>

lemma mapped_renaming: "i \<in> dom m \<Longrightarrow> mapped m i = Inr (renaming_of m i)"
  by (auto simp: mapped_def renaming_of_def)

lemma transform_roles:
  "role_identity ` set roles \<subseteq> dom m \<Longrightarrow>
     try_map (transform_role m) roles = Inr (map (rename_role (renaming_of m)) roles)"
proof (rule try_map_Inr)
  fix r assume "role_identity ` set roles \<subseteq> dom m" and "r \<in> set roles"
  then have "mapped m (role_identity r) = Inr (renaming_of m (role_identity r))" by (intro mapped_renaming) blast
  then show "transform_role m r = Inr (rename_role (renaming_of m) r)"
    by (simp add: transform_role_def rename_role_def)
qed

lemma posit_record_sorted:
  "posit_record_logical i (sort apps) v t = posit_record_logical i apps v t"
proof -
  have "sort (sort apps) = sort apps" by (rule sorted_sort_id) simp
  then show ?thesis by (simp add: posit_record_logical_def)
qed

lemma transform_posit_eq:
  assumes "posit_identity p \<in> dom m" and "\<forall>(r, t) \<in> set (posit_appearances p). r \<in> dom m \<and> t \<in> dom m"
  shows "transform_posit m p = attempt (posit_record_of (rename_posit (renaming_of m) p)) (\<lambda>record.
    Inr (record, rename_posit (renaming_of m) p))"
proof -
  have "try_map (\<lambda>(r, t). attempt (mapped m r) (\<lambda>r. attempt (mapped m t) (\<lambda>t. Inr (r, t)))) (posit_appearances p) =
      Inr (map (map_prod (renaming_of m) (renaming_of m)) (posit_appearances p))"
  proof (rule try_map_Inr)
    fix x assume "x \<in> set (posit_appearances p)"
    then have "mapped m (fst x) = Inr (renaming_of m (fst x))" "mapped m (snd x) = Inr (renaming_of m (snd x))"
      using assms(2) by (auto intro!: mapped_renaming simp del: domIff)
    then show "(\<lambda>(r, t). attempt (mapped m r) (\<lambda>r. attempt (mapped m t) (\<lambda>t. Inr (r, t)))) x =
        Inr (map_prod (renaming_of m) (renaming_of m) x)" by (cases x) simp
  qed
  then show ?thesis
    using mapped_renaming [OF assms(1)]
    by (simp add: transform_posit_def posit_record_of_def posit_record_sorted rename_posit_def)
qed

section \<open>Appending the catalogue\<close>

lemma stored_payloads:
  assumes "store_holds s uuid (bss @ [number_records rs seq])"
  shows "\<forall>r \<in> set rs. length (pending_payload r) < 2 ^ 64"
proof -
  obtain bs where "logged 1 1 (bss @ [number_records rs seq]) bs (next_sequence s) (next_batch s)"
    using assms by (auto simp: store_holds_def)
  from logged_payloads [OF this] have small: "\<forall>r \<in> set (number_records rs seq). length (rec_payload r) < 2 ^ 64" by simp
  have "pending_payload ` set rs = rec_payload ` set (number_records rs seq)"
    by (induction rs arbitrary: seq) (auto simp: store_record_def)
  with small show ?thesis by (metis (no_types, lifting) imageE imageI)
qed

lemma append_inr:
  assumes "store_holds s uuid bss" and "log_append fault rs s = (Inr stored, s')"
  shows "store_holds s' uuid (bss @ [number_records rs (next_sequence s)])"
  by (rule log_append_cases [OF assms]) auto

context calendar_codec
begin

lemma metadata_batch:
  assumes "catalogue nfc L C roles []" and "\<forall>r \<in> set roles. length (pending_payload (role_record_of r)) < 2 ^ 64"
  shows "apply_batch nfc L C (number_records (map role_record_of roles @ codec_records) seq) (replay_state [] [] [] {}) =
    Inr (replay_state [] roles [] (set all_codecs))"
  using replay_role_batch [of nfc L "[]" roles "[]"] assms
  by (simp add: number_records_append apply_batch_append replay_codec_batch)

lemma posits_appended:
  assumes s: "store_holds s uuid bss" and replays: "replays_to nfc L C bss roles ps (set all_codecs)"
    and cat: "catalogue nfc L C roles (ps @ new)" and recs: "try_map posit_record_of new = Inr rs"
    and run: "log_append fault rs s = (Inr stored, s')"
  shows "\<exists>bss'. store_holds s' uuid bss' \<and> replays_to nfc L C bss' roles (ps @ new) (set all_codecs)"
proof -
  have holds: "store_holds s' uuid (bss @ [number_records rs (next_sequence s)])" by (rule append_inr [OF s run])
  have "apply_batch nfc L C (number_records rs (next_sequence s)) (replay_state [] roles ps (set all_codecs)) =
      Inr (replay_state [] roles (ps @ new) (set all_codecs))"
    by (rule replay_posit_batch [OF cat recs stored_payloads [OF holds] subset_refl])
  with holds replays show ?thesis by (blast intro: replays_to_snoc)
qed

end

lemma try_map_append:
  "try_map f (xs @ ys) = attempt (try_map f xs) (\<lambda>as. attempt (try_map f ys) (\<lambda>bs. Inr (as @ bs)))"
  by (induction xs) (auto simp: attempt_def split: sum.splits)

lemma catalogue_prefix: "catalogue nfc L C roles (ps @ qs) \<Longrightarrow> catalogue nfc L C roles ps"
  by (auto simp: catalogue_def)

context calendar_codec
begin

lemma import_posits_holds:
  "import_posits E m k posits pending transformed s = (Inr res, s') \<Longrightarrow> store_holds s uuid bss
     \<Longrightarrow> replays_to nfc L C bss roles ps (set all_codecs) \<Longrightarrow> try_map posit_record_of part = Inr pending
     \<Longrightarrow> catalogue nfc L C roles (ps @ part @ map (rename_posit (renaming_of m)) posits)
     \<Longrightarrow> \<forall>p \<in> set posits. posit_identity p \<in> dom m \<and> (\<forall>(r, t) \<in> set (posit_appearances p). r \<in> dom m \<and> t \<in> dom m)
     \<Longrightarrow> res = transformed @ map (rename_posit (renaming_of m)) posits
       \<and> (\<exists>bss'. store_holds s' uuid bss'
         \<and> replays_to nfc L C bss' roles (ps @ part @ map (rename_posit (renaming_of m)) posits) (set all_codecs))"
proof (induction posits arbitrary: k pending transformed s bss ps part)
  case Nil
  show ?case
  proof (cases "pending = []")
    case True
    then have "part = []" using Nil.prems(4) try_map_length by fastforce
    then show ?thesis using Nil.prems True by auto
  next
    case False
    obtain stored s1 where "log_append (env_append_fault E k) pending s = (Inr stored, s1)" "res = transformed" "s' = s1"
      using Nil.prems(1) False by (auto simp: attempt_st_eq_Inr)
    then show ?thesis
      using posits_appended [OF Nil.prems(2,3) _ Nil.prems(4)] Nil.prems(5) by auto
  qed
next
  case (Cons p posits)
  let ?q = "rename_posit (renaming_of m) p"
  have step: "transform_posit m p = attempt (posit_record_of ?q) (\<lambda>record. Inr (record, ?q))"
    by (rule transform_posit_eq) (use Cons.prems(6) in simp_all)
  obtain r where r: "posit_record_of ?q = Inr r"
    using Cons.prems(1) by (cases "posit_record_of ?q") (simp_all add: step)
  then have rest: "(if length (pending @ [r]) = import_batch_size
       then attempt_st (log_append (env_append_fault E k) (pending @ [r]) s) (\<lambda>_ s.
         import_posits E m (Suc k) posits [] (transformed @ [?q]) s)
       else import_posits E m k posits (pending @ [r]) (transformed @ [?q]) s) = (Inr res, s')"
    using Cons.prems(1) by (simp add: step Let_def)
  have recs: "try_map posit_record_of (part @ [?q]) = Inr (pending @ [r])"
    using Cons.prems(4) r by (simp add: try_map_append)
  have cat: "catalogue nfc L C roles (ps @ (part @ [?q]) @ map (rename_posit (renaming_of m)) posits)"
    using Cons.prems(5) by simp
  show ?case
  proof (cases "length (pending @ [r]) = import_batch_size")
    case True
    obtain stored s1 where a: "log_append (env_append_fault E k) (pending @ [r]) s = (Inr stored, s1)"
      and run: "import_posits E m (Suc k) posits [] (transformed @ [?q]) s1 = (Inr res, s')"
      using rest True by (auto simp: attempt_st_eq_Inr)
    obtain bss' where b: "store_holds s1 uuid bss'" "replays_to nfc L C bss' roles (ps @ part @ [?q]) (set all_codecs)"
      using posits_appended [OF Cons.prems(2,3) _ recs a] cat catalogue_prefix by (metis append.assoc)
    show ?thesis
      using Cons.IH [OF run b, of "[]"] cat Cons.prems(6) by simp
  next
    case False
    then have run: "import_posits E m k posits (pending @ [r]) (transformed @ [?q]) s = (Inr res, s')"
      using rest by simp
    show ?thesis
      using Cons.IH [OF run Cons.prems(2,3) recs cat] Cons.prems(6) by simp
  qed
qed

lemma import_records_holds:
  assumes run: "import_records E m imported s = (Inr (troles, tposits), s')"
    and s: "store_holds s uuid []"
    and cat: "catalogue nfc L C (imported_roles imported) (imported_posits imported)"
    and f: "fresh_renaming (foreign_identities imported) (renaming_of m)" and dom: "foreign_identities imported \<subseteq> dom m"
  shows "troles = map (rename_role (renaming_of m)) (imported_roles imported)"
    and "tposits = map (rename_posit (renaming_of m)) (imported_posits imported)"
    and "\<exists>bss. store_holds s' uuid bss \<and> replays_to nfc L C bss troles tposits (set all_codecs)"
proof -
  let ?roles = "map (rename_role (renaming_of m)) (imported_roles imported)"
  let ?posits = "map (rename_posit (renaming_of m)) (imported_posits imported)"
  note member = identities_member [where roles = "imported_roles imported" and posits = "imported_posits imported"]
  have cat': "catalogue nfc L C ?roles ?posits"
    by (rule rename_catalogue [OF cat]) (use f in \<open>simp add: foreign_identities_def\<close>)
  have known: "role_identity ` set (imported_roles imported) \<subseteq> dom m"
    using member(1) dom by (auto simp: foreign_identities_def)
  have parts: "(\<lambda>r. role_record_parts (role_identity r) (role_name r) (role_reserved r)) = role_record_of"
    by (simp add: fun_eq_iff role_record_of_def)
  obtain stored s1 where a: "log_append (env_append_fault E 0) (map role_record_of ?roles @ codec_records) s = (Inr stored, s1)"
    and p: "import_posits E m 1 (imported_posits imported) [] [] s1 = (Inr tposits, s')" and troles: "troles = ?roles"
    using run by (auto simp: import_records_def transform_roles [OF known] attempt_st_eq_Inr Let_def parts)
  have s1: "store_holds s1 uuid [number_records (map role_record_of ?roles @ codec_records) (next_sequence s)]"
    using append_inr [OF s a] by simp
  have small: "\<forall>r \<in> set ?roles. length (pending_payload (role_record_of r)) < 2 ^ 64"
    using stored_payloads [of s1 uuid "[]"] s1 by simp
  have "replays_to nfc L C [number_records (map role_record_of ?roles @ codec_records) (next_sequence s)]
      ?roles [] (set all_codecs)"
  proof -
    have "catalogue nfc L C ?roles []" using catalogue_prefix [of nfc L C ?roles "[]" ?posits] cat' by simp
    from metadata_batch [OF this small] show ?thesis
      unfolding replays_to_def new_replay_state by (simp del: map_map)
  qed
  note r = import_posits_holds [OF p s1 this, of "[]"]
  have "tposits = [] @ ?posits \<and> (\<exists>bss'. store_holds s' uuid bss' \<and> replays_to nfc L C bss' ?roles ([] @ [] @ ?posits) (set all_codecs))"
  proof (rule r)
    show "\<forall>p \<in> set (imported_posits imported). posit_identity p \<in> dom m
        \<and> (\<forall>(r, t) \<in> set (posit_appearances p). r \<in> dom m \<and> t \<in> dom m)"
      using member(2-4) dom unfolding foreign_identities_def by blast
  qed (use cat' in simp_all)
  then show "troles = ?roles" "tposits = ?posits"
    "\<exists>bss. store_holds s' uuid bss \<and> replays_to nfc L C bss troles tposits (set all_codecs)"
    using troles by simp_all
qed

end

section \<open>Appends that succeed\<close>

text \<open>The log is at most as long as its frames may be.\<close>

definition batch_weight :: "stored_record list list \<Rightarrow> nat" where
  "batch_weight bss = sum_list (map (\<lambda>b. length b + 1) bss)"

lemma logged_weight: "logged s b bss bs s' b' \<Longrightarrow> length bs \<le> batch_weight bss * max_frame_size"
proof (induction rule: logged.induct)
  case (logged_Cons s rs bs s1 b f s2 b' bss rest s3 b'')
  have "length f \<le> max_frame_size" using logged_Cons(2) unfolding encode_frame_Inr by blast
  with framed_length [OF logged_Cons(1)] logged_Cons.IH show ?case
    by (simp add: batch_weight_def algebra_simps)
qed (simp add: batch_weight_def)

lemma log_append_succeeds:
  assumes s: "store_holds s uuid bss" and valid: "validate_pending_records rs = Inr ()"
    and fit: "\<forall>r \<in> set rs. length (pending_payload r) \<le> max_frame_size - 30"
    and room: "64 + (batch_weight bss + length rs + 1) * max_frame_size < 2 ^ 64"
  shows "\<exists>s'. log_append No_fault rs s = (Inr (number_records rs (next_sequence s)), s')
    \<and> store_holds s' uuid (bss @ [number_records rs (next_sequence s)])"
proof -
  obtain bs where bs: "logged 1 1 bss bs (next_sequence s) (next_batch s)"
    and len: "log_header_len + length bs < 2 ^ 64"
    and m: "store_manifest s = \<lparr>store_uuid = uuid, committed_length = word_of_nat (log_header_len + length bs)\<rparr>"
    using s by (auto simp: store_holds_def)
  have committed: "unat (committed_length (store_manifest s)) = log_header_len + length bs"
    unfolding m manifest.simps by (rule unat_of_nat_u64 [OF len])
  have weight: "length bs \<le> batch_weight bss * max_frame_size" by (rule logged_weight [OF bs])
  have "unat (next_sequence s) \<le> 1 + length bs" using logged_numbers [OF bs] by simp
  moreover have "length rs \<le> length rs * max_frame_size" by (simp add: max_frame_size_def)
  moreover have "(batch_weight bss + length rs + 1) * max_frame_size =
      batch_weight bss * max_frame_size + length rs * max_frame_size + max_frame_size"
    by (simp add: algebra_simps)
  ultimately have seqs: "unat (next_sequence s) + length rs < 2 ^ 64"
    using weight room by linarith
  obtain s' where s': "append_batch No_fault rs s = (Inr (number_records rs (next_sequence s)), s')"
      "store_holds s' uuid (bss @ [number_records rs (next_sequence s)])"
    using append_batch_succeeds [OF s valid fit seqs] weight room committed
    by (auto simp: algebra_simps log_header_len_def)
  then have "os_fault No_fault rs s = No_fault"
    using store_holds_fits [OF s'(2)] by (simp add: os_fault_def)
  with s' show ?thesis by (simp add: log_append_def)
qed

lemma length_numbered [simp]: "batch_weight (bss @ [number_records rs seq]) = batch_weight bss + length rs + 1"
  by (simp add: batch_weight_def)

lemma valid_pending:
  "validate_pending_records rs = Inr () \<longleftrightarrow>
     (\<forall>r \<in> set rs. is_logical (pending_type r) \<and> pending_version r = 1 \<and> pending_flags r = 0)"
  by (induction rs) auto

lemma metadata_valid: "validate_pending_records (map role_record_of roles @ codec_records) = Inr ()"
  by (auto simp: valid_pending role_record_of_def role_record_parts_def new_record_def codec_records_def
      codec_record_of_def is_logical_def)

end
