(* ===== verification/Maintenance_Runs.thy ===== *)
theory Maintenance_Runs
  imports Maintenance_Stores
begin

text \<open>
  Whole runs of an import: what a successful one leaves, and that one which no call fails and whose
  records fit their frames succeeds.
\<close>

section \<open>Appends that succeed\<close>

definition fits_frame :: "replayed_posit \<Rightarrow> bool" where
  "fits_frame p \<longleftrightarrow> (\<exists>r. posit_record_of p = Inr r \<and> length (pending_payload r) \<le> max_frame_size - 30)"

lemma posit_record_valid:
  "posit_record_of p = Inr r \<Longrightarrow> is_logical (pending_type r) \<and> pending_version r = 1 \<and> pending_flags r = 0"
  by (auto simp: posit_record_of_def posit_record_logical_def posit_record_logical_with_codec_def Let_def
      attempt_eq_Inr new_record_def is_logical_def split: if_splits)

lemma length_appearances:
  "length (concat (map (\<lambda>(r, t). u64_bytes r @ u64_bytes t) apps)) = 16 * length apps"
  by (induction apps) auto

lemma fits_rename:
  assumes "fits_frame p" and "distinct (map fst (map (map_prod f f) (posit_appearances p)))"
  shows "fits_frame (rename_posit f p)"
proof -
  obtain e where e: "encode_literal (posit_value p) (select_codec (posit_value p)) = Inr e"
    and small: "length (posit_payload (posit_identity p) (sort (posit_appearances p)) (family (posit_value p))
        (select_codec (posit_value p)) e (posit_time p)) \<le> max_frame_size - 30"
    using assms(1) by (auto simp: fits_frame_def posit_record_of_def posit_record_logical_def
        posit_record_logical_with_codec_def attempt_eq_Inr new_record_def Let_def split: if_splits)
  let ?apps = "map (map_prod f f) (posit_appearances p)"
  let ?payload = "posit_payload (f (posit_identity p)) (sort ?apps) (family (posit_value p))
      (select_codec (posit_value p)) e (posit_time p)"
  have "\<not> any_adjacent (\<lambda>p q. fst p = fst q) (sort ?apps)" using assms(2) sort_repeats by blast
  then have "posit_record_of (rename_posit f p) = Inr (new_record record_posit ?payload)"
    unfolding posit_record_of_def rename_posit_simps posit_record_sorted using e
    by (simp add: posit_record_logical_def posit_record_logical_with_codec_def)
  moreover have "length ?payload \<le> max_frame_size - 30"
    using small by (simp add: posit_payload_def length_appearances)
  ultimately show ?thesis by (simp add: fits_frame_def new_record_def)
qed

definition fits_role :: "replayed_role \<Rightarrow> bool" where
  "fits_role r \<longleftrightarrow> length (pending_payload (role_record_of r)) \<le> max_frame_size - 30"

lemma fits_rename_role [simp]: "fits_role (rename_role f r) \<longleftrightarrow> fits_role r"
  by (simp add: fits_role_def role_record_of_def role_record_parts_def new_record_def role_payload_def)

text \<open>The operating system fails no call.\<close>

definition untroubled :: "import_env \<Rightarrow> bytes \<Rightarrow> bool" where
  "untroubled E random \<longleftrightarrow> env_lock_free E \<and> env_open_fault E = No_fault \<and> env_random E = Some random
     \<and> (\<forall>k. env_append_fault E k = No_fault) \<and> env_flushed E \<and> env_shareable E
     \<and> env_remap_fault E = No_file_fault"

lemma import_posits_succeeds:
  "untroubled E random \<Longrightarrow> store_holds s uuid bss
     \<Longrightarrow> \<forall>p \<in> set posits. posit_identity p \<in> dom m \<and> (\<forall>(r, t) \<in> set (posit_appearances p). r \<in> dom m \<and> t \<in> dom m)
       \<and> fits_frame (rename_posit (renaming_of m) p)
     \<Longrightarrow> validate_pending_records pending = Inr ()
     \<Longrightarrow> \<forall>r \<in> set pending. length (pending_payload r) \<le> max_frame_size - 30
     \<Longrightarrow> 64 + (batch_weight bss + 2 * length posits + length pending + 1) * max_frame_size < 2 ^ 64
     \<Longrightarrow> \<exists>res s'. import_posits E m k posits pending transformed s = (Inr res, s')"
proof (induction posits arbitrary: k pending transformed s bss)
  case Nil
  have "\<exists>s'. log_append No_fault pending s = (Inr (number_records pending (next_sequence s)), s')"
    using log_append_succeeds [OF Nil.prems(2,4,5)] Nil.prems(6) by auto
  then show ?case using Nil.prems(1) by (auto simp: untroubled_def)
next
  case (Cons p posits)
  let ?q = "rename_posit (renaming_of m) p"
  obtain r where r: "posit_record_of ?q = Inr r" "length (pending_payload r) \<le> max_frame_size - 30"
    using Cons.prems(3) by (auto simp: fits_frame_def)
  have step: "transform_posit m p = Inr (r, ?q)"
    using transform_posit_eq [of p m] Cons.prems(3) r(1) by simp
  have valid: "validate_pending_records (pending @ [r]) = Inr ()"
    using Cons.prems(4) posit_record_valid [OF r(1)] by (auto simp: valid_pending)
  have fit: "\<forall>r \<in> set (pending @ [r]). length (pending_payload r) \<le> max_frame_size - 30"
    using Cons.prems(5) r(2) by auto
  have later: "\<forall>p \<in> set posits. posit_identity p \<in> dom m \<and> (\<forall>(r, t) \<in> set (posit_appearances p). r \<in> dom m \<and> t \<in> dom m)
       \<and> fits_frame (rename_posit (renaming_of m) p)"
    using Cons.prems(3) by simp
  have mono: "a \<le> b \<Longrightarrow> 64 + b * max_frame_size < 2 ^ 64 \<Longrightarrow> 64 + a * max_frame_size < (2 :: nat) ^ 64" for a b
    by (meson add_le_mono le_less_trans le_refl mult_le_mono1)
  show ?case
  proof (cases "length (pending @ [r]) = import_batch_size")
    case True
    have room: "64 + (batch_weight bss + length (pending @ [r]) + 1) * max_frame_size < 2 ^ 64"
      by (rule mono [OF _ Cons.prems(6)]) simp
    obtain s1 where a: "log_append No_fault (pending @ [r]) s = (Inr (number_records (pending @ [r]) (next_sequence s)), s1)"
      and s1: "store_holds s1 uuid (bss @ [number_records (pending @ [r]) (next_sequence s)])"
      using log_append_succeeds [OF Cons.prems(2) valid fit room] by blast
    have "\<exists>res s'. import_posits E m (Suc k) posits [] (transformed @ [?q]) s1 = (Inr res, s')"
    proof (rule Cons.IH [OF Cons.prems(1) s1 later])
      show "64 + (batch_weight (bss @ [number_records (pending @ [r]) (next_sequence s)]) + 2 * length posits
          + length [] + 1) * max_frame_size < 2 ^ 64"
        by (rule mono [OF _ Cons.prems(6)]) simp
    qed simp_all
    then show ?thesis using step a True Cons.prems(1) by (simp add: untroubled_def)
  next
    case False
    have "\<exists>res s'. import_posits E m k posits (pending @ [r]) (transformed @ [?q]) s = (Inr res, s')"
    proof (rule Cons.IH [OF Cons.prems(1,2) later valid fit])
      show "64 + (batch_weight bss + 2 * length posits + length (pending @ [r]) + 1) * max_frame_size < 2 ^ 64"
        by (rule mono [OF _ Cons.prems(6)]) simp
    qed
    then show ?thesis using step False by simp
  qed
qed

lemma import_records_succeeds:
  assumes E: "untroubled E random" and s: "store_holds s uuid []"
    and cat: "catalogue nfc L C (imported_roles imported) (imported_posits imported)"
    and f: "fresh_renaming (foreign_identities imported) (renaming_of m)" and dom: "foreign_identities imported \<subseteq> dom m"
    and fits: "\<forall>r \<in> set (imported_roles imported). fits_role r" "\<forall>p \<in> set (imported_posits imported). fits_frame p"
    and room: "length (imported_roles imported) + 2 * length (imported_posits imported) < 2 ^ 39"
  shows "\<exists>res s'. import_records E m imported s = (Inr res, s')"
proof -
  let ?roles = "map (rename_role (renaming_of m)) (imported_roles imported)"
  note member = identities_member [where roles = "imported_roles imported" and posits = "imported_posits imported"]
  have known: "role_identity ` set (imported_roles imported) \<subseteq> dom m"
    using member(1) dom by (auto simp: foreign_identities_def)
  have parts: "(\<lambda>r. role_record_parts (role_identity r) (role_name r) (role_reserved r)) = role_record_of"
    by (simp add: fun_eq_iff role_record_of_def)
  have codecs: "\<forall>r \<in> set codec_records. length (pending_payload r) \<le> max_frame_size - 30" "length codec_records = 3"
  proof -
    have "\<forall>r \<in> set codec_records. length (pending_payload r) < 100" by code_simp
    then show "\<forall>r \<in> set codec_records. length (pending_payload r) \<le> max_frame_size - 30"
      by (fastforce simp: max_frame_size_def)
  qed code_simp
  have fit: "\<forall>r \<in> set (map role_record_of ?roles @ codec_records). length (pending_payload r) \<le> max_frame_size - 30"
    using fits(1) codecs(1) fits_rename_role by (auto simp: fits_role_def)
  have room': "64 + (batch_weight [] + length (map role_record_of ?roles @ codec_records) + 1) * max_frame_size < 2 ^ 64"
    using room by (simp add: batch_weight_def codecs(2) max_frame_size_def)
  obtain s1 where a: "log_append No_fault (map role_record_of ?roles @ codec_records) s =
      (Inr (number_records (map role_record_of ?roles @ codec_records) (next_sequence s)), s1)"
    and s1: "store_holds s1 uuid ([] @ [number_records (map role_record_of ?roles @ codec_records) (next_sequence s)])"
    using log_append_succeeds [OF s metadata_valid fit room'] by blast
  have "\<exists>res s'. import_posits E m 1 (imported_posits imported) [] [] s1 = (Inr res, s')"
  proof (rule import_posits_succeeds [OF E s1])
    show "\<forall>p \<in> set (imported_posits imported). posit_identity p \<in> dom m
        \<and> (\<forall>(r, t) \<in> set (posit_appearances p). r \<in> dom m \<and> t \<in> dom m)
        \<and> fits_frame (rename_posit (renaming_of m) p)"
    proof
      fix p assume p: "p \<in> set (imported_posits imported)"
      have "posit_identity p \<in> dom m" "\<forall>(r, t) \<in> set (posit_appearances p). r \<in> dom m \<and> t \<in> dom m"
        using member(2-4) [OF p] dom unfolding foreign_identities_def by blast+
      moreover have "canonical_appearances (posit_appearances p)" using cat p by (auto simp: catalogue_def wf_posit_def)
      moreover have "inj_on (renaming_of m) (fst ` set (posit_appearances p))"
        by (rule fresh_renaming_inj [OF f]) (use member(3) [OF p] in \<open>auto simp: foreign_identities_def\<close>)
      moreover have "\<forall>(r, t) \<in> set (posit_appearances p). renaming_of m r \<noteq> 0 \<and> renaming_of m t \<noteq> 0"
        using member(3,4) [OF p] fresh_renaming_nonzero [OF f] unfolding foreign_identities_def by blast
      ultimately show "posit_identity p \<in> dom m \<and> (\<forall>(r, t) \<in> set (posit_appearances p). r \<in> dom m \<and> t \<in> dom m)
        \<and> fits_frame (rename_posit (renaming_of m) p)"
        using fits(2) p fits_rename rename_appearances(1) by blast
    qed
    show "64 + (batch_weight ([] @ [number_records (map role_record_of ?roles @ codec_records) (next_sequence s)])
        + 2 * length (imported_posits imported) + length [] + 1) * max_frame_size < 2 ^ 64"
      using room unfolding length_numbered by (simp add: batch_weight_def codecs(2) max_frame_size_def)
  qed simp_all
  then obtain res s' where "import_posits E m 1 (imported_posits imported) [] [] s1 = (Inr res, s')" by blast
  moreover have "env_append_fault E 0 = No_fault" using E by (simp add: untroubled_def)
  ultimately show ?thesis
    using a by (simp add: import_records_def transform_roles [OF known] Let_def parts del: map_map)
qed

section \<open>The destination\<close>

lemma open_fresh_Inr:
  assumes "open_store lock_free fault random ob st fresh_disk = (Inr (s, st'), d)"
    and "\<And>bs. random = Some bs \<Longrightarrow> length bs = 16"
  shows "\<exists>bs. random = Some bs \<and> s = fresh_store bs \<and> store_holds s (mark_uuid bs) []"
proof -
  have lock: lock_free using assms(1) by (cases lock_free) (simp_all add: open_store_def)
  have empty: "manifest_file fresh_disk = None" "log_file fresh_disk = None" by (simp_all add: fresh_disk_def)
  obtain m d' where init: "initialize_store fault random fresh_disk = (Inr m, d')"
    using assms(1) lock empty(1) by (auto simp: open_store_def attempt_st_eq_Inr)
  obtain bs where bs: "random = Some bs" using init by (cases random) (simp_all add: initialize_store_def)
  have "fault = No_fault"
    using init bs empty by (cases fault) (simp_all add: initialize_store_def write_manifest_def Let_def)
  then show ?thesis
    using assms(1) open_fresh [OF assms(2) [OF bs], of ob st] fresh_store_holds [OF assms(2) [OF bs]] lock bs by simp
qed

text \<open>What the destination of a successful import is.\<close>

definition renamed_copy ::
    "(string \<Rightarrow> string) \<Rightarrow> 'n literal_lib \<Rightarrow> chrono \<Rightarrow> imported_store \<Rightarrow> bytes \<Rightarrow> (thing \<Rightarrow> thing) \<Rightarrow> disk \<Rightarrow> bool" where
  "renamed_copy nfc L C imported uuid f d \<longleftrightarrow> (\<exists>s rs.
     open_snapshot_replayed nfc L C True (Some d) = Inr (s, rs)
     \<and> replayed_uuid rs = uuid \<and> format_uuid uuid \<noteq> imported_uuid imported
     \<and> fresh_renaming (foreign_identities imported) f
     \<and> replayed_roles rs = map (rename_role f) (imported_roles imported)
     \<and> replayed_posits rs = map (rename_posit f) (imported_posits imported))"

context calendar_codec
begin

lemma destination_copy:
  assumes s: "store_holds s uuid bss"
    and replays: "replays_to nfc L C bss (map (rename_role f) (imported_roles imported))
      (map (rename_posit f) (imported_posits imported)) (set all_codecs)"
    and cat: "catalogue nfc L C (imported_roles imported) (imported_posits imported)"
    and builtins: "builtins_present (imported_roles imported)"
    and f: "fresh_renaming (foreign_identities imported) f"
  obtains t rs where "open_snapshot_replayed nfc L C True (Some (store_disk s)) = Inr (t, rs)"
    and "store_replay_logical nfc L C s = Inr rs" and "replayed_uuid rs = uuid"
    and "store_uuid (snap_manifest t) = uuid"
    and "replayed_roles rs = map (rename_role f) (imported_roles imported)"
    and "replayed_posits rs = map (rename_posit f) (imported_posits imported)"
proof -
  let ?roles = "map (rename_role f) (imported_roles imported)" and ?posits = "map (rename_posit f) (imported_posits imported)"
  let ?rs = "\<lparr>replayed_uuid = uuid, replayed_roles = ?roles, replayed_posits = ?posits, has_required_codecs = True\<rparr>"
  have "finish_replay (replay_state uuid ?roles ?posits (set all_codecs)) = Inr ?rs"
  proof (rule finish_replay_ok)
    show "catalogue nfc L C ?roles ?posits"
      by (rule rename_catalogue [OF cat]) (use f in \<open>simp add: foreign_identities_def\<close>)
  qed (rule rename_builtins [OF builtins f], rule subset_refl)
  note fin = this
  obtain t where t: "open_snapshot_replayed nfc L C True (Some (store_disk s)) = Inr (t, ?rs)"
      "store_uuid (snap_manifest t) = uuid"
    by (rule open_snapshot_replayed_holds [OF store_disk_holds [OF s] store_holds_fits [OF s] replays fin])
  show thesis
    by (rule that [OF t(1) store_replay_holds [OF s replays fin] _ t(2)]) simp_all
qed

text \<open>A run of \<open>import_into\<close> on a fresh store.\<close>

lemma import_into_holds:
  assumes run: "import_into nfc L C J E imported s remap = (Inr report, (d, remap'))"
    and s: "store_holds s uuid []"
    and cat: "catalogue nfc L C (imported_roles imported) (imported_posits imported)"
    and builtins: "builtins_present (imported_roles imported)"
  shows "\<exists>f d'. d = Some d' \<and> renamed_copy nfc L C imported uuid f d'
    \<and> imp_role_count report = length (imported_roles imported)
    \<and> imp_posit_count report = length (imported_posits imported)
    \<and> imp_remapped_identities report = card (foreign_identities imported)
    \<and> remap' = map_option (\<lambda>bs. bs @ [10]) (remap_to_vec J \<lparr>doc_format = identity_remap_format,
        doc_version = identity_remap_version, doc_source_store_uuid = imported_uuid imported,
        doc_destination_store_uuid = format_uuid uuid,
        doc_mappings = remap_entries (imported_uuid imported) (format_uuid uuid) f
          (sorted_list_of_set (foreign_identities imported))\<rparr>)"
proof -
  have uuid: "store_uuid (store_manifest s) = uuid" using s by (auto simp: store_holds_def)
  have fin: "finite (foreign_identities imported)" by (simp add: foreign_identities_def)
  obtain m mappings where m: "build_identity_remap imported (format_uuid uuid) = Inr (m, mappings)"
    and other: "format_uuid uuid \<noteq> imported_uuid imported"
    using run by (auto simp: import_into_def uuid Let_def attempt_st_eq_Inr split: if_splits)
  note remap = build_identity_remap_Inr [OF m fin]
  obtain r s' where recs: "import_records E m imported s = (r, s')" by fastforce
  obtain troles tposits where r: "r = Inr (troles, tposits)"
    using run other m recs by (auto simp: import_into_def uuid Let_def attempt_st_eq_Inr)
  note holds = import_records_holds [OF recs [unfolded r] s cat remap(2)]
  obtain bss where bss: "store_holds s' uuid bss" "replays_to nfc L C bss troles tposits (set all_codecs)"
    using holds(3) remap(1) by blast
  have t: "troles = map (rename_role (renaming_of m)) (imported_roles imported)"
      "tposits = map (rename_posit (renaming_of m)) (imported_posits imported)"
    using holds(1,2) remap(1) by blast+
  obtain t rs where opened: "open_snapshot_replayed nfc L C True (Some (store_disk s')) = Inr (t, rs)"
      "replayed_uuid rs = uuid"
    and lists: "replayed_roles rs = troles" "replayed_posits rs = tposits"
    using destination_copy [OF bss(1) _ cat builtins remap(2)] bss(2) t by metis
  have copy: "renamed_copy nfc L C imported uuid (renaming_of m) (store_disk s')"
    unfolding renamed_copy_def using opened lists t other remap(2) by auto
  have out: "write_remap J (env_remap_fault E) remap (imported_uuid imported) (format_uuid uuid) mappings = (Inr (), remap')"
      "d = Some (store_disk s')"
    and report: "imp_role_count report = length (imported_roles imported)"
      "imp_posit_count report = length (imported_posits imported)"
      "imp_remapped_identities report = length mappings"
    using run other m recs r by (auto simp: import_into_def uuid Let_def attempt_st_eq_Inr split: prod.splits if_splits)
  have "length mappings = card (foreign_identities imported)" using remap(3) by (simp add: remap_entries_def)
  moreover have "remap' = map_option (\<lambda>bs. bs @ [10]) (remap_to_vec J \<lparr>doc_format = identity_remap_format,
        doc_version = identity_remap_version, doc_source_store_uuid = imported_uuid imported,
        doc_destination_store_uuid = format_uuid uuid, doc_mappings = mappings\<rparr>)"
    using out(1) by (auto simp: write_remap_def split: if_splits option.splits file_fault.splits)
  ultimately show ?thesis using copy out(2) report remap(3) by auto
qed

end

end
