(* ===== verification/Maintenance_Results.thy ===== *)
theory Maintenance_Results
  imports Maintenance_Runs
begin

text \<open>
  The results of an import and of a backup: that they succeed when no call fails, and the disk they
  leave.
\<close>

section \<open>Imports that succeed\<close>

context calendar_codec
begin

lemma import_into_succeeds:
  assumes E: "untroubled E random" and J: "json_law J" and s: "store_holds s uuid []"
    and other: "format_uuid uuid \<noteq> imported_uuid imported"
    and cat: "catalogue nfc L C (imported_roles imported) (imported_posits imported)"
    and builtins: "builtins_present (imported_roles imported)"
    and fits: "\<forall>r \<in> set (imported_roles imported). fits_role r" "\<forall>p \<in> set (imported_posits imported). fits_frame p"
    and room: "length (imported_roles imported) + 2 * length (imported_posits imported) < 2 ^ 39"
    and ids: "6 + 2 * card (foreign_identities imported) < 2 ^ 64"
  shows "\<exists>report w. import_into nfc L C J E imported s None = (Inr report, w)"
proof -
  have uuid: "store_uuid (store_manifest s) = uuid" using s by (auto simp: store_holds_def)
  have fin: "finite (foreign_identities imported)" by (simp add: foreign_identities_def)
  obtain m mappings where m: "build_identity_remap imported (format_uuid uuid) = Inr (m, mappings)"
    using build_identity_remap_ok [OF fin ids] by blast
  note remap = build_identity_remap_Inr [OF m fin]
  have dom: "foreign_identities imported \<subseteq> dom m" using remap(1) by blast
  obtain troles tposits s' where recs: "import_records E m imported s = (Inr (troles, tposits), s')"
    using import_records_succeeds [OF E s cat remap(2) dom fits room] by (metis surj_pair)
  note holds = import_records_holds [OF recs s cat remap(2) dom]
  obtain bss where bss: "store_holds s' uuid bss" "replays_to nfc L C bss troles tposits (set all_codecs)"
    using holds(3) by blast
  obtain t rs where copy: "open_snapshot_replayed nfc L C True (Some (store_disk s')) = Inr (t, rs)"
      "store_replay_logical nfc L C s' = Inr rs"
    and lists: "replayed_roles rs = troles" "replayed_posits rs = tposits"
    using destination_copy [OF bss(1) _ cat builtins remap(2)] bss(2) holds(1,2) by metis
  have counts: "length troles = length (imported_roles imported)" "length tposits = length (imported_posits imported)"
    using holds(1,2) by simp_all
  have "flush_store (env_flushed E) s' = Inr ()"
    using E bss(1) by (auto simp: flush_store_def untroubled_def store_holds_def)
  moreover have "\<exists>w. write_remap J (env_remap_fault E) None (imported_uuid imported) (format_uuid uuid) mappings = (Inr (), w)"
    using E J by (auto simp: write_remap_def untroubled_def json_law_def split: option.splits)
  ultimately show ?thesis
    using m recs other copy lists counts E
    by (auto simp: import_into_def uuid Let_def inspect_store_def untroubled_def)
qed

text \<open>A run of \<open>import_store\<close> that succeeds is a run into a fresh store.\<close>

lemma import_store_holds:
  assumes run: "import_store nfc L C J E file destination remap = Some (Inr report, (d, remap'))"
    and reads: "read_export J L C file = Some (Inr imported)"
    and random: "\<And>bs. env_random E = Some bs \<Longrightarrow> length bs = 16"
    and cat: "catalogue nfc L C (imported_roles imported) (imported_posits imported)"
    and builtins: "builtins_present (imported_roles imported)"
  shows "\<exists>f d' bs. destination = None \<and> remap = None \<and> env_random E = Some bs \<and> d = Some d'
    \<and> renamed_copy nfc L C imported (mark_uuid bs) f d'
    \<and> imp_role_count report = length (imported_roles imported)
    \<and> imp_posit_count report = length (imported_posits imported)
    \<and> imp_remapped_identities report = card (foreign_identities imported)
    \<and> remap' = map_option (\<lambda>bs. bs @ [10]) (remap_to_vec J \<lparr>doc_format = identity_remap_format,
        doc_version = identity_remap_version, doc_source_store_uuid = imported_uuid imported,
        doc_destination_store_uuid = format_uuid (mark_uuid bs),
        doc_mappings = remap_entries (imported_uuid imported) (format_uuid (mark_uuid bs)) f
          (sorted_list_of_set (foreign_identities imported))\<rparr>)"
proof -
  have none: "destination = None" "remap = None"
    using run by (auto simp: import_store_def split: if_splits)
  obtain r d0 where opened: "open_store (env_lock_free E) (env_open_fault E) (env_random E) (\<lambda>_ s. Inr s) () fresh_disk = (r, d0)"
    by fastforce
  obtain s where s: "r = Inr (s, ())"
    using run opened reads none by (cases r) (auto simp: import_store_def)
  have into: "import_into nfc L C J E imported s None = (Inr report, (d, remap'))"
    using run opened s reads none by (simp add: import_store_def)
  obtain bs where bs: "env_random E = Some bs" "store_holds s (mark_uuid bs) []"
    using open_fresh_Inr [OF opened [unfolded s] random] by blast
  from import_into_holds [OF into bs(2) cat builtins] none bs(1) show ?thesis by blast
qed

lemma import_store_succeeds:
  assumes reads: "read_export J L C file = Some (Inr imported)"
    and E: "untroubled E random" and J: "json_law J" and random: "length random = 16"
    and other: "format_uuid (mark_uuid random) \<noteq> imported_uuid imported"
    and cat: "catalogue nfc L C (imported_roles imported) (imported_posits imported)"
    and builtins: "builtins_present (imported_roles imported)"
    and fits: "\<forall>r \<in> set (imported_roles imported). fits_role r" "\<forall>p \<in> set (imported_posits imported). fits_frame p"
    and room: "length (imported_roles imported) + 2 * length (imported_posits imported) < 2 ^ 39"
    and ids: "6 + 2 * card (foreign_identities imported) < 2 ^ 64"
  shows "\<exists>report w. import_store nfc L C J E file None None = Some (Inr report, w)"
proof -
  have "open_store (env_lock_free E) (env_open_fault E) (env_random E) (\<lambda>_ s. Inr s) () fresh_disk =
      (Inr (fresh_store random, ()), store_disk (fresh_store random))"
    using open_fresh [OF random] E by (simp add: untroubled_def)
  moreover obtain report w where "import_into nfc L C J E imported (fresh_store random) None = (Inr report, w)"
    using import_into_succeeds [OF E J fresh_store_holds [OF random] other cat builtins fits room ids] by blast
  ultimately show ?thesis using reads by (simp add: import_store_def)
qed

end

section \<open>Sources\<close>

text \<open>What a snapshot of a store that is not empty holds.\<close>

lemma snapshot_sound:
  assumes C: "calendar_codec C" and run: "open_snapshot_replayed nfc L C shareable (Some d) = Inr (s, rs)"
    and fits: "log_fits d" and small: "\<And>bs. manifest_file d = Some bs \<Longrightarrow> length bs < 2 ^ 64"
    and used: "replayed_roles rs \<noteq> []"
  shows "catalogue nfc L C (replayed_roles rs) (replayed_posits rs)" and "builtins_present (replayed_roles rs)"
    and "length (replayed_uuid rs) = 16"
proof -
  obtain bss codecs where o: "disk_holds d (store_uuid (snap_manifest s)) bss"
      "catalogue nfc L C (replayed_roles rs) (replayed_posits rs)"
      "finish_replay (replay_state (store_uuid (snap_manifest s)) (replayed_roles rs) (replayed_posits rs) codecs) = Inr rs"
      "replayed_uuid rs = store_uuid (snap_manifest s)"
    by (rule open_snapshot_replayed_Inr [OF C run fits small])
  show "catalogue nfc L C (replayed_roles rs) (replayed_posits rs)" by (rule o(2))
  show "builtins_present (replayed_roles rs)" using finish_replay_state [OF o(3)] used by blast
  show "length (replayed_uuid rs) = 16" using o(1,4) by (auto simp: disk_holds_def)
qed

lemma imported_of_sound:
  assumes "catalogue nfc L C (replayed_roles rs) (replayed_posits rs)" and "builtins_present (replayed_roles rs)"
  shows "catalogue nfc L C (imported_roles (imported_of rs)) (imported_posits (imported_of rs))"
    and "builtins_present (imported_roles (imported_of rs))"
  using catalogue_sorted [OF assms(1)] builtins_sorted [OF assms(2)] by (simp_all add: imported_of_def)

text \<open>The report of an export counts what the snapshot holds.\<close>

lemma export_store_report:
  assumes "export_store nfc L C J canonicalize shareable fault sp dir op out = (Inr report, out')"
    and "open_snapshot_replayed nfc L C shareable dir = Inr (s, rs)" and "out' = Some bs"
  shows "out = None" and "exp_roles report = length (replayed_roles rs)"
    and "exp_posits report = length (replayed_posits rs)" and "exp_bytes_written report = length bs"
    and "exp_source_store_uuid report = format_uuid (replayed_uuid rs)"
proof -
  obtain r w where w: "write_records J fault 0 (export_records (format_uuid (replayed_uuid rs))
      (sort_key role_identity (replayed_roles rs)) (sort_key posit_identity (replayed_posits rs))) [] = (r, w)" by fastforce
  have "out = None \<and> w = bs \<and> report = \<lparr>exp_source_store_uuid = format_uuid (replayed_uuid rs),
      exp_roles = length (replayed_roles rs), exp_posits = length (replayed_posits rs), exp_bytes_written = length w\<rparr>"
    using assms w by (auto simp: export_store_def attempt_st_eq_Inr Let_def split: if_splits prod.splits file_fault.splits)
  then show "out = None" "exp_roles report = length (replayed_roles rs)"
    "exp_posits report = length (replayed_posits rs)" "exp_bytes_written report = length bs"
    "exp_source_store_uuid report = format_uuid (replayed_uuid rs)" by auto
qed

section \<open>Backups\<close>

lemma backup_copies:
  assumes C: "calendar_codec C" and fits: "log_fits d" and small: "\<And>bs. manifest_file d = Some bs \<Longrightarrow> length bs < 2 ^ 64"
    and source: "open_snapshot_replayed nfc L C True (Some d) = Inr (s, rs)"
    and paths: "reject_path_inside_store canonicalize store_path destination_path = Inr ()"
  shows "\<exists>d' uuid bss s'. backup_store nfc L C canonicalize True No_backup_fault True store_path (Some d)
      destination_path None = (Inr \<lparr>bak_store_uuid = format_uuid (replayed_uuid rs),
        bak_committed_length = committed_length (snap_manifest s), bak_roles = length (replayed_roles rs),
        bak_posits = length (replayed_posits rs)\<rparr>, Some d')
    \<and> disk_holds d uuid bss \<and> committed_copy d' uuid bss
    \<and> open_snapshot_replayed nfc L C True (Some d') = Inr (s', rs)"
proof -
  obtain bss codecs where o: "disk_holds d (store_uuid (snap_manifest s)) bss"
      "replays_to nfc L C bss (replayed_roles rs) (replayed_posits rs) codecs"
      "finish_replay (replay_state (store_uuid (snap_manifest s)) (replayed_roles rs) (replayed_posits rs) codecs) = Inr rs"
      "replayed_uuid rs = store_uuid (snap_manifest s)"
    by (rule open_snapshot_replayed_Inr [OF C source fits small])
  let ?uuid = "store_uuid (snap_manifest s)" and ?n = "unat (committed_length (snap_manifest s))"
  obtain t where t: "open_snapshot_replayed nfc L C True (Some d) = Inr (t, rs)"
      "manifest_file d = Some (encode_manifest (snap_manifest t))"
      "unat (committed_length (snap_manifest t)) \<le> length (snap_log t)"
    and copies: "\<And>n. committed_copy \<lparr>log_file = Some (take (unat (committed_length (snap_manifest t))) (snap_log t)),
        manifest_file = Some (encode_manifest (snap_manifest t)), next_file = n\<rparr> ?uuid bss"
    by (rule open_snapshot_replayed_holds [OF o(1) fits o(2,3)]) blast
  have [simp]: "t = s" using t(1) source by simp
  let ?d = "\<lparr>log_file = Some (take ?n (snap_log s)), manifest_file = Some (encode_manifest (snap_manifest s)),
      next_file = None\<rparr>"
  have copy: "committed_copy ?d ?uuid bss" using copies by simp
  then have holds: "disk_holds ?d ?uuid bss" by (simp add: committed_copy_def)
  have "log_fits ?d" using t(3) unat_u64_less [of "committed_length (snap_manifest s)"] by (simp add: log_fits_def)
  then obtain s' where s': "open_snapshot_replayed nfc L C True (Some ?d) = Inr (s', rs)"
      "manifest_file ?d = Some (encode_manifest (snap_manifest s'))" "log_file ?d = Some (snap_log s')"
      "snap_file_length s' = length (snap_log s')" "store_uuid (snap_manifest s') = ?uuid"
    by (rule open_snapshot_replayed_holds [OF holds _ o(2,3)]) blast
  have u: "length ?uuid = 16" using o(1) by (auto simp: disk_holds_def)
  have "read_manifest (encode_manifest (snap_manifest s')) = Inr (snap_manifest s')"
      "read_manifest (encode_manifest (snap_manifest s)) = Inr (snap_manifest s)"
    using read_encode_manifest u s'(5) by auto
  then have "snap_manifest s' = snap_manifest s" using s'(2) by simp
  moreover have "length (snap_log s') = ?n"
  proof -
    have "snap_log s' = take ?n (snap_log s)" using s'(3) by simp
    then show ?thesis using t(3) by simp
  qed
  ultimately have "backup_store nfc L C canonicalize True No_backup_fault True store_path (Some d)
      destination_path None = (Inr \<lparr>bak_store_uuid = format_uuid (replayed_uuid rs),
        bak_committed_length = committed_length (snap_manifest s), bak_roles = length (replayed_roles rs),
        bak_posits = length (replayed_posits rs)\<rparr>, Some ?d)"
    using paths source t(2,3) s'(1,4) o(4)
    by (simp add: backup_store_def backup_to_def inspect_store_def Let_def)
  with o(1) copy s'(1) show ?thesis by blast
qed

end
