(* ===== verification/Sample_Json.thy ===== *)
theory Sample_Json
  imports Maintenance_Reading
begin

text \<open>
  A serialisation of logical records to lines that the examples use in place of JSON: the fields of a
  record one after another, every byte spelt with two letters and every field closed by a comma.
\<close>

section \<open>Fields\<close>

fun spell :: "bytes \<Rightarrow> bytes" where
  "spell [] = [44]"
| "spell (b # bs) = (65 + b div 16) # (65 + b mod 16) # spell bs"

definition spell_all :: "bytes list \<Rightarrow> bytes" where
  "spell_all fs = concat (map spell fs)"

fun unspell :: "bytes \<Rightarrow> bytes \<Rightarrow> bytes list" where
  "unspell acc [] = []"
| "unspell acc (b # bs) =
     (if b = 44 then rev acc # unspell [] bs
      else case bs of [] \<Rightarrow> [] | c # cs \<Rightarrow> unspell ((16 * (b - 65) + (c - 65)) # acc) cs)"

lemma letters:
  assumes "(n :: u8) < 16"
  shows "65 + n \<noteq> 44" and "65 + n \<noteq> 10"
proof -
  have "unat (65 + n) = 65 + unat n"
    using assms by (simp add: unat_word_ariths word_less_nat_alt)
  then show "65 + n \<noteq> 44" "65 + n \<noteq> 10"
    using arg_cong [of "65 + n" 44 unat] arg_cong [of "65 + n" 10 unat] by auto
qed

lemma nibble_bounds: "(b :: u8) div 16 < 16" "b mod 16 < 16"
  using unat_u8_less [of b] by (simp_all add: word_less_nat_alt unat_div unat_mod less_mult_imp_div_less)

lemma byte_of_letters: "16 * ((65 + b div 16) - 65) + ((65 + b mod 16) - 65) = (b :: u8)"
  by (simp add: mult_div_mod_eq)

lemma unspell_spell: "unspell acc (spell f @ rest) = (rev acc @ f) # unspell [] rest"
proof (induction f arbitrary: acc)
  case (Cons b f)
  have "65 + b div 16 \<noteq> 44" by (rule letters(1) [OF nibble_bounds(1)])
  then have "unspell acc (spell (b # f) @ rest) =
      unspell ((16 * ((65 + b div 16) - 65) + ((65 + b mod 16) - 65)) # acc) (spell f @ rest)" by simp
  then show ?case using Cons by (simp only: byte_of_letters) simp
qed simp

lemma unspell_all: "unspell [] (spell_all fs) = fs"
proof (induction fs)
  case (Cons f fs)
  then show ?case using unspell_spell [of "[]" f] by (simp add: spell_all_def)
qed (simp add: spell_all_def)

lemma spell_newline: "10 \<notin> set (spell_all fs)"
proof -
  have "10 \<notin> set (spell f)" for f
    using letters(2) [OF nibble_bounds(1)] letters(2) [OF nibble_bounds(2)] by (induction f) (auto dest: sym)
  then show ?thesis by (auto simp: spell_all_def)
qed

lemma spell_printable: "fs \<noteq> [] \<Longrightarrow> \<not> list_all is_ascii_whitespace (spell_all fs)"
proof -
  have "44 \<in> set (spell f)" for f by (induction f) auto
  then have "fs \<noteq> [] \<Longrightarrow> 44 \<in> set (spell_all fs)" by (cases fs) (auto simp: spell_all_def)
  moreover have "\<not> is_ascii_whitespace 44" by (simp add: is_ascii_whitespace_def)
  ultimately show "fs \<noteq> [] \<Longrightarrow> ?thesis" by (auto simp: list_all_iff)
qed

lemma length_spell: "length (spell f) = 2 * length f + 1"
  by (induction f) auto

section \<open>Numbers and times\<close>

definition number_field :: "nat \<Rightarrow> bytes" where "number_field n = u32_bytes (word_of_nat n)"
definition year_field :: "int \<Rightarrow> bytes" where "year_field y = u32_bytes (word_of_int y)"
definition field_number :: "bytes \<Rightarrow> nat" where "field_number f = unat (word_of_nat (le_value f) :: u32)"
definition field_year :: "bytes \<Rightarrow> int" where "field_year f = sint (word_of_nat (le_value f) :: u32)"

lemma field_number: "n < 2 ^ 32 \<Longrightarrow> field_number (number_field n) = n"
  by (simp add: field_number_def number_field_def unat_of_nat)

lemma field_year: "wf_i32 y \<Longrightarrow> field_year (year_field y) = y"
proof -
  assume "wf_i32 y"
  then show ?thesis
    unfolding field_year_def year_field_def u32_value wf_i32_def
    by (simp add: int_word_sint)
qed

fun time_fields :: "logical_time \<Rightarrow> bytes list" where
  "time_fields LogicalBeginningOfTime = [[0]]"
| "time_fields LogicalEndOfTime = [[1]]"
| "time_fields (LogicalYear y) = [[2], year_field y]"
| "time_fields (LogicalYearMonth y m) = [[3], year_field y, number_field m]"
| "time_fields (LogicalDate y m d) = [[4], year_field y, number_field m, number_field d]"
| "time_fields (LogicalDateTimeUtc y m d h mi s ns) =
     [[5], year_field y, number_field m, number_field d, number_field h, number_field mi, number_field s,
      number_field ns]"

definition fields_time :: "bytes list \<Rightarrow> (logical_time \<times> bytes list) option" where
  "fields_time fs = (case fs of
     [] \<Rightarrow> None
   | tag # fs \<Rightarrow>
       let y = field_year (hd fs); n = (\<lambda>i. field_number (fs ! i)) in
       if tag = [0] then Some (LogicalBeginningOfTime, fs)
       else if tag = [1] then Some (LogicalEndOfTime, fs)
       else if tag = [2] then Some (LogicalYear y, drop 1 fs)
       else if tag = [3] then Some (LogicalYearMonth y (n 1), drop 2 fs)
       else if tag = [4] then Some (LogicalDate y (n 1) (n 2), drop 3 fs)
       else Some (LogicalDateTimeUtc y (n 1) (n 2) (n 3) (n 4) (n 5) (n 6), drop 7 fs))"

lemma fields_time: "wf_logical_time t \<Longrightarrow> fields_time (time_fields t @ rest) = Some (t, rest)"
  by (cases t) (auto simp: fields_time_def field_number field_year Let_def)

section \<open>Records\<close>

definition identity_fields :: "external_identity \<Rightarrow> bytes list" where
  "identity_fields ident = [as_bytes (ext_store_uuid ident), u64_bytes (ext_local ident)]"

definition fields_identity :: "bytes \<Rightarrow> bytes \<Rightarrow> external_identity" where
  "fields_identity uuid i = \<lparr>ext_store_uuid = of_bytes uuid, ext_local = word_of_nat (le_value i)\<rparr>"

fun appearance_fields :: "logical_appearance list \<Rightarrow> bytes list" where
  "appearance_fields [] = []"
| "appearance_fields (a # as) = identity_fields (la_role a) @ identity_fields (la_thing a) @ appearance_fields as"

fun fields_appearances :: "bytes list \<Rightarrow> logical_appearance list" where
  "fields_appearances (a # b # c # d # fs) =
     \<lparr>la_role = fields_identity a b, la_thing = fields_identity c d\<rparr> # fields_appearances fs"
| "fields_appearances _ = []"

lemma fields_appearances: "fields_appearances (appearance_fields as) = as"
  by (induction as) (simp_all add: identity_fields_def fields_identity_def)

fun record_fields :: "logical_record \<Rightarrow> bytes list" where
  "record_fields (HeaderRecord format version uuid) = [[0], as_bytes format, u16_bytes version, as_bytes uuid]"
| "record_fields (RoleRecord ident name reserved) =
     [1] # identity_fields ident @ [as_bytes name, [if reserved then 1 else 0]]"
| "record_fields (PositRecord ident appearances literal t) =
     [2] # identity_fields ident @ [as_bytes (ll_family literal), as_bytes (ll_token literal)]
       @ time_fields t @ appearance_fields appearances"

definition fields_record :: "bytes list \<Rightarrow> logical_record option" where
  "fields_record fs = (case fs of
     tag # a # b # c # fs \<Rightarrow>
       if tag = [0] then Some (HeaderRecord (of_bytes a) (word_of_nat (le_value b)) (of_bytes c))
       else if tag = [1] then Some (RoleRecord (fields_identity a b) (of_bytes c) (hd fs = [1]))
       else (case fs of
          [] \<Rightarrow> None
        | d # fs \<Rightarrow> map_option (\<lambda>(t, fs). PositRecord (fields_identity a b) (fields_appearances fs)
            \<lparr>ll_family = of_bytes c, ll_token = of_bytes d\<rparr> t) (fields_time fs))
   | _ \<Rightarrow> None)"

lemma fields_record: "wf_record r \<Longrightarrow> fields_record (record_fields r) = Some r"
  by (cases r) (auto simp: fields_record_def identity_fields_def fields_identity_def fields_time fields_appearances)

definition sample_json :: transfer_json where
  "sample_json = \<lparr>record_to_vec = (\<lambda>r. Some (spell_all (record_fields r))),
     record_from_slice = (\<lambda>line. fields_record (unspell [] line)), remap_to_vec = (\<lambda>doc. Some [])\<rparr>"

lemma sample_json_law: "json_law sample_json"
proof -
  have "record_fields r \<noteq> []" for r by (cases r) simp_all
  then show ?thesis
    by (simp add: json_law_def sample_json_def unspell_all fields_record spell_newline spell_printable)
qed

end
