(* ===== verification/Maintenance_Sample.thy ===== *)
theory Maintenance_Sample
  imports Maintenance_Results Sample_Json Terrain_Sample
begin

text \<open>
  A store with the built-in roles and two posits on disk, and its export to a file.
\<close>

section \<open>The store\<close>

lemma survey_records:
  "\<forall>p \<in> set survey_replayed. case posit_record_of p of Inl _ \<Rightarrow> False
     | Inr r \<Rightarrow> length (pending_payload r) < 100 \<and> pending_type r = record_posit \<and> pending_version r = 1
         \<and> pending_flags r = 0"
  by code_simp

lemma survey_fits: "p \<in> set survey_replayed \<Longrightarrow> fits_frame p"
  using survey_records by (fastforce simp: fits_frame_def max_frame_size_def split: sum.splits)

lemma builtin_fits: "r \<in> set builtin_catalogue \<Longrightarrow> fits_role r"
proof -
  assume "r \<in> set builtin_catalogue"
  then have "length (pending_payload (role_record_of r)) < 100"
    using bootstrap_records_ok(2) by (simp add: bootstrap_records_def)
  then show ?thesis by (simp add: fits_role_def max_frame_size_def)
qed

definition source_uuid :: bytes where
  "source_uuid = mark_uuid sample_random"

definition source_contents :: replayed_store where
  "source_contents = \<lparr>replayed_uuid = source_uuid, replayed_roles = builtin_catalogue,
     replayed_posits = survey_replayed, has_required_codecs = True\<rparr>"

lemma source_written:
  obtains s bss where "store_holds s source_uuid bss"
    and "replays_to (\<lambda>s. s) plain_lib gregorian bss builtin_catalogue survey_replayed (set all_codecs)"
proof -
  have s: "store_holds (fresh_store sample_random) source_uuid []"
    using fresh_store_holds [OF sample_random_length] by (simp add: source_uuid_def)
  have "\<forall>r \<in> set bootstrap_records. length (pending_payload r) \<le> max_frame_size - 30"
    using bootstrap_records_ok(2) by (fastforce simp: max_frame_size_def)
  moreover have "64 + (batch_weight [] + length bootstrap_records + 1) * max_frame_size < 2 ^ 64"
    using bootstrap_records_ok(3) by (simp add: batch_weight_def max_frame_size_def)
  ultimately obtain s1 where s1: "store_holds s1 source_uuid
      ([] @ [number_records bootstrap_records (next_sequence (fresh_store sample_random))])"
    using log_append_succeeds [OF s bootstrap_records_ok(1)] by blast
  have boot: "replays_to (\<lambda>s. s) plain_lib gregorian
      ([] @ [number_records bootstrap_records (next_sequence (fresh_store sample_random))])
      builtin_catalogue [] (set all_codecs)"
    unfolding replays_to_def new_replay_state append_Nil try_fold.simps
      bootstrap_batch [OF id_nfc_laws gregorian.calendar_codec_axioms] by simp
  obtain rs where rs: "try_map posit_record_of survey_replayed = Inr rs" "length rs = 2"
      "validate_pending_records rs = Inr ()" "\<forall>r \<in> set rs. length (pending_payload r) < 100"
    using survey_records
    by (auto simp: survey_replayed_def valid_pending is_logical_def split: sum.splits)
  have "\<forall>r \<in> set rs. length (pending_payload r) \<le> max_frame_size - 30"
    using rs(4) by (fastforce simp: max_frame_size_def)
  moreover have "64 + (batch_weight ([] @ [number_records bootstrap_records (next_sequence (fresh_store sample_random))])
      + length rs + 1) * max_frame_size < 2 ^ 64"
    using bootstrap_records_ok(3) rs(2) unfolding length_numbered by (simp add: batch_weight_def max_frame_size_def)
  ultimately obtain s2 where "log_append No_fault rs s1 = (Inr (number_records rs (next_sequence s1)), s2)"
    using log_append_succeeds [OF s1 rs(3)] by blast
  from gregorian.posits_appended [OF s1 boot _ rs(1) this] survey_replayed_ok that show thesis by auto
qed

lemma source_disk:
  obtains d s where "open_snapshot_replayed (\<lambda>s. s) plain_lib gregorian True (Some d) = Inr (s, source_contents)"
    and "log_fits d" and "\<forall>bs. manifest_file d = Some bs \<longrightarrow> length bs < 2 ^ 64"
proof -
  obtain s bss where s: "store_holds s source_uuid bss"
      "replays_to (\<lambda>s. s) plain_lib gregorian bss builtin_catalogue survey_replayed (set all_codecs)"
    by (rule source_written)
  have fin: "finish_replay (replay_state source_uuid builtin_catalogue survey_replayed (set all_codecs)) = Inr source_contents"
    using finish_replay_ok [OF survey_replayed_ok builtin_catalogue_ok(2) [OF id_nfc_laws] subset_refl]
    by (simp add: source_contents_def)
  obtain t where t: "open_snapshot_replayed (\<lambda>s. s) plain_lib gregorian True (Some (store_disk s)) = Inr (t, source_contents)"
    by (rule open_snapshot_replayed_holds [OF store_disk_holds [OF s(1)] store_holds_fits [OF s(1)] s(2) fin])
  have "\<forall>bs. manifest_file (store_disk s) = Some bs \<longrightarrow> length bs < 2 ^ 64"
    using s(1) by (auto simp: store_holds_def encode_manifest_def manifest_body_length Let_def)
  with that t store_holds_fits [OF s(1)] show thesis by blast
qed

section \<open>Its export\<close>

lemma source_sorted:
  "sort_key role_identity builtin_catalogue = builtin_catalogue"
  "sort_key posit_identity survey_replayed = survey_replayed"
  by code_simp+

lemma source_records_short:
  "\<forall>r \<in> set (export_records (format_uuid source_uuid) builtin_catalogue survey_replayed).
     length (spell_all (record_fields r)) < 10000"
  by code_simp

lemma write_short:
  "\<forall>r \<in> set rs. length (spell_all (record_fields r)) < 10000 \<Longrightarrow>
     write_records sample_json No_file_fault k rs out = (Inr (), out @ lines_of (map (\<lambda>r. spell_all (record_fields r)) rs))"
  by (induction rs arbitrary: k out) (simp_all add: write_record_def sample_json_def max_logical_record_size_def)

definition source_file :: bytes where
  "source_file = lines_of (map (\<lambda>r. spell_all (record_fields r))
     (export_records (format_uuid source_uuid) builtin_catalogue survey_replayed))"

lemma source_file_nonempty: "source_file \<noteq> []"
  by (simp add: source_file_def export_records_def)

lemma source_exported:
  assumes "open_snapshot_replayed (\<lambda>s. s) plain_lib gregorian True (Some d) = Inr (s, source_contents)"
  shows "export_store (\<lambda>s. s) plain_lib gregorian sample_json Inr True No_file_fault
      [''/'', ''store''] (Some d) [''/'', ''export''] None =
    (Inr \<lparr>exp_source_store_uuid = format_uuid source_uuid, exp_roles = 5, exp_posits = 2,
       exp_bytes_written = length source_file\<rparr>, Some source_file)"
proof -
  have "reject_path_inside_store Inr [''/'', ''store''] [''/'', ''export''] = Inr ()" by code_simp
  moreover have "length builtin_catalogue = 5" "length survey_replayed = 2" by code_simp+
  ultimately show ?thesis
    using assms write_short [OF source_records_short, of 0 "[]"] source_sorted
    by (simp add: export_store_def source_contents_def Let_def source_file_def [symmetric])
qed

definition calm_env :: import_env where
  "calm_env = \<lparr>env_lock_free = True, env_open_fault = No_fault, env_random = Some (replicate 16 8),
     env_append_fault = (\<lambda>_. No_fault), env_flushed = True, env_shareable = True, env_remap_fault = No_file_fault\<rparr>"

lemma calm_untroubled: "untroubled calm_env (replicate 16 8)"
  by (simp add: untroubled_def calm_env_def)

section \<open>Its import\<close>

text \<open>The sample export is read back, and imported by an operating system that fails no call.\<close>

lemma sample_lengths: "length builtin_catalogue = 5" "length survey_replayed = 2"
  by code_simp+

lemma sample_ids: "card (identities_of builtin_catalogue survey_replayed) = 7"
  by code_simp

lemma other_uuid: "format_uuid (mark_uuid (replicate 16 8)) \<noteq> format_uuid source_uuid"
  by code_simp

lemma source_read:
  "read_export sample_json plain_lib gregorian (Some [Some source_file]) = Some (Inr (imported_of source_contents))"
proof -
  let ?records = "export_records (format_uuid source_uuid) builtin_catalogue survey_replayed"
  have lines: "list_all2 (\<lambda>r l. record_to_vec sample_json r = Some l \<and> length l \<le> max_logical_record_size) ?records
      (map (\<lambda>r. spell_all (record_fields r)) ?records)"
    unfolding list.rel_map
  proof (rule list.rel_refl_strong)
    fix r assume "r \<in> set ?records"
    with source_records_short have "length (spell_all (record_fields r)) < 10000" by blast
    then show "record_to_vec sample_json r = Some (spell_all (record_fields r))
        \<and> length (spell_all (record_fields r)) \<le> max_logical_record_size"
      by (simp add: sample_json_def max_logical_record_size_def)
  qed
  have "buffers source_file [Some source_file]" using source_file_nonempty by (simp add: buffers_Cons)
  moreover have "length source_uuid = 16" by code_simp
  ultimately show ?thesis
    using export_reads_back [OF gregorian.calendar_codec_axioms sample_json_law, of "\<lambda>s. s" plain_lib source_contents
        "map (\<lambda>r. spell_all (record_fields r)) ?records" "[Some source_file]"] lines
      survey_replayed_ok builtin_catalogue_ok(2) [OF id_nfc_laws]
    by (simp add: source_contents_def imported_of_def source_sorted source_file_def)
qed

lemma sample_import:
  "\<exists>report d remap. import_store (\<lambda>s. s) plain_lib gregorian sample_json calm_env (Some [Some source_file]) None None =
     Some (Inr report, (d, remap))"
proof -
  have reads: "read_export sample_json plain_lib gregorian (Some [Some source_file]) = Some (Inr (imported_of source_contents))"
    by (rule source_read)
  have cat: "catalogue (\<lambda>s. s) plain_lib gregorian (imported_roles (imported_of source_contents))
      (imported_posits (imported_of source_contents))"
      "builtins_present (imported_roles (imported_of source_contents))"
    using imported_of_sound [of "\<lambda>s. s" plain_lib gregorian source_contents] survey_replayed_ok
      builtin_catalogue_ok(2) [OF id_nfc_laws] by (simp_all add: source_contents_def)
  have "\<exists>report w. import_store (\<lambda>s. s) plain_lib gregorian sample_json calm_env (Some [Some source_file]) None None =
     Some (Inr report, w)"
    by (rule gregorian.import_store_succeeds [OF reads calm_untroubled sample_json_law _ _ cat])
      (use other_uuid sample_ids builtin_fits survey_fits in
        \<open>simp_all add: source_contents_def imported_of_def source_sorted foreign_identities_def sample_lengths\<close>)
  then show ?thesis by simp
qed

end
