(* ===== verification/Maintenance_Properties.thy ===== *)
theory Maintenance_Properties
  imports Maintenance_Sample
begin

text \<open>
  Logical transfer and backup as a user sees them: an export is read back as what was exported, an
  import of it makes another store with the same contents under new identities, and does so unless a
  call fails; a backup is a copy.
\<close>

section \<open>Exports\<close>

text \<open>C7: an export that succeeds, of a store that is not empty, wrote one file; reading that file,
  whatever buffers it arrives in, gives back the identity of the store and exactly its roles and posits,
  each sorted by identity.\<close>

theorem export_is_read_back:
  assumes "calendar_codec C" and "json_law J"
    and "export_store nfc L C J canonicalize shareable fault store_path (Some source) output_path output =
      (Inr exported, file)"
    and "log_fits source" and "\<forall>bs. manifest_file source = Some bs \<longrightarrow> length bs < 2 ^ 64"
    and "exp_roles exported \<noteq> 0"
  shows "\<exists>s rs bs. open_snapshot_replayed nfc L C shareable (Some source) = Inr (s, rs)
    \<and> output = None \<and> file = Some bs \<and> exp_bytes_written exported = length bs
    \<and> (\<forall>reader. buffers bs reader \<longrightarrow> read_export J L C (Some reader) =
        Some (Inr \<lparr>imported_uuid = format_uuid (replayed_uuid rs),
          imported_roles = sort_key role_identity (replayed_roles rs),
          imported_posits = sort_key posit_identity (replayed_posits rs)\<rparr>))"
proof -
  obtain s rs ls where snap: "open_snapshot_replayed nfc L C shareable (Some source) = Inr (s, rs)"
    and written: "file = Some (lines_of ls)"
    and lines: "list_all2 (\<lambda>r l. record_to_vec J r = Some l \<and> length l \<le> max_logical_record_size)
      (export_records (imported_uuid (imported_of rs)) (imported_roles (imported_of rs)) (imported_posits (imported_of rs))) ls"
    by (rule export_store_Inr [OF assms(3)])
  note report = export_store_report [OF assms(3) snap written]
  have used: "replayed_roles rs \<noteq> []" using report(2) assms(6) by auto
  note sound = snapshot_sound [OF assms(1) snap assms(4) _ used]
  have "read_export J L C (Some reader) = Some (Inr (imported_of rs))" if "buffers (lines_of ls) reader" for reader
    by (rule export_reads_back [OF assms(1,2) sound lines that]) (use assms(5) in blast)+
  with snap written report show ?thesis by (auto simp: imported_of_def)
qed

theorem export_is_read_back_witness:
  "\<exists>d exported file. export_store (\<lambda>s. s) plain_lib gregorian sample_json Inr True No_file_fault
      [''/'', ''store''] (Some d) [''/'', ''export''] None = (Inr exported, Some file)
    \<and> read_export sample_json plain_lib gregorian (Some [Some file]) =
        Some (Inr \<lparr>imported_uuid = format_uuid source_uuid, imported_roles = builtin_catalogue,
          imported_posits = survey_replayed\<rparr>)"
proof -
  obtain d s where d: "open_snapshot_replayed (\<lambda>s. s) plain_lib gregorian True (Some d) = Inr (s, source_contents)"
      "log_fits d" "\<forall>bs. manifest_file d = Some bs \<longrightarrow> length bs < 2 ^ 64"
    by (rule source_disk)
  have "buffers source_file [Some source_file]" using source_file_nonempty by (simp add: buffers_Cons)
  then have "read_export sample_json plain_lib gregorian (Some [Some source_file]) =
        Some (Inr \<lparr>imported_uuid = format_uuid source_uuid, imported_roles = builtin_catalogue,
          imported_posits = survey_replayed\<rparr>)"
    using export_is_read_back [OF gregorian.calendar_codec_axioms sample_json_law source_exported [OF d(1)] d(2,3)]
      d(1) source_sorted by (auto simp: source_contents_def)
  with source_exported [OF d(1)] show ?thesis by blast
qed

section \<open>Imports\<close>

text \<open>C6: what an import of such a file leaves when it succeeds is another store, with another identity,
  whose roles and posits are those of the source, renamed.  The renaming is injective, fixes the
  identities of the built-in roles and moves every other identity to one that is not its own and not
  reserved; the remap file records it for every identity the export refers to.\<close>

theorem imported_export_is_renamed_copy:
  assumes "calendar_codec C" and "json_law J"
    and "export_store nfc L C J canonicalize shareable fault store_path (Some source) output_path output =
      (Inr exported, Some file)"
    and "log_fits source" and "\<forall>bs. manifest_file source = Some bs \<longrightarrow> length bs < 2 ^ 64"
    and "exp_roles exported \<noteq> 0" and "buffers file reader"
    and "\<forall>bs. env_random E = Some bs \<longrightarrow> length bs = 16"
    and "import_store nfc L C J E (Some reader) destination remap = Some (Inr report, (d, remap'))"
  shows "\<exists>s rs t rs' f d'. open_snapshot_replayed nfc L C shareable (Some source) = Inr (s, rs)
    \<and> destination = None \<and> remap = None \<and> d = Some d'
    \<and> open_snapshot_replayed nfc L C True (Some d') = Inr (t, rs')
    \<and> replayed_uuid rs' \<noteq> replayed_uuid rs
    \<and> fresh_renaming (identities_of (replayed_roles rs) (replayed_posits rs)) f
    \<and> replayed_roles rs' = map (rename_role f) (sort_key role_identity (replayed_roles rs))
    \<and> replayed_posits rs' = map (rename_posit f) (sort_key posit_identity (replayed_posits rs))
    \<and> remap' = map_option (\<lambda>bs. bs @ [10]) (remap_to_vec J \<lparr>doc_format = identity_remap_format,
        doc_version = identity_remap_version, doc_source_store_uuid = format_uuid (replayed_uuid rs),
        doc_destination_store_uuid = format_uuid (replayed_uuid rs'),
        doc_mappings = remap_entries (format_uuid (replayed_uuid rs)) (format_uuid (replayed_uuid rs')) f
          (sorted_list_of_set (identities_of (replayed_roles rs) (replayed_posits rs)))\<rparr>)"
proof -
  obtain s rs ls where snap: "open_snapshot_replayed nfc L C shareable (Some source) = Inr (s, rs)"
    and ls: "Some file = Some (lines_of ls)"
    and lines: "list_all2 (\<lambda>r l. record_to_vec J r = Some l \<and> length l \<le> max_logical_record_size)
      (export_records (imported_uuid (imported_of rs)) (imported_roles (imported_of rs)) (imported_posits (imported_of rs))) ls"
    by (rule export_store_Inr [OF assms(3)])
  have used: "replayed_roles rs \<noteq> []" using export_store_report(2) [OF assms(3) snap ls] assms(6) by auto
  have small: "length bs < 2 ^ 64" if "manifest_file source = Some bs" for bs using that assms(5) by blast
  note sound = snapshot_sound [OF assms(1) snap assms(4) small used]
  have reads: "read_export J L C (Some reader) = Some (Inr (imported_of rs))"
    by (rule export_reads_back [OF assms(1,2) sound lines]) (use assms(7) ls in auto)
  have random: "length bs = 16" if "env_random E = Some bs" for bs using that assms(8) by blast
  note imported = calendar_codec.import_store_holds [OF assms(1,9) reads random imported_of_sound [OF sound(1,2)]]
  have ids: "foreign_identities (imported_of rs) = identities_of (replayed_roles rs) (replayed_posits rs)"
    by (simp add: foreign_identities_def imported_of_def identities_of_def)
  from imported snap show ?thesis unfolding renamed_copy_def ids by (fastforce simp: imported_of_def)
qed

theorem imported_export_is_renamed_copy_witness:
  "\<exists>report d remap' t rs' f. import_store (\<lambda>s. s) plain_lib gregorian sample_json calm_env (Some [Some source_file])
      None None = Some (Inr report, (Some d, remap'))
    \<and> open_snapshot_replayed (\<lambda>s. s) plain_lib gregorian True (Some d) = Inr (t, rs')
    \<and> fresh_renaming (identities_of builtin_catalogue survey_replayed) f
    \<and> replayed_posits rs' = map (rename_posit f) survey_replayed"
proof -
  obtain d s where d: "open_snapshot_replayed (\<lambda>s. s) plain_lib gregorian True (Some d) = Inr (s, source_contents)"
      "log_fits d" "\<forall>bs. manifest_file d = Some bs \<longrightarrow> length bs < 2 ^ 64"
    by (rule source_disk)
  have buffered: "buffers source_file [Some source_file]" using source_file_nonempty by (simp add: buffers_Cons)
  obtain report w remap' where run: "import_store (\<lambda>s. s) plain_lib gregorian sample_json calm_env
      (Some [Some source_file]) None None = Some (Inr report, (w, remap'))"
    using sample_import by blast
  have "\<forall>bs. env_random calm_env = Some bs \<longrightarrow> length bs = 16" by (simp add: calm_env_def)
  from imported_export_is_renamed_copy [OF gregorian.calendar_codec_axioms sample_json_law source_exported [OF d(1)]
      d(2,3) _ buffered this run] d(1) run show ?thesis
    by (fastforce simp: source_contents_def source_sorted)
qed

text \<open>C8: importing such a file succeeds, whatever buffers it arrives in, when no call fails, the fresh
  identity of the store differs from that of the source, and roles and posits fit their frames, the log
  and the space of identities.\<close>

theorem import_of_export_succeeds:
  assumes "calendar_codec C" and "json_law J"
    and "export_store nfc L C J canonicalize shareable fault store_path (Some source) output_path output =
      (Inr exported, Some file)"
    and "open_snapshot_replayed nfc L C shareable (Some source) = Inr (s, rs)"
    and "log_fits source" and "\<forall>bs. manifest_file source = Some bs \<longrightarrow> length bs < 2 ^ 64"
    and "exp_roles exported \<noteq> 0" and "buffers file reader"
    and "untroubled E random" and "length random = 16"
    and "format_uuid (mark_uuid random) \<noteq> exp_source_store_uuid exported"
    and "\<forall>r \<in> set (replayed_roles rs). fits_role r" and "\<forall>p \<in> set (replayed_posits rs). fits_frame p"
    and "exp_roles exported + 2 * exp_posits exported < 2 ^ 39"
    and "6 + 2 * card (identities_of (replayed_roles rs) (replayed_posits rs)) < 2 ^ 64"
  shows "\<exists>report w. import_store nfc L C J E (Some reader) None None = Some (Inr report, w)"
proof -
  obtain s' rs' ls where "open_snapshot_replayed nfc L C shareable (Some source) = Inr (s', rs')"
    and ls: "Some file = Some (lines_of ls)"
    and lines': "list_all2 (\<lambda>r l. record_to_vec J r = Some l \<and> length l \<le> max_logical_record_size)
      (export_records (imported_uuid (imported_of rs')) (imported_roles (imported_of rs')) (imported_posits (imported_of rs'))) ls"
    by (rule export_store_Inr [OF assms(3)])
  then have lines: "list_all2 (\<lambda>r l. record_to_vec J r = Some l \<and> length l \<le> max_logical_record_size)
      (export_records (imported_uuid (imported_of rs)) (imported_roles (imported_of rs)) (imported_posits (imported_of rs))) ls"
    using assms(4) by simp
  note report = export_store_report [OF assms(3,4) ls]
  have used: "replayed_roles rs \<noteq> []" using report(2) assms(7) by auto
  have small: "length bs < 2 ^ 64" if "manifest_file source = Some bs" for bs using that assms(6) by blast
  note sound = snapshot_sound [OF assms(1,4,5) small used]
  have reads: "read_export J L C (Some reader) = Some (Inr (imported_of rs))"
    by (rule export_reads_back [OF assms(1,2) sound lines]) (use assms(8) ls in auto)
  show ?thesis
    by (rule calendar_codec.import_store_succeeds [OF assms(1) reads assms(9,2,10) _ imported_of_sound [OF sound(1,2)]])
      (use assms(11-15) report in \<open>simp_all add: imported_of_def foreign_identities_def identities_of_def\<close>)
qed

theorem import_of_export_succeeds_witness:
  "\<exists>report w. import_store (\<lambda>s. s) plain_lib gregorian sample_json calm_env (Some [Some source_file]) None None =
     Some (Inr report, w)"
proof -
  obtain d s where d: "open_snapshot_replayed (\<lambda>s. s) plain_lib gregorian True (Some d) = Inr (s, source_contents)"
      "log_fits d" "\<forall>bs. manifest_file d = Some bs \<longrightarrow> length bs < 2 ^ 64"
    by (rule source_disk)
  have buffered: "buffers source_file [Some source_file]" using source_file_nonempty by (simp add: buffers_Cons)
  show ?thesis
    by (rule import_of_export_succeeds [OF gregorian.calendar_codec_axioms sample_json_law source_exported [OF d(1)] d
        _ buffered calm_untroubled])
      (use other_uuid sample_ids builtin_fits survey_fits in \<open>simp_all add: source_contents_def\<close>)
qed

section \<open>Backups\<close>

text \<open>C9: a backup of a store that opens, to a path outside it where nothing exists, succeeds when no call
  fails.  It holds the same batches under the same identity, ends where the committed log ends, and opens
  to the same contents.\<close>

theorem backup_is_copy:
  assumes "calendar_codec C" and "log_fits source" and "\<forall>bs. manifest_file source = Some bs \<longrightarrow> length bs < 2 ^ 64"
    and "open_snapshot_replayed nfc L C True (Some source) = Inr (s, rs)"
    and "reject_path_inside_store canonicalize store_path destination_path = Inr ()"
  shows "\<exists>d uuid bss s'. backup_store nfc L C canonicalize True No_backup_fault True store_path (Some source)
      destination_path None = (Inr \<lparr>bak_store_uuid = format_uuid (replayed_uuid rs),
        bak_committed_length = committed_length (snap_manifest s), bak_roles = length (replayed_roles rs),
        bak_posits = length (replayed_posits rs)\<rparr>, Some d)
    \<and> disk_holds source uuid bss \<and> committed_copy d uuid bss
    \<and> open_snapshot_replayed nfc L C True (Some d) = Inr (s', rs)"
  by (rule backup_copies [OF assms(1,2) _ assms(4,5)]) (use assms(3) in blast)

theorem backup_is_copy_witness:
  "\<exists>source s d s'. open_snapshot_replayed (\<lambda>s. s) plain_lib gregorian True (Some source) = Inr (s, source_contents)
    \<and> (\<exists>report. backup_store (\<lambda>s. s) plain_lib gregorian Inr True No_backup_fault True [''/'', ''store''] (Some source)
        [''/'', ''backup''] None = (Inr report, Some d))
    \<and> open_snapshot_replayed (\<lambda>s. s) plain_lib gregorian True (Some d) = Inr (s', source_contents)"
proof -
  obtain d s where d: "open_snapshot_replayed (\<lambda>s. s) plain_lib gregorian True (Some d) = Inr (s, source_contents)"
      "log_fits d" "\<forall>bs. manifest_file d = Some bs \<longrightarrow> length bs < 2 ^ 64"
    by (rule source_disk)
  have "reject_path_inside_store Inr [''/'', ''store''] [''/'', ''backup''] = Inr ()" by code_simp
  from backup_is_copy [OF gregorian.calendar_codec_axioms d(2,3,1) this] d(1) show ?thesis by blast
qed

end
