(* ===== verification/Spec2Isabelle.thy ===== *)
theory Spec2Isabelle
  imports Prelude Errors Text Times Calendar Reduction Certainty Json Literals Bytes Records
    Posit_Records Frames Store Store_Properties Replay Construct Database Database_Invariants
    Database_Operations Posit_Operations New_Database Database_Properties
    Saturating Effect Effect_Properties Budget Budget_Properties
    Visiting Query Query_Index Query_Variables Result_Sets Query_Execution Query_Plan Query_Pipeline
    Query_Typing Query_Order Query_Bindings Query_Traces Query_Soundness Query_Predicates Query_Branches
    Query_Agreement Query_Streaming
    Terrain Terrain_Outcomes Terrain_Frames Terrain_Profiles Terrain_Populations Terrain_Relationships
    Terrain_Sample Terrain_Properties
    Snapshot Logical_Transfer Maintenance Maintenance_Reading Maintenance_Import Maintenance_Stores
    Maintenance_Runs Maintenance_Results Sample_Json Maintenance_Sample Maintenance_Properties
begin

text \<open>
  Positorium is a bitemporal database of posits: statements that a set of appearances (things in roles)
  has a literal value at a time, with assertions of such statements by positors, which are posits
  themselves.  This development models its engine in Rust, \<open>src/src/\<close>, and proves it correct.

  The parts and the theories that model them, from the bottom up:

  \<^item> \<open>Prelude\<close>, \<open>Errors\<close>, \<open>Text\<close>, \<open>Saturating\<close>: results as sums with the question-mark operators
    \<open>attempt\<close> and \<open>attempt_st\<close>, machine arithmetic, UTF-8 and decimal text, and the error enum of
    \<open>error.rs\<close>.
  \<^item> \<open>Times\<close>, \<open>Calendar\<close>, \<open>Certainty\<close>: the values of \<open>datatype.rs\<close>.  A time denotes a half-open interval of
    instants; \<open>chrono\<close> is an argument with the laws of \<open>Calendar\<close>, met by the proleptic Gregorian calendar.
  \<^item> \<open>Reduction\<close>: the temporal reductions of \<open>datatype/temporal.rs\<close>, with the work callback as an argument.
  \<^item> \<open>Json\<close>, \<open>Literals\<close>: the literals of \<open>literal.rs\<close>; \<open>BigDecimal\<close> and \<open>serde_json\<close> are arguments.
  \<^item> \<open>Bytes\<close>, \<open>Records\<close>, \<open>Posit_Records\<close>, \<open>Frames\<close>, \<open>Store\<close>, \<open>Replay\<close>: \<open>storage.rs\<close> from LEB128 and CRC-32C up to
    the files of a store.  A disk is the log, the manifest and the manifest being written; every
    operation takes the failure (\<open>io_fault\<close>) that the operating system makes it meet, which may stop it
    at any point with any prefix written, and leaves the disk a later open would find.
  \<^item> \<open>Construct\<close>, \<open>Database\<close>: the keepers, the lookups and the database of \<open>construct.rs\<close>.  A shared construct is
    its value; hash keys are what \<open>Hash\<close> and \<open>Eq\<close> see; operations thread the database.
  \<^item> \<open>Effect\<close>: the information in effect at two cuts, \<open>effect.rs\<close>.
  \<^item> \<open>Budget\<close>: work and memory accounting of queries, \<open>traqula/budget.rs\<close>.
  \<^item> \<open>Visiting\<close>, \<open>Query\<close>, \<open>Query_Index\<close>, \<open>Query_Variables\<close>, \<open>Query_Execution\<close>: \<open>traqula/query.rs\<close>, from the values
    of variables over the matching of patterns, the candidates the lookups give and the validation of a
    query to the executor that computes one relation after another.
  \<^item> \<open>Query_Plan\<close>: the planner, \<open>traqula/query/plan.rs\<close>; \<open>Query_Pipeline\<close>: the executor that produces one binding
    at a time, \<open>traqula/query/pipeline.rs\<close>.
  \<^item> \<open>Result_Sets\<close>: the sets of things of \<open>traqula.rs\<close>.
  \<^item> \<open>Terrain\<close>: the structural reports of \<open>terrain.rs\<close>, from the wait for the execution owner over the capture
    of a database to the report on all its posits and on those in effect.  What surrounds a run
    (\<open>terrain_env\<close>: both clocks, the owner lock, the order in which a hash map is iterated) and the
    cancellation token are arguments, which may change the state they are read from at every call.
  \<^item> \<open>Snapshot\<close>: the read-only \<open>StoreSnapshot\<close> of \<open>storage.rs\<close> and its physical backup; \<open>Logical_Transfer\<close>,
    \<open>Maintenance\<close>: the tools of \<open>maintenance.rs\<close>.  An export is a list of logical records, one line each;
    an import reads and validates them, gives every identity that is not built in a fresh one, appends the
    result to a new store in batches, verifies it and writes the map of identities.  A directory is a disk
    or None, a file its bytes or None; \<open>file_fault\<close>, \<open>backup_fault\<close> and \<open>import_env\<close> say which call of the
    operating system fails, and a reader is the list of the buffers its file arrives in.

  The properties, by theory:

  \<^item> \<open>Store_Properties\<close>, \<open>Frames\<close>, \<open>Posit_Records\<close>, \<open>Replay\<close>: a store opens exactly if it is one; an append is
    atomic under failures, fails closed, and succeeds when no call fails; both backends meet the
    contract of \<open>StoreBackend\<close> (locale \<open>store_backend\<close> and its interpretations); records are read back as
    written and in one way only; a damaged frame is rejected; whatever opens is a sound catalogue.
  \<^item> \<open>Database_Invariants\<close>, \<open>Database_Operations\<close>, \<open>Posit_Operations\<close>, \<open>New_Database\<close>, \<open>Database_Properties\<close>: the
    invariant of the keepers and lookups, its preservation by every operation, the agreement of a
    database with its disk, and from these the atomicity and the answers of creating roles and posits,
    and the recovery by reopening.
  \<^item> \<open>Effect_Properties\<close>: the resolution equals a definition over sets of posits; its comparison limit is
    never reached with the default limits.
  \<^item> \<open>Reduction\<close>, \<open>Times\<close>, \<open>Literals\<close>, \<open>Certainty\<close>: reference definitions, work bounds and cancellation of the
    temporal reductions, the interval order, nominal equality as equality of denotations.
  \<^item> \<open>Query_Typing\<close>, \<open>Query_Order\<close>: the domains of variables as a type system in which validation infers an
    environment, whatever the order of the patterns; planning a validated query terminates with a plan
    that respects dependencies and estimates.
  \<^item> \<open>Query_Bindings\<close>, \<open>Query_Soundness\<close>, \<open>Query_Predicates\<close>: matching and evaluating a pattern preserve the
    types of bindings and fail only on a candidate identity that is not a posit; predicates of validated
    queries can be decided, as early as their operands are bound.
  \<^item> \<open>Query_Traces\<close>, \<open>Query_Branches\<close>, \<open>Query_Agreement\<close>, \<open>Query_Streaming\<close>: what a visitor is called with is a
    trace, and on the queries the planner lets stream without an order, both executors agree: the pipeline
    never fails where the materialized executor answers, and hands the sink the same rows.
  \<^item> \<open>Terrain_Outcomes\<close>, \<open>Terrain_Frames\<close>, \<open>Terrain_Profiles\<close>, \<open>Terrain_Populations\<close>, \<open>Terrain_Relationships\<close>: what
    each step of a report returns unless the run is interrupted, over the set of posits it stands for;
    \<open>Terrain_Sample\<close>, \<open>Terrain_Properties\<close>: a report is the one a reference over sets of posits describes, no
    consistency check of a run on a sound database fails, and a run with a timeout comes back.
  \<^item> \<open>Maintenance_Reading\<close>, \<open>Maintenance_Import\<close>, \<open>Maintenance_Stores\<close>, \<open>Maintenance_Runs\<close>, \<open>Maintenance_Results\<close>:
    an export is read back, the renaming of identities is fresh and carries a sound catalogue to a sound
    catalogue, and the appends of an import leave a store that replays to it; \<open>Sample_Json\<close>,
    \<open>Maintenance_Sample\<close>, \<open>Maintenance_Properties\<close>: exports are read back, imports make renamed copies and
    succeed when no call fails, backups are copies.
  \<^item> \<open>Budget_Properties\<close>: the memory account is exact at every moment, work is charged exactly, and a
    budgeted vector gives back what it holds.

  No definition needs fuel: loops of the code are structural recursions over the data they consume,
  or recursions with a measure; the one loop that may go on, the wait for the owner in \<open>Terrain\<close>, is a
  partial function, which \<open>Terrain_Properties\<close> shows to end when there is a timeout.  Where the code would
  panic or wrap around, the result is None or the wrap-around is written out, and the properties state
  the bounds under which neither happens.

  Arguments of the model are the crates the code calls: \<open>chrono\<close>, \<open>BigDecimal\<close> and \<open>serde_json\<close> (\<open>literal_lib\<close>,
  and \<open>transfer_json\<close> with the law \<open>json_law\<close> that what it writes on a line is read back),
  Unicode normalisation (\<open>nfc\<close>), the store's random UUID, the allocator.  Hash maps are maps, bitmaps are
  finite sets iterated in ascending order.

  The query engine is modelled for an execution that no limit, deadline or cancellation ends:
  charging work and reserving workspace then succeed and change nothing else.  What they do under
  limits is the subject of \<open>Budget\<close>.

  Not modelled: the parser of Traqula and the statements that call it (the grammar is compiled by
  \<open>pest\<close> into code that is not in the repository, and \<open>traqula.rs\<close> and the \<open>parse_\<close> functions of
  \<open>query.rs\<close> walk its parse trees), the text of explained plans, file locks and paths (what
  \<open>canonicalize\<close> makes of a path is an argument), mutex poisoning, the floating-point conversions of
  certainties, the clock outside \<open>Terrain\<close>; \<open>interface.rs\<close> (worker threads), the server, the Python and WebAssembly bindings and the command-line
  programs.
\<close>

end
